(* ===== verification/Prelude.thy ===== *)
theory Prelude
  imports Main "HOL-Library.Word"
begin

text \<open>
  The shared vocabulary of the development: the C integer types, what an execution of C code can
  end in, bounds-checked access to byte arrays, the byte order of 16-bit fields, and the generic
  lemmas on words, byte lists and results that the component theories use.
\<close>

unbundle bit_operations_syntax

section \<open>C types\<close>

type_synonym u8 = "8 word"
type_synonym u16 = "16 word"
type_synonym u32 = "32 word"
type_synonym bytes = "u8 list"

text \<open>A four-byte array \<^verbatim>\<open>u8_t x[4]\<close>, most significant byte first.\<close>

type_synonym quad = "u8 \<times> u8 \<times> u8 \<times> u8"

text \<open>\<^verbatim>\<open>uip_ip4addr_t\<close>: two 16-bit words, as they lie in memory on the little-endian target.\<close>

type_synonym ip4addr = "u16 \<times> u16"

named_theorems word_unat
  \<comment> \<open>values of word expressions as natural numbers\<close>

named_theorems frame
  \<comment> \<open>fields an operation does not change\<close>

section \<open>Outcomes of C code\<close>

text \<open>
  An execution ends normally (\<open>Inr\<close>), or it leaves what the C code defines: it accesses an array
  outside its bounds, follows a null pointer, never returns, or stops in \<^verbatim>\<open>FATAL\<close> (which a failed
  \<^verbatim>\<open>ASSERT\<close> calls).
\<close>

datatype fault = OutOfBounds | NullDeref | Hang | Fatal

type_synonym 'a res = "fault + 'a"

definition res_bind :: "'a res \<Rightarrow> ('a \<Rightarrow> 'b res) \<Rightarrow> 'b res" where
  "res_bind m f = (case m of Inl e \<Rightarrow> Inl e | Inr x \<Rightarrow> f x)"

lemma res_bind_simps [simp]:
  "res_bind (Inl e) f = Inl e"
  "res_bind (Inr x) f = f x"
  by (simp_all add: res_bind_def)

lemma res_bind_Inr_iff:
  "res_bind m f = Inr y \<longleftrightarrow> (\<exists>x. m = Inr x \<and> f x = Inr y)"
  by (cases m) simp_all

lemma res_bind_InrE [elim]:
  assumes "res_bind m f = Inr y"
  obtains x where "m = Inr x" and "f x = Inr y"
  using assms by (auto simp: res_bind_Inr_iff)

lemma res_bind_assoc: "res_bind (res_bind m f) g = res_bind m (\<lambda>x. res_bind (f x) g)"
  by (cases m) simp_all

lemma res_bind_cong [fundef_cong]:
  "m = m' \<Longrightarrow> (\<And>x. m' = Inr x \<Longrightarrow> f x = f' x) \<Longrightarrow> res_bind m f = res_bind m' f'"
  by (cases m') simp_all

section \<open>Byte arrays\<close>

text \<open>
  \<open>mem_read\<close> and \<open>mem_write\<close> are the two sides of \<^verbatim>\<open>memcpy\<close>: \<open>n\<close> bytes from, or the given
  bytes to, offset \<open>off\<close> of an array. A copy that leaves the array is \<open>OutOfBounds\<close>.
\<close>

definition mem_read :: "bytes \<Rightarrow> nat \<Rightarrow> nat \<Rightarrow> bytes res" where
  "mem_read b off n = (if off + n \<le> length b then Inr (take n (drop off b)) else Inl OutOfBounds)"

definition mem_write :: "bytes \<Rightarrow> nat \<Rightarrow> bytes \<Rightarrow> bytes res" where
  "mem_write b off d =
     (if off + length d \<le> length b then Inr (take off b @ d @ drop (off + length d) b)
      else Inl OutOfBounds)"

lemma length_mem_read: "mem_read b off n = Inr d \<Longrightarrow> length d = n"
  by (auto simp: mem_read_def split: if_splits)

lemma length_mem_write: "mem_write b off d = Inr b' \<Longrightarrow> length b' = length b"
  by (auto simp: mem_write_def split: if_splits)

lemma mem_write_nth:
  assumes "mem_write b off d = Inr b'" and "i < length b"
  shows "b' ! i = (if off \<le> i \<and> i < off + length d then d ! (i - off) else b ! i)"
  using assms by (auto simp: mem_write_def nth_append min_def split: if_splits)

lemma mem_read_write:
  assumes "mem_write b off d = Inr b'"
  shows "mem_read b' off (length d) = Inr d"
  using assms by (auto simp: mem_write_def mem_read_def min_def split: if_splits)

lemma mem_write_Inr_iff: "(\<exists>b'. mem_write b off d = Inr b') \<longleftrightarrow> off + length d \<le> length b"
  by (auto simp: mem_write_def)

section \<open>Byte order\<close>

definition hi8 :: "u16 \<Rightarrow> u8" where
  "hi8 w = ucast (drop_bit 8 w)"

definition lo8 :: "u16 \<Rightarrow> u8" where
  "lo8 w = ucast w"

definition be16 :: "u8 \<Rightarrow> u8 \<Rightarrow> u16" where
  "be16 a b = push_bit 8 (ucast a) + ucast b"

text \<open>A 16-bit field of a packet as the little-endian CPU loads and stores it.\<close>

definition get16 :: "bytes \<Rightarrow> nat \<Rightarrow> u16" where
  "get16 b i = be16 (b ! (i + 1)) (b ! i)"

definition put16 :: "bytes \<Rightarrow> nat \<Rightarrow> u16 \<Rightarrow> bytes" where
  "put16 b i w = b[i := lo8 w, i + 1 := hi8 w]"

lemma unat_less_exp: "unat (a :: 'a::len word) < 2 ^ LENGTH('a)"
  by (rule unsigned_less)

lemma unat_u8_less: "unat (a :: u8) < 256"
  using unsigned_less [of a] by simp

lemma unat_u16_less: "unat (a :: u16) < 65536"
  using unsigned_less [of a] by simp

lemma unat_u8_le [simp]: "unat (a :: u8) \<le> 255"
  using unat_u8_less [of a] by linarith

lemma unat_u16_le [simp]: "unat (a :: u16) \<le> 65535"
  using unat_u16_less [of a] by linarith

lemma unat_be16 [word_unat]: "unat (be16 a b) = 256 * unat a + unat b"
proof -
  have a: "unat a < 256" and b: "unat b < 256" by (rule unat_u8_less)+
  have "unat (push_bit 8 (ucast a :: u16)) = 256 * unat a"
    using a by (simp add: push_bit_eq_mult unat_word_ariths unsigned_ucast_eq take_bit_eq_mod)
  then show ?thesis
    using a b by (simp add: be16_def unat_word_ariths unsigned_ucast_eq take_bit_eq_mod)
qed

lemma unat_hi8 [word_unat]: "unat (hi8 w) = unat w div 256"
proof -
  have "unat w div 256 < 256"
    using unat_u16_less [of w] by linarith
  then show ?thesis
    by (simp add: hi8_def unsigned_ucast_eq unat_drop_bit_eq drop_bit_nat_def take_bit_eq_mod)
qed

lemma unat_lo8 [word_unat]: "unat (lo8 w) = unat w mod 256"
  by (simp add: lo8_def unsigned_ucast_eq take_bit_eq_mod)

lemma be16_hi_lo [simp]: "be16 (hi8 w) (lo8 w) = w"
  by (rule word_unat_eq_iff [THEN iffD2]) (simp add: word_unat)

lemma hi8_be16 [simp]: "hi8 (be16 a b) = a"
  using unat_u8_less [of b] by (simp add: word_unat_eq_iff word_unat)

lemma lo8_be16 [simp]: "lo8 (be16 a b) = b"
  using unat_u8_less [of b] by (simp add: word_unat_eq_iff word_unat)

lemma be16_inject [simp]: "be16 a b = be16 c d \<longleftrightarrow> a = c \<and> b = d"
  by (metis hi8_be16 lo8_be16)

lemma unat_NOT_u16 [word_unat]: "unat (NOT w :: u16) = 65535 - unat w"
proof -
  have "NOT w = 65535 - w"
    by (simp add: not_eq_complement)
  moreover have "w \<le> 65535"
    by (simp add: word_le_nat_alt)
  ultimately show ?thesis
    by (simp add: unat_sub)
qed

lemma get16_put16:
  "i + 1 < length b \<Longrightarrow> get16 (put16 b i w) i = w"
  by (simp add: get16_def put16_def)

lemma length_put16 [simp]: "length (put16 b i w) = length b"
  by (simp add: put16_def)

lemma nth_put16:
  "i + 1 < length b \<Longrightarrow> put16 b i w ! j = (if j = i then lo8 w else if j = i + 1 then hi8 w else b ! j)"
  by (simp add: put16_def nth_list_update)

section \<open>Four-byte counters\<close>

fun quad_val :: "quad \<Rightarrow> nat" where
  "quad_val (a, b, c, d) = ((unat a * 256 + unat b) * 256 + unat c) * 256 + unat d"

lemma quad_val_less: "quad_val q < 2 ^ 32"
proof (cases q)
  case (fields a b c d)
  have "unat a < 256" "unat b < 256" "unat c < 256" "unat d < 256" by (rule unat_u8_less)+
  then show ?thesis by (simp add: fields)
qed

lemma base256_inject:
  assumes "(y :: nat) < 256" and "y' < 256"
  shows "x * 256 + y = x' * 256 + y' \<longleftrightarrow> x = x' \<and> y = y'"
proof
  assume eq: "x * 256 + y = x' * 256 + y'"
  with assms have "x = x'" by linarith
  with eq show "x = x' \<and> y = y'" by simp
qed simp

lemma quad_val_inject: "quad_val p = quad_val q \<longleftrightarrow> p = q"
proof (cases p; cases q)
  fix a b c d a' b' c' d'
  assume p: "p = (a, b, c, d)" and q: "q = (a', b', c', d')"
  then show ?thesis
    by (simp only: quad_val.simps base256_inject unat_u8_less word_unat_eq_iff prod.inject conj_assoc)
qed

section \<open>Properties of outcomes\<close>

text \<open>
  A computation is \<open>res_ok E P\<close> when it returns a value with \<open>P\<close> or stops in a fault that \<open>E\<close>
  tolerates: \<open>E = (\<lambda>_. True)\<close> is partial correctness, \<open>E = (\<lambda>_. False)\<close> excludes every fault.
\<close>

definition res_ok :: "(fault \<Rightarrow> bool) \<Rightarrow> ('a \<Rightarrow> bool) \<Rightarrow> 'a res \<Rightarrow> bool" where
  "res_ok E P m = (case m of Inl e \<Rightarrow> E e | Inr x \<Rightarrow> P x)"

lemma res_ok_simps [simp]:
  "res_ok E P (Inl e) = E e"
  "res_ok E P (Inr x) = P x"
  by (simp_all add: res_ok_def)

lemma res_ok_bind:
  "res_ok E Q m \<Longrightarrow> (\<And>x. Q x \<Longrightarrow> res_ok E P (f x)) \<Longrightarrow> res_ok E P (res_bind m f)"
  by (cases m) simp_all

lemma res_ok_mono:
  "res_ok E Q m \<Longrightarrow> (\<And>e. E e \<Longrightarrow> E' e) \<Longrightarrow> (\<And>x. Q x \<Longrightarrow> P x) \<Longrightarrow> res_ok E' P m"
  by (cases m) simp_all

lemma res_ok_total: "res_ok (\<lambda>_. False) P m \<longleftrightarrow> (\<exists>x. m = Inr x \<and> P x)"
  by (cases m) simp_all

lemma res_ok_InrD: "res_ok E P m \<Longrightarrow> m = Inr x \<Longrightarrow> P x"
  by simp

section \<open>Slices of updated arrays\<close>

lemma take_drop_update:
  "take n (drop off (b[i := v])) =
     (if off \<le> i \<and> i < off + n then (take n (drop off b))[i - off := v] else take n (drop off b))"
proof (cases "off \<le> i")
  case True
  then show ?thesis
    by (auto simp: drop_update_swap take_update_swap take_update_cancel list_update_beyond)
qed (simp add: drop_update_cancel)

lemma take_drop_put16:
  assumes "off \<le> i" and "i + 1 < off + n"
  shows "take n (drop off (put16 b i w)) = put16 (take n (drop off b)) (i - off) w"
  using assms by (simp add: put16_def take_drop_update Suc_diff_le)

lemma take_drop_put16_other:
  assumes "i + 1 < off \<or> off + n \<le> i"
  shows "take n (drop off (put16 b i w)) = take n (drop off b)"
  using assms by (auto simp: put16_def take_drop_update)

end
