(* ===== verification/Uip_Arith.thy ===== *)
theory Uip_Arith
  imports Prelude
begin

text \<open>
  The arithmetic of \<^verbatim>\<open>library/uip/uip.c\<close>: byte-order conversion, 32-bit addition on byte arrays
  (TCP sequence numbers) and the Internet checksum; and the IP address macros of
  \<^verbatim>\<open>library/uip/uip.h\<close>.
\<close>

section \<open>Byte order and IP addresses\<close>

definition HTONS :: "u16 \<Rightarrow> u16" where
  "HTONS n = push_bit 8 n OR drop_bit 8 n"

definition htons :: "u16 \<Rightarrow> u16" where
  "htons val = HTONS val"

definition uip_ipaddr :: "u8 \<Rightarrow> u8 \<Rightarrow> u8 \<Rightarrow> u8 \<Rightarrow> ip4addr" where
  "uip_ipaddr addr0 addr1 addr2 addr3 =
     (HTONS (push_bit 8 (ucast addr0) OR ucast addr1), HTONS (push_bit 8 (ucast addr2) OR ucast addr3))"

definition uip_ipaddr_cmp :: "ip4addr \<Rightarrow> ip4addr \<Rightarrow> bool" where
  "uip_ipaddr_cmp addr1 addr2 \<longleftrightarrow> fst addr1 = fst addr2 \<and> snd addr1 = snd addr2"

definition uip_ipaddr_maskcmp :: "ip4addr \<Rightarrow> ip4addr \<Rightarrow> ip4addr \<Rightarrow> bool" where
  "uip_ipaddr_maskcmp addr1 addr2 msk \<longleftrightarrow>
     fst addr1 AND fst msk = fst addr2 AND fst msk \<and>
     snd addr1 AND snd msk = snd addr2 AND snd msk"

definition uip_ipaddr_mask :: "ip4addr \<Rightarrow> ip4addr \<Rightarrow> ip4addr" where
  "uip_ipaddr_mask src msk = (fst src AND fst msk, snd src AND snd msk)"

definition uip_ipaddr1 :: "ip4addr \<Rightarrow> u16" where
  "uip_ipaddr1 addr = drop_bit 8 (htons (fst addr))"

definition uip_ipaddr2 :: "ip4addr \<Rightarrow> u16" where
  "uip_ipaddr2 addr = htons (fst addr) AND 0xff"

definition uip_ipaddr3 :: "ip4addr \<Rightarrow> u16" where
  "uip_ipaddr3 addr = drop_bit 8 (htons (snd addr))"

definition uip_ipaddr4 :: "ip4addr \<Rightarrow> u16" where
  "uip_ipaddr4 addr = htons (snd addr) AND 0xff"

section \<open>32-bit addition on byte arrays\<close>

text \<open>
  The result is what the C function leaves in \<^verbatim>\<open>uip_acc32\<close>. The carries are propagated by the
  comparisons and the three pre-increments of the source, in its order.
\<close>

fun uip_add32 :: "quad \<Rightarrow> u16 \<Rightarrow> quad" where
  "uip_add32 (op0, op1, op2, op3) op16 =
     (let a3 = op3 + lo8 op16; a2 = op2 + hi8 op16; a1 = op1; a0 = op0;
          (a0, a1) = (if a2 < hi8 op16
                      then (let a1 = a1 + 1 in if a1 = 0 then (a0 + 1, a1) else (a0, a1))
                      else (a0, a1));
          (a0, a1, a2) = (if a3 < lo8 op16
                          then (let a2 = a2 + 1 in
                                if a2 = 0
                                then (let a1 = a1 + 1 in
                                      if a1 = 0 then (a0 + 1, a1, a2) else (a0, a1, a2))
                                else (a0, a1, a2))
                          else (a0, a1, a2))
      in (a0, a1, a2, a3))"

text \<open>The nested pre-increments used for \<^verbatim>\<open>iss\<close> and for the \<^verbatim>\<open>ackno\<close> of a reset segment.\<close>

fun quad_incr :: "quad \<Rightarrow> quad" where
  "quad_incr (q0, q1, q2, q3) =
     (let q3 = q3 + 1 in
      if q3 = 0
      then (let q2 = q2 + 1 in
            if q2 = 0
            then (let q1 = q1 + 1 in if q1 = 0 then (q0 + 1, q1, q2, q3) else (q0, q1, q2, q3))
            else (q0, q1, q2, q3))
      else (q0, q1, q2, q3))"

section \<open>The Internet checksum\<close>

definition carry_add :: "u16 \<Rightarrow> u16 \<Rightarrow> u16" where
  "carry_add acc t = (let acc = acc + t in if acc < t then acc + 1 else acc)"

fun chksum :: "u16 \<Rightarrow> bytes \<Rightarrow> u16" where
  "chksum acc (a # b # rest) = chksum (carry_add acc (be16 a b)) rest"
| "chksum acc [a] = carry_add acc (be16 a 0)"
| "chksum acc [] = acc"

definition uip_chksum :: "bytes \<Rightarrow> u16" where
  "uip_chksum data = htons (chksum 0 data)"

subsection \<open>Lemmas\<close>

lemma HTONS_be16: "HTONS (be16 a b) = be16 b a"
proof -
  have "be16 x y = push_bit 8 (ucast x) OR ucast y" for x y :: u8
    unfolding be16_def
    by (rule disjunctive_add) (auto simp: bit_simps dest: bit_imp_le_length)
  then show ?thesis
    unfolding HTONS_def
    by (simp only:) (rule bit_word_eqI, auto simp: bit_simps dest: bit_imp_le_length)
qed

lemma HTONS_HTONS [simp]: "HTONS (HTONS w) = w"
  by (metis HTONS_be16 be16_hi_lo)

lemma hi8_HTONS [simp]: "hi8 (HTONS w) = lo8 w"
  by (metis HTONS_be16 be16_hi_lo hi8_be16)

lemma lo8_HTONS [simp]: "lo8 (HTONS w) = hi8 w"
  by (metis HTONS_be16 be16_hi_lo lo8_be16)

lemma mod_add_wrap:
  "(x :: nat) < N \<Longrightarrow> y < N \<Longrightarrow> (x + y) mod N = (if x + y < N then x + y else x + y - N)"
  by (simp add: mod_if [of "x + y"])

lemma unat_add_wrap:
  "unat (a + b :: 'a::len word) =
     (if unat a + unat b < 2 ^ LENGTH('a) then unat a + unat b else unat a + unat b - 2 ^ LENGTH('a))"
  unfolding unat_word_ariths by (rule mod_add_wrap [OF unat_less_exp unat_less_exp])

lemma add_overflow_iff:
  "(a + b < (b :: 'a::len word)) \<longleftrightarrow> 2 ^ LENGTH('a) \<le> unat a + unat b"
proof -
  have wrap: "x < N \<Longrightarrow> (if x + y < N then x + y else x + y - N) < y \<longleftrightarrow> N \<le> x + y" for x y N :: nat
    by auto
  show ?thesis
    unfolding word_less_nat_alt unat_add_wrap by (rule wrap [OF unat_less_exp])
qed

lemma incr_zero_iff: "(w + 1 = (0 :: u8)) \<longleftrightarrow> unat w = 255"
  using unat_less_exp [of w] by (auto simp: word_unat_eq_iff unat_add_wrap)

lemma unat_incr_u8: "unat (w + 1 :: u8) = (if unat w = 255 then 0 else unat w + 1)"
  using unat_less_exp [of w] by (auto simp: unat_add_wrap)

lemma unat_u16_split: "unat (w :: u16) = unat (hi8 w) * 256 + unat (lo8 w)"
  by (simp add: word_unat)

lemma quad_incr_val: "quad_val (quad_incr q) = (quad_val q + 1) mod 2 ^ 32"
proof (cases q)
  case (fields a b c d)
  have "unat a < 256" "unat b < 256" "unat c < 256" "unat d < 256" by (rule unat_u8_less)+
  then show ?thesis
    by (auto simp: fields Let_def incr_zero_iff unat_incr_u8 mod_if)
qed

lemma uip_add32_val: "quad_val (uip_add32 q n) = (quad_val q + unat n) mod 2 ^ 32"
proof (cases q)
  case (fields a b c d)
  have "unat a < 256" "unat b < 256" "unat c < 256" "unat d < 256"
    "unat (hi8 n) < 256" "unat (lo8 n) < 256" by (rule unat_u8_less)+
  then show ?thesis
    unfolding unat_u16_split [of n] fields
    by (auto simp: Let_def add_overflow_iff incr_zero_iff unat_incr_u8 unat_add_wrap mod_if)
qed

section \<open>Checksum arithmetic\<close>

text \<open>
  The reference: the big-endian 16-bit words of the data are added as natural numbers (an odd last
  byte is padded with a zero), and the total is reduced by end-around carry, that is to the
  representative of its residue modulo 65535 that is 0 only for the total 0.
\<close>

fun word_sum :: "bytes \<Rightarrow> nat" where
  "word_sum (a # b # rest) = 256 * unat a + unat b + word_sum rest"
| "word_sum [a] = 256 * unat a"
| "word_sum [] = 0"

definition oc_norm :: "nat \<Rightarrow> nat" where
  "oc_norm n = (if n = 0 then 0 else (n - 1) mod 65535 + 1)"

lemma oc_norm_small: "n < 65536 \<Longrightarrow> oc_norm n = n"
  by (auto simp: oc_norm_def)

lemma oc_norm_add: "oc_norm (oc_norm m + n) = oc_norm (m + n)"
proof (cases "m = 0")
  case False
  then have "(((m - 1) mod 65535 + 1 + n) - 1) mod 65535 = (m + n - 1) mod 65535"
    by (simp add: mod_simps)
  with False show ?thesis by (simp add: oc_norm_def)
qed (simp add: oc_norm_def)

lemma carry_add_unat [word_unat]: "unat (carry_add acc t) = oc_norm (unat acc + unat t)"
proof -
  have "unat acc < 65536" "unat t < 65536" by (rule unat_u16_less)+
  then show ?thesis
    by (auto simp: carry_add_def Let_def add_overflow_iff unat_add_wrap oc_norm_def mod_if)
qed

lemma chksum_norm: "unat (chksum acc bs) = oc_norm (unat acc + word_sum bs)"
proof (induction acc bs rule: chksum.induct)
  case (1 acc a b rest)
  then show ?case by (simp add: word_unat oc_norm_add add.assoc)
qed (simp_all add: word_unat oc_norm_small unat_u16_less)

lemma HTONS_ffff [simp]: "HTONS 0xffff = 0xffff"
  by (simp add: HTONS_def)

lemma HTONS_inject [simp]: "HTONS a = HTONS b \<longleftrightarrow> a = b"
  by (metis HTONS_HTONS)

lemma unat_NOT_u8: "unat (NOT w :: u8) = 255 - unat w"
proof -
  have "NOT w = 255 - w"
    by (simp add: not_eq_complement)
  moreover have "w \<le> 255"
    by (simp add: word_le_nat_alt)
  ultimately show ?thesis
    by (simp add: unat_sub)
qed

lemma HTONS_NOT: "HTONS (NOT w) = NOT (HTONS w)"
proof -
  have "be16 (NOT a) (NOT b) = NOT (be16 a b)" for a b :: u8
    by (simp add: word_unat_eq_iff word_unat unat_NOT_u8 diff_mult_distrib2)
  then show ?thesis by (metis HTONS_be16 be16_hi_lo)
qed

lemma oc_norm_complement: "oc_norm (n + (65535 - oc_norm n)) \<in> {0, 65535}"
proof (cases "n = 0")
  case False
  have "(n - 1) mod 65535 < 65535" by simp
  moreover have "((n - 1) + (65535 - ((n - 1) mod 65535 + 1))) mod 65535 = 65534"
  proof -
    have "(n - 1) + (65535 - ((n - 1) mod 65535 + 1)) = 65535 * ((n - 1) div 65535) + 65534"
      using mult_div_mod_eq [of 65535 "n - 1"] mod_less_divisor [of 65535 "n - 1"] by linarith
    then show ?thesis by simp
  qed
  ultimately show ?thesis using False by (simp add: oc_norm_def)
qed (simp add: oc_norm_def)

lemma word_sum_update:
  "i < length bs \<Longrightarrow>
   word_sum (bs[i := v]) + (if even i then 256 else 1) * unat (bs ! i) =
   word_sum bs + (if even i then 256 else 1) * unat v"
proof (induction bs arbitrary: i rule: word_sum.induct)
  case (1 a b rest)
  show ?case
  proof (cases i)
    case (Suc j)
    then show ?thesis using 1 by (cases j) auto
  qed simp
qed (auto simp: less_Suc_eq)

lemma word_sum_put16:
  assumes "even i" and "i + 1 < length bs" and "bs ! i = 0" and "bs ! (i + 1) = 0"
  shows "word_sum (put16 bs i w) = word_sum bs + unat (HTONS w)"
proof -
  have "unat (HTONS w) = 256 * unat (lo8 w) + unat (hi8 w)"
    by (metis HTONS_be16 be16_hi_lo unat_be16)
  then show ?thesis
    using word_sum_update [of i bs "lo8 w"] word_sum_update [of "i + 1" "bs[i := lo8 w]" "hi8 w"] assms
    by (simp add: put16_def)
qed

lemma word_sum_append: "even (length xs) \<Longrightarrow> word_sum (xs @ ys) = word_sum xs + word_sum ys"
  by (induction xs rule: word_sum.induct) auto

lemma chksum_eqI: "word_sum xs = word_sum ys \<Longrightarrow> chksum acc xs = chksum acc ys"
  by (simp add: word_unat_eq_iff chksum_norm)

end
