(* ===== verification/Uip_State.thy ===== *)
theory Uip_State
  imports Uip_Arith
begin

text \<open>
  The data model of the uIP stack: the configuration constants (\<^verbatim>\<open>uip-conf.h\<close>, \<^verbatim>\<open>uipopt.h\<close>), the
  connection and statistics structures and header layouts of \<^verbatim>\<open>uip.h\<close>, and the global variables
  of \<^verbatim>\<open>uip.c\<close> as one record. The packet buffer is the byte array \<^verbatim>\<open>uip_buf\<close> itself; a header field is
  read and written at its offset in that array, 16-bit fields in the byte order of the CPU.

  The model is of the configuration the repository builds: IPv4, TCP with active open, statistics
  on; no UDP, no reassembly, no urgent data, no logging, no ping address configuration.
\<close>

section \<open>Configuration\<close>

abbreviation (input) UIP_BUFSIZE :: nat where "UIP_BUFSIZE \<equiv> 420"
abbreviation (input) UIP_LLH_LEN :: nat where "UIP_LLH_LEN \<equiv> 14"
abbreviation (input) UIP_CONNS :: nat where "UIP_CONNS \<equiv> 40"
abbreviation (input) UIP_LISTENPORTS :: nat where "UIP_LISTENPORTS \<equiv> 40"
abbreviation (input) UIP_TTL :: u8 where "UIP_TTL \<equiv> 64"
abbreviation (input) UIP_RTO :: u8 where "UIP_RTO \<equiv> 3"
abbreviation (input) UIP_MAXRTX :: u8 where "UIP_MAXRTX \<equiv> 8"
abbreviation (input) UIP_MAXSYNRTX :: u8 where "UIP_MAXSYNRTX \<equiv> 5"
abbreviation (input) UIP_TIME_WAIT_TIMEOUT :: u8 where "UIP_TIME_WAIT_TIMEOUT \<equiv> 120"
abbreviation (input) UIP_IPH_LEN :: u16 where "UIP_IPH_LEN \<equiv> 20"
abbreviation (input) UIP_IPTCPH_LEN :: u16 where "UIP_IPTCPH_LEN \<equiv> 40"

text \<open>\<^verbatim>\<open>UIP_BUFSIZE - UIP_LLH_LEN - UIP_TCPIP_HLEN\<close>, which is also the advertised window.\<close>

abbreviation (input) UIP_TCP_MSS :: u16 where "UIP_TCP_MSS \<equiv> 366"
abbreviation (input) UIP_RECEIVE_WINDOW :: u16 where "UIP_RECEIVE_WINDOW \<equiv> 366"

section \<open>Flags, states and protocol numbers\<close>

abbreviation (input) TCP_FIN :: u8 where "TCP_FIN \<equiv> 0x01"
abbreviation (input) TCP_SYN :: u8 where "TCP_SYN \<equiv> 0x02"
abbreviation (input) TCP_RST :: u8 where "TCP_RST \<equiv> 0x04"
abbreviation (input) TCP_PSH :: u8 where "TCP_PSH \<equiv> 0x08"
abbreviation (input) TCP_ACK :: u8 where "TCP_ACK \<equiv> 0x10"
abbreviation (input) TCP_URG :: u8 where "TCP_URG \<equiv> 0x20"
abbreviation (input) TCP_CTL :: u8 where "TCP_CTL \<equiv> 0x3f"

abbreviation (input) TCP_OPT_END :: u8 where "TCP_OPT_END \<equiv> 0"
abbreviation (input) TCP_OPT_NOOP :: u8 where "TCP_OPT_NOOP \<equiv> 1"
abbreviation (input) TCP_OPT_MSS :: u8 where "TCP_OPT_MSS \<equiv> 2"
abbreviation (input) TCP_OPT_MSS_LEN :: u8 where "TCP_OPT_MSS_LEN \<equiv> 4"

abbreviation (input) ICMP_ECHO_REPLY :: u8 where "ICMP_ECHO_REPLY \<equiv> 0"
abbreviation (input) ICMP_ECHO :: u8 where "ICMP_ECHO \<equiv> 8"

abbreviation (input) UIP_ACKDATA :: u8 where "UIP_ACKDATA \<equiv> 1"
abbreviation (input) UIP_NEWDATA :: u8 where "UIP_NEWDATA \<equiv> 2"
abbreviation (input) UIP_REXMIT :: u8 where "UIP_REXMIT \<equiv> 4"
abbreviation (input) UIP_POLL :: u8 where "UIP_POLL \<equiv> 8"
abbreviation (input) UIP_CLOSE :: u8 where "UIP_CLOSE \<equiv> 16"
abbreviation (input) UIP_ABORT :: u8 where "UIP_ABORT \<equiv> 32"
abbreviation (input) UIP_CONNECTED :: u8 where "UIP_CONNECTED \<equiv> 64"
abbreviation (input) UIP_TIMEDOUT :: u8 where "UIP_TIMEDOUT \<equiv> 128"

abbreviation (input) UIP_DATA :: u8 where "UIP_DATA \<equiv> 1"
abbreviation (input) UIP_TIMER :: u8 where "UIP_TIMER \<equiv> 2"
abbreviation (input) UIP_POLL_REQUEST :: u8 where "UIP_POLL_REQUEST \<equiv> 3"

abbreviation (input) UIP_CLOSED :: u8 where "UIP_CLOSED \<equiv> 0"
abbreviation (input) UIP_SYN_RCVD :: u8 where "UIP_SYN_RCVD \<equiv> 1"
abbreviation (input) UIP_SYN_SENT :: u8 where "UIP_SYN_SENT \<equiv> 2"
abbreviation (input) UIP_ESTABLISHED :: u8 where "UIP_ESTABLISHED \<equiv> 3"
abbreviation (input) UIP_FIN_WAIT_1 :: u8 where "UIP_FIN_WAIT_1 \<equiv> 4"
abbreviation (input) UIP_FIN_WAIT_2 :: u8 where "UIP_FIN_WAIT_2 \<equiv> 5"
abbreviation (input) UIP_CLOSING :: u8 where "UIP_CLOSING \<equiv> 6"
abbreviation (input) UIP_TIME_WAIT :: u8 where "UIP_TIME_WAIT \<equiv> 7"
abbreviation (input) UIP_LAST_ACK :: u8 where "UIP_LAST_ACK \<equiv> 8"
abbreviation (input) UIP_TS_MASK :: u8 where "UIP_TS_MASK \<equiv> 15"
abbreviation (input) UIP_STOPPED :: u8 where "UIP_STOPPED \<equiv> 16"

abbreviation (input) UIP_PROTO_ICMP :: u8 where "UIP_PROTO_ICMP \<equiv> 1"
abbreviation (input) UIP_PROTO_TCP :: u8 where "UIP_PROTO_TCP \<equiv> 6"

section \<open>Header layout\<close>

text \<open>
  Offsets into \<^verbatim>\<open>uip_buf\<close> of the fields of \<^verbatim>\<open>struct uip_tcpip_hdr\<close> and \<^verbatim>\<open>struct uip_icmpip_hdr\<close>,
  which start at \<^verbatim>\<open>UIP_LLH_LEN\<close>.
\<close>

abbreviation (input) o_vhl :: nat where "o_vhl \<equiv> 14"
abbreviation (input) o_tos :: nat where "o_tos \<equiv> 15"
abbreviation (input) o_len :: nat where "o_len \<equiv> 16"
abbreviation (input) o_ipid :: nat where "o_ipid \<equiv> 18"
abbreviation (input) o_ipoffset :: nat where "o_ipoffset \<equiv> 20"
abbreviation (input) o_ttl :: nat where "o_ttl \<equiv> 22"
abbreviation (input) o_proto :: nat where "o_proto \<equiv> 23"
abbreviation (input) o_ipchksum :: nat where "o_ipchksum \<equiv> 24"
abbreviation (input) o_srcipaddr :: nat where "o_srcipaddr \<equiv> 26"
abbreviation (input) o_destipaddr :: nat where "o_destipaddr \<equiv> 30"
abbreviation (input) o_srcport :: nat where "o_srcport \<equiv> 34"
abbreviation (input) o_destport :: nat where "o_destport \<equiv> 36"
abbreviation (input) o_seqno :: nat where "o_seqno \<equiv> 38"
abbreviation (input) o_ackno :: nat where "o_ackno \<equiv> 42"
abbreviation (input) o_tcpoffset :: nat where "o_tcpoffset \<equiv> 46"
abbreviation (input) o_flags :: nat where "o_flags \<equiv> 47"
abbreviation (input) o_wnd :: nat where "o_wnd \<equiv> 48"
abbreviation (input) o_tcpchksum :: nat where "o_tcpchksum \<equiv> 50"
abbreviation (input) o_urgp :: nat where "o_urgp \<equiv> 52"
abbreviation (input) o_optdata :: nat where "o_optdata \<equiv> 54"
abbreviation (input) o_icmp_type :: nat where "o_icmp_type \<equiv> 34"
abbreviation (input) o_icmpchksum :: nat where "o_icmpchksum \<equiv> 36"

section \<open>Connections, statistics and the stack's variables\<close>

text \<open>
  \<^verbatim>\<open>struct uip_conn\<close>. Its \<^verbatim>\<open>appstate\<close> member, which no code of the repository reads or writes, is
  left out.
\<close>

record uip_conn_t =
  ripaddr :: ip4addr
  lport :: u16
  rport :: u16
  rcv_nxt :: quad
  snd_nxt :: quad
  conn_len :: u16
  mss :: u16
  initialmss :: u16
  sa :: u8
  sv :: u8
  rto :: u8
  tcpstateflags :: u8
  timer :: u8
  nrtx :: u8

record uip_stats =
  ip_drop :: u16
  ip_recv :: u16
  ip_sent :: u16
  ip_vhlerr :: u16
  ip_hblenerr :: u16
  ip_lblenerr :: u16
  ip_fragerr :: u16
  ip_chkerr :: u16
  ip_protoerr :: u16
  icmp_drop :: u16
  icmp_recv :: u16
  icmp_sent :: u16
  icmp_typeerr :: u16
  tcp_drop :: u16
  tcp_recv :: u16
  tcp_sent :: u16
  tcp_chkerr :: u16
  tcp_ackerr :: u16
  tcp_rst :: u16
  tcp_rexmit :: u16
  tcp_syndrop :: u16
  tcp_synrst :: u16

text \<open>
  The pointers \<^verbatim>\<open>uip_appdata\<close> and \<^verbatim>\<open>uip_sappdata\<close> point into \<^verbatim>\<open>uip_buf\<close> and are kept as offsets;
  \<^verbatim>\<open>uip_conn\<close> points to an element of \<^verbatim>\<open>uip_conns\<close> or is null. The file's static temporaries
  \<^verbatim>\<open>c\<close>, \<^verbatim>\<open>opt\<close> and \<^verbatim>\<open>tmp16\<close> are assigned before each use and are local to the definitions.
\<close>

record uip =
  uip_buf :: bytes
  uip_appdata :: nat
  uip_sappdata :: nat
  uip_len :: u16
  uip_slen :: u16
  uip_flags :: u8
  uip_conn :: "nat option"
  uip_conns :: "uip_conn_t list"
  uip_listenports :: "u16 list"
  ipid :: u16
  iss :: quad
  lastport :: u16
  uip_acc32 :: quad
  uip_hostaddr :: ip4addr
  uip_draddr :: ip4addr
  uip_netmask :: ip4addr
  uip_ethaddr :: bytes
  uip_stat :: uip_stats

section \<open>Access to the buffer and to connections\<close>

definition buf8 :: "'a uip_scheme \<Rightarrow> nat \<Rightarrow> u8" where
  "buf8 s i = uip_buf s ! i"

definition buf16 :: "'a uip_scheme \<Rightarrow> nat \<Rightarrow> u16" where
  "buf16 s i = get16 (uip_buf s) i"

definition buf_addr :: "'a uip_scheme \<Rightarrow> nat \<Rightarrow> ip4addr" where
  "buf_addr s i = (get16 (uip_buf s) i, get16 (uip_buf s) (i + 2))"

definition buf_quad :: "'a uip_scheme \<Rightarrow> nat \<Rightarrow> quad" where
  "buf_quad s i = (uip_buf s ! i, uip_buf s ! (i + 1), uip_buf s ! (i + 2), uip_buf s ! (i + 3))"

definition set8 :: "nat \<Rightarrow> u8 \<Rightarrow> 'a uip_scheme \<Rightarrow> 'a uip_scheme" where
  "set8 i v s = s\<lparr>uip_buf := (uip_buf s)[i := v]\<rparr>"

definition set16 :: "nat \<Rightarrow> u16 \<Rightarrow> 'a uip_scheme \<Rightarrow> 'a uip_scheme" where
  "set16 i w s = s\<lparr>uip_buf := put16 (uip_buf s) i w\<rparr>"

definition set_addr :: "nat \<Rightarrow> ip4addr \<Rightarrow> 'a uip_scheme \<Rightarrow> 'a uip_scheme" where
  "set_addr i a s = set16 (i + 2) (snd a) (set16 i (fst a) s)"

fun set_quad :: "nat \<Rightarrow> quad \<Rightarrow> 'a uip_scheme \<Rightarrow> 'a uip_scheme" where
  "set_quad i (q0, q1, q2, q3) s = set8 (i + 3) q3 (set8 (i + 2) q2 (set8 (i + 1) q1 (set8 i q0 s)))"

definition conn_at :: "'a uip_scheme \<Rightarrow> nat \<Rightarrow> uip_conn_t" where
  "conn_at s r = uip_conns s ! r"

definition upd_conn :: "nat \<Rightarrow> (uip_conn_t \<Rightarrow> uip_conn_t) \<Rightarrow> 'a uip_scheme \<Rightarrow> 'a uip_scheme" where
  "upd_conn r f s = s\<lparr>uip_conns := (uip_conns s)[r := f (uip_conns s ! r)]\<rparr>"

definition count_stat :: "(uip_stats \<Rightarrow> uip_stats) \<Rightarrow> 'a uip_scheme \<Rightarrow> 'a uip_scheme" where
  "count_stat f s = s\<lparr>uip_stat := f (uip_stat s)\<rparr>"

definition uip_outstanding :: "uip_conn_t \<Rightarrow> bool" where
  "uip_outstanding c \<longleftrightarrow> conn_len c \<noteq> 0"

definition tcp_state_of :: "uip_conn_t \<Rightarrow> u8" where
  "tcp_state_of c = tcpstateflags c AND UIP_TS_MASK"

section \<open>Reading back updates\<close>

lemma uip_buf_set [simp]:
  "uip_buf (set8 i v s) = (uip_buf s)[i := v]"
  "uip_buf (set16 i w s) = put16 (uip_buf s) i w"
  "uip_buf (set_addr i a s) = put16 (put16 (uip_buf s) i (fst a)) (i + 2) (snd a)"
  "uip_buf (set_quad i (q0, q1, q2, q3) s) = (uip_buf s)[i := q0, i + 1 := q1, i + 2 := q2, i + 3 := q3]"
  "uip_buf (upd_conn r f s) = uip_buf s"
  "uip_buf (count_stat g s) = uip_buf s"
  by (simp_all add: set8_def set16_def set_addr_def upd_conn_def count_stat_def)

lemma length_uip_buf_set_quad [simp]: "length (uip_buf (set_quad i q s)) = length (uip_buf s)"
  by (cases q) simp

lemma more_frame [simp]:
  "uip.more (count_stat g s) = uip.more s"
  "uip.more (set8 i v s) = uip.more s"
  "uip.more (set16 i w s) = uip.more s"
  "uip.more (set_addr i a s) = uip.more s"
  "uip.more (upd_conn r f s) = uip.more s"
  by (simp_all add: count_stat_def set8_def set16_def set_addr_def upd_conn_def)

lemma more_set_quad [simp]: "uip.more (set_quad i q s) = uip.more s"
  by (cases q) simp

lemma conn_at_frame [simp]:
  "conn_at (s\<lparr>uip_len := x1\<rparr>) r = conn_at s r"
  "conn_at (s\<lparr>uip_slen := x2\<rparr>) r = conn_at s r"
  "conn_at (s\<lparr>uip_flags := x3\<rparr>) r = conn_at s r"
  "conn_at (s\<lparr>uip_appdata := x4\<rparr>) r = conn_at s r"
  "conn_at (s\<lparr>uip_sappdata := x4\<rparr>) r = conn_at s r"
  "conn_at (s\<lparr>uip_acc32 := x5\<rparr>) r = conn_at s r"
  "conn_at (s\<lparr>uip_conn := x6\<rparr>) r = conn_at s r"
  "conn_at (s\<lparr>iss := x5\<rparr>) r = conn_at s r"
  "conn_at (count_stat g s) r = conn_at s r"
  "conn_at (set8 i v s) r = conn_at s r"
  "conn_at (set16 i w s) r = conn_at s r"
  "conn_at (set_addr i a s) r = conn_at s r"
  by (simp_all add: conn_at_def count_stat_def set8_def set16_def set_addr_def)

lemma conn_at_set_quad [simp]: "conn_at (set_quad i q s) r = conn_at s r"
  by (cases q) simp

lemma conn_at_upd_conn: "r < length (uip_conns s) \<Longrightarrow> conn_at (upd_conn r f s) r = f (conn_at s r)"
  by (simp add: conn_at_def upd_conn_def)

lemma uip_frame [simp]:
  "uip_len (set8 i v s) = uip_len s" "uip_len (set16 i w s) = uip_len s"
  "uip_len (set_addr i a s) = uip_len s" "uip_len (upd_conn r f s) = uip_len s"
  "uip_len (count_stat g s) = uip_len s"
  "uip_hostaddr (set8 i v s) = uip_hostaddr s" "uip_hostaddr (set16 i w s) = uip_hostaddr s"
  "uip_hostaddr (set_addr i a s) = uip_hostaddr s" "uip_hostaddr (upd_conn r f s) = uip_hostaddr s"
  "uip_hostaddr (count_stat g s) = uip_hostaddr s"
  "uip_slen (set8 i v s) = uip_slen s" "uip_slen (upd_conn r f s) = uip_slen s"
  "uip_slen (count_stat g s) = uip_slen s"
  "uip_flags (set8 i v s) = uip_flags s" "uip_flags (upd_conn r f s) = uip_flags s"
  "uip_flags (count_stat g s) = uip_flags s"
  "uip_appdata (upd_conn r f s) = uip_appdata s" "uip_appdata (count_stat g s) = uip_appdata s"
  "uip_sappdata (upd_conn r f s) = uip_sappdata s" "uip_sappdata (count_stat g s) = uip_sappdata s"
  "uip_conn (upd_conn r f s) = uip_conn s" "uip_conn (count_stat g s) = uip_conn s"
  by (simp_all add: set8_def set16_def set_addr_def upd_conn_def count_stat_def)

lemma uip_len_set_quad [simp]: "uip_len (set_quad i q s) = uip_len s" 
  and uip_hostaddr_set_quad [simp]: "uip_hostaddr (set_quad i q s) = uip_hostaddr s"
  by (cases q; simp)+

lemma buf8_frame [simp]:
  "buf8 (s\<lparr>uip_len := x1\<rparr>) i = buf8 s i"
  "buf8 (s\<lparr>uip_slen := x2\<rparr>) i = buf8 s i"
  "buf8 (s\<lparr>uip_flags := x3\<rparr>) i = buf8 s i"
  "buf8 (s\<lparr>uip_appdata := x4\<rparr>) i = buf8 s i"
  "buf8 (s\<lparr>uip_sappdata := x4\<rparr>) i = buf8 s i"
  "buf8 (s\<lparr>uip_acc32 := x5\<rparr>) i = buf8 s i"
  "buf8 (s\<lparr>uip_conn := x6\<rparr>) i = buf8 s i"
  "buf8 (s\<lparr>iss := x5\<rparr>) i = buf8 s i"
  "buf8 (count_stat g s) i = buf8 s i"
  "buf8 (upd_conn r f s) i = buf8 s i"
  by (simp_all add: buf8_def)

lemma buf16_frame [simp]:
  "buf16 (count_stat g s) i = buf16 s i"
  "j \<noteq> i \<Longrightarrow> j \<noteq> i + 1 \<Longrightarrow> buf16 (set8 j v s) i = buf16 s i"
  by (simp_all add: buf16_def get16_def)

lemma buf_addr_frame [simp]: "buf_addr (count_stat g s) i = buf_addr s i"
  by (simp add: buf_addr_def)

text \<open>Every field as bytes, and every byte after a store.\<close>

lemma buf16_buf8: "buf16 s i = be16 (buf8 s (i + 1)) (buf8 s i)"
  by (simp add: buf16_def get16_def buf8_def)

lemma buf_addr_buf16: "buf_addr s i = (buf16 s i, buf16 s (i + 2))"
  by (simp add: buf_addr_def buf16_def)

lemma buf_quad_buf8: "buf_quad s i = (buf8 s i, buf8 s (i + 1), buf8 s (i + 2), buf8 s (i + 3))"
  by (simp add: buf_quad_def buf8_def)

lemma buf8_set8: "j < length (uip_buf s) \<Longrightarrow> buf8 (set8 j v s) i = (if i = j then v else buf8 s i)"
  by (simp add: buf8_def)

lemma buf8_set16:
  "j + 1 < length (uip_buf s) \<Longrightarrow>
   buf8 (set16 j w s) i = (if i = j then lo8 w else if i = j + 1 then hi8 w else buf8 s i)"
  by (simp add: buf8_def nth_put16)

lemma buf8_set_addr:
  "j + 3 < length (uip_buf s) \<Longrightarrow>
   buf8 (set_addr j a s) i =
     (if i = j then lo8 (fst a) else if i = j + 1 then hi8 (fst a)
      else if i = j + 2 then lo8 (snd a) else if i = j + 3 then hi8 (snd a) else buf8 s i)"
  by (simp add: set_addr_def buf8_set16)

lemma buf8_set_quad:
  "j + 3 < length (uip_buf s) \<Longrightarrow>
   buf8 (set_quad j q s) i =
     (if i = j then fst q else if i = j + 1 then fst (snd q)
      else if i = j + 2 then fst (snd (snd q)) else if i = j + 3 then snd (snd (snd q)) else buf8 s i)"
  by (cases q) (simp add: buf8_set8)

lemma length_uip_buf_set [simp]:
  "length (uip_buf (set8 i v s)) = length (uip_buf s)"
  "length (uip_buf (set16 i w s)) = length (uip_buf s)"
  "length (uip_buf (set_addr i a s)) = length (uip_buf s)"
  by simp_all

lemmas buf_bytes = buf16_buf8 buf_addr_buf16 buf_quad_buf8
lemmas buf_stores = buf8_set8 buf8_set16 buf8_set_addr buf8_set_quad

lemma uip_ethaddr_frame [simp]:
  "uip_ethaddr (set8 i v s) = uip_ethaddr s"
  "uip_ethaddr (set16 i w s) = uip_ethaddr s"
  "uip_ethaddr (set_addr i a s) = uip_ethaddr s"
  by (simp_all add: set8_def set16_def set_addr_def)

lemma buf_field_frame [simp]:
  "buf16 (s\<lparr>uip_len := x1\<rparr>) i = buf16 s i"
  "buf16 (s\<lparr>uip_slen := x1\<rparr>) i = buf16 s i"
  "buf16 (s\<lparr>uip_flags := x2\<rparr>) i = buf16 s i"
  "buf16 (s\<lparr>uip_appdata := x3\<rparr>) i = buf16 s i"
  "buf16 (s\<lparr>uip_sappdata := x3\<rparr>) i = buf16 s i"
  "buf16 (s\<lparr>uip_acc32 := x4\<rparr>) i = buf16 s i"
  "buf16 (s\<lparr>iss := x4\<rparr>) i = buf16 s i"
  "buf16 (s\<lparr>uip_conn := x5\<rparr>) i = buf16 s i"
  "buf16 (upd_conn r f s) i = buf16 s i"
  "buf_addr (s\<lparr>uip_len := x1\<rparr>) i = buf_addr s i"
  "buf_addr (s\<lparr>uip_slen := x1\<rparr>) i = buf_addr s i"
  "buf_addr (s\<lparr>uip_flags := x2\<rparr>) i = buf_addr s i"
  "buf_addr (s\<lparr>uip_appdata := x3\<rparr>) i = buf_addr s i"
  "buf_addr (s\<lparr>uip_sappdata := x3\<rparr>) i = buf_addr s i"
  "buf_addr (s\<lparr>uip_acc32 := x4\<rparr>) i = buf_addr s i"
  "buf_addr (s\<lparr>iss := x4\<rparr>) i = buf_addr s i"
  "buf_addr (s\<lparr>uip_conn := x5\<rparr>) i = buf_addr s i"
  "buf_addr (upd_conn r f s) i = buf_addr s i"
  "buf_quad (s\<lparr>uip_len := x1\<rparr>) i = buf_quad s i"
  "buf_quad (s\<lparr>uip_slen := x1\<rparr>) i = buf_quad s i"
  "buf_quad (s\<lparr>uip_flags := x2\<rparr>) i = buf_quad s i"
  "buf_quad (s\<lparr>uip_appdata := x3\<rparr>) i = buf_quad s i"
  "buf_quad (s\<lparr>uip_sappdata := x3\<rparr>) i = buf_quad s i"
  "buf_quad (s\<lparr>uip_acc32 := x4\<rparr>) i = buf_quad s i"
  "buf_quad (s\<lparr>iss := x4\<rparr>) i = buf_quad s i"
  "buf_quad (s\<lparr>uip_conn := x5\<rparr>) i = buf_quad s i"
  "buf_quad (upd_conn r f s) i = buf_quad s i"
  "buf_quad (count_stat g s) i = buf_quad s i"
  by (simp_all add: buf16_def buf_addr_def buf_quad_def)

text \<open>Fields that a store leaves alone.\<close>

lemma buf16_other:
  "j \<noteq> i \<Longrightarrow> j \<noteq> i + 1 \<Longrightarrow> buf16 (set8 j v s) i = buf16 s i"
  "j + 2 \<le> i \<or> i + 2 \<le> j \<Longrightarrow> buf16 (set16 j w s) i = buf16 s i"
  "j + 4 \<le> i \<or> i + 2 \<le> j \<Longrightarrow> buf16 (set_addr j a s) i = buf16 s i"
  "j + 4 \<le> i \<or> i + 2 \<le> j \<Longrightarrow> buf16 (set_quad j q s) i = buf16 s i"
  by (cases q; auto simp: buf16_def get16_def put16_def)+

lemma buf_addr_other:
  "j < i \<or> i + 4 \<le> j \<Longrightarrow> buf_addr (set8 j v s) i = buf_addr s i"
  "j + 2 \<le> i \<or> i + 4 \<le> j \<Longrightarrow> buf_addr (set16 j w s) i = buf_addr s i"
  "j + 4 \<le> i \<or> i + 4 \<le> j \<Longrightarrow> buf_addr (set_addr j a s) i = buf_addr s i"
  "j + 4 \<le> i \<or> i + 4 \<le> j \<Longrightarrow> buf_addr (set_quad j q s) i = buf_addr s i"
  by (auto simp: buf_addr_buf16 buf16_other)

lemma buf_quad_other:
  "j < i \<or> i + 4 \<le> j \<Longrightarrow> buf_quad (set8 j v s) i = buf_quad s i"
  "j + 2 \<le> i \<or> i + 4 \<le> j \<Longrightarrow> buf_quad (set16 j w s) i = buf_quad s i"
  "j + 4 \<le> i \<or> i + 4 \<le> j \<Longrightarrow> buf_quad (set_addr j a s) i = buf_quad s i"
  "j + 4 \<le> i \<or> i + 4 \<le> j \<Longrightarrow> buf_quad (set_quad j q s) i = buf_quad s i"
  by (cases q; auto simp: buf_quad_def put16_def)+

lemma buf8_other:
  "j \<noteq> i \<Longrightarrow> buf8 (set8 j v s) i = buf8 s i"
  "j + 2 \<le> i \<or> i < j \<Longrightarrow> buf8 (set16 j w s) i = buf8 s i"
  "j + 4 \<le> i \<or> i < j \<Longrightarrow> buf8 (set_addr j a s) i = buf8 s i"
  "j + 4 \<le> i \<or> i < j \<Longrightarrow> buf8 (set_quad j q s) i = buf8 s i"
  by (cases q; auto simp: buf8_def put16_def)+

text \<open>Fields read back.\<close>

lemma buf_same:
  "i < length (uip_buf s) \<Longrightarrow> buf8 (set8 i v s) i = v"
  "i + 1 < length (uip_buf s) \<Longrightarrow> buf16 (set16 i w s) i = w"
  "i + 3 < length (uip_buf s) \<Longrightarrow> buf_addr (set_addr i a s) i = a"
  "i + 3 < length (uip_buf s) \<Longrightarrow> buf_quad (set_quad i q s) i = q"
  by (cases q; simp add: buf_bytes buf_stores)+

lemmas buf_rw = buf_same buf8_other buf16_other buf_addr_other buf_quad_other

end
