(* ===== verification/Uip_Out.thy ===== *)
theory Uip_Out
  imports Uip_State
begin

text \<open>
  The checksum functions of \<^verbatim>\<open>uip.c\<close> over the packet buffer and the output half of
  \<^verbatim>\<open>uip_process()\<close>: one definition per label, from \<^verbatim>\<open>tcp_send_ack\<close> down to \<^verbatim>\<open>send\<close> and \<^verbatim>\<open>drop\<close>. A
  \<^verbatim>\<open>goto\<close> is a call of the label's definition in tail position, and falling through to the next
  label is one too.
\<close>

section \<open>Checksums of the packet in the buffer\<close>

definition fold_chksum :: "u16 \<Rightarrow> u16" where
  "fold_chksum acc = (if acc = 0 then 0xffff else htons acc)"

definition uip_ipchksum :: "'a uip_scheme \<Rightarrow> u16" where
  "uip_ipchksum s = fold_chksum (chksum 0 (take 20 (drop UIP_LLH_LEN (uip_buf s))))"

definition upper_layer_len :: "'a uip_scheme \<Rightarrow> u16" where
  "upper_layer_len s = (push_bit 8 (ucast (buf8 s o_len)) + ucast (buf8 s (o_len + 1))) - UIP_IPH_LEN"

text \<open>
  The sum runs over as many bytes as the IP header's length field says, whatever the size of the
  buffer: past its end it is an access out of bounds.
\<close>

definition upper_layer_chksum :: "u8 \<Rightarrow> 'a uip_scheme \<Rightarrow> u16 res" where
  "upper_layer_chksum proto s =
     (let acc = upper_layer_len s + ucast proto;
          acc = chksum acc (take 8 (drop o_srcipaddr (uip_buf s)))
      in res_bind (mem_read (uip_buf s) 34 (unat (upper_layer_len s)))
           (\<lambda>payload. Inr (fold_chksum (chksum acc payload))))"

definition uip_tcpchksum :: "'a uip_scheme \<Rightarrow> u16 res" where
  "uip_tcpchksum s = upper_layer_chksum UIP_PROTO_TCP s"

section \<open>Ends of processing\<close>

definition drop_packet :: "'a uip_scheme \<Rightarrow> 'a uip_scheme" where
  "drop_packet s = s\<lparr>uip_len := 0, uip_flags := 0\<rparr>"

definition send_packet :: "'a uip_scheme \<Rightarrow> 'a uip_scheme" where
  "send_packet s =
     (count_stat (\<lambda>t. t\<lparr>ip_sent := ip_sent t + 1\<rparr>) s)\<lparr>uip_flags := 0\<rparr>"

definition ip_send_nolen :: "'a uip_scheme \<Rightarrow> 'a uip_scheme" where
  "ip_send_nolen s =
     (let s = set8 o_vhl 0x45 s;
          s = set8 o_tos 0 s;
          s = set8 o_ipoffset 0 (set8 (o_ipoffset + 1) 0 s);
          s = s\<lparr>ipid := ipid s + 1\<rparr>;
          s = set8 o_ipid (hi8 (ipid s)) s;
          s = set8 (o_ipid + 1) (lo8 (ipid s)) s;
          s = set16 o_ipchksum 0 s;
          s = set16 o_ipchksum (NOT (uip_ipchksum s)) s;
          s = count_stat (\<lambda>t. t\<lparr>tcp_sent := tcp_sent t + 1\<rparr>) s
      in send_packet s)"

definition tcp_send_noconn :: "'a uip_scheme \<Rightarrow> 'a uip_scheme res" where
  "tcp_send_noconn s =
     (let s = set8 o_ttl UIP_TTL s;
          s = set8 o_len (hi8 (uip_len s)) s;
          s = set8 (o_len + 1) (lo8 (uip_len s)) s;
          s = set8 o_urgp 0 (set8 (o_urgp + 1) 0 s);
          s = set16 o_tcpchksum 0 s
      in res_bind (uip_tcpchksum s) (\<lambda>cs.
           Inr (ip_send_nolen (set16 o_tcpchksum (NOT cs) s))))"

definition tcp_send :: "nat \<Rightarrow> 'a uip_scheme \<Rightarrow> 'a uip_scheme res" where
  "tcp_send r s =
     (let c = conn_at s r;
          s = set_quad o_ackno (rcv_nxt c) s;
          s = set_quad o_seqno (snd_nxt c) s;
          s = set8 o_proto UIP_PROTO_TCP s;
          s = set16 o_srcport (lport c) s;
          s = set16 o_destport (rport c) s;
          s = set_addr o_srcipaddr (uip_hostaddr s) s;
          s = set_addr o_destipaddr (ripaddr c) s;
          s = (if tcpstateflags c AND UIP_STOPPED \<noteq> 0
               then set8 o_wnd 0 (set8 (o_wnd + 1) 0 s)
               else set8 (o_wnd + 1) (lo8 UIP_RECEIVE_WINDOW)
                      (set8 o_wnd (hi8 UIP_RECEIVE_WINDOW) s))
      in tcp_send_noconn s)"

definition tcp_send_noopts :: "nat \<Rightarrow> 'a uip_scheme \<Rightarrow> 'a uip_scheme res" where
  "tcp_send_noopts r s = tcp_send r (set8 o_tcpoffset 0x50 s)"

definition tcp_send_nodata :: "nat \<Rightarrow> 'a uip_scheme \<Rightarrow> 'a uip_scheme res" where
  "tcp_send_nodata r s = tcp_send_noopts r (s\<lparr>uip_len := UIP_IPTCPH_LEN\<rparr>)"

definition tcp_send_ack :: "nat \<Rightarrow> 'a uip_scheme \<Rightarrow> 'a uip_scheme res" where
  "tcp_send_ack r s = tcp_send_nodata r (set8 o_flags TCP_ACK s)"

definition tcp_send_finack :: "nat \<Rightarrow> 'a uip_scheme \<Rightarrow> 'a uip_scheme res" where
  "tcp_send_finack r s = tcp_send_nodata r (set8 o_flags (TCP_FIN OR TCP_ACK) s)"

definition tcp_send_syn :: "nat \<Rightarrow> 'a uip_scheme \<Rightarrow> 'a uip_scheme res" where
  "tcp_send_syn r s =
     (let s = set8 o_flags (buf8 s o_flags OR TCP_SYN) s;
          s = set8 o_optdata TCP_OPT_MSS s;
          s = set8 (o_optdata + 1) TCP_OPT_MSS_LEN s;
          s = set8 (o_optdata + 2) (hi8 UIP_TCP_MSS) s;
          s = set8 (o_optdata + 3) (lo8 UIP_TCP_MSS) s;
          s = s\<lparr>uip_len := UIP_IPTCPH_LEN + 4\<rparr>;
          s = set8 o_tcpoffset 0x60 s
      in tcp_send r s)"

definition tcp_send_synack :: "nat \<Rightarrow> 'a uip_scheme \<Rightarrow> 'a uip_scheme res" where
  "tcp_send_synack r s = tcp_send_syn r (set8 o_flags TCP_ACK s)"

text \<open>The \<^verbatim>\<open>reset\<close> label: answer a segment nobody wants with a RST, unless it is itself a RST.\<close>

definition tcp_reset :: "'a uip_scheme \<Rightarrow> 'a uip_scheme res" where
  "tcp_reset s =
     (if buf8 s o_flags AND TCP_RST \<noteq> 0 then Inr (drop_packet s)
      else
        let s = count_stat (\<lambda>t. t\<lparr>tcp_rst := tcp_rst t + 1\<rparr>) s;
            s = set8 o_flags (TCP_RST OR TCP_ACK) s;
            s = s\<lparr>uip_len := UIP_IPTCPH_LEN\<rparr>;
            s = set8 o_tcpoffset 0x50 s;
            c = buf_quad s o_seqno;
            s = set_quad o_seqno (buf_quad s o_ackno) s;
            s = set_quad o_ackno c s;
            s = set_quad o_ackno (quad_incr (buf_quad s o_ackno)) s;
            tmp16 = buf16 s o_srcport;
            s = set16 o_srcport (buf16 s o_destport) s;
            s = set16 o_destport tmp16 s;
            s = set_addr o_destipaddr (buf_addr s o_srcipaddr) s;
            s = set_addr o_srcipaddr (uip_hostaddr s) s
        in tcp_send_noconn s)"

section \<open>Checksums of outgoing packets\<close>

lemma fold_chksum_ffff_iff: "fold_chksum c = 0xffff \<longleftrightarrow> c = 0 \<or> c = 0xffff"
  using HTONS_inject [of c "0xffff"] by (simp add: fold_chksum_def htons_def del: HTONS_inject)

lemma fold_chksum_seal:
  assumes "even i" and "i + 1 < length bs" and "bs ! i = 0" and "bs ! (i + 1) = 0"
  shows "fold_chksum (chksum acc (put16 bs i (NOT (fold_chksum (chksum acc bs))))) = 0xffff"
proof -
  let ?c = "chksum acc bs"
  have c: "unat ?c = oc_norm (unat acc + word_sum bs)" by (rule chksum_norm)
  have seal: "unat (HTONS (NOT (fold_chksum ?c))) = (if ?c = 0 then 0 else 65535 - unat ?c)"
    by (simp add: fold_chksum_def htons_def HTONS_NOT unat_NOT_u16)
  have "unat (chksum acc (put16 bs i (NOT (fold_chksum ?c)))) \<in> {0, 65535}"
  proof (cases "?c = 0")
    case True
    then have "oc_norm (unat acc + word_sum bs) = 0" using c by simp
    with True seal assms show ?thesis
      by (simp add: chksum_norm word_sum_put16)
  next
    case False
    with seal assms c oc_norm_complement [of "unat acc + word_sum bs"] show ?thesis
      by (simp add: chksum_norm word_sum_put16 add.assoc)
  qed
  then show ?thesis
    unfolding fold_chksum_ffff_iff by (auto simp: word_unat_eq_iff)
qed

lemma ip_seal:
  assumes "34 \<le> length (uip_buf t)" and "buf8 t o_ipchksum = 0" and "buf8 t (o_ipchksum + 1) = 0"
  shows "uip_ipchksum (set16 o_ipchksum (NOT (uip_ipchksum t)) t) = 0xffff"
  using fold_chksum_seal [of 10 "take 20 (drop 14 (uip_buf t))" 0] assms
  by (simp add: uip_ipchksum_def take_drop_put16 buf8_def)

lemma ip_send_nolen_chksum:
  assumes "34 \<le> length (uip_buf s)"
  shows "uip_ipchksum (ip_send_nolen s) = 0xffff"
proof -
  define t where "t = set16 o_ipchksum 0 (set8 (o_ipid + 1) (lo8 (ipid s + 1)) (set8 o_ipid (hi8 (ipid s + 1))
     ((set8 o_ipoffset 0 (set8 (o_ipoffset + 1) 0 (set8 o_tos 0 (set8 o_vhl 0x45 s))))\<lparr>ipid := ipid s + 1\<rparr>)))"
  have "uip_buf (ip_send_nolen s) = uip_buf (set16 o_ipchksum (NOT (uip_ipchksum t)) t)"
    by (simp add: ip_send_nolen_def Let_def t_def send_packet_def set8_def)
  moreover have "34 \<le> length (uip_buf t)" "buf8 t o_ipchksum = 0" "buf8 t (o_ipchksum + 1) = 0"
    using assms by (simp_all add: t_def buf_stores lo8_def hi8_def)
  ultimately show ?thesis using ip_seal [of t] by (simp add: uip_ipchksum_def)
qed

lemma ip_send_nolen_slice:
  assumes "26 \<le> off"
  shows "take n (drop off (uip_buf (ip_send_nolen s))) = take n (drop off (uip_buf s))"
  using assms
  by (simp add: ip_send_nolen_def Let_def send_packet_def set8_def set16_def count_stat_def put16_def
      take_drop_update)

lemma ip_send_nolen_nth:
  "i \<notin> {14, 15, 18, 19, 20, 21, 24, 25} \<Longrightarrow> uip_buf (ip_send_nolen s) ! i = uip_buf s ! i"
  by (simp add: ip_send_nolen_def Let_def send_packet_def set8_def set16_def count_stat_def put16_def)

lemma ip_send_nolen_frame [simp]:
  "uip_len (ip_send_nolen s) = uip_len s"
  "uip_conns (ip_send_nolen s) = uip_conns s"
  "uip_listenports (ip_send_nolen s) = uip_listenports s"
  "uip_hostaddr (ip_send_nolen s) = uip_hostaddr s"
  "uip_conn (ip_send_nolen s) = uip_conn s"
  "uip_ethaddr (ip_send_nolen s) = uip_ethaddr s"
  "length (uip_buf (ip_send_nolen s)) = length (uip_buf s)"
  "uip.more (ip_send_nolen s) = uip.more s"
  by (simp_all add: ip_send_nolen_def Let_def send_packet_def set8_def set16_def count_stat_def)

lemma upper_layer_len_be16: "upper_layer_len s = be16 (uip_buf s ! 16) (uip_buf s ! 17) - 20"
  by (simp add: upper_layer_len_def be16_def buf8_def)

lemma ip_send_nolen_tcpchksum: "uip_tcpchksum (ip_send_nolen s) = uip_tcpchksum s"
  by (simp add: uip_tcpchksum_def upper_layer_chksum_def upper_layer_len_be16 mem_read_def
      ip_send_nolen_slice ip_send_nolen_nth)

text \<open>The state in which the TCP checksum of an outgoing segment is computed.\<close>

definition tcp_prep :: "'a uip_scheme \<Rightarrow> 'a uip_scheme" where
  "tcp_prep s = set16 o_tcpchksum 0 (set8 o_urgp 0 (set8 (o_urgp + 1) 0
     (set8 (o_len + 1) (lo8 (uip_len s)) (set8 o_len (hi8 (uip_len s)) (set8 o_ttl UIP_TTL s)))))"

lemma tcp_prep_buf:
  "uip_buf (tcp_prep s) = put16 ((uip_buf s)[22 := 64, 16 := hi8 (uip_len s), 17 := lo8 (uip_len s), 53 := 0, 52 := 0]) 50 0"
  by (simp add: tcp_prep_def)

lemma tcp_prep_frame [simp]:
  "uip_len (tcp_prep s) = uip_len s"
  "uip_conns (tcp_prep s) = uip_conns s"
  "uip_listenports (tcp_prep s) = uip_listenports s"
  "uip_hostaddr (tcp_prep s) = uip_hostaddr s"
  "uip_conn (tcp_prep s) = uip_conn s"
  "uip_ethaddr (tcp_prep s) = uip_ethaddr s"
  "length (uip_buf (tcp_prep s)) = length (uip_buf s)"
  "uip.more (tcp_prep s) = uip.more s"
  by (simp_all add: tcp_prep_def set8_def set16_def)

lemma tcp_send_noconn_prep:
  "tcp_send_noconn s =
     res_bind (uip_tcpchksum (tcp_prep s)) (\<lambda>cs. Inr (ip_send_nolen (set16 o_tcpchksum (NOT cs) (tcp_prep s))))"
  by (simp add: tcp_send_noconn_def tcp_prep_def Let_def set8_def)

lemma upper_layer_chksum_eq:
  "34 + unat (upper_layer_len s) \<le> length (uip_buf s) \<Longrightarrow> upper_layer_chksum pr s =
     Inr (fold_chksum (chksum (chksum (upper_layer_len s + ucast pr) (take 8 (drop 26 (uip_buf s))))
       (take (unat (upper_layer_len s)) (drop 34 (uip_buf s)))))"
  by (simp add: upper_layer_chksum_def mem_read_def Let_def)

lemma upper_layer_store:
  assumes "34 \<le> i" and "i + 1 < 34 + unat (upper_layer_len s)" and "34 + unat (upper_layer_len s) \<le> length (uip_buf s)"
  shows "upper_layer_chksum pr (set16 i w s) =
    Inr (fold_chksum (chksum (chksum (upper_layer_len s + ucast pr) (take 8 (drop 26 (uip_buf s))))
      (put16 (take (unat (upper_layer_len s)) (drop 34 (uip_buf s))) (i - 34) w)))"
proof -
  have "upper_layer_len (set16 i w s) = upper_layer_len s"
    using assms by (simp add: upper_layer_len_be16 nth_put16)
  then show ?thesis
    using assms by (subst upper_layer_chksum_eq) (simp_all add: take_drop_put16_other take_drop_put16)
qed

lemma tcp_seal:
  assumes len: "length (uip_buf s) = 422" and min: "40 \<le> unat (uip_len s)"
    and cs: "uip_tcpchksum (tcp_prep s) = Inr cs"
  shows "uip_tcpchksum (set16 o_tcpchksum (NOT cs) (tcp_prep s)) = Inr 0xffff"
proof -
  let ?t = "tcp_prep s" let ?n = "unat (upper_layer_len ?t)"
  let ?p = "take ?n (drop 34 (uip_buf ?t))"
  have hdr: "uip_buf ?t ! 16 = hi8 (uip_len s)" "uip_buf ?t ! 17 = lo8 (uip_len s)"
    "uip_buf ?t ! 50 = 0" "uip_buf ?t ! 51 = 0"
    using len by (simp_all add: tcp_prep_buf nth_put16 lo8_def hi8_def)
  have "upper_layer_len ?t = uip_len s - 20" by (simp add: upper_layer_len_be16 hdr)
  moreover have "20 \<le> uip_len s" using min by (simp add: word_le_nat_alt)
  ultimately have n: "?n = unat (uip_len s) - 20" by (simp add: unat_sub)
  have bound: "34 + ?n \<le> length (uip_buf ?t)"
    using cs by (auto simp: uip_tcpchksum_def upper_layer_chksum_def mem_read_def Let_def split: if_splits)
  have p: "?p ! 16 = 0" "?p ! (16 + 1) = 0" "16 + 1 < length ?p"
    using n min bound len hdr by simp_all
  have "cs = fold_chksum (chksum (chksum (upper_layer_len ?t + 6) (take 8 (drop 26 (uip_buf ?t)))) ?p)"
    using cs upper_layer_chksum_eq [OF bound, of 6] by (simp add: uip_tcpchksum_def)
  with fold_chksum_seal [of 16 ?p] p upper_layer_store [OF _ _ bound, of o_tcpchksum 6 "NOT cs"] n min
  show ?thesis by (simp add: uip_tcpchksum_def)
qed

lemma uip_ipchksum_frame [simp]: "uip_ipchksum (count_stat g s) = uip_ipchksum s"
  by (simp add: uip_ipchksum_def)

end
