(* ===== verification/Uip_Process.thy ===== *)
theory Uip_Process
  imports Uip_Out
begin

text \<open>
  The input half of \<^verbatim>\<open>uip_process()\<close>: the poll and timer entries, IP and ICMP input, and the TCP
  state machine. The application callback \<^verbatim>\<open>UIP_APPCALL()\<close>, a macro that the application's header
  defines, is the argument \<open>app\<close> of every definition that reaches it.
\<close>

section \<open>Sending what the application produced\<close>

definition apprexmit :: "nat \<Rightarrow> 'a uip_scheme \<Rightarrow> 'a uip_scheme res" where
  "apprexmit r s =
     (let s = s\<lparr>uip_appdata := uip_sappdata s\<rparr> in
      if uip_slen s > 0 \<and> conn_len (conn_at s r) > 0
      then tcp_send_noopts r
             (set8 o_flags (TCP_ACK OR TCP_PSH) (s\<lparr>uip_len := conn_len (conn_at s r) + UIP_IPTCPH_LEN\<rparr>))
      else if uip_flags s AND UIP_NEWDATA \<noteq> 0
      then tcp_send_noopts r (set8 o_flags TCP_ACK (s\<lparr>uip_len := UIP_IPTCPH_LEN\<rparr>))
      else Inr (drop_packet s))"

definition appsend_len :: "nat \<Rightarrow> 'a uip_scheme \<Rightarrow> 'a uip_scheme" where
  "appsend_len r s =
     (if uip_slen s > 0
      then let s = (if uip_flags s AND UIP_ACKDATA \<noteq> 0 then upd_conn r (conn_len_update (\<lambda>_. 0)) s else s)
           in if conn_len (conn_at s r) = 0
              then let s = (if uip_slen s > mss (conn_at s r) then s\<lparr>uip_slen := mss (conn_at s r)\<rparr> else s)
                   in upd_conn r (conn_len_update (\<lambda>_. uip_slen s)) s
              else s\<lparr>uip_slen := conn_len (conn_at s r)\<rparr>
      else s)"

definition appsend :: "nat \<Rightarrow> 'a uip_scheme \<Rightarrow> 'a uip_scheme res" where
  "appsend r s =
     (if uip_flags s AND UIP_ABORT \<noteq> 0
      then let s = s\<lparr>uip_slen := 0\<rparr>;
               s = upd_conn r (\<lambda>c. c\<lparr>tcpstateflags := UIP_CLOSED\<rparr>) s;
               s = set8 o_flags (TCP_RST OR TCP_ACK) s
           in tcp_send_nodata r s
      else if uip_flags s AND UIP_CLOSE \<noteq> 0
      then let s = s\<lparr>uip_slen := 0\<rparr>;
               s = upd_conn r (\<lambda>c. c\<lparr>conn_len := 1, tcpstateflags := UIP_FIN_WAIT_1, nrtx := 0\<rparr>) s;
               s = set8 o_flags (TCP_FIN OR TCP_ACK) s
           in tcp_send_nodata r s
      else apprexmit r (upd_conn r (\<lambda>c. c\<lparr>nrtx := 0\<rparr>) (appsend_len r s)))"

section \<open>Poll and timer\<close>

definition poll_request :: "('a uip_scheme \<Rightarrow> 'a uip_scheme res) \<Rightarrow> nat \<Rightarrow> 'a uip_scheme \<Rightarrow> 'a uip_scheme res" where
  "poll_request app r s =
     (if tcp_state_of (conn_at s r) = UIP_ESTABLISHED \<and> \<not> uip_outstanding (conn_at s r)
      then res_bind (app (s\<lparr>uip_flags := UIP_POLL\<rparr>)) (appsend r)
      else Inr (drop_packet s))"

text \<open>The retransmission switch. A state it has no case for falls through to \<^verbatim>\<open>drop\<close>.\<close>

definition rexmit :: "('a uip_scheme \<Rightarrow> 'a uip_scheme res) \<Rightarrow> nat \<Rightarrow> 'a uip_scheme \<Rightarrow> 'a uip_scheme res" where
  "rexmit app r s =
     (let st = tcp_state_of (conn_at s r) in
      if st = UIP_SYN_RCVD then tcp_send_synack r s
      else if st = UIP_SYN_SENT then tcp_send_syn r (set8 o_flags 0 s)
      else if st = UIP_ESTABLISHED then res_bind (app (s\<lparr>uip_flags := UIP_REXMIT\<rparr>)) (apprexmit r)
      else if st = UIP_FIN_WAIT_1 \<or> st = UIP_CLOSING \<or> st = UIP_LAST_ACK then tcp_send_finack r s
      else Inr (drop_packet s))"

definition backoff :: "u8 \<Rightarrow> u8" where
  "backoff n = push_bit (if n > 4 then 4 else unat n) UIP_RTO"

definition timer_outstanding :: "('a uip_scheme \<Rightarrow> 'a uip_scheme res) \<Rightarrow> nat \<Rightarrow> 'a uip_scheme \<Rightarrow> 'a uip_scheme res" where
  "timer_outstanding app r s =
     (let expired = (timer (conn_at s r) = 0);
          s = upd_conn r (\<lambda>c. c\<lparr>timer := timer c - 1\<rparr>) s;
          c = conn_at s r
      in if expired
         then if nrtx c = UIP_MAXRTX \<or>
                 ((tcpstateflags c = UIP_SYN_SENT \<or> tcpstateflags c = UIP_SYN_RCVD) \<and>
                  nrtx c = UIP_MAXSYNRTX)
              then let s = upd_conn r (\<lambda>c. c\<lparr>tcpstateflags := UIP_CLOSED\<rparr>) s
                   in res_bind (app (s\<lparr>uip_flags := UIP_TIMEDOUT\<rparr>)) (\<lambda>s.
                        tcp_send_nodata r (set8 o_flags (TCP_RST OR TCP_ACK) s))
              else let s = upd_conn r (\<lambda>c. c\<lparr>timer := backoff (nrtx c), nrtx := nrtx c + 1\<rparr>) s;
                       s = count_stat (\<lambda>t. t\<lparr>tcp_rexmit := tcp_rexmit t + 1\<rparr>) s
                   in rexmit app r s
         else Inr (drop_packet s))"

definition timer_tick :: "('a uip_scheme \<Rightarrow> 'a uip_scheme res) \<Rightarrow> nat \<Rightarrow> 'a uip_scheme \<Rightarrow> 'a uip_scheme res" where
  "timer_tick app r s =
     (let s = s\<lparr>iss := quad_incr (iss s), uip_len := 0, uip_slen := 0\<rparr>;
          c = conn_at s r
      in if tcpstateflags c = UIP_TIME_WAIT \<or> tcpstateflags c = UIP_FIN_WAIT_2
         then let s = upd_conn r (\<lambda>c. c\<lparr>timer := timer c + 1\<rparr>) s;
                  s = (if timer (conn_at s r) = UIP_TIME_WAIT_TIMEOUT
                       then upd_conn r (\<lambda>c. c\<lparr>tcpstateflags := UIP_CLOSED\<rparr>) s else s)
              in Inr (drop_packet s)
         else if tcpstateflags c \<noteq> UIP_CLOSED
         then if uip_outstanding c then timer_outstanding app r s
              else if tcp_state_of c = UIP_ESTABLISHED
              then res_bind (app (s\<lparr>uip_flags := UIP_POLL\<rparr>)) (appsend r)
              else Inr (drop_packet s)
         else Inr (drop_packet s))"

section \<open>TCP input\<close>

definition uip_add_rcv_nxt :: "nat \<Rightarrow> u16 \<Rightarrow> 'a uip_scheme \<Rightarrow> 'a uip_scheme" where
  "uip_add_rcv_nxt r n s =
     (let acc = uip_add32 (rcv_nxt (conn_at s r)) n
      in upd_conn r (\<lambda>c. c\<lparr>rcv_nxt := acc\<rparr>) (s\<lparr>uip_acc32 := acc\<rparr>))"

text \<open>
  The option loop of a SYN: \<open>Some None\<close> when it ends without an MSS option, \<open>Some (Some m)\<close> when it
  finds one, \<open>None\<close> when it never ends. The index \<open>c\<close> is the 8-bit static variable of the source.
\<close>

partial_function (option) mss_option :: "bytes \<Rightarrow> nat \<Rightarrow> u8 \<Rightarrow> u16 option option" where
  "mss_option b lim c =
     (if unat c < lim
      then if b ! (54 + unat c) = TCP_OPT_END then Some None
           else if b ! (54 + unat c) = TCP_OPT_NOOP then mss_option b lim (c + 1)
           else if b ! (54 + unat c) = TCP_OPT_MSS \<and> b ! (55 + unat c) = TCP_OPT_MSS_LEN
           then Some (Some (push_bit 8 (ucast (b ! (56 + unat c))) OR ucast (b ! (57 + unat c))))
           else if b ! (55 + unat c) = 0 then Some None
           else mss_option b lim (c + b ! (55 + unat c))
      else Some None)"

declare mss_option.simps [code]

definition parse_mss :: "nat \<Rightarrow> 'a uip_scheme \<Rightarrow> 'a uip_scheme res" where
  "parse_mss r s =
     (let off = buf8 s o_tcpoffset in
      if off AND 0xf0 > 0x50
      then case mss_option (uip_buf s) ((unat (drop_bit 4 off) - 5) * 4) 0 of
             None \<Rightarrow> Inl Hang
           | Some None \<Rightarrow> Inr s
           | Some (Some m) \<Rightarrow>
               let m = (if m > UIP_TCP_MSS then UIP_TCP_MSS else m)
               in Inr (upd_conn r (\<lambda>c. c\<lparr>mss := m, initialmss := m\<rparr>) s)
      else Inr s)"

text \<open>
  The search for a connection slot: the first closed one, else the one longest in \<^verbatim>\<open>TIME_WAIT\<close>.
\<close>

fun find_unused :: "uip_conn_t list \<Rightarrow> nat \<Rightarrow> (nat \<times> u8) option \<Rightarrow> nat option" where
  "find_unused [] c best = map_option fst best"
| "find_unused (x # xs) c best =
     (if tcpstateflags x = UIP_CLOSED then Some c
      else if tcpstateflags x = UIP_TIME_WAIT \<and>
              (case best of None \<Rightarrow> True | Some (_, t) \<Rightarrow> timer x > t)
      then find_unused xs (c + 1) (Some (c, timer x))
      else find_unused xs (c + 1) best)"

definition found_listen :: "'a uip_scheme \<Rightarrow> 'a uip_scheme res" where
  "found_listen s =
     (case find_unused (uip_conns s) 0 None of
        None \<Rightarrow> Inr (drop_packet (count_stat (\<lambda>t. t\<lparr>tcp_syndrop := tcp_syndrop t + 1\<rparr>) s))
      | Some r \<Rightarrow>
          let s = s\<lparr>uip_conn := Some r\<rparr>;
              s = upd_conn r (\<lambda>c. c\<lparr>rto := UIP_RTO, timer := UIP_RTO, sa := 0, sv := 4, nrtx := 0,
                    lport := buf16 s o_destport, rport := buf16 s o_srcport,
                    ripaddr := buf_addr s o_srcipaddr, tcpstateflags := UIP_SYN_RCVD,
                    snd_nxt := iss s, conn_len := 1, rcv_nxt := buf_quad s o_seqno\<rparr>) s;
              s = uip_add_rcv_nxt r 1 s
          in res_bind (parse_mss r s) (tcp_send_synack r))"

text \<open>The round-trip estimate, in 8-bit arithmetic throughout: \<^verbatim>\<open>m\<close> is a \<^verbatim>\<open>signed char\<close>.\<close>

definition rtt_estimate :: "uip_conn_t \<Rightarrow> uip_conn_t" where
  "rtt_estimate c =
     (let m = rto c - timer c;
          m = m - drop_bit 3 (sa c);
          sa' = sa c + m;
          m = (if sint m < 0 then - m else m);
          m = m - drop_bit 2 (sv c);
          sv' = sv c + m
      in c\<lparr>sa := sa', sv := sv', rto := drop_bit 3 sa' + sv'\<rparr>)"

definition tcp_ack_input :: "nat \<Rightarrow> 'a uip_scheme \<Rightarrow> 'a uip_scheme" where
  "tcp_ack_input r s =
     (if buf8 s o_flags AND TCP_ACK \<noteq> 0 \<and> uip_outstanding (conn_at s r)
      then let acc = uip_add32 (snd_nxt (conn_at s r)) (conn_len (conn_at s r));
               s = s\<lparr>uip_acc32 := acc\<rparr>
           in if buf_quad s o_ackno = acc
              then let s = upd_conn r (\<lambda>c. c\<lparr>snd_nxt := acc\<rparr>) s;
                       s = (if nrtx (conn_at s r) = 0 then upd_conn r rtt_estimate s else s);
                       s = s\<lparr>uip_flags := UIP_ACKDATA\<rparr>
                   in upd_conn r (\<lambda>c. c\<lparr>timer := rto c, conn_len := 0\<rparr>) s
              else s
      else s)"

definition st_syn_rcvd :: "('a uip_scheme \<Rightarrow> 'a uip_scheme res) \<Rightarrow> nat \<Rightarrow> 'a uip_scheme \<Rightarrow> 'a uip_scheme res" where
  "st_syn_rcvd app r s =
     (if uip_flags s AND UIP_ACKDATA \<noteq> 0
      then let s = upd_conn r (\<lambda>c. c\<lparr>tcpstateflags := UIP_ESTABLISHED, conn_len := 0\<rparr>) s;
               s = s\<lparr>uip_flags := UIP_CONNECTED\<rparr>;
               s = (if uip_len s > 0
                    then uip_add_rcv_nxt r (uip_len s) (s\<lparr>uip_flags := uip_flags s OR UIP_NEWDATA\<rparr>)
                    else s)
           in res_bind (app (s\<lparr>uip_slen := 0\<rparr>)) (appsend r)
      else Inr (drop_packet s))"

definition st_syn_sent :: "('a uip_scheme \<Rightarrow> 'a uip_scheme res) \<Rightarrow> nat \<Rightarrow> 'a uip_scheme \<Rightarrow> 'a uip_scheme res" where
  "st_syn_sent app r s =
     (if uip_flags s AND UIP_ACKDATA \<noteq> 0 \<and> buf8 s o_flags AND TCP_CTL = TCP_SYN OR TCP_ACK
      then res_bind (parse_mss r s) (\<lambda>s.
             let s = upd_conn r (\<lambda>c. c\<lparr>tcpstateflags := UIP_ESTABLISHED, rcv_nxt := buf_quad s o_seqno\<rparr>) s;
                 s = uip_add_rcv_nxt r 1 s;
                 s = s\<lparr>uip_flags := UIP_CONNECTED OR UIP_NEWDATA\<rparr>;
                 s = upd_conn r (\<lambda>c. c\<lparr>conn_len := 0\<rparr>) s
             in res_bind (app (s\<lparr>uip_len := 0, uip_slen := 0\<rparr>)) (appsend r))
      else res_bind (app (s\<lparr>uip_flags := UIP_ABORT\<rparr>)) (\<lambda>s.
             tcp_reset (upd_conn r (\<lambda>c. c\<lparr>tcpstateflags := UIP_CLOSED\<rparr>) s)))"

definition urgent_skip :: "'a uip_scheme \<Rightarrow> 'a uip_scheme" where
  "urgent_skip s =
     (if buf8 s o_flags AND TCP_URG \<noteq> 0
      then let urgp = push_bit 8 (ucast (buf8 s o_urgp)) OR ucast (buf8 s (o_urgp + 1))
           in s\<lparr>uip_appdata := uip_appdata s + unat urgp, uip_len := uip_len s - urgp\<rparr>
      else s)"

definition window_mss :: "nat \<Rightarrow> 'a uip_scheme \<Rightarrow> 'a uip_scheme" where
  "window_mss r s =
     (let tmp16 = push_bit 8 (ucast (buf8 s o_wnd)) + ucast (buf8 s (o_wnd + 1));
          tmp16 = (if tmp16 > initialmss (conn_at s r) \<or> tmp16 = 0
                   then initialmss (conn_at s r) else tmp16)
      in upd_conn r (\<lambda>c. c\<lparr>mss := tmp16\<rparr>) s)"

definition st_established :: "('a uip_scheme \<Rightarrow> 'a uip_scheme res) \<Rightarrow> nat \<Rightarrow> 'a uip_scheme \<Rightarrow> 'a uip_scheme res" where
  "st_established app r s =
     (if buf8 s o_flags AND TCP_FIN \<noteq> 0 \<and> tcpstateflags (conn_at s r) AND UIP_STOPPED = 0
      then if uip_outstanding (conn_at s r) then Inr (drop_packet s)
           else let s = uip_add_rcv_nxt r (1 + uip_len s) s;
                    s = s\<lparr>uip_flags := uip_flags s OR UIP_CLOSE\<rparr>;
                    s = (if uip_len s > 0 then s\<lparr>uip_flags := uip_flags s OR UIP_NEWDATA\<rparr> else s)
                in res_bind (app s) (\<lambda>s.
                     tcp_send_finack r
                       (upd_conn r (\<lambda>c. c\<lparr>conn_len := 1, tcpstateflags := UIP_LAST_ACK, nrtx := 0\<rparr>) s))
      else
        let s = urgent_skip s;
            s = (if uip_len s > 0 \<and> tcpstateflags (conn_at s r) AND UIP_STOPPED = 0
                 then uip_add_rcv_nxt r (uip_len s) (s\<lparr>uip_flags := uip_flags s OR UIP_NEWDATA\<rparr>)
                 else s);
            s = window_mss r s
        in if uip_flags s AND (UIP_NEWDATA OR UIP_ACKDATA) \<noteq> 0
           then res_bind (app (s\<lparr>uip_slen := 0\<rparr>)) (appsend r)
           else Inr (drop_packet s))"

definition st_last_ack :: "('a uip_scheme \<Rightarrow> 'a uip_scheme res) \<Rightarrow> nat \<Rightarrow> 'a uip_scheme \<Rightarrow> 'a uip_scheme res" where
  "st_last_ack app r s =
     (if uip_flags s AND UIP_ACKDATA \<noteq> 0
      then let s = upd_conn r (\<lambda>c. c\<lparr>tcpstateflags := UIP_CLOSED\<rparr>) s
           in res_bind (app (s\<lparr>uip_flags := UIP_CLOSE\<rparr>)) (\<lambda>s. Inr (drop_packet s))
      else Inr (drop_packet s))"

definition st_fin_wait_1 :: "('a uip_scheme \<Rightarrow> 'a uip_scheme res) \<Rightarrow> nat \<Rightarrow> 'a uip_scheme \<Rightarrow> 'a uip_scheme res" where
  "st_fin_wait_1 app r s =
     (let s = (if uip_len s > 0 then uip_add_rcv_nxt r (uip_len s) s else s) in
      if buf8 s o_flags AND TCP_FIN \<noteq> 0
      then let s = (if uip_flags s AND UIP_ACKDATA \<noteq> 0
                    then upd_conn r (\<lambda>c. c\<lparr>tcpstateflags := UIP_TIME_WAIT, timer := 0, conn_len := 0\<rparr>) s
                    else upd_conn r (\<lambda>c. c\<lparr>tcpstateflags := UIP_CLOSING\<rparr>) s);
               s = uip_add_rcv_nxt r 1 s
           in res_bind (app (s\<lparr>uip_flags := UIP_CLOSE\<rparr>)) (tcp_send_ack r)
      else if uip_flags s AND UIP_ACKDATA \<noteq> 0
      then Inr (drop_packet (upd_conn r (\<lambda>c. c\<lparr>tcpstateflags := UIP_FIN_WAIT_2, conn_len := 0\<rparr>) s))
      else if uip_len s > 0 then tcp_send_ack r s
      else Inr (drop_packet s))"

definition st_fin_wait_2 :: "('a uip_scheme \<Rightarrow> 'a uip_scheme res) \<Rightarrow> nat \<Rightarrow> 'a uip_scheme \<Rightarrow> 'a uip_scheme res" where
  "st_fin_wait_2 app r s =
     (let s = (if uip_len s > 0 then uip_add_rcv_nxt r (uip_len s) s else s) in
      if buf8 s o_flags AND TCP_FIN \<noteq> 0
      then let s = upd_conn r (\<lambda>c. c\<lparr>tcpstateflags := UIP_TIME_WAIT, timer := 0\<rparr>) s;
               s = uip_add_rcv_nxt r 1 s
           in res_bind (app (s\<lparr>uip_flags := UIP_CLOSE\<rparr>)) (tcp_send_ack r)
      else if uip_len s > 0 then tcp_send_ack r s
      else Inr (drop_packet s))"

definition st_closing :: "nat \<Rightarrow> 'a uip_scheme \<Rightarrow> 'a uip_scheme res" where
  "st_closing r s =
     (if uip_flags s AND UIP_ACKDATA \<noteq> 0
      then Inr (drop_packet (upd_conn r (\<lambda>c. c\<lparr>tcpstateflags := UIP_TIME_WAIT, timer := 0\<rparr>) s))
      else Inr (drop_packet s))"

definition tcp_state_input :: "('a uip_scheme \<Rightarrow> 'a uip_scheme res) \<Rightarrow> nat \<Rightarrow> 'a uip_scheme \<Rightarrow> 'a uip_scheme res" where
  "tcp_state_input app r s =
     (let st = tcp_state_of (conn_at s r) in
      if st = UIP_SYN_RCVD then st_syn_rcvd app r s
      else if st = UIP_SYN_SENT then st_syn_sent app r s
      else if st = UIP_ESTABLISHED then st_established app r s
      else if st = UIP_LAST_ACK then st_last_ack app r s
      else if st = UIP_FIN_WAIT_1 then st_fin_wait_1 app r s
      else if st = UIP_FIN_WAIT_2 then st_fin_wait_2 app r s
      else if st = UIP_TIME_WAIT then tcp_send_ack r s
      else if st = UIP_CLOSING then st_closing r s
      else Inr (drop_packet s))"

definition unexpected_seq :: "nat \<Rightarrow> 'a uip_scheme \<Rightarrow> bool" where
  "unexpected_seq r s \<longleftrightarrow>
     \<not> (tcp_state_of (conn_at s r) = UIP_SYN_SENT \<and>
        buf8 s o_flags AND TCP_CTL = TCP_SYN OR TCP_ACK) \<and>
     (uip_len s > 0 \<or> buf8 s o_flags AND (TCP_SYN OR TCP_FIN) \<noteq> 0) \<and>
     buf_quad s o_seqno \<noteq> rcv_nxt (conn_at s r)"

definition found :: "('a uip_scheme \<Rightarrow> 'a uip_scheme res) \<Rightarrow> nat \<Rightarrow> 'a uip_scheme \<Rightarrow> 'a uip_scheme res" where
  "found app r s =
     (let s = s\<lparr>uip_conn := Some r, uip_flags := 0\<rparr> in
      if buf8 s o_flags AND TCP_RST \<noteq> 0
      then let s = upd_conn r (\<lambda>c. c\<lparr>tcpstateflags := UIP_CLOSED\<rparr>) s
           in res_bind (app (s\<lparr>uip_flags := UIP_ABORT\<rparr>)) (\<lambda>s. Inr (drop_packet s))
      else
        let c = push_bit 2 (drop_bit 4 (buf8 s o_tcpoffset));
            s = s\<lparr>uip_len := uip_len s - ucast c - UIP_IPH_LEN\<rparr>
        in if unexpected_seq r s then tcp_send_ack r s
           else tcp_state_input app r (tcp_ack_input r s))"

text \<open>Demultiplexing: the first active connection with the segment's ports and source address.\<close>

definition conn_matches :: "'a uip_scheme \<Rightarrow> uip_conn_t \<Rightarrow> bool" where
  "conn_matches s c \<longleftrightarrow>
     tcpstateflags c \<noteq> UIP_CLOSED \<and> buf16 s o_destport = lport c \<and>
     buf16 s o_srcport = rport c \<and> uip_ipaddr_cmp (buf_addr s o_srcipaddr) (ripaddr c)"

fun first_index :: "('b \<Rightarrow> bool) \<Rightarrow> 'b list \<Rightarrow> nat option" where
  "first_index P [] = None"
| "first_index P (x # xs) = (if P x then Some 0 else map_option Suc (first_index P xs))"

definition tcp_input :: "('a uip_scheme \<Rightarrow> 'a uip_scheme res) \<Rightarrow> 'a uip_scheme \<Rightarrow> 'a uip_scheme res" where
  "tcp_input app s =
     (let s = count_stat (\<lambda>t. t\<lparr>tcp_recv := tcp_recv t + 1\<rparr>) s in
      res_bind (uip_tcpchksum s) (\<lambda>cs.
        if cs \<noteq> 0xffff
        then Inr (drop_packet (count_stat (\<lambda>t. t\<lparr>tcp_drop := tcp_drop t + 1, tcp_chkerr := tcp_chkerr t + 1\<rparr>) s))
        else case first_index (conn_matches s) (uip_conns s) of
               Some r \<Rightarrow> found app r s
             | None \<Rightarrow>
                 if buf8 s o_flags AND TCP_CTL \<noteq> TCP_SYN then tcp_reset s
                 else if buf16 s o_destport \<in> set (uip_listenports s) then found_listen s
                 else tcp_reset (count_stat (\<lambda>t. t\<lparr>tcp_synrst := tcp_synrst t + 1\<rparr>) s)))"

section \<open>ICMP and IP input\<close>

definition icmp_input :: "'a uip_scheme \<Rightarrow> 'a uip_scheme" where
  "icmp_input s =
     (let s = count_stat (\<lambda>t. t\<lparr>icmp_recv := icmp_recv t + 1\<rparr>) s in
      if buf8 s o_icmp_type \<noteq> ICMP_ECHO
      then drop_packet (count_stat (\<lambda>t. t\<lparr>icmp_drop := icmp_drop t + 1, icmp_typeerr := icmp_typeerr t + 1\<rparr>) s)
      else
        let s = set8 o_icmp_type ICMP_ECHO_REPLY s;
            ck = buf16 s o_icmpchksum;
            s = (if ck \<ge> HTONS (0xffff - push_bit 8 (ucast ICMP_ECHO))
                 then set16 o_icmpchksum (ck + HTONS (push_bit 8 (ucast ICMP_ECHO)) + 1) s
                 else set16 o_icmpchksum (ck + HTONS (push_bit 8 (ucast ICMP_ECHO))) s);
            s = set_addr o_destipaddr (buf_addr s o_srcipaddr) s;
            s = set_addr o_srcipaddr (uip_hostaddr s) s;
            s = count_stat (\<lambda>t. t\<lparr>icmp_sent := icmp_sent t + 1\<rparr>) s
        in send_packet s)"

definition ip_total_len :: "'a uip_scheme \<Rightarrow> u16" where
  "ip_total_len s = push_bit 8 (ucast (buf8 s o_len)) + ucast (buf8 s (o_len + 1))"

definition ip_input :: "('a uip_scheme \<Rightarrow> 'a uip_scheme res) \<Rightarrow> 'a uip_scheme \<Rightarrow> 'a uip_scheme res" where
  "ip_input app s =
     (let s = count_stat (\<lambda>t. t\<lparr>ip_recv := ip_recv t + 1\<rparr>) s in
      if buf8 s o_vhl \<noteq> 0x45
      then Inr (drop_packet (count_stat (\<lambda>t. t\<lparr>ip_drop := ip_drop t + 1, ip_vhlerr := ip_vhlerr t + 1\<rparr>) s))
      else if \<not> ip_total_len s \<le> uip_len s then Inr (drop_packet s)
      else
        let s = s\<lparr>uip_len := ip_total_len s\<rparr> in
        if buf8 s o_ipoffset AND 0x3f \<noteq> 0 \<or> buf8 s (o_ipoffset + 1) \<noteq> 0
        then Inr (drop_packet (count_stat (\<lambda>t. t\<lparr>ip_drop := ip_drop t + 1, ip_fragerr := ip_fragerr t + 1\<rparr>) s))
        else if \<not> uip_ipaddr_cmp (uip_hostaddr s) (0, 0) \<and>
                \<not> uip_ipaddr_cmp (buf_addr s o_destipaddr) (uip_hostaddr s)
        then Inr (drop_packet (count_stat (\<lambda>t. t\<lparr>ip_drop := ip_drop t + 1\<rparr>) s))
        else if uip_ipchksum s \<noteq> 0xffff
        then Inr (drop_packet (count_stat (\<lambda>t. t\<lparr>ip_drop := ip_drop t + 1, ip_chkerr := ip_chkerr t + 1\<rparr>) s))
        else if buf8 s o_proto = UIP_PROTO_TCP then tcp_input app s
        else if buf8 s o_proto \<noteq> UIP_PROTO_ICMP
        then Inr (drop_packet (count_stat (\<lambda>t. t\<lparr>ip_drop := ip_drop t + 1, ip_protoerr := ip_protoerr t + 1\<rparr>) s))
        else Inr (icmp_input s))"

section \<open>The entry point\<close>

text \<open>
  \<^verbatim>\<open>uip_process(flag)\<close>. The poll and timer entries follow \<^verbatim>\<open>uip_conn\<close>; any other flag is packet
  input.
\<close>

definition uip_process :: "('a uip_scheme \<Rightarrow> 'a uip_scheme res) \<Rightarrow> u8 \<Rightarrow> 'a uip_scheme \<Rightarrow> 'a uip_scheme res" where
  "uip_process app flag s =
     (let s = s\<lparr>uip_sappdata := 54, uip_appdata := 54\<rparr> in
      if flag = UIP_POLL_REQUEST
      then case uip_conn s of None \<Rightarrow> Inl NullDeref | Some r \<Rightarrow> poll_request app r s
      else if flag = UIP_TIMER
      then case uip_conn s of None \<Rightarrow> Inl NullDeref | Some r \<Rightarrow> timer_tick app r s
      else ip_input app s)"

definition uip_input :: "('a uip_scheme \<Rightarrow> 'a uip_scheme res) \<Rightarrow> 'a uip_scheme \<Rightarrow> 'a uip_scheme res" where
  "uip_input app s = uip_process app UIP_DATA s"

definition uip_periodic :: "('a uip_scheme \<Rightarrow> 'a uip_scheme res) \<Rightarrow> nat \<Rightarrow> 'a uip_scheme \<Rightarrow> 'a uip_scheme res" where
  "uip_periodic app r s = uip_process app UIP_TIMER (s\<lparr>uip_conn := Some r\<rparr>)"

definition uip_poll_conn :: "('a uip_scheme \<Rightarrow> 'a uip_scheme res) \<Rightarrow> nat \<Rightarrow> 'a uip_scheme \<Rightarrow> 'a uip_scheme res" where
  "uip_poll_conn app r s = uip_process app UIP_POLL_REQUEST (s\<lparr>uip_conn := Some r\<rparr>)"

section \<open>What the labels leave alone\<close>

lemma find_unused_less:
  "find_unused xs c best = Some r \<Longrightarrow> (\<And>b t. best = Some (b, t) \<Longrightarrow> b < c) \<Longrightarrow> r < c + length xs"
proof (induction xs c best rule: find_unused.induct)
  case (2 x xs c best)
  then show ?case by (fastforce split: if_splits option.splits)
qed auto

lemma first_index_Some:
  "first_index P xs = Some i \<Longrightarrow> i < length xs \<and> P (xs ! i) \<and> (\<forall>j<i. \<not> P (xs ! j))"
  by (induction xs arbitrary: i) (auto simp: less_Suc_eq_0_disj split: if_splits)

lemma first_index_None: "first_index P xs = None \<longleftrightarrow> (\<forall>x \<in> set xs. \<not> P x)"
  by (induction xs) auto

lemma ip_total_len_be16: "ip_total_len s = be16 (uip_buf s ! 16) (uip_buf s ! 17)"
  by (simp add: ip_total_len_def be16_def buf8_def)

lemma ip_total_len_frame [simp]:
  "ip_total_len (s\<lparr>uip_len := x1\<rparr>) = ip_total_len s"
  "ip_total_len (s\<lparr>uip_flags := x2\<rparr>) = ip_total_len s"
  "ip_total_len (s\<lparr>uip_conn := x3\<rparr>) = ip_total_len s"
  "ip_total_len (s\<lparr>uip_appdata := x4\<rparr>) = ip_total_len s"
  "ip_total_len (s\<lparr>uip_sappdata := x4\<rparr>) = ip_total_len s"
  "ip_total_len (count_stat g s) = ip_total_len s"
  by (simp_all add: ip_total_len_def)

lemma uip_add_rcv_nxt_frame [simp]:
  "uip_sappdata (uip_add_rcv_nxt r n s) = uip_sappdata s"
  "uip_appdata (uip_add_rcv_nxt r n s) = uip_appdata s"
  "uip_len (uip_add_rcv_nxt r n s) = uip_len s"
  "uip_flags (uip_add_rcv_nxt r n s) = uip_flags s"
  "uip_buf (uip_add_rcv_nxt r n s) = uip_buf s"
  "buf8 (uip_add_rcv_nxt r n s) i = buf8 s i"
  "uip_conn (uip_add_rcv_nxt r n s) = uip_conn s"
  by (simp_all add: uip_add_rcv_nxt_def Let_def)

lemma window_mss_frame [simp]:
  "uip_sappdata (window_mss r s) = uip_sappdata s"
  "uip_appdata (window_mss r s) = uip_appdata s"
  "uip_len (window_mss r s) = uip_len s"
  "uip_flags (window_mss r s) = uip_flags s"
  by (simp_all add: window_mss_def Let_def)

lemma tcp_ack_input_frame [simp]:
  "uip_sappdata (tcp_ack_input r s) = uip_sappdata s"
  "uip_appdata (tcp_ack_input r s) = uip_appdata s"
  "uip_len (tcp_ack_input r s) = uip_len s"
  "uip_buf (tcp_ack_input r s) = uip_buf s"
  "buf8 (tcp_ack_input r s) i = buf8 s i"
  by (simp_all add: tcp_ack_input_def Let_def)

lemma parse_mss_frame:
  "parse_mss r s = Inr s' \<Longrightarrow> uip_buf s' = uip_buf s \<and> uip_appdata s' = uip_appdata s \<and>
     uip_sappdata s' = uip_sappdata s"
  by (auto simp: parse_mss_def Let_def split: if_splits option.splits)

end
