(* ===== verification/Uip_Inv.thy ===== *)
theory Uip_Inv
  imports Uip_Process
begin

text \<open>
  The invariant of the stack's variables, what it means for an outgoing packet to be well formed,
  the contract of the application callback as a locale, and that \<^verbatim>\<open>uip_process()\<close> keeps the
  invariant and leaves a well-formed packet in the buffer, label by label.
\<close>

section \<open>Definitions\<close>

text \<open>
  Lengths in a connection never exceed the maximum segment size, so header and data fit the packet
  buffer.
\<close>

definition conn_wf :: "uip_conn_t \<Rightarrow> bool" where
  "conn_wf c \<longleftrightarrow> conn_len c \<le> UIP_TCP_MSS \<and> mss c \<le> UIP_TCP_MSS \<and> initialmss c \<le> UIP_TCP_MSS"

definition uip_wf :: "'a uip_scheme \<Rightarrow> bool" where
  "uip_wf s \<longleftrightarrow>
     length (uip_buf s) = UIP_BUFSIZE + 2 \<and> length (uip_conns s) = UIP_CONNS \<and>
     length (uip_listenports s) = UIP_LISTENPORTS \<and> length (uip_ethaddr s) = 6 \<and>
     list_all conn_wf (uip_conns s) \<and> (case uip_conn s of None \<Rightarrow> True | Some r \<Rightarrow> r < UIP_CONNS)"

text \<open>
  The packet left in the buffer: nothing, or an IP packet whose length field is \<^verbatim>\<open>uip_len\<close>, whose
  header checksum is right, and which, if it is not an ICMP echo reply, is a TCP segment of at most
  406 bytes with a right checksum. (An ICMP reply is the request with its addresses exchanged; when the
  host has no address yet the reply keeps the header checksum of the request.)
\<close>

definition out_ok :: "'a uip_scheme \<Rightarrow> bool" where
  "out_ok s \<longleftrightarrow>
     uip_len s = 0 \<or>
     ip_total_len s = uip_len s \<and>
     (uip_hostaddr s \<noteq> (0, 0) \<longrightarrow> uip_ipchksum s = 0xffff) \<and>
     (buf8 s o_proto \<noteq> UIP_PROTO_ICMP \<longrightarrow>
        40 \<le> uip_len s \<and> uip_len s \<le> 406 \<and> uip_tcpchksum s = Inr 0xffff)"

text \<open>The invariant together with a property of the application's own variables.\<close>

definition uip_inv :: "('a \<Rightarrow> bool) \<Rightarrow> 'a uip_scheme \<Rightarrow> bool" where
  "uip_inv I s \<longleftrightarrow> uip_wf s \<and> I (uip.more s)"

abbreviation process_post :: "('a \<Rightarrow> bool) \<Rightarrow> 'a uip_scheme \<Rightarrow> bool" where
  "process_post I s \<equiv> uip_inv I s \<and> out_ok s"

text \<open>
  What a call of the application may change of the stack's variables, and what it may rely on: the
  new data, if there is any, lies inside the packet buffer.
\<close>

definition app_frame :: "'a uip_scheme \<Rightarrow> 'a uip_scheme \<Rightarrow> bool" where
  "app_frame s s' \<longleftrightarrow>
     uip_conns s' = uip_conns s \<and> uip_conn s' = uip_conn s \<and> uip_listenports s' = uip_listenports s \<and>
     uip_hostaddr s' = uip_hostaddr s \<and> uip_ethaddr s' = uip_ethaddr s \<and>
     length (uip_buf s') = length (uip_buf s) \<and>
     take 54 (uip_buf s') = take 54 (uip_buf s)"

definition data_ok :: "'a uip_scheme \<Rightarrow> bool" where
  "data_ok s \<longleftrightarrow>
     (uip_flags s AND UIP_NEWDATA \<noteq> 0 \<longrightarrow> uip_appdata s + min (unat (uip_len s)) UIP_BUFSIZE \<le> UIP_BUFSIZE + 2)"

text \<open>
  The segments on which the TCP code stays inside the buffer: header and options fit the IP
  packet, which fits the buffer; urgent data is not longer than the data; and the loop over the options
  of a SYN ends.
\<close>

definition urgp_of :: "'a uip_scheme \<Rightarrow> u16" where
  "urgp_of s = push_bit 8 (ucast (buf8 s o_urgp)) OR ucast (buf8 s (o_urgp + 1))"

definition seg_safe :: "'a uip_scheme \<Rightarrow> bool" where
  "seg_safe s \<longleftrightarrow>
     uip_appdata s = 54 \<and> uip_len s \<le> 368 \<and>
     (buf8 s o_flags AND TCP_URG \<noteq> 0 \<longrightarrow> urgp_of s \<le> uip_len s)"

definition opts_safe :: "'a uip_scheme \<Rightarrow> bool" where
  "opts_safe s \<longleftrightarrow>
     mss_option (uip_buf s) ((unat (drop_bit 4 (buf8 s o_tcpoffset)) - 5) * 4) 0 \<noteq> None"

definition tcp_hlen :: "'a uip_scheme \<Rightarrow> nat" where
  "tcp_hlen s = 4 * (unat (buf8 s o_tcpoffset) div 16)"

definition segment_safe :: "'a uip_scheme \<Rightarrow> bool" where
  "segment_safe s \<longleftrightarrow>
     20 \<le> tcp_hlen s \<and> 20 + tcp_hlen s \<le> unat (ip_total_len s) \<and> unat (ip_total_len s) \<le> 408 \<and>
     (buf8 s o_flags AND TCP_URG \<noteq> 0 \<longrightarrow> 20 + tcp_hlen s + unat (urgp_of s) \<le> unat (ip_total_len s))"

text \<open>The echo reply as a function of the request.\<close>

definition swap_addrs :: "ip4addr \<Rightarrow> 'a uip_scheme \<Rightarrow> 'a uip_scheme" where
  "swap_addrs h s = set_addr o_srcipaddr h (set_addr o_destipaddr (buf_addr s o_srcipaddr) s)"

definition icmp_reply_chksum :: "u16 \<Rightarrow> u16" where
  "icmp_reply_chksum ck =
     (if ck \<ge> HTONS (0xffff - push_bit 8 (ucast ICMP_ECHO))
      then ck + HTONS (push_bit 8 (ucast ICMP_ECHO)) + 1
      else ck + HTONS (push_bit 8 (ucast ICMP_ECHO)))"

definition icmp_reply :: "'a uip_scheme \<Rightarrow> 'a uip_scheme" where
  "icmp_reply s = swap_addrs (uip_hostaddr s)
     (set16 o_icmpchksum (icmp_reply_chksum (buf16 s o_icmpchksum)) (set8 o_icmp_type ICMP_ECHO_REPLY s))"

section \<open>The invariant under single updates\<close>

lemma uip_wf_update [simp]:
  "uip_wf (s\<lparr>uip_len := x1\<rparr>) = uip_wf s"
  "uip_wf (s\<lparr>uip_slen := x2\<rparr>) = uip_wf s"
  "uip_wf (s\<lparr>uip_flags := x3\<rparr>) = uip_wf s"
  "uip_wf (s\<lparr>uip_appdata := x4\<rparr>) = uip_wf s"
  "uip_wf (s\<lparr>uip_sappdata := x4\<rparr>) = uip_wf s"
  "uip_wf (s\<lparr>uip_acc32 := x5\<rparr>) = uip_wf s"
  "uip_wf (s\<lparr>iss := x5\<rparr>) = uip_wf s"
  "uip_wf (s\<lparr>ipid := x1\<rparr>) = uip_wf s"
  "uip_wf (count_stat g s) = uip_wf s"
  "uip_wf (set8 i v s) = uip_wf s"
  "uip_wf (set16 i w s) = uip_wf s"
  "uip_wf (set_addr i a s) = uip_wf s"
  by (simp_all add: uip_wf_def count_stat_def set8_def set16_def set_addr_def)

lemma uip_wf_set_quad [simp]: "uip_wf (set_quad i q s) = uip_wf s"
  by (cases q) simp

lemma uip_wf_conn [simp]: "r < 40 \<Longrightarrow> uip_wf s \<Longrightarrow> uip_wf (s\<lparr>uip_conn := Some r\<rparr>)"
  by (simp add: uip_wf_def)

lemma uip_inv_update [simp]:
  "uip_inv I (s\<lparr>uip_len := x1\<rparr>) = uip_inv I s"
  "uip_inv I (s\<lparr>uip_slen := x2\<rparr>) = uip_inv I s"
  "uip_inv I (s\<lparr>uip_flags := x3\<rparr>) = uip_inv I s"
  "uip_inv I (s\<lparr>uip_appdata := x4\<rparr>) = uip_inv I s"
  "uip_inv I (s\<lparr>uip_sappdata := x4\<rparr>) = uip_inv I s"
  "uip_inv I (s\<lparr>uip_acc32 := x5\<rparr>) = uip_inv I s"
  "uip_inv I (s\<lparr>iss := x5\<rparr>) = uip_inv I s"
  "uip_inv I (count_stat g s) = uip_inv I s"
  "uip_inv I (set8 i v s) = uip_inv I s"
  "uip_inv I (set16 i w s) = uip_inv I s"
  "uip_inv I (set_addr i a s) = uip_inv I s"
  "uip_inv I (set_quad i q s) = uip_inv I s"
  by (simp_all add: uip_inv_def)

lemma uip_inv_wf: "uip_inv I s \<Longrightarrow> uip_wf s"
  by (simp add: uip_inv_def)

lemma uip_inv_conn [simp]: "r < 40 \<Longrightarrow> uip_inv I s \<Longrightarrow> uip_inv I (s\<lparr>uip_conn := Some r\<rparr>)"
  by (simp add: uip_inv_def)

lemma uip_wf_lengths:
  assumes "uip_wf s"
  shows "length (uip_buf s) = 422" "length (uip_conns s) = 40" "length (uip_listenports s) = 40"
    "length (uip_ethaddr s) = 6"
  using assms by (simp_all add: uip_wf_def)

lemma conn_wf_conn_at: "uip_wf s \<Longrightarrow> r < 40 \<Longrightarrow> conn_wf (conn_at s r)"
  by (simp add: uip_wf_def conn_at_def list_all_length)

lemma uip_wf_upd_conn:
  "uip_wf s \<Longrightarrow> r < 40 \<Longrightarrow> (conn_wf (conn_at s r) \<Longrightarrow> conn_wf (f (conn_at s r))) \<Longrightarrow> uip_wf (upd_conn r f s)"
  by (auto simp: uip_wf_def conn_at_def upd_conn_def list_all_length nth_list_update)

lemma uip_inv_upd_conn:
  "uip_inv I s \<Longrightarrow> r < 40 \<Longrightarrow> (conn_wf (conn_at s r) \<Longrightarrow> conn_wf (f (conn_at s r))) \<Longrightarrow> uip_inv I (upd_conn r f s)"
  by (simp add: uip_inv_def uip_wf_upd_conn)

lemma conn_at_upd_wf [simp]: "uip_wf s \<Longrightarrow> r < 40 \<Longrightarrow> conn_at (upd_conn r f s) r = f (conn_at s r)"
  by (simp add: conn_at_upd_conn uip_wf_lengths)

lemma conn_at_upd_inv [simp]: "uip_inv I s \<Longrightarrow> r < 40 \<Longrightarrow> conn_at (upd_conn r f s) r = f (conn_at s r)"
  by (simp add: uip_inv_def)

section \<open>Output\<close>

lemma drop_packet_simps [simp]:
  "uip_inv I (drop_packet s) = uip_inv I s"
  "out_ok (drop_packet s)"
  by (simp_all add: drop_packet_def out_ok_def)

lemma drop_packet_post: "uip_inv I s \<Longrightarrow> process_post I (drop_packet s)"
  by simp

lemma ip_send_nolen_wf [simp]: "uip_wf (ip_send_nolen s) = uip_wf s"
  by (simp add: uip_wf_def)

lemma tcp_prep_wf [simp]: "uip_wf (tcp_prep s) = uip_wf s"
  by (simp add: uip_wf_def)

lemma tcp_send_noconn_ok:
  assumes inv: "uip_inv I s" and len: "40 \<le> uip_len s" "uip_len s \<le> 406"
  shows "res_ok E (process_post I) (tcp_send_noconn s)"
proof -
  note L = uip_wf_lengths [OF uip_inv_wf [OF inv]]
  have n: "40 \<le> unat (uip_len s)" "unat (uip_len s) \<le> 406"
    using len by (simp_all add: word_le_nat_alt)
  have ul: "upper_layer_len (tcp_prep s) = uip_len s - 20"
    using L by (simp add: upper_layer_len_be16 tcp_prep_buf nth_put16)
  have "20 \<le> uip_len s"
    using n by (simp add: word_le_nat_alt)
  then have un: "unat (upper_layer_len (tcp_prep s)) = unat (uip_len s) - 20"
    by (simp add: ul unat_sub)
  obtain cs where cs: "uip_tcpchksum (tcp_prep s) = Inr cs"
    using n L un by (simp add: uip_tcpchksum_def upper_layer_chksum_def mem_read_def Let_def)
  let ?u = "ip_send_nolen (set16 o_tcpchksum (NOT cs) (tcp_prep s))"
  have "uip_tcpchksum ?u = Inr 0xffff"
    using tcp_seal [OF L(1) n(1) cs] by (simp add: ip_send_nolen_tcpchksum)
  moreover have "uip_ipchksum ?u = 0xffff"
    using L by (intro ip_send_nolen_chksum) simp
  moreover have "ip_total_len ?u = uip_len ?u"
    using L by (simp add: ip_total_len_be16 ip_send_nolen_nth nth_put16 tcp_prep_buf)
  ultimately show ?thesis
    using inv len by (simp add: tcp_send_noconn_prep cs out_ok_def uip_inv_def)
qed

lemma tcp_send_ok:
  assumes "uip_inv I s" and "40 \<le> uip_len s" "uip_len s \<le> 406"
  shows "res_ok E (process_post I) (tcp_send r s)"
  using assms by (simp add: tcp_send_def Let_def tcp_send_noconn_ok)

lemma tcp_send_noopts_ok:
  "uip_inv I s \<Longrightarrow> 40 \<le> uip_len s \<Longrightarrow> uip_len s \<le> 406 \<Longrightarrow> res_ok E (process_post I) (tcp_send_noopts r s)"
  by (simp add: tcp_send_noopts_def tcp_send_ok)

lemma tcp_send_nodata_ok: "uip_inv I s \<Longrightarrow> res_ok E (process_post I) (tcp_send_nodata r s)"
  by (simp add: tcp_send_nodata_def tcp_send_noopts_ok)

lemma tcp_send_control_ok:
  "uip_inv I s \<Longrightarrow> res_ok E (process_post I) (tcp_send_ack r s)"
  "uip_inv I s \<Longrightarrow> res_ok E (process_post I) (tcp_send_finack r s)"
  "uip_inv I s \<Longrightarrow> res_ok E (process_post I) (tcp_send_syn r s)"
  "uip_inv I s \<Longrightarrow> res_ok E (process_post I) (tcp_send_synack r s)"
  by (simp_all add: tcp_send_ack_def tcp_send_finack_def tcp_send_syn_def tcp_send_synack_def Let_def
      tcp_send_nodata_ok tcp_send_ok)

lemma tcp_reset_ok: "uip_inv I s \<Longrightarrow> res_ok E (process_post I) (tcp_reset s)"
  by (simp add: tcp_reset_def Let_def drop_packet_post tcp_send_noconn_ok)

section \<open>Application output and acknowledgements\<close>

lemma app_frame_wf: "app_frame s s' \<Longrightarrow> uip_wf s \<Longrightarrow> uip_wf s'"
  by (simp add: app_frame_def uip_wf_def)

lemma apprexmit_ok: 
  assumes inv: "uip_inv I s" and r: "r < 40" shows "res_ok E (process_post I) (apprexmit r s)"
proof -
  have "conn_len (conn_at s r) \<le> 366"
    using conn_wf_conn_at [OF uip_inv_wf [OF inv] r] by (simp add: conn_wf_def)
  then have "40 \<le> conn_len (conn_at s r) + 40 \<and> conn_len (conn_at s r) + 40 \<le> 406"
    by (simp add: word_le_nat_alt unat_add_wrap)
  with inv show ?thesis
    by (auto simp: apprexmit_def Let_def drop_packet_post intro!: tcp_send_noopts_ok)
qed

lemma appsend_len_inv: "uip_inv I s \<Longrightarrow> r < 40 \<Longrightarrow> uip_inv I (appsend_len r s)"
  by (auto simp: appsend_len_def Let_def conn_wf_def not_less intro!: uip_inv_upd_conn)

lemma appsend_ok: "uip_inv I s \<Longrightarrow> r < 40 \<Longrightarrow> res_ok E (process_post I) (appsend r s)"
  by (auto simp: appsend_def Let_def conn_wf_def
      intro!: apprexmit_ok uip_inv_upd_conn appsend_len_inv tcp_send_nodata_ok)

lemma uip_add_rcv_nxt_inv [simp]: "uip_inv I s \<Longrightarrow> r < 40 \<Longrightarrow> uip_inv I (uip_add_rcv_nxt r n s)"
  by (auto simp: uip_add_rcv_nxt_def Let_def conn_wf_def intro!: uip_inv_upd_conn)

lemma parse_mss_ok:
  assumes "uip_inv I s" and "r < 40"
    and "E Hang \<or> mss_option (uip_buf s) ((unat (drop_bit 4 (buf8 s o_tcpoffset)) - 5) * 4) 0 \<noteq> None"
  shows "res_ok E (\<lambda>s'. uip_inv I s') (parse_mss r s)"
  using assms
  by (auto simp: parse_mss_def Let_def conn_wf_def not_less split: option.splits intro!: uip_inv_upd_conn)

lemma window_mss_inv [simp]: "uip_inv I s \<Longrightarrow> r < 40 \<Longrightarrow> uip_inv I (window_mss r s)"
  by (auto simp: window_mss_def Let_def conn_wf_def not_less intro!: uip_inv_upd_conn)

lemma tcp_ack_input_inv [simp]: "uip_inv I s \<Longrightarrow> r < 40 \<Longrightarrow> uip_inv I (tcp_ack_input r s)"
  by (auto simp: tcp_ack_input_def Let_def conn_wf_def rtt_estimate_def intro!: uip_inv_upd_conn)

section \<open>Safe segments\<close>

lemma urgent_skip_simps [simp]:
  "uip_inv I (urgent_skip s) = uip_inv I s"
  "uip_sappdata (urgent_skip s) = uip_sappdata s"
  "conn_at (urgent_skip s) r = conn_at s r"
  "uip_flags (urgent_skip s) = uip_flags s"
  by (simp_all add: urgent_skip_def Let_def)

lemma urgent_skip_bound:
  assumes "seg_safe s"
  shows "uip_appdata (urgent_skip s) + unat (uip_len (urgent_skip s)) \<le> 422"
  using assms
  by (cases "buf8 s o_flags AND TCP_URG = 0")
    (simp_all add: seg_safe_def urgent_skip_def Let_def urgp_of_def word_le_nat_alt unat_sub)

lemma seg_safe_frame [simp]:
  "seg_safe (s\<lparr>uip_slen := x1\<rparr>) = seg_safe s"
  "seg_safe (s\<lparr>uip_flags := x2\<rparr>) = seg_safe s"
  "seg_safe (upd_conn r f s) = seg_safe s"
  "seg_safe (uip_add_rcv_nxt r n s) = seg_safe s"
  "seg_safe (tcp_ack_input r s) = seg_safe s"
  by (simp_all add: seg_safe_def urgp_of_def)

lemma seg_safe_data_ok: "seg_safe s \<Longrightarrow> data_ok s"
  by (auto simp: seg_safe_def data_ok_def word_le_nat_alt)

lemma data_ok_flags: "uip_flags s AND UIP_NEWDATA = 0 \<Longrightarrow> data_ok s"
  by (simp add: data_ok_def)

lemma opts_safe_frame [simp]:
  "opts_safe (tcp_ack_input r s) = opts_safe s"
  by (simp add: opts_safe_def)

lemma conn_update_inv:
  assumes "uip_inv I s" and "r < 40"
  shows "uip_inv I (upd_conn r (\<lambda>c. c\<lparr>tcpstateflags := st\<rparr>) s)"
    "n \<le> 366 \<Longrightarrow> uip_inv I (upd_conn r (\<lambda>c. c\<lparr>conn_len := n\<rparr>) s)"
    "n \<le> 366 \<Longrightarrow> uip_inv I (upd_conn r (\<lambda>c. c\<lparr>tcpstateflags := st, conn_len := n\<rparr>) s)"
    "n \<le> 366 \<Longrightarrow> uip_inv I (upd_conn r (\<lambda>c. c\<lparr>conn_len := n, tcpstateflags := st, nrtx := m\<rparr>) s)"
    "uip_inv I (upd_conn r (\<lambda>c. c\<lparr>tcpstateflags := st, timer := t\<rparr>) s)"
    "n \<le> 366 \<Longrightarrow> uip_inv I (upd_conn r (\<lambda>c. c\<lparr>tcpstateflags := st, timer := t, conn_len := n\<rparr>) s)"
    "uip_inv I (upd_conn r (\<lambda>c. c\<lparr>tcpstateflags := st, rcv_nxt := q\<rparr>) s)"
  using assms by (auto simp: conn_wf_def intro!: uip_inv_upd_conn)

lemma segment_safe_frame [simp]:
  "segment_safe (s\<lparr>uip_len := x1\<rparr>) = segment_safe s"
  "segment_safe (s\<lparr>uip_flags := x2\<rparr>) = segment_safe s"
  "segment_safe (s\<lparr>uip_conn := x3\<rparr>) = segment_safe s"
  "segment_safe (s\<lparr>uip_appdata := x4\<rparr>) = segment_safe s"
  "segment_safe (s\<lparr>uip_sappdata := x4\<rparr>) = segment_safe s"
  "segment_safe (count_stat g s) = segment_safe s"
  "opts_safe (s\<lparr>uip_len := x1\<rparr>) = opts_safe s"
  "opts_safe (s\<lparr>uip_flags := x2\<rparr>) = opts_safe s"
  "opts_safe (s\<lparr>uip_conn := x3\<rparr>) = opts_safe s"
  "opts_safe (s\<lparr>uip_appdata := x4\<rparr>) = opts_safe s"
  "opts_safe (s\<lparr>uip_sappdata := x4\<rparr>) = opts_safe s"
  "opts_safe (count_stat g s) = opts_safe s"
  by (simp_all add: segment_safe_def opts_safe_def tcp_hlen_def urgp_of_def)

lemma unat_tcp_hlen: "unat (ucast (push_bit 2 (drop_bit 4 (buf8 s o_tcpoffset))) :: u16) = tcp_hlen s"
proof -
  have "unat (buf8 s o_tcpoffset) div 16 < 16"
    using unat_u8_less [of "buf8 s o_tcpoffset"] by linarith
  then show ?thesis
    by (simp add: tcp_hlen_def unsigned_ucast_eq push_bit_eq_mult unat_word_ariths unat_drop_bit_eq
        drop_bit_nat_def take_bit_eq_mod)
qed

lemma seg_len:
  assumes "segment_safe s" and "uip_len s = ip_total_len s"
  shows "unat (uip_len s - ucast (push_bit 2 (drop_bit 4 (buf8 s o_tcpoffset))) - UIP_IPH_LEN) =
    unat (ip_total_len s) - tcp_hlen s - 20"
proof -
  let ?c = "ucast (push_bit 2 (drop_bit 4 (buf8 s o_tcpoffset))) :: u16"
  have c: "unat ?c = tcp_hlen s" by (rule unat_tcp_hlen)
  have "?c \<le> uip_len s"
    using assms c by (simp add: segment_safe_def word_le_nat_alt)
  moreover have "(20 :: u16) \<le> uip_len s - ?c"
    using assms c calculation by (auto simp: segment_safe_def word_le_nat_alt unat_sub)
  ultimately show ?thesis
    using assms c by (simp add: unat_sub)
qed

lemma segment_seg_safe:
  assumes "segment_safe s" and "uip_len s = ip_total_len s" and "uip_appdata s = 54"
  shows "seg_safe (s\<lparr>uip_conn := r, uip_flags := f,
    uip_len := uip_len s - ucast (push_bit 2 (drop_bit 4 (buf8 s o_tcpoffset))) - UIP_IPH_LEN\<rparr>)"
  using assms(1,3) seg_len [OF assms(1,2)]
  by (auto simp: seg_safe_def segment_safe_def word_le_nat_alt urgp_of_def)

section \<open>Passive open\<close>

lemma found_listen_ok:
  assumes "uip_inv I s" and "E Hang \<or> opts_safe s"
  shows "res_ok E (process_post I) (found_listen s)"
proof (cases "find_unused (uip_conns s) 0 None")
  case None
  then show ?thesis
    using assms by (simp add: found_listen_def drop_packet_post)
next
  case (Some r)
  have r: "r < 40"
    using find_unused_less [OF Some] uip_wf_lengths [OF uip_inv_wf [OF assms(1)]] by simp
  have "uip_inv I (uip_add_rcv_nxt r 1 (upd_conn r (\<lambda>c. c\<lparr>rto := a1, timer := a2, sa := a3,
      sv := a4, nrtx := a5, lport := a6, rport := a7, ripaddr := a8, tcpstateflags := a9,
      snd_nxt := a10, conn_len := 1, rcv_nxt := a11\<rparr>) (s\<lparr>uip_conn := Some r\<rparr>)))"
    for a1 a2 a3 a4 a5 a6 a7 a8 a9 a10 a11
    using assms r by (intro uip_add_rcv_nxt_inv uip_inv_upd_conn) (auto simp: conn_wf_def)
  then show ?thesis
    unfolding found_listen_def Some Let_def option.case
    using assms r
    by (intro res_ok_bind [OF parse_mss_ok] tcp_send_control_ok) (auto simp: opts_safe_def)
qed

section \<open>Echo replies\<close>

lemma length_20_split:
  assumes "length h = 20"
  shows "\<exists>p a0 a1 a2 a3 b0 b1 b2 b3. h = p @ [a0, a1, a2, a3, b0, b1, b2, b3] \<and> length p = 12"
proof -
  have "length (drop 12 h) = Suc (Suc (Suc (Suc (Suc (Suc (Suc (Suc 0)))))))"
    using assms by simp
  then obtain a0 a1 a2 a3 b0 b1 b2 b3 where "drop 12 h = [a0, a1, a2, a3, b0, b1, b2, b3]"
    unfolding length_Suc_conv by auto
  then have "h = take 12 h @ [a0, a1, a2, a3, b0, b1, b2, b3]"
    by (metis append_take_drop_id)
  moreover have "length (take 12 h) = 12"
    using assms by simp
  ultimately show ?thesis by blast
qed

lemma swap_addrs_chksum:
  assumes "length (uip_buf s) = 422" and "buf_addr s o_destipaddr = h"
  shows "uip_ipchksum (swap_addrs h s) = uip_ipchksum s"
proof -
  let ?b = "uip_buf s"
  obtain p a0 a1 a2 a3 b0 b1 b2 b3 where
    h: "take 20 (drop 14 ?b) = p @ [a0, a1, a2, a3, b0, b1, b2, b3]" and p: "length p = 12"
    using length_20_split [of "take 20 (drop 14 ?b)"] assms(1) by auto
  have at: "?b ! (14 + i) = (p @ [a0, a1, a2, a3, b0, b1, b2, b3]) ! i" if "i < 20" for i
    using that assms(1) by (simp add: h [symmetric])
  have b: "?b ! 26 = a0" "?b ! 27 = a1" "?b ! 28 = a2" "?b ! 29 = a3"
    "?b ! 30 = b0" "?b ! 31 = b1" "?b ! 32 = b2" "?b ! 33 = b3"
    using at [of 12] at [of 13] at [of 14] at [of 15] at [of 16] at [of 17] at [of 18] at [of 19] p
    by (simp_all add: nth_append)
  have "take 20 (drop 14 (uip_buf (swap_addrs h s))) = p @ [b0, b1, b2, b3, a0, a1, a2, a3]"
    using p assms(2)
    by (auto simp: swap_addrs_def buf_addr_def get16_def b put16_def take_drop_update h list_update_append)
  with h p show ?thesis
    by (auto simp: uip_ipchksum_def word_sum_append intro!: arg_cong [where f = fold_chksum] chksum_eqI)
qed

lemma icmp_input_echo:
  assumes "buf8 s o_icmp_type = ICMP_ECHO"
  shows "icmp_input s =
    send_packet (count_stat (\<lambda>t. t\<lparr>icmp_sent := icmp_sent t + 1\<rparr>)
      (icmp_reply (count_stat (\<lambda>t. t\<lparr>icmp_recv := icmp_recv t + 1\<rparr>) s)))"
  using assms
  by (simp add: icmp_input_def icmp_reply_def icmp_reply_chksum_def swap_addrs_def Let_def del: push_bit_numeral)

lemma icmp_reply_frame [simp]:
  "uip_len (icmp_reply s) = uip_len s"
  "uip_hostaddr (icmp_reply s) = uip_hostaddr s"
  "uip_inv I (icmp_reply s) = uip_inv I s"
  "ip_total_len (icmp_reply s) = ip_total_len s"
  "buf8 (icmp_reply s) o_proto = buf8 s o_proto"
  by (simp_all add: icmp_reply_def swap_addrs_def ip_total_len_be16 buf8_def put16_def)

lemma icmp_reply_ipchksum:
  assumes "length (uip_buf s) = 422" and "buf_addr s o_destipaddr = uip_hostaddr s"
  shows "uip_ipchksum (icmp_reply s) = uip_ipchksum s"
proof -
  let ?t = "set16 o_icmpchksum (icmp_reply_chksum (buf16 s o_icmpchksum)) (set8 o_icmp_type ICMP_ECHO_REPLY s)"
  have "uip_ipchksum (icmp_reply s) = uip_ipchksum ?t"
    unfolding icmp_reply_def using assms
    by (intro swap_addrs_chksum) (simp_all add: buf_addr_def get16_def put16_def)
  also have "\<dots> = uip_ipchksum s"
    by (simp add: uip_ipchksum_def take_drop_put16_other take_drop_update)
  finally show ?thesis .
qed

lemma send_packet_frame [simp]:
  "uip_len (send_packet s) = uip_len s"
  "uip_hostaddr (send_packet s) = uip_hostaddr s"
  "uip_inv I (send_packet s) = uip_inv I s"
  "ip_total_len (send_packet s) = ip_total_len s"
  "buf8 (send_packet s) i = buf8 s i"
  "uip_ipchksum (send_packet s) = uip_ipchksum s"
  by (simp_all add: send_packet_def uip_ipchksum_def)

lemma icmp_input_post:
  assumes inv: "uip_inv I s" and len: "uip_len s = ip_total_len s" and proto: "buf8 s o_proto = UIP_PROTO_ICMP"
    and ck: "uip_ipchksum s = 0xffff"
    and dest: "uip_hostaddr s \<noteq> (0, 0) \<longrightarrow> buf_addr s o_destipaddr = uip_hostaddr s"
  shows "process_post I (icmp_input s)"
proof (cases "buf8 s o_icmp_type = ICMP_ECHO")
  case False
  then show ?thesis
    using inv by (simp add: icmp_input_def Let_def drop_packet_post)
next
  case True
  show ?thesis
    using assms uip_wf_lengths [OF uip_inv_wf [OF inv]]
    by (auto simp: icmp_input_echo [OF True] out_ok_def icmp_reply_ipchksum)
qed

section \<open>The contract of the application callback\<close>

text \<open>
  \<open>E\<close> says which faults are tolerated; \<open>inv\<close> is the invariant of the variables the application adds
  to the stack's. Inside the locale every label of \<^verbatim>\<open>uip_process()\<close> is shown to keep the invariant.
\<close>

locale uip_app =
  fixes app :: "'a uip_scheme \<Rightarrow> 'a uip_scheme res"
    and E :: "fault \<Rightarrow> bool"
    and inv :: "'a \<Rightarrow> bool"
  assumes app_ok:
    "uip_inv inv s \<Longrightarrow> uip_sappdata s = 54 \<Longrightarrow> E OutOfBounds \<or> data_ok s \<Longrightarrow>
     res_ok E (\<lambda>s'. app_frame s s' \<and> inv (uip.more s')) (app s)"
begin

abbreviation post :: "'a uip_scheme \<Rightarrow> bool" where
  "post \<equiv> process_post inv"

lemma app_call:
  assumes "uip_inv inv s" and "uip_sappdata s = 54" and "E OutOfBounds \<or> data_ok s"
    and "\<And>s'. uip_inv inv s' \<Longrightarrow> res_ok E P (f s')"
  shows "res_ok E P (res_bind (app s) f)"
  using assms by (auto intro!: res_ok_bind [OF app_ok] dest: app_frame_wf simp: uip_inv_def)

lemma poll_request_ok:
  "uip_inv inv s \<Longrightarrow> r < 40 \<Longrightarrow> uip_sappdata s = 54 \<Longrightarrow> res_ok E post (poll_request app r s)"
  by (auto simp: poll_request_def data_ok_def drop_packet_post intro!: app_call appsend_ok)

lemma rexmit_ok:
  "uip_inv inv s \<Longrightarrow> r < 40 \<Longrightarrow> uip_sappdata s = 54 \<Longrightarrow> res_ok E post (rexmit app r s)"
  by (auto simp: rexmit_def Let_def data_ok_def drop_packet_post
      intro!: app_call apprexmit_ok tcp_send_control_ok)

lemma timer_outstanding_ok:
  assumes "uip_inv inv s" and "r < 40" and "uip_sappdata s = 54"
  shows "res_ok E post (timer_outstanding app r s)"
  using assms
  by (auto simp: timer_outstanding_def Let_def data_ok_def conn_wf_def
      intro!: app_call rexmit_ok tcp_send_nodata_ok drop_packet_post uip_inv_upd_conn)

lemma timer_tick_ok:
  assumes "uip_inv inv s" and "r < 40" and "uip_sappdata s = 54"
  shows "res_ok E post (timer_tick app r s)"
  using assms
  by (auto simp: timer_tick_def Let_def data_ok_def conn_wf_def
      intro!: app_call appsend_ok timer_outstanding_ok drop_packet_post uip_inv_upd_conn)

lemma st_syn_rcvd_ok:
  assumes "uip_inv inv s" and "r < 40" and "uip_sappdata s = 54" and "E OutOfBounds \<or> seg_safe s"
  shows "res_ok E post (st_syn_rcvd app r s)"
  using assms
  by (auto simp: st_syn_rcvd_def Let_def conn_update_inv
      intro!: app_call appsend_ok drop_packet_post seg_safe_data_ok)

lemma st_syn_sent_ok:
  assumes "uip_inv inv s" and "r < 40" and "uip_sappdata s = 54" and "E OutOfBounds \<or> seg_safe s"
    and "E Hang \<or> opts_safe s"
  shows "res_ok E post (st_syn_sent app r s)"
proof -
  have parse: "res_ok E (\<lambda>s'. uip_inv inv s' \<and> uip_sappdata s' = 54 \<and> uip_appdata s' = uip_appdata s) (parse_mss r s)"
    using parse_mss_ok [of inv s r E] assms
    by (cases "parse_mss r s") (auto simp: opts_safe_def dest: parse_mss_frame)
  have app54: "E OutOfBounds \<or> uip_appdata s = 54"
    using assms by (auto simp: seg_safe_def)
  show ?thesis
  proof (cases "uip_flags s AND UIP_ACKDATA \<noteq> 0 \<and> buf8 s o_flags AND TCP_CTL = TCP_SYN OR TCP_ACK")
    case True
    have "st_syn_sent app r s = res_bind (parse_mss r s) (\<lambda>s.
        res_bind (app ((upd_conn r (\<lambda>c. c\<lparr>conn_len := 0\<rparr>) ((uip_add_rcv_nxt r 1 (upd_conn r
          (\<lambda>c. c\<lparr>tcpstateflags := UIP_ESTABLISHED, rcv_nxt := buf_quad s o_seqno\<rparr>) s))
          \<lparr>uip_flags := UIP_CONNECTED OR UIP_NEWDATA\<rparr>))\<lparr>uip_len := 0, uip_slen := 0\<rparr>)) (appsend r))"
      using True by (simp add: st_syn_sent_def Let_def)
    also have "res_ok E post \<dots>"
      using assms(2) app54
      by (intro res_ok_bind [OF parse] app_call appsend_ok) (auto simp: conn_update_inv data_ok_def)
    finally show ?thesis .
  next
    case False
    then have "st_syn_sent app r s = res_bind (app (s\<lparr>uip_flags := UIP_ABORT\<rparr>)) (\<lambda>s.
             tcp_reset (upd_conn r (\<lambda>c. c\<lparr>tcpstateflags := UIP_CLOSED\<rparr>) s))"
      by (auto simp: st_syn_sent_def)
    with assms show ?thesis
      by (auto intro!: app_call tcp_reset_ok data_ok_flags simp: conn_update_inv)
  qed
qed

lemma st_established_ok:
  assumes "uip_inv inv s" and "r < 40" and "uip_sappdata s = 54" and "E OutOfBounds \<or> seg_safe s"
  shows "res_ok E post (st_established app r s)"
proof (cases "buf8 s o_flags AND TCP_FIN \<noteq> 0 \<and> tcpstateflags (conn_at s r) AND UIP_STOPPED = 0")
  case True
  with assms show ?thesis
    by (auto simp: st_established_def Let_def conn_update_inv
        intro!: app_call drop_packet_post tcp_send_control_ok seg_safe_data_ok)
next
  case False
  define t where "t = window_mss r (if uip_len (urgent_skip s) > 0 \<and> tcpstateflags (conn_at s r) AND UIP_STOPPED = 0
     then uip_add_rcv_nxt r (uip_len (urgent_skip s)) ((urgent_skip s)\<lparr>uip_flags := uip_flags s OR UIP_NEWDATA\<rparr>)
     else urgent_skip s)"
  have "E OutOfBounds \<or> uip_appdata t + unat (uip_len t) \<le> 422"
    using assms(4) urgent_skip_bound [of s] by (auto simp: t_def)
  moreover have "uip_inv inv t" "uip_sappdata t = 54"
    using assms by (auto simp: t_def)
  ultimately have "res_ok E post (res_bind (app (t\<lparr>uip_slen := 0\<rparr>)) (appsend r))"
    using assms by (intro app_call appsend_ok) (auto simp: data_ok_def)
  moreover have "st_established app r s =
     (if uip_flags t AND (UIP_NEWDATA OR UIP_ACKDATA) \<noteq> 0
      then res_bind (app (t\<lparr>uip_slen := 0\<rparr>)) (appsend r) else Inr (drop_packet t))"
    using False by (auto simp: st_established_def t_def Let_def)
  ultimately show ?thesis
    using \<open>uip_inv inv t\<close> by (simp add: drop_packet_post)
qed

lemma st_closing_states_ok:
  assumes "uip_inv inv s" and "r < 40" and "uip_sappdata s = 54"
  shows "res_ok E post (st_last_ack app r s)" "res_ok E post (st_fin_wait_1 app r s)"
    "res_ok E post (st_fin_wait_2 app r s)" "res_ok E post (st_closing r s)"
  using assms
  by (auto simp: st_last_ack_def st_fin_wait_1_def st_fin_wait_2_def st_closing_def Let_def conn_update_inv
      intro!: app_call drop_packet_post tcp_send_control_ok data_ok_flags)

lemma tcp_state_input_ok:
  assumes "uip_inv inv s" and "r < 40" and "uip_sappdata s = 54" and "E OutOfBounds \<or> seg_safe s"
    and "E Hang \<or> opts_safe s"
  shows "res_ok E post (tcp_state_input app r s)"
  using assms
  by (simp add: tcp_state_input_def Let_def st_syn_rcvd_ok st_syn_sent_ok st_established_ok
      st_closing_states_ok tcp_send_control_ok drop_packet_post)

lemma found_ok:
  assumes "uip_inv inv s" and "r < 40" and "uip_sappdata s = 54" and "uip_appdata s = 54"
    and "uip_len s = ip_total_len s" and "E OutOfBounds \<or> segment_safe s" and "E Hang \<or> opts_safe s"
  shows "res_ok E post (found app r s)"
proof -
  let ?t = "s\<lparr>uip_conn := Some r, uip_flags := 0,
    uip_len := uip_len s - ucast (push_bit 2 (drop_bit 4 (buf8 s o_tcpoffset))) - UIP_IPH_LEN\<rparr>"
  have "E OutOfBounds \<or> seg_safe ?t"
    using assms segment_seg_safe [of s 0 "Some r"] by blast
  with assms have t: "res_ok E post (tcp_state_input app r (tcp_ack_input r ?t))"
    by (intro tcp_state_input_ok) auto
  show ?thesis
  proof (cases "buf8 s o_flags AND TCP_RST \<noteq> 0")
    case True
    with assms show ?thesis
      by (auto simp: found_def Let_def conn_update_inv intro!: app_call drop_packet_post data_ok_flags)
  next
    case False
    with assms t show ?thesis
      by (auto simp: found_def Let_def intro!: tcp_send_control_ok)
  qed
qed

lemma uip_tcpchksum_ok:
  assumes "uip_inv inv s" and "E OutOfBounds \<or> segment_safe s"
  shows "res_ok E (\<lambda>_. True) (uip_tcpchksum s)"
proof -
  have "segment_safe s \<Longrightarrow> 34 + unat (upper_layer_len s) \<le> 422"
  proof -
    assume a: "segment_safe s"
    have "20 \<le> be16 (uip_buf s ! 16) (uip_buf s ! 17)" 
      using a by (simp add: segment_safe_def word_le_nat_alt ip_total_len_be16)
    then show ?thesis
      using a by (simp add: upper_layer_len_be16 unat_sub segment_safe_def ip_total_len_be16)
  qed
  then show ?thesis
    using assms uip_wf_lengths [OF uip_inv_wf [OF assms(1)]]
    by (auto simp: uip_tcpchksum_def upper_layer_chksum_def Let_def mem_read_def)
qed

lemma tcp_input_ok:
  assumes "uip_inv inv s" and "uip_sappdata s = 54" and "uip_appdata s = 54"
    and "uip_len s = ip_total_len s" and "E OutOfBounds \<or> segment_safe s" and "E Hang \<or> opts_safe s"
  shows "res_ok E post (tcp_input app s)"
proof -
  define t where "t = count_stat (\<lambda>t. t\<lparr>tcp_recv := tcp_recv t + 1\<rparr>) s"
  have t: "uip_inv inv t" "uip_sappdata t = 54" "uip_appdata t = 54" "uip_len t = ip_total_len t"
    "E OutOfBounds \<or> segment_safe t" "E Hang \<or> opts_safe t"
    using assms by (simp_all add: t_def)
  have "r < 40" if "first_index (conn_matches t) (uip_conns t) = Some r" for r
    using first_index_Some [OF that] uip_wf_lengths [OF uip_inv_wf [OF t(1)]] by simp
  then show ?thesis
    unfolding tcp_input_def Let_def t_def [symmetric]
    using t
    by (auto intro!: res_ok_bind [OF uip_tcpchksum_ok] drop_packet_post found_ok found_listen_ok tcp_reset_ok
        split: option.split)
qed

lemma ip_input_ok:
  assumes "uip_inv inv s" and "uip_sappdata s = 54" and "uip_appdata s = 54"
    and "buf8 s o_proto = UIP_PROTO_TCP \<Longrightarrow> E OutOfBounds \<or> segment_safe s"
    and "buf8 s o_proto = UIP_PROTO_TCP \<Longrightarrow> E Hang \<or> opts_safe s"
  shows "res_ok E post (ip_input app s)"
proof -
  define t where "t = (count_stat (\<lambda>t. t\<lparr>ip_recv := ip_recv t + 1\<rparr>) s)\<lparr>uip_len := ip_total_len s\<rparr>"
  have t: "uip_inv inv t" "uip_sappdata t = 54" "uip_appdata t = 54" "uip_len t = ip_total_len t"
    "buf8 t o_proto = UIP_PROTO_TCP \<Longrightarrow> E OutOfBounds \<or> segment_safe t"
    "buf8 t o_proto = UIP_PROTO_TCP \<Longrightarrow> E Hang \<or> opts_safe t"
    using assms by (simp_all add: t_def)
  have cmp: "uip_ipaddr_cmp a b \<longleftrightarrow> a = b" for a b
    by (simp add: uip_ipaddr_cmp_def prod_eq_iff)
  show ?thesis
    unfolding ip_input_def Let_def ip_total_len_frame t_def [symmetric] cmp
    using assms(1) tcp_input_ok [OF t(1-4)] t(5,6) icmp_input_post [OF t(1) t(4)]
    by (simp add: t(1))
qed

lemma uip_process_ok:
  assumes "uip_inv inv s"
    and "flag = UIP_TIMER \<or> flag = UIP_POLL_REQUEST \<longrightarrow> uip_conn s \<noteq> None"
    and "flag \<noteq> UIP_TIMER \<Longrightarrow> flag \<noteq> UIP_POLL_REQUEST \<Longrightarrow> buf8 s o_proto = UIP_PROTO_TCP \<Longrightarrow>
      E OutOfBounds \<or> segment_safe s"
    and "flag \<noteq> UIP_TIMER \<Longrightarrow> flag \<noteq> UIP_POLL_REQUEST \<Longrightarrow> buf8 s o_proto = UIP_PROTO_TCP \<Longrightarrow>
      E Hang \<or> opts_safe s"
  shows "res_ok E post (uip_process app flag s)"
proof -
  have "r < 40" if "uip_conn s = Some r" for r
    using assms(1) that by (simp add: uip_inv_def uip_wf_def)
  with assms show ?thesis
    by (auto simp: uip_process_def Let_def intro!: poll_request_ok timer_tick_ok ip_input_ok split: option.split)
qed

end

end
