(* ===== verification/Uip_Conn.thy ===== *)
theory Uip_Conn
  imports Uip_Inv
begin

text \<open>
  Connection management of \<^verbatim>\<open>uip.c\<close>: \<^verbatim>\<open>uip_init()\<close>, \<^verbatim>\<open>uip_setipid()\<close>, active open by
  \<^verbatim>\<open>uip_connect()\<close>, and the table of listening ports.
\<close>

section \<open>Operations\<close>

definition uip_setipid :: "u16 \<Rightarrow> 'a uip_scheme \<Rightarrow> 'a uip_scheme" where
  "uip_setipid ident s = s\<lparr>ipid := ident\<rparr>"

definition uip_init :: "'a uip_scheme \<Rightarrow> 'a uip_scheme" where
  "uip_init s =
     s\<lparr>uip_listenports := map (\<lambda>_. 0) (uip_listenports s),
       uip_conns := map (\<lambda>c. c\<lparr>tcpstateflags := UIP_CLOSED\<rparr>) (uip_conns s),
       lastport := 1024\<rparr>"

definition next_port :: "u16 \<Rightarrow> u16" where
  "next_port lp = (let lp = lp + 1 in if lp \<ge> 32000 then 4096 else lp)"

definition port_used :: "uip_conn_t list \<Rightarrow> u16 \<Rightarrow> bool" where
  "port_used conns lp \<longleftrightarrow> list_ex (\<lambda>c. tcpstateflags c \<noteq> UIP_CLOSED \<and> lport c = htons lp) conns"

text \<open>The loop at \<^verbatim>\<open>again\<close>: \<open>None\<close> would be a search that never ends.\<close>

partial_function (option) search_port :: "uip_conn_t list \<Rightarrow> u16 \<Rightarrow> u16 option" where
  "search_port conns lp =
     (if port_used conns (next_port lp) then search_port conns (next_port lp) else Some (next_port lp))"

declare search_port.simps [code]

text \<open>The result is the slot of the new connection, or \<open>None\<close> for the null pointer.\<close>

definition uip_connect :: "ip4addr \<Rightarrow> u16 \<Rightarrow> 'a uip_scheme \<Rightarrow> ('a uip_scheme \<times> nat option) res" where
  "uip_connect raddr rp s =
     (case search_port (uip_conns s) (lastport s) of
        None \<Rightarrow> Inl Hang
      | Some lp \<Rightarrow>
          let s = s\<lparr>lastport := lp\<rparr> in
          case find_unused (uip_conns s) 0 None of
            None \<Rightarrow> Inr (s, None)
          | Some r \<Rightarrow>
              Inr (upd_conn r (\<lambda>c. c\<lparr>tcpstateflags := UIP_SYN_SENT, snd_nxt := iss s,
                     mss := UIP_TCP_MSS, initialmss := UIP_TCP_MSS, conn_len := 1, nrtx := 0,
                     timer := 1, rto := UIP_RTO, sa := 0, sv := 16, lport := htons lp,
                     rport := rp, ripaddr := raddr\<rparr>) s, Some r))"

fun replace_first :: "'b \<Rightarrow> 'b \<Rightarrow> 'b list \<Rightarrow> 'b list" where
  "replace_first x y [] = []"
| "replace_first x y (z # zs) = (if z = x then y # zs else z # replace_first x y zs)"

definition uip_unlisten :: "u16 \<Rightarrow> 'a uip_scheme \<Rightarrow> 'a uip_scheme" where
  "uip_unlisten port s = s\<lparr>uip_listenports := replace_first port 0 (uip_listenports s)\<rparr>"

definition uip_listen :: "u16 \<Rightarrow> 'a uip_scheme \<Rightarrow> 'a uip_scheme" where
  "uip_listen port s = s\<lparr>uip_listenports := replace_first 0 port (uip_listenports s)\<rparr>"

section \<open>Static storage\<close>

text \<open>
  The variables before \<^verbatim>\<open>uip_init()\<close>: C clears static storage. The extension \<open>m\<close> holds the variables
  the application adds.
\<close>

definition zero_conn :: uip_conn_t where
  "zero_conn = \<lparr>ripaddr = (0, 0), lport = 0, rport = 0, rcv_nxt = (0, 0, 0, 0), snd_nxt = (0, 0, 0, 0),
     conn_len = 0, mss = 0, initialmss = 0, sa = 0, sv = 0, rto = 0, tcpstateflags = 0, timer = 0, nrtx = 0\<rparr>"

definition zero_stats :: uip_stats where
  "zero_stats = uip_stats.make 0 0 0 0 0 0 0 0 0 0 0 0 0 0 0 0 0 0 0 0 0 0"

definition uip_bss :: "'a \<Rightarrow> 'a uip_scheme" where
  "uip_bss m = \<lparr>uip_buf = replicate (UIP_BUFSIZE + 2) 0, uip_appdata = 0, uip_sappdata = 0, uip_len = 0,
     uip_slen = 0, uip_flags = 0, uip_conn = None, uip_conns = replicate UIP_CONNS zero_conn,
     uip_listenports = replicate UIP_LISTENPORTS 0, ipid = 0, iss = (0, 0, 0, 0), lastport = 0,
     uip_acc32 = (0, 0, 0, 0), uip_hostaddr = (0, 0), uip_draddr = (0, 0), uip_netmask = (0, 0),
     uip_ethaddr = replicate 6 0, uip_stat = zero_stats, \<dots> = m\<rparr>"

section \<open>The search for a local port returns\<close>

lemma unat_next_port:
  "unat (next_port lp) = (if unat lp = 65535 then 0 else if unat lp + 1 \<ge> 32000 then 4096 else unat lp + 1)"
  using unat_u16_less [of lp] by (auto simp: next_port_def Let_def word_le_nat_alt unat_add_wrap)

lemma next_port_less: "unat (next_port lp) < 32000"
  using unat_u16_less [of lp] by (auto simp: unat_next_port)

lemma next_port_iterate:
  assumes "unat v < 32000" and "i < 27904"
  shows "unat ((next_port ^^ i) v) = (if unat v + i < 32000 then unat v + i else unat v + i - 27904)"
  using assms(2)
proof (induction i)
  case (Suc i)
  then show ?case using assms(1) by (auto simp: unat_next_port)
qed (use assms in simp)

lemma next_port_inj:
  assumes "unat v < 32000"
  shows "inj_on (\<lambda>i. (next_port ^^ i) v) {..40}"
proof (rule inj_onI)
  fix i j :: nat
  assume "i \<in> {..40}" "j \<in> {..40}" and eq: "(next_port ^^ i) v = (next_port ^^ j) v"
  then have "i \<le> 40" "j \<le> 40" by simp_all
  then have "(if unat v + i < 32000 then unat v + i else unat v + i - 27904) =
      (if unat v + j < 32000 then unat v + j else unat v + j - 27904)"
    using arg_cong [OF eq, of unat] assms by (simp only: next_port_iterate)
  then show "i = j"
    using \<open>i \<le> 40\<close> \<open>j \<le> 40\<close> by (simp split: if_splits)
qed

lemma used_ports_bound:
  "card {p. port_used conns p} \<le> length conns"
proof -
  have "{p. port_used conns p} \<subseteq> (\<lambda>c. HTONS (lport c)) ` set conns"
    by (auto simp: port_used_def list_ex_iff htons_def intro!: image_eqI)
  then have "card {p. port_used conns p} \<le> card ((\<lambda>c. HTONS (lport c)) ` set conns)"
    by (intro card_mono) auto
  also have "\<dots> \<le> length conns"
    using card_image_le [of "set conns" "\<lambda>c. HTONS (lport c)"] card_length [of conns] by simp
  finally show ?thesis .
qed

lemma some_port_free:
  assumes "length conns \<le> 40" and "unat v < 32000"
  shows "\<exists>i\<le>40. \<not> port_used conns ((next_port ^^ i) v)"
proof (rule ccontr)
  assume "\<not> ?thesis"
  then have "(\<lambda>i. (next_port ^^ i) v) ` {..40} \<subseteq> {p. port_used conns p}" by auto
  then have "card ((\<lambda>i. (next_port ^^ i) v) ` {..40}) \<le> card {p. port_used conns p}"
    by (intro card_mono) simp_all
  also have "\<dots> \<le> 40"
    using used_ports_bound [of conns] assms(1) by linarith
  finally show False
    unfolding card_image [OF next_port_inj [OF assms(2)]] card_atMost by simp
qed

lemma search_port_at:
  "\<not> port_used conns ((next_port ^^ i) (next_port lp)) \<Longrightarrow>
   \<exists>p. search_port conns lp = Some p \<and> \<not> port_used conns p \<and> unat p < 32000"
proof (induction i arbitrary: lp)
  case (Suc i)
  then have "\<not> port_used conns ((next_port ^^ i) (next_port (next_port lp)))"
    by (simp add: funpow_swap1)
  then show ?case
    using Suc.IH [of "next_port lp"]
    by (cases "port_used conns (next_port lp)")
      (simp_all add: search_port.simps [of conns lp] next_port_less)
qed (subst search_port.simps, simp add: next_port_less)

lemma search_port_returns:
  assumes "length conns \<le> 40"
  shows "\<exists>p. search_port conns lp = Some p \<and> \<not> port_used conns p \<and> unat p < 32000"
  using some_port_free [OF assms next_port_less] search_port_at by blast

section \<open>Slots\<close>

lemma find_unused_free:
  assumes "find_unused xs c best = Some r" and "best = None \<or> (\<exists>b t. best = Some (b, t) \<and> b < c)"
  shows "(best \<noteq> None \<and> r = fst (the best)) \<or>
    (c \<le> r \<and> r < c + length xs \<and>
     (tcpstateflags (xs ! (r - c)) = UIP_CLOSED \<or> tcpstateflags (xs ! (r - c)) = UIP_TIME_WAIT))"
  using assms
proof (induction xs c best rule: find_unused.induct)
  case (2 x xs c best)
  show ?case
  proof (cases "tcpstateflags x = UIP_CLOSED")
    case False
    let ?b = "if tcpstateflags x = UIP_TIME_WAIT \<and> (case best of None \<Rightarrow> True | Some (_, t) \<Rightarrow> timer x > t)
       then Some (c, timer x) else best"
    have f: "find_unused xs (c + 1) ?b = Some r" 
      using 2(3) False
      by (cases "tcpstateflags x = UIP_TIME_WAIT \<and> (case best of None \<Rightarrow> True | Some (_, t) \<Rightarrow> timer x > t)") auto
    have "(?b \<noteq> None \<and> r = fst (the ?b)) \<or> (c + 1 \<le> r \<and> r < c + 1 + length xs \<and>
     (tcpstateflags (xs ! (r - (c + 1))) = UIP_CLOSED \<or> tcpstateflags (xs ! (r - (c + 1))) = UIP_TIME_WAIT))"
    proof (cases "tcpstateflags x = UIP_TIME_WAIT \<and> (case best of None \<Rightarrow> True | Some (_, t) \<Rightarrow> timer x > t)")
      case True then show ?thesis using 2(1) [OF False True] f by auto
    next
      case F: False then show ?thesis using 2(2) [OF False F] f 2(4) by (auto simp: less_Suc_eq)
    qed
    then show ?thesis
      by (auto split: if_splits simp: nth_Cons' Suc_le_eq)
  qed (use 2 in auto)
qed auto

lemma find_unused_None:
  "find_unused xs c None = None \<longleftrightarrow>
     (\<forall>x \<in> set xs. tcpstateflags x \<noteq> UIP_CLOSED \<and> tcpstateflags x \<noteq> UIP_TIME_WAIT)"
proof -
  have "find_unused xs c (Some b) \<noteq> None" for xs c b
    by (induction xs c "Some b" arbitrary: b rule: find_unused.induct) (auto split: if_splits)
  then show ?thesis
    by (induction xs arbitrary: c) auto
qed

section \<open>Listening ports\<close>

lemma replace_first_id: "x \<notin> set xs \<Longrightarrow> replace_first x y xs = xs"
  by (induction xs) auto

lemma replace_first_back: "y \<notin> set xs \<Longrightarrow> replace_first y x (replace_first x y xs) = xs"
  by (induction xs) auto

lemma set_replace_first: "x \<in> set xs \<Longrightarrow> y \<in> set (replace_first x y xs)"
  by (induction xs) auto

lemma length_replace_first [simp]: "length (replace_first x y xs) = length xs"
  by (induction xs) auto

lemma set_replace_first_other: "p \<noteq> x \<Longrightarrow> p \<noteq> y \<Longrightarrow> p \<in> set (replace_first x y xs) \<longleftrightarrow> p \<in> set xs"
  by (induction xs) auto

section \<open>Properties\<close>

lemma uip_bss_wf: "uip_wf (uip_bss m)"
  by (simp add: uip_wf_def uip_bss_def zero_conn_def conn_wf_def list_all_length)

lemma uip_init_wf: "uip_wf s \<Longrightarrow> uip_wf (uip_init s)"
  by (simp add: uip_wf_def uip_init_def conn_wf_def list_all_length)

text \<open>
  C26: \<^verbatim>\<open>uip_connect()\<close> always returns. The local port it chooses is used by no open connection;
  it takes a slot that was closed or in \<^verbatim>\<open>TIME_WAIT\<close> and fills it in for a SYN to be sent to the given
  address and port, leaving the other slots alone; it returns null only if no such slot exists, and then
  changes no connection. The invariant is kept.
\<close>

theorem uip_connect_correct:
  assumes "uip_wf s"
  shows "\<exists>s' res. uip_connect raddr rp s = Inr (s', res) \<and> uip_wf s' \<and>
    \<not> port_used (uip_conns s) (lastport s') \<and> unat (lastport s') < 32000 \<and>
    (case res of
       None \<Rightarrow> uip_conns s' = uip_conns s \<and>
         (\<forall>c \<in> set (uip_conns s). tcpstateflags c \<noteq> UIP_CLOSED \<and> tcpstateflags c \<noteq> UIP_TIME_WAIT)
     | Some r \<Rightarrow> r < UIP_CONNS \<and>
         (tcpstateflags (conn_at s r) = UIP_CLOSED \<or> tcpstateflags (conn_at s r) = UIP_TIME_WAIT) \<and>
         tcpstateflags (conn_at s' r) = UIP_SYN_SENT \<and> conn_len (conn_at s' r) = 1 \<and>
         ripaddr (conn_at s' r) = raddr \<and> rport (conn_at s' r) = rp \<and>
         lport (conn_at s' r) = htons (lastport s') \<and> snd_nxt (conn_at s' r) = iss s \<and>
         (\<forall>j. j \<noteq> r \<longrightarrow> conn_at s' j = conn_at s j))"
proof -
  note L = uip_wf_lengths [OF assms]
  obtain p where p: "search_port (uip_conns s) (lastport s) = Some p" "\<not> port_used (uip_conns s) p" "unat p < 32000"
    using search_port_returns [of "uip_conns s" "lastport s"] L by auto
  have wf: "uip_wf (s\<lparr>lastport := p\<rparr>)"
    using assms by (simp add: uip_wf_def)
  show ?thesis
  proof (cases "find_unused (uip_conns s) 0 None")
    case None
    with p wf find_unused_None [of "uip_conns s" 0] show ?thesis
      by (auto simp: uip_connect_def Let_def)
  next
    case (Some r)
    have r: "r < 40" "tcpstateflags (conn_at s r) = UIP_CLOSED \<or> tcpstateflags (conn_at s r) = UIP_TIME_WAIT"
      using find_unused_free [OF Some] L by (auto simp: conn_at_def)
    have other: "conn_at (upd_conn r f u) j = conn_at u j" if "j \<noteq> r" for f j and u :: "'a uip_scheme"
      using that by (simp add: conn_at_def upd_conn_def)
    have at: "conn_at (s\<lparr>lastport := p\<rparr>) j = conn_at s j" for j
      by (simp add: conn_at_def)
    have frame: "lastport (upd_conn r f u) = lastport u" for f and u :: "'a uip_scheme"
      by (simp add: upd_conn_def)
    show ?thesis
      using p wf r
      by (auto simp: uip_connect_def Some Let_def other at frame conn_wf_def intro!: uip_wf_upd_conn)
  qed
qed

theorem uip_connect_correct_witness:
  "uip_wf (uip_init (uip_bss ())) \<and>
   (\<exists>s' res. uip_connect (0x20a, 0x202) 80 (uip_init (uip_bss ())) = Inr (s', res) \<and> uip_wf s')"
  using uip_connect_correct [OF uip_init_wf [OF uip_bss_wf [of "()"]], of "(0x20a, 0x202)" 80] uip_init_wf [OF uip_bss_wf [of "()"]]
  by blast

text \<open>
  \<^verbatim>\<open>uip_unlisten()\<close> undoes \<^verbatim>\<open>uip_listen()\<close> of a port that was not listening, also when the table
  was full; and after \<^verbatim>\<open>uip_listen()\<close> the port is listening if the table had room, while the state of every
  other port is unchanged.
\<close>

lemma uip_listen_unlisten:
  "(port \<notin> set (uip_listenports s) \<longrightarrow> uip_unlisten port (uip_listen port s) = s) \<and>
   (0 \<in> set (uip_listenports s) \<longrightarrow> port \<in> set (uip_listenports (uip_listen port s))) \<and>
   (\<forall>p. p \<noteq> port \<and> p \<noteq> 0 \<longrightarrow>
     (p \<in> set (uip_listenports (uip_listen port s)) \<longleftrightarrow> p \<in> set (uip_listenports s)))"
  by (simp add: uip_listen_def uip_unlisten_def replace_first_back set_replace_first set_replace_first_other)

end
