(* ===== verification/Httpd.thy ===== *)
theory Httpd
  imports Uip_Conn
begin

text \<open>
  \<^verbatim>\<open>library/uip/httpd.c\<close>: the application callback \<^verbatim>\<open>httpd_appcall()\<close>, which bridges uIP events to the
  variables the network service polls, and \<^verbatim>\<open>uip_send()\<close> of \<^verbatim>\<open>uip.c\<close>, through which it hands data to
  the stack. The bridge's variables extend the record of the stack's variables.
\<close>

record httpd_uip = uip +
  httpd_socket_conn_open :: int
  httpd_socket_conn_pending :: int
  httpd_socket_conn_closed :: int
  httpd_socket_rx_len :: int
  httpd_socket_rx_buf :: bytes
  httpd_socket_tx_len :: int
  httpd_socket_tx_pending :: int
  httpd_socket_tx_buf :: bytes
  httpd_socket_close_pending :: int

text \<open>The macros of \<^verbatim>\<open>uip.h\<close> with which an application asks for the event and the length of the data, and closes.\<close>

abbreviation (input) uip_newdata :: "'a uip_scheme \<Rightarrow> bool" where "uip_newdata s \<equiv> uip_flags s AND UIP_NEWDATA \<noteq> 0"
abbreviation (input) uip_acked :: "'a uip_scheme \<Rightarrow> bool" where "uip_acked s \<equiv> uip_flags s AND UIP_ACKDATA \<noteq> 0"
abbreviation (input) uip_connected :: "'a uip_scheme \<Rightarrow> bool" where "uip_connected s \<equiv> uip_flags s AND UIP_CONNECTED \<noteq> 0"
abbreviation (input) uip_closed :: "'a uip_scheme \<Rightarrow> bool" where "uip_closed s \<equiv> uip_flags s AND UIP_CLOSE \<noteq> 0"
abbreviation (input) uip_aborted :: "'a uip_scheme \<Rightarrow> bool" where "uip_aborted s \<equiv> uip_flags s AND UIP_ABORT \<noteq> 0"
abbreviation (input) uip_timedout :: "'a uip_scheme \<Rightarrow> bool" where "uip_timedout s \<equiv> uip_flags s AND UIP_TIMEDOUT \<noteq> 0"
abbreviation (input) uip_rexmit :: "'a uip_scheme \<Rightarrow> bool" where "uip_rexmit s \<equiv> uip_flags s AND UIP_REXMIT \<noteq> 0"
abbreviation (input) uip_poll :: "'a uip_scheme \<Rightarrow> bool" where "uip_poll s \<equiv> uip_flags s AND UIP_POLL \<noteq> 0"
abbreviation (input) uip_datalen :: "'a uip_scheme \<Rightarrow> u16" where "uip_datalen s \<equiv> uip_len s"
abbreviation (input) uip_close :: "'a uip_scheme \<Rightarrow> 'a uip_scheme" where "uip_close s \<equiv> s\<lparr>uip_flags := UIP_CLOSE\<rparr>"

text \<open>
  \<^verbatim>\<open>uip_send(data, len)\<close> for \<^verbatim>\<open>data\<close> an array apart from \<^verbatim>\<open>uip_buf\<close>: \<^verbatim>\<open>uip_slen\<close> keeps 16 bits of the
  length, and that many bytes are copied to \<^verbatim>\<open>uip_sappdata\<close>.
\<close>

definition uip_send :: "bytes \<Rightarrow> int \<Rightarrow> 'a uip_scheme \<Rightarrow> 'a uip_scheme res" where
  "uip_send data len s =
     (if len > 0
      then let s = s\<lparr>uip_slen := word_of_int len\<rparr> in
           res_bind (mem_read data 0 (unat (uip_slen s))) (\<lambda>d.
           res_bind (mem_write (uip_buf s) (uip_sappdata s) d) (\<lambda>b.
             Inr (s\<lparr>uip_buf := b\<rparr>)))
      else Inr s)"

definition uip_closed_event :: "u8 \<Rightarrow> bool" where
  "uip_closed_event f \<longleftrightarrow>
     f AND UIP_CLOSE \<noteq> 0 \<or> f AND UIP_ABORT \<noteq> 0 \<or> f AND UIP_TIMEDOUT \<noteq> 0"

definition httpd_conn_events :: "httpd_uip \<Rightarrow> httpd_uip" where
  "httpd_conn_events s =
     (let s = (if uip_connected s
               then s\<lparr>httpd_socket_conn_open := 1, httpd_socket_conn_pending := 1,
                      httpd_socket_conn_closed := 0\<rparr>
               else s)
      in if uip_closed_event (uip_flags s)
         then s\<lparr>httpd_socket_conn_open := 0, httpd_socket_conn_pending := 0,
                httpd_socket_conn_closed := 1\<rparr>
         else s)"

definition httpd_newdata :: "httpd_uip \<Rightarrow> httpd_uip res" where
  "httpd_newdata s =
     (if uip_newdata s
      then let rx_len = int (unat (uip_datalen s));
               rx_len = (if rx_len > int UIP_BUFSIZE then int UIP_BUFSIZE else rx_len)
           in res_bind (mem_read (uip_buf s) (uip_appdata s) (nat rx_len)) (\<lambda>d.
              res_bind (mem_write (httpd_socket_rx_buf s) 0 d) (\<lambda>b.
                Inr (s\<lparr>httpd_socket_rx_buf := b, httpd_socket_rx_len := rx_len\<rparr>)))
      else Inr s)"

definition httpd_tx :: "httpd_uip \<Rightarrow> httpd_uip res" where
  "httpd_tx s =
     (let s = (if uip_acked s
               then s\<lparr>httpd_socket_tx_pending := 0, httpd_socket_tx_len := 0\<rparr> else s);
          s = (if httpd_socket_close_pending s \<noteq> 0
               then (uip_close s)\<lparr>httpd_socket_close_pending := 0\<rparr> else s)
      in if httpd_socket_tx_pending s \<noteq> 0 \<and>
            (uip_poll s \<or> uip_acked s \<or> uip_rexmit s \<or> uip_newdata s)
         then uip_send (httpd_socket_tx_buf s) (httpd_socket_tx_len s) s
         else Inr s)"

definition httpd_appcall :: "httpd_uip \<Rightarrow> httpd_uip res" where
  "httpd_appcall s = res_bind (httpd_newdata (httpd_conn_events s)) httpd_tx"

section \<open>The bridge as an application of the stack\<close>

text \<open>
  The bridge's buffers have their declared size and hold at most that much. What keeps the callback inside
  its arrays is, beyond that, that no more is queued for sending than fits the packet buffer behind the headers.
\<close>

definition bridge_wf :: "httpd_uip \<Rightarrow> bool" where
  "bridge_wf s \<longleftrightarrow>
     length (httpd_socket_rx_buf s) = UIP_BUFSIZE \<and> length (httpd_socket_tx_buf s) = UIP_BUFSIZE \<and>
     0 \<le> httpd_socket_rx_len s \<and> httpd_socket_rx_len s \<le> int UIP_BUFSIZE"

definition bridge_ok :: "httpd_uip \<Rightarrow> bool" where
  "bridge_ok s \<longleftrightarrow> bridge_wf s \<and> httpd_socket_tx_len s \<le> 368"

text \<open>The same as properties of the variables the bridge adds to the stack's.\<close>

definition on_more :: "(httpd_uip \<Rightarrow> bool) \<Rightarrow> unit httpd_uip_ext \<Rightarrow> bool" where
  "on_more P m \<longleftrightarrow> P (uip_bss m)"

lemma bss_more_fields:
  "httpd_socket_rx_buf (uip_bss (uip.more s)) = httpd_socket_rx_buf s"
  "httpd_socket_tx_buf (uip_bss (uip.more s)) = httpd_socket_tx_buf s"
  "httpd_socket_rx_len (uip_bss (uip.more s)) = httpd_socket_rx_len s"
  "httpd_socket_tx_len (uip_bss (uip.more s)) = httpd_socket_tx_len s"
  "httpd_socket_tx_pending (uip_bss (uip.more s)) = httpd_socket_tx_pending s"
  "httpd_socket_close_pending (uip_bss (uip.more s)) = httpd_socket_close_pending s"
proof -
  let ?t = "uip_bss (uip.more s)"
  have eq: "?t = s\<lparr>uip_buf := uip_buf ?t, uip_appdata := uip_appdata ?t, uip_sappdata := uip_sappdata ?t,
    uip_len := uip_len ?t, uip_slen := uip_slen ?t, uip_flags := uip_flags ?t, uip_conn := uip_conn ?t,
    uip_conns := uip_conns ?t, uip_listenports := uip_listenports ?t, ipid := ipid ?t, iss := iss ?t,
    lastport := lastport ?t, uip_acc32 := uip_acc32 ?t, uip_hostaddr := uip_hostaddr ?t,
    uip_draddr := uip_draddr ?t, uip_netmask := uip_netmask ?t, uip_ethaddr := uip_ethaddr ?t,
    uip_stat := uip_stat ?t\<rparr>"
    by (rule uip.equality) (simp_all add: uip_bss_def)
  show "httpd_socket_rx_buf ?t = httpd_socket_rx_buf s" "httpd_socket_tx_buf ?t = httpd_socket_tx_buf s"
    "httpd_socket_rx_len ?t = httpd_socket_rx_len s" "httpd_socket_tx_len ?t = httpd_socket_tx_len s"
    "httpd_socket_tx_pending ?t = httpd_socket_tx_pending s" "httpd_socket_close_pending ?t = httpd_socket_close_pending s"
    by (subst eq, simp)+
qed

lemma on_more_bridge [simp]:
  "on_more bridge_wf (uip.more s) = bridge_wf s"
  "on_more bridge_ok (uip.more s) = bridge_ok s"
  by (simp_all add: on_more_def bridge_wf_def bridge_ok_def bss_more_fields)

lemma bridge_more:
  "uip.more s = uip.more t \<Longrightarrow> bridge_wf s = bridge_wf t"
  "uip.more s = uip.more t \<Longrightarrow> bridge_ok s = bridge_ok t"
  by (metis on_more_bridge)+

lemma httpd_conn_events_frame:
  "app_frame s (httpd_conn_events s) \<and> uip_buf (httpd_conn_events s) = uip_buf s \<and>
   uip_flags (httpd_conn_events s) = uip_flags s \<and> uip_len (httpd_conn_events s) = uip_len s \<and>
   uip_appdata (httpd_conn_events s) = uip_appdata s \<and> uip_sappdata (httpd_conn_events s) = uip_sappdata s \<and>
   bridge_wf (httpd_conn_events s) = bridge_wf s \<and> bridge_ok (httpd_conn_events s) = bridge_ok s"
  by (simp add: httpd_conn_events_def Let_def app_frame_def bridge_ok_def bridge_wf_def)

lemma app_frame_trans: "app_frame s t \<Longrightarrow> app_frame t u \<Longrightarrow> app_frame s u"
  by (simp add: app_frame_def)

lemma httpd_rx_len: "nat (if int n > int UIP_BUFSIZE then int UIP_BUFSIZE else int n) = min n UIP_BUFSIZE"
  by auto

lemma httpd_newdata_ok:
  assumes "length (uip_buf s) = 422" and "E OutOfBounds \<or> data_ok s \<and> bridge_ok s"
  shows "res_ok E (\<lambda>s'. app_frame s s' \<and> uip_sappdata s' = uip_sappdata s \<and> uip_flags s' = uip_flags s \<and>
    (bridge_wf s \<longrightarrow> bridge_wf s') \<and> (bridge_ok s \<longrightarrow> bridge_ok s')) (httpd_newdata s)"
  unfolding httpd_newdata_def Let_def httpd_rx_len
  using assms
  by (auto simp: mem_read_def mem_write_def app_frame_def data_ok_def bridge_ok_def bridge_wf_def)

lemma uip_send_ok:
  assumes "length (uip_buf s) = 422" and "uip_sappdata s = 54"
    and "E OutOfBounds \<or> len \<le> 368 \<and> 368 \<le> length data"
  shows "res_ok E (\<lambda>s'. app_frame s s' \<and> uip.more s' = uip.more s) (uip_send data len s)"
proof -
  have "unat (word_of_int len :: u16) \<le> 368" if "0 < len" "len \<le> 368"
    using that by (simp add: unat_eq_nat_uint uint_word_of_int)
  with assms show ?thesis
    by (auto simp: uip_send_def Let_def mem_read_def mem_write_def app_frame_def)
qed

lemma httpd_tx_ok:
  assumes "length (uip_buf s) = 422" and "uip_sappdata s = 54" and "E OutOfBounds \<or> bridge_ok s"
  shows "res_ok E (\<lambda>s'. app_frame s s' \<and> (bridge_wf s \<longrightarrow> bridge_wf s') \<and> (bridge_ok s \<longrightarrow> bridge_ok s')) (httpd_tx s)"
proof -
  define u where "u = (if uip_flags s AND UIP_ACKDATA \<noteq> 0
               then s\<lparr>httpd_socket_tx_pending := 0, httpd_socket_tx_len := 0\<rparr> else s)"
  define t where "t = (if httpd_socket_close_pending u \<noteq> 0
               then u\<lparr>uip_flags := UIP_CLOSE, httpd_socket_close_pending := 0\<rparr> else u)"
  have t: "app_frame s t" "uip_buf t = uip_buf s" "uip_sappdata t = uip_sappdata s" "bridge_ok s \<longrightarrow> bridge_ok t"
    "bridge_wf s \<longrightarrow> bridge_wf t"
    by (simp_all add: t_def u_def app_frame_def bridge_ok_def bridge_wf_def)
  have "res_ok E (\<lambda>s'. app_frame t s' \<and> uip.more s' = uip.more t)
    (uip_send (httpd_socket_tx_buf t) (httpd_socket_tx_len t) t)"
    using assms t by (intro uip_send_ok) (auto simp: bridge_ok_def bridge_wf_def)
  then have "res_ok E (\<lambda>s'. app_frame s s' \<and> (bridge_wf s \<longrightarrow> bridge_wf s') \<and> (bridge_ok s \<longrightarrow> bridge_ok s'))
    (uip_send (httpd_socket_tx_buf t) (httpd_socket_tx_len t) t)"
    by (rule res_ok_mono) (use t in \<open>auto intro: app_frame_trans dest: bridge_more\<close>)
  then show ?thesis
    unfolding httpd_tx_def u_def [symmetric] Let_def t_def [symmetric]
    using t by simp
qed

lemma httpd_appcall_ok:
  assumes "uip_wf s" and "uip_sappdata s = 54" and "E OutOfBounds \<or> data_ok s \<and> bridge_ok s"
  shows "res_ok E (\<lambda>s'. app_frame s s' \<and> (bridge_wf s \<longrightarrow> bridge_wf s') \<and> (bridge_ok s \<longrightarrow> bridge_ok s')) (httpd_appcall s)"
proof -
  let ?t = "httpd_conn_events s"
  note ev = httpd_conn_events_frame [of s]
  show ?thesis unfolding httpd_appcall_def
  proof (rule res_ok_bind [OF httpd_newdata_ok])
    show "length (uip_buf ?t) = 422" "E OutOfBounds \<or> data_ok ?t \<and> bridge_ok ?t"
      using assms ev by (auto simp: uip_wf_def data_ok_def)
  next
    fix u assume u: "app_frame ?t u \<and> uip_sappdata u = uip_sappdata ?t \<and> uip_flags u = uip_flags ?t \<and>
      (bridge_wf ?t \<longrightarrow> bridge_wf u) \<and> (bridge_ok ?t \<longrightarrow> bridge_ok u)"
    have "length (uip_buf u) = 422"
      using u ev assms by (simp add: app_frame_def uip_wf_def)
    then have "res_ok E (\<lambda>s'. app_frame u s' \<and> (bridge_wf u \<longrightarrow> bridge_wf s') \<and> (bridge_ok u \<longrightarrow> bridge_ok s')) (httpd_tx u)"
      using u ev assms by (intro httpd_tx_ok) auto
    then show "res_ok E (\<lambda>s'. app_frame s s' \<and> (bridge_wf s \<longrightarrow> bridge_wf s') \<and> (bridge_ok s \<longrightarrow> bridge_ok s')) (httpd_tx u)"
      by (rule res_ok_mono) (use u ev in \<open>auto intro: app_frame_trans\<close>)
  qed
qed

text \<open>
  The callback satisfies the contract twice: with any fault tolerated it keeps its buffers well formed, and
  with the stronger invariant it commits no fault.
\<close>

interpretation bridge: uip_app httpd_appcall "\<lambda>_. True" "on_more bridge_wf"
  by unfold_locales (auto simp: uip_inv_def intro: res_ok_mono [OF httpd_appcall_ok])

interpretation bridge_total: uip_app httpd_appcall "\<lambda>_. False" "on_more bridge_ok"
  by unfold_locales (auto simp: uip_inv_def intro: res_ok_mono [OF httpd_appcall_ok])

end
