(* ===== verification/Uip_Arp.thy ===== *)
theory Uip_Arp
  imports Uip_Conn
begin

text \<open>
  \<^verbatim>\<open>library/uip/uip_arp.c\<close>: the ARP table, its timer, the processing of ARP packets and the Ethernet
  header of outgoing IP packets. The table and its clock are the module's own state; the packet
  buffer and the addresses belong to the stack. The static temporaries \<^verbatim>\<open>i\<close>, \<^verbatim>\<open>c\<close>, \<^verbatim>\<open>tmpage\<close> and \<^verbatim>\<open>ipaddr\<close> are
  assigned before each use and are local.
\<close>

section \<open>Data\<close>

abbreviation (input) UIP_ARPTAB_SIZE :: nat where "UIP_ARPTAB_SIZE \<equiv> 8"
abbreviation (input) UIP_ARP_MAXAGE :: int where "UIP_ARP_MAXAGE \<equiv> 120"
abbreviation (input) ARP_REQUEST :: u16 where "ARP_REQUEST \<equiv> 1"
abbreviation (input) ARP_REPLY :: u16 where "ARP_REPLY \<equiv> 2"
abbreviation (input) ARP_HWTYPE_ETH :: u16 where "ARP_HWTYPE_ETH \<equiv> 1"
abbreviation (input) UIP_ETHTYPE_ARP :: u16 where "UIP_ETHTYPE_ARP \<equiv> 0x0806"
abbreviation (input) UIP_ETHTYPE_IP :: u16 where "UIP_ETHTYPE_IP \<equiv> 0x0800"
abbreviation (input) sizeof_arp_hdr :: u16 where "sizeof_arp_hdr \<equiv> 42"
abbreviation (input) sizeof_eth_hdr :: u16 where "sizeof_eth_hdr \<equiv> 14"

text \<open>Offsets of \<^verbatim>\<open>struct arp_hdr\<close>, with the Ethernet header it starts with.\<close>

abbreviation (input) e_dest :: nat where "e_dest \<equiv> 0"
abbreviation (input) e_src :: nat where "e_src \<equiv> 6"
abbreviation (input) e_type :: nat where "e_type \<equiv> 12"
abbreviation (input) a_hwtype :: nat where "a_hwtype \<equiv> 14"
abbreviation (input) a_protocol :: nat where "a_protocol \<equiv> 16"
abbreviation (input) a_hwlen :: nat where "a_hwlen \<equiv> 18"
abbreviation (input) a_protolen :: nat where "a_protolen \<equiv> 19"
abbreviation (input) a_opcode :: nat where "a_opcode \<equiv> 20"
abbreviation (input) a_shwaddr :: nat where "a_shwaddr \<equiv> 22"
abbreviation (input) a_sipaddr :: nat where "a_sipaddr \<equiv> 28"
abbreviation (input) a_dhwaddr :: nat where "a_dhwaddr \<equiv> 32"
abbreviation (input) a_dipaddr :: nat where "a_dipaddr \<equiv> 38"

record arp_entry =
  ae_ipaddr :: ip4addr
  ae_ethaddr :: bytes
  ae_time :: u8

record arp =
  arp_table :: "arp_entry list"
  arptime :: u8

text \<open>Six-byte hardware addresses in the packet buffer.\<close>

definition buf_hw :: "'a uip_scheme \<Rightarrow> nat \<Rightarrow> bytes" where
  "buf_hw s i = take 6 (drop i (uip_buf s))"

fun set_bytes :: "nat \<Rightarrow> bytes \<Rightarrow> 'a uip_scheme \<Rightarrow> 'a uip_scheme" where
  "set_bytes i [] s = s"
| "set_bytes i (x # xs) s = set_bytes (i + 1) xs (set8 i x s)"

definition broadcast_ethaddr :: bytes where
  "broadcast_ethaddr = replicate 6 0xff"

definition broadcast_ipaddr :: ip4addr where
  "broadcast_ipaddr = (0xffff, 0xffff)"

section \<open>The table\<close>

definition uip_arp_init :: "arp \<Rightarrow> arp" where
  "uip_arp_init a = a\<lparr>arp_table := map (\<lambda>e. e\<lparr>ae_ipaddr := (0, 0)\<rparr>) (arp_table a)\<rparr>"

text \<open>The age \<^verbatim>\<open>arptime - tabptr->time\<close> is a difference of promoted integers and may be negative.\<close>

definition arp_age :: "u8 \<Rightarrow> arp_entry \<Rightarrow> int" where
  "arp_age now e = int (unat now) - int (unat (ae_time e))"

definition uip_arp_timer :: "arp \<Rightarrow> arp" where
  "uip_arp_timer a =
     (let a = a\<lparr>arptime := arptime a + 1\<rparr>
      in a\<lparr>arp_table := map (\<lambda>e. if fst (ae_ipaddr e) OR snd (ae_ipaddr e) \<noteq> 0 \<and>
                                 arp_age (arptime a) e \<ge> UIP_ARP_MAXAGE
                              then e\<lparr>ae_ipaddr := (0, 0)\<rparr> else e) (arp_table a)\<rparr>)"

text \<open>The scan for the oldest entry; \<^verbatim>\<open>tmpage\<close> keeps eight bits of the age.\<close>

fun oldest_entry :: "u8 \<Rightarrow> arp_entry list \<Rightarrow> nat \<Rightarrow> u8 \<Rightarrow> nat \<Rightarrow> nat" where
  "oldest_entry now [] i tmpage c = c"
| "oldest_entry now (e # es) i tmpage c =
     (if arp_age now e > int (unat tmpage)
      then oldest_entry now es (i + 1) (now - ae_time e) i
      else oldest_entry now es (i + 1) tmpage c)"

definition uip_arp_update :: "ip4addr \<Rightarrow> bytes \<Rightarrow> arp \<Rightarrow> arp" where
  "uip_arp_update addr hw a =
     (case first_index (\<lambda>e. fst (ae_ipaddr e) \<noteq> 0 \<and> snd (ae_ipaddr e) \<noteq> 0 \<and>
                            fst addr = fst (ae_ipaddr e) \<and> snd addr = snd (ae_ipaddr e)) (arp_table a) of
        Some i \<Rightarrow>
          a\<lparr>arp_table := (arp_table a)[i := (arp_table a ! i)\<lparr>ae_ethaddr := hw, ae_time := arptime a\<rparr>]\<rparr>
      | None \<Rightarrow>
          let i = (case first_index (\<lambda>e. fst (ae_ipaddr e) = 0 \<and> snd (ae_ipaddr e) = 0) (arp_table a) of
                     Some i \<Rightarrow> i
                   | None \<Rightarrow> oldest_entry (arptime a) (arp_table a) 0 0 0)
          in a\<lparr>arp_table := (arp_table a)[i := \<lparr>ae_ipaddr = addr, ae_ethaddr = hw, ae_time = arptime a\<rparr>]\<rparr>)"

section \<open>Packets\<close>

definition arp_reply :: "'a uip_scheme \<Rightarrow> 'a uip_scheme" where
  "arp_reply s =
     (let s = set16 a_opcode (HTONS 2) s;
          s = set_bytes a_dhwaddr (buf_hw s a_shwaddr) s;
          s = set_bytes a_shwaddr (uip_ethaddr s) s;
          s = set_bytes e_src (uip_ethaddr s) s;
          s = set_bytes e_dest (buf_hw s a_dhwaddr) s;
          s = set_addr a_dipaddr (buf_addr s a_sipaddr) s;
          s = set_addr a_sipaddr (uip_hostaddr s) s;
          s = set16 e_type (HTONS UIP_ETHTYPE_ARP) s
      in s\<lparr>uip_len := sizeof_arp_hdr\<rparr>)"

definition uip_arp_arpin :: "arp \<times> 'a uip_scheme \<Rightarrow> arp \<times> 'a uip_scheme" where
  "uip_arp_arpin = (\<lambda>(a, s).
     if uip_len s < sizeof_arp_hdr then (a, s\<lparr>uip_len := 0\<rparr>)
     else
       let s = s\<lparr>uip_len := 0\<rparr> in
       if buf16 s a_opcode = HTONS ARP_REQUEST
       then if uip_ipaddr_cmp (buf_addr s a_dipaddr) (uip_hostaddr s)
            then (uip_arp_update (buf_addr s a_sipaddr) (buf_hw s a_shwaddr) a, arp_reply s)
            else (a, s)
       else if buf16 s a_opcode = HTONS ARP_REPLY
       then if uip_ipaddr_cmp (buf_addr s a_dipaddr) (uip_hostaddr s)
            then (uip_arp_update (buf_addr s a_sipaddr) (buf_hw s a_shwaddr) a, s)
            else (a, s)
       else (a, s))"

definition arp_request :: "ip4addr \<Rightarrow> 'a uip_scheme \<Rightarrow> 'a uip_scheme" where
  "arp_request addr s =
     (let s = set_bytes e_dest (replicate 6 0xff) s;
          s = set_bytes a_dhwaddr (replicate 6 0) s;
          s = set_bytes e_src (uip_ethaddr s) s;
          s = set_bytes a_shwaddr (uip_ethaddr s) s;
          s = set_addr a_dipaddr addr s;
          s = set_addr a_sipaddr (uip_hostaddr s) s;
          s = set16 a_opcode (HTONS ARP_REQUEST) s;
          s = set16 a_hwtype (HTONS ARP_HWTYPE_ETH) s;
          s = set16 a_protocol (HTONS UIP_ETHTYPE_IP) s;
          s = set8 a_hwlen 6 s;
          s = set8 a_protolen 4 s;
          s = set16 e_type (HTONS UIP_ETHTYPE_ARP) s
      in s\<lparr>uip_appdata := 54, uip_len := sizeof_arp_hdr\<rparr>)"

text \<open>The common end of \<^verbatim>\<open>uip_arp_out()\<close>: source address, type and length of the frame.\<close>

definition eth_header :: "bytes \<Rightarrow> 'a uip_scheme \<Rightarrow> 'a uip_scheme" where
  "eth_header dest s =
     (let s = set_bytes e_dest dest s;
          s = set_bytes e_src (uip_ethaddr s) s;
          s = set16 e_type (HTONS UIP_ETHTYPE_IP) s
      in s\<lparr>uip_len := uip_len s + sizeof_eth_hdr\<rparr>)"

definition next_hop :: "'a uip_scheme \<Rightarrow> ip4addr" where
  "next_hop s =
     (if \<not> uip_ipaddr_maskcmp (buf_addr s o_destipaddr) (uip_hostaddr s) (uip_netmask s)
      then uip_draddr s else buf_addr s o_destipaddr)"

definition uip_arp_out :: "arp \<Rightarrow> 'a uip_scheme \<Rightarrow> 'a uip_scheme" where
  "uip_arp_out a s =
     (if uip_ipaddr_cmp (buf_addr s o_destipaddr) broadcast_ipaddr
      then eth_header broadcast_ethaddr s
      else case first_index (\<lambda>e. uip_ipaddr_cmp (next_hop s) (ae_ipaddr e)) (arp_table a) of
             None \<Rightarrow> arp_request (next_hop s) s
           | Some i \<Rightarrow> eth_header (ae_ethaddr (arp_table a ! i)) s)"

section \<open>Invariant and abstraction\<close>

text \<open>
  The table has eight entries with six-byte hardware addresses, and no two entries hold the same usable
  address; usable are the addresses that \<^verbatim>\<open>uip_arp_update()\<close> can find again, which excludes those with a zero
  half. Abstractly the table is a partial map from addresses to hardware addresses.
\<close>

definition arp_wf :: "arp \<Rightarrow> bool" where
  "arp_wf a \<longleftrightarrow>
     length (arp_table a) = UIP_ARPTAB_SIZE \<and> list_all (\<lambda>e. length (ae_ethaddr e) = 6) (arp_table a)"

definition arp_usable :: "ip4addr \<Rightarrow> bool" where
  "arp_usable ip \<longleftrightarrow> fst ip \<noteq> 0 \<and> snd ip \<noteq> 0"

definition arp_uniq :: "arp \<Rightarrow> bool" where
  "arp_uniq a \<longleftrightarrow>
     (\<forall>i < length (arp_table a). \<forall>j < length (arp_table a).
        i \<noteq> j \<longrightarrow> arp_usable (ae_ipaddr (arp_table a ! i)) \<longrightarrow> ae_ipaddr (arp_table a ! i) \<noteq> ae_ipaddr (arp_table a ! j))"

definition arp_inv :: "arp \<Rightarrow> bool" where
  "arp_inv a \<longleftrightarrow> arp_wf a \<and> arp_uniq a"

definition arp_lookup :: "arp \<Rightarrow> ip4addr \<Rightarrow> bytes option" where
  "arp_lookup a ip =
     map_option (\<lambda>i. ae_ethaddr (arp_table a ! i)) (first_index (\<lambda>e. uip_ipaddr_cmp ip (ae_ipaddr e)) (arp_table a))"

section \<open>Fields of frames\<close>

lemma set_bytes_frame [simp]:
  "length (uip_buf (set_bytes i d s)) = length (uip_buf s)"
  "uip_len (set_bytes i d s) = uip_len s"
  "uip_hostaddr (set_bytes i d s) = uip_hostaddr s"
  "uip_ethaddr (set_bytes i d s) = uip_ethaddr s"
  "uip_wf (set_bytes i d s) = uip_wf s"
  by (induction i d s rule: set_bytes.induct) simp_all

lemma buf8_set_bytes:
  "i + length d \<le> length (uip_buf s) \<Longrightarrow>
   buf8 (set_bytes i d s) j = (if i \<le> j \<and> j < i + length d then d ! (j - i) else buf8 s j)"
proof (induction i d s rule: set_bytes.induct)
  case (2 i x xs s)
  then show ?case by (auto simp: buf8_set8 nth_Cons')
qed auto

lemma buf_hw_frame [simp]:
  "buf_hw (s\<lparr>uip_len := x1\<rparr>) i = buf_hw s i"
  "buf_hw (s\<lparr>uip_appdata := x3\<rparr>) i = buf_hw s i"
  by (simp_all add: buf_hw_def)

lemma buf_hw_eqI:
  "(\<And>k. k < 6 \<Longrightarrow> buf8 t (i + k) = buf8 s (i + k)) \<Longrightarrow> length (uip_buf t) = length (uip_buf s) \<Longrightarrow>
   buf_hw t i = buf_hw s i"
  by (auto simp: buf_hw_def buf8_def intro!: nth_equalityI)

lemma buf_hw_other:
  "j < i \<or> i + 6 \<le> j \<Longrightarrow> buf_hw (set8 j v s) i = buf_hw s i"
  "j + 2 \<le> i \<or> i + 6 \<le> j \<Longrightarrow> buf_hw (set16 j w s) i = buf_hw s i"
  "j + 4 \<le> i \<or> i + 6 \<le> j \<Longrightarrow> buf_hw (set_addr j a s) i = buf_hw s i"
  by (rule buf_hw_eqI; auto simp: buf8_other)+

lemma set_bytes_other:
  assumes "j + length d \<le> length (uip_buf s)"
  shows "j + length d \<le> i \<or> i < j \<Longrightarrow> buf8 (set_bytes j d s) i = buf8 s i"
    "j + length d \<le> i \<or> i + 2 \<le> j \<Longrightarrow> buf16 (set_bytes j d s) i = buf16 s i"
    "j + length d \<le> i \<or> i + 4 \<le> j \<Longrightarrow> buf_addr (set_bytes j d s) i = buf_addr s i"
    "j + length d \<le> i \<or> i + 6 \<le> j \<Longrightarrow> buf_hw (set_bytes j d s) i = buf_hw s i"
  using assms by (auto simp: buf8_set_bytes buf_bytes intro!: buf_hw_eqI)

lemma buf_hw_same:
  assumes "i + length d \<le> length (uip_buf s)" and "length d = 6"
  shows "buf_hw (set_bytes i d s) i = d"
  using assms buf8_set_bytes [of i d s]
  by (auto simp: buf_hw_def buf8_def intro!: nth_equalityI)

lemmas arp_rw = buf_rw buf_hw_other set_bytes_other buf_hw_same

lemma length_buf_hw [simp]: "i + 6 \<le> length (uip_buf s) \<Longrightarrow> length (buf_hw s i) = 6"
  by (simp add: buf_hw_def)

lemma arp_reply_fields:
  assumes "length (uip_buf s) = 422" and "length (uip_ethaddr s) = 6"
  shows "buf16 (arp_reply s) a_opcode = HTONS ARP_REPLY"
    and "buf_hw (arp_reply s) e_dest = buf_hw s a_shwaddr"
    and "buf_hw (arp_reply s) e_src = uip_ethaddr s"
    and "buf16 (arp_reply s) e_type = HTONS UIP_ETHTYPE_ARP"
    and "buf_hw (arp_reply s) a_shwaddr = uip_ethaddr s"
    and "buf_addr (arp_reply s) a_sipaddr = uip_hostaddr s"
    and "buf_hw (arp_reply s) a_dhwaddr = buf_hw s a_shwaddr"
    and "buf_addr (arp_reply s) a_dipaddr = buf_addr s a_sipaddr"
    and "uip_len (arp_reply s) = sizeof_arp_hdr"
  using assms
  by (simp_all add: arp_reply_def Let_def arp_rw)

lemma arp_request_fields:
  assumes "length (uip_buf s) = 422" and "length (uip_ethaddr s) = 6"
  shows "buf16 (arp_request h s) a_opcode = HTONS ARP_REQUEST"
    and "buf16 (arp_request h s) a_hwtype = HTONS ARP_HWTYPE_ETH"
    and "buf16 (arp_request h s) a_protocol = HTONS UIP_ETHTYPE_IP"
    and "buf8 (arp_request h s) a_hwlen = 6"
    and "buf8 (arp_request h s) a_protolen = 4"
    and "buf_hw (arp_request h s) e_dest = broadcast_ethaddr"
    and "buf_hw (arp_request h s) e_src = uip_ethaddr s"
    and "buf16 (arp_request h s) e_type = HTONS UIP_ETHTYPE_ARP"
    and "buf_hw (arp_request h s) a_shwaddr = uip_ethaddr s"
    and "buf_addr (arp_request h s) a_sipaddr = uip_hostaddr s"
    and "buf_addr (arp_request h s) a_dipaddr = h"
    and "uip_len (arp_request h s) = sizeof_arp_hdr"
  using assms by (simp_all add: arp_request_def broadcast_ethaddr_def Let_def arp_rw)

lemma eth_header_fields:
  assumes "length (uip_buf s) = 422" and "length (uip_ethaddr s) = 6" and "length d = 6"
  shows "buf_hw (eth_header d s) e_dest = d"
    and "buf_hw (eth_header d s) e_src = uip_ethaddr s"
    and "buf16 (eth_header d s) e_type = HTONS UIP_ETHTYPE_IP"
    and "uip_len (eth_header d s) = uip_len s + sizeof_eth_hdr"
    and "14 \<le> i \<Longrightarrow> buf8 (eth_header d s) i = buf8 s i"
  using assms by (simp_all add: eth_header_def Let_def arp_rw)

section \<open>The contract of an address cache\<close>

text \<open>
  What the output side relies on: an update is visible, and it changes the answer for no other address
  except by evicting it.
\<close>

locale neighbour_cache =
  fixes update :: "ip4addr \<Rightarrow> bytes \<Rightarrow> 'c \<Rightarrow> 'c"
    and lookup :: "'c \<Rightarrow> ip4addr \<Rightarrow> bytes option"
    and inv :: "'c \<Rightarrow> bool"
    and usable :: "ip4addr \<Rightarrow> bool"
  assumes inv_update: "inv c \<Longrightarrow> length hw = 6 \<Longrightarrow> inv (update ip hw c)"
    and lookup_same: "inv c \<Longrightarrow> length hw = 6 \<Longrightarrow> usable ip \<Longrightarrow> lookup (update ip hw c) ip = Some hw"
    and lookup_other: "inv c \<Longrightarrow> length hw = 6 \<Longrightarrow> usable q \<Longrightarrow> q \<noteq> ip \<Longrightarrow>
      lookup (update ip hw c) q = lookup c q \<or> lookup (update ip hw c) q = None"
begin

text \<open>What a cache answers is the latest address it was told, or what it answered before; what it was told last it knows.\<close>

definition learn :: "(ip4addr \<times> bytes) list \<Rightarrow> 'c \<Rightarrow> 'c" where
  "learn us c = fold (\<lambda>(ip, hw). update ip hw) us c"

lemma inv_learn: "inv c \<Longrightarrow> \<forall>(ip, hw) \<in> set us. length hw = 6 \<Longrightarrow> inv (learn us c)"
  unfolding learn_def by (induction us arbitrary: c) (auto simp: inv_update)

lemma learn_last:
  assumes "inv c" and "us \<noteq> []" and "\<forall>(ip, hw) \<in> set us. length hw = 6 \<and> usable ip"
  shows "lookup (learn us c) (fst (last us)) = Some (snd (last us))"
proof -
  obtain vs ip hw where us: "us = vs @ [(ip, hw)]" using assms(2) by (cases us rule: rev_cases) auto
  have "inv (learn vs c)" using assms by (intro inv_learn) (auto simp: us)
  then have "lookup (update ip hw (learn vs c)) ip = Some hw" using assms(3) by (intro lookup_same) (auto simp: us)
  then show ?thesis by (simp add: us learn_def)
qed

lemma learn_latest:
  assumes "inv c" and "\<forall>(ip, hw) \<in> set us. length hw = 6" and "usable q" and "lookup (learn us c) q = Some hw"
  shows "map_of (rev us) q = Some hw \<or> map_of (rev us) q = None \<and> lookup c q = Some hw"
  using assms
proof (induction us arbitrary: hw rule: rev_induct)
  case (snoc u us)
  obtain ip h where u: "u = (ip, h)" by (cases u)
  have step: "lookup (update ip h (learn us c)) q = Some hw"
    using snoc.prems by (simp add: learn_def u)
  have "inv (learn us c)"
    using snoc.prems by (intro inv_learn) auto
  note laws = lookup_same [OF this, of h q] lookup_other [OF this, of h q ip]
  show ?case
  proof (cases "q = ip")
    case True
    then show ?thesis using laws(1) step snoc.prems by (simp add: u)
  next
    case False
    then have "lookup (learn us c) q = Some hw"
      using laws(2) step snoc.prems by (auto simp: u)
    then show ?thesis
      using snoc False by (simp add: u)
  qed
qed (simp add: learn_def)

end

text \<open>
  A cache of \<open>cap\<close> addresses, all of them usable, forgets none while there is room.
\<close>

locale bounded_cache = neighbour_cache update lookup inv usable
  for update :: "ip4addr \<Rightarrow> bytes \<Rightarrow> 'c \<Rightarrow> 'c" and lookup :: "'c \<Rightarrow> ip4addr \<Rightarrow> bytes option"
    and inv :: "'c \<Rightarrow> bool" and usable :: "ip4addr \<Rightarrow> bool" +
  fixes held :: "'c \<Rightarrow> ip4addr set" and tidy :: "'c \<Rightarrow> bool" and cap :: nat
  assumes finite_held: "finite (held c)"
    and tidy_update: "inv c \<Longrightarrow> tidy c \<Longrightarrow> usable ip \<Longrightarrow> tidy (update ip hw c)"
    and held_update: "inv c \<Longrightarrow> tidy c \<Longrightarrow> usable ip \<Longrightarrow> card (insert ip (held c)) \<le> cap \<Longrightarrow> held (update ip hw c) = insert ip (held c)"
    and lookup_kept: "inv c \<Longrightarrow> tidy c \<Longrightarrow> usable ip \<Longrightarrow> card (insert ip (held c)) \<le> cap \<Longrightarrow> length hw = 6 \<Longrightarrow> usable q \<Longrightarrow> q \<noteq> ip \<Longrightarrow>
      lookup (update ip hw c) q = lookup c q"
begin

lemma learn_all:
  assumes "inv c" and "tidy c" and "\<forall>(ip, hw) \<in> set us. length hw = 6 \<and> usable ip" and "card (held c \<union> fst ` set us) \<le> cap"
  shows "tidy (learn us c) \<and> held (learn us c) = held c \<union> fst ` set us \<and>
    (\<forall>q. usable q \<longrightarrow> lookup (learn us c) q = (lookup c ++ map_of (rev us)) q)"
  using assms
proof (induction us rule: rev_induct)
  case (snoc u us)
  obtain ip hw where u: "u = (ip, hw)" by (cases u)
  let ?c = "learn us c"
  have "card (held c \<union> fst ` set us) \<le> card (held c \<union> fst ` set (us @ [u]))"
    by (intro card_mono) (auto simp: finite_held)
  then have ih: "tidy ?c" "held ?c = held c \<union> fst ` set us" "\<And>q. usable q \<Longrightarrow> lookup ?c q = (lookup c ++ map_of (rev us)) q"
    using snoc by auto
  have inv: "inv ?c" using snoc.prems by (intro inv_learn) auto
  have ip: "usable ip" "length hw = 6" using snoc.prems by (auto simp: u)
  have room: "card (insert ip (held ?c)) \<le> cap" using snoc.prems(4) by (simp add: ih(2) u)
  have eq: "learn (us @ [u]) c = update ip hw ?c" by (simp add: learn_def u)
  have "lookup (update ip hw ?c) q = (lookup c ++ map_of (rev (us @ [u]))) q" if "usable q" for q
    using lookup_same [OF inv ip(2,1)] lookup_kept [OF inv ih(1) ip(1) room ip(2) that] ih(3) [OF that]
    by (cases "q = ip") (simp_all add: u map_add_def)
  moreover have "held (update ip hw ?c) = held c \<union> fst ` set (us @ [u])"
    using held_update [OF inv ih(1) ip(1) room] by (simp add: ih(2) u)
  ultimately show ?case unfolding eq using tidy_update [OF inv ih(1) ip(1)] by blast
qed (simp add: learn_def)

end

section \<open>The table keeps the contract\<close>

lemma arp_lookup_iff:
  assumes "arp_inv a" and "arp_usable q"
  shows "arp_lookup a q = Some hw \<longleftrightarrow>
    (\<exists>i < length (arp_table a). ae_ipaddr (arp_table a ! i) = q \<and> ae_ethaddr (arp_table a ! i) = hw)"
proof (cases "first_index (\<lambda>e. uip_ipaddr_cmp q (ae_ipaddr e)) (arp_table a)")
  case None
  then have "\<forall>e \<in> set (arp_table a). ae_ipaddr e \<noteq> q"
    by (auto simp: first_index_None uip_ipaddr_cmp_def)
  with None show ?thesis
    by (auto simp: arp_lookup_def)
next
  case (Some i)
  have i: "i < length (arp_table a)" "ae_ipaddr (arp_table a ! i) = q"
    using first_index_Some [OF Some] by (auto simp: uip_ipaddr_cmp_def prod_eq_iff)
  then have uniq: "j = i" if "j < length (arp_table a)" "ae_ipaddr (arp_table a ! j) = q" for j
    using that assms unfolding arp_inv_def arp_uniq_def by metis
  have "arp_lookup a q = Some (ae_ethaddr (arp_table a ! i))"
    by (simp add: arp_lookup_def Some)
  then show ?thesis using i uniq by (metis option.inject)
qed

lemma oldest_entry_less: "oldest_entry now es i t c < i + length es \<or> oldest_entry now es i t c = c"
proof (induction es arbitrary: i t c)
  case (Cons e es)
  then show ?case using Cons [of "i + 1" "now - ae_time e" i] Cons [of "i + 1" t c] by auto
qed simp

lemma uip_arp_update_shape:
  assumes "length (arp_table a) = 8"
  obtains i where "i < 8" and "uip_arp_update ip hw a =
      a\<lparr>arp_table := (arp_table a)[i := \<lparr>ae_ipaddr = ip, ae_ethaddr = hw, ae_time = arptime a\<rparr>]\<rparr>"
    and "arp_usable ip \<Longrightarrow> arp_uniq a \<Longrightarrow> \<forall>j<8. j \<noteq> i \<longrightarrow> ae_ipaddr (arp_table a ! j) \<noteq> ip"
proof -
  let ?P = "\<lambda>e. fst (ae_ipaddr e) \<noteq> 0 \<and> snd (ae_ipaddr e) \<noteq> 0 \<and>
                            fst ip = fst (ae_ipaddr e) \<and> snd ip = snd (ae_ipaddr e)"
  let ?Q = "\<lambda>e. fst (ae_ipaddr e) = 0 \<and> snd (ae_ipaddr e) = 0"
  show thesis
  proof (cases "first_index ?P (arp_table a)")
    case None
    let ?i = "case first_index ?Q (arp_table a) of Some i \<Rightarrow> i | None \<Rightarrow> oldest_entry (arptime a) (arp_table a) 0 0 0"
    have "?i < 8"
      using first_index_Some [of ?Q "arp_table a"] oldest_entry_less [of "arptime a" "arp_table a" 0 0 0] assms
      by (auto split: option.split)
    moreover have "uip_arp_update ip hw a =
      a\<lparr>arp_table := (arp_table a)[?i := \<lparr>ae_ipaddr = ip, ae_ethaddr = hw, ae_time = arptime a\<rparr>]\<rparr>"
      by (simp add: uip_arp_update_def None)
    moreover have "\<forall>j<8. ae_ipaddr (arp_table a ! j) \<noteq> ip" if "arp_usable ip"
    proof (intro allI impI notI)
      fix j :: nat assume "j < 8" and ip: "ae_ipaddr (arp_table a ! j) = ip"
      then have "arp_table a ! j \<in> set (arp_table a)" using assms by simp
      then show False
        using None that ip by (auto simp: first_index_None arp_usable_def)
    qed
    ultimately show ?thesis by (intro that) blast+
  next
    case (Some i)
    have i: "i < 8" "?P (arp_table a ! i)"
      using first_index_Some [OF Some] assms by auto
    then have "ae_ipaddr (arp_table a ! i) = ip" by (simp add: prod_eq_iff)
    then have e: "(arp_table a ! i)\<lparr>ae_ethaddr := hw, ae_time := arptime a\<rparr> = \<lparr>ae_ipaddr = ip, ae_ethaddr = hw, ae_time = arptime a\<rparr>"
      by simp
    have "uip_arp_update ip hw a =
      a\<lparr>arp_table := (arp_table a)[i := \<lparr>ae_ipaddr = ip, ae_ethaddr = hw, ae_time = arptime a\<rparr>]\<rparr>"
      by (simp only: uip_arp_update_def Some option.case e)
    moreover have "\<forall>j<8. j \<noteq> i \<longrightarrow> ae_ipaddr (arp_table a ! j) \<noteq> ip" if "arp_usable ip" "arp_uniq a"
      using that i(1) assms \<open>ae_ipaddr (arp_table a ! i) = ip\<close> unfolding arp_uniq_def by metis
    ultimately show ?thesis
      using i(1) by (intro that)
  qed
qed

lemma arp_inv_update:
  assumes "arp_inv a" and "length hw = 6"
  shows "arp_inv (uip_arp_update ip hw a)"
proof -
  have len: "length (arp_table a) = 8" and u: "arp_uniq a"
    using assms by (simp_all add: arp_inv_def arp_wf_def)
  obtain i where i: "i < 8" "uip_arp_update ip hw a =
      a\<lparr>arp_table := (arp_table a)[i := \<lparr>ae_ipaddr = ip, ae_ethaddr = hw, ae_time = arptime a\<rparr>]\<rparr>"
      "arp_usable ip \<Longrightarrow> \<forall>j<8. j \<noteq> i \<longrightarrow> ae_ipaddr (arp_table a ! j) \<noteq> ip"
    using uip_arp_update_shape [OF len] u by metis
  show ?thesis
    using assms i len
    by (auto simp: arp_inv_def arp_wf_def arp_uniq_def list_all_length nth_list_update)
qed

lemma arp_lookup_update:
  assumes "arp_inv a" and "length hw = 6" and "arp_usable q"
  shows "q = ip \<Longrightarrow> arp_lookup (uip_arp_update ip hw a) q = Some hw"
    and "q \<noteq> ip \<Longrightarrow> arp_lookup (uip_arp_update ip hw a) q = arp_lookup a q \<or>
      arp_lookup (uip_arp_update ip hw a) q = None"
proof -
  have len: "length (arp_table a) = 8" and u: "arp_uniq a"
    using assms by (simp_all add: arp_inv_def arp_wf_def)
  obtain i where i: "i < 8" "uip_arp_update ip hw a =
      a\<lparr>arp_table := (arp_table a)[i := \<lparr>ae_ipaddr = ip, ae_ethaddr = hw, ae_time = arptime a\<rparr>]\<rparr>"
    using uip_arp_update_shape [OF len] by metis
  note inv = arp_inv_update [OF assms(1,2), of ip]
  show "q = ip \<Longrightarrow> arp_lookup (uip_arp_update ip hw a) q = Some hw"
    unfolding arp_lookup_iff [OF inv assms(3)] using i len by auto
  assume "q \<noteq> ip"
  then have "arp_lookup a q = Some h" if "arp_lookup (uip_arp_update ip hw a) q = Some h" for h
    using that i len unfolding arp_lookup_iff [OF inv assms(3)] arp_lookup_iff [OF assms(1,3)]
    by (auto simp: nth_list_update split: if_splits)
  then show "arp_lookup (uip_arp_update ip hw a) q = arp_lookup a q \<or> arp_lookup (uip_arp_update ip hw a) q = None"
    by (cases "arp_lookup (uip_arp_update ip hw a) q") auto
qed

interpretation arp_cache: neighbour_cache uip_arp_update arp_lookup arp_inv arp_usable
  by unfold_locales (auto simp: arp_inv_update arp_lookup_update)

text \<open>The addresses in the table; every slot is free or holds a usable address.\<close>

definition arp_held :: "arp \<Rightarrow> ip4addr set" where
  "arp_held a = ae_ipaddr ` set (arp_table a) - {(0, 0)}"

definition arp_tidy :: "arp \<Rightarrow> bool" where
  "arp_tidy a \<longleftrightarrow> (\<forall>e \<in> set (arp_table a). ae_ipaddr e = (0, 0) \<or> arp_usable (ae_ipaddr e))"

lemma arp_full:
  assumes "arp_inv a" and "arp_tidy a" and "\<forall>e \<in> set (arp_table a). ae_ipaddr e \<noteq> (0, 0)"
  shows "card (arp_held a) = 8"
proof -
  have len: "length (arp_table a) = 8" using assms(1) by (simp add: arp_inv_def arp_wf_def)
  have "distinct (map ae_ipaddr (arp_table a))"
    using assms len by (auto simp: distinct_conv_nth arp_inv_def arp_uniq_def arp_tidy_def)
  then have "card (ae_ipaddr ` set (arp_table a)) = 8" using distinct_card [of "map ae_ipaddr (arp_table a)"] len by simp
  moreover have "(0, 0) \<notin> ae_ipaddr ` set (arp_table a)" using assms(3) by force
  ultimately show ?thesis by (simp add: arp_held_def)
qed

lemma arp_update_room:
  assumes inv: "arp_inv a" and tidy: "arp_tidy a" and ip: "arp_usable ip" and room: "card (insert ip (arp_held a)) \<le> 8"
  obtains i where "i < 8" and "ae_ipaddr (arp_table a ! i) \<in> {ip, (0, 0)}"
    and "uip_arp_update ip hw a = a\<lparr>arp_table := (arp_table a)[i := \<lparr>ae_ipaddr = ip, ae_ethaddr = hw, ae_time = arptime a\<rparr>]\<rparr>"
proof -
  let ?P = "\<lambda>e. fst (ae_ipaddr e) \<noteq> 0 \<and> snd (ae_ipaddr e) \<noteq> 0 \<and> fst ip = fst (ae_ipaddr e) \<and> snd ip = snd (ae_ipaddr e)"
  let ?Q = "\<lambda>e. fst (ae_ipaddr e) = 0 \<and> snd (ae_ipaddr e) = 0"
  have len: "length (arp_table a) = 8" using inv by (simp add: arp_inv_def arp_wf_def)
  show thesis
  proof (cases "first_index ?P (arp_table a)")
    case (Some i)
    have i: "i < 8" "ae_ipaddr (arp_table a ! i) = ip" using first_index_Some [OF Some] len by (auto simp: prod_eq_iff)
    then have "(arp_table a ! i)\<lparr>ae_ethaddr := hw, ae_time := arptime a\<rparr> = \<lparr>ae_ipaddr = ip, ae_ethaddr = hw, ae_time = arptime a\<rparr>" by simp
    then show thesis using that [of i] i by (simp only: uip_arp_update_def Some option.case) simp
  next
    case None
    then have new: "ip \<notin> arp_held a" using ip by (auto simp: first_index_None arp_usable_def arp_held_def)
    have "card (arp_held a) \<noteq> 8" using room new by (simp add: arp_held_def)
    then obtain e where "e \<in> set (arp_table a)" "ae_ipaddr e = (0, 0)" using arp_full [OF inv tidy] by blast
    then obtain i where i: "first_index ?Q (arp_table a) = Some i"
      by (cases "first_index ?Q (arp_table a)") (auto simp: first_index_None)
    then show thesis using that [of i] first_index_Some [OF i] len by (simp add: uip_arp_update_def None prod_eq_iff)
  qed
qed

lemma arp_held_update:
  assumes "arp_inv a" and "arp_tidy a" and "arp_usable ip" and "card (insert ip (arp_held a)) \<le> 8"
  shows "arp_held (uip_arp_update ip hw a) = insert ip (arp_held a)"
proof -
  have len: "length (arp_table a) = 8" using assms(1) by (simp add: arp_inv_def arp_wf_def)
  obtain i where i: "i < 8" "ae_ipaddr (arp_table a ! i) \<in> {ip, (0, 0)}"
    "uip_arp_update ip hw a = a\<lparr>arp_table := (arp_table a)[i := \<lparr>ae_ipaddr = ip, ae_ethaddr = hw, ae_time = arptime a\<rparr>]\<rparr>"
    by (rule arp_update_room [OF assms])
  have ip: "ip \<noteq> (0, 0)" using assms(3) by (auto simp: arp_usable_def)
  have "map ae_ipaddr (arp_table (uip_arp_update ip hw a)) = (map ae_ipaddr (arp_table a))[i := ip]"
    unfolding i(3) by (simp add: map_update)
  then have "ae_ipaddr ` set (arp_table (uip_arp_update ip hw a)) = set ((map ae_ipaddr (arp_table a))[i := ip])"
    by (metis set_map)
  moreover have "set ((map ae_ipaddr (arp_table a))[i := ip]) - {(0, 0)} = insert ip (ae_ipaddr ` set (arp_table a) - {(0, 0)})"
    (is "?l = ?r")
  proof
    show "?l \<subseteq> ?r" using set_update_subset_insert [of "map ae_ipaddr (arp_table a)" i ip] by auto
    have "x \<in> set ((map ae_ipaddr (arp_table a))[i := ip])" if x: "x \<in> ae_ipaddr ` set (arp_table a)" "x \<noteq> (0, 0)" for x
    proof -
      obtain j where j: "j < 8" "ae_ipaddr (arp_table a ! j) = x" using x(1) len by (auto simp: in_set_conv_nth)
      then have "(map ae_ipaddr (arp_table a))[i := ip] ! j = x" using i(1,2) x(2) len by (cases "j = i") auto
      then show ?thesis using j(1) len by (metis length_list_update length_map nth_mem)
    qed
    moreover have "ip \<in> set ((map ae_ipaddr (arp_table a))[i := ip])" using i(1) len by (simp add: set_update_memI)
    ultimately show "?r \<subseteq> ?l" using ip by auto
  qed
  ultimately show ?thesis by (simp add: arp_held_def)
qed

lemma arp_lookup_kept:
  assumes "arp_inv a" and "arp_tidy a" and "arp_usable ip" and "card (insert ip (arp_held a)) \<le> 8"
    and "length hw = 6" and q: "arp_usable q" "q \<noteq> ip"
  shows "arp_lookup (uip_arp_update ip hw a) q = arp_lookup a q"
proof -
  have len: "length (arp_table a) = 8" using assms(1) by (simp add: arp_inv_def arp_wf_def)
  obtain i where i: "i < 8" "ae_ipaddr (arp_table a ! i) \<in> {ip, (0, 0)}"
    "uip_arp_update ip hw a = a\<lparr>arp_table := (arp_table a)[i := \<lparr>ae_ipaddr = ip, ae_ethaddr = hw, ae_time = arptime a\<rparr>]\<rparr>"
    by (rule arp_update_room [OF assms(1-4)])
  have "ae_ipaddr (arp_table a ! i) \<noteq> q" using i(2) q by (auto simp: arp_usable_def)
  then have "arp_lookup (uip_arp_update ip hw a) q = Some h \<longleftrightarrow> arp_lookup a q = Some h" for h
    unfolding arp_lookup_iff [OF arp_inv_update [OF assms(1,5)] q(1)] arp_lookup_iff [OF assms(1) q(1)]
    using i(1,3) q len by (auto simp: nth_list_update split: if_splits)
  then show ?thesis using not_Some_eq by metis
qed

lemma arp_tidy_update:
  assumes "arp_inv a" and "arp_tidy a" and "arp_usable ip"
  shows "arp_tidy (uip_arp_update ip hw a)"
proof -
  obtain i where "uip_arp_update ip hw a = a\<lparr>arp_table := (arp_table a)[i := \<lparr>ae_ipaddr = ip, ae_ethaddr = hw, ae_time = arptime a\<rparr>]\<rparr>"
    using uip_arp_update_shape [of a ip hw] assms(1) by (auto simp: arp_inv_def arp_wf_def)
  then show ?thesis using assms(2,3) by (auto simp: arp_tidy_def dest!: subsetD [OF set_update_subset_insert])
qed

interpretation arp_room: bounded_cache uip_arp_update arp_lookup arp_inv arp_usable arp_held arp_tidy 8
proof unfold_locales
  show "finite (arp_held a)" for a by (simp add: arp_held_def)
qed (simp_all add: arp_held_update arp_lookup_kept arp_tidy_update)

text \<open>A full table gives up the entry that was set longest ago.\<close>

lemma oldest_entry_max:
  "let r = oldest_entry now es i t c in
     r = c \<and> (\<forall>e \<in> set es. arp_age now e \<le> int (unat t)) \<or>
     (i \<le> r \<and> r < i + length es \<and> int (unat t) < arp_age now (es ! (r - i)) \<and> (\<forall>e \<in> set es. arp_age now e \<le> arp_age now (es ! (r - i))))"
proof (induction es arbitrary: i t c)
  case (Cons e es)
  show ?case
  proof (cases "arp_age now e > int (unat t)")
    case True
    then have "unat (ae_time e) \<le> unat now" unfolding arp_age_def by linarith
    then have "int (unat (now - ae_time e)) = arp_age now e" by (simp add: arp_age_def unat_sub word_le_nat_alt of_nat_diff)
    then show ?thesis using Cons [of "i + 1" "now - ae_time e" i] True by (auto simp: Let_def nth_Cons' split: if_splits)
  next
    case False
    then show ?thesis using Cons [of "i + 1" t c] by (auto simp: Let_def nth_Cons' split: if_splits)
  qed
qed simp

lemma arp_evicts_oldest:
  assumes inv: "arp_inv a" and hw: "length hw = 6" and full: "\<forall>e \<in> set (arp_table a). ae_ipaddr e \<noteq> ip \<and> ae_ipaddr e \<noteq> (0, 0)"
  shows "\<exists>v \<in> set (arp_table a). (\<forall>e \<in> set (arp_table a). arp_age (arptime a) e \<le> max 0 (arp_age (arptime a) v)) \<and>
    (\<forall>q. arp_usable q \<and> q \<noteq> ip \<longrightarrow> arp_lookup (uip_arp_update ip hw a) q = (if q = ae_ipaddr v then None else arp_lookup a q))"
proof -
  have len: "length (arp_table a) = 8" using inv by (simp add: arp_inv_def arp_wf_def)
  let ?i = "oldest_entry (arptime a) (arp_table a) 0 0 0" and ?v = "arp_table a ! oldest_entry (arptime a) (arp_table a) 0 0 0"
  have i: "?i < 8" using oldest_entry_less [of "arptime a" "arp_table a" 0 0 0] len by auto
  have none: "first_index (\<lambda>e. fst (ae_ipaddr e) \<noteq> 0 \<and> snd (ae_ipaddr e) \<noteq> 0 \<and> fst ip = fst (ae_ipaddr e) \<and> snd ip = snd (ae_ipaddr e)) (arp_table a) = None"
    "first_index (\<lambda>e. fst (ae_ipaddr e) = 0 \<and> snd (ae_ipaddr e) = 0) (arp_table a) = None"
    using full by (auto simp: first_index_None prod_eq_iff)
  have u: "uip_arp_update ip hw a = a\<lparr>arp_table := (arp_table a)[?i := \<lparr>ae_ipaddr = ip, ae_ethaddr = hw, ae_time = arptime a\<rparr>]\<rparr>"
    by (simp add: uip_arp_update_def none)
  have other: "ae_ipaddr (arp_table a ! j) \<noteq> ae_ipaddr ?v" if "j < 8" "j \<noteq> ?i" "arp_usable (ae_ipaddr (arp_table a ! j))" for j
    using that i inv len unfolding arp_inv_def arp_uniq_def by metis
  have "arp_lookup (uip_arp_update ip hw a) q = (if q = ae_ipaddr ?v then None else arp_lookup a q)" if q: "arp_usable q" "q \<noteq> ip" for q
  proof -
    have "arp_lookup (uip_arp_update ip hw a) q = Some h \<longleftrightarrow> q \<noteq> ae_ipaddr ?v \<and> arp_lookup a q = Some h" for h
      unfolding arp_lookup_iff [OF arp_inv_update [OF inv hw] q(1)] arp_lookup_iff [OF inv q(1)]
      using i q other len by (auto simp: u nth_list_update split: if_splits) metis
    then show ?thesis using not_Some_eq by metis
  qed
  moreover have "\<forall>e \<in> set (arp_table a). arp_age (arptime a) e \<le> max 0 (arp_age (arptime a) ?v)"
    using oldest_entry_max [of "arptime a" "arp_table a" 0 0 0] by (auto simp: Let_def max_def)
  ultimately show ?thesis using i len by (intro bexI [of _ ?v]) auto
qed

lemma uip_arp_out_lookup:
  "uip_arp_out a s =
     (if uip_ipaddr_cmp (buf_addr s o_destipaddr) broadcast_ipaddr then eth_header broadcast_ethaddr s
      else case arp_lookup a (next_hop s) of None \<Rightarrow> arp_request (next_hop s) s | Some hw \<Rightarrow> eth_header hw s)"
  by (simp add: uip_arp_out_def arp_lookup_def split: option.split)

lemma arp_lookup_length:
  assumes "arp_inv a" and "arp_lookup a ip = Some hw"
  shows "length hw = 6"
proof -
  obtain i where i: "first_index (\<lambda>e. uip_ipaddr_cmp ip (ae_ipaddr e)) (arp_table a) = Some i"
    and hw: "hw = ae_ethaddr (arp_table a ! i)"
    using assms(2) by (auto simp: arp_lookup_def)
  then have "i < length (arp_table a)"
    using first_index_Some by blast
  then show ?thesis
    using assms(1) hw by (auto simp: arp_inv_def arp_wf_def list_all_length)
qed

text \<open>The timer on a single entry.\<close>

lemma uip_arp_timer_table:
  "length (arp_table (uip_arp_timer a)) = length (arp_table a)"
  "i < length (arp_table a) \<Longrightarrow> arp_table (uip_arp_timer a) ! i =
     (if ae_ipaddr (arp_table a ! i) \<noteq> (0, 0) \<and> arp_age (arptime a + 1) (arp_table a ! i) \<ge> UIP_ARP_MAXAGE
      then (arp_table a ! i)\<lparr>ae_ipaddr := (0, 0)\<rparr> else arp_table a ! i)"
  "arptime (uip_arp_timer a) = arptime a + 1"
proof -
  have zero: "(fst x OR snd x = 0) \<longleftrightarrow> x = (0, 0)" for x :: ip4addr
    by (cases x) (simp add: or_eq_0_iff)
  show "length (arp_table (uip_arp_timer a)) = length (arp_table a)"
    "arptime (uip_arp_timer a) = arptime a + 1"
    by (simp_all add: uip_arp_timer_def Let_def)
  show "i < length (arp_table a) \<Longrightarrow> arp_table (uip_arp_timer a) ! i =
     (if ae_ipaddr (arp_table a ! i) \<noteq> (0, 0) \<and> arp_age (arptime a + 1) (arp_table a ! i) \<ge> UIP_ARP_MAXAGE
      then (arp_table a ! i)\<lparr>ae_ipaddr := (0, 0)\<rparr> else arp_table a ! i)"
    by (simp add: uip_arp_timer_def Let_def zero)
qed

lemma uip_arp_timer_iterate:
  "length (arp_table ((uip_arp_timer ^^ n) a)) = length (arp_table a)"
  "arptime ((uip_arp_timer ^^ n) a) = arptime a + of_nat n"
  by (induction n) (simp_all add: uip_arp_timer_table ac_simps)

lemma uip_arp_timer_keeps:
  assumes "i < length (arp_table a)" and "\<And>m. 0 < m \<Longrightarrow> m \<le> n \<Longrightarrow> arp_age (arptime a + of_nat m) (arp_table a ! i) < 120"
  shows "arp_table ((uip_arp_timer ^^ n) a) ! i = arp_table a ! i"
  using assms(2)
proof (induction n)
  case (Suc n)
  have "arp_age (arptime a + of_nat n + 1) (arp_table a ! i) < 120"
    using Suc.prems [of "Suc n"] by (simp add: ac_simps)
  then show ?case
    using Suc assms(1) by (auto simp: uip_arp_timer_table uip_arp_timer_iterate)
qed simp

lemma arp_inv_timer: "arp_inv a \<Longrightarrow> arp_inv (uip_arp_timer a)"
  by (auto simp: arp_inv_def arp_wf_def arp_uniq_def list_all_length uip_arp_timer_table arp_usable_def)

text \<open>The table in static storage.\<close>

definition arp_bss :: arp where
  "arp_bss = \<lparr>arp_table = replicate UIP_ARPTAB_SIZE \<lparr>ae_ipaddr = (0, 0), ae_ethaddr = replicate 6 0, ae_time = 0\<rparr>,
     arptime = 0\<rparr>"

lemma arp_inv_bss: "arp_inv arp_bss"
  by (simp add: arp_inv_def arp_wf_def arp_uniq_def arp_bss_def list_all_length arp_usable_def)

lemma arp_inv_init: "arp_wf a \<Longrightarrow> arp_inv (uip_arp_init a)"
  by (simp add: arp_inv_def arp_wf_def arp_uniq_def uip_arp_init_def list_all_length arp_usable_def)

text \<open>A table with one entry, set at time \<open>t\<close>.\<close>

definition arp_one :: "u8 \<Rightarrow> arp" where
  "arp_one t = arp_bss\<lparr>arp_table := (arp_table arp_bss)[0 := \<lparr>ae_ipaddr = (1, 1), ae_ethaddr = replicate 6 1, ae_time = t\<rparr>],
     arptime := t\<rparr>"

text \<open>Two announcements for one address, and a request from 1.0.1.0 for the host 2.0.2.0.\<close>

definition told_twice :: "(ip4addr \<times> bytes) list" where
  "told_twice = [((1, 1), replicate 6 1), ((2, 2), replicate 6 3), ((1, 1), replicate 6 2)]"

definition arp_probe :: uip where
  "arp_probe = set_bytes a_shwaddr (replicate 6 7) (set_addr a_sipaddr (1, 1) (set_addr a_dipaddr (2, 2)
     (set16 a_opcode (HTONS ARP_REQUEST) ((uip_bss ())\<lparr>uip_len := sizeof_arp_hdr, uip_hostaddr := (2, 2),
       uip_netmask := (0xffff, 0xffff), uip_draddr := (9, 9)\<rparr>))))"

section \<open>Properties\<close>

text \<open>
  C25: an entry that was set at time \<open>t \<le> 135\<close> answers for the next 119 calls of the ARP timer and is
  removed by the 120th.
\<close>

theorem arp_entry_expires:
  assumes "i < length (arp_table a)" and "ae_time (arp_table a ! i) = arptime a" and "unat (arptime a) \<le> 135"
    and "ae_ipaddr (arp_table a ! i) \<noteq> (0, 0)"
  shows "(\<forall>n < 120. arp_table ((uip_arp_timer ^^ n) a) ! i = arp_table a ! i) \<and>
    ae_ipaddr (arp_table ((uip_arp_timer ^^ 120) a) ! i) = (0, 0)"
proof -
  have age: "arp_age (arptime a + of_nat m) (arp_table a ! i) = int m" if "m \<le> 120" for m
  proof -
    have "unat (of_nat m :: u8) = m"
      using that by (simp add: unat_of_nat)
    then show ?thesis
      using that assms(2,3) by (simp add: arp_age_def unat_add_wrap)
  qed
  have keep: "arp_table ((uip_arp_timer ^^ n) a) ! i = arp_table a ! i" if "n < 120" for n
    using that assms(1) by (intro uip_arp_timer_keeps) (auto simp: age)
  have "arp_age (arptime a + of_nat 119 + 1) (arp_table a ! i) = 120"
    using age [of 120] by (simp add: ac_simps)
  then have "ae_ipaddr (arp_table (uip_arp_timer ((uip_arp_timer ^^ 119) a)) ! i) = (0, 0)"
    using assms(1,4) keep [of 119] by (simp only: uip_arp_timer_table uip_arp_timer_iterate) simp
  then have "ae_ipaddr (arp_table ((uip_arp_timer ^^ 120) a) ! i) = (0, 0)"
    by (simp add: eval_nat_numeral)
  with keep show ?thesis by blast
qed

theorem arp_entry_expires_witness:
  "ae_ipaddr (arp_table ((uip_arp_timer ^^ 120) (arp_one 5)) ! 0) = (0, 0)"
  using arp_entry_expires [of 0 "arp_one 5"] by (simp add: arp_one_def arp_bss_def)

text \<open>
  An entry that was set at time 136 or later never expires, however often the timer runs: the
  8-bit clock wraps around before the difference of the promoted integers reaches the maximum age.
\<close>

lemma arp_entry_never_expires:
  assumes "i < length (arp_table a)" and "136 \<le> unat (ae_time (arp_table a ! i))"
  shows "arp_table ((uip_arp_timer ^^ n) a) ! i = arp_table a ! i"
proof (rule uip_arp_timer_keeps [OF assms(1)])
  fix m
  have "unat (arptime a + of_nat m) < 256" by (rule unat_u8_less)
  then show "arp_age (arptime a + of_nat m) (arp_table a ! i) < 120"
    using assms(2) unfolding arp_age_def by linarith
qed

text \<open>
  C22: the ARP table is a cache of the eight addresses set last. For addresses with both halves non-zero (the code takes any other
  for a free slot or fails to find it again): after any sequence of mappings, the last one is found; every address is answered by the
  mapping told last for it, or by what the table answered before if none was, or not at all; and none is missing if the addresses told and
  those held before are at most eight. A further mapping for a new address displaces, in a full table, exactly one entry, whose age by the
  module's clock is the greatest (or not positive, if none is).
\<close>

theorem arp_table_latest:
  assumes "arp_inv a" and "\<forall>(ip, hw) \<in> set us. length hw = 6 \<and> arp_usable ip" and "arp_usable q"
    and b: "b = fold (\<lambda>(ip, hw). uip_arp_update ip hw) us a"
  shows "(us \<noteq> [] \<longrightarrow> arp_lookup b (fst (last us)) = Some (snd (last us))) \<and>
    (arp_lookup b q = None \<or> arp_lookup b q = (arp_lookup a ++ map_of (rev us)) q) \<and>
    (arp_tidy a \<and> card (arp_held a \<union> fst ` set us) \<le> UIP_ARPTAB_SIZE \<longrightarrow> arp_lookup b q = (arp_lookup a ++ map_of (rev us)) q) \<and>
    (length hw = 6 \<and> (\<forall>e \<in> set (arp_table b). ae_ipaddr e \<noteq> ip \<and> ae_ipaddr e \<noteq> (0, 0)) \<longrightarrow>
      (\<exists>v \<in> set (arp_table b). (\<forall>e \<in> set (arp_table b). arp_age (arptime b) e \<le> max 0 (arp_age (arptime b) v)) \<and>
        (\<forall>q. arp_usable q \<and> q \<noteq> ip \<longrightarrow> arp_lookup (uip_arp_update ip hw b) q = (if q = ae_ipaddr v then None else arp_lookup b q))))"
proof (intro conjI impI)
  have us: "\<forall>(ip, hw) \<in> set us. length hw = 6" using assms(2) by auto
  have b': "b = arp_cache.learn us a" by (simp add: b arp_cache.learn_def)
  have inv: "arp_inv b" unfolding b' using assms(1) us by (rule arp_cache.inv_learn)
  show "arp_lookup b (fst (last us)) = Some (snd (last us))" if "us \<noteq> []"
    unfolding b' using that assms(1,2) by (intro arp_cache.learn_last) auto
  show "arp_lookup b q = None \<or> arp_lookup b q = (arp_lookup a ++ map_of (rev us)) q"
    using arp_cache.learn_latest [OF assms(1) us assms(3)] unfolding b' by (cases "arp_lookup (arp_cache.learn us a) q") (auto simp: map_add_def)
  show "arp_lookup b q = (arp_lookup a ++ map_of (rev us)) q" if "arp_tidy a \<and> card (arp_held a \<union> fst ` set us) \<le> 8"
    unfolding b' using arp_room.learn_all [OF assms(1) _ assms(2)] that assms(3) by blast
  show "\<exists>v \<in> set (arp_table b). (\<forall>e \<in> set (arp_table b). arp_age (arptime b) e \<le> max 0 (arp_age (arptime b) v)) \<and>
        (\<forall>q. arp_usable q \<and> q \<noteq> ip \<longrightarrow> arp_lookup (uip_arp_update ip hw b) q = (if q = ae_ipaddr v then None else arp_lookup b q))"
    if "length hw = 6 \<and> (\<forall>e \<in> set (arp_table b). ae_ipaddr e \<noteq> ip \<and> ae_ipaddr e \<noteq> (0, 0))"
    using arp_evicts_oldest [OF inv] that by blast
qed

theorem arp_table_latest_witness:
  "arp_lookup (fold (\<lambda>(ip, hw). uip_arp_update ip hw) told_twice arp_bss) (1, 1) = Some (replicate 6 2) \<and>
   arp_lookup (fold (\<lambda>(ip, hw). uip_arp_update ip hw) told_twice arp_bss) (2, 2) = Some (replicate 6 3)"
proof -
  have "arp_tidy arp_bss" "arp_held arp_bss = {}" by (simp_all add: arp_tidy_def arp_held_def arp_bss_def)
  moreover have "\<forall>(ip, hw) \<in> set told_twice. length hw = 6 \<and> arp_usable ip" "arp_usable (2, 2)" by (simp_all add: told_twice_def arp_usable_def)
  note arp_table_latest [OF arp_inv_bss this refl]
  moreover have "card (fst ` set told_twice) \<le> 8" using card_image_le [of "set told_twice" fst] card_length [of told_twice] by (simp add: told_twice_def)
  ultimately show ?thesis by (simp add: told_twice_def map_add_def)
qed

text \<open>
  C24: an ARP request for the host's address is answered. The frame in the buffer is then an ARP reply of
  42 bytes from the host's hardware and IP address to those of the sender, and the ARP table has learnt the
  sender's address: the next IP packet to the sender goes out as an Ethernet frame to that hardware address,
  with the IP packet unchanged behind the Ethernet header.
\<close>

theorem arp_request_answered:
  assumes wf: "uip_wf s" "arp_inv a"
    and req: "uip_len s \<ge> sizeof_arp_hdr" "buf16 s a_opcode = HTONS ARP_REQUEST"
      "buf_addr s a_dipaddr = uip_hostaddr s"
    and a': "uip_arp_arpin (a, s) = (a', s')"
  shows "uip_len s' = sizeof_arp_hdr \<and> buf16 s' a_opcode = HTONS ARP_REPLY \<and>
    buf_hw s' e_dest = buf_hw s a_shwaddr \<and> buf_hw s' e_src = uip_ethaddr s \<and>
    buf16 s' e_type = HTONS UIP_ETHTYPE_ARP \<and>
    buf_hw s' a_shwaddr = uip_ethaddr s \<and> buf_addr s' a_sipaddr = uip_hostaddr s \<and>
    buf_hw s' a_dhwaddr = buf_hw s a_shwaddr \<and> buf_addr s' a_dipaddr = buf_addr s a_sipaddr \<and>
    arp_inv a' \<and>
    (\<forall>t :: 'a uip_scheme. uip_wf t \<and> arp_usable (buf_addr s a_sipaddr) \<and>
       next_hop t = buf_addr s a_sipaddr \<and> buf_addr t o_destipaddr \<noteq> broadcast_ipaddr \<longrightarrow>
       buf_hw (uip_arp_out a' t) e_dest = buf_hw s a_shwaddr \<and>
       uip_len (uip_arp_out a' t) = uip_len t + sizeof_eth_hdr \<and>
       (\<forall>i \<ge> 14. buf8 (uip_arp_out a' t) i = buf8 t i))"
proof -
  note L = uip_wf_lengths(1,4) [OF wf(1)]
  have a: "a' = uip_arp_update (buf_addr s a_sipaddr) (buf_hw s a_shwaddr) a" and s: "s' = arp_reply (s\<lparr>uip_len := 0\<rparr>)"
    using a' req by (auto simp: uip_arp_arpin_def Let_def uip_ipaddr_cmp_def not_less [symmetric])
  have hw: "length (buf_hw s a_shwaddr) = 6" using L by simp
  have inv: "arp_inv a'" unfolding a by (rule arp_inv_update [OF wf(2) hw])
  have "uip_arp_out a' t = eth_header (buf_hw s a_shwaddr) t"
    if "arp_usable (buf_addr s a_sipaddr)" "next_hop t = buf_addr s a_sipaddr"
      "buf_addr t o_destipaddr \<noteq> broadcast_ipaddr" for t :: "'a uip_scheme"
    using that arp_lookup_update(1) [OF wf(2) hw]
    by (auto simp: uip_arp_out_lookup a uip_ipaddr_cmp_def prod_eq_iff)
  then show ?thesis
    using inv hw L wf
    by (simp add: s arp_reply_fields eth_header_fields uip_wf_lengths)
qed

theorem arp_request_answered_witness:
  "uip_len (snd (uip_arp_arpin (arp_bss, arp_probe))) = 42 \<and>
   buf_hw (snd (uip_arp_arpin (arp_bss, arp_probe))) e_dest = replicate 6 7"
proof -
  have wf: "uip_wf arp_probe"
    by code_simp
  have req: "uip_len arp_probe \<ge> 42" "buf16 arp_probe a_opcode = HTONS 1"
    "buf_addr arp_probe a_dipaddr = uip_hostaddr arp_probe" "buf_hw arp_probe a_shwaddr = replicate 6 7"
    by code_simp+
  show ?thesis
    using arp_request_answered [OF wf arp_inv_bss req(1-3) prod.collapse [symmetric]] req(4) by metis
qed

text \<open>
  C23: \<^verbatim>\<open>uip_arp_out()\<close> either prepends an Ethernet header to the packet, with the hardware address of the
  next hop (the destination if it is on the local network, the default router otherwise; the broadcast address
  for a broadcast) and 14 bytes added to the length, the packet itself unchanged; or, if the next hop is not in
  the table, replaces the packet by a broadcast ARP request for the next hop.
\<close>

theorem arp_out_correct:
  assumes "uip_wf s" and "arp_inv a"
  shows "case (if buf_addr s o_destipaddr = broadcast_ipaddr then Some broadcast_ethaddr
               else arp_lookup a (if uip_ipaddr_maskcmp (buf_addr s o_destipaddr) (uip_hostaddr s) (uip_netmask s)
                                  then buf_addr s o_destipaddr else uip_draddr s)) of
      Some hw \<Rightarrow>
        buf_hw (uip_arp_out a s) e_dest = hw \<and> buf_hw (uip_arp_out a s) e_src = uip_ethaddr s \<and>
        buf16 (uip_arp_out a s) e_type = HTONS UIP_ETHTYPE_IP \<and>
        uip_len (uip_arp_out a s) = uip_len s + sizeof_eth_hdr \<and>
        (\<forall>i \<ge> 14. buf8 (uip_arp_out a s) i = buf8 s i)
    | None \<Rightarrow>
        uip_len (uip_arp_out a s) = sizeof_arp_hdr \<and>
        buf_hw (uip_arp_out a s) e_dest = broadcast_ethaddr \<and> buf_hw (uip_arp_out a s) e_src = uip_ethaddr s \<and>
        buf16 (uip_arp_out a s) e_type = HTONS UIP_ETHTYPE_ARP \<and>
        buf16 (uip_arp_out a s) a_opcode = HTONS ARP_REQUEST \<and>
        buf_hw (uip_arp_out a s) a_shwaddr = uip_ethaddr s \<and>
        buf_addr (uip_arp_out a s) a_sipaddr = uip_hostaddr s \<and>
        buf_addr (uip_arp_out a s) a_dipaddr =
          (if uip_ipaddr_maskcmp (buf_addr s o_destipaddr) (uip_hostaddr s) (uip_netmask s)
           then buf_addr s o_destipaddr else uip_draddr s)"
proof -
  note L = uip_wf_lengths(1,4) [OF assms(1)]
  have hop: "(if uip_ipaddr_maskcmp (buf_addr s o_destipaddr) (uip_hostaddr s) (uip_netmask s)
     then buf_addr s o_destipaddr else uip_draddr s) = next_hop s"
    by (simp add: next_hop_def)
  have cmp: "uip_ipaddr_cmp x y \<longleftrightarrow> x = y" for x y
    by (simp add: uip_ipaddr_cmp_def prod_eq_iff)
  have bc: "length broadcast_ethaddr = 6"
    by (simp add: broadcast_ethaddr_def)
  show ?thesis
    unfolding hop
    by (cases "buf_addr s o_destipaddr = broadcast_ipaddr"; cases "arp_lookup a (next_hop s)")
      (simp_all add: uip_arp_out_lookup cmp eth_header_fields arp_request_fields L bc
        arp_lookup_length [OF assms(2)])
qed

theorem arp_out_correct_witness:
  "uip_len (uip_arp_out arp_bss arp_probe) = 42 \<and> buf_addr (uip_arp_out arp_bss arp_probe) a_dipaddr = (9, 9)"
proof -
  have wf: "uip_wf arp_probe"
    by code_simp
  have dest: "buf_addr arp_probe o_destipaddr \<noteq> broadcast_ipaddr" "arp_lookup arp_bss (9, 9) = None"
    "\<not> uip_ipaddr_maskcmp (buf_addr arp_probe o_destipaddr) (uip_hostaddr arp_probe) (uip_netmask arp_probe)"
    "uip_draddr arp_probe = (9, 9)"
    by code_simp+
  show ?thesis
    using arp_out_correct [OF wf arp_inv_bss] dest by simp
qed

end
