(* ===== verification/Dev_Net.thy ===== *)
theory Dev_Net
  imports Prelude
begin

text \<open>
  \<^verbatim>\<open>earth/dev_net.c\<close>: the e1000 driver. Its descriptor rings and packet buffers are memory it shares with
  the device, and its registers are the device's. The device, which is not part of the program, is an argument
  \<open>dev\<close> of the definitions that look at shared memory: from what it can see it determines what it writes by
  DMA, and its own next state. The driver sees such writes at the entry of \<^verbatim>\<open>net_send()\<close> and
  \<^verbatim>\<open>net_recv()\<close>, at every turn of a wait loop, and at every read of a register.
\<close>

section \<open>Data\<close>

abbreviation (input) PCI_VENDOR_DEVICE :: u32 where "PCI_VENDOR_DEVICE \<equiv> 0x00"
abbreviation (input) PCI_COMMAND :: u32 where "PCI_COMMAND \<equiv> 0x04"
abbreviation (input) PCI_BAR0 :: u32 where "PCI_BAR0 \<equiv> 0x10"
abbreviation (input) PCI_COMMAND_IO_EN :: u32 where "PCI_COMMAND_IO_EN \<equiv> 1"
abbreviation (input) PCI_COMMAND_MEM_EN :: u32 where "PCI_COMMAND_MEM_EN \<equiv> push_bit 1 1"
abbreviation (input) PCI_COMMAND_BUSMASTER :: u32 where "PCI_COMMAND_BUSMASTER \<equiv> push_bit 2 1"
abbreviation (input) E1000_VENDOR_ID :: u16 where "E1000_VENDOR_ID \<equiv> 0x8086"
abbreviation (input) E1000_DEVICE_ID :: u16 where "E1000_DEVICE_ID \<equiv> 0x100e"

abbreviation (input) E1000_CTRL :: u32 where "E1000_CTRL \<equiv> 0x00000"
abbreviation (input) E1000_EECD :: u32 where "E1000_EECD \<equiv> 0x00010"
abbreviation (input) E1000_TCTL :: u32 where "E1000_TCTL \<equiv> 0x00400"
abbreviation (input) E1000_TIPG :: u32 where "E1000_TIPG \<equiv> 0x00410"
abbreviation (input) E1000_TDBAL :: u32 where "E1000_TDBAL \<equiv> 0x03800"
abbreviation (input) E1000_TDBAH :: u32 where "E1000_TDBAH \<equiv> 0x03804"
abbreviation (input) E1000_TDLEN :: u32 where "E1000_TDLEN \<equiv> 0x03808"
abbreviation (input) E1000_TDH :: u32 where "E1000_TDH \<equiv> 0x03810"
abbreviation (input) E1000_TDT :: u32 where "E1000_TDT \<equiv> 0x03818"
abbreviation (input) E1000_RCTL :: u32 where "E1000_RCTL \<equiv> 0x00100"
abbreviation (input) E1000_RDBAL :: u32 where "E1000_RDBAL \<equiv> 0x02800"
abbreviation (input) E1000_RDBAH :: u32 where "E1000_RDBAH \<equiv> 0x02804"
abbreviation (input) E1000_RDLEN :: u32 where "E1000_RDLEN \<equiv> 0x02808"
abbreviation (input) E1000_RDH :: u32 where "E1000_RDH \<equiv> 0x02810"
abbreviation (input) E1000_RDT :: u32 where "E1000_RDT \<equiv> 0x02818"
abbreviation (input) E1000_MTA :: u32 where "E1000_MTA \<equiv> 0x05200"
abbreviation (input) E1000_RAL :: u32 where "E1000_RAL \<equiv> 0x05400"
abbreviation (input) E1000_RAH :: u32 where "E1000_RAH \<equiv> 0x05404"

abbreviation (input) E1000_CTRL_RST :: u32 where "E1000_CTRL_RST \<equiv> push_bit 26 1"
abbreviation (input) E1000_CTRL_SLU :: u32 where "E1000_CTRL_SLU \<equiv> push_bit 6 1"
abbreviation (input) E1000_CTRL_ASDE :: u32 where "E1000_CTRL_ASDE \<equiv> push_bit 5 1"
abbreviation (input) E1000_EECD_AUTO_RD :: u32 where "E1000_EECD_AUTO_RD \<equiv> push_bit 9 1"
abbreviation (input) E1000_TCTL_EN :: u32 where "E1000_TCTL_EN \<equiv> push_bit 1 1"
abbreviation (input) E1000_TCTL_PSP :: u32 where "E1000_TCTL_PSP \<equiv> push_bit 3 1"
abbreviation (input) E1000_RCTL_EN :: u32 where "E1000_RCTL_EN \<equiv> push_bit 1 1"
abbreviation (input) E1000_RCTL_SBP :: u32 where "E1000_RCTL_SBP \<equiv> push_bit 2 1"
abbreviation (input) E1000_RCTL_UPE :: u32 where "E1000_RCTL_UPE \<equiv> push_bit 3 1"
abbreviation (input) E1000_RCTL_MPE :: u32 where "E1000_RCTL_MPE \<equiv> push_bit 4 1"
abbreviation (input) E1000_RCTL_BAM :: u32 where "E1000_RCTL_BAM \<equiv> push_bit 15 1"
abbreviation (input) E1000_RCTL_SECRC :: u32 where "E1000_RCTL_SECRC \<equiv> push_bit 26 1"
abbreviation (input) E1000_RAH_AV :: u32 where "E1000_RAH_AV \<equiv> push_bit 31 1"
abbreviation (input) E1000_RCTL_BSIZE_2048 :: u32 where "E1000_RCTL_BSIZE_2048 \<equiv> push_bit 16 0"
abbreviation (input) E1000_TCTL_CT_SHIFT :: nat where "E1000_TCTL_CT_SHIFT \<equiv> 4"
abbreviation (input) E1000_TCTL_COLD_SHIFT :: nat where "E1000_TCTL_COLD_SHIFT \<equiv> 12"

abbreviation (input) E1000_TXD_STAT_DD :: u8 where "E1000_TXD_STAT_DD \<equiv> 1"
abbreviation (input) E1000_RXD_STAT_DD :: u8 where "E1000_RXD_STAT_DD \<equiv> 1"
abbreviation (input) E1000_RXD_STAT_EOP :: u8 where "E1000_RXD_STAT_EOP \<equiv> 2"
abbreviation (input) E1000_TXD_CMD_EOP :: u8 where "E1000_TXD_CMD_EOP \<equiv> 1"
abbreviation (input) E1000_TXD_CMD_IFCS :: u8 where "E1000_TXD_CMD_IFCS \<equiv> 2"
abbreviation (input) E1000_TXD_CMD_RS :: u8 where "E1000_TXD_CMD_RS \<equiv> 8"

abbreviation (input) RING_SIZE :: nat where "RING_SIZE \<equiv> 16"
abbreviation (input) PKT_BUF_SIZE :: nat where "PKT_BUF_SIZE \<equiv> 2048"
abbreviation (input) E1000_TX_WAIT_SPINS :: nat where "E1000_TX_WAIT_SPINS \<equiv> 2 ^ 24"

record e1000_tx_desc =
  td_buffer_addr :: "64 word"
  td_length :: u16
  td_cso :: u8
  td_cmd :: u8
  td_status :: u8
  td_css :: u8
  td_special :: u16

record e1000_rx_desc =
  rd_buffer_addr :: "64 word"
  rd_length :: u16
  rd_csum :: u16
  rd_status :: u8
  rd_errors :: u8
  rd_special :: u16

text \<open>
  The driver's variables, the registers of the device (by offset from \<^verbatim>\<open>net_mmio_base\<close>), its PCI
  configuration space, the device's own state, and the addresses the linker gave the arrays. The last flag
  records that \<^verbatim>\<open>net_init()\<close> has stored its functions in \<^verbatim>\<open>struct earth\<close>.
\<close>

record 'h e1000 =
  net_mmio_base :: u32
  tx_ring :: "e1000_tx_desc list"
  rx_ring :: "e1000_rx_desc list"
  tx_bufs :: "bytes list"
  rx_bufs :: "bytes list"
  tx_index :: nat
  rx_index :: nat
  regs :: "u32 \<Rightarrow> u32"
  pci_cfg :: "u32 \<Rightarrow> u32"
  tx_ring_at :: u32
  rx_ring_at :: u32
  tx_bufs_at :: u32
  rx_bufs_at :: u32
  hw :: 'h
  earth_net_set :: bool

section \<open>The device\<close>

text \<open>
  What the device writes in one step: the status of transmit descriptors; length, status and contents of
  receive descriptors and their buffers (of which it fills at most \<^verbatim>\<open>E1000_RX_BUF_SIZE\<close> bytes, the size the
  receive control register gives); and registers.
\<close>

record dma =
  dma_tx :: "nat \<Rightarrow> u8 option"
  dma_rx :: "nat \<Rightarrow> (u16 \<times> u8 \<times> bytes) option"
  dma_regs :: "u32 \<Rightarrow> u32 option"

type_synonym 'h nic = "'h e1000 \<Rightarrow> dma \<times> 'h"

definition dma_tx_desc :: "dma \<Rightarrow> nat \<Rightarrow> e1000_tx_desc \<Rightarrow> e1000_tx_desc" where
  "dma_tx_desc d i t = (case dma_tx d i of None \<Rightarrow> t | Some st \<Rightarrow> t\<lparr>td_status := st\<rparr>)"

definition dma_rx_desc :: "dma \<Rightarrow> nat \<Rightarrow> e1000_rx_desc \<Rightarrow> e1000_rx_desc" where
  "dma_rx_desc d i t = (case dma_rx d i of None \<Rightarrow> t | Some (n, st, _) \<Rightarrow> t\<lparr>rd_length := n, rd_status := st\<rparr>)"

definition dma_rx_buf :: "dma \<Rightarrow> nat \<Rightarrow> bytes \<Rightarrow> bytes" where
  "dma_rx_buf d i b = (case dma_rx d i of None \<Rightarrow> b | Some (_, _, c) \<Rightarrow> take PKT_BUF_SIZE c @ drop (length c) b)"

definition map_index :: "(nat \<Rightarrow> 'a \<Rightarrow> 'b) \<Rightarrow> 'a list \<Rightarrow> 'b list" where
  "map_index f xs = map (\<lambda>(i, x). f i x) (zip [0..<length xs] xs)"

definition dev_step :: "'h nic \<Rightarrow> 'h e1000 \<Rightarrow> 'h e1000" where
  "dev_step dev s =
     (let (d, h) = dev s
      in s\<lparr>tx_ring := map_index (dma_tx_desc d) (tx_ring s),
           rx_ring := map_index (dma_rx_desc d) (rx_ring s),
           rx_bufs := map_index (dma_rx_buf d) (rx_bufs s),
           regs := (\<lambda>r. case dma_regs d r of None \<Rightarrow> regs s r | Some v \<Rightarrow> v),
           hw := h\<rparr>)"

section \<open>Registers\<close>

definition e1000_dma_addr :: "u32 \<Rightarrow> 64 word" where
  "e1000_dma_addr ptr = ucast ptr"

definition e1000_read :: "'h nic \<Rightarrow> u32 \<Rightarrow> 'h e1000 \<Rightarrow> u32 \<times> 'h e1000" where
  "e1000_read dev reg s = (let s = dev_step dev s in (regs s reg, s))"

definition e1000_write :: "u32 \<Rightarrow> u32 \<Rightarrow> 'h e1000 \<Rightarrow> 'h e1000" where
  "e1000_write reg v s = s\<lparr>regs := (regs s)(reg := v)\<rparr>"

section \<open>Initialisation\<close>

fun reset_wait :: "'h nic \<Rightarrow> nat \<Rightarrow> 'h e1000 \<Rightarrow> 'h e1000" where
  "reset_wait dev 0 s = s"
| "reset_wait dev (Suc timeout) s =
     (let (v, s) = e1000_read dev E1000_EECD s
      in if v AND E1000_EECD_AUTO_RD \<noteq> 0 then s else reset_wait dev timeout s)"

definition e1000_reset :: "'h nic \<Rightarrow> 'h e1000 \<Rightarrow> 'h e1000" where
  "e1000_reset dev s =
     (let (ctrl, s) = e1000_read dev E1000_CTRL s;
          s = e1000_write E1000_CTRL (ctrl OR E1000_CTRL_RST) s
      in reset_wait dev 1000000 s)"

definition egos_mac :: bytes where
  "egos_mac = [0x52, 0x54, 0x00, 0x00, 0x00, 0x01]"

definition e1000_set_mac :: "'h e1000 \<Rightarrow> 'h e1000" where
  "e1000_set_mac s =
     (let ral = ucast (egos_mac ! 0) OR push_bit 8 (ucast (egos_mac ! 1)) OR
                push_bit 16 (ucast (egos_mac ! 2)) OR push_bit 24 (ucast (egos_mac ! 3));
          rah = ucast (egos_mac ! 4) OR push_bit 8 (ucast (egos_mac ! 5)) OR E1000_RAH_AV
      in e1000_write E1000_RAH rah (e1000_write E1000_RAL ral s))"

definition e1000_clear_mta :: "'h e1000 \<Rightarrow> 'h e1000" where
  "e1000_clear_mta s = fold (\<lambda>i. e1000_write (E1000_MTA + of_nat i * 4) 0) [0..<128] s"

definition e1000_configure_ctrl :: "'h nic \<Rightarrow> 'h e1000 \<Rightarrow> 'h e1000" where
  "e1000_configure_ctrl dev s =
     (let (ctrl, s) = e1000_read dev E1000_CTRL s
      in e1000_write E1000_CTRL (ctrl OR (E1000_CTRL_SLU OR E1000_CTRL_ASDE)) s)"

definition tx_buf_addr :: "'h e1000 \<Rightarrow> nat \<Rightarrow> 64 word" where
  "tx_buf_addr s i = e1000_dma_addr (tx_bufs_at s + of_nat (PKT_BUF_SIZE * i))"

definition rx_buf_addr :: "'h e1000 \<Rightarrow> nat \<Rightarrow> 64 word" where
  "rx_buf_addr s i = e1000_dma_addr (rx_bufs_at s + of_nat (PKT_BUF_SIZE * i))"

definition e1000_tx_init :: "'h e1000 \<Rightarrow> 'h e1000" where
  "e1000_tx_init s =
     (let s = s\<lparr>tx_ring := map (\<lambda>i. \<lparr>td_buffer_addr = tx_buf_addr s i, td_length = 0, td_cso = 0, td_cmd = 0,
                  td_status = E1000_TXD_STAT_DD, td_css = 0, td_special = 0\<rparr>) [0..<RING_SIZE],
                tx_index := 0\<rparr>;
          s = e1000_write E1000_TDBAL (ucast (e1000_dma_addr (tx_ring_at s))) s;
          s = e1000_write E1000_TDBAH 0 s;
          s = e1000_write E1000_TDLEN (16 * 16) s;
          s = e1000_write E1000_TDH 0 s;
          s = e1000_write E1000_TDT 0 s;
          s = e1000_write E1000_TCTL (E1000_TCTL_EN OR E1000_TCTL_PSP OR push_bit E1000_TCTL_CT_SHIFT 0x10 OR push_bit E1000_TCTL_COLD_SHIFT 0x40) s
      in e1000_write E1000_TIPG 0x0060200A s)"

definition e1000_rx_init :: "'h e1000 \<Rightarrow> 'h e1000" where
  "e1000_rx_init s =
     (let s = s\<lparr>rx_ring := map (\<lambda>i. \<lparr>rd_buffer_addr = rx_buf_addr s i, rd_length = 0, rd_csum = 0, rd_status = 0,
                  rd_errors = 0, rd_special = 0\<rparr>) [0..<RING_SIZE],
                rx_index := 0\<rparr>;
          s = e1000_write E1000_RDBAL (ucast (e1000_dma_addr (rx_ring_at s))) s;
          s = e1000_write E1000_RDBAH 0 s;
          s = e1000_write E1000_RDLEN (16 * 16) s;
          s = e1000_write E1000_RDH 0 s;
          s = e1000_write E1000_RDT (of_nat (RING_SIZE - 1)) s
      in e1000_write E1000_RCTL
           (E1000_RCTL_EN OR E1000_RCTL_SBP OR E1000_RCTL_UPE OR E1000_RCTL_MPE OR E1000_RCTL_BAM OR E1000_RCTL_SECRC OR
            E1000_RCTL_BSIZE_2048) s)"

definition pci_cfg_read :: "u32 \<Rightarrow> 'h e1000 \<Rightarrow> u32" where
  "pci_cfg_read offset s = pci_cfg s offset"

text \<open>
  What a configuration register holds after a store is the device's choice: \<open>keeps offset value\<close>.
\<close>

definition pci_cfg_write :: "(u32 \<Rightarrow> u32 \<Rightarrow> u32) \<Rightarrow> u32 \<Rightarrow> u32 \<Rightarrow> 'h e1000 \<Rightarrow> 'h e1000" where
  "pci_cfg_write keeps offset v s = s\<lparr>pci_cfg := (pci_cfg s)(offset := keeps offset v)\<rparr>"

definition net_init :: "'h nic \<Rightarrow> (u32 \<Rightarrow> u32 \<Rightarrow> u32) \<Rightarrow> 'h e1000 \<Rightarrow> 'h e1000 res" where
  "net_init dev keeps s =
     (let vendor_device = pci_cfg_read PCI_VENDOR_DEVICE s;
          vendor_id = (ucast (vendor_device AND 0xffff) :: u16);
          device_id = (ucast (drop_bit 16 vendor_device) :: u16)
      in if vendor_id = 0xffff then Inl Fatal
         else if vendor_id \<noteq> E1000_VENDOR_ID then Inl Fatal
         else if device_id \<noteq> E1000_DEVICE_ID then Inl Fatal
         else
           let pci_command = pci_cfg_read PCI_COMMAND s;
               pci_command = pci_command OR (PCI_COMMAND_MEM_EN OR PCI_COMMAND_BUSMASTER);
               pci_command = pci_command AND NOT PCI_COMMAND_IO_EN;
               s = pci_cfg_write keeps PCI_COMMAND pci_command s;
               s = pci_cfg_write keeps PCI_BAR0 0x41000000 s;
               s = s\<lparr>net_mmio_base := pci_cfg_read PCI_BAR0 s AND NOT 0xf\<rparr>
           in if net_mmio_base s = 0 then Inl Fatal
              else
                let s = e1000_reset dev s;
                    s = e1000_configure_ctrl dev s;
                    s = e1000_set_mac s;
                    s = e1000_clear_mta s;
                    s = e1000_rx_init s;
                    s = e1000_tx_init s
                in Inr (s\<lparr>earth_net_set := True\<rparr>))"

section \<open>Sending and receiving\<close>

text \<open>The wait for the descriptor, \<open>n\<close> looks at its status before \<^verbatim>\<open>FATAL\<close>.\<close>

fun tx_wait :: "'h nic \<Rightarrow> nat \<Rightarrow> 'h e1000 \<Rightarrow> 'h e1000 res" where
  "tx_wait dev 0 s = Inl Fatal"
| "tx_wait dev (Suc n) s =
     (let s = dev_step dev s
      in if td_status (tx_ring s ! tx_index s) AND E1000_TXD_STAT_DD \<noteq> 0 then Inr s else tx_wait dev n s)"

definition tx_post :: "int \<Rightarrow> bytes \<Rightarrow> 'h e1000 \<Rightarrow> 'h e1000 res" where
  "tx_post len packet s =
     res_bind (mem_read packet 0 (nat len)) (\<lambda>d.
     res_bind (mem_write (tx_bufs s ! tx_index s) 0 d) (\<lambda>b.
       let s = s\<lparr>tx_bufs := (tx_bufs s)[tx_index s := b]\<rparr>;
           s = s\<lparr>tx_ring := (tx_ring s)[tx_index s :=
                 \<lparr>td_buffer_addr = tx_buf_addr s (tx_index s), td_length = word_of_int len, td_cso = 0,
                  td_cmd = E1000_TXD_CMD_EOP OR E1000_TXD_CMD_IFCS OR E1000_TXD_CMD_RS, td_status = 0, td_css = 0, td_special = 0\<rparr>]\<rparr>;
           next_index = (tx_index s + 1) mod RING_SIZE;
           s = e1000_write E1000_TDT (of_nat next_index) s
       in Inr (s\<lparr>tx_index := next_index\<rparr>)))"

definition net_send :: "'h nic \<Rightarrow> int \<Rightarrow> bytes \<Rightarrow> 'h e1000 \<Rightarrow> 'h e1000 res" where
  "net_send dev len packet s =
     (if \<not> len > 0 then Inl Fatal
      else if \<not> len \<le> int PKT_BUF_SIZE then Inl Fatal
      else res_bind (tx_wait dev E1000_TX_WAIT_SPINS s) (tx_post len packet))"

text \<open>
  \<^verbatim>\<open>net_recv(buffer)\<close> for \<^verbatim>\<open>buffer\<close> the array \<open>buf\<close> of the caller; the result is the returned length, the
  array afterwards and the driver's state.
\<close>

definition net_recv :: "'h nic \<Rightarrow> bytes \<Rightarrow> 'h e1000 \<Rightarrow> (int \<times> bytes \<times> 'h e1000) res" where
  "net_recv dev buf s =
     (let s = dev_step dev s;
          desc = rx_ring s ! rx_index s
      in if rd_status desc AND E1000_RXD_STAT_DD = 0 then Inr (0, buf, s)
         else if rd_status desc AND E1000_RXD_STAT_EOP = 0 then Inl Fatal
         else
           let len = int (unat (rd_length desc))
           in if \<not> len \<le> int PKT_BUF_SIZE then Inl Fatal
              else
                res_bind (mem_read (rx_bufs s ! rx_index s) 0 (nat len)) (\<lambda>d.
                res_bind (mem_write buf 0 d) (\<lambda>buf.
                  let s = s\<lparr>rx_ring := (rx_ring s)[rx_index s :=
                            desc\<lparr>rd_length := 0, rd_csum := 0, rd_status := 0, rd_errors := 0, rd_special := 0\<rparr>]\<rparr>;
                      s = e1000_write E1000_RDT (of_nat (rx_index s)) s
                  in Inr (len, buf, s\<lparr>rx_index := (rx_index s + 1) mod RING_SIZE\<rparr>))))"

section \<open>Invariant and abstraction\<close>

definition e1000_wf :: "'h e1000 \<Rightarrow> bool" where
  "e1000_wf s \<longleftrightarrow>
     length (tx_ring s) = RING_SIZE \<and> length (rx_ring s) = RING_SIZE \<and>
     length (tx_bufs s) = RING_SIZE \<and> length (rx_bufs s) = RING_SIZE \<and>
     list_all (\<lambda>b. length b = PKT_BUF_SIZE) (tx_bufs s) \<and> list_all (\<lambda>b. length b = PKT_BUF_SIZE) (rx_bufs s) \<and>
     tx_index s < RING_SIZE \<and> rx_index s < RING_SIZE"

text \<open>
  The transmit ring as a queue: the frames in the descriptors from the device's head to the driver's tail.
\<close>

definition tx_head :: "'h e1000 \<Rightarrow> nat" where
  "tx_head s = unat (regs s E1000_TDH)"

definition tx_inv :: "'h e1000 \<Rightarrow> bool" where
  "tx_inv s \<longleftrightarrow> e1000_wf s \<and> tx_head s < RING_SIZE \<and> regs s E1000_TDT = of_nat (tx_index s)"

definition tx_count :: "'h e1000 \<Rightarrow> nat" where
  "tx_count s = (RING_SIZE + tx_index s - tx_head s) mod RING_SIZE"

definition tx_frame :: "'h e1000 \<Rightarrow> nat \<Rightarrow> bytes" where
  "tx_frame s i = take (unat (td_length (tx_ring s ! i))) (tx_bufs s ! i)"

definition tx_pending :: "'h e1000 \<Rightarrow> bytes list" where
  "tx_pending s = map (\<lambda>k. tx_frame s ((tx_head s + k) mod RING_SIZE)) [0..<tx_count s]"

text \<open>
  What the manual of the device says of its transmit side: it leaves the tail register alone and advances
  the head register, within the ring and never past the tail.
\<close>

definition nic_tx_ok :: "'h nic \<Rightarrow> bool" where
  "nic_tx_ok dev \<longleftrightarrow>
     (\<forall>s. tx_inv s \<longrightarrow>
        regs (dev_step dev s) E1000_TDT = regs s E1000_TDT \<and>
        tx_head (dev_step dev s) < RING_SIZE \<and> tx_count (dev_step dev s) \<le> tx_count s)"

section \<open>Lemmas\<close>

lemma length_map_index [simp]: "length (map_index f xs) = length xs"
  by (simp add: map_index_def)

lemma nth_map_index [simp]: "i < length xs \<Longrightarrow> map_index f xs ! i = f i (xs ! i)"
  by (simp add: map_index_def)

lemma length_dma_rx_buf: "length b = PKT_BUF_SIZE \<Longrightarrow> length (dma_rx_buf d i b) = PKT_BUF_SIZE"
  by (auto simp: dma_rx_buf_def split: option.split)

lemma dev_step_frame [simp]:
  "tx_index (dev_step dev s) = tx_index s"
  "rx_index (dev_step dev s) = rx_index s"
  "tx_bufs (dev_step dev s) = tx_bufs s"
  "length (tx_ring (dev_step dev s)) = length (tx_ring s)"
  "length (rx_ring (dev_step dev s)) = length (rx_ring s)"
  "length (rx_bufs (dev_step dev s)) = length (rx_bufs s)"
  by (simp_all add: dev_step_def Let_def split: prod.split)

lemma dev_step_td_length [simp]:
  "i < length (tx_ring s) \<Longrightarrow> td_length (tx_ring (dev_step dev s) ! i) = td_length (tx_ring s ! i)"
  by (simp add: dev_step_def dma_tx_desc_def split: prod.split option.split)

lemma dev_step_wf: "e1000_wf s \<Longrightarrow> e1000_wf (dev_step dev s)"
  by (auto simp: e1000_wf_def list_all_length) (simp add: dev_step_def length_dma_rx_buf split: prod.split)

lemma tx_wait_wf: "tx_wait dev n s = Inr s' \<Longrightarrow> e1000_wf s \<Longrightarrow> e1000_wf s'"
  by (induction dev n s rule: tx_wait.induct) (auto simp: Let_def dev_step_wf split: if_splits)

lemma e1000_write_wf [simp]: "e1000_wf (e1000_write r v s) = e1000_wf s"
  by (simp add: e1000_wf_def e1000_write_def)

lemma tx_post_wf:
  assumes "tx_post len p s = Inr s'" and "e1000_wf s"
  shows "e1000_wf s'"
proof -
  obtain d b where d: "mem_read p 0 (nat len) = Inr d" and b: "mem_write (tx_bufs s ! tx_index s) 0 d = Inr b"
    using assms(1) unfolding tx_post_def by blast
  have "length b = PKT_BUF_SIZE"
    using length_mem_write [OF b] assms(2) by (simp add: e1000_wf_def list_all_length)
  then show ?thesis
    using assms by (auto simp: tx_post_def d b Let_def e1000_wf_def e1000_write_def list_all_length nth_list_update)
qed

lemma net_send_wf: "net_send dev len p s = Inr s' \<Longrightarrow> e1000_wf s \<Longrightarrow> e1000_wf s'"
  by (auto simp: net_send_def split: if_splits elim!: res_bind_InrE dest: tx_wait_wf tx_post_wf)

lemma net_send_bounds:
  assumes "net_send dev len p s = Inr s'"
  shows "0 < len \<and> len \<le> 2048 \<and> nat len \<le> length p"
  using assms by (auto simp: net_send_def tx_post_def mem_read_def split: if_splits elim!: res_bind_InrE)

lemma net_recv_wf:
  assumes "e1000_wf s" and "net_recv dev buf s = Inr (n, buf', s')"
  shows "e1000_wf s'" and "0 \<le> n \<and> n \<le> 2048 \<and> nat n \<le> length buf" and "length buf' = length buf"
    and "drop (nat n) buf' = drop (nat n) buf"
proof -
  have wf: "e1000_wf (dev_step dev s)" by (rule dev_step_wf [OF assms(1)])
  show "e1000_wf s'" "0 \<le> n \<and> n \<le> 2048 \<and> nat n \<le> length buf" "length buf' = length buf"
    "drop (nat n) buf' = drop (nat n) buf"
    using assms(2) wf
    by (auto simp: net_recv_def Let_def mem_read_def mem_write_def e1000_wf_def e1000_write_def min_def
        split: if_splits elim!: res_bind_InrE)
qed

section \<open>The contract of a network device\<close>

text \<open>
  What \<^verbatim>\<open>struct earth\<close> promises its callers: \<^verbatim>\<open>net_send\<close> returns only for a length in range, \<^verbatim>\<open>net_recv\<close>
  writes as many bytes as it reports and leaves the rest of the buffer alone.
\<close>

locale frame_device =
  fixes send :: "int \<Rightarrow> bytes \<Rightarrow> 'd \<Rightarrow> 'd res"
    and recv :: "bytes \<Rightarrow> 'd \<Rightarrow> (int \<times> bytes \<times> 'd) res"
    and inv :: "'d \<Rightarrow> bool"
  assumes send_inv: "inv d \<Longrightarrow> send len p d = Inr d' \<Longrightarrow> inv d'"
    and send_bounds: "send len p d = Inr d' \<Longrightarrow> 0 < len \<and> len \<le> 2048 \<and> nat len \<le> length p"
    and recv_inv: "inv d \<Longrightarrow> recv buf d = Inr (n, buf', d') \<Longrightarrow> inv d'"
    and recv_bounds: "inv d \<Longrightarrow> recv buf d = Inr (n, buf', d') \<Longrightarrow>
      0 \<le> n \<and> n \<le> 2048 \<and> nat n \<le> length buf \<and> length buf' = length buf \<and> drop (nat n) buf' = drop (nat n) buf"

interpretation e1000: frame_device "net_send dev" "net_recv dev" e1000_wf for dev
  by unfold_locales (auto dest: net_send_wf net_send_bounds net_recv_wf)

section \<open>The transmit ring as a queue\<close>

lemma ring_add: "h < 16 \<Longrightarrow> k < 16 \<Longrightarrow> (h + k) mod 16 = (if h + k < 16 then h + k else h + k - 16 :: nat)"
  by (simp add: mod_if [of "h + k"])

lemma ring_sub: "h < 16 \<Longrightarrow> t < 16 \<Longrightarrow> (16 + t - h) mod 16 = (if h \<le> t then t - h else 16 + t - h :: nat)"
  by (auto simp: mod_if [of "16 + t - h"])

lemma mod_shift_inj: "h < 16 \<Longrightarrow> a < 16 \<Longrightarrow> b < 16 \<Longrightarrow> (h + a) mod 16 = (h + b) mod 16 \<Longrightarrow> a = (b :: nat)"
  by (simp add: ring_add split: if_splits)

lemma ring_next:
  assumes "h < 16" and "(16 + t - h) mod 16 < (15 :: nat)"
  shows "(16 + (t + 1) mod 16 - h) mod 16 = Suc ((16 + t - h) mod 16)"
proof -
  have "16 + (t + 1) mod 16 - h = (t + 1) mod 16 + (16 - h)" "t + 1 + (16 - h) = Suc (16 + t - h)"
    using assms(1) by simp_all
  then have "(16 + (t + 1) mod 16 - h) mod 16 = Suc (16 + t - h) mod 16"
    by (simp only: mod_add_left_eq)
  with assms(2) show ?thesis by (simp only: mod_Suc) simp
qed

lemma tx_tail:
  assumes "tx_inv s"
  shows "(tx_head s + tx_count s) mod 16 = tx_index s" and "tx_count s < 16"
proof -
  have *: "tx_head s < 16" "tx_index s < 16"
    using assms by (simp_all add: tx_inv_def e1000_wf_def)
  then show "tx_count s < 16"
    unfolding tx_count_def by simp
  then show "(tx_head s + tx_count s) mod 16 = tx_index s"
    using * by (simp add: ring_add) (auto simp: tx_count_def ring_sub)
qed

lemma tx_pending_dev_step:
  assumes "nic_tx_ok dev" and "tx_inv s"
  shows "tx_inv (dev_step dev s)"
    and "tx_pending (dev_step dev s) = drop (tx_count s - tx_count (dev_step dev s)) (tx_pending s)"
proof -
  let ?t = "dev_step dev s"
  have dev: "regs ?t E1000_TDT = regs s E1000_TDT" "tx_head ?t < 16" "tx_count ?t \<le> tx_count s"
    using assms unfolding nic_tx_ok_def by blast+
  show inv: "tx_inv ?t"
    using assms(2) dev by (simp add: tx_inv_def dev_step_wf)
  have wf: "length (tx_ring s) = 16" using assms(2) by (simp add: tx_inv_def e1000_wf_def)
  have frame: "tx_frame ?t (i mod 16) = tx_frame s (i mod 16)" for i
    by (simp add: tx_frame_def wf)
  define k where "k = tx_count s - tx_count ?t"
  have head: "tx_head ?t < 16" "tx_head s < 16" "tx_index s < 16"
    using inv assms(2) by (simp_all add: tx_inv_def e1000_wf_def)
  have shift: "(tx_head ?t + j) mod 16 = (tx_head s + (k + j)) mod 16" for j
  proof -
    have "tx_head ?t = (tx_head s + k) mod 16"
      using head dev(3) unfolding k_def tx_count_def dev_step_frame
      by (simp add: ring_sub ring_add split: if_splits)
    then show ?thesis
      by (simp add: mod_simps add.assoc)
  qed
  have "tx_pending ?t = map (\<lambda>j. tx_frame s ((tx_head s + (k + j)) mod 16)) [0..<tx_count ?t]"
    unfolding tx_pending_def frame shift by (rule refl)
  also have "\<dots> = drop k (tx_pending s)"
    using dev(3) by (auto simp: tx_pending_def k_def intro!: nth_equalityI)
  finally show "tx_pending ?t = drop (tx_count s - tx_count ?t) (tx_pending s)"
    unfolding k_def .
qed

lemma tx_post_frames:
  assumes wf: "e1000_wf s" and len: "0 < len" "len \<le> 2048" "nat len \<le> length p" and post: "tx_post len p s = Inr s'"
  shows "tx_index s' = (tx_index s + 1) mod RING_SIZE" and "tx_head s' = tx_head s"
    and "regs s' E1000_TDT = of_nat ((tx_index s + 1) mod RING_SIZE)"
    and "tx_frame s' (tx_index s) = take (nat len) p" and "\<And>i. i \<noteq> tx_index s \<Longrightarrow> tx_frame s' i = tx_frame s i"
proof -
  let ?b = "take (nat len) p @ drop (nat len) (tx_bufs s ! tx_index s)"
  have idx: "tx_index s < 16" and buf: "length (tx_bufs s ! tx_index s) = 2048"
    using wf by (simp_all add: e1000_wf_def list_all_length)
  have w: "mem_read p 0 (nat len) = Inr (take (nat len) p)" "mem_write (tx_bufs s ! tx_index s) 0 (take (nat len) p) = Inr ?b"
    using len buf by (auto simp: mem_read_def mem_write_def min_def)
  show "tx_index s' = (tx_index s + 1) mod RING_SIZE" "tx_head s' = tx_head s" "regs s' E1000_TDT = of_nat ((tx_index s + 1) mod RING_SIZE)"
    using post by (auto simp: tx_post_def w Let_def e1000_write_def tx_head_def)
  have f: "tx_bufs s' = (tx_bufs s)[tx_index s := ?b]"
    using post by (auto simp: tx_post_def w Let_def e1000_write_def)
  have ring: "td_length (tx_ring s' ! i) = (if i = tx_index s then word_of_int len else td_length (tx_ring s ! i))" for i
    using post wf idx by (cases "i = tx_index s") (auto simp: tx_post_def w Let_def e1000_write_def e1000_wf_def)
  have "unat (word_of_int len :: u16) = nat len"
    using len by (simp add: unat_eq_nat_uint uint_word_of_int)
  then show "tx_frame s' (tx_index s) = take (nat len) p"
    using idx wf len by (simp add: tx_frame_def ring f e1000_wf_def min_def)
  show "tx_frame s' i = tx_frame s i" if "i \<noteq> tx_index s" for i
    using that by (simp add: tx_frame_def ring f)
qed

lemma tx_post_returns:
  assumes "e1000_wf s" and "len \<le> 2048" and "nat len \<le> length p"
  shows "\<exists>s'. tx_post len p s = Inr s'"
proof -
  have "length (tx_bufs s ! tx_index s) = 2048" "nat len \<le> 2048"
    using assms by (auto simp: e1000_wf_def list_all_length)
  then show ?thesis
    using assms(3) by (simp add: tx_post_def mem_read_def mem_write_def Let_def)
qed

lemma tx_pending_post:
  assumes inv: "tx_inv s" and room: "tx_count s < 15" and len: "0 < len" "len \<le> 2048" "nat len \<le> length p"
  shows "\<exists>s'. tx_post len p s = Inr s' \<and> tx_inv s' \<and> tx_pending s' = tx_pending s @ [take (nat len) p]"
proof -
  have idx: "tx_index s < 16" "tx_head s < 16" and wf: "e1000_wf s"
    using inv by (simp_all add: tx_inv_def e1000_wf_def)
  obtain s' where s': "tx_post len p s = Inr s'" using tx_post_returns [OF wf len(2,3)] by blast
  note f = tx_post_frames [OF wf len s']
  have inv': "tx_inv s'"
    using inv f tx_post_wf [OF s' wf] by (simp add: tx_inv_def)
  have count: "tx_count s' = Suc (tx_count s)"
    using ring_next [OF idx(2), of "tx_index s"] room unfolding tx_count_def f by simp
  have old: "tx_frame s' ((tx_head s + k) mod 16) = tx_frame s ((tx_head s + k) mod 16)" if "k < tx_count s" for k
    using mod_shift_inj [OF idx(2), of k "tx_count s"] tx_tail [OF inv] that by (intro f(5)) auto
  have "tx_pending s' = tx_pending s @ [take (nat len) p]"
    using old f(4) tx_tail [OF inv] by (auto simp: tx_pending_def count f(2))
  with s' inv' show ?thesis by blast
qed

lemma tx_wait_pending:
  assumes "tx_wait dev n s = Inr s'" and "nic_tx_ok dev" and "tx_inv s"
  shows "tx_inv s' \<and> tx_count s' \<le> tx_count s \<and> (\<exists>k. tx_pending s' = drop k (tx_pending s))"
  using assms
proof (induction dev n s rule: tx_wait.induct)
  case (2 dev n s)
  have le: "tx_count (dev_step dev s) \<le> tx_count s"
    using 2(3,4) unfolding nic_tx_ok_def by blast
  note st = tx_pending_dev_step [OF 2(3,4)]
  show ?case
  proof (cases "td_status (tx_ring (dev_step dev s) ! tx_index (dev_step dev s)) AND E1000_TXD_STAT_DD \<noteq> 0")
    case True
    then show ?thesis using 2(2) st le by auto
  next
    case False
    then show ?thesis using 2(1) [OF refl False _ 2(3) st(1)] 2(2) st(2) le by (auto simp: drop_drop)
  qed
qed simp

lemma tx_wait_returns_iff:
  "(\<exists>s'. tx_wait dev n s = Inr s') \<longleftrightarrow>
     (\<exists>k < n. td_status (tx_ring ((dev_step dev ^^ Suc k) s) ! tx_index s) AND E1000_TXD_STAT_DD \<noteq> 0)"
proof (induction dev n s rule: tx_wait.induct)
  case (2 dev n s)
  show ?case
  proof (cases "td_status (tx_ring (dev_step dev s) ! tx_index s) AND E1000_TXD_STAT_DD \<noteq> 0")
    case True
    then show ?thesis by (auto simp: Let_def intro!: exI [of _ 0])
  next
    case False
    have "(\<exists>k < Suc n. P k) \<longleftrightarrow> P 0 \<or> (\<exists>k < n. P (Suc k))" for P
      using less_Suc_eq_0_disj by auto
    with False 2 show ?thesis
      by (simp add: Let_def funpow_swap1)
  qed
qed simp

section \<open>Example devices\<close>

text \<open>A device that finishes every transmission at once, and one that does nothing.\<close>

definition instant_dev :: "unit nic" where
  "instant_dev s = (\<lparr>dma_tx = (\<lambda>_. Some 1), dma_rx = (\<lambda>_. None),
     dma_regs = (\<lambda>r. if r = E1000_TDH then Some (regs s E1000_TDT) else None)\<rparr>, ())"

definition idle_dev :: "unit nic" where
  "idle_dev s = (\<lparr>dma_tx = (\<lambda>_. None), dma_rx = (\<lambda>_. None), dma_regs = (\<lambda>_. None)\<rparr>, ())"

lemma unat_of_nat_small: "n < 16 \<Longrightarrow> unat (of_nat n :: u32) = n"
  by (simp add: unat_of_nat)

lemma instant_dev_ok: "nic_tx_ok instant_dev"
  unfolding nic_tx_ok_def
  by (auto simp: tx_count_def tx_head_def tx_inv_def e1000_wf_def dev_step_def instant_dev_def unat_of_nat_small)

lemma dev_step_idle: "e1000_wf s \<Longrightarrow> dev_step idle_dev s = s"
  by (auto simp: dev_step_def idle_dev_def dma_tx_desc_def dma_rx_desc_def dma_rx_buf_def
      intro!: e1000.equality nth_equalityI)

text \<open>The driver before \<^verbatim>\<open>net_init()\<close>, with the device on the bus.\<close>

definition e1000_bss :: "unit e1000" where
  "e1000_bss = \<lparr>net_mmio_base = 0,
     tx_ring = replicate RING_SIZE \<lparr>td_buffer_addr = 0, td_length = 0, td_cso = 0, td_cmd = 0, td_status = 0, td_css = 0, td_special = 0\<rparr>,
     rx_ring = replicate RING_SIZE \<lparr>rd_buffer_addr = 0, rd_length = 0, rd_csum = 0, rd_status = 0, rd_errors = 0, rd_special = 0\<rparr>,
     tx_bufs = replicate RING_SIZE (replicate PKT_BUF_SIZE 0), rx_bufs = replicate RING_SIZE (replicate PKT_BUF_SIZE 0),
     tx_index = 0, rx_index = 0, regs = (\<lambda>_. 0), pci_cfg = (\<lambda>r. if r = 0 then 0x100e8086 else 0),
     tx_ring_at = 0x80101000, rx_ring_at = 0x80101100, tx_bufs_at = 0x80102000, rx_bufs_at = 0x8010a000,
     hw = (), earth_net_set = False\<rparr>"

lemma e1000_bss_wf: "e1000_wf e1000_bss"
  by (simp add: e1000_wf_def e1000_bss_def list_all_length)

section \<open>Initialisation\<close>

definition bufs_wf :: "'h e1000 \<Rightarrow> bool" where
  "bufs_wf s \<longleftrightarrow>
     length (tx_bufs s) = RING_SIZE \<and> length (rx_bufs s) = RING_SIZE \<and>
     list_all (\<lambda>b. length b = PKT_BUF_SIZE) (tx_bufs s) \<and> list_all (\<lambda>b. length b = PKT_BUF_SIZE) (rx_bufs s)"

lemma bufs_wf_step [simp]: "bufs_wf s \<Longrightarrow> bufs_wf (dev_step dev s)"
  by (auto simp: bufs_wf_def list_all_length) (simp add: dev_step_def length_dma_rx_buf split: prod.split)

lemma bufs_wf_write [simp]: "bufs_wf (e1000_write r v s) = bufs_wf s"
  by (simp add: bufs_wf_def e1000_write_def)

lemma bufs_wf_reset_wait: "bufs_wf s \<Longrightarrow> bufs_wf (reset_wait dev n s)"
  by (induction dev n s rule: reset_wait.induct) (simp_all add: e1000_read_def Let_def)

lemma bufs_wf_init:
  assumes "bufs_wf s"
  shows "bufs_wf (e1000_reset dev s)" "bufs_wf (e1000_configure_ctrl dev s)" "bufs_wf (e1000_set_mac s)"
    "bufs_wf (e1000_clear_mta s)"
proof -
  have "bufs_wf (fold (\<lambda>i. e1000_write (E1000_MTA + of_nat i * 4) 0) is s)" for "is"
    using assms by (induction "is" arbitrary: s) auto
  then show "bufs_wf (e1000_clear_mta s)" by (simp only: e1000_clear_mta_def)
qed (use assms in \<open>simp_all add: e1000_reset_def e1000_configure_ctrl_def e1000_set_mac_def e1000_read_def Let_def bufs_wf_reset_wait\<close>)

lemma rings_init:
  assumes "bufs_wf s" and t: "t = e1000_tx_init (e1000_rx_init s)"
  shows "tx_inv t" and "tx_pending t = []" and "list_all (\<lambda>d. td_status d AND E1000_TXD_STAT_DD \<noteq> 0) (tx_ring t)"
    and "list_all (\<lambda>d. rd_status d = 0) (rx_ring t)" and "regs t E1000_RDT = 15"
    and "\<forall>i < 16. rd_buffer_addr (rx_ring t ! i) = rx_buf_addr t i \<and> td_buffer_addr (tx_ring t ! i) = tx_buf_addr t i"
    and "regs t E1000_RAL = regs s E1000_RAL \<and> regs t E1000_RAH = regs s E1000_RAH"
    and "net_mmio_base t = net_mmio_base s"
proof -
  note defs = t e1000_tx_init_def e1000_rx_init_def Let_def e1000_write_def tx_head_def
  show inv: "tx_inv t"
    using assms(1) by (simp add: tx_inv_def e1000_wf_def bufs_wf_def defs)
  show "tx_pending t = []" by (simp add: tx_pending_def tx_count_def defs)
  show "list_all (\<lambda>d. td_status d AND E1000_TXD_STAT_DD \<noteq> 0) (tx_ring t)" "list_all (\<lambda>d. rd_status d = 0) (rx_ring t)"
    by (simp_all add: defs list_all_length)
  show "regs t E1000_RDT = 15" "regs t E1000_RAL = regs s E1000_RAL \<and> regs t E1000_RAH = regs s E1000_RAH"
    "net_mmio_base t = net_mmio_base s"
    by (simp_all add: defs)
  show "\<forall>i < 16. rd_buffer_addr (rx_ring t ! i) = rx_buf_addr t i \<and> td_buffer_addr (tx_ring t ! i) = tx_buf_addr t i"
    by (simp add: defs rx_buf_addr_def tx_buf_addr_def)
qed

lemma clear_mta_regs: "r < E1000_MTA \<or> E1000_MTA + 512 \<le> r \<Longrightarrow> regs (e1000_clear_mta s) r = regs s r"
proof -
  assume r: "r < E1000_MTA \<or> E1000_MTA + 512 \<le> r"
  have "regs (fold (\<lambda>i. e1000_write (E1000_MTA + of_nat i * 4) 0) is s) r = regs s r" if "\<forall>i \<in> set is. i < 128" for "is"
    using that
  proof (induction "is" arbitrary: s)
    case (Cons i "is")
    have "unat (E1000_MTA + of_nat i * 4) = 0x5200 + 4 * i"
      using Cons.prems by (simp add: unat_word_ariths unat_of_nat)
    then have "r \<noteq> E1000_MTA + of_nat i * 4"
      using r Cons.prems by (auto simp: word_less_nat_alt word_le_nat_alt)
    then show ?case using Cons by (simp add: e1000_write_def)
  qed simp
  from this [of "[0..<128]"] show ?thesis by (simp add: e1000_clear_mta_def)
qed

lemma tx_wait_first:
  "0 < n \<Longrightarrow> td_status (tx_ring (dev_step dev s) ! tx_index s) AND E1000_TXD_STAT_DD \<noteq> 0 \<Longrightarrow>
   tx_wait dev n s = Inr (dev_step dev s)"
  by (cases n) (simp_all add: Let_def)

text \<open>The driver with freshly initialised rings.\<close>

definition e1000_ready :: "unit e1000" where
  "e1000_ready = e1000_tx_init (e1000_rx_init e1000_bss)"

lemma e1000_ready_inv: "tx_inv e1000_ready" "tx_pending e1000_ready = []" "e1000_wf e1000_ready"
  "tx_ring e1000_ready ! 0 = \<lparr>td_buffer_addr = tx_buf_addr e1000_ready 0, td_length = 0, td_cso = 0, td_cmd = 0,
     td_status = 1, td_css = 0, td_special = 0\<rparr>"
  "tx_index e1000_ready = 0" "rx_index e1000_ready = 0" "rd_status (rx_ring e1000_ready ! 0) = 0"
proof -
  have "bufs_wf e1000_bss"
    by (simp add: bufs_wf_def e1000_bss_def list_all_length)
  note r = rings_init [OF this e1000_ready_def]
  show "tx_inv e1000_ready" "tx_pending e1000_ready = []" by (rule r)+
  then show "e1000_wf e1000_ready" by (simp add: tx_inv_def)
  show "tx_ring e1000_ready ! 0 = \<lparr>td_buffer_addr = tx_buf_addr e1000_ready 0, td_length = 0, td_cso = 0, td_cmd = 0,
     td_status = 1, td_css = 0, td_special = 0\<rparr>" "tx_index e1000_ready = 0" "rx_index e1000_ready = 0"
    "rd_status (rx_ring e1000_ready ! 0) = 0"
    by (simp_all add: e1000_ready_def e1000_tx_init_def e1000_rx_init_def Let_def e1000_write_def tx_buf_addr_def)
qed

section \<open>Properties\<close>

lemma low_half: "(ucast (w AND 0xffff) :: u16) = ucast (w :: u32)"
proof -
  have eq: "w AND 0xffff = take_bit 16 w" by (simp add: take_bit_eq_mask mask_eq_exp_minus_1)
  show ?thesis unfolding eq by (rule bit_word_eqI) (auto simp: bit_simps)
qed

lemma net_init_other:
  "\<not> (ucast (pci_cfg s 0) = (0x8086 :: u16) \<and> ucast (drop_bit 16 (pci_cfg s 0)) = (0x100e :: u16) \<and>
    keeps 0x10 0x41000000 AND NOT 0xf \<noteq> 0) \<Longrightarrow> net_init dev keeps s = Inl Fatal"
  by (simp add: net_init_def Let_def low_half pci_cfg_read_def) (auto simp: pci_cfg_write_def)

lemma net_init_device:
  assumes "bufs_wf s" and dev: "ucast (pci_cfg s 0) = (0x8086 :: u16)" "ucast (drop_bit 16 (pci_cfg s 0)) = (0x100e :: u16)"
    "keeps 0x10 0x41000000 AND NOT 0xf \<noteq> 0"
  obtains t where "net_init dev keeps s = Inr t" "earth_net_set t" "tx_inv t" "tx_pending t = []"
    "list_all (\<lambda>d. td_status d AND E1000_TXD_STAT_DD \<noteq> 0) (tx_ring t)" "list_all (\<lambda>d. rd_status d = 0) (rx_ring t)" "regs t E1000_RDT = 15"
    "\<forall>i < 16. rd_buffer_addr (rx_ring t ! i) = rx_buf_addr t i \<and> td_buffer_addr (tx_ring t ! i) = tx_buf_addr t i"
    "regs t E1000_RAL = 0x00005452" "regs t E1000_RAH = 0x80000100"
proof -
  define u where "u = (pci_cfg_write keeps 0x10 0x41000000 (pci_cfg_write keeps 4
      ((pci_cfg s 4 OR (push_bit 1 1 OR push_bit 2 1)) AND NOT 1) s))\<lparr>net_mmio_base := keeps 0x10 0x41000000 AND NOT 0xf\<rparr>"
  define v where "v = e1000_clear_mta (e1000_set_mac (e1000_configure_ctrl dev (e1000_reset dev u)))"
  have "bufs_wf v"
    using assms unfolding v_def by (intro bufs_wf_init) (simp add: u_def bufs_wf_def pci_cfg_write_def)
  note r = rings_init [OF this refl]
  have mac: "regs v E1000_RAL = 0x00005452" "regs v E1000_RAH = 0x80000100"
    by (simp_all add: v_def clear_mta_regs) (simp_all add: e1000_set_mac_def egos_mac_def e1000_write_def Let_def)
  let ?t = "(e1000_tx_init (e1000_rx_init v))\<lparr>earth_net_set := True\<rparr>"
  have "net_init dev keeps s = Inr ?t"
    using dev unfolding v_def u_def by (simp add: net_init_def Let_def low_half pci_cfg_read_def) (simp add: pci_cfg_write_def)
  then show thesis
    using that [of ?t] r mac by (simp add: tx_inv_def e1000_wf_def tx_pending_def tx_count_def tx_head_def tx_frame_def
      tx_buf_addr_def rx_buf_addr_def)
qed

text \<open>
  \<^verbatim>\<open>net_init()\<close> on the expected device always returns, whatever the device does meanwhile, with
  the driver's functions published and the rings ready: every transmit descriptor free and none pending, every
  receive descriptor handed to the device, each descriptor pointing at its own buffer, and the station address
  programmed. Any other vendor or device number, or a base address of zero, ends in \<^verbatim>\<open>FATAL\<close>.
\<close>

lemma net_init_correct:
  assumes "bufs_wf s"
  shows "(ucast (pci_cfg s 0) = (0x8086 :: u16) \<and> ucast (drop_bit 16 (pci_cfg s 0)) = (0x100e :: u16) \<and>
      keeps 0x10 0x41000000 AND NOT 0xf \<noteq> 0 \<longrightarrow>
      (\<exists>t. net_init dev keeps s = Inr t \<and> earth_net_set t \<and> tx_inv t \<and> tx_pending t = [] \<and>
        list_all (\<lambda>d. td_status d AND E1000_TXD_STAT_DD \<noteq> 0) (tx_ring t) \<and>
        list_all (\<lambda>d. rd_status d = 0) (rx_ring t) \<and> regs t E1000_RDT = 15 \<and>
        (\<forall>i < 16. rd_buffer_addr (rx_ring t ! i) = rx_buf_addr t i \<and> td_buffer_addr (tx_ring t ! i) = tx_buf_addr t i) \<and>
        regs t E1000_RAL = 0x00005452 \<and> regs t E1000_RAH = 0x80000100)) \<and>
    (\<not> (ucast (pci_cfg s 0) = (0x8086 :: u16) \<and> ucast (drop_bit 16 (pci_cfg s 0)) = (0x100e :: u16) \<and>
      keeps 0x10 0x41000000 AND NOT 0xf \<noteq> 0) \<longrightarrow> net_init dev keeps s = Inl Fatal)"
  using net_init_device [OF assms, of keeps dev] net_init_other [of s keeps dev] by metis

lemma net_init_correct_example:
  "\<exists>t. net_init idle_dev (\<lambda>_ v. v) e1000_bss = Inr t \<and> tx_inv t \<and> tx_pending t = []"
proof -
  have "bufs_wf e1000_bss" "ucast (pci_cfg e1000_bss 0) = (0x8086 :: u16)"
    "ucast (drop_bit 16 (pci_cfg e1000_bss 0)) = (0x100e :: u16)"
    by (simp_all add: bufs_wf_def e1000_bss_def list_all_length)
  moreover have "(0x41000000 :: u32) AND NOT 0xf \<noteq> 0"
    by simp
  ultimately show ?thesis
    using net_init_correct [of e1000_bss "\<lambda>_ v. v" idle_dev] by blast
qed

lemma net_send_pending:
  assumes "nic_tx_ok dev" and "tx_inv s" and "tx_count s < 15" and "net_send dev len p s = Inr s'"
  shows "tx_inv s' \<and> (\<exists>k. tx_pending s' = drop k (tx_pending s) @ [take (nat len) p])"
proof -
  obtain t where t: "tx_wait dev E1000_TX_WAIT_SPINS s = Inr t" "tx_post len p t = Inr s'"
    using assms(4) by (auto simp: net_send_def split: if_splits elim!: res_bind_InrE)
  have w: "tx_inv t" "tx_count t < 15" "\<exists>k. tx_pending t = drop k (tx_pending s)"
    using tx_wait_pending [OF t(1) assms(1,2)] assms(3) by auto
  show ?thesis
    using tx_pending_post [OF w(1,2), of len p] net_send_bounds [OF assms(4)] t(2) w(3) by auto
qed

text \<open>
  C19: the transmit ring is a first-in first-out queue. With a device that behaves as its manual says, a
  successful \<^verbatim>\<open>net_send()\<close> appends exactly the given bytes behind the frames still waiting, of which the device
  may have taken some from the front; none is lost, changed or reordered. At most 14 frames may be waiting
  before the call.
\<close>

theorem net_send_fifo:
  assumes "nic_tx_ok dev" and "tx_inv s" and "tx_count s < 15" and "net_send dev len p s = Inr s'"
  shows "tx_inv s' \<and> (\<exists>k. tx_pending s' = drop k (tx_pending s) @ [take (nat len) p])"
  by (rule net_send_pending [OF assms])

theorem net_send_fifo_witness:
  "\<exists>s'. net_send instant_dev 3 [1, 2, 3] e1000_ready = Inr s' \<and> tx_pending s' = [[1, 2, 3]]"
proof -
  have "tx_wait instant_dev E1000_TX_WAIT_SPINS e1000_ready = Inr (dev_step instant_dev e1000_ready)"
    using e1000_ready_inv by (intro tx_wait_first) (simp_all add: dev_step_def instant_dev_def e1000_wf_def dma_tx_desc_def)
  then obtain s' where s': "net_send instant_dev 3 [1, 2, 3] e1000_ready = Inr s'"
    using tx_post_returns [OF dev_step_wf [OF e1000_ready_inv(3), of instant_dev], of 3 "[1, 2, 3]"]
    by (auto simp: net_send_def)
  moreover have "tx_count e1000_ready < 15"
    using e1000_ready_inv(2) by (simp add: tx_pending_def)
  ultimately show ?thesis
    using net_send_fifo [OF instant_dev_ok e1000_ready_inv(1) _ s'] e1000_ready_inv(2) by simp
qed

text \<open>
  C21: for a length between 1 and 2048 and that many readable bytes, \<^verbatim>\<open>net_send()\<close> returns exactly if the
  device completes the descriptor within 2 to the 24 looks at it, and otherwise ends in \<^verbatim>\<open>FATAL\<close>; any other
  length ends in \<^verbatim>\<open>FATAL\<close>.
\<close>

theorem net_send_returns:
  assumes "e1000_wf s" and "nat len \<le> length p"
  shows "(\<exists>s'. net_send dev len p s = Inr s') =
      (0 < len \<and> len \<le> 2048 \<and>
       (\<exists>k < 2 ^ 24. td_status (tx_ring ((dev_step dev ^^ Suc k) s) ! tx_index s) AND E1000_TXD_STAT_DD \<noteq> 0)) \<and>
    (net_send dev len p s = Inl Fatal \<or> (\<exists>s'. net_send dev len p s = Inr s'))"
proof -
  have "tx_wait dev n s = Inl e \<Longrightarrow> e = Fatal" for n e
    by (induction dev n s rule: tx_wait.induct) (auto simp: Let_def split: if_splits)
  moreover have "\<exists>s'. tx_post len p t = Inr s'" if "tx_wait dev n s = Inr t" "len \<le> 2048" for n t
    using tx_post_returns [OF tx_wait_wf [OF that(1) assms(1)] that(2) assms(2)] .
  ultimately show ?thesis
    using tx_wait_returns_iff [of dev "E1000_TX_WAIT_SPINS" s]
    by (cases "tx_wait dev E1000_TX_WAIT_SPINS s") (auto simp: net_send_def)
qed

theorem net_send_returns_witness:
  "\<exists>s'. net_send instant_dev 3 [1, 2, 3] e1000_ready = Inr s'"
proof -
  have "td_status (tx_ring ((dev_step instant_dev ^^ Suc 0) e1000_ready) ! tx_index e1000_ready) AND 1 \<noteq> 0"
    using e1000_ready_inv by (simp add: dev_step_def instant_dev_def e1000_wf_def dma_tx_desc_def)
  then have "\<exists>k < 2 ^ 24. td_status (tx_ring ((dev_step instant_dev ^^ Suc k) e1000_ready) ! tx_index e1000_ready) AND 1 \<noteq> 0"
    by (intro exI [of _ 0]) simp
  then show ?thesis
    using net_send_returns [OF e1000_ready_inv(3), of 3 "[1, 2, 3]" instant_dev] by simp
qed

lemma net_recv_eq:
  assumes "e1000_wf s"
  shows "let t = dev_step dev s; desc = rx_ring t ! rx_index t; n = unat (rd_length desc) in
    net_recv dev buf s =
      (if rd_status desc AND E1000_RXD_STAT_DD = 0 then Inr (0, buf, t)
       else if rd_status desc AND E1000_RXD_STAT_EOP = 0 \<or> 2048 < n then Inl Fatal
       else if length buf < n then Inl OutOfBounds
       else Inr (int n, take n (rx_bufs t ! rx_index t) @ drop n buf,
         t\<lparr>rx_ring := (rx_ring t)[rx_index t := desc\<lparr>rd_length := 0, rd_csum := 0, rd_status := 0, rd_errors := 0, rd_special := 0\<rparr>],
           regs := (regs t)(E1000_RDT := of_nat (rx_index t)),
           rx_index := (rx_index t + 1) mod 16\<rparr>))"
proof -
  define t where "t = dev_step dev s"
  define desc where "desc = rx_ring t ! rx_index t"
  define n where "n = unat (rd_length desc)"
  have "length (rx_bufs t ! rx_index t) = 2048"
    using dev_step_wf [OF assms(1), of dev] by (simp add: t_def e1000_wf_def list_all_length)
  then show ?thesis
    unfolding net_recv_def Let_def t_def [symmetric] desc_def [symmetric] n_def [symmetric]
    by (auto simp: mem_read_def mem_write_def e1000_write_def min_def)
qed

text \<open>
  The driver can fill the ring completely, and a full ring looks empty: if 15 frames are waiting and the
  next descriptor is marked as done, \<^verbatim>\<open>net_send()\<close> with a device that has not taken any frame accepts a 16th,
  which moves the tail onto the head, so that to the device no frame is waiting.
\<close>

lemma net_send_full_ring:
  assumes "tx_inv s" and "tx_count s = 15" and "td_status (tx_ring s ! tx_index s) AND E1000_TXD_STAT_DD \<noteq> 0"
    and "0 < len" and "len \<le> 2048" and "nat len \<le> length p"
  shows "\<exists>s'. net_send idle_dev len p s = Inr s' \<and> tx_pending s' = []"
proof -
  have wf: "e1000_wf s" "tx_index s < 16" "tx_head s < 16"
    using assms(1) by (simp_all add: tx_inv_def e1000_wf_def)
  have "tx_wait idle_dev E1000_TX_WAIT_SPINS s = Inr s"
    using assms(3) tx_wait_first [of _ idle_dev s] dev_step_idle [OF wf(1)] by simp
  moreover obtain s' where s': "tx_post len p s = Inr s'"
    using tx_post_returns [OF wf(1) assms(5,6)] by blast
  moreover have "tx_index s' = (tx_index s + 1) mod 16" "tx_head s' = tx_head s"
    using s' by (auto simp: tx_post_def Let_def e1000_write_def tx_head_def elim!: res_bind_InrE)
  then have "tx_count s' = 0"
    using assms(2) wf unfolding tx_count_def by (simp add: ring_sub mod_Suc split: if_splits)
  ultimately show ?thesis
    using assms(4,5) by (auto simp: net_send_def tx_pending_def)
qed

lemma net_send_full_ring_ready:
  "\<exists>s'. net_send idle_dev 3 [1, 2, 3]
     (e1000_ready\<lparr>tx_index := 15, regs := (regs e1000_ready)(E1000_TDT := 15)\<rparr>) = Inr s' \<and> tx_pending s' = []"
proof -
  let ?s = "e1000_ready\<lparr>tx_index := 15, regs := (regs e1000_ready)(E1000_TDT := 15)\<rparr>"
  have "tx_head e1000_ready = 0"
    by (simp add: e1000_ready_def e1000_tx_init_def e1000_rx_init_def Let_def e1000_write_def tx_head_def)
  then have "tx_inv ?s" "tx_count ?s = 15"
    using e1000_ready_inv(1) by (simp_all add: tx_inv_def e1000_wf_def tx_head_def tx_count_def)
  moreover have "td_status (tx_ring ?s ! tx_index ?s) AND 1 \<noteq> 0"
    by (simp add: e1000_ready_def e1000_tx_init_def e1000_rx_init_def Let_def e1000_write_def)
  ultimately show ?thesis
    using net_send_full_ring [of ?s 3 "[1, 2, 3]"] by simp
qed

end
