(* ===== verification/Sys_Net.thy ===== *)
theory Sys_Net
  imports Httpd Uip_Arp Dev_Net
begin

text \<open>
  \<^verbatim>\<open>apps/system/sys_net.c\<close>: the network service. It owns the uIP stack, the ARP module and the socket
  state, reaches the network device through the function pointers of \<^verbatim>\<open>struct earth\<close>, and answers the
  requests of \<^verbatim>\<open>library/syscall/servers.h\<close>.
\<close>

section \<open>Messages and state\<close>

abbreviation (input) NET_BUF_SIZE :: nat where "NET_BUF_SIZE \<equiv> 512"
abbreviation (input) NET_CONN_NONE :: int where "NET_CONN_NONE \<equiv> -1"
abbreviation (input) GPID_PROCESS :: int where "GPID_PROCESS \<equiv> 1"

datatype net_request_type =
  NET_SEND | NET_RECV | NET_SOCK_LISTEN | NET_SOCK_ACCEPT | NET_SOCK_RECV | NET_SOCK_SEND | NET_SOCK_CLOSE
  | NET_UNKNOWN int

datatype net_status = NET_OK | NET_ERROR | NET_WOULD_BLOCK | NET_CLOSED | NET_INVALID

record net_request =
  rq_type :: net_request_type
  rq_port :: int
  rq_conn_id :: int
  rq_length :: int
  rq_buf :: bytes

record net_reply =
  rp_status :: net_status
  rp_conn_id :: int
  rp_length :: int
  rp_buf :: bytes

datatype net_msg = Announce | Reply net_reply

text \<open>
  Request and reply are the same message buffer. The reply's data area starts where the request has its
  \<^verbatim>\<open>length\<close>, so before a handler writes to it, it holds that field and the first bytes of the request's data. No
  handler reads a request field after overwriting it.
\<close>

definition le32 :: "int \<Rightarrow> bytes" where
  "le32 n = map (\<lambda>k. word_of_int (n div 256 ^ k)) [0, 1, 2, 3]"

definition reply_area :: "net_request \<Rightarrow> bytes" where
  "reply_area req = le32 (rq_length req) @ take 508 (rq_buf req)"

text \<open>The function pointers of \<^verbatim>\<open>struct earth\<close> that the service calls.\<close>

record 'd earth =
  earth_net_send :: "int \<Rightarrow> bytes \<Rightarrow> 'd \<Rightarrow> 'd res"
  earth_net_recv :: "bytes \<Rightarrow> 'd \<Rightarrow> (int \<times> bytes \<times> 'd) res"

record 'd net_state =
  stack :: httpd_uip
  arp_mod :: arp
  nic :: 'd
  sock_listen_port :: int
  sock_conn_id :: int
  sock_conn_open :: int
  sock_conn_pending :: int
  sock_conn_closed :: int
  sock_rx_buf :: bytes
  sock_rx_len :: int
  sock_tx_buf :: bytes
  sock_tx_len :: int
  sock_tx_pending :: int
  outbox :: "(int \<times> net_msg) list"

text \<open>\<^verbatim>\<open>memcpy\<close> with an \<^verbatim>\<open>int\<close> length: a negative one becomes a huge \<^verbatim>\<open>size_t\<close>.\<close>

definition memcpy_int :: "bytes \<Rightarrow> bytes \<Rightarrow> int \<Rightarrow> bytes res" where
  "memcpy_int dst src n =
     (if n < 0 then Inl OutOfBounds else res_bind (mem_read src 0 (nat n)) (mem_write dst 0))"

section \<open>Socket state\<close>

definition send_net_reply :: "int \<Rightarrow> bytes \<Rightarrow> net_status \<Rightarrow> int \<Rightarrow> int \<Rightarrow> 'd net_state \<Rightarrow> 'd net_state" where
  "send_net_reply sender buf status conn_id len s =
     s\<lparr>outbox := outbox s @
        [(sender, Reply \<lparr>rp_status = status, rp_conn_id = conn_id, rp_length = len, rp_buf = buf\<rparr>)]\<rparr>"

definition clamp_net_length :: "int \<Rightarrow> int" where
  "clamp_net_length len = (if len > int NET_BUF_SIZE then int NET_BUF_SIZE else len)"

definition socket_conn_valid :: "int \<Rightarrow> 'd net_state \<Rightarrow> bool" where
  "socket_conn_valid conn_id s \<longleftrightarrow>
     sock_listen_port s \<ge> 0 \<and> sock_conn_open s \<noteq> 0 \<and> conn_id = sock_conn_id s"

definition reset_socket_state :: "'d net_state \<Rightarrow> 'd net_state" where
  "reset_socket_state s =
     s\<lparr>sock_conn_id := 1, sock_conn_open := 0, sock_conn_pending := 0, sock_conn_closed := 0,
       sock_rx_len := 0, sock_tx_len := 0, sock_tx_pending := 0,
       stack := (stack s)\<lparr>httpd_socket_conn_open := 0, httpd_socket_conn_pending := 0,
         httpd_socket_conn_closed := 0, httpd_socket_rx_len := 0, httpd_socket_tx_len := 0,
         httpd_socket_tx_pending := 0, httpd_socket_close_pending := 0\<rparr>\<rparr>"

definition sync_socket_state :: "'d net_state \<Rightarrow> 'd net_state res" where
  "sync_socket_state s =
     (let u = stack s;
          s = s\<lparr>sock_conn_open := httpd_socket_conn_open u, sock_conn_pending := httpd_socket_conn_pending u,
                sock_conn_closed := httpd_socket_conn_closed u, sock_tx_pending := httpd_socket_tx_pending u\<rparr>
      in if httpd_socket_rx_len u > 0
         then let n = httpd_socket_rx_len u;
                  n = (if n > int NET_BUF_SIZE then int NET_BUF_SIZE else n)
              in res_bind (memcpy_int (sock_rx_buf s) (httpd_socket_rx_buf u) n) (\<lambda>b.
                   Inr (s\<lparr>sock_rx_len := n, sock_rx_buf := b, stack := u\<lparr>httpd_socket_rx_len := 0\<rparr>\<rparr>))
         else Inr s)"

section \<open>Traffic\<close>

definition transmit :: "'d earth \<Rightarrow> 'd net_state \<Rightarrow> 'd net_state res" where
  "transmit E s =
     res_bind (earth_net_send E (int (unat (uip_len (stack s)))) (uip_buf (stack s)) (nic s)) (\<lambda>d.
       Inr (s\<lparr>nic := d\<rparr>))"

abbreviation (input) uip_conn_active :: "uip_conn_t \<Rightarrow> bool" where "uip_conn_active c \<equiv> tcpstateflags c \<noteq> UIP_CLOSED"

definition kick_conn :: "'d net_state \<Rightarrow> nat option" where
  "kick_conn s =
     first_index (\<lambda>c. uip_conn_active c \<and> lport c = HTONS (word_of_int (sock_listen_port s)))
       (uip_conns (stack s))"

definition kick_active_connection :: "'d earth \<Rightarrow> 'd net_state \<Rightarrow> 'd net_state res" where
  "kick_active_connection E s =
     (if sock_listen_port s < 0 then Inr s
      else res_bind
        (case kick_conn s of
           None \<Rightarrow> Inr s
         | Some i \<Rightarrow>
             res_bind (uip_poll_conn httpd_appcall i (stack s)) (\<lambda>u.
               if uip_len u > 0 then transmit E (s\<lparr>stack := uip_arp_out (arp_mod s) u\<rparr>)
               else Inr (s\<lparr>stack := u\<rparr>)))
        sync_socket_state)"

definition net_kick_tx :: "'d earth \<Rightarrow> 'd net_state \<Rightarrow> 'd net_state res" where
  "net_kick_tx E s = (if sock_tx_pending s = 0 then Inr s else kick_active_connection E s)"

definition net_kick_close :: "'d earth \<Rightarrow> 'd net_state \<Rightarrow> 'd net_state res" where
  "net_kick_close E s = kick_active_connection E s"

text \<open>The treatment of a received frame, up to the final \<^verbatim>\<open>sync_socket_state()\<close>.\<close>

definition net_frame :: "'d earth \<Rightarrow> 'd net_state \<Rightarrow> 'd net_state res" where
  "net_frame E s =
     (if buf16 (stack s) e_type = HTONS UIP_ETHTYPE_IP
      then res_bind (uip_input httpd_appcall (stack s)) (\<lambda>u.
             if uip_len u > 0 then transmit E (s\<lparr>stack := uip_arp_out (arp_mod s) u\<rparr>)
             else Inr (s\<lparr>stack := u\<rparr>))
      else if buf16 (stack s) e_type = HTONS UIP_ETHTYPE_ARP
      then let (a, u) = uip_arp_arpin (arp_mod s, stack s);
               s = s\<lparr>arp_mod := a, stack := u\<rparr>
           in if uip_len u > 0 then transmit E s else Inr s
      else Inr (s\<lparr>stack := (stack s)\<lparr>uip_len := 0\<rparr>\<rparr>))"

definition net_poll :: "'d earth \<Rightarrow> 'd net_state \<Rightarrow> 'd net_state res" where
  "net_poll E s =
     res_bind (earth_net_recv E (uip_buf (stack s)) (nic s)) (\<lambda>(n, b, d).
       let s = s\<lparr>stack := (stack s)\<lparr>uip_buf := b, uip_len := word_of_int n\<rparr>, nic := d\<rparr>
       in if uip_len (stack s) \<le> 0 then Inr s
          else res_bind (net_frame E s) sync_socket_state)"

section \<open>Requests\<close>

definition handle_net_send :: "'d earth \<Rightarrow> int \<Rightarrow> net_request \<Rightarrow> 'd net_state \<Rightarrow> 'd net_state res" where
  "handle_net_send E sender req s =
     res_bind (earth_net_send E (rq_length req) (rq_buf req) (nic s)) (\<lambda>d.
       Inr (send_net_reply sender (reply_area req) NET_OK NET_CONN_NONE 0 (s\<lparr>nic := d\<rparr>)))"

definition handle_net_recv :: "'d earth \<Rightarrow> int \<Rightarrow> net_request \<Rightarrow> 'd net_state \<Rightarrow> 'd net_state res" where
  "handle_net_recv E sender req s =
     res_bind (earth_net_recv E (reply_area req) (nic s)) (\<lambda>(n, b, d).
       Inr (send_net_reply sender b NET_OK NET_CONN_NONE n (s\<lparr>nic := d\<rparr>)))"

definition handle_sock_listen :: "int \<Rightarrow> net_request \<Rightarrow> 'd net_state \<Rightarrow> 'd net_state" where
  "handle_sock_listen sender req s =
     (if rq_port req \<le> 0
      then send_net_reply sender (reply_area req) NET_INVALID NET_CONN_NONE 0 s
      else
        let s = s\<lparr>sock_listen_port := rq_port req\<rparr>;
            s = reset_socket_state s;
            s = s\<lparr>stack := uip_listen (HTONS (word_of_int (rq_port req))) (stack s)\<rparr>
        in send_net_reply sender (reply_area req) NET_OK NET_CONN_NONE 0 s)"

definition handle_sock_accept :: "'d earth \<Rightarrow> int \<Rightarrow> net_request \<Rightarrow> 'd net_state \<Rightarrow> 'd net_state res" where
  "handle_sock_accept E sender req s =
     res_bind (net_poll E s) (\<lambda>s. Inr
       (if sock_conn_pending s \<noteq> 0
        then let s = s\<lparr>sock_conn_pending := 0, stack := (stack s)\<lparr>httpd_socket_conn_pending := 0\<rparr>\<rparr>
             in send_net_reply sender (reply_area req) NET_OK (sock_conn_id s) 0 s
        else send_net_reply sender (reply_area req) NET_WOULD_BLOCK NET_CONN_NONE 0 s))"

definition handle_sock_recv :: "'d earth \<Rightarrow> int \<Rightarrow> net_request \<Rightarrow> 'd net_state \<Rightarrow> 'd net_state res" where
  "handle_sock_recv E sender req s =
     res_bind (net_poll E s) (\<lambda>s.
       if sock_listen_port s < 0 \<or> rq_conn_id req \<noteq> sock_conn_id s
       then Inr (send_net_reply sender (reply_area req) NET_INVALID (rq_conn_id req) 0 s)
       else if sock_rx_len s > 0
       then let rx_len = (if sock_rx_len s > rq_length req then rq_length req else sock_rx_len s)
            in res_bind (memcpy_int (reply_area req) (sock_rx_buf s) rx_len) (\<lambda>b.
                 Inr (send_net_reply sender b NET_OK (rq_conn_id req) rx_len (s\<lparr>sock_rx_len := 0\<rparr>)))
       else if sock_conn_closed s \<noteq> 0 \<or> sock_conn_open s = 0
       then Inr (send_net_reply sender (reply_area req) NET_CLOSED (rq_conn_id req) 0 s)
       else Inr (send_net_reply sender (reply_area req) NET_WOULD_BLOCK (rq_conn_id req) 0 s))"

text \<open>The statements of \<^verbatim>\<open>handle_sock_send()\<close> that hand the data to the bridge.\<close>

definition sock_queue_tx :: "net_request \<Rightarrow> 'd net_state \<Rightarrow> 'd net_state res" where
  "sock_queue_tx req s =
     (let s = s\<lparr>sock_tx_len := clamp_net_length (rq_length req)\<rparr>
      in res_bind (memcpy_int (sock_tx_buf s) (rq_buf req) (sock_tx_len s)) (\<lambda>b.
         let s = s\<lparr>sock_tx_buf := b\<rparr>
         in res_bind (memcpy_int (httpd_socket_tx_buf (stack s)) (sock_tx_buf s) (sock_tx_len s)) (\<lambda>hb.
            Inr (s\<lparr>stack := (stack s)\<lparr>httpd_socket_tx_buf := hb, httpd_socket_tx_len := sock_tx_len s,
                     httpd_socket_tx_pending := 1\<rparr>,
                   sock_tx_pending := 1\<rparr>))))"

definition handle_sock_send :: "'d earth \<Rightarrow> int \<Rightarrow> net_request \<Rightarrow> 'd net_state \<Rightarrow> 'd net_state res" where
  "handle_sock_send E sender req s =
     res_bind (net_poll E s) (\<lambda>s.
       if sock_listen_port s < 0 \<or> \<not> socket_conn_valid (rq_conn_id req) s
       then Inr (send_net_reply sender (reply_area req) NET_INVALID (rq_conn_id req) 0 s)
       else if sock_tx_pending s \<noteq> 0
       then Inr (send_net_reply sender (reply_area req) NET_WOULD_BLOCK (rq_conn_id req) 0 s)
       else
         res_bind (sock_queue_tx req s) (\<lambda>s.
         res_bind (net_kick_tx E s) (\<lambda>s.
           Inr (send_net_reply sender (reply_area req) NET_OK (rq_conn_id req) (sock_tx_len s) s))))"

definition handle_sock_close :: "'d earth \<Rightarrow> int \<Rightarrow> net_request \<Rightarrow> 'd net_state \<Rightarrow> 'd net_state res" where
  "handle_sock_close E sender req s =
     res_bind (net_poll E s) (\<lambda>s.
       if \<not> socket_conn_valid (rq_conn_id req) s
       then Inr (send_net_reply sender (reply_area req) NET_INVALID (rq_conn_id req) 0 s)
       else
         let s = s\<lparr>stack := (stack s)\<lparr>httpd_socket_close_pending := 1\<rparr>\<rparr>
         in res_bind (net_kick_close E s) (\<lambda>s.
              Inr (send_net_reply sender (reply_area req) NET_OK (rq_conn_id req) 0
                (s\<lparr>sock_conn_open := 0, sock_conn_pending := 0, sock_tx_pending := 0, sock_rx_len := 0\<rparr>))))"

section \<open>The main program\<close>

abbreviation (input) uip_setethaddr :: "bytes \<Rightarrow> 'a uip_scheme \<Rightarrow> 'a uip_scheme" where "uip_setethaddr a u \<equiv> u\<lparr>uip_ethaddr := a\<rparr>"
abbreviation (input) uip_sethostaddr :: "ip4addr \<Rightarrow> 'a uip_scheme \<Rightarrow> 'a uip_scheme" where "uip_sethostaddr a u \<equiv> u\<lparr>uip_hostaddr := a\<rparr>"
abbreviation (input) uip_setdraddr :: "ip4addr \<Rightarrow> 'a uip_scheme \<Rightarrow> 'a uip_scheme" where "uip_setdraddr a u \<equiv> u\<lparr>uip_draddr := a\<rparr>"
abbreviation (input) uip_setnetmask :: "ip4addr \<Rightarrow> 'a uip_scheme \<Rightarrow> 'a uip_scheme" where "uip_setnetmask a u \<equiv> u\<lparr>uip_netmask := a\<rparr>"

definition sys_net_init :: "'d net_state \<Rightarrow> 'd net_state" where
  "sys_net_init s =
     (let u = uip_init (stack s);
          u = uip_setethaddr [0x52, 0x54, 0x00, 0x00, 0x00, 0x01] u;
          s = s\<lparr>arp_mod := uip_arp_init (arp_mod s)\<rparr>;
          u = uip_sethostaddr (uip_ipaddr 10 0 2 15) u;
          u = uip_setdraddr (uip_ipaddr 10 0 2 2) u;
          u = uip_setnetmask (uip_ipaddr 255 255 255 0) u
      in s\<lparr>stack := u, outbox := outbox s @ [(GPID_PROCESS, Announce)]\<rparr>)"

definition sys_net_step :: "'d earth \<Rightarrow> int \<times> net_request \<Rightarrow> 'd net_state \<Rightarrow> 'd net_state res" where
  "sys_net_step E = (\<lambda>(sender, req) s.
     case rq_type req of
       NET_SEND \<Rightarrow> handle_net_send E sender req s
     | NET_RECV \<Rightarrow> handle_net_recv E sender req s
     | NET_SOCK_LISTEN \<Rightarrow> Inr (handle_sock_listen sender req s)
     | NET_SOCK_ACCEPT \<Rightarrow> handle_sock_accept E sender req s
     | NET_SOCK_RECV \<Rightarrow> handle_sock_recv E sender req s
     | NET_SOCK_SEND \<Rightarrow> handle_sock_send E sender req s
     | NET_SOCK_CLOSE \<Rightarrow> handle_sock_close E sender req s
     | NET_UNKNOWN _ \<Rightarrow> Inl Fatal)"

text \<open>The loop over the requests received.\<close>

fun sys_net_run :: "'d earth \<Rightarrow> (int \<times> net_request) list \<Rightarrow> 'd net_state \<Rightarrow> 'd net_state res" where
  "sys_net_run E [] s = Inr s"
| "sys_net_run E (m # ms) s = res_bind (sys_net_step E m s) (sys_net_run E ms)"

section \<open>Invariant\<close>

definition net_inv :: "('d \<Rightarrow> bool) \<Rightarrow> 'd net_state \<Rightarrow> bool" where
  "net_inv I s \<longleftrightarrow>
     uip_wf (stack s) \<and> bridge_wf (stack s) \<and> arp_inv (arp_mod s) \<and> I (nic s) \<and>
     length (sock_rx_buf s) = NET_BUF_SIZE \<and> length (sock_tx_buf s) = NET_BUF_SIZE \<and>
     sock_rx_len s \<le> int UIP_BUFSIZE"

text \<open>What only the socket handlers change.\<close>

definition sock_frame :: "'d net_state \<Rightarrow> 'd net_state \<Rightarrow> bool" where
  "sock_frame s s' \<longleftrightarrow>
     outbox s' = outbox s \<and> sock_listen_port s' = sock_listen_port s \<and> sock_conn_id s' = sock_conn_id s \<and>
     sock_tx_len s' = sock_tx_len s \<and> sock_tx_buf s' = sock_tx_buf s"

abbreviation anyfault :: "fault \<Rightarrow> bool" where
  "anyfault \<equiv> (\<lambda>_. True)"

section \<open>The address resolution functions and the invariant\<close>

lemma set_bytes_more [simp]: "uip.more (set_bytes i d s) = uip.more s"
  by (induction i d s rule: set_bytes.induct) simp_all

lemma arp_out_inv [simp]:
  "uip_wf (uip_arp_out a u) = uip_wf u" "uip.more (uip_arp_out a u) = uip.more u"
  by (simp_all add: uip_arp_out_def eth_header_def arp_request_def Let_def split: option.split)

lemma arp_reply_inv [simp]:
  "uip_wf (arp_reply u) = uip_wf u" "uip.more (arp_reply u) = uip.more u"
  by (simp_all add: arp_reply_def Let_def)

lemma uip_arp_arpin_inv:
  assumes "uip_arp_arpin (a, u) = (a', u')" and "arp_inv a" and "uip_wf u"
  shows "arp_inv a' \<and> uip_wf u' \<and> uip.more u' = uip.more u"
proof -
  have "length (buf_hw u a_shwaddr) = 6"
    using uip_wf_lengths(1) [OF assms(3)] by simp
  then show ?thesis
    using assms by (auto simp: uip_arp_arpin_def Let_def arp_inv_update split: if_splits)
qed

lemma stack_ok:
  assumes "uip_wf u" and "bridge_wf u"
  shows "res_ok anyfault (\<lambda>u'. uip_wf u' \<and> bridge_wf u' \<and> out_ok u') (uip_input httpd_appcall u)"
    and "i < 40 \<Longrightarrow> res_ok anyfault (\<lambda>u'. uip_wf u' \<and> bridge_wf u' \<and> out_ok u') (uip_poll_conn httpd_appcall i u)"
proof -
  have inv: "uip_inv (on_more bridge_wf) u"
    using assms by (simp add: uip_inv_def)
  show "res_ok anyfault (\<lambda>u'. uip_wf u' \<and> bridge_wf u' \<and> out_ok u') (uip_input httpd_appcall u)"
    using bridge.uip_process_ok [OF inv, of UIP_DATA]
    unfolding uip_input_def by (rule res_ok_mono) (simp_all add: uip_inv_def)
  show "res_ok anyfault (\<lambda>u'. uip_wf u' \<and> bridge_wf u' \<and> out_ok u') (uip_poll_conn httpd_appcall i u)" if "i < 40"
    using bridge.uip_process_ok [OF uip_inv_conn [OF that inv], of UIP_POLL_REQUEST]
    unfolding uip_poll_conn_def by (rule res_ok_mono) (simp_all add: uip_inv_def)
qed

lemma sync_socket_state_ok:
  assumes "net_inv I s"
  shows "\<exists>s'. sync_socket_state s = Inr s' \<and> net_inv I s' \<and> sock_frame s s' \<and> nic s' = nic s"
  using assms
  by (auto simp: sync_socket_state_def Let_def memcpy_int_def mem_read_def mem_write_def net_inv_def sock_frame_def
      bridge_wf_def uip_wf_def)

context frame_device
begin

abbreviation earth_of :: "'d earth" where
  "earth_of \<equiv> \<lparr>earth_net_send = send, earth_net_recv = recv\<rparr>"

abbreviation step_ok :: "'d net_state \<Rightarrow> 'd net_state res \<Rightarrow> bool" where
  "step_ok s \<equiv> res_ok anyfault (\<lambda>s'. net_inv inv s' \<and> sock_frame s s')"

lemma transmit_ok:
  assumes "net_inv inv s"
  shows "step_ok s (transmit earth_of s)"
  using assms send_inv
  by (cases "send (int (unat (uip_len (stack s)))) (uip_buf (stack s)) (nic s)")
    (auto simp: transmit_def net_inv_def sock_frame_def)

lemma step_ok_trans:
  assumes "step_ok s m" and "\<And>t. net_inv inv t \<Longrightarrow> sock_frame s t \<Longrightarrow> step_ok t (f t)"
  shows "step_ok s (res_bind m f)"
  using assms by (cases m) (auto intro!: res_ok_mono [OF assms(2)] simp: sock_frame_def)

lemma sync_ok: "net_inv inv s \<Longrightarrow> step_ok s (sync_socket_state s)"
  using sync_socket_state_ok [of inv s] by auto

lemma after_stack:
  assumes "net_inv inv s" and "uip_wf u" and "bridge_wf u"
  shows "step_ok s (if uip_len u > 0 then transmit earth_of (s\<lparr>stack := uip_arp_out (arp_mod s) u\<rparr>)
     else Inr (s\<lparr>stack := u\<rparr>))"
proof -
  have "net_inv inv (s\<lparr>stack := uip_arp_out (arp_mod s) u\<rparr>)" "net_inv inv (s\<lparr>stack := u\<rparr>)"
    using assms bridge_more(1) [of "uip_arp_out (arp_mod s) u" u] by (simp_all add: net_inv_def)
  then show ?thesis
    using transmit_ok [of "s\<lparr>stack := uip_arp_out (arp_mod s) u\<rparr>"]
    by (auto intro: res_ok_mono simp: sock_frame_def)
qed

lemma kick_active_connection_ok:
  assumes "net_inv inv s"
  shows "step_ok s (kick_active_connection earth_of s)"
proof (cases "sock_listen_port s < 0")
  case True
  with assms show ?thesis by (simp add: kick_active_connection_def sock_frame_def)
next
  case False
  have wf: "uip_wf (stack s)" "bridge_wf (stack s)"
    using assms by (simp_all add: net_inv_def)
  have "step_ok s (case kick_conn s of None \<Rightarrow> Inr s | Some i \<Rightarrow>
      res_bind (uip_poll_conn httpd_appcall i (stack s)) (\<lambda>u.
        if uip_len u > 0 then transmit earth_of (s\<lparr>stack := uip_arp_out (arp_mod s) u\<rparr>)
        else Inr (s\<lparr>stack := u\<rparr>)))"
  proof (cases "kick_conn s")
    case (Some i)
    then have "i < 40"
      using first_index_Some [OF Some [unfolded kick_conn_def]] uip_wf_lengths [OF wf(1)] by simp
    then show ?thesis
      using Some after_stack [OF assms] by (auto intro!: res_ok_bind [OF stack_ok(2) [OF wf]])
  qed (use assms in \<open>simp add: sock_frame_def\<close>)
  then show ?thesis
    unfolding kick_active_connection_def using False by (auto intro: step_ok_trans sync_ok)
qed

lemma net_frame_ok:
  assumes "net_inv inv s"
  shows "step_ok s (net_frame earth_of s)"
proof -
  have wf: "uip_wf (stack s)" "bridge_wf (stack s)" "arp_inv (arp_mod s)"
    using assms by (simp_all add: net_inv_def)
  obtain a u where au: "uip_arp_arpin (arp_mod s, stack s) = (a, u)" by force
  have "uip_wf u \<and> arp_inv a \<and> bridge_wf u"
    using uip_arp_arpin_inv [OF au wf(3,1)] bridge_more(1) [of u "stack s"] wf(2) by simp
  then have "net_inv inv (s\<lparr>arp_mod := a, stack := u\<rparr>)"
    using assms by (simp add: net_inv_def)
  then have "step_ok s (transmit earth_of (s\<lparr>arp_mod := a, stack := u\<rparr>))" "net_inv inv (s\<lparr>arp_mod := a, stack := u\<rparr>)"
    using transmit_ok [of "s\<lparr>arp_mod := a, stack := u\<rparr>"] by (auto intro: res_ok_mono simp: sock_frame_def)
  moreover have "net_inv inv (s\<lparr>stack := (stack s)\<lparr>uip_len := 0\<rparr>\<rparr>)"
    using assms by (simp add: net_inv_def bridge_wf_def)
  moreover have "step_ok s (res_bind (uip_input httpd_appcall (stack s)) (\<lambda>u.
      if uip_len u > 0 then transmit earth_of (s\<lparr>stack := uip_arp_out (arp_mod s) u\<rparr>) else Inr (s\<lparr>stack := u\<rparr>)))"
    using after_stack [OF assms] by (auto intro!: res_ok_bind [OF stack_ok(1) [OF wf(1,2)]])
  moreover have "sock_frame s (s\<lparr>arp_mod := a, stack := u\<rparr>)" "sock_frame s (s\<lparr>stack := v\<rparr>)" for v
    by (simp_all add: sock_frame_def)
  ultimately show ?thesis
    by (simp add: net_frame_def au Let_def)
qed

lemma net_poll_ok:
  assumes "net_inv inv s"
  shows "step_ok s (net_poll earth_of s)"
proof (cases "recv (uip_buf (stack s)) (nic s)")
  case (Inr x)
  obtain n b d where x: "x = (n, b, d)" by (cases x)
  define t where "t = s\<lparr>stack := (stack s)\<lparr>uip_buf := b, uip_len := word_of_int n\<rparr>, nic := d\<rparr>"
  have "inv (nic s)" using assms by (simp add: net_inv_def)
  note r = recv_inv [OF this Inr [unfolded x]] recv_bounds [OF this Inr [unfolded x]]
  have "net_inv inv t"
    using assms r by (simp add: t_def net_inv_def uip_wf_def bridge_wf_def)
  moreover from this have "step_ok t (res_bind (net_frame earth_of t) sync_socket_state)"
    by (intro step_ok_trans net_frame_ok sync_ok)
  then have "step_ok s (res_bind (net_frame earth_of t) sync_socket_state)"
    by (rule res_ok_mono) (auto simp: sock_frame_def t_def)
  moreover have "sock_frame s t" by (simp add: sock_frame_def t_def)
  moreover have "net_poll earth_of s =
      (if uip_len (stack t) \<le> 0 then Inr t else res_bind (net_frame earth_of t) sync_socket_state)"
    by (simp add: net_poll_def Inr x t_def Let_def)
  ultimately show ?thesis
    by (simp del: word_le_0_iff)
qed (simp add: net_poll_def)

end

section \<open>Every request is answered once\<close>

text \<open>One reply to the sender, and nothing else.\<close>

definition answered :: "int \<Rightarrow> 'd net_state \<Rightarrow> 'd net_state \<Rightarrow> bool" where
  "answered sender s s' \<longleftrightarrow> (\<exists>rp. outbox s' = outbox s @ [(sender, Reply rp)])"

lemma send_net_reply_inv [simp]: "net_inv I (send_net_reply sender b st c n s) = net_inv I s"
  by (simp add: send_net_reply_def net_inv_def)

lemma send_net_reply_answers:
  "sock_frame s t \<Longrightarrow> outbox u = outbox t \<Longrightarrow> answered sender s (send_net_reply sender b st c n u)"
  by (simp add: send_net_reply_def sock_frame_def answered_def)

lemma bridge_wf_updates [simp]:
  "bridge_wf (u\<lparr>httpd_socket_conn_pending := x\<rparr>) = bridge_wf u"
  "bridge_wf (u\<lparr>httpd_socket_close_pending := x\<rparr>) = bridge_wf u"
  "bridge_wf (uip_listen p u) = bridge_wf u"
  by (simp_all add: bridge_wf_def uip_listen_def)

lemma net_inv_updates [simp]:
  "net_inv I (s\<lparr>sock_conn_pending := x\<rparr>) = net_inv I s"
  "net_inv I (s\<lparr>sock_conn_open := x\<rparr>) = net_inv I s"
  "net_inv I (s\<lparr>sock_tx_pending := x\<rparr>) = net_inv I s"
  "net_inv I (s\<lparr>sock_tx_len := x\<rparr>) = net_inv I s"
  "net_inv I (s\<lparr>sock_listen_port := x\<rparr>) = net_inv I s"
  "net_inv I s \<Longrightarrow> net_inv I (s\<lparr>sock_rx_len := 0\<rparr>)"
  "net_inv I s \<Longrightarrow> I d \<Longrightarrow> net_inv I (s\<lparr>nic := d\<rparr>)"
  "net_inv I (s\<lparr>stack := (stack s)\<lparr>httpd_socket_conn_pending := x\<rparr>\<rparr>) = net_inv I s"
  "net_inv I (s\<lparr>stack := (stack s)\<lparr>httpd_socket_close_pending := x\<rparr>\<rparr>) = net_inv I s"
  by (simp_all add: net_inv_def uip_wf_def)

lemma reset_socket_state_inv: "net_inv I s \<Longrightarrow> net_inv I (reset_socket_state s)"
  by (simp add: net_inv_def reset_socket_state_def uip_wf_def bridge_wf_def)

lemma uip_listen_net_inv: "net_inv I s \<Longrightarrow> net_inv I (s\<lparr>stack := uip_listen p (stack s)\<rparr>)"
  by (simp add: net_inv_def uip_wf_def uip_listen_def bridge_wf_def)

lemma handle_sock_listen_ok:
  "net_inv I s \<Longrightarrow> net_inv I (handle_sock_listen sender req s) \<and> answered sender s (handle_sock_listen sender req s)"
  using uip_listen_net_inv [OF reset_socket_state_inv [of I "s\<lparr>sock_listen_port := rq_port req\<rparr>"]]
  by (auto simp: handle_sock_listen_def Let_def answered_def send_net_reply_def reset_socket_state_def net_inv_def)

lemma sock_queue_tx_ok:
  assumes "net_inv I s"
  shows "res_ok anyfault (\<lambda>t. net_inv I t \<and> outbox t = outbox s) (sock_queue_tx req s)"
proof (cases "sock_queue_tx req s")
  case (Inr t)
  have "length b' = length b" if "memcpy_int b src n = Inr b'" for b b' src n
    using that by (auto simp: memcpy_int_def split: if_splits elim!: res_bind_InrE dest!: length_mem_write)
  note len = this
  from Inr obtain b hb where
    "memcpy_int (sock_tx_buf s) (rq_buf req) (clamp_net_length (rq_length req)) = Inr b"
    "memcpy_int (httpd_socket_tx_buf (stack s)) b (clamp_net_length (rq_length req)) = Inr hb"
    and t: "t = s\<lparr>sock_tx_len := clamp_net_length (rq_length req), sock_tx_buf := b,
      stack := (stack s)\<lparr>httpd_socket_tx_buf := hb, httpd_socket_tx_len := clamp_net_length (rq_length req),
        httpd_socket_tx_pending := 1\<rparr>, sock_tx_pending := 1\<rparr>"
    by (auto simp: sock_queue_tx_def Let_def elim!: res_bind_InrE)
  then show ?thesis
    using assms len by (simp add: Inr net_inv_def uip_wf_def bridge_wf_def)
qed simp

context frame_device
begin

abbreviation reply_ok :: "int \<Rightarrow> 'd net_state \<Rightarrow> 'd net_state res \<Rightarrow> bool" where
  "reply_ok sender s \<equiv> res_ok anyfault (\<lambda>s'. net_inv inv s' \<and> answered sender s s')"

lemma handle_raw_ok:
  assumes "net_inv inv s"
  shows "reply_ok sender s (handle_net_send earth_of sender req s)"
    and "reply_ok sender s (handle_net_recv earth_of sender req s)"
proof -
  have inv: "inv (nic s)" using assms by (simp add: net_inv_def)
  have frame: "sock_frame s s" by (simp add: sock_frame_def)
  show "reply_ok sender s (handle_net_send earth_of sender req s)"
    using assms send_inv [OF inv] frame
    by (cases "send (rq_length req) (rq_buf req) (nic s)")
      (auto simp: handle_net_send_def intro!: send_net_reply_answers)
  show "reply_ok sender s (handle_net_recv earth_of sender req s)"
    using assms recv_inv [OF inv] frame
    by (cases "recv (reply_area req) (nic s)") (auto simp: handle_net_recv_def intro!: send_net_reply_answers)
qed

lemma handle_sock_accept_ok:
  assumes "net_inv inv s"
  shows "reply_ok sender s (handle_sock_accept earth_of sender req s)"
  unfolding handle_sock_accept_def
  by (rule res_ok_bind [OF net_poll_ok [OF assms]])
    (auto simp: Let_def send_net_reply_def answered_def sock_frame_def net_inv_def uip_wf_def bridge_wf_def)

lemma handle_sock_recv_ok:
  assumes "net_inv inv s"
  shows "reply_ok sender s (handle_sock_recv earth_of sender req s)"
  unfolding handle_sock_recv_def
proof (rule res_ok_bind [OF net_poll_ok [OF assms]])
  fix t assume t: "net_inv inv t \<and> sock_frame s t"
  have "reply_ok sender s (res_bind m (\<lambda>b. Inr (send_net_reply sender b st c n (t\<lparr>sock_rx_len := 0\<rparr>))))" for m st c n
    using t by (cases m) (auto intro!: send_net_reply_answers)
  with t show "reply_ok sender s
     (if sock_listen_port t < 0 \<or> rq_conn_id req \<noteq> sock_conn_id t
       then Inr (send_net_reply sender (reply_area req) NET_INVALID (rq_conn_id req) 0 t)
       else if sock_rx_len t > 0
       then let rx_len = (if sock_rx_len t > rq_length req then rq_length req else sock_rx_len t)
            in res_bind (memcpy_int (reply_area req) (sock_rx_buf t) rx_len) (\<lambda>b.
                 Inr (send_net_reply sender b NET_OK (rq_conn_id req) rx_len (t\<lparr>sock_rx_len := 0\<rparr>)))
       else if sock_conn_closed t \<noteq> 0 \<or> sock_conn_open t = 0
       then Inr (send_net_reply sender (reply_area req) NET_CLOSED (rq_conn_id req) 0 t)
       else Inr (send_net_reply sender (reply_area req) NET_WOULD_BLOCK (rq_conn_id req) 0 t))"
    by (auto simp: Let_def intro!: send_net_reply_answers)
qed

lemma handle_sock_close_ok:
  assumes "net_inv inv s"
  shows "reply_ok sender s (handle_sock_close earth_of sender req s)"
  unfolding handle_sock_close_def
proof (rule res_ok_bind [OF net_poll_ok [OF assms]])
  fix t assume t: "net_inv inv t \<and> sock_frame s t"
  let ?u = "t\<lparr>stack := (stack t)\<lparr>httpd_socket_close_pending := 1\<rparr>\<rparr>"
  have "step_ok ?u (net_kick_close earth_of ?u)"
    unfolding net_kick_close_def using t by (intro kick_active_connection_ok) simp
  then have "reply_ok sender s (res_bind (net_kick_close earth_of ?u) (\<lambda>s.
              Inr (send_net_reply sender (reply_area req) NET_OK (rq_conn_id req) 0
                (s\<lparr>sock_conn_open := 0, sock_conn_pending := 0, sock_tx_pending := 0, sock_rx_len := 0\<rparr>))))"
    using t by (cases "net_kick_close earth_of ?u")
      (auto simp: net_inv_def answered_def send_net_reply_def sock_frame_def)
  with t show "reply_ok sender s (if \<not> socket_conn_valid (rq_conn_id req) t
       then Inr (send_net_reply sender (reply_area req) NET_INVALID (rq_conn_id req) 0 t)
       else
         let s = t\<lparr>stack := (stack t)\<lparr>httpd_socket_close_pending := 1\<rparr>\<rparr>
         in res_bind (net_kick_close earth_of s) (\<lambda>s.
              Inr (send_net_reply sender (reply_area req) NET_OK (rq_conn_id req) 0
                (s\<lparr>sock_conn_open := 0, sock_conn_pending := 0, sock_tx_pending := 0, sock_rx_len := 0\<rparr>))))"
    by (auto simp: Let_def intro!: send_net_reply_answers)
qed

lemma net_kick_tx_ok: "net_inv inv s \<Longrightarrow> step_ok s (net_kick_tx earth_of s)"
  by (simp add: net_kick_tx_def kick_active_connection_ok) (simp add: sock_frame_def)

lemma handle_sock_send_ok:
  assumes "net_inv inv s"
  shows "reply_ok sender s (handle_sock_send earth_of sender req s)"
  unfolding handle_sock_send_def
proof (rule res_ok_bind [OF net_poll_ok [OF assms]])
  fix t assume t: "net_inv inv t \<and> sock_frame s t"
  have "reply_ok sender s (res_bind (sock_queue_tx req t) (\<lambda>s.
         res_bind (net_kick_tx earth_of s) (\<lambda>s.
           Inr (send_net_reply sender (reply_area req) NET_OK (rq_conn_id req) (sock_tx_len s) s))))"
  proof (rule res_ok_bind [OF sock_queue_tx_ok])
    fix u assume u: "net_inv inv u \<and> outbox u = outbox t"
    show "reply_ok sender s (res_bind (net_kick_tx earth_of u) (\<lambda>s.
           Inr (send_net_reply sender (reply_area req) NET_OK (rq_conn_id req) (sock_tx_len s) s)))"
      using t u by (intro res_ok_bind [OF net_kick_tx_ok]) (auto simp: answered_def send_net_reply_def sock_frame_def net_inv_def)
  qed (use t in simp)
  with t show "reply_ok sender s
      (if sock_listen_port t < 0 \<or> \<not> socket_conn_valid (rq_conn_id req) t
       then Inr (send_net_reply sender (reply_area req) NET_INVALID (rq_conn_id req) 0 t)
       else if sock_tx_pending t \<noteq> 0
       then Inr (send_net_reply sender (reply_area req) NET_WOULD_BLOCK (rq_conn_id req) 0 t)
       else
         res_bind (sock_queue_tx req t) (\<lambda>s.
         res_bind (net_kick_tx earth_of s) (\<lambda>s.
           Inr (send_net_reply sender (reply_area req) NET_OK (rq_conn_id req) (sock_tx_len s) s))))"
    by (auto intro!: send_net_reply_answers)
qed

lemma sys_net_step_ok:
  assumes "net_inv inv s"
  shows "reply_ok sender s (sys_net_step earth_of (sender, req) s)"
  using assms handle_sock_listen_ok [OF assms]
  by (cases "rq_type req")
    (simp_all add: sys_net_step_def handle_raw_ok handle_sock_accept_ok handle_sock_recv_ok handle_sock_send_ok
      handle_sock_close_ok)

lemma sys_net_run_ok:
  assumes "net_inv inv s"
  shows "res_ok anyfault (\<lambda>s'. net_inv inv s' \<and>
    (\<exists>rs. length rs = length ms \<and> outbox s' = outbox s @ zip (map fst ms) (map Reply rs))) (sys_net_run earth_of ms s)"
  using assms
proof (induction ms arbitrary: s)
  case (Cons m ms)
  obtain sender req where m: "m = (sender, req)" by (cases m)
  show ?case
  proof (cases "sys_net_step earth_of m s")
    case (Inr t)
    then have t: "net_inv inv t" "answered sender s t"
      using sys_net_step_ok [OF Cons.prems, of sender req] by (simp_all add: m)
    then obtain rp where rp: "outbox t = outbox s @ [(sender, Reply rp)]"
      by (auto simp: answered_def)
    have "\<exists>rs'. length rs' = Suc (length ms) \<and>
        outbox t @ zip (map fst ms) (map Reply rs) = outbox s @ zip (map fst (m # ms)) (map Reply rs')"
      if "length rs = length ms" for rs
      using that by (intro exI [of _ "rp # rs"]) (simp add: rp m)
    then show ?thesis
      using Cons.IH [OF t(1)] by (auto simp: Inr intro: res_ok_mono)
  qed simp
qed simp

end

end
