(* ===== verification/Uip_Segment.thy ===== *)
theory Uip_Segment
  imports Httpd
begin

text \<open>
  Segments as values: what a segment in the packet buffer says, which segment a connection sends, and how an
  accepted segment reaches the code that treats it. The lemmas here describe the output labels of
  \<^verbatim>\<open>uip_process()\<close> by the segment they leave in the buffer.
\<close>

section \<open>What an outgoing segment carries\<close>

text \<open>The bytes that the computation of lengths, checksums and the IP header leaves alone.\<close>

definition kept :: "nat \<Rightarrow> bool" where
  "kept i \<longleftrightarrow> i < 14 \<or> i = 23 \<or> 26 \<le> i \<and> i < 50 \<or> 54 \<le> i"

lemma ip_send_nolen_kept: "kept i \<Longrightarrow> buf8 (ip_send_nolen s) i = buf8 s i"
  by (auto simp: kept_def buf8_def intro!: ip_send_nolen_nth)

lemma ip_send_nolen_header:
  assumes "34 \<le> length (uip_buf s)"
  shows "buf8 (ip_send_nolen s) o_vhl = 0x45" "buf8 (ip_send_nolen s) o_ipoffset = 0" "buf8 (ip_send_nolen s) (o_ipoffset + 1) = 0"
    "buf8 (ip_send_nolen s) o_proto = buf8 s o_proto" "ip_total_len (ip_send_nolen s) = ip_total_len s"
  using assms by (simp_all add: ip_send_nolen_kept kept_def ip_total_len_be16 ip_send_nolen_nth)
    (simp_all add: ip_send_nolen_def Let_def buf8_def nth_put16 send_packet_def)

lemma tcp_prep_kept: "kept i \<Longrightarrow> buf8 (tcp_prep s) i = buf8 s i"
  by (auto simp: kept_def tcp_prep_def buf8_other)

text \<open>The configured addresses, which no operation of the stack changes.\<close>

definition net_config :: "'a uip_scheme \<Rightarrow> ip4addr \<times> ip4addr \<times> ip4addr \<times> bytes" where
  "net_config s = (uip_hostaddr s, uip_draddr s, uip_netmask s, uip_ethaddr s)"

lemma net_config_frame [simp]:
  "net_config (s\<lparr>uip_len := x1\<rparr>) = net_config s" "net_config (s\<lparr>uip_slen := x1\<rparr>) = net_config s"
  "net_config (s\<lparr>uip_flags := x2\<rparr>) = net_config s" "net_config (s\<lparr>uip_conn := x3\<rparr>) = net_config s"
  "net_config (s\<lparr>uip_appdata := x4\<rparr>) = net_config s" "net_config (s\<lparr>uip_sappdata := x4\<rparr>) = net_config s"
  "net_config (s\<lparr>uip_buf := x5\<rparr>) = net_config s" "net_config (s\<lparr>ipid := x6\<rparr>) = net_config s"
  "net_config (s\<lparr>iss := x7\<rparr>) = net_config s"
  "net_config (set8 i v s) = net_config s" "net_config (set16 i w s) = net_config s"
  "net_config (set_addr i a s) = net_config s" "net_config (upd_conn r f s) = net_config s"
  "net_config (count_stat g s) = net_config s"
  by (simp_all add: net_config_def set8_def set16_def set_addr_def upd_conn_def count_stat_def)

lemma net_config_set_quad [simp]: "net_config (set_quad i q s) = net_config s"
  by (cases q) simp

lemma tcp_send_noconn_config: "tcp_send_noconn s = Inr s' \<Longrightarrow> net_config s' = net_config s"
  by (auto simp: tcp_send_noconn_def ip_send_nolen_def send_packet_def Let_def elim!: res_bind_InrE)

lemma tcp_send_config: "tcp_send r s = Inr s' \<Longrightarrow> net_config s' = net_config s"
  by (auto simp: tcp_send_def Let_def dest!: tcp_send_noconn_config)

lemma tcp_send_noconn_frame:
  assumes "tcp_send_noconn s = Inr s'"
  shows "kept i \<Longrightarrow> buf8 s' i = buf8 s i"
    and "uip_len s' = uip_len s" and "uip_conns s' = uip_conns s" and "uip_hostaddr s' = uip_hostaddr s"
    and "length (uip_buf s') = length (uip_buf s)" and "uip.more s' = uip.more s" and "uip_conn s' = uip_conn s"
    and "uip_listenports s' = uip_listenports s"
proof -
  obtain cs where s': "s' = ip_send_nolen (set16 o_tcpchksum (NOT cs) (tcp_prep s))"
    using assms by (auto simp: tcp_send_noconn_prep elim!: res_bind_InrE)
  show "kept i \<Longrightarrow> buf8 s' i = buf8 s i"
    unfolding s' by (subst ip_send_nolen_kept, assumption, subst buf8_other) (auto simp: kept_def tcp_prep_kept)
  show "uip_len s' = uip_len s" "uip_conns s' = uip_conns s" "uip_hostaddr s' = uip_hostaddr s"
    "length (uip_buf s') = length (uip_buf s)" "uip.more s' = uip.more s" "uip_conn s' = uip_conn s"
    "uip_listenports s' = uip_listenports s"
    by (simp_all add: s' set16_def)
qed

text \<open>A complete TCP packet in the buffer: the length, the header of a packet that is no fragment, and both checksums.\<close>

definition tcp_ok :: "'a uip_scheme \<Rightarrow> bool" where
  "tcp_ok s \<longleftrightarrow> ip_total_len s = uip_len s \<and> 40 \<le> uip_len s \<and> uip_len s \<le> 406 \<and> buf8 s o_vhl = 0x45 \<and>
     buf8 s o_ipoffset = 0 \<and> buf8 s (o_ipoffset + 1) = 0 \<and> buf8 s o_proto = UIP_PROTO_TCP \<and>
     uip_ipchksum s = 0xffff \<and> uip_tcpchksum s = Inr 0xffff"

lemma tcp_send_noconn_complete:
  assumes wf: "uip_wf s" and len: "40 \<le> uip_len s" "uip_len s \<le> 406" and proto: "buf8 s o_proto = UIP_PROTO_TCP"
    and send: "tcp_send_noconn s = Inr s'"
  shows "tcp_ok s'"
proof -
  note L = uip_wf_lengths(1) [OF wf]
  obtain cs where s': "s' = ip_send_nolen (set16 o_tcpchksum (NOT cs) (tcp_prep s))"
    using send by (auto simp: tcp_send_noconn_prep elim!: res_bind_InrE)
  have l: "34 \<le> length (uip_buf (set16 o_tcpchksum (NOT cs) (tcp_prep s)))" using L by simp
  have p: "buf8 s' o_proto = UIP_PROTO_TCP" "uip_len s' = uip_len s"
    using tcp_send_noconn_frame(1,2) [OF send] proto by (simp_all add: kept_def)
  have "out_ok s'"
    using tcp_send_noconn_ok [of "\<lambda>_. True" s "\<lambda>_. False"] wf len send by (simp add: uip_inv_def)
  then show ?thesis
    using len p ip_send_nolen_header(1-3) [OF l] ip_send_nolen_chksum [OF l] by (auto simp: tcp_ok_def out_ok_def s')
qed

lemma tcp_send_complete:
  assumes wf: "uip_wf s" and len: "40 \<le> uip_len s" "uip_len s \<le> 406" and send: "tcp_send r s = Inr s'"
  shows "tcp_ok s'"
  using uip_wf_lengths(1) [OF wf] wf len
  by (intro tcp_send_noconn_complete [OF _ _ _ _ send [unfolded tcp_send_def Let_def]]) (simp_all add: buf_rw)

text \<open>A segment: its header fields and its data.\<close>

record segment =
  sg_src :: ip4addr
  sg_dest :: ip4addr
  sg_srcport :: u16
  sg_destport :: u16
  sg_seq :: quad
  sg_ack :: quad
  sg_offset :: u8
  sg_flags :: u8
  sg_wnd :: u16
  sg_data :: bytes

definition segment_of :: "'a uip_scheme \<Rightarrow> segment" where
  "segment_of s =
     \<lparr>sg_src = buf_addr s o_srcipaddr, sg_dest = buf_addr s o_destipaddr,
      sg_srcport = buf16 s o_srcport, sg_destport = buf16 s o_destport,
      sg_seq = buf_quad s o_seqno, sg_ack = buf_quad s o_ackno,
      sg_offset = buf8 s o_tcpoffset, sg_flags = buf8 s o_flags,
      sg_wnd = be16 (buf8 s o_wnd) (buf8 s (o_wnd + 1)),
      sg_data = take (unat (uip_len s) - 20 - 4 * (unat (buf8 s o_tcpoffset) div 16))
                  (drop (34 + 4 * (unat (buf8 s o_tcpoffset) div 16)) (uip_buf s))\<rparr>"

lemma segment_of_cong:
  assumes "\<And>i. 26 \<le> i \<Longrightarrow> i < 50 \<Longrightarrow> buf8 t i = buf8 s i"
    and "\<And>i. 54 \<le> i \<Longrightarrow> buf8 t i = buf8 s i" and "length (uip_buf t) = length (uip_buf s)"
    and "uip_len t = uip_len s" and "20 \<le> 4 * (unat (buf8 s o_tcpoffset) div 16)"
  shows "segment_of t = segment_of s"
proof -
  have hdr: "buf8 t 46 = buf8 s 46" by (simp add: assms(1))
  have "take n (drop m (uip_buf t)) = take n (drop m (uip_buf s))" if "54 \<le> m" for n m
    using that assms(2,3) by (auto simp: buf8_def intro!: nth_equalityI)
  from this [of "34 + 4 * (unat (buf8 s o_tcpoffset) div 16)"] assms(5)
  show ?thesis
    by (simp add: segment_of_def hdr assms(1,4) buf_bytes)
qed

lemma tcp_send_noconn_segment:
  assumes "tcp_send_noconn s = Inr s'" and "20 \<le> 4 * (unat (buf8 s o_tcpoffset) div 16)"
  shows "segment_of s' = segment_of s"
  using tcp_send_noconn_frame [OF assms(1)] assms(2)
  by (intro segment_of_cong) (simp_all add: kept_def)

lemma be16_zero: "be16 0 0 = 0"
  by (simp add: be16_def)

lemma tcp_send_segment:
  assumes "tcp_send r s = Inr s'" and "20 \<le> 4 * (unat (buf8 s o_tcpoffset) div 16)" and "length (uip_buf s) = 422"
  shows "segment_of s' = (segment_of s)\<lparr>sg_src := uip_hostaddr s, sg_dest := ripaddr (conn_at s r),
     sg_srcport := lport (conn_at s r), sg_destport := rport (conn_at s r),
     sg_seq := snd_nxt (conn_at s r), sg_ack := rcv_nxt (conn_at s r),
     sg_wnd := (if tcpstateflags (conn_at s r) AND UIP_STOPPED \<noteq> 0 then 0 else UIP_RECEIVE_WINDOW)\<rparr>"
proof -
  let ?c = "conn_at s r"
  define t where "t = (let s = set_addr o_destipaddr (ripaddr ?c) (set_addr o_srcipaddr (uip_hostaddr s)
      (set16 o_destport (rport ?c) (set16 o_srcport (lport ?c) (set8 o_proto UIP_PROTO_TCP
      (set_quad o_seqno (snd_nxt ?c) (set_quad o_ackno (rcv_nxt ?c) s))))))
     in if tcpstateflags ?c AND UIP_STOPPED \<noteq> 0 then set8 o_wnd 0 (set8 (o_wnd + 1) 0 s)
        else set8 (o_wnd + 1) (lo8 UIP_RECEIVE_WINDOW) (set8 o_wnd (hi8 UIP_RECEIVE_WINDOW) s))"
  have t: "tcp_send r s = tcp_send_noconn t"
    by (simp add: tcp_send_def t_def Let_def)
  have data: "drop m (uip_buf t) = drop m (uip_buf s)" if "54 \<le> m" for m
    using that by (cases "snd_nxt ?c"; cases "rcv_nxt ?c") (simp add: t_def Let_def put16_def)
  have off: "buf8 t o_tcpoffset = buf8 s o_tcpoffset" 
    by (simp add: t_def Let_def buf_rw)
  have f: "buf_addr t o_srcipaddr = uip_hostaddr s" "buf_addr t o_destipaddr = ripaddr ?c"
    "buf16 t o_srcport = lport ?c" "buf16 t o_destport = rport ?c"
    "buf_quad t o_seqno = snd_nxt ?c" "buf_quad t o_ackno = rcv_nxt ?c"
    "buf8 t o_flags = buf8 s o_flags" "uip_len t = uip_len s"
    "be16 (buf8 t o_wnd) (buf8 t (o_wnd + 1)) =
       (if tcpstateflags ?c AND UIP_STOPPED \<noteq> 0 then 0 else UIP_RECEIVE_WINDOW)"
    using assms(3) by (simp_all add: t_def Let_def buf_rw be16_zero)
  have "segment_of s' = segment_of t"
    using assms(1,2) t off by (intro tcp_send_noconn_segment) simp_all
  also have "\<dots> = (segment_of s)\<lparr>sg_src := uip_hostaddr s, sg_dest := ripaddr ?c,
     sg_srcport := lport ?c, sg_destport := rport ?c, sg_seq := snd_nxt ?c, sg_ack := rcv_nxt ?c,
     sg_wnd := (if tcpstateflags ?c AND UIP_STOPPED \<noteq> 0 then 0 else UIP_RECEIVE_WINDOW)\<rparr>"
    using assms(2) f by (simp add: segment_of_def off data)
  finally show ?thesis .
qed

text \<open>The segment a connection sends, with the given flags and data.\<close>

definition conn_segment :: "'a uip_scheme \<Rightarrow> nat \<Rightarrow> u8 \<Rightarrow> bytes \<Rightarrow> segment" where
  "conn_segment s r flags data =
     (let c = conn_at s r in
      \<lparr>sg_src = uip_hostaddr s, sg_dest = ripaddr c, sg_srcport = lport c, sg_destport = rport c,
       sg_seq = snd_nxt c, sg_ack = rcv_nxt c, sg_offset = 0x50, sg_flags = flags,
       sg_wnd = (if tcpstateflags c AND UIP_STOPPED \<noteq> 0 then 0 else UIP_RECEIVE_WINDOW), sg_data = data\<rparr>)"

lemma set8_conns [simp]:
  "uip_conns (set8 i v s) = uip_conns s" "uip_listenports (set8 i v s) = uip_listenports s"
  by (simp_all add: set8_def)

lemma tcp_send_frame:
  assumes "tcp_send r s = Inr s'"
  shows "uip_len s' = uip_len s" and "uip_conns s' = uip_conns s" and "uip.more s' = uip.more s"
    and "uip_listenports s' = uip_listenports s" and "uip_hostaddr s' = uip_hostaddr s" and "uip_conn s' = uip_conn s"
proof -
  have conns: "uip_conns (set_quad i q t) = uip_conns t" "uip_listenports (set_quad i q t) = uip_listenports t"
    "uip_conn (set_quad i q t) = uip_conn t"
    for i q and t :: "'a uip_scheme"
    by (cases q; simp add: set8_def)+
  show "uip_len s' = uip_len s" "uip_conns s' = uip_conns s" "uip.more s' = uip.more s"
    "uip_listenports s' = uip_listenports s" "uip_hostaddr s' = uip_hostaddr s" "uip_conn s' = uip_conn s"
    using tcp_send_noconn_frame(2-4,6-8) [OF assms [unfolded tcp_send_def Let_def]]
    by (simp_all add: conns split: if_splits) (simp_all add: set8_def set16_def set_addr_def conns)
qed

lemma tcp_send_noopts_spec:
  assumes wf: "uip_wf s" and len: "40 \<le> uip_len s" "uip_len s \<le> 406"
  shows "\<exists>s'. tcp_send_noopts r s = Inr s' \<and> uip_wf s' \<and> tcp_ok s' \<and> uip_len s' = uip_len s \<and>
    uip_conns s' = uip_conns s \<and> uip.more s' = uip.more s \<and> uip_listenports s' = uip_listenports s \<and>
    net_config s' = net_config s \<and>
    segment_of s' = conn_segment s r (buf8 s o_flags) (take (unat (uip_len s) - 40) (drop 54 (uip_buf s)))"
proof -
  have inv: "uip_inv (\<lambda>_. True) s" using wf by (simp add: uip_inv_def)
  obtain s' where s': "tcp_send_noopts r s = Inr s'" "uip_wf s'"
    using tcp_send_noopts_ok [OF inv len, of "\<lambda>_. False" r] by (auto simp: res_ok_total uip_inv_def)
  let ?t = "set8 o_tcpoffset 0x50 s"
  have send: "tcp_send r ?t = Inr s'" using s'(1) by (simp add: tcp_send_noopts_def)
  note L = uip_wf_lengths(1) [OF wf]
  have off: "buf8 ?t o_tcpoffset = 0x50" using L by (simp add: buf_same)
  have "segment_of ?t = \<lparr>sg_src = buf_addr s o_srcipaddr, sg_dest = buf_addr s o_destipaddr,
      sg_srcport = buf16 s o_srcport, sg_destport = buf16 s o_destport,
      sg_seq = buf_quad s o_seqno, sg_ack = buf_quad s o_ackno, sg_offset = 0x50, sg_flags = buf8 s o_flags,
      sg_wnd = be16 (buf8 s o_wnd) (buf8 s (o_wnd + 1)),
      sg_data = take (unat (uip_len s) - 40) (drop 54 (uip_buf s))\<rparr>"
    unfolding segment_of_def off by (simp add: buf_rw)
  then have "segment_of s' = conn_segment s r (buf8 s o_flags) (take (unat (uip_len s) - 40) (drop 54 (uip_buf s)))"
    using tcp_send_segment [OF send] off L by (simp add: conn_segment_def Let_def)
  moreover have "tcp_ok s'" using wf len by (intro tcp_send_complete [OF _ _ _ send]) simp_all
  ultimately show ?thesis using s' tcp_send_frame [OF send] tcp_send_config [OF send] by auto
qed

text \<open>The state in which the TCP code looks at the segment.\<close>

definition tcp_rx :: "'a uip_scheme \<Rightarrow> 'a uip_scheme" where
  "tcp_rx s = count_stat (\<lambda>t. t\<lparr>tcp_recv := tcp_recv t + 1\<rparr>)
     ((count_stat (\<lambda>t. t\<lparr>ip_recv := ip_recv t + 1\<rparr>) (s\<lparr>uip_sappdata := 54, uip_appdata := 54\<rparr>))
        \<lparr>uip_len := ip_total_len s\<rparr>)"

lemma tcp_rx_frame [simp]:
  "uip_buf (tcp_rx s) = uip_buf s" "uip_conns (tcp_rx s) = uip_conns s" "uip_listenports (tcp_rx s) = uip_listenports s"
  "uip_hostaddr (tcp_rx s) = uip_hostaddr s" "uip_len (tcp_rx s) = ip_total_len s" "uip_sappdata (tcp_rx s) = 54"
  "uip_appdata (tcp_rx s) = 54" "uip.more (tcp_rx s) = uip.more s" "uip_wf (tcp_rx s) = uip_wf s" "iss (tcp_rx s) = iss s"
  "conn_at (tcp_rx s) r = conn_at s r"
  by (simp_all add: tcp_rx_def) (simp_all add: count_stat_def)

lemma conn_segment_frame [simp]:
  "conn_segment (s\<lparr>uip_len := x1\<rparr>) r = conn_segment s r"
  "conn_segment (s\<lparr>uip_flags := x2\<rparr>) r = conn_segment s r"
  "conn_segment (s\<lparr>uip_slen := x1\<rparr>) r = conn_segment s r"
  "conn_segment (set8 i v s) r = conn_segment s r"
  "conn_segment (tcp_rx s) r = conn_segment s r"
  by (simp_all add: conn_segment_def fun_eq_iff)

lemma tcp_send_nodata_spec:
  assumes wf: "uip_wf s"
  shows "\<exists>s'. tcp_send_nodata r s = Inr s' \<and> uip_wf s' \<and> tcp_ok s' \<and> uip_len s' = 40 \<and>
    uip_conns s' = uip_conns s \<and> uip.more s' = uip.more s \<and> uip_listenports s' = uip_listenports s \<and>
    net_config s' = net_config s \<and> segment_of s' = conn_segment s r (buf8 s o_flags) []"
  using tcp_send_noopts_spec [of "s\<lparr>uip_len := 40\<rparr>" r] wf
  by (simp add: tcp_send_nodata_def)

lemma tcp_send_ack_spec:
  assumes wf: "uip_wf s"
  shows "\<exists>s'. tcp_send_ack r s = Inr s' \<and> uip_wf s' \<and> tcp_ok s' \<and> uip_len s' = 40 \<and>
    uip_conns s' = uip_conns s \<and> uip.more s' = uip.more s \<and> uip_listenports s' = uip_listenports s \<and>
    net_config s' = net_config s \<and> segment_of s' = conn_segment s r TCP_ACK []"
  using tcp_send_nodata_spec [of "set8 o_flags TCP_ACK s" r] wf uip_wf_lengths(1) [OF wf]
  by (simp add: tcp_send_ack_def buf_same)

section \<open>Packets on the way\<close>

lemma buf8_slice:
  assumes "take n (drop 14 (uip_buf t)) = take n (drop 14 (uip_buf s))" and "14 \<le> i" and "i < 14 + n"
    and "14 + n \<le> length (uip_buf s)" and "14 + n \<le> length (uip_buf t)"
  shows "buf8 t i = buf8 s i"
  using arg_cong [OF assms(1), of "\<lambda>b. b ! (i - 14)"] assms(2-) by (simp add: buf8_def)

lemma buf_slice:
  assumes sl: "take n (drop 14 (uip_buf t)) = take n (drop 14 (uip_buf s))" and len: "14 + n \<le> length (uip_buf s)" "14 + n \<le> length (uip_buf t)"
    and i: "14 \<le> i" "i + m \<le> 14 + n"
  shows "take m (drop i (uip_buf t)) = take m (drop i (uip_buf s))"
  using buf8_slice [OF sl _ _ len] i len by (auto simp: buf8_def intro!: nth_equalityI)

section \<open>Accepted segments\<close>

definition valid_tcp :: "'a uip_scheme \<Rightarrow> bool" where
  "valid_tcp s \<longleftrightarrow>
     buf8 s o_vhl = 0x45 \<and> ip_total_len s \<le> uip_len s \<and>
     buf8 s o_ipoffset AND 0x3f = 0 \<and> buf8 s (o_ipoffset + 1) = 0 \<and>
     (uip_hostaddr s = (0, 0) \<or> buf_addr s o_destipaddr = uip_hostaddr s) \<and>
     uip_ipchksum s = 0xffff \<and> buf8 s o_proto = UIP_PROTO_TCP \<and> uip_tcpchksum s = Inr 0xffff"

lemma same_buf:
  assumes "uip_buf t = uip_buf s"
  shows "buf8 t i = buf8 s i" "buf16 t i = buf16 s i" "buf_addr t i = buf_addr s i" "buf_quad t i = buf_quad s i"
    "uip_ipchksum t = uip_ipchksum s" "uip_tcpchksum t = uip_tcpchksum s" "ip_total_len t = ip_total_len s"
  using assms by (simp_all add: buf8_def buf16_def buf_addr_def buf_quad_def uip_ipchksum_def uip_tcpchksum_def
      upper_layer_chksum_def upper_layer_len_def ip_total_len_def)

lemmas tcp_rx_buf [simp] = same_buf [OF tcp_rx_frame(1)]

lemma conn_matches_tcp_rx [simp]: "conn_matches (tcp_rx s) = conn_matches s"
  by (rule ext) (simp add: conn_matches_def)

lemma uip_input_valid:
  assumes "valid_tcp s"
  shows "uip_input app s =
    (case first_index (conn_matches s) (uip_conns s) of
       Some r \<Rightarrow> found app r (tcp_rx s)
     | None \<Rightarrow>
         if buf8 s o_flags AND TCP_CTL \<noteq> TCP_SYN then tcp_reset (tcp_rx s)
         else if buf16 s o_destport \<in> set (uip_listenports s) then found_listen (tcp_rx s)
         else tcp_reset (count_stat (\<lambda>t. t\<lparr>tcp_synrst := tcp_synrst t + 1\<rparr>) (tcp_rx s)))"
proof -
  define u where "u = (count_stat (\<lambda>t. t\<lparr>ip_recv := ip_recv t + 1\<rparr>) (s\<lparr>uip_sappdata := 54, uip_appdata := 54\<rparr>))
        \<lparr>uip_len := ip_total_len s\<rparr>"
  have b: "uip_buf u = uip_buf s" "uip_hostaddr u = uip_hostaddr s" by (simp_all add: u_def)
  have "uip_input app s = tcp_input app u"
    using assms unfolding uip_input_def uip_process_def ip_input_def Let_def u_def valid_tcp_def
    by (auto simp: uip_ipaddr_cmp_def prod_eq_iff same_buf(5) [OF b(1), unfolded u_def])
  also have "\<dots> = (case first_index (conn_matches s) (uip_conns s) of
       Some r \<Rightarrow> found app r (tcp_rx s)
     | None \<Rightarrow>
         if buf8 s o_flags AND TCP_CTL \<noteq> TCP_SYN then tcp_reset (tcp_rx s)
         else if buf16 s o_destport \<in> set (uip_listenports s) then found_listen (tcp_rx s)
         else tcp_reset (count_stat (\<lambda>t. t\<lparr>tcp_synrst := tcp_synrst t + 1\<rparr>) (tcp_rx s)))"
  proof -
    have "count_stat (\<lambda>t. t\<lparr>tcp_recv := tcp_recv t + 1\<rparr>) u = tcp_rx s"
      by (simp add: tcp_rx_def u_def)
    then show ?thesis
      using assms by (simp add: tcp_input_def Let_def valid_tcp_def)
  qed
  finally show ?thesis .
qed

end
