(* ===== verification/Uip_Examples.thy ===== *)
theory Uip_Examples
  imports Httpd
begin

text \<open>
  Concrete states and frames, on which the properties of the TCP and ICMP input are applied: a stack at 10.0.2.15
  that listens on port 80, the same with one established connection, and frames from 10.0.2.2 with valid
  checksums.
\<close>

section \<open>States\<close>

text \<open>The zero-initialised variables of the stack and of the bridge.\<close>

definition httpd_bss :: httpd_uip where
  "httpd_bss = uip.extend (uip.truncate (uip_bss ()))
     (httpd_uip.fields 0 0 0 0 (replicate UIP_BUFSIZE 0) 0 0 (replicate UIP_BUFSIZE 0) 0)"

text \<open>After the initialisation of the service and a listen request for port 80.\<close>

definition web_stack :: httpd_uip where
  "web_stack = uip_listen (HTONS 80) ((uip_init httpd_bss)
     \<lparr>uip_hostaddr := uip_ipaddr 10 0 2 15, uip_draddr := uip_ipaddr 10 0 2 2,
      uip_netmask := uip_ipaddr 255 255 255 0, uip_ethaddr := [0x52, 0x54, 0, 0, 0, 1]\<rparr>)"

definition web_conn :: uip_conn_t where
  "web_conn = \<lparr>ripaddr = uip_ipaddr 10 0 2 2, lport = HTONS 80, rport = HTONS 1234,
     rcv_nxt = (0, 0, 3, 233), snd_nxt = (0, 0, 0, 1), conn_len = 0, mss = 366, initialmss = 366,
     sa = 0, sv = 4, rto = UIP_RTO, tcpstateflags = UIP_ESTABLISHED, timer = UIP_RTO, nrtx = 0\<rparr>"

definition web_established :: httpd_uip where
  "web_established = web_stack\<lparr>uip_conns := (uip_conns web_stack)[0 := web_conn]\<rparr>"

text \<open>The same with five bytes queued by the service.\<close>

definition web_sending :: httpd_uip where
  "web_sending = web_established\<lparr>httpd_socket_tx_pending := 1, httpd_socket_tx_len := 5,
     httpd_socket_tx_buf := [104, 101, 108, 108, 111] @ replicate 415 0\<rparr>"

definition with_packet :: "bytes \<Rightarrow> 'a uip_scheme \<Rightarrow> 'a uip_scheme" where
  "with_packet p s = s\<lparr>uip_buf := p @ drop (length p) (uip_buf s), uip_len := of_nat (length p)\<rparr>"

section \<open>Frames\<close>

text \<open>A SYN to port 80 with an MSS option.\<close>

definition syn_packet :: bytes where
  "syn_packet = [
     82, 84, 0, 0, 0, 1, 82, 85, 10, 0, 2, 2, 8, 0, 69, 0, 0, 44, 0, 1, 0, 0, 64, 6, 98, 187, 10,
     0, 2, 2, 10, 0, 2, 15, 4, 210, 0, 80, 0, 0, 3, 232, 0, 0, 0, 0, 96, 2, 32, 0, 87, 12, 0, 0,
     2, 4, 5, 180]"

text \<open>The acknowledgement that completes the handshake.\<close>

definition ack_packet :: bytes where
  "ack_packet = [
     82, 84, 0, 0, 0, 1, 82, 85, 10, 0, 2, 2, 8, 0, 69, 0, 0, 40, 0, 1, 0, 0, 64, 6, 98, 191, 10,
     0, 2, 2, 10, 0, 2, 15, 4, 210, 0, 80, 0, 0, 3, 233, 0, 0, 0, 1, 80, 16, 32, 0, 110, 184, 0,
     0]"

text \<open>Three bytes of data, in sequence.\<close>

definition get_packet :: bytes where
  "get_packet = [
     82, 84, 0, 0, 0, 1, 82, 85, 10, 0, 2, 2, 8, 0, 69, 0, 0, 43, 0, 1, 0, 0, 64, 6, 98, 188, 10,
     0, 2, 2, 10, 0, 2, 15, 4, 210, 0, 80, 0, 0, 3, 233, 0, 0, 0, 1, 80, 24, 32, 0, 211, 103, 0,
     0, 71, 69, 84]"

text \<open>The same data out of sequence.\<close>

definition late_packet :: bytes where
  "late_packet = [
     82, 84, 0, 0, 0, 1, 82, 85, 10, 0, 2, 2, 8, 0, 69, 0, 0, 43, 0, 1, 0, 0, 64, 6, 98, 188, 10,
     0, 2, 2, 10, 0, 2, 15, 4, 210, 0, 80, 0, 0, 19, 136, 0, 0, 0, 1, 80, 24, 32, 0, 195, 200, 0,
     0, 71, 69, 84]"

text \<open>A reset.\<close>

definition rst_packet :: bytes where
  "rst_packet = [
     82, 84, 0, 0, 0, 1, 82, 85, 10, 0, 2, 2, 8, 0, 69, 0, 0, 40, 0, 1, 0, 0, 64, 6, 98, 191, 10,
     0, 2, 2, 10, 0, 2, 15, 4, 210, 0, 80, 0, 0, 3, 233, 0, 0, 0, 1, 80, 4, 32, 0, 110, 196, 0, 0]"

text \<open>A FIN.\<close>

definition fin_packet :: bytes where
  "fin_packet = [
     82, 84, 0, 0, 0, 1, 82, 85, 10, 0, 2, 2, 8, 0, 69, 0, 0, 40, 0, 1, 0, 0, 64, 6, 98, 191, 10,
     0, 2, 2, 10, 0, 2, 15, 4, 210, 0, 80, 0, 0, 3, 233, 0, 0, 0, 1, 80, 17, 32, 0, 110, 183, 0,
     0]"

text \<open>A SYN to port 81.\<close>

definition stray_packet :: bytes where
  "stray_packet = [
     82, 84, 0, 0, 0, 1, 82, 85, 10, 0, 2, 2, 8, 0, 69, 0, 0, 44, 0, 1, 0, 0, 64, 6, 98, 187, 10,
     0, 2, 2, 10, 0, 2, 15, 4, 210, 0, 81, 0, 0, 3, 232, 0, 0, 0, 7, 96, 2, 32, 0, 87, 4, 0, 0,
     2, 4, 5, 180]"

text \<open>A SYN whose option bytes are 3, 1, 3, 254.\<close>

definition loop_packet :: bytes where
  "loop_packet = [
     82, 84, 0, 0, 0, 1, 82, 85, 10, 0, 2, 2, 8, 0, 69, 0, 0, 44, 0, 1, 0, 0, 64, 6, 98, 187, 10,
     0, 2, 2, 10, 0, 2, 15, 4, 210, 0, 80, 0, 0, 3, 232, 0, 0, 0, 0, 96, 2, 32, 0, 87, 197, 0, 0,
     3, 1, 3, 254]"

text \<open>An ICMP echo request.\<close>

definition echo_packet :: bytes where
  "echo_packet = [
     82, 84, 0, 0, 0, 1, 82, 85, 10, 0, 2, 2, 8, 0, 69, 0, 0, 32, 0, 1, 0, 0, 64, 1, 98, 204, 10,
     0, 2, 2, 10, 0, 2, 15, 8, 0, 25, 39, 0, 7, 0, 1, 112, 105, 110, 103]"

end
