(* ===== verification/Tcp_Props.thy ===== *)
theory Tcp_Props
  imports Uip_Segment Uip_Examples
begin

text \<open>
  The behaviour of the TCP input and output of \<^verbatim>\<open>uip_process()\<close>, with the bridge as its application: refused,
  out-of-sequence and resetting segments, passive open, data in both directions.
\<close>

text \<open>The length of the segment's data as \<^verbatim>\<open>found\<close> computes it, in 16-bit arithmetic.\<close>

definition seg_datalen :: "'a uip_scheme \<Rightarrow> u16" where
  "seg_datalen s = ip_total_len s - ucast (push_bit 2 (drop_bit 4 (buf8 s o_tcpoffset))) - UIP_IPH_LEN"

text \<open>The state in which \<^verbatim>\<open>found\<close> looks at the sequence number.\<close>

definition found_rx :: "nat \<Rightarrow> 'a uip_scheme \<Rightarrow> 'a uip_scheme" where
  "found_rx r s = (tcp_rx s)\<lparr>uip_conn := Some r, uip_flags := 0, uip_len := seg_datalen s\<rparr>"

lemma net_config_rx [simp]: "net_config (s\<lparr>uip_acc32 := x\<rparr>) = net_config s" "net_config (tcp_rx s) = net_config s"
  by (simp_all add: net_config_def tcp_rx_def count_stat_def)

lemma found_rx_frame [simp]:
  "uip_buf (found_rx r s) = uip_buf s" "uip_conns (found_rx r s) = uip_conns s"
  "uip_listenports (found_rx r s) = uip_listenports s" "uip_hostaddr (found_rx r s) = uip_hostaddr s"
  "uip_len (found_rx r s) = seg_datalen s" "uip_flags (found_rx r s) = 0" "uip_sappdata (found_rx r s) = 54"
  "uip_appdata (found_rx r s) = 54" "uip.more (found_rx r s) = uip.more s" "conn_at (found_rx r s) k = conn_at s k"
  "uip_conn (found_rx r s) = Some r" "conn_segment (found_rx r s) k = conn_segment s k" "net_config (found_rx r s) = net_config s"
  by (simp_all add: found_rx_def) (simp_all add: conn_segment_def fun_eq_iff)

lemmas found_rx_buf [simp] = same_buf [OF found_rx_frame(1)]

lemma found_rx_wf: "uip_wf s \<Longrightarrow> r < 40 \<Longrightarrow> uip_wf (found_rx r s)"
  by (simp add: found_rx_def)

lemma found_seq:
  assumes "buf8 s o_flags AND TCP_RST = 0"
  shows "found app r (tcp_rx s) =
    (if unexpected_seq r (found_rx r s) then tcp_send_ack r (found_rx r s)
     else tcp_state_input app r (tcp_ack_input r (found_rx r s)))"
  using assms by (simp add: found_def Let_def found_rx_def seg_datalen_def)

lemma unexpected_seq_found_rx:
  "unexpected_seq r (found_rx r s) \<longleftrightarrow>
     \<not> (tcp_state_of (conn_at s r) = UIP_SYN_SENT \<and> buf8 s o_flags AND TCP_CTL = TCP_SYN OR TCP_ACK) \<and>
     (seg_datalen s > 0 \<or> buf8 s o_flags AND (TCP_SYN OR TCP_FIN) \<noteq> 0) \<and>
     buf_quad s o_seqno \<noteq> rcv_nxt (conn_at s r)"
  by (simp add: unexpected_seq_def)

lemma out_of_sequence_spec:
  assumes "uip_wf s" and "valid_tcp s" and "first_index (conn_matches s) (uip_conns s) = Some r"
    and "buf8 s o_flags AND TCP_RST = 0"
    and "\<not> (tcp_state_of (conn_at s r) = UIP_SYN_SENT \<and> buf8 s o_flags AND TCP_CTL = TCP_SYN OR TCP_ACK)"
    and "seg_datalen s > 0 \<or> buf8 s o_flags AND (TCP_SYN OR TCP_FIN) \<noteq> 0"
    and "buf_quad s o_seqno \<noteq> rcv_nxt (conn_at s r)"
  shows "\<exists>s'. uip_input app s = Inr s' \<and> uip_wf s' \<and> net_config s' = net_config s \<and> uip_conns s' = uip_conns s \<and> uip.more s' = uip.more s \<and>
    uip_len s' = 40 \<and> tcp_ok s' \<and> segment_of s' = conn_segment s r TCP_ACK []"
proof -
  have "r < 40"
    using first_index_Some [OF assms(3)] uip_wf_lengths [OF assms(1)] by simp
  moreover have "unexpected_seq r (found_rx r s)"
    using assms by (simp add: unexpected_seq_found_rx)
  ultimately show ?thesis
    using tcp_send_ack_spec [OF found_rx_wf [OF assms(1)], of r r] assms(2-4)
    by (auto simp: uip_input_valid found_seq)
qed

text \<open>
  C13: a segment with data, SYN or FIN whose sequence number is not the next one expected is not processed:
  the connection table and the application's variables are unchanged, the application is not called, and the
  answer is a bare acknowledgement that repeats the sequence numbers of the connection. (Only a SYN with ACK
  in state \<^verbatim>\<open>SYN_SENT\<close> is exempt.)
\<close>

theorem out_of_sequence_acked:
  assumes "uip_wf s" and "valid_tcp s" and "first_index (conn_matches s) (uip_conns s) = Some r"
    and "buf8 s o_flags AND TCP_RST = 0"
    and "\<not> (tcp_state_of (conn_at s r) = UIP_SYN_SENT \<and> buf8 s o_flags AND TCP_CTL = TCP_SYN OR TCP_ACK)"
    and "seg_datalen s > 0 \<or> buf8 s o_flags AND (TCP_SYN OR TCP_FIN) \<noteq> 0"
    and "buf_quad s o_seqno \<noteq> rcv_nxt (conn_at s r)"
  shows "\<exists>s'. uip_input app s = Inr s' \<and> uip_conns s' = uip_conns s \<and> uip.more s' = uip.more s \<and>
    uip_len s' = 40 \<and> tcp_ok s' \<and> segment_of s' = conn_segment s r TCP_ACK []"
  using out_of_sequence_spec [OF assms] by blast

theorem out_of_sequence_acked_witness:
  "\<exists>s'. uip_input httpd_appcall (with_packet late_packet web_established) = Inr s' \<and>
     uip_conns s' = uip_conns (with_packet late_packet web_established) \<and>
     uip.more s' = uip.more (with_packet late_packet web_established) \<and> uip_len s' = 40 \<and> tcp_ok s' \<and>
     segment_of s' = conn_segment (with_packet late_packet web_established) 0 TCP_ACK []"
  by (rule out_of_sequence_acked; code_simp)

lemma httpd_abort:
  assumes "uip_flags s = UIP_ABORT"
  shows "\<exists>s'. httpd_appcall s = Inr s' \<and> uip_conns s' = uip_conns s \<and> httpd_socket_conn_open s' = 0 \<and>
    httpd_socket_conn_pending s' = 0 \<and> httpd_socket_conn_closed s' = 1"
  using assms
  by (simp add: httpd_appcall_def httpd_conn_events_def uip_closed_event_def httpd_newdata_def httpd_tx_def Let_def)

text \<open>
  A segment with the RST flag for a connection closes it: the connection is \<^verbatim>\<open>CLOSED\<close>, no other connection
  changes, nothing is sent, and the bridge reports that the connection is gone.
\<close>

lemma reset_closes_connection:
  assumes "uip_wf s" and "valid_tcp s" and "first_index (conn_matches s) (uip_conns s) = Some r"
    and "buf8 s o_flags AND TCP_RST \<noteq> 0"
  shows "\<exists>s'. uip_input httpd_appcall s = Inr s' \<and> uip_len s' = 0 \<and>
    uip_conns s' = (uip_conns s)[r := (conn_at s r)\<lparr>tcpstateflags := UIP_CLOSED\<rparr>] \<and>
    httpd_socket_conn_open s' = 0 \<and> httpd_socket_conn_closed s' = 1"
proof -
  define t where "t = (upd_conn r (\<lambda>c. c\<lparr>tcpstateflags := UIP_CLOSED\<rparr>)
    ((tcp_rx s)\<lparr>uip_conn := Some r, uip_flags := 0\<rparr>))\<lparr>uip_flags := UIP_ABORT\<rparr>"
  have "uip_flags t = UIP_ABORT" by (simp add: t_def)
  from httpd_abort [OF this] obtain u where u: "httpd_appcall t = Inr u" "uip_conns u = uip_conns t"
    "httpd_socket_conn_open u = 0" "httpd_socket_conn_closed u = 1" by blast
  have "found httpd_appcall r (tcp_rx s) = Inr (drop_packet u)"
    using assms(4) u(1) by (simp add: found_def Let_def t_def)
  moreover have "uip_conns t = (uip_conns s)[r := (conn_at s r)\<lparr>tcpstateflags := UIP_CLOSED\<rparr>]"
    by (simp add: t_def upd_conn_def conn_at_def)
  ultimately show ?thesis
    using assms(2,3) u(2-4) by (simp add: uip_input_valid drop_packet_def)
qed

lemma reset_closes_connection_example:
  "\<exists>s'. uip_input httpd_appcall (with_packet rst_packet web_established) = Inr s' \<and> uip_len s' = 0 \<and>
     uip_conns s' = (uip_conns (with_packet rst_packet web_established))
       [0 := (conn_at (with_packet rst_packet web_established) 0)\<lparr>tcpstateflags := UIP_CLOSED\<rparr>] \<and>
     httpd_socket_conn_open s' = 0 \<and> httpd_socket_conn_closed s' = 1"
  by (rule reset_closes_connection; code_simp)

lemma tcp_reset_spec:
  assumes wf: "uip_wf s" and rst: "buf8 s o_flags AND TCP_RST = 0" and proto: "buf8 s o_proto = UIP_PROTO_TCP"
  shows "\<exists>s'. tcp_reset s = Inr s' \<and> uip_wf s' \<and> tcp_ok s' \<and> uip_len s' = 40 \<and>
    uip_conns s' = uip_conns s \<and> uip.more s' = uip.more s \<and>
    sg_src (segment_of s') = uip_hostaddr s \<and> sg_dest (segment_of s') = buf_addr s o_srcipaddr \<and>
    sg_srcport (segment_of s') = buf16 s o_destport \<and> sg_destport (segment_of s') = buf16 s o_srcport \<and>
    sg_seq (segment_of s') = buf_quad s o_ackno \<and> sg_ack (segment_of s') = quad_incr (buf_quad s o_seqno) \<and>
    sg_flags (segment_of s') = TCP_RST OR TCP_ACK \<and> sg_data (segment_of s') = []"
proof -
  note L = uip_wf_lengths(1) [OF wf]
  define t where "t = (let s = count_stat (\<lambda>t. t\<lparr>tcp_rst := tcp_rst t + 1\<rparr>) s;
            s = set8 o_flags (TCP_RST OR TCP_ACK) s;
            s = s\<lparr>uip_len := UIP_IPTCPH_LEN\<rparr>;
            s = set8 o_tcpoffset 0x50 s;
            c = buf_quad s o_seqno;
            s = set_quad o_seqno (buf_quad s o_ackno) s;
            s = set_quad o_ackno c s;
            s = set_quad o_ackno (quad_incr (buf_quad s o_ackno)) s;
            tmp16 = buf16 s o_srcport;
            s = set16 o_srcport (buf16 s o_destport) s;
            s = set16 o_destport tmp16 s;
            s = set_addr o_destipaddr (buf_addr s o_srcipaddr) s
        in set_addr o_srcipaddr (uip_hostaddr s) s)"
  have reset: "tcp_reset s = tcp_send_noconn t"
    using rst by (simp add: tcp_reset_def t_def Let_def)
  have t: "buf_addr t o_srcipaddr = uip_hostaddr s" "buf_addr t o_destipaddr = buf_addr s o_srcipaddr"
    "buf16 t o_srcport = buf16 s o_destport" "buf16 t o_destport = buf16 s o_srcport"
    "buf_quad t o_seqno = buf_quad s o_ackno" "buf_quad t o_ackno = quad_incr (buf_quad s o_seqno)"
    "buf8 t o_flags = TCP_RST OR TCP_ACK" "buf8 t o_tcpoffset = 0x50" "buf8 t o_proto = UIP_PROTO_TCP"
    using L proto by (simp_all add: t_def Let_def buf_rw)
  have f: "uip_len t = 40" "uip_wf t" "uip.more t = uip.more s"
    using wf by (simp_all add: t_def Let_def)
  have conns: "uip_conns (set_quad i q u) = uip_conns u" "uip_conns (set16 i w u) = uip_conns u"
    "uip_conns (set_addr i a u) = uip_conns u" "uip_conns (count_stat g u) = uip_conns u"
    for i q w a g and u :: "'a uip_scheme"
    by (cases q; simp add: set16_def set_addr_def count_stat_def)+
  then have c: "uip_conns t = uip_conns s"
    by (simp add: t_def Let_def)
  have "uip_inv (\<lambda>_. True) t" using f by (simp add: uip_inv_def)
  from tcp_send_noconn_ok [OF this, of "\<lambda>_. False"] f(1)
  obtain s' where s': "tcp_send_noconn t = Inr s'" "uip_wf s'"
    by (auto simp: res_ok_total uip_inv_def)
  have "tcp_ok s'" using f(1) by (intro tcp_send_noconn_complete [OF f(2) _ _ t(9) s'(1)]) simp_all
  moreover have "segment_of s' = segment_of t"
    using t(8) by (intro tcp_send_noconn_segment [OF s'(1)]) simp
  moreover have "sg_data (segment_of t) = []"
    by (simp add: segment_of_def t(8) f(1))
  ultimately show ?thesis
    using reset s' t f c tcp_send_noconn_frame [OF s'(1)] by (simp add: segment_of_def)
qed

text \<open>
  C14: a segment that belongs to no connection and is not a SYN for a listening port is refused: it is answered by
  a reset with the ports and addresses exchanged, the sequence number the peer acknowledged and an
  acknowledgement of the peer's sequence number plus one; no connection and no variable of the application
  changes. A reset itself is never answered.
\<close>

theorem refused_with_reset:
  assumes "uip_wf s" and "valid_tcp s" and "first_index (conn_matches s) (uip_conns s) = None"
    and "buf8 s o_flags AND TCP_CTL \<noteq> TCP_SYN \<or> buf16 s o_destport \<notin> set (uip_listenports s)"
  shows "\<exists>s'. uip_input app s = Inr s' \<and> uip_conns s' = uip_conns s \<and> uip.more s' = uip.more s \<and>
    (if buf8 s o_flags AND TCP_RST \<noteq> 0 then uip_len s' = 0
     else uip_len s' = 40 \<and> tcp_ok s' \<and>
       sg_src (segment_of s') = uip_hostaddr s \<and> sg_dest (segment_of s') = buf_addr s o_srcipaddr \<and>
       sg_srcport (segment_of s') = buf16 s o_destport \<and> sg_destport (segment_of s') = buf16 s o_srcport \<and>
       sg_seq (segment_of s') = buf_quad s o_ackno \<and>
       quad_val (sg_ack (segment_of s')) = (quad_val (buf_quad s o_seqno) + 1) mod 2 ^ 32 \<and>
       sg_flags (segment_of s') = TCP_RST OR TCP_ACK \<and> sg_data (segment_of s') = [])"
proof -
  obtain g where g: "uip_input app s = tcp_reset (count_stat g (tcp_rx s))"
  proof (cases "buf8 s o_flags AND TCP_CTL = TCP_SYN")
    case True
    then show ?thesis using that assms by (simp add: uip_input_valid)
  next
    case False
    have "count_stat (\<lambda>x. x) (tcp_rx s) = tcp_rx s" by (simp add: count_stat_def)
    then show ?thesis using that [of "\<lambda>x. x"] False assms by (simp add: uip_input_valid)
  qed
  have conns: "uip_conns (count_stat g (tcp_rx s)) = uip_conns s" by (simp add: count_stat_def)
  show ?thesis
  proof (cases "buf8 s o_flags AND TCP_RST = 0")
    case True
    then show ?thesis
      using tcp_reset_spec [of "count_stat g (tcp_rx s)"] assms(1,2) conns
      by (auto simp: g quad_incr_val valid_tcp_def)
  next
    case False
    then show ?thesis
      using conns by (simp add: g tcp_reset_def drop_packet_def)
  qed
qed

theorem refused_with_reset_witness:
  "\<exists>s'. uip_input httpd_appcall (with_packet stray_packet web_stack) = Inr s' \<and> uip_len s' = 40 \<and> tcp_ok s' \<and>
     sg_flags (segment_of s') = TCP_RST OR TCP_ACK \<and> sg_seq (segment_of s') = (0, 0, 0, 7)"
proof -
  let ?s = "with_packet stray_packet web_stack"
  have h: "uip_wf ?s" "valid_tcp ?s" "first_index (conn_matches ?s) (uip_conns ?s) = None"
    "buf16 ?s o_destport \<notin> set (uip_listenports ?s)"
    by code_simp+
  have "buf8 ?s o_flags AND TCP_RST = 0" "buf_quad ?s o_ackno = (0, 0, 0, 7)" by code_simp+
  then show ?thesis
    using refused_with_reset [OF h(1-3) disjI2, OF h(4), of httpd_appcall] by auto
qed

lemma tcp_send_syn_spec:
  assumes wf: "uip_wf s"
  shows "\<exists>s'. tcp_send_syn r (set8 o_flags fl s) = Inr s' \<and> uip_wf s' \<and> tcp_ok s' \<and> uip_len s' = 44 \<and>
    uip_conns s' = uip_conns s \<and> uip.more s' = uip.more s \<and> net_config s' = net_config s \<and>
    segment_of s' = (conn_segment s r (fl OR TCP_SYN) [])\<lparr>sg_offset := 0x60\<rparr> \<and>
    map (buf8 s') [54, 55, 56, 57] = [TCP_OPT_MSS, TCP_OPT_MSS_LEN, hi8 UIP_TCP_MSS, lo8 UIP_TCP_MSS]"
proof -
  note L = uip_wf_lengths(1) [OF wf]
  define t where "t = (let s = set8 o_flags fl s;
          s = set8 o_flags (buf8 s o_flags OR TCP_SYN) s;
          s = set8 o_optdata TCP_OPT_MSS s;
          s = set8 (o_optdata + 1) TCP_OPT_MSS_LEN s;
          s = set8 (o_optdata + 2) (hi8 UIP_TCP_MSS) s;
          s = set8 (o_optdata + 3) (lo8 UIP_TCP_MSS) s;
          s = s\<lparr>uip_len := UIP_IPTCPH_LEN + 4\<rparr>
      in set8 o_tcpoffset 0x60 s)"
  have send: "tcp_send_syn r (set8 o_flags fl s) = tcp_send r t"
    by (simp add: tcp_send_syn_def t_def Let_def)
  have f: "uip_len t = 44" "uip_wf t" "uip.more t = uip.more s" "uip_conns t = uip_conns s" "uip_hostaddr t = uip_hostaddr s"
    "conn_at t r = conn_at s r" "length (uip_buf t) = 422" "net_config t = net_config s"
    using wf L by (simp_all add: t_def Let_def)
  have b: "buf8 t o_tcpoffset = 0x60" "buf8 t o_flags = fl OR TCP_SYN"
    "buf8 t 54 = 2" "buf8 t 55 = 4" "buf8 t 56 = hi8 UIP_TCP_MSS" "buf8 t 57 = lo8 UIP_TCP_MSS"
    using L by (simp_all add: t_def Let_def buf_rw)
  have "uip_inv (\<lambda>_. True) t" using f by (simp add: uip_inv_def)
  from tcp_send_ok [OF this, of "\<lambda>_. False" r] f(1)
  obtain s' where s': "tcp_send r t = Inr s'" "uip_wf s'"
    by (auto simp: res_ok_total uip_inv_def)
  have ok: "tcp_ok s'" using f(1) by (intro tcp_send_complete [OF f(2) _ _ s'(1)]) simp_all
  have "sg_data (segment_of t) = []" "sg_offset (segment_of t) = 0x60" "sg_flags (segment_of t) = fl OR TCP_SYN"
    by (simp_all add: segment_of_def b f(1))
  then have "segment_of s' = (conn_segment s r (fl OR TCP_SYN) [])\<lparr>sg_offset := 0x60\<rparr>"
    using tcp_send_segment [OF s'(1)] b(1) f by (simp add: conn_segment_def Let_def)
  moreover have "buf8 s' i = buf8 t i" if "54 \<le> i" for i
    using tcp_send_noconn_frame(1) [OF s'(1) [unfolded tcp_send_def Let_def], of i] that
    by (simp add: kept_def buf_rw split: if_splits)
  ultimately show ?thesis
    using send s' ok f b tcp_send_frame [OF s'(1)] tcp_send_config [OF s'(1)] by simp
qed

lemma tcp_send_synack_spec:
  assumes wf: "uip_wf s"
  shows "\<exists>s'. tcp_send_synack r s = Inr s' \<and> uip_wf s' \<and> tcp_ok s' \<and> uip_len s' = 44 \<and>
    uip_conns s' = uip_conns s \<and> uip.more s' = uip.more s \<and> net_config s' = net_config s \<and>
    segment_of s' = (conn_segment s r (TCP_SYN OR TCP_ACK) [])\<lparr>sg_offset := 0x60\<rparr> \<and>
    map (buf8 s') [54, 55, 56, 57] = [TCP_OPT_MSS, TCP_OPT_MSS_LEN, hi8 UIP_TCP_MSS, lo8 UIP_TCP_MSS]"
  using tcp_send_syn_spec [OF wf, of r TCP_ACK] by (simp add: tcp_send_synack_def or.commute)

lemma parse_mss_shape:
  assumes "opts_safe u"
  shows "\<exists>f. parse_mss r u = Inr (upd_conn r f u) \<and> (\<forall>c. \<exists>m i. f c = c\<lparr>mss := m, initialmss := i\<rparr>)"
proof -
  have same: "\<exists>f. Inr u = Inr (upd_conn r f u) \<and> (\<forall>c. \<exists>m i. f c = c\<lparr>mss := m, initialmss := i\<rparr>)"
  proof (intro exI conjI)
    show "Inr u = Inr (upd_conn r (\<lambda>c. c) u)" by (simp add: upd_conn_def)
    show "\<forall>c :: uip_conn_t. \<exists>m i. c = c\<lparr>mss := m, initialmss := i\<rparr>"
      by (metis uip_conn_t.surjective uip_conn_t.update_convs(7,8))
  qed
  obtain x where x: "mss_option (uip_buf u) ((unat (drop_bit 4 (buf8 u o_tcpoffset)) - 5) * 4) 0 = Some x"
    using assms by (auto simp: opts_safe_def)
  show ?thesis
  proof (cases "buf8 u o_tcpoffset AND 0xf0 > 0x50")
    case True
    then show ?thesis
      using same by (cases x) (auto simp: parse_mss_def Let_def x)
  qed (use same in \<open>simp add: parse_mss_def\<close>)
qed

lemma parse_mss_option:
  assumes "buf8 u o_tcpoffset = 0x60" and "mss_option (uip_buf u) 4 0 = Some (Some m)" and "m \<le> UIP_TCP_MSS"
  shows "parse_mss r u = Inr (upd_conn r (\<lambda>c. c\<lparr>mss := m, initialmss := m\<rparr>) u)"
proof -
  have "(if m > UIP_TCP_MSS then UIP_TCP_MSS else m) = m" using assms(3) by auto
  then show ?thesis using assms(1,2) by (simp add: parse_mss_def Let_def del: if_split)
qed

lemma syn_spec:
  assumes wf: "uip_wf s" and v: "valid_tcp s" and none: "first_index (conn_matches s) (uip_conns s) = None"
    and syn: "buf8 s o_flags AND TCP_CTL = TCP_SYN" and port: "buf16 s o_destport \<in> set (uip_listenports s)"
    and slot: "find_unused (uip_conns s) 0 None = Some r" and opts: "opts_safe s"
  shows "\<exists>s'. uip_input app s = Inr s' \<and> uip_wf s' \<and> tcp_ok s' \<and> uip_len s' = 44 \<and> r < UIP_CONNS \<and>
    (tcpstateflags (conn_at s r) = UIP_CLOSED \<or> tcpstateflags (conn_at s r) = UIP_TIME_WAIT) \<and>
    tcpstateflags (conn_at s' r) = UIP_SYN_RCVD \<and> lport (conn_at s' r) = buf16 s o_destport \<and>
    rport (conn_at s' r) = buf16 s o_srcport \<and> ripaddr (conn_at s' r) = buf_addr s o_srcipaddr \<and>
    snd_nxt (conn_at s' r) = iss s \<and> conn_len (conn_at s' r) = 1 \<and> nrtx (conn_at s' r) = 0 \<and>
    quad_val (rcv_nxt (conn_at s' r)) = (quad_val (buf_quad s o_seqno) + 1) mod 2 ^ 32 \<and>
    (\<forall>k. k \<noteq> r \<longrightarrow> conn_at s' k = conn_at s k) \<and>
    rcv_nxt (conn_at s' r) = uip_add32 (buf_quad s o_seqno) 1 \<and> uip.more s' = uip.more s \<and> net_config s' = net_config s \<and>
    (\<forall>m. buf8 s o_tcpoffset = 0x60 \<longrightarrow> mss_option (uip_buf s) 4 0 = Some (Some m) \<longrightarrow> m \<le> UIP_TCP_MSS \<longrightarrow>
      mss (conn_at s' r) = m \<and> initialmss (conn_at s' r) = m) \<and>
    segment_of s' = (conn_segment s' r (TCP_SYN OR TCP_ACK) [])\<lparr>sg_offset := 0x60, sg_src := uip_hostaddr s\<rparr> \<and>
    map (buf8 s') [54, 55, 56, 57] = [TCP_OPT_MSS, TCP_OPT_MSS_LEN, hi8 366, lo8 366]"
proof -
  note L = uip_wf_lengths [OF wf]
  have r: "r < 40" "tcpstateflags (conn_at s r) = UIP_CLOSED \<or> tcpstateflags (conn_at s r) = UIP_TIME_WAIT"
    using find_unused_free [OF slot] L by (auto simp: conn_at_def)
  define f1 :: "uip_conn_t \<Rightarrow> uip_conn_t" where "f1 c = c\<lparr>rto := UIP_RTO, timer := UIP_RTO, sa := 0, sv := 4, nrtx := 0,
                    lport := buf16 s o_destport, rport := buf16 s o_srcport,
                    ripaddr := buf_addr s o_srcipaddr, tcpstateflags := UIP_SYN_RCVD,
                    snd_nxt := iss s, conn_len := 1, rcv_nxt := buf_quad s o_seqno\<rparr>" for c
  define u where "u = uip_add_rcv_nxt r 1 (upd_conn r f1 ((tcp_rx s)\<lparr>uip_conn := Some r\<rparr>))"
  have uw: "uip_wf (upd_conn r f1 ((tcp_rx s)\<lparr>uip_conn := Some r\<rparr>))"
    using wf r(1) by (intro uip_wf_upd_conn) (simp_all add: f1_def conn_wf_def)
  have uwf: "uip_wf u"
    using uip_add_rcv_nxt_inv [of "\<lambda>_. True" _ r 1] uw r(1) by (simp add: u_def uip_inv_def)
  have "opts_safe u"
    using opts by (simp add: u_def opts_safe_def)
  then obtain f where f: "parse_mss r u = Inr (upd_conn r f u)"
    "\<forall>c. \<exists>m i. f c = c\<lparr>mss := m, initialmss := i\<rparr>"
    using parse_mss_shape [of u r] by blast
  have "res_ok (\<lambda>_. False) (uip_inv (\<lambda>_. True)) (parse_mss r u)"
    using uwf r(1) \<open>opts_safe u\<close> by (intro parse_mss_ok) (simp_all add: uip_inv_def opts_safe_def)
  then have vwf: "uip_wf (upd_conn r f u)"
    by (simp add: f(1) uip_inv_def)
  have in': "uip_input app s = tcp_send_synack r (upd_conn r f u)"
    using v none syn port slot f(1)
    by (simp add: uip_input_valid found_listen_def Let_def u_def f1_def [abs_def])
  obtain s' where s': "tcp_send_synack r (upd_conn r f u) = Inr s'" "uip_wf s'" "tcp_ok s'" "uip_len s' = 44"
    "uip_conns s' = uip_conns (upd_conn r f u)" "uip.more s' = uip.more (upd_conn r f u)" "net_config s' = net_config (upd_conn r f u)"
    "segment_of s' = (conn_segment (upd_conn r f u) r (TCP_SYN OR TCP_ACK) [])\<lparr>sg_offset := 0x60\<rparr>"
    "map (buf8 s') [54, 55, 56, 57] = [TCP_OPT_MSS, TCP_OPT_MSS_LEN, hi8 UIP_TCP_MSS, lo8 UIP_TCP_MSS]"
    using tcp_send_synack_spec [OF vwf, of r] by (elim exE conjE) (rule that)
  have at: "conn_at s' k = conn_at (upd_conn r f u) k" for k
    by (simp add: conn_at_def s'(5))
  have c: "conn_at s' r = f ((f1 (conn_at s r))\<lparr>rcv_nxt := uip_add32 (buf_quad s o_seqno) 1\<rparr>)"
    using wf r(1) uw uwf by (simp add: at) (simp add: u_def uip_add_rcv_nxt_def Let_def conn_at_upd_wf uw f1_def)
  have other: "conn_at s' k = conn_at s k" if "k \<noteq> r" for k
    using that by (simp add: conn_at_def s'(5) u_def uip_add_rcv_nxt_def Let_def upd_conn_def)
  have host: "uip_hostaddr (upd_conn r f u) = uip_hostaddr s"
    by (simp add: u_def uip_add_rcv_nxt_def Let_def)
  have seg: "segment_of s' = (conn_segment s' r (TCP_SYN OR TCP_ACK) [])\<lparr>sg_offset := 0x60, sg_src := uip_hostaddr s\<rparr>"
    using host by (simp add: s'(8) conn_segment_def Let_def at)
  have opt: "mss (conn_at s' r) = m \<and> initialmss (conn_at s' r) = m"
    if "buf8 s o_tcpoffset = 0x60" "mss_option (uip_buf s) 4 0 = Some (Some m)" "m \<le> UIP_TCP_MSS" for m
  proof -
    have "buf8 u o_tcpoffset = 0x60" "uip_buf u = uip_buf s"
      using that(1) by (simp_all add: u_def uip_add_rcv_nxt_def Let_def)
    then have "upd_conn r f u = upd_conn r (\<lambda>c. c\<lparr>mss := m, initialmss := m\<rparr>) u"
      using f(1) that(2,3) parse_mss_option [of u m r] by simp
    then show ?thesis using uwf r(1) by (simp add: at)
  qed
  have fr: "uip.more s' = uip.more s" "net_config s' = net_config s"
    using s'(6,7) by (simp_all add: u_def uip_add_rcv_nxt_def Let_def)
  obtain m i where "conn_at s' r = (f1 (conn_at s r))\<lparr>rcv_nxt := uip_add32 (buf_quad s o_seqno) 1, mss := m, initialmss := i\<rparr>"
    using f(2) c by metis
  then show ?thesis
    using in' s' r other seg opt fr by (simp add: f1_def uip_add32_val)
qed

text \<open>
  C12: a SYN for a listening port, with a free slot and options that end, opens a connection in state
  \<^verbatim>\<open>SYN_RCVD\<close> in a slot that was closed or in \<^verbatim>\<open>TIME_WAIT\<close>: it records the peer's address and ports, expects
  the peer's sequence number plus one, has one byte (the SYN) outstanding from the initial sequence
  number, and leaves every other connection alone. The answer is a SYN with ACK that carries these numbers and
  announces a maximum segment size of 366.
\<close>

theorem syn_opens_connection:
  assumes "uip_wf s" and "valid_tcp s" and "first_index (conn_matches s) (uip_conns s) = None"
    and "buf8 s o_flags AND TCP_CTL = TCP_SYN" and "buf16 s o_destport \<in> set (uip_listenports s)"
    and "find_unused (uip_conns s) 0 None = Some r" and "opts_safe s"
  shows "\<exists>s'. uip_input app s = Inr s' \<and> uip_wf s' \<and> tcp_ok s' \<and> uip_len s' = 44 \<and> r < UIP_CONNS \<and>
    (tcpstateflags (conn_at s r) = UIP_CLOSED \<or> tcpstateflags (conn_at s r) = UIP_TIME_WAIT) \<and>
    tcpstateflags (conn_at s' r) = UIP_SYN_RCVD \<and> lport (conn_at s' r) = buf16 s o_destport \<and>
    rport (conn_at s' r) = buf16 s o_srcport \<and> ripaddr (conn_at s' r) = buf_addr s o_srcipaddr \<and>
    snd_nxt (conn_at s' r) = iss s \<and> conn_len (conn_at s' r) = 1 \<and> nrtx (conn_at s' r) = 0 \<and>
    quad_val (rcv_nxt (conn_at s' r)) = (quad_val (buf_quad s o_seqno) + 1) mod 2 ^ 32 \<and>
    (\<forall>k. k \<noteq> r \<longrightarrow> conn_at s' k = conn_at s k) \<and>
    segment_of s' = (conn_segment s' r (TCP_SYN OR TCP_ACK) [])\<lparr>sg_offset := 0x60, sg_src := uip_hostaddr s\<rparr> \<and>
    map (buf8 s') [54, 55, 56, 57] = [TCP_OPT_MSS, TCP_OPT_MSS_LEN, hi8 366, lo8 366]"
  using syn_spec [OF assms, of app] by (elim exE conjE) (intro exI conjI; assumption)

theorem syn_opens_connection_witness:
  "\<exists>s'. uip_input httpd_appcall (with_packet syn_packet web_stack) = Inr s' \<and> uip_len s' = 44 \<and>
     tcpstateflags (conn_at s' 0) = UIP_SYN_RCVD \<and> quad_val (rcv_nxt (conn_at s' 0)) = 1001"
proof -
  let ?s = "with_packet syn_packet web_stack"
  have h: "uip_wf ?s" "valid_tcp ?s" "first_index (conn_matches ?s) (uip_conns ?s) = None"
    "buf8 ?s o_flags AND TCP_CTL = TCP_SYN" "buf16 ?s o_destport \<in> set (uip_listenports ?s)"
    "find_unused (uip_conns ?s) 0 None = Some 0" "opts_safe ?s"
    by code_simp+
  have "quad_val (buf_quad ?s o_seqno) = 1000" by code_simp
  then show ?thesis
    using syn_opens_connection [OF h, of httpd_appcall] by auto
qed

lemma httpd_newdata_returns:
  assumes "uip_flags s AND UIP_NEWDATA \<noteq> 0" and "length (uip_buf s) = 422" and "uip_appdata s = 54"
    and "uip_len s \<le> 368" and "length (httpd_socket_rx_buf s) = 420"
  shows "httpd_newdata s = Inr (s\<lparr>httpd_socket_rx_buf := take (unat (uip_len s)) (drop 54 (uip_buf s)) @
      drop (unat (uip_len s)) (httpd_socket_rx_buf s), httpd_socket_rx_len := int (unat (uip_len s))\<rparr>)"
proof -
  have n: "unat (uip_len s) \<le> 368" using assms(4) by (simp add: word_le_nat_alt)
  then have "\<not> int (unat (uip_len s)) > int UIP_BUFSIZE" by linarith
  with n assms show ?thesis
    unfolding httpd_newdata_def Let_def by (simp add: mem_read_def mem_write_def min_def)
qed

lemma ack_flags: "uip_flags (tcp_ack_input r s) \<in> {uip_flags s, UIP_ACKDATA}"
  by (simp add: tcp_ack_input_def Let_def)

lemma tcp_ack_input_conn:
  assumes "uip_wf s" and "r < 40"
  shows "tcpstateflags (conn_at (tcp_ack_input r s) r) = tcpstateflags (conn_at s r)"
    and "rcv_nxt (conn_at (tcp_ack_input r s) r) = rcv_nxt (conn_at s r)"
    and "uip_wf (tcp_ack_input r s)" and "uip.more (tcp_ack_input r s) = uip.more s"
    and "net_config (tcp_ack_input r s) = net_config s"
    and "k \<noteq> r \<Longrightarrow> conn_at (tcp_ack_input r s) k = conn_at s k"
proof -
  have w: "uip_wf (upd_conn r g s)" if "\<And>c. conn_wf c \<Longrightarrow> conn_wf (g c)" for g
    using assms that by (intro uip_wf_upd_conn)
  show "uip_wf (tcp_ack_input r s)"
    using tcp_ack_input_inv [of "\<lambda>_. True" s r] assms by (simp add: uip_inv_def)
  show "uip.more (tcp_ack_input r s) = uip.more s" "net_config (tcp_ack_input r s) = net_config s"
    by (simp_all add: tcp_ack_input_def Let_def)
  show "k \<noteq> r \<Longrightarrow> conn_at (tcp_ack_input r s) k = conn_at s k"
    by (simp add: tcp_ack_input_def Let_def conn_at_def upd_conn_def)
  have L: "r < length (uip_conns s)" using uip_wf_lengths [OF assms(1)] assms(2) by simp
  show "tcpstateflags (conn_at (tcp_ack_input r s) r) = tcpstateflags (conn_at s r)"
    "rcv_nxt (conn_at (tcp_ack_input r s) r) = rcv_nxt (conn_at s r)"
    using L by (simp_all add: tcp_ack_input_def Let_def conn_at_def upd_conn_def rtt_estimate_def)
qed

text \<open>The sequence number a connection sends next after a segment: it moves on if the segment acknowledges all that is in flight.\<close>

definition seq_after :: "'a uip_scheme \<Rightarrow> uip_conn_t \<Rightarrow> quad" where
  "seq_after s c =
     (if buf8 s o_flags AND TCP_ACK \<noteq> 0 \<and> conn_len c \<noteq> 0 \<and> buf_quad s o_ackno = uip_add32 (snd_nxt c) (conn_len c)
      then buf_quad s o_ackno else snd_nxt c)"

lemma tcp_ack_input_peer:
  assumes "uip_wf s" and "r < 40"
  shows "snd_nxt (conn_at (tcp_ack_input r s) r) = seq_after s (conn_at s r)"
    and "ripaddr (conn_at (tcp_ack_input r s) r) = ripaddr (conn_at s r)"
    and "lport (conn_at (tcp_ack_input r s) r) = lport (conn_at s r)" and "rport (conn_at (tcp_ack_input r s) r) = rport (conn_at s r)"
  using uip_wf_lengths(2) [OF assms(1)] assms(2)
  by (simp_all add: tcp_ack_input_def Let_def conn_at_def upd_conn_def rtt_estimate_def seq_after_def uip_outstanding_def)

text \<open>
  The connection's record after in-order data: the next sequence number, and the segment size that the peer's window allows; this is
  what \<^verbatim>\<open>st_established\<close> hands to the application.
\<close>

definition window_of :: "'a uip_scheme \<Rightarrow> uip_conn_t \<Rightarrow> u16" where
  "window_of s c = (let w = push_bit 8 (ucast (buf8 s o_wnd)) + ucast (buf8 s (o_wnd + 1))
     in if w > initialmss c \<or> w = 0 then initialmss c else w)"

definition data_conn :: "'a uip_scheme \<Rightarrow> u16 \<Rightarrow> uip_conn_t \<Rightarrow> uip_conn_t" where
  "data_conn s n c = c\<lparr>rcv_nxt := uip_add32 (rcv_nxt c) n, mss := window_of s c\<rparr>"

lemma st_established_data:
  assumes wf: "uip_wf s" and r: "r < 40" and st: "tcpstateflags (conn_at s r) = UIP_ESTABLISHED"
    and fl: "buf8 s o_flags AND TCP_FIN = 0" "buf8 s o_flags AND TCP_URG = 0" and n: "uip_len s > 0"
  shows "\<exists>t. st_established app r s = res_bind (app t) (appsend r) \<and> uip_wf t \<and> uip_buf t = uip_buf s \<and>
    uip_len t = uip_len s \<and> uip_slen t = 0 \<and> uip_flags t = uip_flags s OR UIP_NEWDATA \<and>
    uip_appdata t = uip_appdata s \<and> uip_sappdata t = uip_sappdata s \<and> uip.more t = uip.more s \<and>
    net_config t = net_config s \<and> uip_conns t = (uip_conns s)[r := data_conn s (uip_len s) (conn_at s r)]"
proof -
  define u where "u = uip_add_rcv_nxt r (uip_len s) (s\<lparr>uip_flags := uip_flags s OR UIP_NEWDATA\<rparr>)"
  define t where "t = (window_mss r u)\<lparr>uip_slen := 0\<rparr>"
  have skip: "urgent_skip s = s" using fl(2) by (simp add: urgent_skip_def)
  have flag: "(uip_flags s OR UIP_NEWDATA) AND (UIP_NEWDATA OR UIP_ACKDATA) \<noteq> 0"
  proof
    assume "(uip_flags s OR UIP_NEWDATA) AND (UIP_NEWDATA OR UIP_ACKDATA) = 0"
    then have "bit ((uip_flags s OR UIP_NEWDATA) AND (UIP_NEWDATA OR UIP_ACKDATA)) 1 = bit (0 :: u8) 1" by simp
    then show False by (simp add: bit_simps)
  qed
  have "st_established app r s = res_bind (app t) (appsend r)"
    using st fl n flag unfolding st_established_def Let_def skip by (simp add: t_def u_def)
  moreover have uw: "uip_wf u" "uip_wf t"
    using window_mss_inv [of "\<lambda>_. True" u r] uip_add_rcv_nxt_inv [of "\<lambda>_. True" "s\<lparr>uip_flags := uip_flags s OR UIP_NEWDATA\<rparr>" r "uip_len s"]
      wf r by (simp_all add: u_def t_def uip_inv_def)
  have Lr: "r < length (uip_conns s)" using uip_wf_lengths [OF wf] r by simp
  have "uip_buf t = uip_buf s" "net_config t = net_config s" "uip.more t = uip.more s"
    by (simp_all add: t_def u_def window_mss_def uip_add_rcv_nxt_def Let_def)
  moreover have "uip_conns t = (uip_conns s)[r := data_conn s (uip_len s) (conn_at s r)]"
    using Lr by (simp add: t_def u_def window_mss_def uip_add_rcv_nxt_def Let_def conn_at_def upd_conn_def data_conn_def window_of_def buf8_def)
  ultimately show ?thesis
    using uw by (intro exI [of _ t]) (simp add: t_def u_def)
qed

text \<open>What the bridge reports of the connection, and what it has been asked to do.\<close>

definition bridge_conn :: "httpd_uip \<Rightarrow> int \<times> int \<times> int \<times> int \<times> int" where
  "bridge_conn s = (httpd_socket_conn_open s, httpd_socket_conn_pending s, httpd_socket_conn_closed s,
     httpd_socket_tx_pending s, httpd_socket_close_pending s)"

lemma bridge_conn_more: "uip.more t = uip.more s \<Longrightarrow> bridge_conn t = bridge_conn s"
  by (cases t; cases s) (simp add: bridge_conn_def)

lemma more_fields:
  assumes "uip.more t = uip.more s"
  shows "httpd_socket_rx_buf t = httpd_socket_rx_buf s" "httpd_socket_tx_pending t = httpd_socket_tx_pending s"
    "httpd_socket_close_pending t = httpd_socket_close_pending s" "bridge_wf t = bridge_wf s"
    "httpd_socket_tx_len t = httpd_socket_tx_len s" "httpd_socket_tx_buf t = httpd_socket_tx_buf s"
    "httpd_socket_rx_len t = httpd_socket_rx_len s"
  using assms bridge_more(1) [OF assms] bss_more_fields by metis+

lemma and_sub_mask: "x AND m = (0 :: u8) \<Longrightarrow> k AND m = k \<Longrightarrow> x AND k = 0"
  by (metis and.assoc and.commute and_zero_eq)

lemma httpd_appcall_data:
  assumes fl: "uip_flags t = UIP_NEWDATA \<or> uip_flags t = UIP_NEWDATA OR UIP_ACKDATA"
    and "length (uip_buf t) = 422" and "uip_appdata t = 54" and "uip_len t \<le> 368" and "bridge_wf t"
    and idle: "httpd_socket_tx_pending t = 0" "httpd_socket_close_pending t = 0"
  shows "\<exists>u. httpd_appcall t = Inr u \<and> app_frame t u \<and> uip_buf u = uip_buf t \<and> uip_slen u = uip_slen t \<and>
    uip_flags u = uip_flags t \<and> net_config u = net_config t \<and> bridge_conn u = bridge_conn t \<and> httpd_socket_rx_len u = int (unat (uip_len t)) \<and>
    take (unat (uip_len t)) (httpd_socket_rx_buf u) = take (unat (uip_len t)) (drop 54 (uip_buf t))"
proof -
  let ?v = "t\<lparr>httpd_socket_rx_buf := take (unat (uip_len t)) (drop 54 (uip_buf t)) @
      drop (unat (uip_len t)) (httpd_socket_rx_buf t), httpd_socket_rx_len := int (unat (uip_len t))\<rparr>"
  have ev: "httpd_conn_events t = t"
    using fl by (elim disjE) (simp_all add: httpd_conn_events_def uip_closed_event_def)
  have fl_nd: "uip_flags t AND UIP_NEWDATA \<noteq> 0"
    using fl by (elim disjE) simp_all
  have nd: "httpd_newdata t = Inr ?v"
    using assms(2-5) fl_nd by (intro httpd_newdata_returns) (simp_all add: bridge_wf_def)
  have n: "unat (uip_len t) \<le> 368" using assms(4) by (simp add: word_le_nat_alt)
  have tx: "httpd_tx ?v = Inr (if uip_flags t AND UIP_ACKDATA \<noteq> 0
      then ?v\<lparr>httpd_socket_tx_pending := 0, httpd_socket_tx_len := 0\<rparr> else ?v)"
    using idle by (simp add: httpd_tx_def Let_def)
  show ?thesis
    unfolding httpd_appcall_def ev nd res_bind_simps tx
    using n assms(2) idle by (simp add: app_frame_def bridge_conn_def net_config_def)
qed

lemma appsend_plain_ack:
  assumes "uip_wf u" and "r < 40" and "uip_slen u = 0" and "uip_flags u AND UIP_NEWDATA \<noteq> 0"
    and "uip_flags u AND UIP_ABORT = 0" and "uip_flags u AND UIP_CLOSE = 0"
  shows "\<exists>s'. appsend r u = Inr s' \<and> uip_wf s' \<and> tcp_ok s' \<and> uip_len s' = 40 \<and> uip.more s' = uip.more u \<and>
    net_config s' = net_config u \<and>
    uip_conns s' = (uip_conns u)[r := (conn_at u r)\<lparr>nrtx := 0\<rparr>] \<and>
    segment_of s' = (conn_segment s' r TCP_ACK [])\<lparr>sg_src := uip_hostaddr u\<rparr>"
proof -
  define w where "w = set8 o_flags TCP_ACK (((upd_conn r (\<lambda>c. c\<lparr>nrtx := 0\<rparr>) u)
      \<lparr>uip_appdata := uip_sappdata u, uip_len := UIP_IPTCPH_LEN\<rparr>))"
  have ww: "uip_wf w"
    unfolding w_def using assms(1,2) uip_wf_upd_conn [of u r "\<lambda>c. c\<lparr>nrtx := 0\<rparr>"] by (simp add: conn_wf_def)
  have "appsend r u = tcp_send_noopts r w"
    using assms by (simp add: appsend_def appsend_len_def apprexmit_def Let_def w_def)
  moreover have "buf8 w o_flags = TCP_ACK" "uip_len w = 40" "uip.more w = uip.more u" "uip_hostaddr w = uip_hostaddr u"
    "net_config w = net_config u" "uip_conns w = (uip_conns u)[r := (conn_at u r)\<lparr>nrtx := 0\<rparr>]"
    using uip_wf_lengths(1) [OF assms(1)] by (simp_all add: w_def buf_same) (simp add: upd_conn_def conn_at_def)
  ultimately show ?thesis
    using tcp_send_noopts_spec [OF ww, of r] by (auto simp: conn_segment_def conn_at_def Let_def)
qed

text \<open>In-order data up to the return of the application.\<close>

lemma in_order_appcall:
  assumes wf: "uip_wf s" "bridge_wf s" and v: "valid_tcp s"
    and r: "first_index (conn_matches s) (uip_conns s) = Some r"
    and st: "tcpstateflags (conn_at s r) = UIP_ESTABLISHED"
    and fl: "buf8 s o_flags AND (TCP_FIN OR TCP_SYN OR TCP_RST OR TCP_URG) = 0" "buf8 s o_tcpoffset = 0x50"
    and seq: "buf_quad s o_seqno = rcv_nxt (conn_at s r)"
    and n: "ip_total_len s > 40" "ip_total_len s \<le> 408"
    and idle: "httpd_socket_tx_pending s = 0" "httpd_socket_close_pending s = 0"
  shows "\<exists>u. uip_input httpd_appcall s = appsend r u \<and> uip_wf u \<and> uip_slen u = 0 \<and>
    uip_flags u \<in> {UIP_NEWDATA, UIP_NEWDATA OR UIP_ACKDATA} \<and> net_config u = net_config s \<and> bridge_conn u = bridge_conn s \<and>
    httpd_socket_rx_len u = int (unat (ip_total_len s) - 40) \<and>
    take (unat (ip_total_len s) - 40) (httpd_socket_rx_buf u) = take (unat (ip_total_len s) - 40) (drop 54 (uip_buf s)) \<and>
    conn_at u r = data_conn s (ip_total_len s - 40) (conn_at (tcp_ack_input r (found_rx r s)) r) \<and>
    (\<forall>k. k \<noteq> r \<longrightarrow> conn_at u k = conn_at s k)"
proof -
  have r40: "r < 40"
    using first_index_Some [OF r] uip_wf_lengths [OF wf(1)] by simp
  have f: "buf8 s o_flags AND TCP_FIN = 0" "buf8 s o_flags AND TCP_RST = 0" "buf8 s o_flags AND TCP_URG = 0"
    using fl(1) by (auto intro: and_sub_mask)
  let ?a = "tcp_ack_input r (found_rx r s)" and ?n = "unat (ip_total_len s) - 40"
  have dl: "seg_datalen s = ip_total_len s - 40"
    by (simp add: seg_datalen_def fl(2))
  have "(40 :: u16) \<le> ip_total_len s" using n(1) by simp
  then have un: "unat (seg_datalen s) = ?n" and pos: "seg_datalen s > 0" and max: "seg_datalen s \<le> 368"
    using n by (simp_all add: dl unat_sub word_less_nat_alt word_le_nat_alt)
  note ack = tcp_ack_input_conn [OF found_rx_wf [OF wf(1) r40] r40]
  have "uip_input httpd_appcall s = st_established httpd_appcall r ?a"
    using f(2) seq st ack(1)
    by (simp add: uip_input_valid [OF v] r found_seq unexpected_seq_found_rx tcp_state_input_def tcp_state_of_def)
  moreover obtain t where t: "st_established httpd_appcall r ?a = res_bind (httpd_appcall t) (appsend r)" "uip_wf t"
    "uip_buf t = uip_buf s" "uip_len t = seg_datalen s" "uip_slen t = 0" "uip_flags t = uip_flags ?a OR UIP_NEWDATA"
    "uip_appdata t = 54" "uip.more t = uip.more s" "net_config t = net_config ?a"
    "uip_conns t = (uip_conns ?a)[r := data_conn ?a (seg_datalen s) (conn_at ?a r)]"
    using st_established_data [OF ack(3) r40, of httpd_appcall] ack st f pos by auto
  have ct: "conn_at t r = data_conn s (seg_datalen s) (conn_at ?a r)" "k \<noteq> r \<Longrightarrow> conn_at t k = conn_at s k" for k
    using t(10) r40 uip_wf_lengths(2) [OF ack(3)] ack(6) by (auto simp: conn_at_def data_conn_def window_of_def)
  have cfg: "net_config t = net_config s" using t(9) ack(5) by simp
  have tf: "uip_flags t = UIP_NEWDATA \<or> uip_flags t = UIP_NEWDATA OR UIP_ACKDATA"
    using ack_flags [of r "found_rx r s"] t(6) by (auto simp: or.commute)
  obtain u where u: "httpd_appcall t = Inr u" "app_frame t u" "uip_slen u = 0" "uip_flags u = uip_flags t"
    "httpd_socket_rx_len u = int ?n" "take ?n (httpd_socket_rx_buf u) = take ?n (drop 54 (uip_buf s))" "bridge_conn u = bridge_conn t"
    "net_config u = net_config t"
    using httpd_appcall_data [OF tf _ t(7)] uip_wf_lengths(1) [OF t(2)] more_fields [OF t(8)] idle wf(2) max t(3-5) un by auto
  have "conn_at u k = conn_at t k" for k using u(2) by (simp add: app_frame_def conn_at_def)
  ultimately show ?thesis
    using t u tf dl ct cfg bridge_conn_more [OF t(8)] app_frame_wf [OF u(2) t(2)] by (intro exI [of _ u]) auto
qed

lemma in_order_data_spec:
  assumes wf: "uip_wf s" "bridge_wf s" and v: "valid_tcp s"
    and r: "first_index (conn_matches s) (uip_conns s) = Some r"
    and st: "tcpstateflags (conn_at s r) = UIP_ESTABLISHED"
    and fl: "buf8 s o_flags AND (TCP_FIN OR TCP_SYN OR TCP_RST OR TCP_URG) = 0" "buf8 s o_tcpoffset = 0x50"
    and seq: "buf_quad s o_seqno = rcv_nxt (conn_at s r)"
    and n: "ip_total_len s > 40" "ip_total_len s \<le> 408"
    and idle: "httpd_socket_tx_pending s = 0" "httpd_socket_close_pending s = 0"
  shows "\<exists>s'. uip_input httpd_appcall s = Inr s' \<and>
    httpd_socket_rx_len s' = int (unat (ip_total_len s) - 40) \<and>
    take (unat (ip_total_len s) - 40) (httpd_socket_rx_buf s') = take (unat (ip_total_len s) - 40) (drop 54 (uip_buf s)) \<and>
    uip_wf s' \<and> net_config s' = net_config s \<and> bridge_conn s' = bridge_conn s \<and>
    conn_at s' r = (data_conn s (ip_total_len s - 40) (conn_at (tcp_ack_input r (found_rx r s)) r))\<lparr>nrtx := 0\<rparr> \<and>
    quad_val (rcv_nxt (conn_at s' r)) = (quad_val (rcv_nxt (conn_at s r)) + (unat (ip_total_len s) - 40)) mod 2 ^ 32 \<and>
    tcpstateflags (conn_at s' r) = UIP_ESTABLISHED \<and> (\<forall>k. k \<noteq> r \<longrightarrow> conn_at s' k = conn_at s k) \<and>
    uip_len s' = 40 \<and> tcp_ok s' \<and> segment_of s' = (conn_segment s' r TCP_ACK [])\<lparr>sg_src := uip_hostaddr s\<rparr>"
proof -
  let ?n = "unat (ip_total_len s) - 40"
  have r40: "r < 40"
    using first_index_Some [OF r] uip_wf_lengths [OF wf(1)] by simp
  obtain u where u: "uip_input httpd_appcall s = appsend r u" "uip_wf u" "uip_slen u = 0"
    "uip_flags u \<in> {UIP_NEWDATA, UIP_NEWDATA OR UIP_ACKDATA}" "net_config u = net_config s" "bridge_conn u = bridge_conn s"
    "httpd_socket_rx_len u = int ?n" "take ?n (httpd_socket_rx_buf u) = take ?n (drop 54 (uip_buf s))"
    "conn_at u r = data_conn s (ip_total_len s - 40) (conn_at (tcp_ack_input r (found_rx r s)) r)"
    "\<forall>k. k \<noteq> r \<longrightarrow> conn_at u k = conn_at s k"
    using in_order_appcall [OF assms] by (elim exE conjE) (rule that)
  have "uip_flags u AND UIP_NEWDATA \<noteq> 0" "uip_flags u AND UIP_ABORT = 0" "uip_flags u AND UIP_CLOSE = 0"
    using u(4) by auto
  from appsend_plain_ack [OF u(2) r40 u(3) this] obtain s' where s': "appsend r u = Inr s'" "uip_wf s'" "tcp_ok s'" "uip_len s' = 40"
    "uip.more s' = uip.more u" "net_config s' = net_config u" "uip_conns s' = (uip_conns u)[r := (conn_at u r)\<lparr>nrtx := 0\<rparr>]"
    "segment_of s' = (conn_segment s' r TCP_ACK [])\<lparr>sg_src := uip_hostaddr u\<rparr>" by blast
  have c: "conn_at s' r = (conn_at u r)\<lparr>nrtx := 0\<rparr>" "k \<noteq> r \<Longrightarrow> conn_at s' k = conn_at s k" for k
    using s'(7) u(10) r40 uip_wf_lengths(2) [OF u(2)] by (auto simp: conn_at_def)
  note ack = tcp_ack_input_conn [OF found_rx_wf [OF wf(1) r40] r40]
  have rcv: "rcv_nxt (conn_at s' r) = uip_add32 (rcv_nxt (conn_at s r)) (ip_total_len s - 40)" "tcpstateflags (conn_at s' r) = UIP_ESTABLISHED"
    using c(1) u(9) ack(1,2) st by (simp_all add: data_conn_def)
  have m: "httpd_socket_rx_len s' = int ?n" "httpd_socket_rx_buf s' = httpd_socket_rx_buf u" "bridge_conn s' = bridge_conn s"
    using more_fields [OF s'(5)] bridge_conn_more [OF s'(5)] u(6,7) by simp_all
  have host: "uip_hostaddr u = uip_hostaddr s" using u(5) by (simp add: net_config_def)
  have "unat (ip_total_len s - 40) = ?n"
    using n(1) by (simp add: unat_sub)
  then have "quad_val (rcv_nxt (conn_at s' r)) = (quad_val (rcv_nxt (conn_at s r)) + ?n) mod 2 ^ 32"
    by (simp add: rcv(1) uip_add32_val)
  then show ?thesis
    using u(1,5,8) s'(1-4,6,8) c m rcv(2) u(9) host by (intro exI [of _ s']) simp
qed

text \<open>The answer to in-order data, as a segment.\<close>

lemma in_order_data_answer:
  assumes wf: "uip_wf s" "bridge_wf s" and v: "valid_tcp s"
    and r: "first_index (conn_matches s) (uip_conns s) = Some r"
    and st: "tcpstateflags (conn_at s r) = UIP_ESTABLISHED"
    and fl: "buf8 s o_flags AND (TCP_FIN OR TCP_SYN OR TCP_RST OR TCP_URG) = 0" "buf8 s o_tcpoffset = 0x50"
    and seq: "buf_quad s o_seqno = rcv_nxt (conn_at s r)"
    and n: "ip_total_len s > 40" "ip_total_len s \<le> 408"
    and idle: "httpd_socket_tx_pending s = 0" "httpd_socket_close_pending s = 0"
  obtains u where "uip_input httpd_appcall s = Inr u" "uip_wf u" "net_config u = net_config s" "uip_len u = 40" "tcp_ok u"
    "httpd_socket_rx_len u = int (unat (ip_total_len s) - 40)"
    "take (unat (ip_total_len s) - 40) (httpd_socket_rx_buf u) = take (unat (ip_total_len s) - 40) (drop 54 (uip_buf s))"
    "segment_of u = (conn_segment s r TCP_ACK [])\<lparr>sg_seq := seq_after s (conn_at s r), sg_ack := uip_add32 (rcv_nxt (conn_at s r)) (ip_total_len s - 40)\<rparr>"
proof -
  obtain u where u: "uip_input httpd_appcall s = Inr u" "uip_wf u" "net_config u = net_config s" "uip_len u = 40" "tcp_ok u"
    "httpd_socket_rx_len u = int (unat (ip_total_len s) - 40)"
    "take (unat (ip_total_len s) - 40) (httpd_socket_rx_buf u) = take (unat (ip_total_len s) - 40) (drop 54 (uip_buf s))"
    "conn_at u r = (data_conn s (ip_total_len s - 40) (conn_at (tcp_ack_input r (found_rx r s)) r))\<lparr>nrtx := 0\<rparr>"
    "segment_of u = (conn_segment u r TCP_ACK [])\<lparr>sg_src := uip_hostaddr s\<rparr>"
    using in_order_data_spec [OF assms] by blast
  have r40: "r < 40" using first_index_Some [OF r] uip_wf_lengths(2) [OF wf(1)] by simp
  note f = found_rx_wf [OF wf(1) r40]
  have "segment_of u = (conn_segment s r TCP_ACK [])\<lparr>sg_seq := seq_after s (conn_at s r),
      sg_ack := uip_add32 (rcv_nxt (conn_at s r)) (ip_total_len s - 40)\<rparr>"
    using tcp_ack_input_peer [OF f r40] tcp_ack_input_conn(1,2) [OF f r40]
    by (simp add: u(9) conn_segment_def Let_def u(8) data_conn_def seq_after_def)
  then show thesis using that u(1-7) by blast
qed

lemma httpd_appcall_tx:
  assumes fl: "uip_flags t = UIP_POLL \<or> uip_flags t = UIP_REXMIT" and buf: "length (uip_buf t) = 422" "uip_sappdata t = 54" and ok: "bridge_ok t"
    and tx: "httpd_socket_tx_pending t \<noteq> 0" "httpd_socket_close_pending t = 0" "0 < httpd_socket_tx_len t"
  shows "httpd_appcall t = Inr (t\<lparr>uip_slen := word_of_int (httpd_socket_tx_len t),
    uip_buf := take 54 (uip_buf t) @ take (nat (httpd_socket_tx_len t)) (httpd_socket_tx_buf t) @
      drop (54 + nat (httpd_socket_tx_len t)) (uip_buf t)\<rparr>)"
proof -
  have n: "unat (word_of_int (httpd_socket_tx_len t) :: u16) = nat (httpd_socket_tx_len t)"
    "nat (httpd_socket_tx_len t) \<le> 368" "length (httpd_socket_tx_buf t) = 420"
    using ok tx(3) by (auto simp: bridge_ok_def bridge_wf_def unat_eq_nat_uint uint_word_of_int)
  have "httpd_conn_events t = t" "httpd_newdata t = Inr t"
    using fl by (elim disjE; simp add: httpd_conn_events_def uip_closed_event_def httpd_newdata_def)+
  moreover have "httpd_tx t = uip_send (httpd_socket_tx_buf t) (httpd_socket_tx_len t) t"
    using fl tx by (elim disjE; simp add: httpd_tx_def)
  ultimately show ?thesis
    using n tx(3) buf by (simp add: httpd_appcall_def uip_send_def mem_read_def mem_write_def min_def)
qed

text \<open>\<^verbatim>\<open>appsend\<close> with data that fits the connection's segment size, nothing being outstanding.\<close>

lemma appsend_data:
  assumes wf: "uip_wf u" and r: "r < 40" and c: "conn_len (conn_at u r) = 0"
    and fl: "uip_flags u = UIP_POLL" and w: "uip_slen u = w" "0 < w" "w \<le> mss (conn_at u r)"
  shows "\<exists>s'. appsend r u = Inr s' \<and> uip_wf s' \<and> tcp_ok s' \<and> uip_len s' = w + 40 \<and> uip.more s' = uip.more u \<and>
    net_config s' = net_config u \<and>
    segment_of s' = conn_segment u r (TCP_ACK OR TCP_PSH) (take (unat w) (drop 54 (uip_buf u))) \<and>
    uip_conns s' = (uip_conns u)[r := (conn_at u r)\<lparr>conn_len := w, nrtx := 0\<rparr>]"
proof -
  have m: "w \<le> 366"
    using conn_wf_conn_at [OF wf r] w(3) by (auto simp: conn_wf_def intro: order_trans)
  define v where "v = upd_conn r (\<lambda>c. c\<lparr>nrtx := 0\<rparr>) (upd_conn r (conn_len_update (\<lambda>_. w)) u)"
  have vw: "uip_wf v"
    unfolding v_def using wf r m by (intro uip_wf_upd_conn) (simp_all add: conn_wf_def)
  have cv: "uip_conns v = (uip_conns u)[r := (conn_at u r)\<lparr>conn_len := w, nrtx := 0\<rparr>]"
    "conn_at v r = (conn_at u r)\<lparr>conn_len := w, nrtx := 0\<rparr>"
    using uip_wf_lengths(2) [OF wf] r by (simp_all add: v_def conn_at_def upd_conn_def)
  have fv: "uip_flags v = UIP_POLL" "uip_slen v = w" "uip_hostaddr v = uip_hostaddr u" "uip_buf v = uip_buf u"
    "uip.more v = uip.more u"
    using fl w by (simp_all add: v_def)
  define x where "x = set8 o_flags (TCP_ACK OR TCP_PSH) (v\<lparr>uip_appdata := uip_sappdata v, uip_len := w + UIP_IPTCPH_LEN\<rparr>)"
  have "appsend_len r u = upd_conn r (conn_len_update (\<lambda>_. w)) u"
    using c w fl by (simp add: appsend_len_def Let_def)
  then have "appsend r u = apprexmit r v"
    using fl by (simp add: appsend_def v_def)
  also have "\<dots> = tcp_send_noopts r x"
    using w(2) fv(2) cv(2) by (simp add: apprexmit_def x_def Let_def)
  finally have send: "appsend r u = tcp_send_noopts r x" .
  have "unat w \<le> 366" using m by (simp add: word_le_nat_alt)
  then have xl: "unat (uip_len x) = unat w + 40" "uip_len x = w + 40"
    by (simp_all add: x_def unat_add_wrap)
  have xw: "uip_wf x" "40 \<le> uip_len x" "uip_len x \<le> 406" "buf8 x o_flags = TCP_ACK OR TCP_PSH" "conn_at x r = conn_at v r"
    "uip_conns x = uip_conns v" "uip.more x = uip.more v" "net_config x = net_config u" "drop 54 (uip_buf x) = drop 54 (uip_buf u)"
    using vw \<open>unat w \<le> 366\<close> xl(1) uip_wf_lengths(1) [OF vw] fv(4) by (simp_all add: x_def word_le_nat_alt buf_same) (simp add: v_def)
  have "conn_segment x r fl d = conn_segment u r fl d" for fl d
    using fv(3) cv(2) xw(5) by (simp add: conn_segment_def Let_def) (simp add: x_def)
  then show ?thesis
    using tcp_send_noopts_spec [OF xw(1-3), of r] send xl xw cv(1) fv(5) by auto
qed

lemma queued_data_sent_spec:
  assumes wf: "uip_wf s" "bridge_ok s" and r: "r < UIP_CONNS"
    and c: "tcpstateflags (conn_at s r) = UIP_ESTABLISHED" "conn_len (conn_at s r) = 0"
    and tx: "httpd_socket_tx_pending s \<noteq> 0" "httpd_socket_close_pending s = 0" "0 < httpd_socket_tx_len s"
    and mss: "httpd_socket_tx_len s \<le> int (unat (mss (conn_at s r)))"
  shows "\<exists>s'. uip_poll_conn httpd_appcall r s = Inr s' \<and> uip_wf s' \<and> tcp_ok s' \<and> uip.more s' = uip.more s \<and>
    net_config s' = net_config s \<and>
    uip_len s' = word_of_int (httpd_socket_tx_len s) + 40 \<and>
    segment_of s' = conn_segment s r (TCP_ACK OR TCP_PSH) (take (nat (httpd_socket_tx_len s)) (httpd_socket_tx_buf s)) \<and>
    uip_conns s' = (uip_conns s)[r := (conn_at s r)\<lparr>conn_len := word_of_int (httpd_socket_tx_len s), nrtx := 0\<rparr>]"
proof -
  let ?n = "nat (httpd_socket_tx_len s)" and ?w = "word_of_int (httpd_socket_tx_len s) :: u16"
  note L = uip_wf_lengths [OF wf(1)]
  have m: "unat (mss (conn_at s r)) \<le> 366"
    using conn_wf_conn_at [OF wf(1) r] by (simp add: conn_wf_def word_le_nat_alt)
  have n: "unat ?w = ?n"
    using wf(2) tx(3) by (auto simp: bridge_ok_def unat_eq_nat_uint uint_word_of_int)
  have le: "?n \<le> 366" "?n \<le> unat (mss (conn_at s r))" "0 < ?n"
    using m mss tx(3) by linarith+
  have lb: "length (httpd_socket_tx_buf s) = 420"
    using wf(2) by (simp add: bridge_ok_def bridge_wf_def)
  define t where "t = s\<lparr>uip_conn := Some r, uip_sappdata := 54, uip_appdata := 54, uip_flags := UIP_POLL\<rparr>"
  define u where "u = t\<lparr>uip_slen := ?w, uip_buf := take 54 (uip_buf s) @ take ?n (httpd_socket_tx_buf s) @ drop (54 + ?n) (uip_buf s)\<rparr>"
  have t: "uip_wf t" "bridge_ok t"
    using wf r by (simp_all add: t_def bridge_ok_def bridge_wf_def)
  have "httpd_appcall t = Inr (t\<lparr>uip_slen := word_of_int (httpd_socket_tx_len t),
      uip_buf := take 54 (uip_buf t) @ take (nat (httpd_socket_tx_len t)) (httpd_socket_tx_buf t) @
        drop (54 + nat (httpd_socket_tx_len t)) (uip_buf t)\<rparr>)"
    using tx t L by (intro httpd_appcall_tx) (simp_all add: t_def)
  then have call: "httpd_appcall t = Inr u" by (simp add: u_def t_def)
  have u: "uip_wf u" "conn_at u k = conn_at s k" "uip_conns u = uip_conns s" "uip_hostaddr u = uip_hostaddr s"
      "uip_flags u = UIP_POLL" "uip_slen u = ?w" "uip.more u = uip.more s" "net_config u = net_config s" for k
    using t(1) L le lb by (simp_all add: u_def t_def uip_wf_def conn_at_def)
  have data: "take (unat ?w) (drop 54 (uip_buf u)) = take ?n (httpd_socket_tx_buf s)"
    using n L le lb by (simp add: u_def min_def)
  have "0 < ?w" "?w \<le> mss (conn_at u r)"
    using n le u(2) by (simp_all add: word_less_nat_alt word_le_nat_alt)
  from appsend_data [OF u(1) _ _ u(5,6) this] r c(2) u(2) obtain s' where s': "appsend r u = Inr s'"
    "uip_wf s'" "tcp_ok s'" "uip_len s' = ?w + 40" "uip.more s' = uip.more u" "net_config s' = net_config u"
    "segment_of s' = conn_segment u r (TCP_ACK OR TCP_PSH) (take (unat ?w) (drop 54 (uip_buf u)))"
    "uip_conns s' = (uip_conns u)[r := (conn_at u r)\<lparr>conn_len := ?w, nrtx := 0\<rparr>]" by auto
  have "uip_poll_conn httpd_appcall r s = appsend r u"
    using c call u(2) by (simp add: uip_poll_conn_def uip_process_def poll_request_def uip_outstanding_def tcp_state_of_def t_def [symmetric])
  moreover have "conn_segment u r fl d = conn_segment s r fl d" for fl d
    using u(2,4) by (simp add: conn_segment_def)
  ultimately show ?thesis
    using s' u(2,3,7,8) data by simp
qed

end
