(* ===== verification/Uip_Safety.thy ===== *)
theory Uip_Safety
  imports Tcp_Props
begin

text \<open>
  When \<^verbatim>\<open>uip_process()\<close> with the bridge as its application stays within its arrays and returns, and a SYN on which it
  does not return.
\<close>

section \<open>The option loop of a SYN\<close>

lemma mss_option_ends:
  assumes "\<forall>i < lim. unat (b ! (55 + i)) \<le> 216" and "lim \<le> 40"
  shows "mss_option b lim c \<noteq> None"
  using assms
proof (induction "40 - unat c" arbitrary: c rule: less_induct)
  case less
  show ?case
  proof (cases "unat c < lim")
    case True
    have bound: "unat (b ! (55 + unat c)) \<le> 216" using less.prems True by blast
    then have u: "unat (c + b ! (55 + unat c)) = unat c + unat (b ! (55 + unat c))" "unat (c + 1) = unat c + 1"
      using True less.prems(2) by (simp_all add: unat_add_wrap)
    have pos: "b ! (55 + unat c) \<noteq> 0 \<Longrightarrow> 0 < unat (b ! (55 + unat c))"
      by (simp add: unat_gt_0)
    have IH: "unat c < unat d \<Longrightarrow> mss_option b lim d \<noteq> None" for d
      using less.hyps [of d] less.prems True by auto
    show ?thesis
      using IH [of "c + 1"] IH [of "c + b ! (55 + unat c)"] u pos
      by (subst mss_option.simps) auto
  next
    case False
    then show ?thesis by (subst mss_option.simps) simp
  qed
qed

lemma mss_option_loops:
  assumes "b ! 54 = 3" "b ! 55 = 1" "b ! 56 = 3" "b ! 57 = 254" and "2 < lim"
  shows "mss_option b lim 0 = None"
proof (rule ccontr)
  let ?P = "\<lambda>(b :: bytes) (lim :: nat) (c :: u8) (y :: u16 option). \<not> (c \<in> {0, 1, 2} \<and> b ! 54 = 3 \<and> b ! 55 = 1 \<and> b ! 56 = 3 \<and> b ! 57 = 254 \<and> 2 < lim)"
  have z: "(256 :: u8) = 0" by code_simp
  assume "mss_option b lim 0 \<noteq> None"
  then obtain x where "mss_option b lim 0 = Some x" by auto
  then have "?P b lim 0 x"
  proof (rule mss_option.raw_induct [where P = ?P, rotated])
    fix f :: "bytes \<Rightarrow> nat \<Rightarrow> u8 \<Rightarrow> u16 option option" and b lim c y
    assume ih: "\<And>b lim c y. f b lim c = Some y \<Longrightarrow> ?P b lim c y"
      and body: "(if unat c < lim
      then if b ! (54 + unat c) = 0 then Some None
           else if b ! (54 + unat c) = 1 then f b lim (c + 1)
           else if b ! (54 + unat c) = 2 \<and> b ! (55 + unat c) = 4
           then Some (Some (push_bit 8 (ucast (b ! (56 + unat c))) OR ucast (b ! (57 + unat c))))
           else if b ! (55 + unat c) = 0 then Some None
           else f b lim (c + b ! (55 + unat c))
      else Some None) = Some y"
    show "?P b lim c y"
    proof
      assume a: "c \<in> {0, 1, 2} \<and> b ! 54 = 3 \<and> b ! 55 = 1 \<and> b ! 56 = 3 \<and> b ! 57 = 254 \<and> 2 < lim"
      then consider "c = 0" | "c = 1" | "c = 2" by blast
      then show False
      proof cases
        case 1
        then show ?thesis using a body ih [of b lim 1 y] by simp
      next
        case 2
        then show ?thesis using a body ih [of b lim 2 y] by simp
      next
        case 3
        have "c + b ! (55 + unat c) = 0" using a 3 z by simp
        moreover have "f b lim (c + b ! (55 + unat c)) = Some y" using a body 3 by simp
        ultimately show ?thesis using a ih [of b lim 0 y] by simp
      qed
    qed
  qed
  with assms show False by simp
qed

text \<open>
  C7: whatever is in the packet buffer and whatever the flag, \<^verbatim>\<open>uip_process()\<close> with the bridge, if it
  returns, keeps the stack well formed and leaves either no packet or an outgoing packet whose
  length field and checksums are right; a TCP segment it leaves is at most 406 bytes long, so it fits the
  buffer with its Ethernet header.
\<close>

theorem uip_process_keeps_invariant:
  assumes "uip_wf s" and "bridge_wf s" and "flag = UIP_TIMER \<or> flag = UIP_POLL_REQUEST \<longrightarrow> uip_conn s \<noteq> None"
    and "uip_process httpd_appcall flag s = Inr s'"
  shows "uip_wf s' \<and> bridge_wf s' \<and> out_ok s'"
  using bridge.uip_process_ok [of s flag] assms by (simp add: uip_inv_def)

theorem uip_process_keeps_invariant_witness:
  "uip_wf (projr (uip_process httpd_appcall UIP_DATA (with_packet get_packet web_established))) \<and>
   out_ok (projr (uip_process httpd_appcall UIP_DATA (with_packet get_packet web_established)))"
proof -
  let ?s = "with_packet get_packet web_established"
  have h: "uip_wf ?s" "bridge_wf ?s" "UIP_DATA = UIP_TIMER \<or> UIP_DATA = UIP_POLL_REQUEST \<longrightarrow> uip_conn ?s \<noteq> None"
    "uip_process httpd_appcall UIP_DATA ?s = Inr (projr (uip_process httpd_appcall UIP_DATA ?s))"
    by code_simp+
  then show ?thesis using uip_process_keeps_invariant [OF h] by simp
qed

text \<open>
  C8: the conditions under which input is safe. If a TCP packet's lengths fit (header and options in the IP
  packet, that within 408 bytes, the urgent pointer within the data), the lengths of a SYN's options do not
  wrap the 8-bit index, and the bridge has at most 368 bytes queued, then \<^verbatim>\<open>uip_process()\<close> returns: it neither
  leaves its arrays nor loops. The same holds for the timer and poll entries with no condition on the packet.
\<close>

theorem uip_process_no_fault:
  assumes "uip_wf s" and "bridge_ok s" and "flag = UIP_TIMER \<or> flag = UIP_POLL_REQUEST \<longrightarrow> uip_conn s \<noteq> None"
    and "flag = UIP_DATA \<and> buf8 s o_proto = UIP_PROTO_TCP \<longrightarrow>
      segment_safe s \<and> (\<forall>i < 40. unat (buf8 s (55 + i)) \<le> 216)"
    and "flag \<in> {UIP_DATA, UIP_TIMER, UIP_POLL_REQUEST}"
  shows "\<exists>s'. uip_process httpd_appcall flag s = Inr s' \<and> uip_wf s' \<and> bridge_ok s' \<and> out_ok s'"
proof -
  have lim: "(unat (drop_bit 4 x) - 5) * 4 \<le> (40 :: nat)" for x :: u8
    using unat_u8_less [of x] by (simp add: unat_drop_bit_eq drop_bit_nat_def)
  have "opts_safe s" if "\<forall>i < 40. unat (buf8 s (55 + i)) \<le> 216"
    unfolding opts_safe_def using that lim [of "buf8 s o_tcpoffset"]
    by (intro mss_option_ends) (auto simp: buf8_def)
  then have "res_ok (\<lambda>_. False) (process_post (on_more bridge_ok)) (uip_process httpd_appcall flag s)"
    using assms by (intro bridge_total.uip_process_ok) (auto simp: uip_inv_def)
  then show ?thesis
    by (auto simp: res_ok_total uip_inv_def)
qed

theorem uip_process_no_fault_witness:
  "\<exists>s'. uip_process httpd_appcall UIP_DATA (with_packet syn_packet web_stack) = Inr s' \<and>
     uip_wf s' \<and> bridge_ok s' \<and> out_ok s'"
  by (rule uip_process_no_fault; code_simp)

text \<open>
  C40: the option loop can be made to run forever. On a SYN for a listening port, with a free slot and the option bytes
  3, 1, 3, 254, the 8-bit index returns to 0 and \<^verbatim>\<open>uip_process()\<close> does not return.
\<close>

theorem syn_options_hang:
  assumes "uip_wf s" and "valid_tcp s" and "first_index (conn_matches s) (uip_conns s) = None"
    and "buf8 s o_flags AND TCP_CTL = TCP_SYN" and "buf16 s o_destport \<in> set (uip_listenports s)"
    and "find_unused (uip_conns s) 0 None = Some r" and "buf8 s o_tcpoffset = 0x60"
    and "map (buf8 s) [54, 55, 56, 57] = [3, 1, 3, 254]"
  shows "uip_input app s = Inl Hang"
proof -
  have "parse_mss r u = Inl Hang" if "uip_buf u = uip_buf s" for u :: "'a uip_scheme"
    using that assms(7,8) mss_option_loops [of "uip_buf s" 4]
    by (simp add: parse_mss_def buf8_def)
  then show ?thesis
    using assms(2-6) by (simp add: uip_input_valid found_listen_def Let_def)
qed

theorem syn_options_hang_witness:
  "uip_input httpd_appcall (with_packet loop_packet web_stack) = Inl Hang"
  by (rule syn_options_hang [where r = 0]; code_simp)

end
