(* ===== verification/Ip_Props.thy ===== *)
theory Ip_Props
  imports Uip_Safety
begin

text \<open>
  The IP and ICMP input of \<^verbatim>\<open>uip_process()\<close>: packets that are dropped, and the echo reply with its incremental
  checksum.
\<close>

section \<open>The incremental ICMP checksum\<close>

lemma oc_norm_zero_iff: "oc_norm m \<in> {0, 65535} \<longleftrightarrow> m mod 65535 = 0"
proof (cases "m = 0")
  case False
  then obtain k where "m = Suc k" by (cases m) auto
  then show ?thesis by (simp add: oc_norm_def mod_Suc)
qed (simp add: oc_norm_def)

lemma chksum_valid_iff: "fold_chksum (chksum 0 bs) = 0xffff \<longleftrightarrow> word_sum bs mod 65535 = 0"
proof -
  have "chksum 0 bs = 0 \<or> chksum 0 bs = 0xffff \<longleftrightarrow> unat (chksum 0 bs) \<in> {0, 65535}"
    by (auto simp: word_unat_eq_iff)
  then show ?thesis
    using oc_norm_zero_iff [of "word_sum bs"] by (simp add: fold_chksum_ffff_iff chksum_norm)
qed

lemma unat_HTONS: "unat (HTONS w) = 256 * unat (lo8 w) + unat (hi8 w)"
  by (metis HTONS_be16 be16_hi_lo unat_be16)

lemma word_sum_put16_gen:
  assumes "even i" and "i + 1 < length bs"
  shows "word_sum (put16 bs i w) + unat (HTONS (get16 bs i)) = word_sum bs + unat (HTONS w)"
  using word_sum_update [of i bs "lo8 w"] word_sum_update [of "i + 1" "bs[i := lo8 w]" "hi8 w"] assms
  by (simp add: put16_def get16_def unat_HTONS)

lemma unat_HTONS_mod: "unat (HTONS w) mod 65535 = 256 * unat w mod 65535"
proof -
  have "256 * unat w = unat (HTONS w) + 65535 * unat (hi8 w)"
    using unat_u16_split [of w] unat_HTONS [of w] by linarith
  then show ?thesis by (metis mod_mult_self2)
qed

lemma icmp_reply_chksum_mod: "unat (icmp_reply_chksum ck) mod 65535 = (unat ck + 8) mod 65535"
proof -
  have c: "HTONS (push_bit 8 (ucast ICMP_ECHO)) = 8" "HTONS (0xffff - push_bit 8 (ucast ICMP_ECHO)) = 0xfff7"
    by code_simp+
  have "unat ck < 65536" by (rule unat_u16_less)
  then show ?thesis
    unfolding icmp_reply_chksum_def c by (auto simp: word_le_nat_alt unat_add_wrap mod_if)
qed

lemma mod_cancel:
  assumes "(a :: nat) + x = w + y" and "w mod n = 0" and "y mod n = x mod n"
  shows "a mod n = 0"
proof -
  have "(a + x) mod n = x mod n"
    using assms by (simp add: mod_eq_0_iff_dvd mod_add_left_eq [of w n y, symmetric])
  then show ?thesis
    using mod_eq_dvd_iff_nat [of x "a + x" n] by (simp add: mod_eq_0_iff_dvd)
qed

text \<open>Exchanging the type byte 8 for 0 and adjusting the checksum word keeps the sum of the message valid.\<close>

lemma echo_message_chksum:
  assumes len: "4 \<le> length p" and type: "p ! 0 = 8" and ok: "word_sum p mod 65535 = 0"
  shows "word_sum (put16 (p[0 := 0]) 2 (icmp_reply_chksum (get16 p 2))) mod 65535 = 0"
proof -
  let ?c = "get16 p 2" and ?q = "p[0 := 0]"
  have "word_sum ?q + 2048 = word_sum p"
    using word_sum_update [of 0 p 0] len type by (cases p) simp_all
  moreover have "get16 ?q 2 = ?c" by (simp add: get16_def)
  then have "word_sum (put16 ?q 2 (icmp_reply_chksum ?c)) + unat (HTONS ?c) = word_sum ?q + unat (HTONS (icmp_reply_chksum ?c))"
    using word_sum_put16_gen [of 2 ?q "icmp_reply_chksum ?c"] len by simp
  ultimately have e: "word_sum (put16 ?q 2 (icmp_reply_chksum ?c)) + unat (HTONS ?c) + 2048 =
      word_sum p + unat (HTONS (icmp_reply_chksum ?c))" by linarith
  have "unat (HTONS (icmp_reply_chksum ?c)) mod 65535 = (256 * (unat ?c + 8)) mod 65535"
    by (metis icmp_reply_chksum_mod unat_HTONS_mod mod_mult_right_eq)
  also have "\<dots> = (unat (HTONS ?c) + 2048) mod 65535"
    by (simp add: distrib_left) (metis mod_add_left_eq unat_HTONS_mod)
  finally have h: "unat (HTONS (icmp_reply_chksum ?c)) mod 65535 = (unat (HTONS ?c) + 2048) mod 65535" .
  show ?thesis
    by (rule mod_cancel [OF e [unfolded add.assoc] ok h])
qed

section \<open>Dropped packets\<close>

definition ip_accepted :: "'a uip_scheme \<Rightarrow> bool" where
  "ip_accepted s \<longleftrightarrow>
     buf8 s o_vhl = 0x45 \<and> ip_total_len s \<le> uip_len s \<and>
     buf8 s o_ipoffset AND 0x3f = 0 \<and> buf8 s (o_ipoffset + 1) = 0 \<and>
     (uip_hostaddr s = (0, 0) \<or> buf_addr s o_destipaddr = uip_hostaddr s) \<and> uip_ipchksum s = 0xffff"

text \<open>The state after the IP checks.\<close>

definition ip_rx :: "'a uip_scheme \<Rightarrow> 'a uip_scheme" where
  "ip_rx s = (count_stat (\<lambda>t. t\<lparr>ip_recv := ip_recv t + 1\<rparr>) (s\<lparr>uip_sappdata := 54, uip_appdata := 54\<rparr>))
     \<lparr>uip_len := ip_total_len s\<rparr>"

lemma ip_rx_frame [simp]:
  "uip_buf (ip_rx s) = uip_buf s" "uip_conns (ip_rx s) = uip_conns s" "uip_hostaddr (ip_rx s) = uip_hostaddr s"
  "uip_len (ip_rx s) = ip_total_len s" "uip.more (ip_rx s) = uip.more s" "uip_wf (ip_rx s) = uip_wf s"
  "uip_listenports (ip_rx s) = uip_listenports s"
  by (simp_all add: ip_rx_def) (simp_all add: count_stat_def)

lemmas ip_rx_buf [simp] = same_buf [OF ip_rx_frame(1)]

lemma drop_packet_frame [simp]:
  "uip_len (drop_packet s) = 0" "uip_conns (drop_packet s) = uip_conns s" "uip.more (drop_packet s) = uip.more s"
  "uip_listenports (drop_packet s) = uip_listenports s"
  by (simp_all add: drop_packet_def)

lemma count_stat_tables [simp]:
  "uip_listenports (count_stat g s) = uip_listenports s" "uip_conns (count_stat g s) = uip_conns s"
  by (simp_all add: count_stat_def)

lemma uip_tcpchksum_count [simp]: "uip_tcpchksum (count_stat g s) = uip_tcpchksum s"
  by (rule same_buf) simp

text \<open>The checks in their order, over the fields of the packet.\<close>

lemma uip_input_checks:
  fixes s :: "'a uip_scheme"
  defines "t \<equiv> count_stat (\<lambda>t. t\<lparr>ip_recv := ip_recv t + 1\<rparr>) (s\<lparr>uip_sappdata := 54, uip_appdata := 54\<rparr>)"
  shows "uip_input app s =
     (if buf8 s o_vhl \<noteq> 0x45
      then Inr (drop_packet (count_stat (\<lambda>t. t\<lparr>ip_drop := ip_drop t + 1, ip_vhlerr := ip_vhlerr t + 1\<rparr>) t))
      else if \<not> ip_total_len s \<le> uip_len s then Inr (drop_packet t)
      else if buf8 s o_ipoffset AND 0x3f \<noteq> 0 \<or> buf8 s (o_ipoffset + 1) \<noteq> 0
      then Inr (drop_packet (count_stat (\<lambda>t. t\<lparr>ip_drop := ip_drop t + 1, ip_fragerr := ip_fragerr t + 1\<rparr>) (ip_rx s)))
      else if uip_hostaddr s \<noteq> (0, 0) \<and> buf_addr s o_destipaddr \<noteq> uip_hostaddr s
      then Inr (drop_packet (count_stat (\<lambda>t. t\<lparr>ip_drop := ip_drop t + 1\<rparr>) (ip_rx s)))
      else if uip_ipchksum s \<noteq> 0xffff
      then Inr (drop_packet (count_stat (\<lambda>t. t\<lparr>ip_drop := ip_drop t + 1, ip_chkerr := ip_chkerr t + 1\<rparr>) (ip_rx s)))
      else if buf8 s o_proto = UIP_PROTO_TCP then tcp_input app (ip_rx s)
      else if buf8 s o_proto \<noteq> UIP_PROTO_ICMP
      then Inr (drop_packet (count_stat (\<lambda>t. t\<lparr>ip_drop := ip_drop t + 1, ip_protoerr := ip_protoerr t + 1\<rparr>) (ip_rx s)))
      else Inr (icmp_input (ip_rx s)))"
proof -
  have b: "buf8 t = buf8 s" "uip_hostaddr t = uip_hostaddr s" "uip_len t = uip_len s" "ip_total_len t = ip_total_len s"
    by (simp_all add: t_def fun_eq_iff)
  have c: "buf8 (ip_rx s) = buf8 s" "buf_addr (ip_rx s) = buf_addr s" "uip_ipchksum (ip_rx s) = uip_ipchksum s"
    by (simp_all add: fun_eq_iff)
  have r: "t\<lparr>uip_len := ip_total_len s\<rparr> = ip_rx s" by (simp add: t_def ip_rx_def)
  show ?thesis
    unfolding uip_input_def uip_process_def ip_input_def Let_def t_def [symmetric] b r c uip_ipaddr_cmp_def ip_rx_frame(3)
    by (simp add: prod_eq_iff)
qed

lemma uip_input_accepted:
  assumes "ip_accepted s"
  shows "uip_input app s =
    (if buf8 s o_proto = UIP_PROTO_TCP then tcp_input app (ip_rx s)
     else if buf8 s o_proto \<noteq> UIP_PROTO_ICMP
     then Inr (drop_packet (count_stat (\<lambda>t. t\<lparr>ip_drop := ip_drop t + 1, ip_protoerr := ip_protoerr t + 1\<rparr>) (ip_rx s)))
     else Inr (icmp_input (ip_rx s)))"
  using assms unfolding ip_accepted_def uip_input_checks by auto

text \<open>
  C16: a packet is ignored when its version and header length are not those of a plain IPv4 header, its length is
  more than the received one, it is a fragment, it is for another host, its header checksum is wrong, it is
  neither TCP nor ICMP, or it is a TCP segment with a wrong checksum: nothing is sent, and the connections,
  the listening ports and the application's variables are unchanged.
\<close>

theorem bad_packet_dropped:
  assumes "\<not> ip_accepted s \<or> buf8 s o_proto \<notin> {UIP_PROTO_TCP, UIP_PROTO_ICMP} \<or>
    buf8 s o_proto = UIP_PROTO_TCP \<and> uip_tcpchksum s = Inr ck \<and> ck \<noteq> 0xffff"
  shows "\<exists>s'. uip_input app s = Inr s' \<and> uip_len s' = 0 \<and> uip_conns s' = uip_conns s \<and>
    uip_listenports s' = uip_listenports s \<and> uip.more s' = uip.more s"
proof (cases "ip_accepted s")
  case False
  then show ?thesis
    unfolding ip_accepted_def uip_input_checks by auto
next
  case True
  then show ?thesis
    using assms by (auto simp: uip_input_accepted tcp_input_def Let_def)
qed

theorem bad_packet_dropped_witness:
  "\<exists>s'. uip_input httpd_appcall (with_packet (get_packet[56 := 0]) web_established) = Inr s' \<and> uip_len s' = 0 \<and>
    uip_conns s' = uip_conns (with_packet (get_packet[56 := 0]) web_established) \<and>
    uip_listenports s' = uip_listenports (with_packet (get_packet[56 := 0]) web_established) \<and>
    uip.more s' = uip.more (with_packet (get_packet[56 := 0]) web_established)"
  by (rule bad_packet_dropped [where ck = "0xffab"]; code_simp)

section \<open>Echo\<close>

text \<open>The checksum of the ICMP message, over the data of the IP packet.\<close>

definition icmp_chksum_ok :: "'a uip_scheme \<Rightarrow> bool" where
  "icmp_chksum_ok s \<longleftrightarrow>
     fold_chksum (chksum 0 (take (unat (ip_total_len s) - 20) (drop 34 (uip_buf s)))) = 0xffff"

lemma icmp_reply_message:
  assumes len: "length (uip_buf s) = 422" and n: "28 \<le> n" "n \<le> 408"
  defines "p \<equiv> take (n - 20) (drop 34 (uip_buf s))"
  shows "take (n - 20) (drop 34 (uip_buf (icmp_reply s))) = put16 (p[0 := 0]) 2 (icmp_reply_chksum (get16 p 2))"
proof -
  have "get16 p 2 = buf16 s o_icmpchksum"
    using n len by (simp add: p_def get16_def buf16_def)
  then show ?thesis
    using n by (simp add: icmp_reply_def swap_addrs_def take_drop_put16_other take_drop_put16 take_drop_update p_def)
qed

lemma send_packet_fields [simp]:
  "uip_buf (send_packet s) = uip_buf s" "uip_conns (send_packet s) = uip_conns s" "uip.more (send_packet s) = uip.more s"
  by (simp_all add: send_packet_def)

lemmas send_packet_buf [simp] = same_buf [OF send_packet_fields(1)]

lemma buf_addr_count [simp]: "buf_addr (count_stat g s) i = buf_addr s i"
  by (rule same_buf) simp

lemma icmp_reply_fields [simp]:
  assumes "length (uip_buf s) = 422"
  shows "uip_conns (icmp_reply s) = uip_conns s" "uip.more (icmp_reply s) = uip.more s"
    "buf_addr (icmp_reply s) o_srcipaddr = uip_hostaddr s"
    "buf_addr (icmp_reply s) o_destipaddr = buf_addr s o_srcipaddr"
    "buf8 (icmp_reply s) o_icmp_type = ICMP_ECHO_REPLY"
    "i = 35 \<or> 38 \<le> i \<Longrightarrow> buf8 (icmp_reply s) i = buf8 s i"
proof -
  show "uip_conns (icmp_reply s) = uip_conns s" "uip.more (icmp_reply s) = uip.more s"
    by (simp_all add: icmp_reply_def swap_addrs_def set_addr_def set16_def set8_def)
  show "i = 35 \<or> 38 \<le> i \<Longrightarrow> buf8 (icmp_reply s) i = buf8 s i" "buf8 (icmp_reply s) o_icmp_type = ICMP_ECHO_REPLY"
    using assms by (auto simp: icmp_reply_def swap_addrs_def buf8_def put16_def nth_list_update)
  show "buf_addr (icmp_reply s) o_srcipaddr = uip_hostaddr s"
    "buf_addr (icmp_reply s) o_destipaddr = buf_addr s o_srcipaddr"
    using assms by (simp_all add: icmp_reply_def swap_addrs_def buf_addr_def get16_def put16_def)
qed

text \<open>
  C15: ping works. An echo request for this host with a complete message that fits the buffer and a valid ICMP
  checksum is answered: the reply is as long as the request, has the type of a reply, goes from this host to the
  sender, repeats the code, the identifier, the sequence number and all data, and its IP and ICMP checksums are valid,
  although the ICMP checksum is only adjusted and not computed afresh. No connection changes.
\<close>

theorem echo_answered:
  assumes wf: "uip_wf s" and ip: "ip_accepted s" and host: "buf_addr s o_destipaddr = uip_hostaddr s"
    and icmp: "buf8 s o_proto = UIP_PROTO_ICMP" "buf8 s o_icmp_type = ICMP_ECHO" "icmp_chksum_ok s"
    and n: "28 \<le> ip_total_len s" "ip_total_len s \<le> 408"
  shows "\<exists>s'. uip_input app s = Inr s' \<and> uip_len s' = ip_total_len s \<and> ip_total_len s' = ip_total_len s \<and>
    uip_ipchksum s' = 0xffff \<and> icmp_chksum_ok s' \<and> buf8 s' o_icmp_type = ICMP_ECHO_REPLY \<and>
    buf_addr s' o_srcipaddr = uip_hostaddr s \<and> buf_addr s' o_destipaddr = buf_addr s o_srcipaddr \<and>
    (\<forall>i. i = 35 \<or> 38 \<le> i \<longrightarrow> buf8 s' i = buf8 s i) \<and>
    uip_conns s' = uip_conns s \<and> uip.more s' = uip.more s"
proof -
  define t where "t = count_stat (\<lambda>t. t\<lparr>icmp_recv := icmp_recv t + 1\<rparr>) (ip_rx s)"
  define s' where "s' = send_packet (count_stat (\<lambda>t. t\<lparr>icmp_sent := icmp_sent t + 1\<rparr>) (icmp_reply t))"
  let ?n = "unat (ip_total_len s)" and ?p = "take (unat (ip_total_len s) - 20) (drop 34 (uip_buf s))"
  note L = uip_wf_lengths(1) [OF wf]
  have b: "uip_buf t = uip_buf s" "uip_hostaddr t = uip_hostaddr s" "uip_len t = ip_total_len s"
    "uip_conns t = uip_conns s" "uip.more t = uip.more s"
    by (simp_all add: t_def)
  have n': "28 \<le> ?n" "?n \<le> 408"
    using n by (simp_all add: word_le_nat_alt)
  have "uip_input app s = Inr s'"
    using icmp(1,2) by (simp add: uip_input_accepted [OF ip] icmp_input_echo s'_def t_def)
  moreover have "icmp_chksum_ok s'"
  proof -
    have "?p ! 0 = 8" using icmp(2) n' L by (simp add: buf8_def)
    moreover have "word_sum ?p mod 65535 = 0"
      using icmp(3) by (simp add: icmp_chksum_ok_def chksum_valid_iff)
    ultimately have "word_sum (put16 (?p[0 := 0]) 2 (icmp_reply_chksum (get16 ?p 2))) mod 65535 = 0"
      using n' L by (intro echo_message_chksum) simp_all
    then show ?thesis
      using icmp_reply_message [of t ?n] n' L b
      by (simp add: icmp_chksum_ok_def chksum_valid_iff s'_def same_buf(7) [OF b(1)])
  qed
  moreover have "uip_ipchksum s' = 0xffff"
    using icmp_reply_ipchksum [of t] ip host L b by (simp add: s'_def same_buf [OF b(1)] ip_accepted_def)
  ultimately show ?thesis
    using L b by (simp add: s'_def same_buf [OF b(1)])
qed

theorem echo_answered_witness:
  "\<exists>s'. uip_input httpd_appcall (with_packet echo_packet web_stack) = Inr s' \<and> uip_len s' = 32 \<and>
     icmp_chksum_ok s' \<and> buf8 s' o_icmp_type = ICMP_ECHO_REPLY"
proof -
  let ?s = "with_packet echo_packet web_stack"
  have h: "uip_wf ?s" "ip_accepted ?s" "buf_addr ?s o_destipaddr = uip_hostaddr ?s" "buf8 ?s o_proto = UIP_PROTO_ICMP"
    "buf8 ?s o_icmp_type = ICMP_ECHO" "icmp_chksum_ok ?s" "28 \<le> ip_total_len ?s" "ip_total_len ?s \<le> 408"
    "ip_total_len ?s = 32"
    by code_simp+
  then show ?thesis using echo_answered [OF h(1-8), of httpd_appcall] by auto
qed

end
