(* ===== verification/Sys_Net_Props.thy ===== *)
theory Sys_Net_Props
  imports Sys_Net Ip_Props
begin

text \<open>
  Properties of the network service over the device driver: its start, its replies, and data from a request to
  the transmit ring and from a received frame to a reply.
\<close>

abbreviation e1000_earth :: "'h nic \<Rightarrow> 'h e1000 earth" where
  "e1000_earth dev \<equiv> \<lparr>earth_net_send = net_send dev, earth_net_recv = net_recv dev\<rparr>"

section \<open>States for the examples\<close>

definition service_on :: "httpd_uip \<Rightarrow> arp \<Rightarrow> unit e1000 net_state" where
  "service_on u a = \<lparr>stack = u, arp_mod = a, nic = e1000_ready, sock_listen_port = 80, sock_conn_id = 1,
     sock_conn_open = 1, sock_conn_pending = 0, sock_conn_closed = 0, sock_rx_buf = replicate NET_BUF_SIZE 0,
     sock_rx_len = 0, sock_tx_buf = replicate NET_BUF_SIZE 0, sock_tx_len = 0, sock_tx_pending = 0, outbox = []\<rparr>"

definition service_bss :: "unit e1000 net_state" where
  "service_bss = (service_on httpd_bss arp_bss)\<lparr>sock_listen_port := -1, sock_conn_open := 0\<rparr>"

lemma service_on_inv:
  assumes "uip_wf u" and "bridge_wf u" and "arp_inv a"
  shows "net_inv e1000_wf (service_on u a)"
  using assms e1000_ready_inv by (simp add: net_inv_def service_on_def)

lemma service_bss_inv: "net_inv e1000_wf service_bss"
proof -
  have "uip_wf httpd_bss" "bridge_wf httpd_bss" by code_simp+
  then show ?thesis
    using service_on_inv [OF _ _ arp_inv_bss, of httpd_bss] by (simp add: service_bss_def)
qed

definition request :: "net_request_type \<Rightarrow> int \<Rightarrow> bytes \<Rightarrow> net_request" where
  "request ty len data = \<lparr>rq_type = ty, rq_port = 80, rq_conn_id = 1, rq_length = len,
     rq_buf = data @ replicate (NET_BUF_SIZE - length data) 0\<rparr>"

section \<open>Start and requests\<close>

text \<open>
  The start of the service leaves a well formed state with every connection closed, no listening port and an empty
  address cache, configured as 10.0.2.15 with router 10.0.2.2 and the driver's hardware address, and tells the
  process server that it is ready.
\<close>

lemma sys_net_init_ready:
  assumes "net_inv I s"
  shows "net_inv I (sys_net_init s) \<and>
    list_all (\<lambda>c. tcpstateflags c = UIP_CLOSED) (uip_conns (stack (sys_net_init s))) \<and>
    list_all (\<lambda>p. p = 0) (uip_listenports (stack (sys_net_init s))) \<and>
    (\<forall>ip. ip \<noteq> (0, 0) \<longrightarrow> arp_lookup (arp_mod (sys_net_init s)) ip = None) \<and>
    net_config (stack (sys_net_init s)) =
      (uip_ipaddr 10 0 2 15, uip_ipaddr 10 0 2 2, uip_ipaddr 255 255 255 0, [0x52, 0x54, 0, 0, 0, 1]) \<and>
    outbox (sys_net_init s) = outbox s @ [(GPID_PROCESS, Announce)]"
proof -
  let ?s = "sys_net_init s"
  have wf: "uip_wf (uip_init (stack s))" "arp_inv (uip_arp_init (arp_mod s))" "bridge_wf (stack s)"
    using assms uip_init_wf [of "stack s"] arp_inv_init [of "arp_mod s"] by (simp_all add: net_inv_def arp_inv_def)
  have "net_inv I ?s"
    using assms wf by (simp add: net_inv_def sys_net_init_def Let_def uip_wf_def bridge_wf_def uip_init_def)
  moreover have "arp_lookup (arp_mod ?s) ip = None" if "ip \<noteq> (0, 0)" for ip
  proof -
    have "\<not> uip_ipaddr_cmp ip (0, 0)" using that by (simp add: uip_ipaddr_cmp_def prod_eq_iff)
    then show ?thesis
      by (simp add: arp_lookup_def first_index_None sys_net_init_def Let_def uip_arp_init_def)
  qed
  moreover have "list_all (\<lambda>c. tcpstateflags c = UIP_CLOSED) (uip_conns (stack ?s))"
    "list_all (\<lambda>p. p = 0) (uip_listenports (stack ?s))"
    by (simp_all add: sys_net_init_def Let_def uip_init_def list_all_length)
  ultimately show ?thesis
    by (simp add: sys_net_init_def Let_def net_config_def)
qed

section \<open>No frame waiting\<close>

definition no_frame :: "'d earth \<Rightarrow> 'd net_state \<Rightarrow> 'd \<Rightarrow> bool" where
  "no_frame E s d \<longleftrightarrow> earth_net_recv E (uip_buf (stack s)) (nic s) = Inr (0, uip_buf (stack s), d)"

lemma net_poll_no_frame:
  assumes "no_frame E s d"
  shows "net_poll E s = Inr (s\<lparr>stack := (stack s)\<lparr>uip_len := 0\<rparr>, nic := d\<rparr>)"
proof -
  have "(stack s)\<lparr>uip_buf := uip_buf (stack s), uip_len := 0\<rparr> = (stack s)\<lparr>uip_len := 0\<rparr>" by simp
  then show ?thesis
    using assms by (simp add: net_poll_def no_frame_def Let_def)
qed

lemma no_frame_ready: "nic s = e1000_ready \<Longrightarrow> no_frame (e1000_earth idle_dev) s e1000_ready"
proof -
  assume "nic s = e1000_ready"
  then show ?thesis
    using e1000_ready_inv by (simp add: no_frame_def net_recv_def dev_step_idle Let_def)
qed

section \<open>Replies\<close>

text \<open>
  C9: every request is answered exactly once, in the order of the requests, to its sender, and the service's
  invariant holds after any sequence of requests it has handled: whatever the frames the device delivers and
  whatever the requests hold.
\<close>

theorem requests_answered_in_order:
  assumes "net_inv e1000_wf s" and "sys_net_run (e1000_earth dev) ms s = Inr s'"
  shows "net_inv e1000_wf s' \<and>
    (\<exists>rs. length rs = length ms \<and> outbox s' = outbox s @ zip (map fst ms) (map Reply rs))"
  by (rule res_ok_InrD [OF e1000.sys_net_run_ok [OF assms(1)] assms(2)])

theorem requests_answered_in_order_witness:
  "\<exists>s' rs. sys_net_run (e1000_earth idle_dev) [(7, request NET_SOCK_LISTEN 0 []), (7, request NET_SOCK_ACCEPT 0 [])]
      service_bss = Inr s' \<and> length rs = 2 \<and> outbox s' = zip [7, 7] (map Reply rs)"
proof -
  let ?ms = "[(7 :: int, request NET_SOCK_LISTEN 0 []), (7, request NET_SOCK_ACCEPT 0 [])]"
  have "nic (handle_sock_listen 7 (request NET_SOCK_LISTEN 0 []) service_bss) = e1000_ready"
    by (simp add: handle_sock_listen_def send_net_reply_def reset_socket_state_def service_bss_def service_on_def Let_def)
  from net_poll_no_frame [OF no_frame_ready [OF this]]
  have "\<exists>s'. sys_net_run (e1000_earth idle_dev) ?ms service_bss = Inr s'"
    by (simp add: sys_net_step_def request_def handle_sock_accept_def)
  then obtain s' where s': "sys_net_run (e1000_earth idle_dev) ?ms service_bss = Inr s'" by blast
  have "outbox service_bss = []" by (simp add: service_bss_def service_on_def)
  moreover obtain rs where "length rs = length ?ms" "outbox s' = outbox service_bss @ zip (map fst ?ms) (map Reply rs)"
    using requests_answered_in_order [OF service_bss_inv s'] by blast
  ultimately have "length rs = 2 \<and> outbox s' = zip [7, 7] (map Reply rs)" by simp
  with s' show ?thesis by blast
qed

text \<open>
  C38: a send request on the open connection whose length is negative or more than 420 leaves the bridge's transmit
  buffer: the length is only limited to 512 from above.
\<close>

theorem sock_send_bad_length:
  assumes "net_inv I s" and "no_frame E s d" and "length (rq_buf req) = NET_BUF_SIZE"
    and "socket_conn_valid (rq_conn_id req) s" and "sock_tx_pending s = 0"
    and "rq_length req < 0 \<or> int UIP_BUFSIZE < rq_length req"
  shows "handle_sock_send E sender req s = Inl OutOfBounds"
proof -
  have len: "length (httpd_socket_tx_buf (stack s)) = 420" "length (sock_tx_buf s) = 512"
    using assms(1) by (simp_all add: net_inv_def bridge_wf_def)
  then have "sock_queue_tx req (s\<lparr>stack := (stack s)\<lparr>uip_len := 0\<rparr>, nic := d\<rparr>) = Inl OutOfBounds"
    using assms(3,6) by (auto simp: sock_queue_tx_def Let_def memcpy_int_def mem_read_def mem_write_def clamp_net_length_def)
  then show ?thesis
    using assms(4,5) by (simp add: handle_sock_send_def net_poll_no_frame [OF assms(2)] socket_conn_valid_def)
qed

theorem sock_send_bad_length_witness:
  "handle_sock_send (e1000_earth idle_dev) 7 (request NET_SOCK_SEND 500 []) (service_on web_established arp_bss) = Inl OutOfBounds"
proof -
  let ?s = "service_on web_established arp_bss"
  have "uip_wf web_established" "bridge_wf web_established" by code_simp+
  then have inv: "net_inv e1000_wf ?s" by (intro service_on_inv arp_inv_bss)
  have "no_frame (e1000_earth idle_dev) ?s e1000_ready"
    by (rule no_frame_ready) (simp add: service_on_def)
  then show ?thesis
    using sock_send_bad_length [OF inv, of "e1000_earth idle_dev" e1000_ready "request NET_SOCK_SEND 500 []"]
    by (simp add: request_def service_on_def socket_conn_valid_def)
qed

section \<open>From a request to the wire\<close>

text \<open>The queued state: what \<^verbatim>\<open>handle_sock_send()\<close> hands to the bridge.\<close>

lemma sock_queue_tx_spec:
  assumes "net_inv I s" and "length (rq_buf req) = NET_BUF_SIZE" and "0 < rq_length req" and "rq_length req \<le> 368"
  shows "\<exists>t. sock_queue_tx req s = Inr t \<and> net_inv I t \<and> bridge_ok (stack t) \<and> nic t = nic s \<and> arp_mod t = arp_mod s \<and>
    outbox t = outbox s \<and> sock_listen_port t = sock_listen_port s \<and> sock_tx_len t = rq_length req \<and> sock_tx_pending t = 1 \<and>
    uip_conns (stack t) = uip_conns (stack s) \<and> net_config (stack t) = net_config (stack s) \<and>
    httpd_socket_tx_pending (stack t) = 1 \<and> httpd_socket_tx_len (stack t) = rq_length req \<and>
    httpd_socket_close_pending (stack t) = httpd_socket_close_pending (stack s) \<and>
    take (nat (rq_length req)) (httpd_socket_tx_buf (stack t)) = take (nat (rq_length req)) (rq_buf req)"
proof -
  let ?n = "nat (rq_length req)"
  have len: "length (httpd_socket_tx_buf (stack s)) = 420" "length (sock_tx_buf s) = 512" "?n \<le> 368"
    using assms by (simp_all add: net_inv_def bridge_wf_def)
  define b where "b = take ?n (rq_buf req) @ drop ?n (sock_tx_buf s)"
  define hb where "hb = take ?n (rq_buf req) @ drop ?n (httpd_socket_tx_buf (stack s))"
  have "sock_queue_tx req s = Inr (s\<lparr>sock_tx_len := rq_length req, sock_tx_buf := b,
      stack := (stack s)\<lparr>httpd_socket_tx_buf := hb, httpd_socket_tx_len := rq_length req,
        httpd_socket_tx_pending := 1\<rparr>, sock_tx_pending := 1\<rparr>)"
    using assms(2-4) len by (simp add: sock_queue_tx_def Let_def memcpy_int_def mem_read_def mem_write_def
        clamp_net_length_def b_def hb_def min_def)
  moreover have "length b = 512" "length hb = 420" "take ?n hb = take ?n (rq_buf req)"
    using assms(2) len by (simp_all add: b_def hb_def min_def)
  ultimately show ?thesis
    using assms by (simp add: net_inv_def uip_wf_def bridge_wf_def bridge_ok_def net_config_def)
qed

definition hop_to :: "'a uip_scheme \<Rightarrow> ip4addr \<Rightarrow> ip4addr" where
  "hop_to s ip = (if uip_ipaddr_maskcmp ip (uip_hostaddr s) (uip_netmask s) then ip else uip_draddr s)"

lemma hop_to_config: "net_config t = net_config s \<Longrightarrow> hop_to t = hop_to s"
  by (simp add: hop_to_def net_config_def fun_eq_iff)

lemma arp_out_resolved:
  assumes wf: "uip_wf u" and arp: "arp_inv a" and dest: "buf_addr u o_destipaddr \<noteq> broadcast_ipaddr"
    and mac: "arp_lookup a (hop_to u (buf_addr u o_destipaddr)) = Some mac"
  shows "take 6 (uip_buf (uip_arp_out a u)) = mac" and "uip_len (uip_arp_out a u) = uip_len u + 14"
    and "drop 14 (uip_buf (uip_arp_out a u)) = drop 14 (uip_buf u)" and "length (uip_buf (uip_arp_out a u)) = 422"
    and "get16 (uip_buf (uip_arp_out a u)) 12 = HTONS UIP_ETHTYPE_IP"
proof -
  note L = uip_wf_lengths(1,4) [OF wf] arp_lookup_length [OF arp mac]
  have "next_hop u = hop_to u (buf_addr u o_destipaddr)" by (simp add: next_hop_def hop_to_def)
  moreover have "\<not> uip_ipaddr_cmp (buf_addr u o_destipaddr) broadcast_ipaddr"
    using dest by (simp add: uip_ipaddr_cmp_def prod_eq_iff)
  ultimately have out: "uip_arp_out a u = eth_header mac u"
    using mac by (simp add: uip_arp_out_lookup)
  note f = eth_header_fields [OF L]
  show "length (uip_buf (uip_arp_out a u)) = 422"
    using uip_wf_lengths(1) [of "uip_arp_out a u"] wf by simp
  then show "drop 14 (uip_buf (uip_arp_out a u)) = drop 14 (uip_buf u)"
    using f(5) L(1) unfolding out by (auto simp: buf8_def intro!: nth_equalityI)
  show "take 6 (uip_buf (uip_arp_out a u)) = mac" "uip_len (uip_arp_out a u) = uip_len u + 14"
    "get16 (uip_buf (uip_arp_out a u)) 12 = HTONS UIP_ETHTYPE_IP"
    using f(1,3,4) unfolding out by (simp_all add: buf_hw_def buf16_def)
qed

lemma kick_conn_slot: "uip_wf (stack s) \<Longrightarrow> kick_conn s = Some r \<Longrightarrow> r < 40"
  using first_index_Some [of _ "uip_conns (stack s)" r] uip_wf_lengths(2) [of "stack s"] by (simp add: kick_conn_def)

lemma conn_mss_bound: "uip_wf s \<Longrightarrow> r < 40 \<Longrightarrow> unat (mss (conn_at s r)) \<le> 366"
  using conn_wf_conn_at [of s r] by (simp add: conn_wf_def word_le_nat_alt)

lemma kick_sends:
  fixes t :: "'d net_state"
  defines "c r \<equiv> conn_at (stack t) r" and "n \<equiv> nat (httpd_socket_tx_len (stack t))"
  assumes inv: "net_inv I t" and ok: "bridge_ok (stack t)" and port: "0 \<le> sock_listen_port t" and r: "kick_conn t = Some r"
    and est: "tcpstateflags (c r) = UIP_ESTABLISHED" "conn_len (c r) = 0"
    and tx: "httpd_socket_tx_pending (stack t) \<noteq> 0" "httpd_socket_close_pending (stack t) = 0" "0 < httpd_socket_tx_len (stack t)"
    and mss: "httpd_socket_tx_len (stack t) \<le> int (unat (mss (c r)))"
    and dest: "ripaddr (c r) \<noteq> broadcast_ipaddr" and mac: "arp_lookup (arp_mod t) (hop_to (stack t) (ripaddr (c r))) = Some mac"
  shows "\<exists>(u :: httpd_uip) v. kick_active_connection E t =
      res_bind (earth_net_send E (int (n + 54)) (uip_buf v) (nic t)) (\<lambda>d. sync_socket_state (t\<lparr>stack := v, nic := d\<rparr>)) \<and>
    tcp_ok u \<and> segment_of u = conn_segment (stack t) r (TCP_ACK OR TCP_PSH) (take n (httpd_socket_tx_buf (stack t))) \<and>
    length (uip_buf v) = 422 \<and> take 6 (uip_buf v) = mac \<and> drop 14 (uip_buf v) = drop 14 (uip_buf u) \<and>
    unat (uip_len u) = n + 40 \<and> uip_wf v \<and> bridge_wf v"
proof -
  have wf: "uip_wf (stack t)" "arp_inv (arp_mod t)" using inv by (simp_all add: net_inv_def)
  have r40: "r < 40" by (rule kick_conn_slot [OF wf(1) r])
  obtain u where u: "uip_poll_conn httpd_appcall r (stack t) = Inr u" "uip_wf u" "tcp_ok u" "uip.more u = uip.more (stack t)"
    "net_config u = net_config (stack t)" "uip_len u = word_of_int (httpd_socket_tx_len (stack t)) + 40"
    "segment_of u = conn_segment (stack t) r (TCP_ACK OR TCP_PSH) (take n (httpd_socket_tx_buf (stack t)))"
    using queued_data_sent_spec [OF wf(1) ok r40 est [unfolded c_def] tx mss [unfolded c_def], folded n_def]
    by (elim exE conjE) (rule that)
  have n: "n \<le> 366"
    using mss conn_mss_bound [OF wf(1) r40] unfolding c_def n_def by linarith
  have "unat (word_of_int (httpd_socket_tx_len (stack t)) :: u16) = n"
    using n tx(3) by (simp add: n_def unat_eq_nat_uint uint_word_of_int)
  then have len: "unat (uip_len u) = n + 40" "unat (uip_len u + 14) = n + 54"
    using n by (simp_all add: u(6) unat_add_wrap)
  have addr: "buf_addr u o_destipaddr = ripaddr (c r)"
    using arg_cong [OF u(7), of sg_dest] by (simp add: segment_of_def conn_segment_def Let_def c_def)
  have "hop_to u = hop_to (stack t)"
    using u(5) by (simp add: hop_to_def net_config_def fun_eq_iff)
  then have mac': "arp_lookup (arp_mod t) (hop_to u (buf_addr u o_destipaddr)) = Some mac"
    using mac addr by simp
  let ?v = "uip_arp_out (arp_mod t) u"
  have "buf_addr u o_destipaddr \<noteq> broadcast_ipaddr" using addr dest by simp
  note v = arp_out_resolved [OF u(2) wf(2) this mac']
  have bw: "bridge_wf ?v"
    using bridge_more(1) [of ?v "stack t"] u(4) ok by (simp add: bridge_ok_def)
  have pos: "uip_len u > 0" using len(1) by (simp add: word_less_nat_alt)
  have "kick_active_connection E t =
      res_bind (earth_net_send E (int (n + 54)) (uip_buf ?v) (nic t)) (\<lambda>d. sync_socket_state (t\<lparr>stack := ?v, nic := d\<rparr>))"
    using port u(1) pos len(2) v(2)
    by (cases "earth_net_send E (int (n + 54)) (uip_buf ?v) (nic t)")
      (simp_all add: kick_active_connection_def r transmit_def)
  then show ?thesis
    using u v len(1) bw by (intro exI [of _ u] exI [of _ ?v]) simp
qed

lemma net_send_completes:
  assumes "tx_inv d" and "nic_tx_ok dev" and "tx_count d < 15" and "0 < len" "len \<le> 2048" "nat len \<le> length p"
    and "\<exists>k < 2 ^ 24. td_status (tx_ring ((dev_step dev ^^ Suc k) d) ! tx_index d) AND E1000_TXD_STAT_DD \<noteq> 0"
  shows "\<exists>d' k. net_send dev len p d = Inr d' \<and> tx_inv d' \<and> tx_pending d' = drop k (tx_pending d) @ [take (nat len) p]"
proof -
  obtain t where t: "tx_wait dev E1000_TX_WAIT_SPINS d = Inr t"
    using assms(7) tx_wait_returns_iff [of dev E1000_TX_WAIT_SPINS d] by auto
  have "e1000_wf t" using tx_wait_wf [OF t] assms(1) by (simp add: tx_inv_def)
  then obtain d' where "net_send dev len p d = Inr d'"
    using tx_post_returns [OF _ assms(5,6)] t assms(4,5) by (auto simp: net_send_def)
  with net_send_pending [OF assms(2,1,3)] show ?thesis by blast
qed

lemma net_send_short:
  assumes "tx_inv d" and "nic_tx_ok dev" and "tx_count d < 15" and "0 < m" "m \<le> 420" "length p = 422"
    and "\<exists>k < 2 ^ 24. td_status (tx_ring ((dev_step dev ^^ Suc k) d) ! tx_index d) AND E1000_TXD_STAT_DD \<noteq> 0"
  obtains d' k where "net_send dev (int m) p d = Inr d'" and "tx_inv d'" and "tx_pending d' = drop k (tx_pending d) @ [take m p]"
  using net_send_completes [OF assms(1-3) _ _ _ assms(7), of "int m" p] assms(4-6) by auto

text \<open>The frame that carries a data segment: the hardware address, then the segment, with the data at its end.\<close>

lemma data_frame:
  fixes u v :: "'a uip_scheme"
  assumes seg: "segment_of u = conn_segment x r fl (take n p)" and len: "unat (uip_len u) = n + 40"
    and v: "length (uip_buf v) = 422" "drop 14 (uip_buf v) = drop 14 (uip_buf u)" and n: "n \<le> 366"
  shows "drop 54 (take (n + 54) (uip_buf v)) = take n p"
    and "drop 14 (take (n + 54) (uip_buf v)) = take (n + 40) (drop 14 (uip_buf u))"
    and "length (take (n + 54) (uip_buf v)) = n + 54" and "take 6 (take (n + 54) (uip_buf v)) = take 6 (uip_buf v)"
proof -
  have data: "take n (drop 54 (uip_buf u)) = take n p"
    using arg_cong [OF seg, of sg_data] arg_cong [OF seg, of sg_offset] len by (simp add: segment_of_def conn_segment_def Let_def)
  have "drop 54 (uip_buf v) = drop 54 (uip_buf u)"
    using arg_cong [OF v(2), of "drop 40"] by simp
  then show "drop 54 (take (n + 54) (uip_buf v)) = take n p"
    "drop 14 (take (n + 54) (uip_buf v)) = take (n + 40) (drop 14 (uip_buf u))"
    "length (take (n + 54) (uip_buf v)) = n + 54" "take 6 (take (n + 54) (uip_buf v)) = take 6 (uip_buf v)"
    using data v n by (simp_all add: drop_take add.commute min_def)
qed

text \<open>Data queued for the idle connection, up to the transmit ring.\<close>

lemma kick_to_ring:
  fixes t :: "'h e1000 net_state" and r :: nat
  defines "c \<equiv> conn_at (stack t) r" and "n \<equiv> nat (httpd_socket_tx_len (stack t))"
  assumes t: "net_inv tx_inv t" "bridge_ok (stack t)" "0 \<le> sock_listen_port t" "kick_conn t = Some r"
    and est: "tcpstateflags c = UIP_ESTABLISHED" "conn_len c = 0"
    and tx: "httpd_socket_tx_pending (stack t) \<noteq> 0" "httpd_socket_close_pending (stack t) = 0" "0 < httpd_socket_tx_len (stack t)"
    and mss: "httpd_socket_tx_len (stack t) \<le> int (unat (mss c))"
    and arp: "ripaddr c \<noteq> broadcast_ipaddr" "arp_lookup (arp_mod t) (hop_to (stack t) (ripaddr c)) = Some mac"
    and dev: "nic_tx_ok dev" "tx_count (nic t) < 15"
      "\<exists>k < 2 ^ 24. td_status (tx_ring ((dev_step dev ^^ Suc k) (nic t)) ! tx_index (nic t)) AND E1000_TXD_STAT_DD \<noteq> 0"
  obtains s' k frame and u :: httpd_uip where "kick_active_connection (e1000_earth dev) t = Inr s'" "outbox s' = outbox t" "sock_tx_len s' = sock_tx_len t"
    "tx_pending (nic s') = drop k (tx_pending (nic t)) @ [frame]" "length frame = n + 54" "take 6 frame = mac"
    "drop 54 frame = take n (httpd_socket_tx_buf (stack t))" "drop 14 frame = take (n + 40) (drop 14 (uip_buf u))" "tcp_ok u"
    "segment_of u = conn_segment (stack t) r (TCP_ACK OR TCP_PSH) (take n (httpd_socket_tx_buf (stack t)))"
proof -
  have wf: "uip_wf (stack t)" "tx_inv (nic t)" using t(1) by (simp_all add: net_inv_def)
  have n: "n \<le> 366" using mss conn_mss_bound [OF wf(1) kick_conn_slot [OF wf(1) t(4)]] unfolding c_def n_def by linarith
  obtain u :: httpd_uip and v where k: "kick_active_connection (e1000_earth dev) t =
      res_bind (net_send dev (int (n + 54)) (uip_buf v) (nic t)) (\<lambda>d. sync_socket_state (t\<lparr>stack := v, nic := d\<rparr>))"
    and u: "tcp_ok u" "segment_of u = conn_segment (stack t) r (TCP_ACK OR TCP_PSH) (take n (httpd_socket_tx_buf (stack t)))"
      "length (uip_buf v) = 422" "take 6 (uip_buf v) = mac" "drop 14 (uip_buf v) = drop 14 (uip_buf u)"
      "unat (uip_len u) = n + 40" "uip_wf v" "bridge_wf v"
    using kick_sends [OF t est [unfolded c_def] tx mss [unfolded c_def] arp [unfolded c_def], of "e1000_earth dev", folded n_def] unfolding earth.select_convs
    by (elim exE conjE) (rule that)
  have "0 < n + 54" "n + 54 \<le> 420" using n by simp_all
  then obtain d' k where d': "net_send dev (int (n + 54)) (uip_buf v) (nic t) = Inr d'" "tx_inv d'"
    "tx_pending d' = drop k (tx_pending (nic t)) @ [take (n + 54) (uip_buf v)]"
    by (rule net_send_short [OF wf(2) dev(1,2) _ _ u(3) dev(3)])
  have "net_inv tx_inv (t\<lparr>stack := v, nic := d'\<rparr>)" using t(1) u(7,8) d'(2) by (simp add: net_inv_def)
  from sync_socket_state_ok [OF this] obtain s' where s': "sync_socket_state (t\<lparr>stack := v, nic := d'\<rparr>) = Inr s'"
    "outbox s' = outbox t" "nic s' = d'" "sock_tx_len s' = sock_tx_len t"
    by (auto simp: sock_frame_def)
  note frame = data_frame [OF u(2,6,3,5) n]
  show thesis
    using that [of s' k "take (n + 54) (uip_buf v)" u] k d'(1,3) s' u(1,2,4) frame by simp
qed

text \<open>A send request of at most one segment, up to the transmit ring.\<close>

lemma sock_send_transmits:
  assumes inv: "net_inv e1000_wf s" and quiet: "no_frame (e1000_earth dev) s d"
    and dev: "nic_tx_ok dev" "tx_inv d" "tx_count d < 15"
      "\<exists>k < 2 ^ 24. td_status (tx_ring ((dev_step dev ^^ Suc k) d) ! tx_index d) AND E1000_TXD_STAT_DD \<noteq> 0"
    and req: "length (rq_buf req) = NET_BUF_SIZE" "0 < rq_length req" "rq_length req \<le> int (unat (mss (conn_at (stack s) r)))"
    and sock: "socket_conn_valid (rq_conn_id req) s" "sock_tx_pending s = 0" "kick_conn s = Some r"
      "httpd_socket_close_pending (stack s) = 0"
    and est: "tcpstateflags (conn_at (stack s) r) = UIP_ESTABLISHED" "conn_len (conn_at (stack s) r) = 0"
    and arp: "ripaddr (conn_at (stack s) r) \<noteq> broadcast_ipaddr"
      "arp_lookup (arp_mod s) (hop_to (stack s) (ripaddr (conn_at (stack s) r))) = Some mac"
  shows "\<exists>s' (u :: httpd_uip) k frame. handle_sock_send (e1000_earth dev) sender req s = Inr s' \<and>
    outbox s' = outbox s @ [(sender, Reply \<lparr>rp_status = NET_OK, rp_conn_id = rq_conn_id req,
      rp_length = rq_length req, rp_buf = reply_area req\<rparr>)] \<and>
    tx_pending (nic s') = drop k (tx_pending d) @ [frame] \<and> length frame = nat (rq_length req) + 54 \<and>
    take 6 frame = mac \<and> drop 54 frame = take (nat (rq_length req)) (rq_buf req) \<and>
    drop 14 frame = take (nat (rq_length req) + 40) (drop 14 (uip_buf u)) \<and> tcp_ok u \<and>
    segment_of u = conn_segment (stack s) r (TCP_ACK OR TCP_PSH) (take (nat (rq_length req)) (rq_buf req))"
proof -
  let ?n = "nat (rq_length req)" and ?p = "s\<lparr>stack := (stack s)\<lparr>uip_len := 0\<rparr>, nic := d\<rparr>"
  have wf: "uip_wf (stack s)" using inv by (simp add: net_inv_def)
  have n: "rq_length req \<le> 366" using req(3) conn_mss_bound [OF wf kick_conn_slot [OF wf sock(3)]] by linarith
  have pinv: "net_inv tx_inv ?p"
    using inv dev(2) by (simp add: net_inv_def uip_wf_def bridge_wf_def)
  obtain t where t: "sock_queue_tx req ?p = Inr t" "net_inv tx_inv t" "bridge_ok (stack t)" "nic t = d" "arp_mod t = arp_mod s"
    "outbox t = outbox s" "sock_listen_port t = sock_listen_port s" "sock_tx_len t = rq_length req" "sock_tx_pending t = 1"
    "uip_conns (stack t) = uip_conns (stack s)" "net_config (stack t) = net_config (stack s)"
    "httpd_socket_tx_pending (stack t) = 1" "httpd_socket_tx_len (stack t) = rq_length req"
    "httpd_socket_close_pending (stack t) = 0"
    "take ?n (httpd_socket_tx_buf (stack t)) = take ?n (rq_buf req)"
    using sock_queue_tx_spec [OF pinv req(1,2)] n sock(4) by auto
  have c: "conn_at (stack t) k = conn_at (stack s) k" for k using t(10) by (simp add: conn_at_def)
  have cfg: "hop_to (stack t) = hop_to (stack s)" "uip_hostaddr (stack t) = uip_hostaddr (stack s)"
    using t(11) by (simp_all add: hop_to_def net_config_def fun_eq_iff)
  have kc: "0 \<le> sock_listen_port t" "kick_conn t = Some r"
    using sock(1,3) t(7,10) by (simp_all add: kick_conn_def socket_conn_valid_def)
  obtain s' k frame and u :: httpd_uip where s': "kick_active_connection (e1000_earth dev) t = Inr s'" "outbox s' = outbox s" "sock_tx_len s' = rq_length req"
      "tx_pending (nic s') = drop k (tx_pending d) @ [frame]" "length frame = ?n + 54" "take 6 frame = mac" "drop 54 frame = take ?n (rq_buf req)"
      "drop 14 frame = take (?n + 40) (drop 14 (uip_buf u))" "tcp_ok u"
      "segment_of u = conn_segment (stack t) r (TCP_ACK OR TCP_PSH) (take ?n (rq_buf req))"
    by (rule kick_to_ring [OF t(2,3) kc, of mac dev, unfolded c cfg(1) t(4-6,8,12-15)]) (use est req(2,3) arp dev(1,3,4) in simp_all)
  then have "segment_of u = conn_segment (stack s) r (TCP_ACK OR TCP_PSH) (take ?n (rq_buf req))"
    using c cfg(2) by (simp add: conn_segment_def)
  moreover have "handle_sock_send (e1000_earth dev) sender req s =
      Inr (send_net_reply sender (reply_area req) NET_OK (rq_conn_id req) (rq_length req) s')"
    using sock(1,2) t(1,9) s'(1,3)
    by (simp add: handle_sock_send_def net_poll_no_frame [OF quiet] net_kick_tx_def socket_conn_valid_def)
  ultimately show ?thesis
    using s'(2,4-9)
    by (intro exI [of _ "send_net_reply sender (reply_area req) NET_OK (rq_conn_id req) (rq_length req) s'"] exI [of _ u]
        exI [of _ k] exI [of _ frame]) (simp add: send_net_reply_def)
qed

definition arp_peer :: arp where
  "arp_peer = uip_arp_update (uip_ipaddr 10 0 2 2) [0x52, 0x55, 10, 0, 2, 2] arp_bss"

lemma arp_peer_inv: "arp_inv arp_peer"
  using arp_inv_update [OF arp_inv_bss, of "[0x52, 0x55, 10, 0, 2, 2]" "uip_ipaddr 10 0 2 2"] by (simp add: arp_peer_def)

lemma idle_dev_ok: "nic_tx_ok idle_dev"
  by (simp add: nic_tx_ok_def tx_inv_def dev_step_idle)

section \<open>From the wire to a reply\<close>

lemma arp_out_len:
  assumes "uip_wf u" and "arp_inv a"
  shows "uip_len (uip_arp_out a u) \<in> {uip_len u + 14, 42}" and "length (uip_buf (uip_arp_out a u)) = 422"
proof -
  show "length (uip_buf (uip_arp_out a u)) = 422"
    using uip_wf_lengths(1) [of "uip_arp_out a u"] assms(1) by simp
  show "uip_len (uip_arp_out a u) \<in> {uip_len u + 14, 42}"
    by (simp add: uip_arp_out_lookup eth_header_def arp_request_def Let_def split: option.split)
qed

text \<open>A received frame with in-order data, up to the copy into the service's buffer.\<close>

lemma net_poll_delivers:
  fixes s :: "'d net_state"
  defines "u0 b m \<equiv> (stack s)\<lparr>uip_buf := b, uip_len := word_of_int m\<rparr>"
  assumes inv: "net_inv I s" and recv: "earth_net_recv E (uip_buf (stack s)) (nic s) = Inr (m, b, d)" and b: "length b = 422" and d: "I d"
    and send: "\<And>len p. 0 < len \<Longrightarrow> len \<le> 54 \<Longrightarrow> length p = 422 \<Longrightarrow> \<exists>d'. earth_net_send E (int len) p d = Inr d' \<and> I d' \<and> Q len p d'"
    and m: "(word_of_int m :: u16) \<noteq> 0" and type: "get16 b e_type = HTONS UIP_ETHTYPE_IP"
    and u: "uip_input httpd_appcall (u0 b m) = Inr u" "uip_len u = 40" "httpd_socket_rx_len u = int n" "0 < n" "n \<le> 368"
  shows "\<exists>t. net_poll E s = Inr t \<and> outbox t = outbox s \<and> sock_listen_port t = sock_listen_port s \<and> sock_conn_id t = sock_conn_id s \<and>
    sock_rx_len t = int n \<and> take n (sock_rx_buf t) = take n (httpd_socket_rx_buf u) \<and> length (sock_rx_buf t) = NET_BUF_SIZE \<and>
    Q (unat (uip_len (uip_arp_out (arp_mod s) u))) (uip_buf (uip_arp_out (arp_mod s) u)) (nic t)"
proof -
  let ?p = "s\<lparr>stack := u0 b m, nic := d\<rparr>" and ?v = "uip_arp_out (arp_mod s) u"
  have wf0: "uip_wf (u0 b m)" "bridge_wf (u0 b m)" "arp_inv (arp_mod s)"
    using inv b by (simp_all add: net_inv_def u0_def uip_wf_def bridge_wf_def)
  have uw: "uip_wf u" "bridge_wf u"
    using res_ok_InrD [OF stack_ok(1) [OF wf0(1,2)] u(1)] by simp_all
  have lv: "0 < unat (uip_len ?v)" "unat (uip_len ?v) \<le> 54"
    using arp_out_len(1) [OF uw(1) wf0(3)] u(2) by auto
  obtain d' where d': "earth_net_send E (int (unat (uip_len ?v))) (uip_buf ?v) d = Inr d'" "I d'"
    "Q (unat (uip_len ?v)) (uip_buf ?v) d'"
    using send [OF lv arp_out_len(2) [OF uw(1) wf0(3)]] by blast
  have bv: "bridge_wf ?v" "httpd_socket_rx_len ?v = int n" "httpd_socket_rx_buf ?v = httpd_socket_rx_buf u"
    using bridge_more(1) [of ?v u] more_fields [of ?v u] uw(2) u(3) by simp_all
  have frame: "net_frame E ?p = Inr (?p\<lparr>stack := ?v, nic := d'\<rparr>)"
    using type u(1,2) d'(1) by (simp add: net_frame_def u0_def buf16_def transmit_def)
  let ?t = "?p\<lparr>stack := ?v, nic := d'\<rparr>"
  have len: "length (httpd_socket_rx_buf u) = 420" "length (sock_rx_buf s) = 512"
    using uw(2) inv by (simp_all add: bridge_wf_def net_inv_def)
  define r where "r = take n (httpd_socket_rx_buf u) @ drop n (sock_rx_buf s)"
  have "sync_socket_state ?t = Inr (?t\<lparr>sock_conn_open := httpd_socket_conn_open ?v, sock_conn_pending := httpd_socket_conn_pending ?v,
      sock_conn_closed := httpd_socket_conn_closed ?v, sock_tx_pending := httpd_socket_tx_pending ?v,
      sock_rx_len := int n, sock_rx_buf := r, stack := ?v\<lparr>httpd_socket_rx_len := 0\<rparr>\<rparr>)"
    using u(4,5) len bv by (simp add: sync_socket_state_def Let_def memcpy_int_def mem_read_def mem_write_def r_def)
  moreover have "net_poll E s = sync_socket_state ?t"
    using recv m frame by (simp add: net_poll_def Let_def u0_def)
  ultimately show ?thesis
    using d'(3) len u(5) by (simp add: r_def min_def)
qed

lemma sock_recv_reply:
  assumes "net_poll E s = Inr t" and "0 \<le> sock_listen_port t" and "rq_conn_id req = sock_conn_id t"
    and "sock_rx_len t = int n" and "0 < n" and "n \<le> 512" and "length (sock_rx_buf t) = NET_BUF_SIZE"
    and "length (rq_buf req) = NET_BUF_SIZE" and "int n \<le> rq_length req"
  shows "handle_sock_recv E sender req s = Inr (send_net_reply sender
      (take n (sock_rx_buf t) @ drop n (reply_area req)) NET_OK (rq_conn_id req) (int n) (t\<lparr>sock_rx_len := 0\<rparr>))"
proof -
  have "length (reply_area req) = 512"
    using assms(8) by (simp add: reply_area_def le32_def)
  then show ?thesis
    using assms by (simp add: handle_sock_recv_def Let_def memcpy_int_def mem_read_def mem_write_def)
qed

text \<open>A segment without data to a resolved address, as a frame.\<close>

lemma resolved_frame:
  assumes "uip_wf u" and "uip_len u = 40" and "net_config u = net_config s" and "arp_inv a" and dest: "sg_dest (segment_of u) = ip"
    and arp: "ip \<noteq> broadcast_ipaddr" "arp_lookup a (hop_to s ip) = Some mac"
  defines "frame \<equiv> take 54 (uip_buf (uip_arp_out a u))"
  shows "unat (uip_len (uip_arp_out a u)) = 54" and "length frame = 54" and "take 6 frame = mac"
    and "get16 frame e_type = HTONS UIP_ETHTYPE_IP" and "drop 14 frame = take 40 (drop 14 (uip_buf u))"
proof -
  have "buf_addr u o_destipaddr = ip" using dest by (simp add: segment_of_def)
  moreover have "hop_to u = hop_to s" using assms(3) by (rule hop_to_config)
  ultimately have "buf_addr u o_destipaddr \<noteq> broadcast_ipaddr" "arp_lookup a (hop_to u (buf_addr u o_destipaddr)) = Some mac"
    using arp by simp_all
  note v = arp_out_resolved [OF assms(1,4) this]
  show "unat (uip_len (uip_arp_out a u)) = 54" using assms(2) v(2) by simp
  show "length frame = 54" "take 6 frame = mac" "get16 frame e_type = HTONS UIP_ETHTYPE_IP" "drop 14 frame = take 40 (drop 14 (uip_buf u))"
    using v(1,3-5) by (simp_all add: frame_def min_def get16_def drop_take)
qed

text \<open>A receive request when a data segment waits, up to the reply.\<close>

lemma sock_recv_delivers:
  fixes s :: "'h e1000 net_state"
  defines "u0 b m \<equiv> (stack s)\<lparr>uip_buf := b, uip_len := word_of_int m\<rparr>"
  assumes inv: "net_inv e1000_wf s" and recv: "net_recv dev (uip_buf (stack s)) (nic s) = Inr (m, b, d)"
    and dev: "nic_tx_ok dev" "tx_inv d" "tx_count d < 15"
      "\<exists>k < 2 ^ 24. td_status (tx_ring ((dev_step dev ^^ Suc k) d) ! tx_index d) AND E1000_TXD_STAT_DD \<noteq> 0"
    and type: "get16 b e_type = HTONS UIP_ETHTYPE_IP"
    and seg: "valid_tcp (u0 b m)" "first_index (conn_matches (u0 b m)) (uip_conns (stack s)) = Some r"
      "buf8 (u0 b m) o_flags AND (TCP_FIN OR TCP_SYN OR TCP_RST OR TCP_URG) = 0" "buf8 (u0 b m) o_tcpoffset = 0x50"
      "buf_quad (u0 b m) o_seqno = rcv_nxt (conn_at (stack s) r)"
      "ip_total_len (u0 b m) > 40" "ip_total_len (u0 b m) \<le> 408"
    and est: "tcpstateflags (conn_at (stack s) r) = UIP_ESTABLISHED"
    and idle: "httpd_socket_tx_pending (stack s) = 0" "httpd_socket_close_pending (stack s) = 0"
    and arp: "ripaddr (conn_at (stack s) r) \<noteq> broadcast_ipaddr"
      "arp_lookup (arp_mod s) (hop_to (stack s) (ripaddr (conn_at (stack s) r))) = Some mac"
    and sock: "0 \<le> sock_listen_port s" "rq_conn_id req = sock_conn_id s"
    and req: "length (rq_buf req) = NET_BUF_SIZE" "int (unat (ip_total_len (u0 b m)) - 40) \<le> rq_length req"
  shows "\<exists>s' (u :: httpd_uip) k frame rest. handle_sock_recv (e1000_earth dev) sender req s = Inr s' \<and>
    outbox s' = outbox s @ [(sender, Reply \<lparr>rp_status = NET_OK, rp_conn_id = rq_conn_id req,
      rp_length = int (unat (ip_total_len (u0 b m)) - 40),
      rp_buf = take (unat (ip_total_len (u0 b m)) - 40) (drop 54 b) @ rest\<rparr>)] \<and>
    tx_pending (nic s') = drop k (tx_pending d) @ [frame] \<and> length frame = 54 \<and> take 6 frame = mac \<and>
    get16 frame e_type = HTONS UIP_ETHTYPE_IP \<and> drop 14 frame = take 40 (drop 14 (uip_buf u)) \<and> tcp_ok u \<and>
    segment_of u = (conn_segment (stack s) r TCP_ACK [])\<lparr>sg_seq := seq_after (u0 b m) (conn_at (stack s) r),
      sg_ack := uip_add32 (rcv_nxt (conn_at (stack s) r)) (ip_total_len (u0 b m) - 40)\<rparr>"
proof -
  let ?u0 = "u0 b m" and ?n = "unat (ip_total_len (u0 b m)) - 40"
  have wfd: "e1000_wf (nic s)" using inv by (simp add: net_inv_def)
  have b: "length b = 422"
    using net_recv_wf(3) [OF wfd recv] inv uip_wf_lengths(1) [of "stack s"] by (simp add: net_inv_def)
  have wf0: "uip_wf ?u0" "bridge_wf ?u0"
    using inv b by (simp_all add: net_inv_def u0_def uip_wf_def bridge_wf_def)
  have c0: "uip_conns ?u0 = uip_conns (stack s)" "conn_at ?u0 k = conn_at (stack s) k" "uip_buf ?u0 = b"
    "uip_hostaddr ?u0 = uip_hostaddr (stack s)" "uip_len ?u0 = word_of_int m" for k
    by (simp_all add: u0_def conn_at_def)
  have i0: "httpd_socket_tx_pending ?u0 = 0" "httpd_socket_close_pending ?u0 = 0"
    using idle by (simp_all add: u0_def)
  obtain u where u: "uip_input httpd_appcall ?u0 = Inr u" "uip_wf u" "net_config u = net_config ?u0" "uip_len u = 40" "tcp_ok u"
    "httpd_socket_rx_len u = int ?n" "take ?n (httpd_socket_rx_buf u) = take ?n (drop 54 b)"
    "segment_of u = (conn_segment ?u0 r TCP_ACK [])\<lparr>sg_seq := seq_after ?u0 (conn_at (stack s) r),
      sg_ack := uip_add32 (rcv_nxt (conn_at (stack s) r)) (ip_total_len ?u0 - 40)\<rparr>"
    using in_order_data_answer [OF wf0 seg(1) _ _ seg(3,4) _ seg(6,7) i0, of r] seg(2,5) est unfolding c0 by blast
  have sgt: "segment_of u = (conn_segment (stack s) r TCP_ACK [])\<lparr>sg_seq := seq_after ?u0 (conn_at (stack s) r),
      sg_ack := uip_add32 (rcv_nxt (conn_at (stack s) r)) (ip_total_len ?u0 - 40)\<rparr>"
    unfolding u(8) by (simp add: conn_segment_def c0)
  define frame where "frame = take 54 (uip_buf (uip_arp_out (arp_mod s) u))"
  have dest: "sg_dest (segment_of u) = ripaddr (conn_at (stack s) r)" by (simp add: sgt conn_segment_def Let_def)
  have "net_config u = net_config (stack s)" "arp_inv (arp_mod s)" using u(3) inv by (simp_all add: u0_def net_inv_def)
  note fr = resolved_frame [OF u(2,4) this dest arp, folded frame_def]
  have n: "0 < ?n" "?n \<le> 368"
    using seg(6,7) by (simp_all add: word_less_nat_alt word_le_nat_alt)
  have m: "(word_of_int m :: u16) \<noteq> 0"
    using seg(1,6) c0(5) by (auto simp: valid_tcp_def)
  define Q where "Q len p d' \<longleftrightarrow> (\<exists>k. tx_pending d' = drop k (tx_pending d) @ [take len p])" for len p and d' :: "'h e1000"
  have send: "\<exists>d'. net_send dev (int len) p d = Inr d' \<and> e1000_wf d' \<and> Q len p d'" if "0 < len" "len \<le> 54" "length p = 422" for len p
    using net_send_completes [OF dev(2,1,3) _ _ _ dev(4), of "int len" p] that by (auto simp: Q_def tx_inv_def)
  obtain t where t: "net_poll (e1000_earth dev) s = Inr t" "outbox t = outbox s" "sock_listen_port t = sock_listen_port s"
    "sock_conn_id t = sock_conn_id s" "sock_rx_len t = int ?n" "take ?n (sock_rx_buf t) = take ?n (httpd_socket_rx_buf u)"
    "length (sock_rx_buf t) = 512"
    "Q (unat (uip_len (uip_arp_out (arp_mod s) u))) (uip_buf (uip_arp_out (arp_mod s) u)) (nic t)"
    using net_poll_delivers [OF inv, of "e1000_earth dev" m b d Q u ?n] recv b net_recv_wf(1) [OF wfd recv] send m type u(1,4,6) n
    unfolding u0_def by auto
  have "handle_sock_recv (e1000_earth dev) sender req s = Inr (send_net_reply sender
      (take ?n (drop 54 b) @ drop ?n (reply_area req)) NET_OK (rq_conn_id req) (int ?n) (t\<lparr>sock_rx_len := 0\<rparr>))"
    using sock_recv_reply [OF t(1) _ _ t(5) n(1) _ t(7) req, of sender] sock t(3,4,6) n(2) u(7) by simp
  moreover obtain k where "tx_pending (nic t) = drop k (tx_pending d) @ [frame]"
    using t(8) by (auto simp: Q_def fr(1) frame_def)
  ultimately show ?thesis
    using fr(2-5) u(5) sgt t(2) by (intro exI [of _ "send_net_reply sender (take ?n (drop 54 b) @ drop ?n (reply_area req)) NET_OK
        (rq_conn_id req) (int ?n) (t\<lparr>sock_rx_len := 0\<rparr>)"] exI [of _ u] exI [of _ k] exI [of _ frame] exI [of _ "drop ?n (reply_area req)"])
      (simp add: send_net_reply_def)
qed

definition e1000_received :: "bytes \<Rightarrow> unit e1000" where
  "e1000_received p = e1000_ready
     \<lparr>rx_ring := (rx_ring e1000_ready)[0 := (rx_ring e1000_ready ! 0)\<lparr>rd_status := 3, rd_length := of_nat (length p)\<rparr>],
      rx_bufs := (rx_bufs e1000_ready)[0 := p @ drop (length p) (rx_bufs e1000_ready ! 0)]\<rparr>"

lemma e1000_received_frame:
  assumes "length p \<le> 422" and "length buf = 422"
  shows "e1000_wf (e1000_received p)"
    and "\<exists>d. net_recv idle_dev buf (e1000_received p) = Inr (int (length p), p @ drop (length p) buf, d) \<and>
      tx_inv d \<and> tx_pending d = [] \<and> tx_count d < 15 \<and>
      (\<exists>k < 2 ^ 24. td_status (tx_ring ((dev_step idle_dev ^^ Suc k) d) ! tx_index d) AND E1000_TXD_STAT_DD \<noteq> 0)"
proof -
  have b: "length (rx_bufs e1000_ready ! 0) = 2048" "length (rx_ring e1000_ready) = 16" "length (rx_bufs e1000_ready) = 16"
    using e1000_ready_inv(3) by (simp_all add: e1000_wf_def list_all_length)
  show wf: "e1000_wf (e1000_received p)"
    using e1000_ready_inv(3) b assms(1)
    by (simp add: e1000_wf_def e1000_received_def list_all_length nth_list_update)
  define d where "d = (e1000_received p)\<lparr>rx_ring := (rx_ring (e1000_received p))[0 := (rx_ring (e1000_received p) ! 0)
      \<lparr>rd_length := 0, rd_csum := 0, rd_status := 0, rd_errors := 0, rd_special := 0\<rparr>],
      regs := (regs (e1000_received p))(E1000_RDT := 0), rx_index := 1\<rparr>"
  have n: "unat (of_nat (length p) :: u16) = length p"
    using assms(1) by (simp add: unat_of_nat)
  have i: "rx_index (e1000_received p) = 0" "rx_ring (e1000_received p) ! 0 = (rx_ring e1000_ready ! 0)\<lparr>rd_status := 3, rd_length := of_nat (length p)\<rparr>"
    "rx_bufs (e1000_received p) ! 0 = p @ drop (length p) (rx_bufs e1000_ready ! 0)"
    using b e1000_ready_inv(6) by (simp_all add: e1000_received_def)
  have recv: "net_recv idle_dev buf (e1000_received p) = Inr (int (length p), p @ drop (length p) buf, d)"
    using assms b n i by (simp add: net_recv_def dev_step_idle [OF wf] Let_def mem_read_def mem_write_def e1000_write_def d_def)
  have f: "tx_ring d = tx_ring e1000_ready" "tx_index d = tx_index e1000_ready" "tx_bufs d = tx_bufs e1000_ready"
    "regs d E1000_TDT = regs e1000_ready E1000_TDT" "regs d E1000_TDH = regs e1000_ready E1000_TDH"
    by (simp_all add: d_def e1000_received_def)
  have wd: "e1000_wf d"
    using wf by (simp add: d_def e1000_wf_def)
  have h: "tx_head d = tx_head e1000_ready" "tx_count d = tx_count e1000_ready"
    using f by (simp_all add: tx_head_def tx_count_def)
  have "tx_inv d" "tx_pending d = []" "tx_count d < 15"
    using e1000_ready_inv(1,2) wd f h by (simp_all add: tx_inv_def tx_pending_def)
  moreover have "td_status (tx_ring ((dev_step idle_dev ^^ Suc 0) d) ! tx_index d) AND E1000_TXD_STAT_DD \<noteq> 0"
    using e1000_ready_inv(4,5) f by (simp add: dev_step_idle [OF wd])
  then have "\<exists>k < 2 ^ 24. td_status (tx_ring ((dev_step idle_dev ^^ Suc k) d) ! tx_index d) AND E1000_TXD_STAT_DD \<noteq> 0"
    by (intro exI [of _ 0]) simp
  ultimately show "\<exists>d. net_recv idle_dev buf (e1000_received p) = Inr (int (length p), p @ drop (length p) buf, d) \<and>
      tx_inv d \<and> tx_pending d = [] \<and> tx_count d < 15 \<and>
      (\<exists>k < 2 ^ 24. td_status (tx_ring ((dev_step idle_dev ^^ Suc k) d) ! tx_index d) AND E1000_TXD_STAT_DD \<noteq> 0)"
    using recv by blast
qed

end
