(* ===== verification/Servers.thy ===== *)
theory Servers
  imports Sys_Net_Props
begin

text \<open>
  \<^verbatim>\<open>library/syscall/servers.c\<close>: the functions with which programs call the servers, and the programs
  \<^verbatim>\<open>apps/user/http.c\<close> and \<^verbatim>\<open>apps/user/net_raw_test.c\<close> that use them. Sending a request and waiting for its reply goes
  through the kernel and the server: it is an argument, from the request and the state of the world to the reply and the next state.
  \<open>net_serve\<close> is that argument for the model of the network service.
\<close>

section \<open>Files and directories\<close>

abbreviation (input) BLOCK_SIZE :: nat where "BLOCK_SIZE \<equiv> 512"

datatype file_request_type = FILE_UNUSED | FILE_READ | FILE_WRITE | FILE_GETSIZE | DIR_LOOKUP
datatype file_status = FILE_OK | FILE_ERROR

record file_request =
  fr_type :: file_request_type
  fr_ino :: u32
  fr_offset :: u32
  fr_len :: u32
  fr_block :: bytes

record file_reply =
  fp_status :: file_status
  fp_block :: bytes

type_synonym ('req, 'rep, 'w) server = "'req \<Rightarrow> 'w \<Rightarrow> ('rep \<times> 'w) res"

text \<open>
  The request is a local variable, of which only the fields that the function sets are determined; \<open>req\<close> is what it holds before.
\<close>

definition file_read ::
    "(file_request, file_reply, 'w) server \<Rightarrow> file_request \<Rightarrow> int \<Rightarrow> u32 \<Rightarrow> u32 \<Rightarrow> bytes \<Rightarrow> 'w \<Rightarrow> (int \<times> bytes \<times> 'w) res" where
  "file_read serve req file_ino offset len dst w =
     (if \<not> len \<le> of_nat BLOCK_SIZE then Inl Fatal
      else let req = req\<lparr>fr_type := FILE_READ, fr_ino := word_of_int file_ino, fr_offset := offset, fr_len := len\<rparr>
       in res_bind (serve req w) (\<lambda>(reply, w).
          res_bind (mem_read (fp_block reply) 0 (unat len)) (\<lambda>d.
          res_bind (mem_write dst 0 d) (\<lambda>dst.
            Inr (if fp_status reply = FILE_OK then 0 else -1, dst, w)))))"

definition file_write ::
    "(file_request, file_reply, 'w) server \<Rightarrow> file_request \<Rightarrow> int \<Rightarrow> u32 \<Rightarrow> u32 \<Rightarrow> bytes \<Rightarrow> 'w \<Rightarrow> (int \<times> 'w) res" where
  "file_write serve req file_ino offset len src w =
     (if \<not> len \<le> of_nat BLOCK_SIZE then Inl Fatal
      else let req = req\<lparr>fr_type := FILE_WRITE, fr_ino := word_of_int file_ino, fr_offset := offset, fr_len := len\<rparr>
       in res_bind (mem_read src 0 (unat len)) (\<lambda>d.
          res_bind (mem_write (fr_block req) 0 d) (\<lambda>b.
          res_bind (serve (req\<lparr>fr_block := b\<rparr>) w) (\<lambda>(reply, w).
            Inr (if fp_status reply = FILE_OK then 0 else -1, w)))))"

text \<open>\<^verbatim>\<open>*(uint*)reply->block.bytes\<close> on the little-endian target.\<close>

definition word_of_bytes :: "bytes \<Rightarrow> u32" where
  "word_of_bytes b = ucast (b ! 0) + push_bit 8 (ucast (b ! 1)) + push_bit 16 (ucast (b ! 2)) + push_bit 24 (ucast (b ! 3))"

definition file_getsize ::
    "(file_request, file_reply, 'w) server \<Rightarrow> file_request \<Rightarrow> int \<Rightarrow> 'w \<Rightarrow> (int \<times> u32 \<times> 'w) res" where
  "file_getsize serve req file_ino w =
     (let req = req\<lparr>fr_type := FILE_GETSIZE, fr_ino := word_of_int file_ino\<rparr>
      in res_bind (serve req w) (\<lambda>(reply, w).
         res_bind (mem_read (fp_block reply) 0 4) (\<lambda>d.
           Inr (if fp_status reply = FILE_OK then 0 else -1, word_of_bytes d, w))))"

text \<open>The string functions of the C library: reading past the end of an array is \<open>OutOfBounds\<close>.\<close>

definition char_at :: "bytes \<Rightarrow> nat \<Rightarrow> u8 res" where
  "char_at b i = (if i < length b then Inr (b ! i) else Inl OutOfBounds)"

definition strlen :: "bytes \<Rightarrow> nat res" where
  "strlen b = (if 0 \<in> set b then Inr (length (takeWhile (\<lambda>c. c \<noteq> 0) b)) else Inl OutOfBounds)"

text \<open>Whether \<^verbatim>\<open>strncmp()\<close> returns 0.\<close>

fun strn_equal :: "bytes \<Rightarrow> bytes \<Rightarrow> nat \<Rightarrow> bool res" where
  "strn_equal a b 0 = Inr True"
| "strn_equal (x # a) (y # b) (Suc n) =
     (if x \<noteq> y then Inr False else if x = 0 then Inr True else strn_equal a b n)"
| "strn_equal a b (Suc n) = Inl OutOfBounds"

definition isspace :: "u8 \<Rightarrow> bool" where
  "isspace c \<longleftrightarrow> c = 32 \<or> 9 \<le> c \<and> c \<le> 13"

definition isdigit :: "u8 \<Rightarrow> bool" where
  "isdigit c \<longleftrightarrow> 48 \<le> c \<and> c \<le> 57"

fun atoi_digits :: "int \<Rightarrow> bytes \<Rightarrow> int res" where
  "atoi_digits acc [] = Inl OutOfBounds"
| "atoi_digits acc (c # cs) = (if isdigit c then atoi_digits (10 * acc + int (unat c) - 48) cs else Inr acc)"

definition atoi :: "bytes \<Rightarrow> int res" where
  "atoi b =
     (case dropWhile isspace b of
        [] \<Rightarrow> Inl OutOfBounds
      | c # cs \<Rightarrow> if c = 45 then res_bind (atoi_digits 0 cs) (\<lambda>n. Inr (- n))
                  else if c = 43 then atoi_digits 0 cs
                  else atoi_digits 0 (c # cs))"

text \<open>The loop of \<^verbatim>\<open>dir_lookup()\<close> from index \<open>i\<close>; its bound is a difference of unsigned numbers.\<close>

function scan_dir :: "bytes \<Rightarrow> bytes \<Rightarrow> nat \<Rightarrow> nat \<Rightarrow> nat \<Rightarrow> int res" where
  "scan_dir name buf buflen namelen i =
     (if i < unat (of_nat buflen - of_nat namelen :: u32)
      then res_bind (strn_equal name (drop i buf) namelen) (\<lambda>eq.
           res_bind (if eq then char_at buf (i + namelen) else Inr 0) (\<lambda>c.
           res_bind (if eq \<and> c = 32 \<and> i \<noteq> 0 then char_at buf (i - 1) else Inr 32) (\<lambda>d.
             if eq \<and> c = 32 \<and> d = 32 then atoi (drop (i + namelen) buf)
             else scan_dir name buf buflen namelen (i + 1))))
      else Inr (-1))"
  by auto

lemma strn_equal_Nil: "strn_equal a [] n = Inr e \<Longrightarrow> n = 0 \<and> e"
  by (cases n; cases a) auto

termination scan_dir
proof (relation "measure (\<lambda>(name, buf, buflen, namelen, i). length buf - i)")
  fix name buf :: bytes and buflen namelen i :: nat and e :: bool and c d :: u8
  assume e: "strn_equal name (drop i buf) namelen = Inr e" and c: "(if e then char_at buf (i + namelen) else Inr 0) = Inr c"
  have "i < length buf"
  proof (rule ccontr)
    assume "\<not> i < length buf"
    then have "namelen = 0 \<and> e" using e strn_equal_Nil [of name namelen e] by simp
    then show False using c \<open>\<not> i < length buf\<close> by (simp add: char_at_def)
  qed
  then show "((name, buf, buflen, namelen, i + 1), name, buf, buflen, namelen, i)
      \<in> measure (\<lambda>(name, buf, buflen, namelen, i). length buf - i)" by simp
qed simp

declare scan_dir.simps [simp del]

text \<open>
  \<^verbatim>\<open>NINODES\<close> is defined outside the repository, and \<^verbatim>\<open>RWFSON\<close> is a switch of the build; \<open>buf\<close> is what the local array holds before.
\<close>

definition dir_lookup ::
    "(file_request, file_reply, 'w) server \<Rightarrow> int \<Rightarrow> bool \<Rightarrow> file_request \<Rightarrow> bytes \<Rightarrow> int \<Rightarrow> bytes \<Rightarrow> 'w \<Rightarrow> (int \<times> 'w) res" where
  "dir_lookup serve NINODES RWFSON req buf dir_ino name w =
     (if dir_ino < NINODES
      then res_bind (file_read serve req dir_ino 0 (of_nat BLOCK_SIZE) buf w) (\<lambda>(_, buf, w).
           res_bind (strlen name) (\<lambda>namelen.
           res_bind (strlen buf) (\<lambda>buflen.
           res_bind (scan_dir name buf buflen namelen 0) (\<lambda>ino. Inr (ino, w)))))
      else if RWFSON
      then let req = req\<lparr>fr_type := DIR_LOOKUP, fr_ino := word_of_int dir_ino\<rparr>
           in res_bind (strlen name) (\<lambda>n.
              res_bind (mem_write (fr_block req) 0 (take (n + 1) name)) (\<lambda>b.
              res_bind (serve (req\<lparr>fr_block := b\<rparr>) w) (\<lambda>(reply, w).
              res_bind (mem_read (fp_block reply) 0 4) (\<lambda>d. Inr (sint (word_of_bytes d), w)))))
      else Inl Fatal)"

section \<open>The network service\<close>

definition status_code :: "net_status \<Rightarrow> int" where
  "status_code st = (case st of NET_OK \<Rightarrow> 0 | NET_ERROR \<Rightarrow> 1 | NET_WOULD_BLOCK \<Rightarrow> 2 | NET_CLOSED \<Rightarrow> 3 | NET_INVALID \<Rightarrow> 4)"

text \<open>A request after \<^verbatim>\<open>memset\<close> and the assignment of its type.\<close>

definition new_request :: "net_request_type \<Rightarrow> net_request" where
  "new_request ty = \<lparr>rq_type = ty, rq_port = 0, rq_conn_id = 0, rq_length = 0, rq_buf = replicate NET_BUF_SIZE 0\<rparr>"

definition net_send :: "(net_request, net_reply, 'w) server \<Rightarrow> int \<Rightarrow> bytes \<Rightarrow> 'w \<Rightarrow> (int \<times> 'w) res" where
  "net_send serve len packet w =
     (let req = (new_request NET_SEND)\<lparr>rq_length := len\<rparr>
      in if \<not> len \<le> int NET_BUF_SIZE then Inl Fatal
         else res_bind (memcpy_int (rq_buf req) packet len) (\<lambda>b.
              res_bind (serve (req\<lparr>rq_buf := b\<rparr>) w) (\<lambda>(reply, w).
                Inr (if rp_status reply = NET_OK then 0 else -1, w))))"

definition net_recv :: "(net_request, net_reply, 'w) server \<Rightarrow> bytes \<Rightarrow> 'w \<Rightarrow> (int \<times> bytes \<times> 'w) res" where
  "net_recv serve packet w =
     res_bind (serve (new_request NET_RECV) w) (\<lambda>(reply, w).
       if rp_status reply \<noteq> NET_OK then Inr (-1, packet, w)
       else res_bind (if rp_length reply > 0 then memcpy_int packet (rp_buf reply) (rp_length reply) else Inr packet)
              (\<lambda>packet. Inr (rp_length reply, packet, w)))"

definition sock_listen :: "(net_request, net_reply, 'w) server \<Rightarrow> int \<Rightarrow> 'w \<Rightarrow> (int \<times> 'w) res" where
  "sock_listen serve port w =
     res_bind (serve ((new_request NET_SOCK_LISTEN)\<lparr>rq_port := port\<rparr>) w) (\<lambda>(reply, w).
       Inr (if rp_status reply = NET_OK then 0 else - status_code (rp_status reply), w))"

definition sock_accept :: "(net_request, net_reply, 'w) server \<Rightarrow> 'w \<Rightarrow> (int \<times> 'w) res" where
  "sock_accept serve w =
     res_bind (serve (new_request NET_SOCK_ACCEPT) w) (\<lambda>(reply, w).
       Inr (if rp_status reply = NET_OK then rp_conn_id reply else - status_code (rp_status reply), w))"

definition sock_recv :: "(net_request, net_reply, 'w) server \<Rightarrow> int \<Rightarrow> bytes \<Rightarrow> int \<Rightarrow> 'w \<Rightarrow> (int \<times> bytes \<times> 'w) res" where
  "sock_recv serve conn_id packet len w =
     (let req = (new_request NET_SOCK_RECV)\<lparr>rq_conn_id := conn_id, rq_length := len\<rparr>
      in if \<not> len \<le> int NET_BUF_SIZE then Inl Fatal
         else res_bind (serve req w) (\<lambda>(reply, w).
           if rp_status reply = NET_OK
           then if \<not> rp_length reply \<le> len then Inl Fatal
                else res_bind (if rp_length reply > 0 then memcpy_int packet (rp_buf reply) (rp_length reply) else Inr packet)
                       (\<lambda>packet. Inr (rp_length reply, packet, w))
           else if rp_status reply = NET_CLOSED then Inr (0, packet, w)
           else Inr (- status_code (rp_status reply), packet, w)))"

definition sock_send :: "(net_request, net_reply, 'w) server \<Rightarrow> int \<Rightarrow> bytes \<Rightarrow> int \<Rightarrow> 'w \<Rightarrow> (int \<times> 'w) res" where
  "sock_send serve conn_id packet len w =
     (let req = (new_request NET_SOCK_SEND)\<lparr>rq_conn_id := conn_id, rq_length := len\<rparr>
      in if \<not> len \<le> int NET_BUF_SIZE then Inl Fatal
         else res_bind (memcpy_int (rq_buf req) packet len) (\<lambda>b.
              res_bind (serve (req\<lparr>rq_buf := b\<rparr>) w) (\<lambda>(reply, w).
                Inr (if rp_status reply = NET_OK then len else - status_code (rp_status reply), w))))"

definition sock_close :: "(net_request, net_reply, 'w) server \<Rightarrow> int \<Rightarrow> 'w \<Rightarrow> (int \<times> 'w) res" where
  "sock_close serve conn_id w =
     res_bind (serve ((new_request NET_SOCK_CLOSE)\<lparr>rq_conn_id := conn_id\<rparr>) w) (\<lambda>(reply, w).
       Inr (if rp_status reply = NET_OK then 0 else - status_code (rp_status reply), w))"

section \<open>Terminal and process server\<close>

abbreviation (input) TERM_BUF_SIZE :: nat where "TERM_BUF_SIZE \<equiv> 1024"

datatype term_request_type = TERM_INPUT | TERM_OUTPUT

record term_request =
  tr_type :: term_request_type
  tr_len :: u32
  tr_buf :: bytes

record term_reply =
  tp_len :: u32
  tp_buf :: bytes

definition term_read_user ::
    "(term_request, term_reply, 'w) server \<Rightarrow> term_request \<Rightarrow> bytes \<Rightarrow> u32 \<Rightarrow> 'w \<Rightarrow> (u32 \<times> bytes \<times> 'w) res" where
  "term_read_user serve req buf len w =
     res_bind (serve (req\<lparr>tr_type := TERM_INPUT, tr_len := len\<rparr>) w) (\<lambda>(reply, w).
     res_bind (mem_read (tp_buf reply) 0 (unat (tp_len reply))) (\<lambda>d.
     res_bind (mem_write buf 0 d) (\<lambda>buf. Inr (tp_len reply, buf, w))))"

definition term_write_user ::
    "(term_request \<Rightarrow> 'w \<Rightarrow> 'w res) \<Rightarrow> term_request \<Rightarrow> bytes \<Rightarrow> u32 \<Rightarrow> 'w \<Rightarrow> 'w res" where
  "term_write_user send req str len w =
     res_bind (mem_read str 0 (unat len)) (\<lambda>d.
     res_bind (mem_write (tr_buf req) 0 d) (\<lambda>b. send \<lparr>tr_type = TERM_OUTPUT, tr_len = len, tr_buf = b\<rparr> w))"

text \<open>The kernel's versions, on the characters that the terminal still delivers and those it was given; it waits for ever for more.\<close>

record tty =
  tty_in :: bytes
  tty_out :: bytes

definition term_write_kernel :: "bytes \<Rightarrow> nat \<Rightarrow> tty \<Rightarrow> tty res" where
  "term_write_kernel str len t = res_bind (mem_read str 0 len) (\<lambda>d. Inr (t\<lparr>tty_out := tty_out t @ d\<rparr>))"

text \<open>The loop of \<^verbatim>\<open>term_read()\<close>, from index \<open>i\<close>, over the characters that arrive.\<close>

fun term_read_loop :: "u32 \<Rightarrow> nat \<Rightarrow> bytes \<Rightarrow> bytes \<Rightarrow> bytes \<Rightarrow> (u32 \<times> bytes \<times> tty) res" where
  "term_read_loop len i buf out inp =
     (if \<not> i < unat (len - 1)
      then res_bind (mem_write buf (unat (len - 1)) [0]) (\<lambda>buf. Inr (len, buf, \<lparr>tty_in = inp, tty_out = out\<rparr>))
      else case inp of
        [] \<Rightarrow> Inl Hang
      | c # inp \<Rightarrow>
          res_bind (mem_write buf i [c]) (\<lambda>buf.
            if c = 0x0d
            then Inr (if i \<noteq> 0 then of_nat i + 1 else 0, buf[i := 0], \<lparr>tty_in = inp, tty_out = out @ [0x0a, 0x0d]\<rparr>)
            else if c = 0x7f
            then term_read_loop len (i - 1) buf (if i \<noteq> 0 then out @ [0x08, 0x20, 0x08] else out) inp
            else term_read_loop len (i + 1) buf (if c \<noteq> 0 then out @ [c] else out) inp))"

definition term_read_kernel :: "bytes \<Rightarrow> u32 \<Rightarrow> tty \<Rightarrow> (u32 \<times> bytes \<times> tty) res" where
  "term_read_kernel buf len t = term_read_loop len 0 buf (tty_out t) (tty_in t)"

section \<open>Programs\<close>

definition hello_response :: bytes where
  "hello_response = map (\<lambda>c. of_nat (of_char c))
     (''HTTP/1.0 200 OK'' @ [CHR 0x0D, CHR 0x0A] @ ''Content-Type: text/plain'' @ [CHR 0x0D, CHR 0x0A] @
      ''Connection: close'' @ [CHR 0x0D, CHR 0x0A, CHR 0x0D, CHR 0x0A] @
      ''EGOS socket abstraction demonstration'' @ [CHR 0x0A, CHR 0x00])"

text \<open>One turn of the loop of \<^verbatim>\<open>http.c\<close>, and a number of them.\<close>

definition http_turn :: "(net_request, net_reply, 'w) server \<Rightarrow> bytes \<times> 'w \<Rightarrow> (bytes \<times> 'w) res" where
  "http_turn serve = (\<lambda>(req_buf, w).
     res_bind (sock_accept serve w) (\<lambda>(conn, w).
       if conn < 0 then Inr (req_buf, w)
       else res_bind (sock_recv serve conn req_buf (int NET_BUF_SIZE) w) (\<lambda>(req_len, req_buf, w).
            res_bind (if req_len > 0
                      then res_bind (strlen hello_response) (\<lambda>n. res_bind (sock_send serve conn hello_response (int n) w)
                             (\<lambda>(_, w). Inr w))
                      else Inr w) (\<lambda>w.
            res_bind (sock_close serve conn w) (\<lambda>(_, w). Inr (req_buf, w))))))"

fun http_turns :: "nat \<Rightarrow> (net_request, net_reply, 'w) server \<Rightarrow> bytes \<times> 'w \<Rightarrow> (bytes \<times> 'w) res" where
  "http_turns 0 serve s = Inr s"
| "http_turns (Suc n) serve s = res_bind (http_turn serve s) (http_turns n serve)"

text \<open>\<^verbatim>\<open>main()\<close> up to a number of turns: it returns only when it cannot listen.\<close>

definition http_main :: "nat \<Rightarrow> (net_request, net_reply, 'w) server \<Rightarrow> bytes \<times> 'w \<Rightarrow> (int option \<times> bytes \<times> 'w) res" where
  "http_main n serve = (\<lambda>(req_buf, w).
     res_bind (sock_listen serve 80 w) (\<lambda>(r, w).
       if r < 0 then Inr (Some (-1), req_buf, w)
       else res_bind (http_turns n serve (req_buf, w)) (\<lambda>s. Inr (None, s))))"

definition dummy_frame :: bytes where
  "dummy_frame = [0xff, 0xff, 0xff, 0xff, 0xff, 0xff, 0x02, 0x00, 0x00, 0x00, 0x00, 0x01, 0x88, 0xB5] @
     map (\<lambda>c. of_nat (of_char c)) ''HELLO-FROM-NET-RAW-TY-PACKET-TEST-YAY! R/W@$'' @ [0, 0]"

definition net_raw_test :: "(net_request, net_reply, 'w) server \<Rightarrow> int \<Rightarrow> 'w \<Rightarrow> (int \<times> 'w) res" where
  "net_raw_test serve argc w =
     (if argc \<noteq> 1 then Inr (-1, w) else res_bind (net_send serve 60 dummy_frame w) (\<lambda>(_, w). Inr (0, w)))"

section \<open>Calls of the service\<close>

text \<open>The model of the service as the server of these calls: the program that calls is process \<open>pid\<close>.\<close>

definition net_serve :: "'d earth \<Rightarrow> int \<Rightarrow> (net_request, net_reply, 'd net_state) server" where
  "net_serve E pid req s =
     res_bind (sys_net_step E (pid, req) s) (\<lambda>s'.
       case last (outbox s') of (_, Reply r) \<Rightarrow> Inr (r, s') | _ \<Rightarrow> Inl Hang)"

text \<open>What \<^verbatim>\<open>sock_recv()\<close> relies on: the reply carries no more than was asked for, and its data area holds it.\<close>

locale sock_server =
  fixes serve :: "(net_request, net_reply, 'w) server"
  assumes recv_bound: "serve req w = Inr (r, w') \<Longrightarrow> rq_type req = NET_SOCK_RECV \<Longrightarrow> rp_status r = NET_OK \<Longrightarrow>
      0 \<le> rp_length r \<and> rp_length r \<le> rq_length req \<and> rp_length r \<le> int (length (rp_buf r))"
begin

lemma sock_recv_result:
  assumes "serve ((new_request NET_SOCK_RECV)\<lparr>rq_conn_id := conn_id, rq_length := len\<rparr>) w = Inr (r, w')"
    and "len \<le> 512" and "len \<le> int (length packet)"
  shows "sock_recv serve conn_id packet len w =
    Inr (if rp_status r = NET_OK then (rp_length r, take (nat (rp_length r)) (rp_buf r) @ drop (nat (rp_length r)) packet, w')
         else if rp_status r = NET_CLOSED then (0, packet, w') else (- status_code (rp_status r), packet, w'))"
proof -
  have b: "0 \<le> rp_length r" "rp_length r \<le> len" "rp_length r \<le> int (length (rp_buf r))" if "rp_status r = NET_OK"
    using recv_bound [OF assms(1)] that by (simp_all add: new_request_def)
  then show ?thesis
    using assms by (auto simp: sock_recv_def memcpy_int_def mem_read_def mem_write_def nat_le_iff)
qed

end

lemma reply_of:
  assumes "net_serve E pid req s = Inr (r, s')"
  shows "sys_net_step E (pid, req) s = Inr s'" and "snd (last (outbox s')) = Reply r"
  using assms by (auto simp: net_serve_def split: prod.splits net_msg.splits)

lemma memcpy_int_bound: "memcpy_int dst src n = Inr b \<Longrightarrow> 0 \<le> n \<and> n \<le> int (length b)"
  by (auto simp: memcpy_int_def mem_read_def mem_write_def min_def split: if_splits)

lemma handle_sock_recv_bound:
  assumes "handle_sock_recv E pid req s = Inr s'" and "snd (last (outbox s')) = Reply r" and "rp_status r = NET_OK"
  shows "0 \<le> rp_length r \<and> rp_length r \<le> rq_length req \<and> rp_length r \<le> int (length (rp_buf r))"
proof -
  obtain t where t: "net_poll E s = Inr t" using assms(1) by (auto simp: handle_sock_recv_def res_bind_Inr_iff)
  let ?n = "if sock_rx_len t > rq_length req then rq_length req else sock_rx_len t"
  have "\<exists>b. memcpy_int (reply_area req) (sock_rx_buf t) ?n = Inr b \<and> r = \<lparr>rp_status = NET_OK, rp_conn_id = rq_conn_id req, rp_length = ?n, rp_buf = b\<rparr>"
  proof (rule ccontr)
    assume n: "\<not> ?thesis"
    show False
      using assms n t unfolding handle_sock_recv_def Let_def
      by (cases "memcpy_int (reply_area req) (sock_rx_buf t) ?n") (auto simp: send_net_reply_def split: if_splits)
  qed
  then show ?thesis using memcpy_int_bound by auto
qed

interpretation net_server: sock_server "net_serve E pid" for E :: "'d earth" and pid
proof
  fix req :: net_request and s s' :: "'d net_state" and r
  assume "net_serve E pid req s = Inr (r, s')" and "rq_type req = NET_SOCK_RECV" and "rp_status r = NET_OK"
  then show "0 \<le> rp_length r \<and> rp_length r \<le> rq_length req \<and> rp_length r \<le> int (length (rp_buf r))"
    using reply_of [of E pid req s r s'] handle_sock_recv_bound [of E pid req s s' r] by (simp add: sys_net_step_def)
qed

section \<open>Reading a line in the kernel\<close>

text \<open>The line that a sequence of characters without Enter leaves: Backspace deletes the last character.\<close>

definition edit :: "u8 \<Rightarrow> bytes \<Rightarrow> bytes" where
  "edit c line = (if c = 0x7f then butlast line else line @ [c])"

text \<open>
  What the terminal must be sent for it: a character as it is, a null not at all, and for a Backspace that deletes something the sequence
  back, space, back.
\<close>

fun echo :: "bytes \<Rightarrow> bytes \<Rightarrow> bytes" where
  "echo line [] = []"
| "echo line (c # cs) =
     (if c = 0x7f then if line = [] then [] else [0x08, 0x20, 0x08] else if c = 0 then [] else [c]) @ echo (edit c line) cs"

text \<open>
  A terminal: the characters of the current row, and the column of the cursor. A printable character replaces the one under the cursor, 8 moves
  the cursor back.
\<close>

definition display :: "u8 \<Rightarrow> bytes \<times> nat \<Rightarrow> bytes \<times> nat" where
  "display c = (\<lambda>(row, col).
     if c = 0x08 then (row, col - 1)
     else if 0x20 \<le> c then (take col row @ c # drop (col + 1) row, col + 1)
     else (row, col))"

text \<open>The row shows the line, then at most blanks, and the cursor stands behind it.\<close>

definition shows_line :: "bytes \<Rightarrow> bytes \<times> nat \<Rightarrow> bool" where
  "shows_line line = (\<lambda>(row, col). \<exists>n. row = line @ replicate n 0x20 \<and> col = length line)"

lemma display_edit:
  assumes "shows_line line scr" and "0x20 \<le> c"
  shows "shows_line (edit c line) (fold display (echo line [c]) scr)"
proof -
  obtain n where scr: "scr = (line @ replicate n 0x20, length line)" using assms(1) by (auto simp: shows_line_def split: prod.splits)
  show ?thesis
  proof (cases "c = 0x7f")
    case True
    show ?thesis
    proof (cases line rule: rev_cases)
      case (snoc xs x)
      then have "fold display (echo line [c]) scr = (xs @ replicate (Suc n) 0x20, length xs)"
        using True by (simp add: scr display_def)
      moreover have "edit c line = xs" using True snoc by (simp add: edit_def)
      ultimately show ?thesis by (simp add: shows_line_def del: replicate_Suc)
    qed (use True assms(1) in \<open>simp add: edit_def\<close>)
  next
    case False
    then have "fold display (echo line [c]) scr = ((line @ [c]) @ replicate (n - 1) 0x20, length (line @ [c]))"
      using assms(2) by (auto simp: scr display_def)
    then show ?thesis using False by (auto simp: edit_def shows_line_def)
  qed
qed

lemma echo_shows:
  assumes "shows_line line scr" and "\<forall>c \<in> set cs. 0x20 \<le> c"
  shows "shows_line (fold edit cs line) (fold display (echo line cs) scr)"
  using assms
proof (induction cs arbitrary: line scr)
  case (Cons c cs)
  have "shows_line (fold edit cs (edit c line)) (fold display (echo (edit c line) cs) (fold display (echo line [c]) scr))"
    using Cons by (intro Cons.IH display_edit) simp_all
  then show ?case by simp
qed simp

lemma term_read_step:
  assumes "i < unat (len - 1)" and "i < length buf"
  shows "term_read_loop len i buf out (c # inp) =
    (let buf = take i buf @ c # drop (i + 1) buf
     in if c = 0x0d
        then Inr (if i \<noteq> 0 then of_nat i + 1 else 0, buf[i := 0], \<lparr>tty_in = inp, tty_out = out @ [0x0a, 0x0d]\<rparr>)
        else if c = 0x7f
        then term_read_loop len (i - 1) buf (if i \<noteq> 0 then out @ [0x08, 0x20, 0x08] else out) inp
        else term_read_loop len (i + 1) buf (if c \<noteq> 0 then out @ [c] else out) inp)"
  using assms by (subst term_read_loop.simps) (simp add: mem_write_def Let_def del: term_read_loop.simps)

declare term_read_loop.simps [simp del]

lemma term_read_loop_line:
  assumes "\<And>k. k \<le> length cs \<Longrightarrow> length (fold edit (take k cs) line) < unat (len - 1)"
    and "0x0d \<notin> set cs" and "take (length line) buf = line" and "unat (len - 1) < length buf"
  shows "\<exists>buf'. term_read_loop len (length line) buf out (cs @ 0x0d # rest) =
      Inr (if fold edit cs line = [] then 0 else of_nat (length (fold edit cs line)) + 1, buf',
        \<lparr>tty_in = rest, tty_out = out @ echo line cs @ [0x0a, 0x0d]\<rparr>) \<and>
    take (length (fold edit cs line) + 1) buf' = fold edit cs line @ [0] \<and> length buf' = length buf"
  using assms
proof (induction cs arbitrary: line buf out)
  case Nil
  have i: "length line < unat (len - 1)" using Nil.prems(1) [of 0] by simp
  then have "length line < length buf" using Nil.prems(4) by simp
  then show ?case
    using Nil.prems(3) i by (auto simp: term_read_step Let_def list_update_append)
next
  case (Cons c cs)
  have i: "length line < unat (len - 1)" using Cons.prems(1) [of 0] by simp
  then have l: "length line < length buf" using Cons.prems(4) by simp
  let ?buf = "take (length line) buf @ c # drop (length line + 1) buf"
  have take: "take (length (edit c line)) ?buf = edit c line"
  proof -
    have "?buf = line @ c # drop (length line + 1) buf" using Cons.prems(3) by simp
    then show ?thesis by (simp add: edit_def butlast_conv_take)
  qed
  have "length (fold edit (take k cs) (edit c line)) < unat (len - 1)" if "k \<le> length cs" for k
    using Cons.prems(1) [of "Suc k"] that by simp
  from Cons.IH [OF this _ take] Cons.prems(2,4) l
  have ih: "\<exists>buf'. term_read_loop len (length (edit c line)) ?buf out (cs @ 0x0d # rest) =
      Inr (if fold edit cs (edit c line) = [] then 0 else of_nat (length (fold edit cs (edit c line))) + 1, buf',
        \<lparr>tty_in = rest, tty_out = out @ echo (edit c line) cs @ [0x0a, 0x0d]\<rparr>) \<and>
    take (length (fold edit cs (edit c line)) + 1) buf' = fold edit cs (edit c line) @ [0] \<and> length buf' = length ?buf" for out
    by auto
  have n: "length (edit c line) = (if c = 0x7f then length line - 1 else length line + 1)" by (simp add: edit_def)
  have "c \<noteq> 0x0d" using Cons.prems(2) by auto
  then have "term_read_loop len (length line) buf out ((c # cs) @ 0x0d # rest) =
      term_read_loop len (length (edit c line)) ?buf (out @ echo line [c]) (cs @ 0x0d # rest)"
    using n term_read_step [OF i l] by (cases "c = 0x7f") auto
  moreover have "length ?buf = length buf" using l by simp
  moreover have "out @ echo line (c # cs) = (out @ echo line [c]) @ echo (edit c line) cs" by simp
  ultimately show ?case using ih [of "out @ echo line [c]"] by (simp only: fold_simps append_assoc [symmetric])
qed

text \<open>
  C37: the kernel's \<^verbatim>\<open>term_read()\<close> returns the line that was typed up to Enter, with every Backspace deleting the character before
  it, if the line fits into the buffer at all times: the line stands at the start of the buffer with a null after it, the result is its
  length with the null (or 0 for an empty line), and what was typed after Enter is left for the next call. The terminal is sent, behind
  what it was sent before, exactly the echo of the typed characters and a new line; when none of them is a control character, a terminal
  with an empty row then shows the line, with every deleted character wiped out and the cursor behind it.
\<close>

theorem term_read_line:
  assumes "\<forall>k \<le> length cs. length (fold edit (take k cs) []) < unat (len - 1)"
    and "0x0d \<notin> set cs" and "unat (len - 1) < length buf" and "tty_in t = cs @ 0x0d # rest"
  shows "(\<exists>buf'. term_read_kernel buf len t =
      Inr (if fold edit cs [] = [] then 0 else of_nat (length (fold edit cs [])) + 1, buf',
        \<lparr>tty_in = rest, tty_out = tty_out t @ echo [] cs @ [0x0a, 0x0d]\<rparr>) \<and>
      take (length (fold edit cs []) + 1) buf' = fold edit cs [] @ [0] \<and> length buf' = length buf) \<and>
    ((\<forall>c \<in> set cs. 0x20 \<le> c) \<longrightarrow> shows_line (fold edit cs []) (fold display (echo [] cs) ([], 0)))"
  using term_read_loop_line [of cs "[]" len buf "tty_out t" rest] echo_shows [of "[]" "([], 0)" cs] assms
  by (simp add: term_read_kernel_def shows_line_def)

theorem term_read_line_witness:
  "\<exists>buf'. term_read_kernel (replicate 8 0) 8 \<lparr>tty_in = [0x6c, 0x78, 0x7f, 0x73, 0x0d, 0x71], tty_out = [0x3e]\<rparr> =
     Inr (3, buf', \<lparr>tty_in = [0x71], tty_out = [0x3e, 0x6c, 0x78, 0x08, 0x20, 0x08, 0x73, 0x0a, 0x0d]\<rparr>) \<and> take 3 buf' = [0x6c, 0x73, 0] \<and>
   shows_line [0x6c, 0x73] (fold display [0x6c, 0x78, 0x08, 0x20, 0x08, 0x73] ([], 0))"
proof -
  let ?cs = "[0x6c, 0x78, 0x7f, 0x73] :: bytes"
  have "\<forall>k \<le> length ?cs. length (fold edit (take k ?cs) []) < unat (8 - 1 :: u32)"
  proof (intro allI impI)
    fix k
    assume "k \<le> length ?cs"
    then have "k = 0 \<or> k = 1 \<or> k = 2 \<or> k = 3 \<or> k = 4" by auto
    then show "length (fold edit (take k ?cs) []) < unat (8 - 1 :: u32)" by (auto simp: edit_def)
  qed
  moreover have "fold edit ?cs [] = [0x6c, 0x73]" "echo [] ?cs = [0x6c, 0x78, 0x08, 0x20, 0x08, 0x73]" by (simp_all add: edit_def)
  ultimately show ?thesis
    using term_read_line [of ?cs 8 "replicate 8 0" "\<lparr>tty_in = ?cs @ 0x0d # [0x71], tty_out = [0x3e]\<rparr>" "[0x71]"]
    by (auto simp: numeral_3_eq_3)
qed

section \<open>The requests of the HTTP program\<close>

text \<open>A server that also records the requests it gets.\<close>

definition logged :: "('req, 'rep, 'w) server \<Rightarrow> ('req, 'rep, 'w \<times> 'req list) server" where
  "logged serve req = (\<lambda>(w, log). res_bind (serve req w) (\<lambda>(r, w). Inr (r, (w, log @ [req]))))"

definition conn_request :: "net_request_type \<Rightarrow> int \<Rightarrow> int \<Rightarrow> net_request" where
  "conn_request ty conn len = (new_request ty)\<lparr>rq_conn_id := conn, rq_length := len\<rparr>"

definition hello_request :: "int \<Rightarrow> net_request" where
  "hello_request conn = (conn_request NET_SOCK_SEND conn (int (length hello_response) - 1))
     \<lparr>rq_buf := butlast hello_response @ replicate (NET_BUF_SIZE + 1 - length hello_response) 0\<rparr>"

lemma hello_facts:
  "strlen hello_response = Inr 102" "length hello_response = 103" "take 102 hello_response = butlast hello_response"
  by code_simp+

lemma sock_send_hello:
  "sock_send serve conn hello_response 102 w = res_bind (serve (hello_request conn) w)
     (\<lambda>(r, w). Inr (if rp_status r = NET_OK then 102 else - status_code (rp_status r), w))"
  by (simp add: sock_send_def memcpy_int_def mem_read_def mem_write_def new_request_def hello_request_def conn_request_def
      hello_facts)

text \<open>
  In one turn the HTTP program asks for a connection; if it gets one, it asks once for a request, answers with its page exactly
  if the reply brought data, and closes the connection in any case. So a connection whose request has not arrived yet
  when the program asks is closed without an answer.
\<close>

lemma http_turn_requests:
  assumes "http_turn (logged serve) (req_buf, w, log) = Inr (req_buf', w', log')"
  shows "\<exists>a w1. serve (new_request NET_SOCK_ACCEPT) w = Inr (a, w1) \<and>
    (if rp_status a \<noteq> NET_OK \<or> rp_conn_id a < 0 then log' = log @ [new_request NET_SOCK_ACCEPT]
     else \<exists>r w2. serve (conn_request NET_SOCK_RECV (rp_conn_id a) 512) w1 = Inr (r, w2) \<and>
       log' = log @ [new_request NET_SOCK_ACCEPT, conn_request NET_SOCK_RECV (rp_conn_id a) 512] @
         (if rp_status r = NET_OK \<and> 0 < rp_length r then [hello_request (rp_conn_id a)] else []) @
         [(new_request NET_SOCK_CLOSE)\<lparr>rq_conn_id := rp_conn_id a\<rparr>])"
proof -
  obtain a w1 where a: "serve (new_request NET_SOCK_ACCEPT) w = Inr (a, w1)"
    using assms by (auto simp: http_turn_def sock_accept_def logged_def res_bind_Inr_iff)
  define conn where "conn = (if rp_status a = NET_OK then rp_conn_id a else - status_code (rp_status a))"
  have acc: "sock_accept (logged serve) (w, log) = Inr (conn, w1, log @ [new_request NET_SOCK_ACCEPT])"
    by (simp add: sock_accept_def logged_def a conn_def)
  show ?thesis
  proof (cases "rp_status a \<noteq> NET_OK \<or> rp_conn_id a < 0")
    case True
    then have "conn < 0" by (cases "rp_status a") (auto simp: conn_def status_code_def)
    then show ?thesis using assms a acc True by (simp add: http_turn_def)
  next
    case False
    then have c: "conn = rp_conn_id a" "\<not> conn < 0" by (auto simp: conn_def)
    obtain r w2 where r: "serve (conn_request NET_SOCK_RECV conn 512) w1 = Inr (r, w2)"
      using assms acc c(2) by (auto simp: http_turn_def sock_recv_def logged_def conn_request_def res_bind_Inr_iff Let_def)
    obtain n buf1 x where x: "sock_recv (logged serve) conn req_buf 512 (w1, log @ [new_request NET_SOCK_ACCEPT]) = Inr (n, buf1, x)"
      using assms acc c(2) by (auto simp: http_turn_def res_bind_Inr_iff)
    then have n: "x = (w2, log @ [new_request NET_SOCK_ACCEPT, conn_request NET_SOCK_RECV conn 512])"
        "0 < n \<longleftrightarrow> rp_status r = NET_OK \<and> 0 < rp_length r"
      using r by (auto simp: sock_recv_def logged_def conn_request_def status_code_def res_bind_Inr_iff Let_def split: if_splits net_status.splits)
    have close: "sock_close (logged serve) conn (w3, log3) = Inr (m, w', log') \<Longrightarrow>
        log' = log3 @ [(new_request NET_SOCK_CLOSE)\<lparr>rq_conn_id := conn\<rparr>]" for w3 log3 m
      by (auto simp: sock_close_def logged_def res_bind_Inr_iff)
    have "log' = log @ [new_request NET_SOCK_ACCEPT, conn_request NET_SOCK_RECV conn 512] @
        (if 0 < n then [hello_request conn] else []) @ [(new_request NET_SOCK_CLOSE)\<lparr>rq_conn_id := conn\<rparr>]"
    proof (cases "0 < n")
      case True
      have "\<exists>w3 m. sock_close (logged serve) conn (w3, log @ [new_request NET_SOCK_ACCEPT,
          conn_request NET_SOCK_RECV conn 512, hello_request conn]) = Inr (m, w', log')"
        using assms acc c(2) x True
        by (auto simp: http_turn_def hello_facts sock_send_hello n(1) logged_def res_bind_Inr_iff)
      then obtain w3 m where "sock_close (logged serve) conn (w3, log @ [new_request NET_SOCK_ACCEPT,
          conn_request NET_SOCK_RECV conn 512, hello_request conn]) = Inr (m, w', log')" by blast
      from close [OF this] show ?thesis using True by simp
    next
      case False
      then obtain m where "sock_close (logged serve) conn x = Inr (m, w', log')"
        using assms acc c(2) x by (auto simp: http_turn_def res_bind_Inr_iff)
      from close [OF this [unfolded n(1)]] show ?thesis using False by simp
    qed
    then show ?thesis using a r False n(2) by (simp add: c(1))
  qed
qed

lemma http_turn_no_request:
  "let r = (\<lambda>st n. \<lparr>rp_status = st, rp_conn_id = 1, rp_length = n, rp_buf = replicate 512 65\<rparr>);
       serve = (\<lambda>req w. Inr (if rq_type req = NET_SOCK_RECV then r NET_WOULD_BLOCK 0 else r NET_OK 0, w :: unit))
   in http_turn (logged serve) (replicate 512 0, (), []) =
     Inr (replicate 512 0, (), [new_request NET_SOCK_ACCEPT, conn_request NET_SOCK_RECV 1 512,
       (new_request NET_SOCK_CLOSE)\<lparr>rq_conn_id := 1\<rparr>])"
proof -
  let ?r = "\<lambda>st n. \<lparr>rp_status = st, rp_conn_id = 1, rp_length = n, rp_buf = replicate 512 65\<rparr>"
  let ?serve = "\<lambda>req w. Inr (if rq_type req = NET_SOCK_RECV then ?r NET_WOULD_BLOCK 0 else ?r NET_OK 0, w :: unit)"
  have t: "rq_type (new_request ty) = ty" for ty by (simp add: new_request_def)
  obtain b w log where run: "http_turn (logged ?serve) (replicate 512 0, (), []) = Inr (b, w, log)" and b: "b = replicate 512 0"
    by (simp add: http_turn_def sock_accept_def sock_recv_def sock_close_def logged_def status_code_def t)
  show ?thesis
    using run http_turn_requests [OF run] by (simp add: Let_def t b conn_request_def)
qed

end
