(* ===== verification/Client_Props.thy ===== *)
theory Client_Props
  imports Servers
begin

text \<open>
  The path between a program and the wire: \<^verbatim>\<open>sock_recv()\<close> and \<^verbatim>\<open>sock_send()\<close> of \<^verbatim>\<open>library/syscall/servers.c\<close> over the
  network service, the uIP stack, the address resolution and the e1000 driver.
\<close>

lemma serve_reply:
  assumes "sys_net_step E (pid, req) s = Inr s'" and "outbox s' = outbox s @ [(pid, Reply r)]"
  shows "net_serve E pid req s = Inr (r, s')"
  using assms by (simp add: net_serve_def)

text \<open>
  C5: data from the wire reaches the program. When the next frame the device has received is an in-order data segment for the
  established connection, the peer's hardware address (or the router's, if the peer is not on the local network) is in the address cache, the
  device completes descriptors, and the program's buffer is large enough, \<^verbatim>\<open>sock_recv()\<close> returns the length of the segment's
  data, with the data at the start of the buffer and the rest of it unchanged, and exactly one frame is put at the end of the transmit
  ring: an IP frame of 54 bytes to that hardware address, with valid checksums and no data, from the host and the connection's port to its peer,
  that acknowledges exactly the received data. Its sequence number is the connection's, moved on if the segment acknowledged all that was in
  flight.
\<close>

theorem client_sock_recv:
  fixes s :: "'h e1000 net_state" and r :: nat
  defines "u0 b m \<equiv> (stack s)\<lparr>uip_buf := b, uip_len := word_of_int m\<rparr>" and "c \<equiv> conn_at (stack s) r"
  assumes inv: "net_inv e1000_wf s" and recv: "Dev_Net.net_recv dev (uip_buf (stack s)) (nic s) = Inr (m, b, d)"
    and dev: "nic_tx_ok dev" "tx_inv d" "tx_count d < 15"
      "\<exists>k < 2 ^ 24. td_status (tx_ring ((dev_step dev ^^ Suc k) d) ! tx_index d) AND E1000_TXD_STAT_DD \<noteq> 0"
    and type: "get16 b e_type = HTONS UIP_ETHTYPE_IP"
    and seg: "valid_tcp (u0 b m)" "first_index (conn_matches (u0 b m)) (uip_conns (stack s)) = Some r"
      "buf8 (u0 b m) o_flags AND (TCP_FIN OR TCP_SYN OR TCP_RST OR TCP_URG) = 0" "buf8 (u0 b m) o_tcpoffset = 0x50"
      "buf_quad (u0 b m) o_seqno = rcv_nxt c" "ip_total_len (u0 b m) > 40" "ip_total_len (u0 b m) \<le> 408"
    and est: "tcpstateflags c = UIP_ESTABLISHED"
    and idle: "httpd_socket_tx_pending (stack s) = 0" "httpd_socket_close_pending (stack s) = 0"
    and arp: "ripaddr c \<noteq> broadcast_ipaddr" "arp_lookup (arp_mod s) (hop_to (stack s) (ripaddr c)) = Some mac"
    and sock: "0 \<le> sock_listen_port s" "conn_id = sock_conn_id s"
    and room: "int (unat (ip_total_len (u0 b m)) - 40) \<le> len" "len \<le> 512" "len \<le> int (length packet)"
  shows "\<exists>s' (u :: httpd_uip) k frame. sock_recv (net_serve (e1000_earth dev) pid) conn_id packet len s =
      Inr (int (unat (ip_total_len (u0 b m)) - 40),
        take (unat (ip_total_len (u0 b m)) - 40) (drop 54 b) @ drop (unat (ip_total_len (u0 b m)) - 40) packet, s') \<and>
    tx_pending (nic s') = drop k (tx_pending d) @ [frame] \<and> length frame = 54 \<and> take 6 frame = mac \<and>
    get16 frame e_type = HTONS UIP_ETHTYPE_IP \<and> drop 14 frame = take 40 (drop 14 (uip_buf u)) \<and> tcp_ok u \<and>
    segment_of u = \<lparr>sg_src = uip_hostaddr (stack s), sg_dest = ripaddr c, sg_srcport = lport c, sg_destport = rport c,
      sg_seq = (if buf8 (u0 b m) o_flags AND TCP_ACK \<noteq> 0 \<and> conn_len c \<noteq> 0 \<and> buf_quad (u0 b m) o_ackno = uip_add32 (snd_nxt c) (conn_len c)
        then buf_quad (u0 b m) o_ackno else snd_nxt c),
      sg_ack = uip_add32 (rcv_nxt c) (ip_total_len (u0 b m) - 40), sg_offset = 0x50, sg_flags = TCP_ACK, sg_wnd = UIP_RECEIVE_WINDOW, sg_data = []\<rparr> \<and>
    quad_val (sg_ack (segment_of u)) = (quad_val (rcv_nxt c) + (unat (ip_total_len (u0 b m)) - 40)) mod 2 ^ 32"
proof -
  let ?req = "(new_request NET_SOCK_RECV)\<lparr>rq_conn_id := conn_id, rq_length := len\<rparr>" and ?n = "unat (ip_total_len (u0 b m)) - 40"
  have req: "rq_conn_id ?req = sock_conn_id s" "length (rq_buf ?req) = NET_BUF_SIZE" "int ?n \<le> rq_length ?req"
      "rq_type ?req = NET_SOCK_RECV"
    using sock(2) room by (simp_all add: new_request_def)
  obtain s' k frame rest and u :: httpd_uip where h: "handle_sock_recv (e1000_earth dev) pid ?req s = Inr s'"
      "outbox s' = outbox s @ [(pid, Reply \<lparr>rp_status = NET_OK, rp_conn_id = rq_conn_id ?req, rp_length = int ?n,
        rp_buf = take ?n (drop 54 b) @ rest\<rparr>)]"
    and out: "tx_pending (nic s') = drop k (tx_pending d) @ [frame]" "length frame = 54" "take 6 frame = mac"
      "get16 frame e_type = HTONS UIP_ETHTYPE_IP" "drop 14 frame = take 40 (drop 14 (uip_buf u))" "tcp_ok u"
      "segment_of u = (conn_segment (stack s) r TCP_ACK [])\<lparr>sg_seq := seq_after (u0 b m) c, sg_ack := uip_add32 (rcv_nxt c) (ip_total_len (u0 b m) - 40)\<rparr>"
    using sock_recv_delivers [OF inv recv dev type seg [unfolded u0_def c_def] est [unfolded c_def] idle arp [unfolded c_def] sock(1)
        req(1-3) [unfolded u0_def], of pid, folded u0_def c_def]
    by (elim exE conjE) (rule that)
  have b: "length b = 422"
    using net_recv_wf(3) [OF _ recv] inv uip_wf_lengths(1) [of "stack s"] by (simp add: net_inv_def)
  have n: "?n \<le> 368" using seg(7) by (simp add: word_le_nat_alt)
  have "sys_net_step (e1000_earth dev) (pid, ?req) s = Inr s'" using h(1) req(4) by (simp add: sys_net_step_def)
  from net_server.sock_recv_result [OF serve_reply [OF this h(2)] room(2,3)]
  have "sock_recv (net_serve (e1000_earth dev) pid) conn_id packet len s =
      Inr (int ?n, take ?n (drop 54 b) @ drop ?n packet, s')"
    using b n by simp
  moreover have "quad_val (uip_add32 (rcv_nxt c) (ip_total_len (u0 b m) - 40)) = (quad_val (rcv_nxt c) + ?n) mod 2 ^ 32"
    using seg(6) by (simp add: uip_add32_val unat_sub)
  ultimately show ?thesis
    using out est by (intro exI [of _ s'] exI [of _ u] exI [of _ k] exI [of _ frame])
      (simp add: conn_segment_def Let_def seq_after_def flip: c_def)
qed

text \<open>
  C6: data from the program reaches the wire. If no frame waits, the connection is established with nothing in flight, the hardware address of the
  peer (or the router, if the peer is not on the local network) is in the address cache, and the device completes
  descriptors, then \<^verbatim>\<open>sock_send()\<close> of at most one segment returns the full length and puts exactly one frame at the end of the transmit ring: addressed to the
  cached hardware address, with a segment that has valid checksums, the connection's sequence numbers, ACK and PSH,
  and the program's bytes as its data.
\<close>

theorem client_sock_send:
  assumes inv: "net_inv e1000_wf s" and quiet: "no_frame (e1000_earth dev) s d"
    and dev: "nic_tx_ok dev" "tx_inv d" "tx_count d < 15"
      "\<exists>k < 2 ^ 24. td_status (tx_ring ((dev_step dev ^^ Suc k) d) ! tx_index d) AND E1000_TXD_STAT_DD \<noteq> 0"
    and len: "0 < len" "len \<le> int (unat (mss (conn_at (stack s) r)))" "len \<le> int (length packet)"
    and sock: "socket_conn_valid conn_id s" "sock_tx_pending s = 0" "kick_conn s = Some r"
      "httpd_socket_close_pending (stack s) = 0"
    and est: "tcpstateflags (conn_at (stack s) r) = UIP_ESTABLISHED" "conn_len (conn_at (stack s) r) = 0"
    and arp: "ripaddr (conn_at (stack s) r) \<noteq> broadcast_ipaddr"
      "arp_lookup (arp_mod s) (hop_to (stack s) (ripaddr (conn_at (stack s) r))) = Some mac"
  shows "\<exists>s' (u :: httpd_uip) k frame. sock_send (net_serve (e1000_earth dev) pid) conn_id packet len s = Inr (len, s') \<and>
    tx_pending (nic s') = drop k (tx_pending d) @ [frame] \<and> length frame = nat len + 54 \<and>
    take 6 frame = mac \<and> drop 54 frame = take (nat len) packet \<and>
    drop 14 frame = take (nat len + 40) (drop 14 (uip_buf u)) \<and> tcp_ok u \<and>
    segment_of u = conn_segment (stack s) r (TCP_ACK OR TCP_PSH) (take (nat len) packet)"
proof -
  have wf: "uip_wf (stack s)" using inv by (simp add: net_inv_def)
  have l512: "len \<le> 366" using len(2) conn_mss_bound [OF wf kick_conn_slot [OF wf sock(3)]] by linarith
  have nl: "nat len \<le> length packet" "nat len \<le> 512" using len(3) l512 by linarith+
  define b where "b = take (nat len) packet @ replicate (512 - nat len) 0"
  let ?req = "(new_request NET_SOCK_SEND)\<lparr>rq_conn_id := conn_id, rq_length := len, rq_buf := b\<rparr>"
  have req: "length (rq_buf ?req) = NET_BUF_SIZE" "0 < rq_length ?req" "rq_length ?req \<le> int (unat (mss (conn_at (stack s) r)))"
      "socket_conn_valid (rq_conn_id ?req) s" "rq_type ?req = NET_SOCK_SEND"
    using len l512 nl sock(1) by (simp_all add: new_request_def b_def)
  have t: "take (nat len) b = take (nat len) packet" using nl by (simp add: b_def)
  obtain s' k frame and u :: httpd_uip where h: "handle_sock_send (e1000_earth dev) pid ?req s = Inr s'"
      "outbox s' = outbox s @ [(pid, Reply \<lparr>rp_status = NET_OK, rp_conn_id = rq_conn_id ?req,
        rp_length = rq_length ?req, rp_buf = reply_area ?req\<rparr>)]"
    and out: "tx_pending (nic s') = drop k (tx_pending d) @ [frame]" "length frame = nat len + 54"
      "take 6 frame = mac" "drop 54 frame = take (nat len) packet"
      "drop 14 frame = take (nat len + 40) (drop 14 (uip_buf u))" "tcp_ok u"
      "segment_of u = conn_segment (stack s) r (TCP_ACK OR TCP_PSH) (take (nat len) packet)"
    using sock_send_transmits [OF inv quiet dev req(1-4) sock(2-4) est arp, of pid] t by auto
  have "sys_net_step (e1000_earth dev) (pid, ?req) s = Inr s'" using h(1) req(5) by (simp add: sys_net_step_def)
  from serve_reply [OF this h(2)]
  have "sock_send (net_serve (e1000_earth dev) pid) conn_id packet len s = Inr (len, s')"
    using len l512 nl by (simp add: sock_send_def memcpy_int_def mem_read_def mem_write_def new_request_def b_def)
  then show ?thesis using out by blast
qed

theorem client_sock_send_witness:
  "\<exists>s' k frame. sock_send (net_serve (e1000_earth idle_dev) 7) 1 [104, 101, 108, 108, 111] 5
      (service_on web_established arp_peer) = Inr (5, s') \<and>
    tx_pending (nic s') = drop k [] @ [frame] \<and> take 6 frame = [0x52, 0x55, 10, 0, 2, 2] \<and>
    drop 54 frame = [104, 101, 108, 108, 111]"
proof -
  let ?s = "service_on web_established arp_peer"
  let ?c = "conn_at (stack ?s) 0"
  have wf: "uip_wf web_established" "bridge_wf web_established" by code_simp+
  have inv: "net_inv e1000_wf ?s" by (rule service_on_inv [OF wf arp_peer_inv])
  have quiet: "no_frame (e1000_earth idle_dev) ?s e1000_ready"
    by (rule no_frame_ready) (simp add: service_on_def)
  have count: "tx_count e1000_ready < 15" using e1000_ready_inv(2) by (simp add: tx_pending_def)
  have "td_status (tx_ring ((dev_step idle_dev ^^ Suc 0) e1000_ready) ! tx_index e1000_ready) AND E1000_TXD_STAT_DD \<noteq> 0"
    using e1000_ready_inv by (simp add: dev_step_idle)
  then have done_: "\<exists>k < 2 ^ 24. td_status (tx_ring ((dev_step idle_dev ^^ Suc k) e1000_ready) ! tx_index e1000_ready) AND E1000_TXD_STAT_DD \<noteq> 0"
    by (intro exI [of _ 0]) simp
  have s: "sock_tx_pending ?s = 0" "nic ?s = e1000_ready" "stack ?s = web_established" "arp_mod ?s = arp_peer"
    "sock_listen_port ?s = 80" "socket_conn_valid 1 ?s"
    by (simp_all add: service_on_def socket_conn_valid_def)
  have c: "(5 :: int) \<le> int (unat (mss ?c))" "httpd_socket_close_pending (stack ?s) = 0"
    "tcpstateflags ?c = UIP_ESTABLISHED" "conn_len ?c = 0" "ripaddr ?c \<noteq> broadcast_ipaddr"
    "arp_lookup (arp_mod ?s) (hop_to (stack ?s) (ripaddr ?c)) = Some [0x52, 0x55, 10, 0, 2, 2]"
    unfolding s by code_simp+
  have kick: "kick_conn ?s = Some 0"
    unfolding kick_conn_def s by code_simp
  have len: "(0 :: int) < 5" "(5 :: int) \<le> int (length ([104, 101, 108, 108, 111] :: bytes))" by simp_all
  show ?thesis
    using client_sock_send [OF inv quiet idle_dev_ok e1000_ready_inv(1) count done_ len(1) c(1) len(2) s(6,1) kick c(2-6), of 7]
      e1000_ready_inv(2) by auto
qed

theorem client_sock_recv_witness:
  "\<exists>s' k frame. sock_recv (net_serve (e1000_earth idle_dev) 7) 1 (replicate 100 0) 100
      ((service_on web_established arp_peer)\<lparr>nic := e1000_received get_packet\<rparr>) = Inr (3, [71, 69, 84] @ replicate 97 0, s') \<and>
    tx_pending (nic s') = drop k [] @ [frame] \<and> length frame = 54 \<and> take 6 frame = [0x52, 0x55, 10, 0, 2, 2]"
proof -
  let ?s = "(service_on web_established arp_peer)\<lparr>nic := e1000_received get_packet\<rparr>"
  let ?b = "get_packet @ drop (length get_packet) (uip_buf web_established)"
  let ?u = "web_established\<lparr>uip_buf := ?b, uip_len := word_of_int (int (length get_packet))\<rparr>"
  have wf: "uip_wf web_established" "bridge_wf web_established" "length get_packet \<le> 422" "length (uip_buf web_established) = 422"
    by code_simp+
  note rx = e1000_received_frame [OF wf(3,4)]
  have s: "stack ?s = web_established" "nic ?s = e1000_received get_packet" "sock_listen_port ?s = 80" "sock_conn_id ?s = 1"
    "outbox ?s = []" "arp_mod ?s = arp_peer" by (simp_all add: service_on_def)
  have inv: "net_inv e1000_wf ?s"
    using service_on_inv [OF wf(1,2) arp_peer_inv] rx(1) by (simp add: net_inv_def)
  obtain d where d: "Dev_Net.net_recv idle_dev (uip_buf (stack ?s)) (nic ?s) = Inr (int (length get_packet), ?b, d)"
    "tx_inv d" "tx_count d < 15"
    "\<exists>k < 2 ^ 24. td_status (tx_ring ((dev_step idle_dev ^^ Suc k) d) ! tx_index d) AND E1000_TXD_STAT_DD \<noteq> 0" "tx_pending d = []"
    using rx(2) unfolding s by blast
  have seg: "valid_tcp ?u" "first_index (conn_matches ?u) (uip_conns web_established) = Some 0"
    "buf8 ?u o_flags AND (TCP_FIN OR TCP_SYN OR TCP_RST OR TCP_URG) = 0" "buf8 ?u o_tcpoffset = 0x50"
    "buf_quad ?u o_seqno = rcv_nxt (conn_at web_established 0)" "ip_total_len ?u > 40" "ip_total_len ?u \<le> 408"
    "tcpstateflags (conn_at web_established 0) = UIP_ESTABLISHED"
    "httpd_socket_tx_pending web_established = 0" "httpd_socket_close_pending web_established = 0"
    "get16 ?b e_type = HTONS UIP_ETHTYPE_IP" "unat (ip_total_len ?u) = 43" "take (43 - 40) (drop 54 ?b) = [71, 69, 84]"
    by code_simp+
  have room: "0 \<le> (80 :: int)" "int (43 - 40) \<le> (100 :: int)" "(100 :: int) \<le> 512" "(100 :: int) \<le> int (length (replicate 100 (0 :: u8)))"
    by simp_all
  have arp: "ripaddr (conn_at web_established 0) \<noteq> broadcast_ipaddr"
    "arp_lookup arp_peer (hop_to web_established (ripaddr (conn_at web_established 0))) = Some [0x52, 0x55, 10, 0, 2, 2]"
    by code_simp+
  note r = client_sock_recv [OF inv d(1) idle_dev_ok d(2-4) seg(11), of 0 "[0x52, 0x55, 10, 0, 2, 2]" 1 100 "replicate 100 0" 7, unfolded s, unfolded seg(12),
      OF seg(1-10) arp room(1) refl room(2-4)]
  then obtain s' k frame where "sock_recv (net_serve (e1000_earth idle_dev) 7) 1 (replicate 100 0) 100 ?s =
      Inr (int (43 - 40), take (43 - 40) (drop 54 ?b) @ drop (43 - 40) (replicate 100 0), s')"
    "tx_pending (nic s') = drop k (tx_pending d) @ [frame]" "length frame = 54" "take 6 frame = [0x52, 0x55, 10, 0, 2, 2]" by blast
  then show ?thesis unfolding seg(13) d(5) by (intro exI [of _ s'] exI [of _ k] exI [of _ frame]) simp
qed

end
