(* ===== verification/Tcp_State.thy ===== *)
theory Tcp_State
  imports Tcp_Props Uip_Conn
begin

text \<open>
  The TCP state machine. A step relation says which state a connection may have after one call of \<^verbatim>\<open>uip_process()\<close> and
  what must have happened for it; the lemmas show that the code, with the bridge as its application, makes only these steps.
\<close>

section \<open>The transitions\<close>

text \<open>The packet is a segment for connection \<open>r\<close>; the call is about connection \<open>r\<close>.\<close>

definition incoming :: "u8 \<Rightarrow> 'a uip_scheme \<Rightarrow> nat \<Rightarrow> bool" where
  "incoming flag s r \<longleftrightarrow>
     flag \<noteq> UIP_POLL_REQUEST \<and> flag \<noteq> UIP_TIMER \<and> first_index (conn_matches s) (uip_conns s) = Some r"

definition on_timer :: "u8 \<Rightarrow> 'a uip_scheme \<Rightarrow> nat \<Rightarrow> bool" where
  "on_timer flag s r \<longleftrightarrow> flag = UIP_TIMER \<and> uip_conn s = Some r"

definition active :: "u8 \<Rightarrow> 'a uip_scheme \<Rightarrow> nat \<Rightarrow> bool" where
  "active flag s r \<longleftrightarrow> incoming flag s r \<or> (flag = UIP_POLL_REQUEST \<or> flag = UIP_TIMER) \<and> uip_conn s = Some r"

definition has_flag :: "'a uip_scheme \<Rightarrow> u8 \<Rightarrow> bool" where
  "has_flag s f \<longleftrightarrow> buf8 s o_flags AND f \<noteq> 0"

text \<open>The segment acknowledges all that connection \<open>r\<close> has in flight; it is the next one in sequence.\<close>

definition acks_all :: "'a uip_scheme \<Rightarrow> nat \<Rightarrow> bool" where
  "acks_all s r \<longleftrightarrow> has_flag s TCP_ACK \<and> uip_outstanding (conn_at s r) \<and>
     buf_quad s o_ackno = uip_add32 (snd_nxt (conn_at s r)) (conn_len (conn_at s r))"

definition in_sequence :: "'a uip_scheme \<Rightarrow> nat \<Rightarrow> bool" where
  "in_sequence s r \<longleftrightarrow> buf_quad s o_seqno = rcv_nxt (conn_at s r)"

definition handshake_done :: "'a uip_scheme \<Rightarrow> nat \<Rightarrow> bool" where
  "handshake_done s r \<longleftrightarrow> acks_all s r \<and>
     (tcp_state_of (conn_at s r) = UIP_SYN_RCVD \<or>
      tcp_state_of (conn_at s r) = UIP_SYN_SENT \<and> buf8 s o_flags AND TCP_CTL = TCP_SYN OR TCP_ACK)"

inductive tcp_step :: "u8 \<Rightarrow> httpd_uip \<Rightarrow> nat \<Rightarrow> u8 \<Rightarrow> bool" for flag s r where
  Keep: "tcp_step flag s r (tcpstateflags (conn_at s r))"
| Passive_Open:
    "\<not> (\<exists>q. active flag s q) \<Longrightarrow> buf8 s o_flags AND TCP_CTL = TCP_SYN \<Longrightarrow> buf16 s o_destport \<in> set (uip_listenports s) \<Longrightarrow>
     tcpstateflags (conn_at s r) \<in> {UIP_CLOSED, UIP_TIME_WAIT} \<Longrightarrow> tcp_step flag s r UIP_SYN_RCVD"
| Established:
    "incoming flag s r \<Longrightarrow> \<not> has_flag s TCP_RST \<Longrightarrow> handshake_done s r \<Longrightarrow> tcp_step flag s r UIP_ESTABLISHED"
| Refused:
    "incoming flag s r \<Longrightarrow> tcp_state_of (conn_at s r) = UIP_SYN_SENT \<Longrightarrow> \<not> handshake_done s r \<Longrightarrow> tcp_step flag s r UIP_CLOSED"
| Reset: "incoming flag s r \<Longrightarrow> has_flag s TCP_RST \<Longrightarrow> tcp_step flag s r UIP_CLOSED"
| Local_Close:
    "active flag s r \<Longrightarrow> tcp_state_of (conn_at s r) = UIP_ESTABLISHED \<or> incoming flag s r \<and> handshake_done s r \<Longrightarrow>
     httpd_socket_close_pending s \<noteq> 0 \<Longrightarrow> tcp_step flag s r UIP_FIN_WAIT_1"
| Remote_Close:
    "incoming flag s r \<Longrightarrow> tcp_state_of (conn_at s r) = UIP_ESTABLISHED \<Longrightarrow> has_flag s TCP_FIN \<Longrightarrow> in_sequence s r \<Longrightarrow>
     uip_outstanding (conn_at s r) \<longrightarrow> acks_all s r \<Longrightarrow> tcp_step flag s r UIP_LAST_ACK"
| Close_Acked:
    "incoming flag s r \<Longrightarrow> tcp_state_of (conn_at s r) = UIP_LAST_ACK \<Longrightarrow> acks_all s r \<Longrightarrow> tcp_step flag s r UIP_CLOSED"
| Fin_Acked:
    "incoming flag s r \<Longrightarrow> tcp_state_of (conn_at s r) = UIP_FIN_WAIT_1 \<Longrightarrow> acks_all s r \<Longrightarrow> \<not> has_flag s TCP_FIN \<Longrightarrow>
     tcp_step flag s r UIP_FIN_WAIT_2"
| Fin_Crossed:
    "incoming flag s r \<Longrightarrow> tcp_state_of (conn_at s r) = UIP_FIN_WAIT_1 \<Longrightarrow> \<not> acks_all s r \<Longrightarrow> has_flag s TCP_FIN \<Longrightarrow>
     in_sequence s r \<Longrightarrow> tcp_step flag s r UIP_CLOSING"
| Fin_Received:
    "incoming flag s r \<Longrightarrow> tcp_state_of (conn_at s r) = UIP_FIN_WAIT_2 \<or> tcp_state_of (conn_at s r) = UIP_FIN_WAIT_1 \<and> acks_all s r \<Longrightarrow>
     has_flag s TCP_FIN \<Longrightarrow> in_sequence s r \<Longrightarrow> tcp_step flag s r UIP_TIME_WAIT"
| Closing_Acked:
    "incoming flag s r \<Longrightarrow> tcp_state_of (conn_at s r) = UIP_CLOSING \<Longrightarrow> acks_all s r \<Longrightarrow> tcp_step flag s r UIP_TIME_WAIT"
| Wait_Over:
    "on_timer flag s r \<Longrightarrow> tcpstateflags (conn_at s r) \<in> {UIP_TIME_WAIT, UIP_FIN_WAIT_2} \<Longrightarrow>
     timer (conn_at s r) + 1 = UIP_TIME_WAIT_TIMEOUT \<Longrightarrow> tcp_step flag s r UIP_CLOSED"
| Give_Up:
    "on_timer flag s r \<Longrightarrow> uip_outstanding (conn_at s r) \<Longrightarrow> timer (conn_at s r) = 0 \<Longrightarrow>
     nrtx (conn_at s r) = UIP_MAXRTX \<or>
       tcpstateflags (conn_at s r) \<in> {UIP_SYN_SENT, UIP_SYN_RCVD} \<and> nrtx (conn_at s r) = UIP_MAXSYNRTX \<Longrightarrow>
     tcp_step flag s r UIP_CLOSED"

inductive_cases tcp_step_establishedE: "tcp_step flag s r UIP_ESTABLISHED"
inductive_cases tcp_step_fin_waitE: "tcp_step flag s r UIP_FIN_WAIT_1"

text \<open>What the relation says of two states: no connection is established without a handshake, none is closed by this side unasked.\<close>

lemma established_by_handshake:
  assumes "tcp_step flag s r UIP_ESTABLISHED" and "tcpstateflags (conn_at s r) \<noteq> UIP_ESTABLISHED"
  shows "incoming flag s r" and "handshake_done s r"
  using assms by (auto elim: tcp_step_establishedE)

lemma active_close_on_request:
  assumes "tcp_step flag s r UIP_FIN_WAIT_1" and "tcpstateflags (conn_at s r) \<noteq> UIP_FIN_WAIT_1"
  shows "httpd_socket_close_pending s \<noteq> 0"
  using assms by (auto elim: tcp_step_fin_waitE)

section \<open>States of all connections\<close>

definition tcp_states :: "'a uip_scheme \<Rightarrow> u8 list" where
  "tcp_states s = map tcpstateflags (uip_conns s)"

lemma tcp_states_frame [simp]:
  "tcp_states (s\<lparr>uip_len := x1\<rparr>) = tcp_states s"
  "tcp_states (s\<lparr>uip_slen := x2\<rparr>) = tcp_states s"
  "tcp_states (s\<lparr>uip_flags := x3\<rparr>) = tcp_states s"
  "tcp_states (s\<lparr>uip_appdata := x4\<rparr>) = tcp_states s"
  "tcp_states (s\<lparr>uip_sappdata := x4\<rparr>) = tcp_states s"
  "tcp_states (s\<lparr>uip_acc32 := x5\<rparr>) = tcp_states s"
  "tcp_states (s\<lparr>uip_conn := x6\<rparr>) = tcp_states s"
  "tcp_states (s\<lparr>iss := x5\<rparr>) = tcp_states s"
  "tcp_states (count_stat g s) = tcp_states s"
  "tcp_states (set8 i v s) = tcp_states s"
  "tcp_states (set16 i w s) = tcp_states s"
  "tcp_states (set_addr i a s) = tcp_states s"
  "tcp_states (drop_packet s) = tcp_states s"
  by (simp_all add: tcp_states_def count_stat_def drop_packet_def set16_def set_addr_def)

lemma tcp_states_set_quad [simp]: "tcp_states (set_quad i q s) = tcp_states s"
  by (cases q) simp

lemma tcp_states_conns: "uip_conns s' = uip_conns s \<Longrightarrow> tcp_states s' = tcp_states s"
  by (simp add: tcp_states_def)

lemma tcp_states_upd:
  "r < length (uip_conns s) \<Longrightarrow> tcp_states (upd_conn r f s) = (tcp_states s)[r := tcpstateflags (f (conn_at s r))]"
  by (simp add: tcp_states_def upd_conn_def map_update conn_at_def)

lemma tcp_states_upd_same [simp]:
  "(\<And>c. tcpstateflags (f c) = tcpstateflags c) \<Longrightarrow> tcp_states (upd_conn r f s) = tcp_states s"
  by (cases "r < length (uip_conns s)") (simp_all add: tcp_states_def upd_conn_def map_update list_update_same_conv list_update_beyond nth_list_update)

lemma tcp_states_nth: "r < length (uip_conns s) \<Longrightarrow> tcp_states s ! r = tcpstateflags (conn_at s r)"
  by (simp add: tcp_states_def conn_at_def)

lemma length_tcp_states [simp]: "length (tcp_states s) = length (uip_conns s)"
  by (simp add: tcp_states_def)

text \<open>The output labels leave all connections alone.\<close>

lemma tcp_send_states:
  "tcp_send r s = Inr s' \<Longrightarrow> tcp_states s' = tcp_states s"
  "tcp_send_noopts r s = Inr s' \<Longrightarrow> tcp_states s' = tcp_states s"
  "tcp_send_nodata r s = Inr s' \<Longrightarrow> tcp_states s' = tcp_states s"
  "tcp_send_ack r s = Inr s' \<Longrightarrow> tcp_states s' = tcp_states s"
  "tcp_send_finack r s = Inr s' \<Longrightarrow> tcp_states s' = tcp_states s"
  "tcp_send_synack r s = Inr s' \<Longrightarrow> tcp_states s' = tcp_states s"
  "tcp_send_syn r s = Inr s' \<Longrightarrow> tcp_states s' = tcp_states s"
  by (auto simp: tcp_states_def tcp_send_noopts_def tcp_send_nodata_def tcp_send_ack_def tcp_send_finack_def
      tcp_send_synack_def tcp_send_syn_def Let_def dest!: tcp_send_frame(2))

lemma tcp_reset_states: "tcp_reset s = Inr s' \<Longrightarrow> tcp_states s' = tcp_states s"
  by (auto simp: tcp_reset_def Let_def split: if_splits dest!: tcp_send_noconn_frame(3) [THEN tcp_states_conns])

lemma tcp_ack_input_states [simp]: "tcp_states (tcp_ack_input r s) = tcp_states s"
  by (simp add: tcp_ack_input_def rtt_estimate_def Let_def)

lemma uip_add_rcv_nxt_states [simp]: "tcp_states (uip_add_rcv_nxt r n s) = tcp_states s"
  by (simp add: uip_add_rcv_nxt_def Let_def)

lemma window_mss_states [simp]: "tcp_states (window_mss r s) = tcp_states s"
  by (simp add: window_mss_def Let_def)

lemma urgent_skip_states [simp]: "tcp_states (urgent_skip s) = tcp_states s"
  by (simp add: urgent_skip_def Let_def)

lemma apprexmit_states: "apprexmit r s = Inr s' \<Longrightarrow> tcp_states s' = tcp_states s"
  by (auto simp: apprexmit_def Let_def split: if_splits dest!: tcp_send_states)

lemma appsend_len_states [simp]: "tcp_states (appsend_len r s) = tcp_states s"
  by (simp add: appsend_len_def Let_def)

lemma appsend_states:
  assumes "appsend r s = Inr s'" and "r < length (uip_conns s)" and "uip_flags s AND UIP_ABORT = 0"
  shows "tcp_states s' = (if uip_flags s AND UIP_CLOSE \<noteq> 0 then (tcp_states s)[r := UIP_FIN_WAIT_1] else tcp_states s)"
  using assms
  by (auto simp: appsend_def Let_def tcp_states_upd split: if_splits dest!: tcp_send_states(3) apprexmit_states)

text \<open>The bridge does too, and asks for nothing but a close, and only if the service has asked for it.\<close>

lemma uip_send_conns: "uip_send d n s = Inr s' \<Longrightarrow> uip_conns s' = uip_conns s \<and> uip_flags s' = uip_flags s"
  by (auto simp: uip_send_def Let_def split: if_splits elim!: res_bind_InrE)

lemma httpd_newdata_conns:
  "httpd_newdata s = Inr s' \<Longrightarrow> uip_conns s' = uip_conns s \<and> uip_flags s' = uip_flags s \<and>
     httpd_socket_close_pending s' = httpd_socket_close_pending s"
  by (auto simp: httpd_newdata_def Let_def split: if_splits elim!: res_bind_InrE)

lemma httpd_appcall_states:
  assumes "httpd_appcall s = Inr s'"
  shows "uip_conns s' = uip_conns s"
    and "uip_flags s' = (if httpd_socket_close_pending s \<noteq> 0 then UIP_CLOSE else uip_flags s)"
proof -
  obtain t where t: "httpd_newdata (httpd_conn_events s) = Inr t" "httpd_tx t = Inr s'"
    using assms by (auto simp: httpd_appcall_def elim!: res_bind_InrE)
  have c: "httpd_socket_close_pending (httpd_conn_events s) = httpd_socket_close_pending s"
    by (simp add: httpd_conn_events_def Let_def)
  have "uip_conns (httpd_conn_events s) = uip_conns s" "uip_flags (httpd_conn_events s) = uip_flags s"
    using httpd_conn_events_frame [of s] by (simp_all add: app_frame_def)
  with httpd_newdata_conns [OF t(1)] c
  show "uip_conns s' = uip_conns s" "uip_flags s' = (if httpd_socket_close_pending s \<noteq> 0 then UIP_CLOSE else uip_flags s)"
    using t(2) by (auto simp: httpd_tx_def Let_def split: if_splits dest!: uip_send_conns)
qed

section \<open>Steps of the code\<close>

lemma length_conns_frame [simp]:
  "length (uip_conns (upd_conn r f s)) = length (uip_conns s)"
  "length (uip_conns (count_stat g s)) = length (uip_conns s)"
  "length (uip_conns (uip_add_rcv_nxt r n s)) = length (uip_conns s)"
  "length (uip_conns (window_mss r s)) = length (uip_conns s)"
  "length (uip_conns (urgent_skip s)) = length (uip_conns s)"
  "length (uip_conns (tcp_ack_input r s)) = length (uip_conns s)"
  by (simp_all add: upd_conn_def count_stat_def uip_add_rcv_nxt_def window_mss_def urgent_skip_def tcp_ack_input_def Let_def)

lemma close_pending_frame [simp]:
  fixes s :: httpd_uip
  shows "httpd_socket_close_pending (upd_conn r f s) = httpd_socket_close_pending s"
    and "httpd_socket_close_pending (count_stat g s) = httpd_socket_close_pending s"
    and "httpd_socket_close_pending (uip_add_rcv_nxt r n s) = httpd_socket_close_pending s"
    and "httpd_socket_close_pending (window_mss r s) = httpd_socket_close_pending s"
    and "httpd_socket_close_pending (urgent_skip s) = httpd_socket_close_pending s"
    and "httpd_socket_close_pending (tcp_ack_input r s) = httpd_socket_close_pending s"
  by (simp_all add: upd_conn_def count_stat_def uip_add_rcv_nxt_def window_mss_def urgent_skip_def tcp_ack_input_def Let_def)

lemma urgent_skip_flags [simp]: "uip_flags (urgent_skip s) = uip_flags s" "buf8 (urgent_skip s) i = buf8 s i"
  "conn_at (urgent_skip s) r = conn_at s r"
  by (simp_all add: urgent_skip_def Let_def)

lemma parse_mss_keeps:
  assumes "parse_mss r s = Inr s'"
  shows "tcp_states s' = tcp_states s" and "length (uip_conns s') = length (uip_conns s)"
    and "uip.more s' = uip.more s"
  using assms by (auto simp: parse_mss_def Let_def split: if_splits option.splits)

lemma close_pending_more:
  fixes s s' :: httpd_uip
  shows "uip.more s' = uip.more s \<Longrightarrow> httpd_socket_close_pending s' = httpd_socket_close_pending s"
  using bss_more_fields by metis

lemma app_close_states:
  assumes "res_bind (httpd_appcall s) (appsend r) = Inr s'" and "r < length (uip_conns s)"
    and "uip_flags s AND UIP_ABORT = 0" "uip_flags s AND UIP_CLOSE = 0"
  shows "tcp_states s' = (if httpd_socket_close_pending s \<noteq> 0 then (tcp_states s)[r := UIP_FIN_WAIT_1] else tcp_states s)"
proof -
  obtain t where t: "httpd_appcall s = Inr t" "appsend r t = Inr s'" using assms(1) by (auto elim!: res_bind_InrE)
  note c = httpd_appcall_states [OF t(1)]
  have "tcp_states s' = (if uip_flags t AND UIP_CLOSE \<noteq> 0 then (tcp_states t)[r := UIP_FIN_WAIT_1] else tcp_states t)"
    using assms(2,3) c by (intro appsend_states [OF t(2)]) (auto split: if_splits)
  then show ?thesis using c assms(4) by (simp add: tcp_states_conns [OF c(1)] split: if_splits)
qed

lemma app_then_states:
  assumes "res_bind (httpd_appcall s) f = Inr s'" and "\<And>t t'. f t = Inr t' \<Longrightarrow> tcp_states t' = g (tcp_states t)"
  shows "tcp_states s' = g (tcp_states s)"
  using assms by (auto elim!: res_bind_InrE dest!: httpd_appcall_states(1) tcp_states_conns)

lemma st_syn_rcvd_states:
  assumes "st_syn_rcvd httpd_appcall r s = Inr s'" and "r < length (uip_conns s)"
  shows "tcp_states s' = (if uip_flags s AND UIP_ACKDATA \<noteq> 0
    then (tcp_states s)[r := if httpd_socket_close_pending s \<noteq> 0 then UIP_FIN_WAIT_1 else UIP_ESTABLISHED] else tcp_states s)"
  using assms by (auto simp: st_syn_rcvd_def Let_def tcp_states_upd dest!: app_close_states split: if_splits)

lemma st_syn_sent_states:
  assumes "st_syn_sent httpd_appcall r s = Inr s'" and "r < length (uip_conns s)"
  shows "tcp_states s' = (if uip_flags s AND UIP_ACKDATA \<noteq> 0 \<and> buf8 s o_flags AND TCP_CTL = TCP_SYN OR TCP_ACK
    then (tcp_states s)[r := if httpd_socket_close_pending s \<noteq> 0 then UIP_FIN_WAIT_1 else UIP_ESTABLISHED]
    else (tcp_states s)[r := UIP_CLOSED])"
proof (cases "uip_flags s AND UIP_ACKDATA \<noteq> 0 \<and> buf8 s o_flags AND TCP_CTL = TCP_SYN OR TCP_ACK")
  case True
  then obtain t where t: "parse_mss r s = Inr t"
      "res_bind (httpd_appcall (upd_conn r (conn_len_update (\<lambda>_. 0)) (uip_add_rcv_nxt r 1
        (upd_conn r (\<lambda>c. c\<lparr>tcpstateflags := UIP_ESTABLISHED, rcv_nxt := buf_quad t o_seqno\<rparr>) t)\<lparr>uip_flags := UIP_CONNECTED OR UIP_NEWDATA\<rparr>)
        \<lparr>uip_len := 0, uip_slen := 0\<rparr>)) (appsend r) = Inr s'"
    using assms(1) by (auto simp: st_syn_sent_def Let_def elim!: res_bind_InrE)
  show ?thesis
    using app_close_states [OF t(2)] assms(2) True parse_mss_keeps [OF t(1)] close_pending_more [OF parse_mss_keeps(3) [OF t(1)]]
    by (simp add: tcp_states_upd)
next
  case False
  then obtain t where t: "httpd_appcall (s\<lparr>uip_flags := UIP_ABORT\<rparr>) = Inr t"
      "tcp_reset (upd_conn r (\<lambda>c. c\<lparr>tcpstateflags := UIP_CLOSED\<rparr>) t) = Inr s'"
    using assms(1) by (auto simp: st_syn_sent_def Let_def elim!: res_bind_InrE)
  show ?thesis
    using tcp_reset_states [OF t(2)] httpd_appcall_states(1) [OF t(1)] tcp_states_conns [OF httpd_appcall_states(1) [OF t(1)]]
      assms(2) False by (auto simp: tcp_states_upd)
qed

lemma st_established_states:
  assumes "st_established httpd_appcall r s = Inr s'" and "r < length (uip_conns s)" and "uip_flags s = 0 \<or> uip_flags s = UIP_ACKDATA"
  shows "if buf8 s o_flags AND TCP_FIN \<noteq> 0 \<and> tcpstateflags (conn_at s r) AND UIP_STOPPED = 0 \<and> \<not> uip_outstanding (conn_at s r)
    then tcp_states s' = (tcp_states s)[r := UIP_LAST_ACK]
    else tcp_states s' = tcp_states s \<or> httpd_socket_close_pending s \<noteq> 0 \<and> tcp_states s' = (tcp_states s)[r := UIP_FIN_WAIT_1]"
proof (cases "buf8 s o_flags AND TCP_FIN \<noteq> 0 \<and> tcpstateflags (conn_at s r) AND UIP_STOPPED = 0")
  case True
  show ?thesis
  proof (cases "uip_outstanding (conn_at s r)")
    case False
    with True obtain t u where t: "httpd_appcall t = Inr u" "tcp_states t = tcp_states s" "length (uip_conns t) = length (uip_conns s)"
        "tcp_send_finack r (upd_conn r (\<lambda>c. c\<lparr>conn_len := 1, tcpstateflags := UIP_LAST_ACK, nrtx := 0\<rparr>) u) = Inr s'"
      using assms(1) by (auto simp: st_established_def Let_def elim!: res_bind_InrE split: if_splits)
    show ?thesis
      using True False assms(2) t tcp_send_states(5) [OF t(4)] httpd_appcall_states(1) [OF t(1)]
        tcp_states_conns [OF httpd_appcall_states(1) [OF t(1)]]
      by (simp add: tcp_states_upd)
  qed (use True assms(1) in \<open>auto simp: st_established_def Let_def\<close>)
next
  case False
  then show ?thesis
    using assms by (auto simp: st_established_def Let_def dest!: app_close_states split: if_splits)
qed

lemma st_last_ack_states:
  "st_last_ack httpd_appcall r s = Inr s' \<Longrightarrow> r < length (uip_conns s) \<Longrightarrow>
   tcp_states s' = (if uip_flags s AND UIP_ACKDATA \<noteq> 0 then (tcp_states s)[r := UIP_CLOSED] else tcp_states s)"
  by (auto simp: st_last_ack_def Let_def tcp_states_upd dest!: app_then_states [where g = id] split: if_splits)

lemma st_fin_wait_1_states:
  "st_fin_wait_1 httpd_appcall r s = Inr s' \<Longrightarrow> r < length (uip_conns s) \<Longrightarrow>
   tcp_states s' = (if buf8 s o_flags AND TCP_FIN \<noteq> 0
     then (tcp_states s)[r := if uip_flags s AND UIP_ACKDATA \<noteq> 0 then UIP_TIME_WAIT else UIP_CLOSING]
     else if uip_flags s AND UIP_ACKDATA \<noteq> 0 then (tcp_states s)[r := UIP_FIN_WAIT_2] else tcp_states s)"
  by (auto simp: st_fin_wait_1_def Let_def tcp_states_upd dest!: app_then_states [where g = id] tcp_send_states(4)
      split: if_splits)

lemma st_fin_wait_2_states:
  "st_fin_wait_2 httpd_appcall r s = Inr s' \<Longrightarrow> r < length (uip_conns s) \<Longrightarrow>
   tcp_states s' = (if buf8 s o_flags AND TCP_FIN \<noteq> 0 then (tcp_states s)[r := UIP_TIME_WAIT] else tcp_states s)"
  by (auto simp: st_fin_wait_2_def Let_def tcp_states_upd dest!: app_then_states [where g = id] tcp_send_states(4)
      split: if_splits)

lemma st_closing_states:
  "st_closing r s = Inr s' \<Longrightarrow> r < length (uip_conns s) \<Longrightarrow>
   tcp_states s' = (if uip_flags s AND UIP_ACKDATA \<noteq> 0 then (tcp_states s)[r := UIP_TIME_WAIT] else tcp_states s)"
  by (auto simp: st_closing_def Let_def tcp_states_upd split: if_splits)

lemma tcp_ack_input_effect:
  assumes "r < length (uip_conns s)"
  shows "uip_flags (tcp_ack_input r s) = (if acks_all s r then UIP_ACKDATA else uip_flags s)"
    and "conn_len (conn_at (tcp_ack_input r s) r) = (if acks_all s r then 0 else conn_len (conn_at s r))"
    and "tcpstateflags (conn_at (tcp_ack_input r s) r) = tcpstateflags (conn_at s r)"
  using assms by (simp_all add: tcp_ack_input_def acks_all_def has_flag_def rtt_estimate_def Let_def conn_at_upd_conn)

text \<open>What a call does to the states of the connections: nothing, or one step of one connection.\<close>

definition state_moves :: "u8 \<Rightarrow> httpd_uip \<Rightarrow> httpd_uip \<Rightarrow> httpd_uip \<Rightarrow> bool" where
  "state_moves flag s0 s s' \<longleftrightarrow>
     tcp_states s' = tcp_states s \<or> (\<exists>r q. r < length (uip_conns s) \<and> tcp_states s' = (tcp_states s)[r := q] \<and> tcp_step flag s0 r q)"

lemma conn_matches_buf:
  assumes "uip_buf s' = uip_buf s"
  shows "conn_matches s' = conn_matches s"
  using same_buf [OF assms] by (simp add: conn_matches_def fun_eq_iff)

lemma tcp_step_cong:
  assumes "uip_buf s' = uip_buf s" "uip_conns s' = uip_conns s" "uip_listenports s' = uip_listenports s"
    "httpd_socket_close_pending s' = httpd_socket_close_pending s"
    and conn: "flag = UIP_POLL_REQUEST \<or> flag = UIP_TIMER \<Longrightarrow> uip_conn s' = uip_conn s"
  shows "tcp_step flag s' r q = tcp_step flag s r q"
proof -
  have c: "conn_at s' = conn_at s" using assms(2) by (simp add: conn_at_def fun_eq_iff)
  have m: "conn_matches s' = conn_matches s" by (rule conn_matches_buf [OF assms(1)])
  have a: "active flag s' = active flag s" "on_timer flag s' = on_timer flag s" "incoming flag s' = incoming flag s"
    using conn by (cases "flag = UIP_POLL_REQUEST \<or> flag = UIP_TIMER"; simp add: incoming_def on_timer_def active_def assms(2) m fun_eq_iff)+
  show ?thesis
    by (simp add: tcp_step.simps a has_flag_def acks_all_def in_sequence_def handshake_done_def assms(1-4) c same_buf [OF assms(1)])
qed

lemma state_moves_cong:
  assumes "state_moves flag t t s'" "uip_buf t = uip_buf s" "uip_conns t = uip_conns s" "uip_listenports t = uip_listenports s"
    "httpd_socket_close_pending t = httpd_socket_close_pending s"
    and "flag = UIP_POLL_REQUEST \<or> flag = UIP_TIMER \<Longrightarrow> uip_conn t = uip_conn s"
  shows "state_moves flag s s s'"
  using assms(1) tcp_step_cong [OF assms(2-)] assms(3) by (simp add: state_moves_def tcp_states_def)

lemma fin_ctl: "has_flag s TCP_FIN \<Longrightarrow> buf8 s o_flags AND (TCP_SYN OR TCP_FIN) \<noteq> 0"
proof -
  have "buf8 s o_flags AND TCP_FIN = (buf8 s o_flags AND (TCP_SYN OR TCP_FIN)) AND TCP_FIN" by (simp add: and.assoc)
  then show "has_flag s TCP_FIN \<Longrightarrow> buf8 s o_flags AND (TCP_SYN OR TCP_FIN) \<noteq> 0" by (auto simp: has_flag_def)
qed

lemma moveI: "tcp_states s' = (tcp_states s)[r := q] \<Longrightarrow> r < length (uip_conns s) \<Longrightarrow> tcp_step flag s0 r q \<Longrightarrow> state_moves flag s0 s s'"
  by (auto simp: state_moves_def)

lemma stayI: "tcp_states s' = tcp_states s \<Longrightarrow> state_moves flag s0 s s'"
  by (simp add: state_moves_def)

text \<open>A segment for a connection that is no reset and not out of sequence, and what its acknowledgement does.\<close>

definition accepted :: "u8 \<Rightarrow> httpd_uip \<Rightarrow> nat \<Rightarrow> bool" where
  "accepted flag s r \<longleftrightarrow> r < length (uip_conns s) \<and> incoming flag s r \<and> \<not> has_flag s TCP_RST \<and> \<not> unexpected_seq r s \<and> uip_flags s = 0"

lemma accepted_facts:
  assumes "accepted flag s r"
  shows "r < length (uip_conns s)" "incoming flag s r" "active flag s r" "\<not> has_flag s TCP_RST"
    and "uip_flags (tcp_ack_input r s) = (if acks_all s r then UIP_ACKDATA else 0)"
    and "tcp_state_of (conn_at (tcp_ack_input r s) r) = tcp_state_of (conn_at s r)"
    and "uip_outstanding (conn_at (tcp_ack_input r s) r) \<longleftrightarrow> uip_outstanding (conn_at s r) \<and> \<not> acks_all s r"
    and "buf8 s o_flags AND f = 0 \<longleftrightarrow> \<not> has_flag s f"
    and "has_flag s TCP_FIN \<Longrightarrow> tcp_state_of (conn_at s r) \<noteq> UIP_SYN_SENT \<Longrightarrow> in_sequence s r"
  using assms tcp_ack_input_effect [of r s] fin_ctl [of s]
  by (auto simp: accepted_def active_def tcp_state_of_def uip_outstanding_def has_flag_def unexpected_seq_def in_sequence_def)

lemma accepted_moveI:
  "accepted flag s r \<Longrightarrow> tcp_states s' = (tcp_states s)[r := q] \<Longrightarrow> tcp_step flag s r q \<Longrightarrow> state_moves flag s s s'"
  by (auto simp: accepted_def intro: moveI)

lemma syn_rcvd_moves:
  assumes "st_syn_rcvd httpd_appcall r (tcp_ack_input r s) = Inr s'" and a: "accepted flag s r" and st: "tcp_state_of (conn_at s r) = UIP_SYN_RCVD"
  shows "state_moves flag s s s'"
proof -
  have "handshake_done s r" if "acks_all s r" using st that by (simp add: handshake_done_def)
  then show ?thesis
    using st_syn_rcvd_states [OF assms(1)] accepted_facts(1-5) [OF a]
    by (auto split: if_splits intro: accepted_moveI [OF a] stayI tcp_step.Established tcp_step.Local_Close)
qed

lemma syn_sent_moves:
  assumes "st_syn_sent httpd_appcall r (tcp_ack_input r s) = Inr s'" and a: "accepted flag s r" and st: "tcp_state_of (conn_at s r) = UIP_SYN_SENT"
  shows "state_moves flag s s s'"
proof -
  have "handshake_done s r \<longleftrightarrow> acks_all s r \<and> buf8 s o_flags AND TCP_CTL = TCP_SYN OR TCP_ACK"
    using st by (simp add: handshake_done_def)
  then show ?thesis
    using st_syn_sent_states [OF assms(1)] accepted_facts(1-5) [OF a] st
    by (auto split: if_splits intro: accepted_moveI [OF a] stayI tcp_step.Established tcp_step.Local_Close tcp_step.Refused)
qed

lemma established_moves:
  assumes "st_established httpd_appcall r (tcp_ack_input r s) = Inr s'" and a: "accepted flag s r"
    and st: "tcp_state_of (conn_at s r) = UIP_ESTABLISHED"
  shows "state_moves flag s s s'"
  using st_established_states [OF assms(1)] accepted_facts [OF a] st
  by (auto split: if_splits intro: accepted_moveI [OF a] stayI tcp_step.Local_Close tcp_step.Remote_Close)

lemma closing_moves:
  assumes "accepted flag s r"
  shows "st_last_ack httpd_appcall r (tcp_ack_input r s) = Inr s' \<Longrightarrow> tcp_state_of (conn_at s r) = UIP_LAST_ACK \<Longrightarrow> state_moves flag s s s'"
    and "st_fin_wait_1 httpd_appcall r (tcp_ack_input r s) = Inr s' \<Longrightarrow> tcp_state_of (conn_at s r) = UIP_FIN_WAIT_1 \<Longrightarrow> state_moves flag s s s'"
    and "st_fin_wait_2 httpd_appcall r (tcp_ack_input r s) = Inr s' \<Longrightarrow> tcp_state_of (conn_at s r) = UIP_FIN_WAIT_2 \<Longrightarrow> state_moves flag s s s'"
    and "st_closing r (tcp_ack_input r s) = Inr s' \<Longrightarrow> tcp_state_of (conn_at s r) = UIP_CLOSING \<Longrightarrow> state_moves flag s s s'"
proof -
  note f = accepted_facts [OF assms] and rules = accepted_moveI [OF assms] stayI
  show "state_moves flag s s s'" if "st_last_ack httpd_appcall r (tcp_ack_input r s) = Inr s'" "tcp_state_of (conn_at s r) = UIP_LAST_ACK"
    using st_last_ack_states [OF that(1)] that(2) f(1,2,5) by (auto split: if_splits intro: rules tcp_step.Close_Acked)
  show "state_moves flag s s s'" if "st_fin_wait_1 httpd_appcall r (tcp_ack_input r s) = Inr s'" "tcp_state_of (conn_at s r) = UIP_FIN_WAIT_1"
    using st_fin_wait_1_states [OF that(1)] that(2) f
    by (auto split: if_splits intro: rules tcp_step.Fin_Acked tcp_step.Fin_Crossed tcp_step.Fin_Received)
  show "state_moves flag s s s'" if "st_fin_wait_2 httpd_appcall r (tcp_ack_input r s) = Inr s'" "tcp_state_of (conn_at s r) = UIP_FIN_WAIT_2"
    using st_fin_wait_2_states [OF that(1)] that(2) f by (auto split: if_splits intro: rules tcp_step.Fin_Received)
  show "state_moves flag s s s'" if "st_closing r (tcp_ack_input r s) = Inr s'" "tcp_state_of (conn_at s r) = UIP_CLOSING"
    using st_closing_states [OF that(1)] that(2) f(1,2,5) by (auto split: if_splits intro: rules tcp_step.Closing_Acked)
qed

lemma tcp_state_input_moves:
  assumes "tcp_state_input httpd_appcall r (tcp_ack_input r s) = Inr s'" and a: "accepted flag s r"
  shows "state_moves flag s s s'"
  using assms(1) accepted_facts(6) [OF a]
  by (auto simp: tcp_state_input_def Let_def split: if_splits dest!: tcp_send_states(4)
      intro: stayI syn_rcvd_moves [OF _ a] syn_sent_moves [OF _ a] established_moves [OF _ a] closing_moves [OF a])

lemma incoming_packet: "incoming flag s r \<Longrightarrow> flag \<noteq> UIP_POLL_REQUEST \<and> flag \<noteq> UIP_TIMER"
  by (simp add: incoming_def)

lemma found_moves:
  assumes run: "found httpd_appcall r s = Inr s'" and r: "r < length (uip_conns s)" and inc: "incoming flag s r"
  shows "state_moves flag s s s'"
proof -
  let ?s = "s\<lparr>uip_conn := Some r, uip_flags := 0\<rparr>"
  let ?t = "?s\<lparr>uip_len := uip_len s - ucast (push_bit 2 (drop_bit 4 (buf8 s o_tcpoffset))) - UIP_IPH_LEN\<rparr>"
  have inc': "incoming flag ?t r" using inc conn_matches_buf [of ?t s] by (simp add: incoming_def)
  consider "has_flag s TCP_RST" | "\<not> has_flag s TCP_RST" "unexpected_seq r ?t" | "\<not> has_flag s TCP_RST" "\<not> unexpected_seq r ?t" by blast
  then show ?thesis
  proof cases
    case 1
    then have "res_bind (httpd_appcall ((upd_conn r (\<lambda>c. c\<lparr>tcpstateflags := UIP_CLOSED\<rparr>) ?s)\<lparr>uip_flags := UIP_ABORT\<rparr>))
        (\<lambda>s. Inr (drop_packet s)) = Inr s'"
      using run by (simp add: found_def has_flag_def)
    from app_then_states [OF this, of id] have "tcp_states s' = (tcp_states s)[r := UIP_CLOSED]" using r by (simp add: tcp_states_upd)
    then show ?thesis using r tcp_step.Reset [OF inc 1] by (rule moveI)
  next
    case 2
    then have "tcp_states s' = tcp_states s"
      using run by (auto simp: found_def has_flag_def Let_def dest!: tcp_send_states(4))
    then show ?thesis by (rule stayI)
  next
    case 3
    then have "tcp_state_input httpd_appcall r (tcp_ack_input r ?t) = Inr s'"
      using run by (simp add: found_def has_flag_def Let_def)
    moreover have "accepted flag ?t r" using 3 r inc' by (simp add: accepted_def has_flag_def)
    ultimately have "state_moves flag ?t ?t s'" by (rule tcp_state_input_moves)
    then show ?thesis by (rule state_moves_cong) (use incoming_packet [OF inc] in auto)
  qed
qed

text \<open>A SYN for a listening port takes a connection that is closed, or waits for old segments to vanish.\<close>

lemma found_listen_moves:
  assumes run: "found_listen s = Inr s'" and none: "\<And>q. \<not> active flag s q"
    and syn: "buf8 s o_flags AND TCP_CTL = TCP_SYN" "buf16 s o_destport \<in> set (uip_listenports s)"
  shows "state_moves flag s s s'"
proof (cases "find_unused (uip_conns s) 0 None")
  case None
  with run show ?thesis by (auto simp: found_listen_def intro: stayI)
next
  case (Some r)
  then have r: "r < length (uip_conns s)" and free: "tcpstateflags (conn_at s r) \<in> {UIP_CLOSED, UIP_TIME_WAIT}"
    using find_unused_free [OF Some] by (auto simp: conn_at_def)
  have "tcp_states s' = (tcp_states s)[r := UIP_SYN_RCVD]"
    using run Some r by (auto simp: found_listen_def Let_def tcp_states_upd elim!: res_bind_InrE dest!: parse_mss_keeps(1) tcp_send_states(6))
  then show ?thesis using r by (rule moveI) (use none syn free in \<open>auto intro: tcp_step.Passive_Open\<close>)
qed

lemma tcp_input_moves:
  assumes run: "tcp_input httpd_appcall s = Inr s'" and flag: "flag \<noteq> UIP_POLL_REQUEST" "flag \<noteq> UIP_TIMER"
  shows "state_moves flag s s s'"
proof -
  define t where "t = count_stat (\<lambda>t. t\<lparr>tcp_recv := tcp_recv t + 1\<rparr>) s"
  have t: "uip_buf t = uip_buf s" "uip_conns t = uip_conns s" "uip_listenports t = uip_listenports s" 
      "httpd_socket_close_pending t = httpd_socket_close_pending s"
    by (simp_all add: t_def) (simp_all add: count_stat_def)
  have "state_moves flag t t s'"
  proof (cases "first_index (conn_matches t) (uip_conns t)")
    case None
    then have "\<not> active flag t q" for q using flag by (simp add: active_def incoming_def)
    moreover have "tcp_states s' = tcp_states t \<or> found_listen t = Inr s' \<and> buf8 t o_flags AND TCP_CTL = TCP_SYN \<and>
        buf16 t o_destport \<in> set (uip_listenports t)"
      using run None unfolding tcp_input_def t_def [symmetric]
      by (auto simp: Let_def split: if_splits elim!: res_bind_InrE dest!: tcp_reset_states)
    ultimately show ?thesis using stayI found_listen_moves by blast
  next
    case (Some r)
    then have inc: "incoming flag t r" using flag by (simp add: incoming_def)
    have "r < length (uip_conns t)" using first_index_Some [OF Some] by simp
    moreover have "tcp_states s' = tcp_states t \<or> found httpd_appcall r t = Inr s'"
      using run Some unfolding tcp_input_def t_def [symmetric]
      by (auto simp: Let_def split: if_splits elim!: res_bind_InrE)
    ultimately show ?thesis using stayI found_moves [OF _ _ inc] by blast
  qed
  then show ?thesis by (rule state_moves_cong) (use t flag in auto)
qed

lemma icmp_input_states: "tcp_states (icmp_input s) = tcp_states s"
  by (simp add: icmp_input_def send_packet_def Let_def)

lemma ip_input_moves:
  assumes run: "ip_input httpd_appcall s = Inr s'" and flag: "flag \<noteq> UIP_POLL_REQUEST" "flag \<noteq> UIP_TIMER"
  shows "state_moves flag s s s'"
proof -
  let ?t = "(count_stat (\<lambda>t. t\<lparr>ip_recv := ip_recv t + 1\<rparr>) s)\<lparr>uip_len := ip_total_len s\<rparr>"
  have "tcp_input httpd_appcall ?t = Inr s' \<or> tcp_states s' = tcp_states s"
    using run by (auto simp: ip_input_def Let_def icmp_input_states split: if_splits)
  then show ?thesis
  proof
    assume "tcp_input httpd_appcall ?t = Inr s'"
    then show ?thesis
      by (rule state_moves_cong [OF tcp_input_moves [OF _ flag]]) (use flag in \<open>auto simp: count_stat_def\<close>)
  qed (rule stayI)
qed

lemma poll_request_moves:
  assumes run: "poll_request httpd_appcall r s = Inr s'" and r: "r < length (uip_conns s)" and "uip_conn s = Some r"
  shows "state_moves UIP_POLL_REQUEST s s s'"
proof -
  have act: "active UIP_POLL_REQUEST s r" using assms(3) by (simp add: active_def)
  have "tcp_states s' = tcp_states s \<or> tcp_states s' = (tcp_states s)[r := UIP_FIN_WAIT_1] \<and>
      tcp_state_of (conn_at s r) = UIP_ESTABLISHED \<and> httpd_socket_close_pending s \<noteq> 0"
    using run r by (auto simp: poll_request_def split: if_splits dest!: app_close_states)
  then show ?thesis using tcp_step.Local_Close [OF act] stayI moveI [OF _ r] by blast
qed

lemma rexmit_states: "rexmit httpd_appcall r s = Inr s' \<Longrightarrow> tcp_states s' = tcp_states s"
  by (auto simp: rexmit_def Let_def split: if_splits
      dest!: tcp_send_states apprexmit_states app_then_states [where g = id])

lemma timer_outstanding_states:
  assumes run: "timer_outstanding httpd_appcall r s = Inr s'" and r: "r < length (uip_conns s)"
  shows "tcp_states s' = tcp_states s \<or> tcp_states s' = (tcp_states s)[r := UIP_CLOSED] \<and> timer (conn_at s r) = 0 \<and>
    (nrtx (conn_at s r) = UIP_MAXRTX \<or>
     tcpstateflags (conn_at s r) \<in> {UIP_SYN_SENT, UIP_SYN_RCVD} \<and> nrtx (conn_at s r) = UIP_MAXSYNRTX)"
  using assms
  by (auto simp: timer_outstanding_def Let_def conn_at_upd_conn tcp_states_upd split: if_splits
      dest!: rexmit_states tcp_send_states(3) app_then_states [where g = id])

lemma timer_tick_moves:
  assumes run: "timer_tick httpd_appcall r s = Inr s'" and r: "r < length (uip_conns s)" and "uip_conn s = Some r"
  shows "state_moves UIP_TIMER s s s'"
proof -
  let ?c = "conn_at s r" and ?s = "s\<lparr>iss := quad_incr (iss s), uip_len := 0, uip_slen := 0\<rparr>"
  have act: "active UIP_TIMER s r" "on_timer UIP_TIMER s r" using assms(3) by (simp_all add: active_def on_timer_def)
  note rules = stayI moveI [OF _ r]
  consider "tcpstateflags ?c \<in> {UIP_TIME_WAIT, UIP_FIN_WAIT_2}"
    | "tcpstateflags ?c \<notin> {UIP_TIME_WAIT, UIP_FIN_WAIT_2}" "uip_outstanding ?c" "timer_outstanding httpd_appcall r ?s = Inr s'"
    | "tcp_state_of ?c = UIP_ESTABLISHED" "res_bind (httpd_appcall (?s\<lparr>uip_flags := UIP_POLL\<rparr>)) (appsend r) = Inr s'"
    | "tcp_states s' = tcp_states s"
    using run by (auto simp: timer_tick_def Let_def split: if_splits)
  then show ?thesis
  proof cases
    case 1
    with run r have "tcp_states s' = tcp_states s \<or> tcp_states s' = (tcp_states s)[r := UIP_CLOSED] \<and>
        timer ?c + 1 = UIP_TIME_WAIT_TIMEOUT"
      by (auto simp: timer_tick_def Let_def conn_at_upd_conn tcp_states_upd split: if_splits)
    with 1 show ?thesis using rules tcp_step.Wait_Over [OF act(2)] by blast
  next
    case 2
    then show ?thesis using timer_outstanding_states [OF 2(3)] r rules tcp_step.Give_Up [OF act(2)] by auto
  next
    case 3
    then show ?thesis using app_close_states [OF 3(2)] r rules tcp_step.Local_Close [OF act(1)] by (auto split: if_splits)
  qed (rule stayI)
qed

lemma uip_process_moves:
  assumes run: "uip_process httpd_appcall flag s = Inr s'" and wf: "uip_wf s"
  shows "state_moves flag s s s'"
proof -
  let ?s = "s\<lparr>uip_sappdata := 54, uip_appdata := 54\<rparr>"
  have r: "r < length (uip_conns s)" if "uip_conn s = Some r" for r
    using wf that by (auto simp: uip_wf_def)
  have "state_moves flag ?s ?s s'"
    using run r poll_request_moves [of _ ?s] timer_tick_moves [of _ ?s] ip_input_moves [of ?s]
    by (auto simp: uip_process_def Let_def split: if_splits option.splits)
  then show ?thesis by (rule state_moves_cong) auto
qed

section \<open>The state machine\<close>

text \<open>
  C10: the code follows the TCP state machine. One call of \<^verbatim>\<open>uip_process()\<close>, for a poll, a timer tick or a packet, changes the
  state of at most one connection, and only as the transition relation allows: a connection opens only on a SYN
  for a listening port, is established only when the handshake's segment acknowledges the SYN, begins an active close only if the service asked for
  one, follows a FIN only in sequence, leaves a closing state only on the acknowledgement of its own FIN, and is closed only by that, a
  reset, a refusal, the end of its wait, or when retransmission is given up.
\<close>

theorem tcp_state_machine:
  assumes "uip_wf s" and "uip_process httpd_appcall flag s = Inr s'"
  shows "\<exists>r < UIP_CONNS. tcp_step flag s r (tcpstateflags (conn_at s' r)) \<and>
    (\<forall>k < UIP_CONNS. k \<noteq> r \<longrightarrow> tcpstateflags (conn_at s' k) = tcpstateflags (conn_at s k))"
proof -
  note L = uip_wf_lengths(2) [OF assms(1)]
  have len: "length (uip_conns s') = UIP_CONNS" if "length (tcp_states s') = length (tcp_states s)" using that L by simp
  from uip_process_moves [OF assms(2,1)] show ?thesis unfolding state_moves_def
  proof (elim disjE exE conjE)
    assume same: "tcp_states s' = tcp_states s"
    then have "tcpstateflags (conn_at s' k) = tcpstateflags (conn_at s k)" if "k < UIP_CONNS" for k
      using that len L by (simp flip: tcp_states_nth)
    then show ?thesis by (auto intro!: exI [of _ 0] simp: tcp_step.Keep)
  next
    fix r q assume move: "r < length (uip_conns s)" "tcp_states s' = (tcp_states s)[r := q]" "tcp_step flag s r q"
    then have "tcpstateflags (conn_at s' k) = (if k = r then q else tcpstateflags (conn_at s k))" if "k < UIP_CONNS" for k
      using that len L by (simp flip: tcp_states_nth)
    with move L show ?thesis by auto
  qed
qed

theorem tcp_state_machine_witness:
  "\<exists>s'. uip_process httpd_appcall UIP_DATA (with_packet fin_packet web_established) = Inr s' \<and>
     (\<exists>r < UIP_CONNS. tcp_step UIP_DATA (with_packet fin_packet web_established) r (tcpstateflags (conn_at s' r)) \<and>
       (\<forall>k < UIP_CONNS. k \<noteq> r \<longrightarrow>
         tcpstateflags (conn_at s' k) = tcpstateflags (conn_at (with_packet fin_packet web_established) k)))"
proof -
  let ?s = "with_packet fin_packet web_established"
  have wf: "uip_wf ?s" "bridge_ok ?s" "segment_safe ?s" by code_simp+
  have "opts_safe ?s" by code_simp
  with wf have "res_ok (\<lambda>_. False) (process_post (on_more bridge_ok)) (uip_process httpd_appcall UIP_DATA ?s)"
    by (intro bridge_total.uip_process_ok) (auto simp: uip_inv_def)
  then obtain s' where "uip_process httpd_appcall UIP_DATA ?s = Inr s'" by (auto simp: res_ok_total)
  with tcp_state_machine [OF wf(1) this] show ?thesis by blast
qed

section \<open>The end of the handshake\<close>

lemma httpd_connected:
  assumes "uip_flags s = UIP_CONNECTED" and "httpd_socket_close_pending s = 0"
  shows "httpd_appcall s = Inr (s\<lparr>httpd_socket_conn_open := 1, httpd_socket_conn_pending := 1, httpd_socket_conn_closed := 0\<rparr>)"
  using assms
  by (simp add: httpd_appcall_def httpd_conn_events_def uip_closed_event_def httpd_newdata_def httpd_tx_def Let_def)

lemma appsend_nothing:
  assumes "uip_slen s = 0" and "uip_flags s AND (UIP_NEWDATA OR UIP_ABORT OR UIP_CLOSE) = 0"
  shows "appsend r s = Inr (drop_packet ((upd_conn r (\<lambda>c. c\<lparr>nrtx := 0\<rparr>) s)\<lparr>uip_appdata := uip_sappdata s\<rparr>))"
proof -
  have "uip_flags s AND UIP_NEWDATA = 0" "uip_flags s AND UIP_ABORT = 0" "uip_flags s AND UIP_CLOSE = 0"
    using assms(2) by (auto intro: and_sub_mask)
  then show ?thesis using assms(1) by (simp add: appsend_def appsend_len_def apprexmit_def Let_def)
qed

text \<open>The connection's record after the acknowledgement of all that was in flight.\<close>

definition acked_conn :: "quad \<Rightarrow> uip_conn_t \<Rightarrow> uip_conn_t" where
  "acked_conn q c = (let c = c\<lparr>snd_nxt := q\<rparr>; c = (if nrtx c = 0 then rtt_estimate c else c) in c\<lparr>timer := rto c, conn_len := 0\<rparr>)"

lemma acked_conn_fields [simp]:
  "ripaddr (acked_conn q c) = ripaddr c" "lport (acked_conn q c) = lport c" "rport (acked_conn q c) = rport c"
  "rcv_nxt (acked_conn q c) = rcv_nxt c" "snd_nxt (acked_conn q c) = q" "mss (acked_conn q c) = mss c"
  "initialmss (acked_conn q c) = initialmss c" "conn_len (acked_conn q c) = 0"
  by (simp_all add: acked_conn_def rtt_estimate_def Let_def)

lemma tcp_ack_input_acked:
  assumes "acks_all s r" and "r < length (uip_conns s)"
  shows "uip_conns (tcp_ack_input r s) = (uip_conns s)[r := acked_conn (buf_quad s o_ackno) (conn_at s r)]"
    and "uip_flags (tcp_ack_input r s) = UIP_ACKDATA"
proof -
  have a: "has_flag s TCP_ACK" "uip_outstanding (conn_at s r)"
    "uip_add32 (snd_nxt (conn_at s r)) (conn_len (conn_at s r)) = buf_quad s o_ackno"
    using assms(1) by (simp_all add: acks_all_def)
  show "uip_flags (tcp_ack_input r s) = UIP_ACKDATA"
    using a by (simp add: tcp_ack_input_def has_flag_def Let_def)
  show "uip_conns (tcp_ack_input r s) = (uip_conns s)[r := acked_conn (buf_quad s o_ackno) (conn_at s r)]"
    using a assms(2) by (simp add: tcp_ack_input_def has_flag_def Let_def acked_conn_def upd_conn_def conn_at_def)
qed

lemma tcp_ack_input_idle: "conn_len (conn_at s r) = 0 \<Longrightarrow> tcp_ack_input r s = s"
  by (simp add: tcp_ack_input_def uip_outstanding_def)

text \<open>The acknowledgement that completes the handshake of a passive open.\<close>

lemma handshake_spec:
  fixes s :: httpd_uip
  assumes wf: "uip_wf s" and v: "valid_tcp s" and r: "first_index (conn_matches s) (uip_conns s) = Some r"
    and st: "tcpstateflags (conn_at s r) = UIP_SYN_RCVD" and ack: "acks_all s r"
    and seg: "buf8 s o_flags AND (TCP_FIN OR TCP_SYN OR TCP_RST) = 0" "seg_datalen s = 0"
    and idle: "httpd_socket_close_pending s = 0"
  shows "\<exists>s'. uip_input httpd_appcall s = Inr s' \<and> uip_len s' = 0 \<and> net_config s' = net_config s \<and>
    bridge_conn s' = (1, 1, 0, httpd_socket_tx_pending s, 0) \<and> httpd_socket_rx_len s' = httpd_socket_rx_len s \<and>
    uip_conns s' = (uip_conns s)[r := (acked_conn (buf_quad s o_ackno) (conn_at s r))\<lparr>tcpstateflags := UIP_ESTABLISHED, nrtx := 0\<rparr>]"
proof -
  have L: "r < length (uip_conns s)" and r40: "r < 40"
    using first_index_Some [OF r] uip_wf_lengths [OF wf] by simp_all
  have f: "buf8 s o_flags AND TCP_RST = 0" "buf8 s o_flags AND (TCP_SYN OR TCP_FIN) = 0"
    using seg(1) by (auto intro: and_sub_mask)
  let ?a = "tcp_ack_input r (found_rx r s)" and ?c = "acked_conn (buf_quad s o_ackno) (conn_at s r)"
  have "acks_all (found_rx r s) r" using ack by (simp add: acks_all_def has_flag_def)
  from tcp_ack_input_acked [OF this] L have a: "uip_conns ?a = (uip_conns s)[r := ?c]" "uip_flags ?a = UIP_ACKDATA" by simp_all
  note c = tcp_ack_input_conn [OF found_rx_wf [OF wf r40] r40]
  have in_: "uip_input httpd_appcall s = st_syn_rcvd httpd_appcall r ?a"
    using f seg(2) st c(1)
    by (simp add: uip_input_valid [OF v] r found_seq unexpected_seq_found_rx tcp_state_input_def tcp_state_of_def)
  define u where "u = (upd_conn r (\<lambda>c. c\<lparr>tcpstateflags := UIP_ESTABLISHED, conn_len := 0\<rparr>) ?a)\<lparr>uip_flags := UIP_CONNECTED, uip_slen := 0\<rparr>"
  have u: "uip_flags u = UIP_CONNECTED" "uip_slen u = 0" "net_config u = net_config s" "uip.more u = uip.more s"
    using c(4,5) by (simp_all add: u_def)
  have conn_len: "x\<lparr>conn_len := 0\<rparr> = x" if "conn_len x = 0" for x :: uip_conn_t
    using that by (cases x) simp
  have cu: "uip_conns u = (uip_conns s)[r := ?c\<lparr>tcpstateflags := UIP_ESTABLISHED\<rparr>]"
    using L by (simp add: u_def upd_conn_def a(1) conn_len)
  have "st_syn_rcvd httpd_appcall r ?a = res_bind (httpd_appcall u) (appsend r)"
    using a(2) seg(2) by (simp add: st_syn_rcvd_def Let_def u_def)
  moreover have "httpd_appcall u = Inr (u\<lparr>httpd_socket_conn_open := 1, httpd_socket_conn_pending := 1, httpd_socket_conn_closed := 0\<rparr>)"
    using u(1) more_fields(3) [OF u(4)] idle by (intro httpd_connected) simp_all
  ultimately have "uip_input httpd_appcall s = Inr (drop_packet ((upd_conn r (\<lambda>c. c\<lparr>nrtx := 0\<rparr>)
      (u\<lparr>httpd_socket_conn_open := 1, httpd_socket_conn_pending := 1, httpd_socket_conn_closed := 0\<rparr>))\<lparr>uip_appdata := uip_sappdata u\<rparr>))"
    using in_ u(1,2) by (simp add: appsend_nothing)
  moreover have "bridge_conn u = bridge_conn s" "httpd_socket_rx_len u = httpd_socket_rx_len s"
    using bridge_conn_more [OF u(4)] more_fields(7) [OF u(4)] by simp_all
  ultimately show ?thesis
    using u(3) cu L idle by (simp add: drop_packet_def upd_conn_def bridge_conn_def net_config_def)
qed

end
