(* ===== verification/Wire.thy ===== *)
theory Wire
  imports Sys_Net_Props
begin

text \<open>
  The network interface as two queues: frames that wait to be read and frames handed over for sending. A locale states what a client
  of \<^verbatim>\<open>earth->net_send\<close> and \<^verbatim>\<open>earth->net_recv\<close> may rely on while no further frame arrives; the driver of \<^verbatim>\<open>earth/dev_net.c\<close> provides it.
\<close>

section \<open>The receive ring as a queue\<close>

text \<open>The descriptors from the driver's index on that the device has filled, and their frames.\<close>

definition rx_slots :: "'h e1000 \<Rightarrow> nat list" where
  "rx_slots s = takeWhile (\<lambda>i. rd_status (rx_ring s ! i) AND E1000_RXD_STAT_DD \<noteq> 0)
     (map (\<lambda>k. (rx_index s + k) mod RING_SIZE) [0..<RING_SIZE])"

definition rx_frame :: "'h e1000 \<Rightarrow> nat \<Rightarrow> bytes" where
  "rx_frame s i = take (unat (rd_length (rx_ring s ! i))) (rx_bufs s ! i)"

definition rx_pending :: "'h e1000 \<Rightarrow> bytes list" where
  "rx_pending s = map (rx_frame s) (rx_slots s)"

text \<open>Every filled descriptor holds a whole frame that fits its buffer.\<close>

definition rx_inv :: "'h e1000 \<Rightarrow> bool" where
  "rx_inv s \<longleftrightarrow> list_all (\<lambda>d. rd_status d AND E1000_RXD_STAT_DD \<noteq> 0 \<longrightarrow>
     rd_status d AND E1000_RXD_STAT_EOP \<noteq> 0 \<and> unat (rd_length d) \<le> PKT_BUF_SIZE) (rx_ring s)"

lemma takeWhile_snoc: "\<not> P x \<Longrightarrow> takeWhile P (xs @ [x]) = takeWhile P xs"
  by (induction xs) simp_all

lemma ring_indices:
  assumes "i < 16"
  shows "map (\<lambda>k. (i + k) mod 16) [0..<16] = i # map (\<lambda>k. ((i + 1) mod 16 + k) mod 16) [0..<15]"
    and "map (\<lambda>k. ((i + 1) mod 16 + k) mod 16) [0..<16] = map (\<lambda>k. ((i + 1) mod 16 + k) mod 16) [0..<15] @ [i]"
    and "i \<notin> set (map (\<lambda>k. ((i + 1) mod 16 + k) mod 16) [0..<15])"
proof -
  have eq: "((i + 1) mod 16 + k) mod 16 = (i + Suc k) mod 16" for k
    by (simp add: mod_simps)
  have "[0..<16] = 0 # map Suc [0..<15]" by (simp add: upt_rec map_Suc_upt)
  then show "map (\<lambda>k. (i + k) mod 16) [0..<16] = i # map (\<lambda>k. ((i + 1) mod 16 + k) mod 16) [0..<15]"
    unfolding eq using assms by (simp add: comp_def del: upt_Suc)
  have "[0..<16] = [0..<15] @ [15]" by (simp add: upt_rec)
  then show "map (\<lambda>k. ((i + 1) mod 16 + k) mod 16) [0..<16] = map (\<lambda>k. ((i + 1) mod 16 + k) mod 16) [0..<15] @ [i]"
    unfolding eq using assms by simp
  show "i \<notin> set (map (\<lambda>k. ((i + 1) mod 16 + k) mod 16) [0..<15])"
    unfolding eq using assms by (auto simp: mod_if split: if_splits)
qed

text \<open>Taking the first frame: the slot is given back and the index moves on.\<close>

definition rx_take :: "'h e1000 \<Rightarrow> 'h e1000" where
  "rx_take t = t\<lparr>rx_ring := (rx_ring t)[rx_index t := (rx_ring t ! rx_index t)
        \<lparr>rd_length := 0, rd_csum := 0, rd_status := 0, rd_errors := 0, rd_special := 0\<rparr>],
      regs := (regs t)(E1000_RDT := of_nat (rx_index t)), rx_index := (rx_index t + 1) mod RING_SIZE\<rparr>"

lemma rx_pending_take:
  assumes wf: "e1000_wf t" and p: "rx_pending t = p # ps"
  shows "rd_status (rx_ring t ! rx_index t) AND E1000_RXD_STAT_DD \<noteq> 0" and "p = rx_frame t (rx_index t)"
    and "rx_pending (rx_take t) = ps"
proof -
  let ?i = "rx_index t" and ?xs = "map (\<lambda>k. ((rx_index t + 1) mod 16 + k) mod 16) [0..<15]"
  have i: "?i < 16" "length (rx_ring t) = 16" using wf by (simp_all add: e1000_wf_def)
  let ?P = "\<lambda>i. rd_status (rx_ring t ! i) AND E1000_RXD_STAT_DD \<noteq> 0"
  have slots: "rx_slots t = (if ?P ?i then ?i # takeWhile ?P ?xs else [])"
    by (simp add: rx_slots_def ring_indices(1) [OF i(1)] del: upt_Suc)
  show dd: "?P ?i" using p by (auto simp: rx_pending_def slots split: if_splits)
  then show "p = rx_frame t ?i" using p by (simp add: rx_pending_def slots)
  have ps: "ps = map (rx_frame t) (takeWhile ?P ?xs)" using p dd by (simp add: rx_pending_def slots)
  let ?t = "rx_take t"
  have idx: "rx_index ?t = (?i + 1) mod 16" by (simp add: rx_take_def)
  have ring: "rx_ring ?t ! j = rx_ring t ! j" "rx_frame ?t j = rx_frame t j" if "j \<in> set ?xs" for j
  proof -
    have "j \<noteq> ?i" using that ring_indices(3) [OF i(1)] by metis
    then show "rx_ring ?t ! j = rx_ring t ! j" "rx_frame ?t j = rx_frame t j" by (simp_all add: rx_take_def rx_frame_def)
  qed
  have "\<not> (rd_status (rx_ring ?t ! ?i) AND E1000_RXD_STAT_DD \<noteq> 0)" using i by (simp add: rx_take_def)
  then have "rx_slots ?t = takeWhile (\<lambda>i. rd_status (rx_ring ?t ! i) AND E1000_RXD_STAT_DD \<noteq> 0) ?xs"
    unfolding rx_slots_def idx ring_indices(2) [OF i(1)]
    by (rule takeWhile_snoc)
  also have "\<dots> = takeWhile ?P ?xs"
    by (intro takeWhile_cong) (simp_all add: ring(1) del: upt_Suc set_map)
  finally show "rx_pending ?t = ps"
    unfolding ps rx_pending_def using ring(2) by (auto dest: set_takeWhileD simp del: upt_Suc set_map)
qed

lemma rx_pending_none: "e1000_wf t \<Longrightarrow> rx_pending t = [] \<Longrightarrow> rd_status (rx_ring t ! rx_index t) AND E1000_RXD_STAT_DD = 0"
  using ring_indices(1) [of "rx_index t"] by (auto simp: rx_pending_def rx_slots_def e1000_wf_def split: if_splits)

lemma rx_inv_take:
  assumes "rx_inv t"
  shows "rx_inv (rx_take t)"
  unfolding rx_inv_def list_all_length
proof (intro allI impI)
  fix n
  assume n: "n < length (rx_ring (rx_take t))" "rd_status (rx_ring (rx_take t) ! n) AND E1000_RXD_STAT_DD \<noteq> 0"
  then have "n \<noteq> rx_index t" by (auto simp: rx_take_def)
  then show "rd_status (rx_ring (rx_take t) ! n) AND E1000_RXD_STAT_EOP \<noteq> 0 \<and> unat (rd_length (rx_ring (rx_take t) ! n)) \<le> PKT_BUF_SIZE"
    using assms n by (simp add: rx_take_def rx_inv_def list_all_length)
qed

lemma net_recv_empty:
  assumes "e1000_wf s" and "rx_pending (dev_step dev s) = []"
  shows "net_recv dev buf s = Inr (0, buf, dev_step dev s)"
  using rx_pending_none [OF dev_step_wf [OF assms(1)] assms(2)] by (simp add: net_recv_def Let_def)

lemma net_recv_take:
  assumes wf: "e1000_wf s" and inv: "rx_inv (dev_step dev s)" and p: "rx_pending (dev_step dev s) = p # ps"
  shows "net_recv dev buf s =
    (if length buf < length p then Inl OutOfBounds
     else Inr (int (length p), p @ drop (length p) buf, rx_take (dev_step dev s)))"
proof -
  let ?t = "dev_step dev s"
  have t: "e1000_wf ?t" using wf by (rule dev_step_wf)
  note h = rx_pending_take [OF t p]
  let ?desc = "rx_ring ?t ! rx_index ?t"
  have i: "rx_index ?t < length (rx_ring ?t)" "length (rx_bufs ?t ! rx_index ?t) = 2048"
    using t by (simp_all add: e1000_wf_def list_all_length)
  have eop: "rd_status ?desc AND E1000_RXD_STAT_EOP \<noteq> 0" "unat (rd_length ?desc) \<le> 2048"
    using inv h(1) i(1) by (auto simp: rx_inv_def list_all_length)
  then have n: "length p = unat (rd_length ?desc)" "take (length p) (rx_bufs ?t ! rx_index ?t) = p"
    using h(2) i(2) by (simp_all add: rx_frame_def)
  from net_recv_eq [OF wf, of dev buf, unfolded Let_def, folded rx_take_def]
  show ?thesis using h(1) eop n by (simp flip: n(1))
qed

lemma rx_take_wf: "e1000_wf t \<Longrightarrow> e1000_wf (rx_take t)"
  by (simp add: rx_take_def e1000_wf_def)

section \<open>What a client relies on\<close>

text \<open>A window on a history: the oldest element leaves when a new one is added.\<close>

definition shift_in :: "'a list \<Rightarrow> 'a \<Rightarrow> 'a list" where
  "shift_in xs x = tl (xs @ [x])"

text \<open>
  A client sees the frames that wait to be read, a record of the frames last handed over, and the number of frames it may still hand over.
\<close>

locale wire = frame_device send recv inv
  for send :: "int \<Rightarrow> bytes \<Rightarrow> 'd \<Rightarrow> 'd res" and recv :: "bytes \<Rightarrow> 'd \<Rightarrow> (int \<times> bytes \<times> 'd) res" and inv :: "'d \<Rightarrow> bool" +
  fixes rxq sent :: "'d \<Rightarrow> bytes list" and room :: "'d \<Rightarrow> nat"
  assumes recv_none: "inv d \<Longrightarrow> rxq d = [] \<Longrightarrow>
      \<exists>d'. recv buf d = Inr (0, buf, d') \<and> rxq d' = [] \<and> sent d' = sent d \<and> room d \<le> room d'"
    and recv_next: "inv d \<Longrightarrow> rxq d = p # ps \<Longrightarrow> length p \<le> length buf \<Longrightarrow>
      \<exists>d'. recv buf d = Inr (int (length p), p @ drop (length p) buf, d') \<and> rxq d' = ps \<and> sent d' = sent d \<and> room d \<le> room d'"
    and send_next: "inv d \<Longrightarrow> 0 < room d \<Longrightarrow> 0 < len \<Longrightarrow> len \<le> 2048 \<Longrightarrow> nat len \<le> length p \<Longrightarrow>
      \<exists>d'. send len p d = Inr d' \<and> rxq d' = rxq d \<and> sent d' = shift_in (sent d) (take (nat len) p) \<and> room d \<le> Suc (room d')"

text \<open>
  The frames in the transmit buffers, the last handed over last. Those still waiting are at its end.
\<close>

definition tx_sent :: "'h e1000 \<Rightarrow> bytes list" where
  "tx_sent s = map (\<lambda>k. tx_frame s ((tx_index s + k) mod RING_SIZE)) [0..<RING_SIZE]"

lemma length_tx_sent: "length (tx_sent s) = RING_SIZE"
  by (simp add: tx_sent_def del: upt_Suc)

lemma tx_sent_two: "shift_in (shift_in (tx_sent s) f) g = drop 2 (tx_sent s) @ [f, g]"
  using length_tx_sent [of s] by (cases "tx_sent s" rule: list.exhaust; cases "tl (tx_sent s)") (auto simp: shift_in_def)

lemma tx_pending_sent:
  assumes "tx_inv s"
  shows "tx_pending s = drop (RING_SIZE - tx_count s) (tx_sent s)"
proof -
  note t = tx_tail [OF assms]
  have "(tx_index s + (16 - tx_count s + k)) mod 16 = (tx_head s + k) mod 16" for k
  proof -
    have "(tx_index s + (16 - tx_count s + k)) mod 16 = (tx_head s + tx_count s + (16 - tx_count s + k)) mod 16"
      unfolding t(1) [symmetric] by (rule mod_add_left_eq)
    also have "tx_head s + tx_count s + (16 - tx_count s + k) = tx_head s + k + 16" using t(2) by simp
    finally show ?thesis by simp
  qed
  then show ?thesis using t(2) by (auto simp: tx_pending_def tx_sent_def intro!: nth_equalityI simp del: upt_Suc)
qed

lemma tx_sent_step: "e1000_wf s \<Longrightarrow> tx_sent (dev_step dev s) = tx_sent s"
  by (simp add: tx_sent_def tx_frame_def e1000_wf_def del: upt_Suc)

lemma wait_sent:
  assumes "tx_wait dev n s = Inr t" and "e1000_wf s"
  shows "tx_sent t = tx_sent s \<and> e1000_wf t"
  using assms
proof (induction n arbitrary: s)
  case (Suc n)
  then show ?case
    using tx_sent_step [OF Suc.prems(2), of dev] dev_step_wf [OF Suc.prems(2), of dev] by (auto simp: Let_def split: if_splits)
qed simp

lemma post_sent:
  assumes p: "tx_post len p s = Inr t" and wf: "e1000_wf s" and len: "0 < len" "len \<le> 2048" "nat len \<le> length p"
  shows "tx_sent t = shift_in (tx_sent s) (take (nat len) p)"
proof -
  let ?i = "tx_index s"
  have i: "?i < 16" using wf by (simp add: e1000_wf_def)
  have t: "tx_index t = (?i + 1) mod 16" and new: "tx_frame t ?i = take (nat len) p" and old: "j \<noteq> ?i \<Longrightarrow> tx_frame t j = tx_frame s j" for j
    using tx_post_frames [OF wf len p] by simp_all
  have "j \<in> set (map (\<lambda>k. ((?i + 1) mod 16 + k) mod 16) [0..<15]) \<Longrightarrow> tx_frame t j = tx_frame s j" for j
    using old ring_indices(3) [OF i] by metis
  then have "map (tx_frame t) (map (\<lambda>k. ((?i + 1) mod 16 + k) mod 16) [0..<15]) = map (tx_frame s) (map (\<lambda>k. ((?i + 1) mod 16 + k) mod 16) [0..<15])"
    by (rule map_cong [OF refl])
  moreover have sent: "tx_sent x = map (tx_frame x) (map (\<lambda>k. (tx_index x + k) mod 16) [0..<16])" for x :: "'a e1000"
    by (simp add: tx_sent_def comp_def del: upt_Suc)
  ultimately show ?thesis unfolding sent t ring_indices(1,2) [OF i] by (simp add: shift_in_def new del: upt_Suc)
qed

text \<open>
  The driver keeps these promises with a device that behaves as its manual says, completes every descriptor in time, and receives nothing
  more in the meantime.
\<close>

definition nic_completes :: "'h nic \<Rightarrow> bool" where
  "nic_completes dev \<longleftrightarrow> (\<forall>s. tx_inv s \<longrightarrow>
     (\<exists>k < 2 ^ 24. td_status (tx_ring ((dev_step dev ^^ Suc k) s) ! tx_index s) AND E1000_TXD_STAT_DD \<noteq> 0))"

definition nic_rx_quiet :: "'h nic \<Rightarrow> bool" where
  "nic_rx_quiet dev \<longleftrightarrow> (\<forall>s. e1000_wf s \<longrightarrow> rx_ring (dev_step dev s) = rx_ring s \<and> rx_bufs (dev_step dev s) = rx_bufs s)"

locale quiet_nic =
  fixes dev :: "'h nic"
  assumes tx_ok: "nic_tx_ok dev" and completes: "nic_completes dev" and rx_quiet: "nic_rx_quiet dev"
begin

abbreviation nic_inv :: "'h e1000 \<Rightarrow> bool" where
  "nic_inv s \<equiv> tx_inv s \<and> rx_inv s"

lemma rx_step:
  assumes "e1000_wf s"
  shows "rx_pending (dev_step dev s) = rx_pending s" and "rx_inv (dev_step dev s) = rx_inv s"
  using rx_quiet assms by (simp_all add: nic_rx_quiet_def rx_pending_def rx_slots_def rx_frame_def [abs_def] rx_inv_def)

lemma rx_same:
  assumes "rx_ring t = rx_ring s" and "rx_bufs t = rx_bufs s" and "rx_index t = rx_index s"
  shows "rx_pending t = rx_pending s" and "rx_inv t = rx_inv s"
  using assms by (simp_all add: rx_pending_def rx_slots_def rx_frame_def [abs_def] rx_inv_def)

lemma tx_same:
  assumes "tx_ring t = tx_ring s" and "tx_bufs t = tx_bufs s" and "tx_index t = tx_index s"
    and "regs t E1000_TDT = regs s E1000_TDT" and "regs t E1000_TDH = regs s E1000_TDH"
  shows "tx_sent t = tx_sent s" and "tx_count t = tx_count s" and "e1000_wf t \<Longrightarrow> tx_inv s \<Longrightarrow> tx_inv t"
  using assms by (simp_all add: tx_sent_def tx_count_def tx_head_def tx_frame_def tx_inv_def)

lemma wait_rx:
  assumes "tx_wait dev n s = Inr t" and "e1000_wf s"
  shows "rx_pending t = rx_pending s \<and> rx_inv t = rx_inv s"
  using assms
proof (induction n arbitrary: s)
  case (Suc n)
  then show ?case
    using rx_step [OF Suc.prems(2)] dev_step_wf [OF Suc.prems(2), of dev] by (auto simp: Let_def split: if_splits)
qed simp

lemma post_rx:
  assumes "tx_post len p s = Inr t"
  shows "rx_pending t = rx_pending s \<and> rx_inv t = rx_inv s"
proof -
  have "rx_ring t = rx_ring s" "rx_bufs t = rx_bufs s" "rx_index t = rx_index s"
    using assms by (auto simp: tx_post_def Let_def e1000_write_def elim!: res_bind_InrE)
  then show ?thesis using rx_same by blast
qed

lemma recv_step:
  assumes "nic_inv d"
  shows "nic_inv (dev_step dev d) \<and> e1000_wf (dev_step dev d) \<and> rx_pending (dev_step dev d) = rx_pending d \<and>
    tx_sent (dev_step dev d) = tx_sent d \<and> tx_count (dev_step dev d) \<le> tx_count d"
  using assms tx_ok tx_pending_dev_step [OF tx_ok, of d] rx_step [of d] tx_sent_step [of d] by (auto simp: tx_inv_def nic_tx_ok_def)

lemma recv_empty:
  assumes "nic_inv d" and "rx_pending d = []"
  shows "\<exists>d'. net_recv dev buf d = Inr (0, buf, d') \<and> nic_inv d' \<and> rx_pending d' = [] \<and> tx_sent d' = tx_sent d \<and>
    tx_count d' \<le> tx_count d"
  using recv_step [OF assms(1)] assms net_recv_empty [of d dev buf] by (auto simp: tx_inv_def)

lemma recv_frame:
  assumes inv: "nic_inv d" and p: "rx_pending d = p # ps" and buf: "length p \<le> length buf"
  shows "\<exists>d'. net_recv dev buf d = Inr (int (length p), p @ drop (length p) buf, d') \<and> nic_inv d' \<and> rx_pending d' = ps \<and>
    tx_sent d' = tx_sent d \<and> tx_count d' \<le> tx_count d"
proof -
  let ?t = "dev_step dev d"
  have t: "nic_inv ?t" "e1000_wf ?t" "rx_pending ?t = p # ps" "tx_sent ?t = tx_sent d" "tx_count ?t \<le> tx_count d"
    using recv_step [OF inv] p by auto
  have "e1000_wf d" "rx_inv ?t" using inv t(1) by (simp_all add: tx_inv_def)
  from net_recv_take [OF this t(3), of buf] buf
  have "net_recv dev buf d = Inr (int (length p), p @ drop (length p) buf, rx_take ?t)" by simp
  moreover have "tx_ring (rx_take ?t) = tx_ring ?t" "tx_bufs (rx_take ?t) = tx_bufs ?t" "tx_index (rx_take ?t) = tx_index ?t"
    "regs (rx_take ?t) E1000_TDT = regs ?t E1000_TDT" "regs (rx_take ?t) E1000_TDH = regs ?t E1000_TDH"
    by (simp_all add: rx_take_def)
  note tx_same [OF this]
  ultimately show ?thesis using t(1,4,5) rx_pending_take(3) [OF t(2,3)] rx_inv_take rx_take_wf [OF t(2)] by metis
qed

lemma send_frame:
  assumes inv: "nic_inv d" and room: "tx_count d < 15" and len: "0 < len" "len \<le> 2048" "nat len \<le> length p"
  shows "\<exists>d'. net_send dev len p d = Inr d' \<and> nic_inv d' \<and> rx_pending d' = rx_pending d \<and>
    tx_sent d' = shift_in (tx_sent d) (take (nat len) p) \<and> tx_count d' \<le> Suc (tx_count d)"
proof -
  have fin: "\<exists>k < 2 ^ 24. td_status (tx_ring ((dev_step dev ^^ Suc k) d) ! tx_index d) AND E1000_TXD_STAT_DD \<noteq> 0"
    using completes inv by (simp add: nic_completes_def)
  obtain d' k where d': "net_send dev len p d = Inr d'" "tx_inv d'" "tx_pending d' = drop k (tx_pending d) @ [take (nat len) p]"
    using net_send_completes [OF _ tx_ok room len fin] inv by blast
  obtain t where t: "tx_wait dev E1000_TX_WAIT_SPINS d = Inr t" "tx_post len p t = Inr d'"
    using d'(1) by (auto simp: net_send_def split: if_splits elim!: res_bind_InrE)
  have "rx_pending d' = rx_pending d" "rx_inv d' = rx_inv d"
    using wait_rx [OF t(1)] post_rx [OF t(2)] inv by (simp_all add: tx_inv_def)
  moreover have "tx_sent d' = shift_in (tx_sent d) (take (nat len) p)"
    using wait_sent [OF t(1)] post_sent [OF t(2)] inv len by (simp add: tx_inv_def)
  moreover have "tx_count d' \<le> Suc (tx_count d)"
    using arg_cong [OF d'(3), of length] by (simp add: tx_pending_def)
  ultimately show ?thesis using d' inv by metis
qed

end

lemma tx_inv_post: "tx_post len p s = Inr t \<Longrightarrow> tx_inv s \<Longrightarrow> tx_inv t"
  using tx_post_wf [of len p s t]
  by (auto simp: tx_inv_def tx_post_def Let_def e1000_write_def tx_head_def elim!: res_bind_InrE)

context quiet_nic
begin

lemma send_keeps:
  assumes "nic_inv d" and "net_send dev len p d = Inr d'"
  shows "nic_inv d'"
proof -
  obtain t where t: "tx_wait dev E1000_TX_WAIT_SPINS d = Inr t" "tx_post len p t = Inr d'"
    using assms(2) by (auto simp: net_send_def split: if_splits elim!: res_bind_InrE)
  have "tx_inv t" using tx_wait_pending [OF t(1) tx_ok] assms(1) by simp
  then show ?thesis
    using tx_inv_post [OF t(2)] wait_rx [OF t(1)] post_rx [OF t(2)] assms(1) by (simp add: tx_inv_def)
qed

lemma recv_keeps:
  assumes "nic_inv d" and "net_recv dev buf d = Inr (n, buf', d')"
  shows "nic_inv d'"
proof (cases "rx_pending d")
  case Nil
  then show ?thesis using recv_empty [OF assms(1), of buf] assms(2) by auto
next
  case (Cons p ps)
  have "rx_pending (dev_step dev d) = p # ps" "rx_inv (dev_step dev d)" "e1000_wf d"
    using recv_step [OF assms(1)] assms(1) Cons by (auto simp: tx_inv_def)
  then have "length p \<le> length buf"
    using net_recv_take [of d dev p ps buf] assms(2) by (simp split: if_splits)
  then show ?thesis using recv_frame [OF assms(1) Cons, of buf] assms(2) by auto
qed

end

sublocale quiet_nic \<subseteq> wire "net_send dev" "net_recv dev" "\<lambda>s. tx_inv s \<and> rx_inv s" rx_pending tx_sent "\<lambda>s. 15 - tx_count s"
proof (unfold_locales, goal_cases)
  case (1 d len p d')
  then show ?case using send_keeps by blast
next
  case (2 len p d d')
  then show ?case by (rule net_send_bounds)
next
  case (3 d buf n buf' d')
  then show ?case using recv_keeps by blast
next
  case (4 d buf n buf' d')
  then show ?case using net_recv_wf [of d dev buf n buf' d'] by (simp add: tx_inv_def)
next
  case (5 d buf)
  then show ?case using recv_empty [of d buf] diff_le_mono2 by metis
next
  case (6 d p ps buf)
  then show ?case using recv_frame [of d p ps buf] diff_le_mono2 by metis
next
  case (7 d len p)
  then obtain d' where "net_send dev len p d = Inr d'" "rx_pending d' = rx_pending d"
    "tx_sent d' = shift_in (tx_sent d) (take (nat len) p)" "tx_count d' \<le> Suc (tx_count d)"
    using send_frame [of d len p] by auto
  then show ?case by (intro exI [of _ d']) auto
qed

lemma instant_dev_quiet: "nic_completes instant_dev" "nic_rx_quiet instant_dev"
proof -
  show "nic_rx_quiet instant_dev"
    by (auto simp: nic_rx_quiet_def e1000_wf_def dev_step_def instant_dev_def dma_rx_desc_def dma_rx_buf_def intro!: nth_equalityI)
  have "td_status (tx_ring ((dev_step instant_dev ^^ Suc 0) s) ! tx_index s) AND E1000_TXD_STAT_DD \<noteq> 0" if "tx_inv s" for s
    using that by (simp add: tx_inv_def e1000_wf_def dev_step_def instant_dev_def dma_tx_desc_def)
  then show "nic_completes instant_dev" unfolding nic_completes_def by (auto intro!: exI [of _ 0])
qed

interpretation instant: quiet_nic instant_dev
  by unfold_locales (rule instant_dev_ok instant_dev_quiet)+

section \<open>Receiving while frames arrive\<close>

text \<open>
  The receive ring between the driver and a device that may go on filling it: the tail register names the descriptor before the driver's
  index, so that every other one is the device's to fill; the filled ones start at the driver's index, each with a whole frame, and the head
  register names the first one after them.
\<close>

definition rx_queue_inv :: "'h e1000 \<Rightarrow> bool" where
  "rx_queue_inv s \<longleftrightarrow> e1000_wf s \<and> rx_inv s \<and> [] \<notin> set (rx_pending s) \<and> length (rx_pending s) < RING_SIZE \<and>
     regs s E1000_RDT = of_nat ((rx_index s + (RING_SIZE - 1)) mod RING_SIZE) \<and>
     regs s E1000_RDH = of_nat ((rx_index s + length (rx_pending s)) mod RING_SIZE) \<and>
     (\<forall>k \<in> {length (rx_pending s)..<RING_SIZE}. rd_status (rx_ring s ! ((rx_index s + k) mod RING_SIZE)) AND E1000_RXD_STAT_DD = 0)"

text \<open>
  What the manual of the device says of its receive side: it fills the descriptors between head and tail in order, with a frame each, and
  advances the head over them. Filled descriptors are not touched again.
\<close>

definition nic_rx_ok :: "'h nic \<Rightarrow> bool" where
  "nic_rx_ok dev \<longleftrightarrow> (\<forall>s. rx_queue_inv s \<longrightarrow>
     rx_queue_inv (dev_step dev s) \<and> (\<exists>new. rx_pending (dev_step dev s) = rx_pending s @ new))"

text \<open>
  The frames that a step of the device brings, and a caller that looks for a frame \<open>n\<close> times with the same buffer: the results, with what had
  arrived before each.
\<close>

definition rx_arrivals :: "'h nic \<Rightarrow> 'h e1000 \<Rightarrow> bytes list" where
  "rx_arrivals dev s = drop (length (rx_pending s)) (rx_pending (dev_step dev s))"

fun net_recvs :: "'h nic \<Rightarrow> nat \<Rightarrow> bytes \<Rightarrow> 'h e1000 \<Rightarrow> ((int \<times> bytes) list \<times> bytes list list \<times> 'h e1000) res" where
  "net_recvs dev 0 buf s = Inr ([], [], s)"
| "net_recvs dev (Suc n) buf s =
     res_bind (net_recv dev buf s) (\<lambda>(len, b, t).
     res_bind (net_recvs dev n buf t) (\<lambda>(rs, arrived, u). Inr ((len, b) # rs, rx_arrivals dev s # arrived, u)))"

text \<open>The queue it should see: before each look something is appended, and the look takes the first entry if there is one.\<close>

fun queue_looks :: "'a list \<Rightarrow> 'a list list \<Rightarrow> 'a option list \<times> 'a list" where
  "queue_looks q [] = ([], q)"
| "queue_looks q (new # arrived) =
     (case q @ new of
        [] \<Rightarrow> apfst (Cons None) (queue_looks [] arrived)
      | p # ps \<Rightarrow> apfst (Cons (Some p)) (queue_looks ps arrived))"

lemma queue_looks_all: "[p. Some p \<leftarrow> fst (queue_looks q arrived)] @ snd (queue_looks q arrived) = q @ concat arrived"
proof (induction q arrived rule: queue_looks.induct)
  case (2 q new arrived)
  then show ?case by (cases "q @ new") (auto simp flip: append_assoc)
qed simp

text \<open>What a call shows its caller when it hands over a frame, and when it finds none.\<close>

fun handed_over :: "bytes \<Rightarrow> bytes option \<Rightarrow> int \<times> bytes" where
  "handed_over buf None = (0, buf)"
| "handed_over buf (Some p) = (int (length p), p @ drop (length p) buf)"

lemma rx_arrivals_step:
  assumes "nic_rx_ok dev" and "rx_queue_inv s"
  shows "rx_queue_inv (dev_step dev s)" and "rx_pending (dev_step dev s) = rx_pending s @ rx_arrivals dev s"
  using assms by (auto simp: nic_rx_ok_def rx_arrivals_def)

lemma rx_queue_take:
  assumes inv: "rx_queue_inv t" and p: "rx_pending t = p # ps"
  shows "rx_queue_inv (rx_take t)" and "rx_pending (rx_take t) = ps"
proof -
  have wf: "e1000_wf t" using inv by (simp add: rx_queue_inv_def)
  show ps: "rx_pending (rx_take t) = ps" by (rule rx_pending_take(3) [OF wf p])
  let ?i = "rx_index t" and ?n = "length ps"
  have i: "?i < 16" "length (rx_ring t) = 16" using wf by (simp_all add: e1000_wf_def)
  have idx: "rx_index (rx_take t) = (?i + 1) mod 16" by (simp add: rx_take_def)
  have "regs (rx_take t) E1000_RDT = of_nat ?i" by (simp add: rx_take_def)
  moreover have "((?i + 1) mod 16 + 15) mod 16 = ?i" using i by (simp add: mod_simps)
  moreover have "regs (rx_take t) E1000_RDH = of_nat (((?i + 1) mod 16 + ?n) mod 16)"
    using inv p by (simp add: rx_take_def rx_queue_inv_def mod_simps)
  moreover have "rd_status (rx_ring (rx_take t) ! (((?i + 1) mod 16 + k) mod 16)) AND E1000_RXD_STAT_DD = 0" if k: "k \<in> {?n..<16}" for k
  proof (cases "k = 15")
    case True
    then show ?thesis using i \<open>((?i + 1) mod 16 + 15) mod 16 = ?i\<close> by (simp add: rx_take_def)
  next
    case False
    have eq: "((?i + 1) mod 16 + k) mod 16 = (?i + Suc k) mod 16" by (simp add: mod_simps)
    have "(?i + Suc k) mod 16 \<noteq> ?i" using False k i by (auto simp: mod_if split: if_splits)
    moreover have "\<forall>k \<in> {length (rx_pending t)..<16}. rd_status (rx_ring t ! ((?i + k) mod 16)) AND E1000_RXD_STAT_DD = 0"
      using inv by (simp add: rx_queue_inv_def)
    from bspec [OF this, of "Suc k"] have "rd_status (rx_ring t ! ((?i + Suc k) mod 16)) AND E1000_RXD_STAT_DD = 0"
      using p k False by simp
    ultimately show ?thesis unfolding eq by (simp add: rx_take_def)
  qed
  moreover have "rx_inv (rx_take t)" using inv by (intro rx_inv_take) (simp add: rx_queue_inv_def)
  ultimately show "rx_queue_inv (rx_take t)"
    using inv p rx_take_wf [OF wf] unfolding rx_queue_inv_def ps idx by simp
qed

text \<open>One call against the queue of the frames there were and those that have come.\<close>

lemma net_recv_queue:
  assumes dev: "nic_rx_ok dev" and inv: "rx_queue_inv s"
  shows "rx_pending s @ rx_arrivals dev s = [] \<Longrightarrow>
      \<exists>t. net_recv dev buf s = Inr (0, buf, t) \<and> rx_queue_inv t \<and> rx_pending t = []"
    and "rx_pending s @ rx_arrivals dev s = p # ps \<Longrightarrow> length p \<le> length buf \<Longrightarrow>
      \<exists>t. net_recv dev buf s = Inr (int (length p), p @ drop (length p) buf, t) \<and> rx_queue_inv t \<and> rx_pending t = ps"
    and "rx_pending s @ rx_arrivals dev s = p # ps \<Longrightarrow> length buf < length p \<Longrightarrow> net_recv dev buf s = Inl OutOfBounds"
proof -
  note t = rx_arrivals_step [OF dev inv]
  have wf: "e1000_wf s" "rx_inv (dev_step dev s)" using inv t(1) by (simp_all add: rx_queue_inv_def)
  show "\<exists>t. net_recv dev buf s = Inr (0, buf, t) \<and> rx_queue_inv t \<and> rx_pending t = []" if "rx_pending s @ rx_arrivals dev s = []"
    using net_recv_empty [OF wf(1)] t that by simp
  show "\<exists>t. net_recv dev buf s = Inr (int (length p), p @ drop (length p) buf, t) \<and> rx_queue_inv t \<and> rx_pending t = ps"
    if "rx_pending s @ rx_arrivals dev s = p # ps" "length p \<le> length buf"
    using net_recv_take [OF wf] rx_queue_take [OF t(1)] t(2) that by simp
  show "net_recv dev buf s = Inl OutOfBounds" if "rx_pending s @ rx_arrivals dev s = p # ps" "length buf < length p"
    using net_recv_take [OF wf] t(2) that by simp
qed

lemma rx_frame_length:
  assumes "rx_queue_inv s" and "p \<in> set (rx_pending s)"
  shows "length p \<le> PKT_BUF_SIZE" and "p \<noteq> []"
proof -
  have b: "length (rx_bufs s ! i) = 2048" if "i \<in> set (rx_slots s)" for i
    using that assms(1) by (auto simp: rx_queue_inv_def e1000_wf_def list_all_length rx_slots_def dest!: set_takeWhileD simp del: upt_Suc)
  then show "length p \<le> PKT_BUF_SIZE" using assms(2) by (auto simp: rx_pending_def rx_frame_def)
  show "p \<noteq> []" using assms by (auto simp: rx_queue_inv_def)
qed

lemma net_recvs_queue:
  assumes dev: "nic_rx_ok dev" and inv: "rx_queue_inv s" and buf: "PKT_BUF_SIZE \<le> length buf"
  shows "\<exists>arrived t. net_recvs dev n buf s = Inr (map (handed_over buf) (fst (queue_looks (rx_pending s) arrived)), arrived, t) \<and>
    length arrived = n \<and> rx_queue_inv t \<and> rx_pending t = snd (queue_looks (rx_pending s) arrived)"
  using inv
proof (induction n arbitrary: s)
  case (Suc n)
  show ?case
  proof (cases "rx_pending s @ rx_arrivals dev s")
    case Nil
    then obtain t where "net_recv dev buf s = Inr (0, buf, t)" "rx_queue_inv t" "rx_pending t = []"
      using net_recv_queue(1) [OF dev Suc.prems] by blast
    then show ?thesis using Suc.IH [of t] Nil by (fastforce intro: exI [of _ "rx_arrivals dev s # _"])
  next
    case (Cons p ps)
    have "p \<in> set (rx_pending (dev_step dev s))" using Cons rx_arrivals_step(2) [OF dev Suc.prems] by simp
    then have "length p \<le> length buf" using rx_frame_length(1) [OF rx_arrivals_step(1) [OF dev Suc.prems]] buf by force
    then obtain t where "net_recv dev buf s = Inr (int (length p), p @ drop (length p) buf, t)" "rx_queue_inv t" "rx_pending t = ps"
      using net_recv_queue(2) [OF dev Suc.prems Cons] by blast
    then show ?thesis using Suc.IH [of t] Cons by (fastforce intro: exI [of _ "rx_arrivals dev s # _"])
  qed
qed simp

text \<open>
  C20: the receive ring is a first-in first-out queue. With a device that fills the descriptors as its manual says, whenever it does so, a
  caller that looks for a frame any number of times with a buffer of 2048 bytes sees exactly a queue to which the arriving frames are
  appended: a look takes the first frame, copies it to the start of the buffer, leaves the rest of that alone and returns the length, or
  returns 0 and leaves the buffer alone if there is none. So every frame is handed over exactly once, whole and in the order of arrival: the
  frames handed over, followed by those still in the ring, are those that were in the ring at the start followed by those that arrived. After
  every look the descriptors that were read are the device's again. A next frame longer than the caller's buffer is written past its end.
\<close>

theorem net_recv_fifo:
  assumes "nic_rx_ok dev" and "rx_queue_inv s" and "PKT_BUF_SIZE \<le> length buf"
  shows "(\<exists>ps arrived t. net_recvs dev n buf s = Inr (map (handed_over buf) ps, arrived, t) \<and> length arrived = n \<and>
      rx_queue_inv t \<and> (ps, rx_pending t) = queue_looks (rx_pending s) arrived \<and>
      [p. Some p \<leftarrow> ps] @ rx_pending t = rx_pending s @ concat arrived) \<and>
    (\<forall>p ps small. rx_pending s @ rx_arrivals dev s = p # ps \<and> length small < length p \<longrightarrow> net_recv dev small s = Inl OutOfBounds)"
proof -
  obtain arrived t where t: "net_recvs dev n buf s = Inr (map (handed_over buf) (fst (queue_looks (rx_pending s) arrived)), arrived, t)"
    "length arrived = n" "rx_queue_inv t" "rx_pending t = snd (queue_looks (rx_pending s) arrived)"
    using net_recvs_queue [OF assms] by blast
  moreover have "[p. Some p \<leftarrow> fst (queue_looks (rx_pending s) arrived)] @ rx_pending t = rx_pending s @ concat arrived"
    unfolding t(4) by (rule queue_looks_all)
  moreover have "(fst (queue_looks (rx_pending s) arrived), rx_pending t) = queue_looks (rx_pending s) arrived" using t(4) by simp
  ultimately show ?thesis using net_recv_queue(3) [OF assms(1,2)] by blast
qed

text \<open>A driver whose first two receive descriptors hold frames.\<close>

definition e1000_holding :: "bytes \<Rightarrow> bytes \<Rightarrow> unit e1000" where
  "e1000_holding a g = e1000_ready
     \<lparr>rx_ring := (rx_ring e1000_ready)[0 := (rx_ring e1000_ready ! 0)\<lparr>rd_status := 3, rd_length := of_nat (length a)\<rparr>,
        1 := (rx_ring e1000_ready ! 1)\<lparr>rd_status := 3, rd_length := of_nat (length g)\<rparr>],
      rx_bufs := (rx_bufs e1000_ready)[0 := a @ drop (length a) (rx_bufs e1000_ready ! 0), 1 := g @ drop (length g) (rx_bufs e1000_ready ! 1)],
      regs := (regs e1000_ready)(E1000_RDH := 2)\<rparr>"

lemma e1000_holding_frames:
  assumes "length a \<le> 422" and "length g \<le> 422"
  shows "tx_inv (e1000_holding a g)" and "rx_inv (e1000_holding a g)" and "rx_pending (e1000_holding a g) = [a, g]"
    and "tx_pending (e1000_holding a g) = []" and "a \<noteq> [] \<Longrightarrow> g \<noteq> [] \<Longrightarrow> rx_queue_inv (e1000_holding a g)"
proof -
  have b: "length (rx_bufs e1000_ready ! 0) = 2048" "length (rx_bufs e1000_ready ! 1) = 2048" "length (rx_ring e1000_ready) = 16"
      "length (rx_bufs e1000_ready) = 16"
    using e1000_ready_inv(3) by (simp_all add: e1000_wf_def list_all_length)
  have st: "rd_status (rx_ring e1000_ready ! i) = 0" if "i < 16" for i
    using that by (simp add: e1000_ready_def e1000_tx_init_def e1000_rx_init_def Let_def e1000_write_def)
  have l: "unat (of_nat (length a) :: u16) = length a" "unat (of_nat (length g) :: u16) = length g"
    using assms by (simp_all add: unat_of_nat)
  have wf: "e1000_wf (e1000_holding a g)"
    using e1000_ready_inv(3) b assms by (simp add: e1000_wf_def e1000_holding_def list_all_length nth_list_update)
  then show "tx_inv (e1000_holding a g)" "tx_pending (e1000_holding a g) = []"
    using e1000_ready_inv(1,2) by (simp_all add: tx_inv_def tx_pending_def tx_count_def tx_head_def) (simp_all add: e1000_holding_def)
  show "rx_inv (e1000_holding a g)"
    using st l assms b by (auto simp: rx_inv_def e1000_holding_def list_all_length nth_list_update)
  have i: "rx_index (e1000_holding a g) = 0" using e1000_ready_inv(6) by (simp add: e1000_holding_def)
  have "map (\<lambda>k. (0 + k) mod 16) [0..<16] = 0 # 1 # 2 # [3..<16]" by (simp add: upt_rec)
  then have "rx_slots (e1000_holding a g) = [0, 1]"
    unfolding rx_slots_def i using b st [of 2] by (simp add: e1000_holding_def del: upt_Suc)
  then show p: "rx_pending (e1000_holding a g) = [a, g]" using b l by (simp add: rx_pending_def rx_frame_def e1000_holding_def)
  have "regs (e1000_holding a g) E1000_RDT = 15" "regs (e1000_holding a g) E1000_RDH = 2"
    by (simp_all add: e1000_holding_def e1000_ready_def e1000_tx_init_def e1000_rx_init_def Let_def e1000_write_def)
  moreover have "rd_status (rx_ring (e1000_holding a g) ! k) = 0" if "2 \<le> k" "k < 16" for k
    using that st by (simp add: e1000_holding_def nth_list_update)
  ultimately show "a \<noteq> [] \<Longrightarrow> g \<noteq> [] \<Longrightarrow> rx_queue_inv (e1000_holding a g)"
    using wf \<open>rx_inv (e1000_holding a g)\<close> unfolding rx_queue_inv_def i p by simp
qed


lemma idle_dev_rx: "nic_rx_ok idle_dev"
  by (auto simp: nic_rx_ok_def rx_queue_inv_def dev_step_idle)

lemma net_recvs_idle: "net_recvs idle_dev n buf s = Inr (rs, arrived, t) \<Longrightarrow> e1000_wf s \<Longrightarrow> arrived = replicate n []"
  by (induction n arbitrary: s rs arrived) (auto simp: rx_arrivals_def dev_step_idle elim!: res_bind_InrE dest: net_recv_wf(1))

text \<open>A device with a list of frames still to come, which fills one descriptor a step while head and tail differ.\<close>

definition lan_dev :: "bytes list nic" where
  "lan_dev s = (case hw s of
      [] \<Rightarrow> (\<lparr>dma_tx = Map.empty, dma_rx = Map.empty, dma_regs = Map.empty\<rparr>, [])
    | p # ps \<Rightarrow>
        if regs s E1000_RDH = regs s E1000_RDT \<or> p = [] \<or> PKT_BUF_SIZE < length p
        then (\<lparr>dma_tx = Map.empty, dma_rx = Map.empty, dma_regs = Map.empty\<rparr>, p # ps)
        else (\<lparr>dma_tx = Map.empty, dma_rx = [unat (regs s E1000_RDH) \<mapsto> (of_nat (length p), 3, p)],
                dma_regs = [E1000_RDH \<mapsto> of_nat ((unat (regs s E1000_RDH) + 1) mod RING_SIZE)]\<rparr>, ps))"

lemma rx_slots_eq:
  assumes "c < 16" and "\<And>k. k < c \<Longrightarrow> rd_status (rx_ring s ! ((rx_index s + k) mod 16)) AND E1000_RXD_STAT_DD \<noteq> 0"
    and "rd_status (rx_ring s ! ((rx_index s + c) mod 16)) AND E1000_RXD_STAT_DD = 0"
  shows "rx_slots s = map (\<lambda>k. (rx_index s + k) mod 16) [0..<c]"
proof -
  have "[0..<16] = [0..<c] @ c # [Suc c..<16]" using assms(1) upt_add_eq_append [of 0 c "16 - c"] by (simp add: upt_conv_Cons)
  then show ?thesis
    using assms(2,3) unfolding rx_slots_def by (simp only: map_append list.map) (subst takeWhile_append2, auto)
qed

lemma rx_slot_filled:
  assumes "k < length (rx_pending s)"
  shows "rd_status (rx_ring s ! ((rx_index s + k) mod 16)) AND E1000_RXD_STAT_DD \<noteq> 0"
proof -
  let ?xs = "map (\<lambda>k. (rx_index s + k) mod 16) [0..<16]"
  have "k < length (rx_slots s)" using assms by (simp add: rx_pending_def)
  moreover from this have "rx_slots s ! k = ?xs ! k" unfolding rx_slots_def by (rule takeWhile_nth)
  moreover have "length (rx_slots s) \<le> 16" using length_takeWhile_le [of _ ?xs] by (simp add: rx_slots_def del: upt_Suc)
  ultimately have "(rx_index s + k) mod 16 \<in> set (rx_slots s)"
    using nth_mem [of k "rx_slots s"] by (simp del: upt_Suc)
  then show ?thesis unfolding rx_slots_def by (blast dest: set_takeWhileD)
qed

lemma rx_slots_inv:
  assumes "rx_queue_inv s"
  shows "rx_pending s = map (\<lambda>k. rx_frame s ((rx_index s + k) mod 16)) [0..<length (rx_pending s)]"
proof -
  have "rx_slots s = map (\<lambda>k. (rx_index s + k) mod 16) [0..<length (rx_pending s)]"
    using assms by (intro rx_slots_eq rx_slot_filled) (simp_all add: rx_queue_inv_def)
  then show ?thesis by (subst rx_pending_def) simp
qed

lemma lan_dev_step:
  assumes "e1000_wf s" and "hw s = p # ps" and "regs s E1000_RDH \<noteq> regs s E1000_RDT" and "p \<noteq> []" and "length p \<le> 2048"
    and j: "regs s E1000_RDH = of_nat j" "j < 16"
  shows "rx_ring (dev_step lan_dev s) = (rx_ring s)[j := (rx_ring s ! j)\<lparr>rd_length := of_nat (length p), rd_status := 3\<rparr>]"
    and "rx_bufs (dev_step lan_dev s) = (rx_bufs s)[j := p @ drop (length p) (rx_bufs s ! j)]"
    and "regs (dev_step lan_dev s) = (regs s)(E1000_RDH := of_nat ((j + 1) mod 16))"
  using assms
  by (auto simp: dev_step_def lan_dev_def unat_of_nat_small e1000_wf_def dma_rx_desc_def dma_rx_buf_def nth_list_update intro!: nth_equalityI)

lemma lan_dev_fills:
  assumes inv: "rx_queue_inv s" and hw: "hw s = p # ps" "p \<noteq> []" "length p \<le> 2048" and room: "regs s E1000_RDH \<noteq> regs s E1000_RDT"
  shows "rx_queue_inv (dev_step lan_dev s)" and "rx_pending (dev_step lan_dev s) = rx_pending s @ [p]"
proof -
  let ?t = "dev_step lan_dev s" and ?i = "rx_index s" and ?c = "length (rx_pending s)"
  define j where "j = (?i + ?c) mod 16"
  have j: "regs s E1000_RDH = of_nat j" "j < 16" using inv by (simp_all add: rx_queue_inv_def j_def)
  have wf: "e1000_wf s" using inv by (simp add: rx_queue_inv_def)
  note t = lan_dev_step [OF wf hw(1) room hw(2,3) j]
  have len: "length (rx_ring s) = 16" "length (rx_bufs s) = 16" "length (rx_bufs s ! j) = 2048"
    using wf j by (simp_all add: e1000_wf_def list_all_length)
  have c: "?c < 15"
  proof (rule ccontr)
    assume "\<not> ?c < 15"
    then have "?c = 15" using inv by (simp add: rx_queue_inv_def)
    then show False using inv room by (simp add: rx_queue_inv_def)
  qed
  have other: "(?i + k) mod 16 \<noteq> j" if "k < 16" "k \<noteq> ?c" for k
    using that c wf unfolding j_def by (auto simp: e1000_wf_def mod_if split: if_splits)
  have ring: "rx_ring ?t ! ((?i + k) mod 16) = rx_ring s ! ((?i + k) mod 16)" "rx_frame ?t ((?i + k) mod 16) = rx_frame s ((?i + k) mod 16)"
    if "k < 16" "k \<noteq> ?c" for k using other [OF that] by (simp_all add: t rx_frame_def)
  have new: "rd_status (rx_ring ?t ! j) = 3" "rx_frame ?t j = p"
    using j len hw(3) by (simp_all add: t rx_frame_def unat_of_nat)
  have dd: "rd_status (rx_ring ?t ! ((?i + k) mod 16)) AND E1000_RXD_STAT_DD \<noteq> 0" if "k < Suc ?c" for k
  proof (cases "k = ?c")
    case True
    then show ?thesis using new(1) by (simp add: j_def)
  next
    case False
    then show ?thesis using that c ring(1) [of k] rx_slot_filled [of k s] by simp
  qed
  have free: "rd_status (rx_ring ?t ! ((?i + k) mod 16)) AND E1000_RXD_STAT_DD = 0" if "k \<in> {Suc ?c..<16}" for k
    using that ring(1) [of k] inv by (simp add: rx_queue_inv_def)
  have "rx_slots ?t = map (\<lambda>k. (?i + k) mod 16) [0..<Suc ?c]"
    using rx_slots_eq [of "Suc ?c" ?t] dd free [of "Suc ?c"] c by simp
  then have "rx_pending ?t = map (\<lambda>k. rx_frame ?t ((?i + k) mod 16)) [0..<?c] @ [rx_frame ?t j]" by (simp add: rx_pending_def j_def)
  moreover have "map (\<lambda>k. rx_frame ?t ((?i + k) mod 16)) [0..<?c] = rx_pending s"
    using ring(2) c by (intro trans [OF _ rx_slots_inv [OF inv, symmetric]]) simp
  ultimately show p: "rx_pending ?t = rx_pending s @ [p]" using new(2) by simp
  have "rx_inv ?t" using inv len j hw(3) by (auto simp: rx_queue_inv_def rx_inv_def t list_all_length nth_list_update unat_of_nat)
  moreover have "regs ?t E1000_RDH = of_nat ((?i + Suc ?c) mod 16)" "regs ?t E1000_RDT = regs s E1000_RDT" by (simp_all add: t j_def mod_simps)
  moreover have "e1000_wf ?t" using wf by (rule dev_step_wf)
  ultimately show "rx_queue_inv ?t" using inv p free c hw(2) by (simp add: rx_queue_inv_def)
qed

lemma lan_dev_waits:
  assumes "e1000_wf s" and "hw s = [] \<or> regs s E1000_RDH = regs s E1000_RDT \<or> hd (hw s) = [] \<or> 2048 < length (hd (hw s))"
  shows "dev_step lan_dev s = s"
  using assms by (cases "hw s") (auto simp: dev_step_def lan_dev_def dma_tx_desc_def dma_rx_desc_def dma_rx_buf_def
      intro!: e1000.equality nth_equalityI)

lemma lan_dev_rx: "nic_rx_ok lan_dev"
  unfolding nic_rx_ok_def
proof (intro allI impI)
  fix s :: "bytes list e1000"
  assume inv: "rx_queue_inv s"
  show "rx_queue_inv (dev_step lan_dev s) \<and> (\<exists>new. rx_pending (dev_step lan_dev s) = rx_pending s @ new)"
  proof (cases "hw s = [] \<or> regs s E1000_RDH = regs s E1000_RDT \<or> hd (hw s) = [] \<or> 2048 < length (hd (hw s))")
    case True
    then show ?thesis using inv lan_dev_waits [of s] by (simp add: rx_queue_inv_def)
  next
    case False
    then show ?thesis using lan_dev_fills [OF inv, of "hd (hw s)" "tl (hw s)"] by auto
  qed
qed

text \<open>The driver with freshly initialised rings, on such a device.\<close>

definition e1000_lan :: "bytes list \<Rightarrow> bytes list e1000" where
  "e1000_lan ps = e1000_tx_init (e1000_rx_init
     \<lparr>net_mmio_base = 0, tx_ring = [], rx_ring = [],
      tx_bufs = replicate RING_SIZE (replicate PKT_BUF_SIZE 0), rx_bufs = replicate RING_SIZE (replicate PKT_BUF_SIZE 0),
      tx_index = 0, rx_index = 0, regs = (\<lambda>_. 0), pci_cfg = (\<lambda>_. 0),
      tx_ring_at = 0x80101000, rx_ring_at = 0x80101100, tx_bufs_at = 0x80102000, rx_bufs_at = 0x8010a000,
      hw = ps, earth_net_set = True\<rparr>)"

lemma e1000_lan_ready: "rx_queue_inv (e1000_lan ps)" "rx_pending (e1000_lan ps) = []" "hw (e1000_lan ps) = ps"
    "regs (e1000_lan ps) E1000_RDH = 0" "regs (e1000_lan ps) E1000_RDT = 15"
proof -
  note defs = e1000_lan_def e1000_tx_init_def e1000_rx_init_def Let_def e1000_write_def
  have st: "rd_status (rx_ring (e1000_lan ps) ! i) = 0" if "i < 16" for i using that by (simp add: defs)
  show r: "hw (e1000_lan ps) = ps" "regs (e1000_lan ps) E1000_RDH = 0" "regs (e1000_lan ps) E1000_RDT = 15" by (simp_all add: defs)
  have i: "rx_index (e1000_lan ps) = 0" "length (rx_ring (e1000_lan ps)) = 16" by (simp_all add: defs)
  show p: "rx_pending (e1000_lan ps) = []" using rx_slots_eq [of 0 "e1000_lan ps"] st [of 0] i by (simp add: rx_pending_def)
  have "e1000_wf (e1000_lan ps)" by (simp add: defs e1000_wf_def list_all_length)
  moreover have "rx_inv (e1000_lan ps)" using st i by (simp add: rx_inv_def list_all_length)
  ultimately show "rx_queue_inv (e1000_lan ps)" using st r by (simp add: rx_queue_inv_def p i)
qed

theorem net_recv_fifo_witness:
  "(\<exists>t. net_recvs idle_dev 3 (replicate 2048 0) (e1000_holding [1, 2, 3] [4, 5]) =
       Inr ([(3, [1, 2, 3] @ replicate 2045 0), (2, [4, 5] @ replicate 2046 0), (0, replicate 2048 0)], [[], [], []], t) \<and>
     rx_queue_inv t \<and> rx_pending t = []) \<and>
   (\<exists>t. net_recvs lan_dev 1 (replicate 2048 0) (e1000_lan [[6, 7], [8]]) = Inr ([(2, [6, 7] @ replicate 2046 0)], [[[6, 7]]], t) \<and>
     rx_queue_inv t \<and> rx_pending t = [])"
proof
  let ?s = "e1000_holding [1, 2, 3] [4, 5]" and ?buf = "replicate 2048 0 :: bytes"
  have h: "rx_queue_inv ?s" "rx_pending ?s = [[1, 2, 3], [4, 5]]" using e1000_holding_frames [of "[1, 2, 3]" "[4, 5]"] by simp_all
  have buf: "2048 \<le> length ?buf" by simp
  obtain ps arrived t where t: "net_recvs idle_dev 3 ?buf ?s = Inr (map (handed_over ?buf) ps, arrived, t)" "rx_queue_inv t"
    "(ps, rx_pending t) = queue_looks (rx_pending ?s) arrived"
    using net_recv_fifo [OF idle_dev_rx h(1) buf, of 3] by blast
  have "arrived = [[], [], []]" using net_recvs_idle [OF t(1)] h(1) by (simp add: rx_queue_inv_def numeral_3_eq_3)
  then show "\<exists>t. net_recvs idle_dev 3 ?buf ?s =
       Inr ([(3, [1, 2, 3] @ replicate 2045 0), (2, [4, 5] @ replicate 2046 0), (0, ?buf)], [[], [], []], t) \<and> rx_queue_inv t \<and> rx_pending t = []"
    using t h(2) by simp
next
  let ?s = "e1000_lan [[6, 7], [8]]" and ?buf = "replicate 2048 0 :: bytes"
  note h = e1000_lan_ready [of "[[6, 7], [8]]"]
  have buf: "2048 \<le> length ?buf" by simp
  obtain ps arrived t where t: "net_recvs lan_dev 1 ?buf ?s = Inr (map (handed_over ?buf) ps, arrived, t)" "rx_queue_inv t"
    "(ps, rx_pending t) = queue_looks (rx_pending ?s) arrived"
    using net_recv_fifo [OF lan_dev_rx h(1) buf, of 1] by blast
  have "rx_arrivals lan_dev ?s = [[6, 7]]" using lan_dev_fills(2) [OF h(1,3)] h(2,4,5) by (simp add: rx_arrivals_def)
  then have "arrived = [[[6, 7]]]" using t(1) by (auto simp: One_nat_def elim!: res_bind_InrE)
  then show "\<exists>t. net_recvs lan_dev 1 ?buf ?s = Inr ([(2, [6, 7] @ replicate 2046 0)], [[[6, 7]]], t) \<and> rx_queue_inv t \<and> rx_pending t = []"
    using t h(2) by simp
qed

end
