(* ===== verification/Http_Session.thy ===== *)
theory Http_Session
  imports Client_Props Tcp_State Wire
begin

text \<open>
  The calls of a session of the network service, over a network interface that works as two queues: a connection is accepted, data is
  received, data is sent, the connection is closed. Each lemma gives the result of the client's call, the frames that were handed over for
  sending, and the state of the connection and of the bridge afterwards.
\<close>

section \<open>Frames\<close>

text \<open>An Ethernet frame to a hardware address that carries a segment, with valid checksums and nothing behind it.\<close>

definition carries :: "bytes \<Rightarrow> segment \<Rightarrow> bytes \<Rightarrow> bool" where
  "carries mac g f \<longleftrightarrow> (\<exists>u :: httpd_uip. tcp_ok u \<and> segment_of u = g \<and> length f = unat (uip_len u) + 14 \<and> take 6 f = mac \<and>
     get16 f 12 = HTONS UIP_ETHTYPE_IP \<and> drop 14 f = take (unat (uip_len u)) (drop 14 (uip_buf u)))"

lemma set_bytes_conns [simp]: "uip_conns (set_bytes i d s) = uip_conns s" "net_config (set_bytes i d s) = net_config s"
  by (induction i d s rule: set_bytes.induct) simp_all

lemma uip_arp_out_frame [simp]: "uip_conns (uip_arp_out a u) = uip_conns u" "net_config (uip_arp_out a u) = net_config u"
  by (simp_all add: uip_arp_out_def eth_header_def arp_request_def Let_def set16_def set_addr_def split: option.split)

lemma bridge_frame [simp]:
  fixes s :: httpd_uip
  shows "net_config (s\<lparr>httpd_socket_rx_len := x\<rparr>) = net_config s" "net_config (s\<lparr>httpd_socket_conn_pending := x\<rparr>) = net_config s"
    "net_config (s\<lparr>httpd_socket_close_pending := x\<rparr>) = net_config s" "bridge_conn (s\<lparr>httpd_socket_rx_len := x\<rparr>) = bridge_conn s"
    "bridge_conn (s\<lparr>uip_len := y\<rparr>) = bridge_conn s"
  by (simp_all add: net_config_def bridge_conn_def)

lemma first_index_update: "first_index P xs = Some r \<Longrightarrow> P c \<Longrightarrow> first_index P (xs[r := c]) = Some r"
  by (induction xs arbitrary: r) (auto split: if_splits)

lemma conns_updated:
  assumes "uip_wf s" "uip_wf t" and "conn_at t r = c" and "\<And>k. k \<noteq> r \<Longrightarrow> conn_at t k = conn_at s k"
  shows "uip_conns t = (uip_conns s)[r := c]"
proof (rule nth_equalityI)
  show "length (uip_conns t) = length ((uip_conns s)[r := c])"
    using uip_wf_lengths(2) [OF assms(1)] uip_wf_lengths(2) [OF assms(2)] by simp
  show "uip_conns t ! i = (uip_conns s)[r := c] ! i" if "i < length (uip_conns t)" for i
    using that assms(3) assms(4) [of i] uip_wf_lengths(2) [OF assms(1)] uip_wf_lengths(2) [OF assms(2)]
    by (cases "i = r") (simp_all add: conn_at_def)
qed

lemma sync_idle:
  assumes "httpd_socket_rx_len (stack s) = 0" and "bridge_conn (stack s) = (opn, pnd, clo, txp, cls)"
  shows "sync_socket_state s = Inr (s\<lparr>sock_conn_open := opn, sock_conn_pending := pnd, sock_conn_closed := clo, sock_tx_pending := txp\<rparr>)"
  using assms by (simp add: sync_socket_state_def bridge_conn_def Let_def)

lemma sync_data:
  assumes "httpd_socket_rx_len (stack s) = int n" and "0 < n" "n \<le> 420" and "bridge_conn (stack s) = (opn, pnd, clo, txp, cls)"
    and "bridge_wf (stack s)" and "length (sock_rx_buf s) = 512"
  shows "sync_socket_state s = Inr (s\<lparr>sock_conn_open := opn, sock_conn_pending := pnd, sock_conn_closed := clo, sock_tx_pending := txp,
    sock_rx_len := int n, sock_rx_buf := take n (httpd_socket_rx_buf (stack s)) @ drop n (sock_rx_buf s),
    stack := (stack s)\<lparr>httpd_socket_rx_len := 0\<rparr>\<rparr>)"
  using assms by (simp add: sync_socket_state_def bridge_conn_def Let_def memcpy_int_def mem_read_def mem_write_def bridge_wf_def)

section \<open>A session of the service\<close>

text \<open>
  The service has connection \<open>r\<close>, with record \<open>c\<close>, on its port, and nothing waits in the bridge: \<open>b\<close> is what the bridge reports.
  What the calls of a session leave alone is related by \<open>same_net\<close>.
\<close>

definition same_net :: "'d net_state \<Rightarrow> 'd net_state \<Rightarrow> bool" where
  "same_net s t \<longleftrightarrow> arp_mod t = arp_mod s \<and> sock_listen_port t = sock_listen_port s \<and> sock_conn_id t = sock_conn_id s \<and>
     net_config (stack t) = net_config (stack s)"

definition session :: "('d \<Rightarrow> bool) \<Rightarrow> 'd net_state \<Rightarrow> nat \<Rightarrow> uip_conn_t \<Rightarrow> int \<times> int \<times> int \<times> int \<times> int \<Rightarrow> bool" where
  "session I s r c b \<longleftrightarrow> net_inv I s \<and> 0 \<le> sock_listen_port s \<and> kick_conn s = Some r \<and> conn_at (stack s) r = c \<and>
     bridge_conn (stack s) = b \<and> httpd_socket_rx_len (stack s) = 0"

text \<open>The hardware address of the next hop to the peer is known.\<close>

definition resolved :: "'d net_state \<Rightarrow> ip4addr \<Rightarrow> bytes \<Rightarrow> bool" where
  "resolved s ip mac \<longleftrightarrow> ip \<noteq> broadcast_ipaddr \<and> arp_lookup (arp_mod s) (hop_to (stack s) ip) = Some mac"

lemma same_net_resolved: "same_net s t \<Longrightarrow> resolved t ip mac = resolved s ip mac"
  by (simp add: same_net_def resolved_def hop_to_config [of "stack t" "stack s"])

lemma same_net_trans: "same_net s t \<Longrightarrow> same_net t u \<Longrightarrow> same_net s u"
  by (simp add: same_net_def)

lemma kick_update:
  assumes "kick_conn s = Some r" and "uip_conns (stack t) = (uip_conns (stack s))[r := c]" and "sock_listen_port t = sock_listen_port s"
    and "lport c = lport (conn_at (stack s) r)" and "tcpstateflags c \<noteq> UIP_CLOSED"
  shows "kick_conn t = Some r" and "conn_at (stack t) r = c"
proof -
  let ?P = "\<lambda>c. tcpstateflags c \<noteq> UIP_CLOSED \<and> lport c = HTONS (word_of_int (sock_listen_port s))"
  have s: "first_index ?P (uip_conns (stack s)) = Some r" using assms(1) by (simp add: kick_conn_def)
  from first_index_Some [OF s] have "r < length (uip_conns (stack s))" "?P (conn_at (stack s) r)" by (simp_all add: conn_at_def)
  then show "kick_conn t = Some r" "conn_at (stack t) r = c"
    using first_index_update [OF s, of c] assms by (simp_all add: kick_conn_def conn_at_def)
qed

text \<open>Queueing data touches neither the connection's report nor the received data.\<close>

lemma sock_queue_tx_frame:
  assumes "sock_queue_tx req s = Inr t"
  shows "sock_conn_id t = sock_conn_id s" and "sock_conn_open t = sock_conn_open s"
    and "httpd_socket_rx_len (stack t) = httpd_socket_rx_len (stack s)"
    and "bridge_conn (stack s) = (opn, pnd, clo, txp, cls) \<Longrightarrow> bridge_conn (stack t) = (opn, pnd, clo, 1, cls)"
  using assms by (auto simp: sock_queue_tx_def Let_def bridge_conn_def elim!: res_bind_InrE)

context wire
begin

text \<open>The frame that waits is put into the packet buffer.\<close>

lemma poll_next:
  assumes "net_inv inv s" and "rxq (nic s) = p # ps" and "length p \<le> 422" "0 < length p"
    and "buf16 (with_packet p (stack s)) e_type = HTONS UIP_ETHTYPE_IP"
  shows "\<exists>d. inv d \<and> rxq d = ps \<and> sent d = sent (nic s) \<and> room (nic s) \<le> room d \<and>
    net_poll earth_of s = res_bind (res_bind (uip_input httpd_appcall (with_packet p (stack s))) (\<lambda>u.
      if uip_len u > 0 then transmit earth_of (s\<lparr>nic := d, stack := uip_arp_out (arp_mod s) u\<rparr>)
      else Inr (s\<lparr>nic := d, stack := u\<rparr>))) sync_socket_state"
proof -
  have i: "inv (nic s)" "length (uip_buf (stack s)) = 422" using assms(1) uip_wf_lengths(1) [of "stack s"] by (simp_all add: net_inv_def)
  then obtain d where d: "recv (uip_buf (stack s)) (nic s) = Inr (int (length p), p @ drop (length p) (uip_buf (stack s)), d)"
      "rxq d = ps" "sent d = sent (nic s)" "room (nic s) \<le> room d"
    using recv_next [OF i(1) assms(2), of "uip_buf (stack s)"] assms(3) by auto
  have w: "(of_nat (length p) :: u16) \<noteq> 0"
    using assms(3,4) by (simp add: word_eq_iff_unsigned unat_of_nat flip: unat_eq_zero)
  have "net_poll earth_of s = res_bind (net_frame earth_of (s\<lparr>stack := with_packet p (stack s), nic := d\<rparr>)) sync_socket_state"
    using d(1) w by (simp add: net_poll_def with_packet_def Let_def)
  moreover have "net_frame earth_of (s\<lparr>stack := with_packet p (stack s), nic := d\<rparr>) = res_bind (uip_input httpd_appcall (with_packet p (stack s))) (\<lambda>u.
      if uip_len u > 0 then transmit earth_of (s\<lparr>nic := d, stack := uip_arp_out (arp_mod s) u\<rparr>)
      else Inr (s\<lparr>nic := d, stack := u\<rparr>))"
    using assms(5) by (simp add: net_frame_def cong: if_cong)
  ultimately show ?thesis using d recv_inv [OF i(1) d(1)] by (intro exI [of _ d]) simp
qed

lemma poll_none:
  assumes "net_inv inv s" and "rxq (nic s) = []"
  shows "\<exists>d. net_poll earth_of s = Inr (s\<lparr>stack := (stack s)\<lparr>uip_len := 0\<rparr>, nic := d\<rparr>) \<and> inv d \<and> rxq d = [] \<and>
    sent d = sent (nic s) \<and> room (nic s) \<le> room d"
proof -
  have i: "inv (nic s)" using assms(1) by (simp add: net_inv_def)
  obtain d where d: "recv (uip_buf (stack s)) (nic s) = Inr (0, uip_buf (stack s), d)" "rxq d = []" "sent d = sent (nic s)"
      "room (nic s) \<le> room d"
    using recv_none [OF i assms(2)] by blast
  then have "no_frame earth_of s d" by (simp add: no_frame_def)
  from net_poll_no_frame [OF this] d recv_inv [OF i d(1)] show ?thesis by blast
qed

lemma send_bytes:
  assumes "inv d" "0 < room d" and "0 < m" "m \<le> 2048" "m \<le> length p"
  obtains d' where "send (int m) p d = Inr d'" "inv d'" "rxq d' = rxq d" "sent d' = shift_in (sent d) (take m p)" "room d \<le> Suc (room d')"
  using send_next [OF assms(1,2), of "int m" p] assms(3-5) send_inv [OF assms(1), of "int m" p]
  by simp blast

text \<open>A segment in the packet buffer goes out as a frame to the peer's hardware address.\<close>

lemma transmit_segment:
  fixes u :: httpd_uip
  assumes d: "inv d" "0 < room d" and u: "uip_wf u" "tcp_ok u" "uip_len u > 0" "uip_len u \<le> 406" "arp_inv (arp_mod s)"
    and dest: "sg_dest (segment_of u) \<noteq> broadcast_ipaddr" "arp_lookup (arp_mod s) (hop_to u (sg_dest (segment_of u))) = Some mac"
  shows "\<exists>d' f. transmit earth_of (s\<lparr>nic := d, stack := uip_arp_out (arp_mod s) u\<rparr>) =
      Inr (s\<lparr>stack := uip_arp_out (arp_mod s) u, nic := d'\<rparr>) \<and>
    inv d' \<and> rxq d' = rxq d \<and> sent d' = shift_in (sent d) f \<and> room d \<le> Suc (room d') \<and> carries mac (segment_of u) f"
proof -
  let ?v = "uip_arp_out (arp_mod s) u" and ?n = "unat (uip_len u)"
  have a: "buf_addr u o_destipaddr \<noteq> broadcast_ipaddr" "arp_lookup (arp_mod s) (hop_to u (buf_addr u o_destipaddr)) = Some mac"
    using dest by (simp_all add: segment_of_def)
  note v = arp_out_resolved [OF u(1,5) a]
  have n: "0 < ?n" "?n \<le> 406" "unat (uip_len ?v) = ?n + 14"
    using u(3,4) v(2) by (simp_all add: word_less_nat_alt word_le_nat_alt unat_add_wrap)
  have "0 < ?n + 14" "?n + 14 \<le> 2048" "?n + 14 \<le> length (uip_buf ?v)" using n v(4) by simp_all
  from send_bytes [OF d this] obtain d' where d': "send (int (?n + 14)) (uip_buf ?v) d = Inr d'" "inv d'" "rxq d' = rxq d"
      "sent d' = shift_in (sent d) (take (?n + 14) (uip_buf ?v))" "room d \<le> Suc (room d')" .
  have "carries mac (segment_of u) (take (?n + 14) (uip_buf ?v))"
    unfolding carries_def
  proof (intro exI [of _ u] conjI)
    show "get16 (take (?n + 14) (uip_buf ?v)) 12 = HTONS UIP_ETHTYPE_IP" using v(5) n by (simp add: get16_def)
    show "drop 14 (take (?n + 14) (uip_buf ?v)) = take ?n (drop 14 (uip_buf u))" using v(3) by (simp add: drop_take)
    show "take 6 (take (?n + 14) (uip_buf ?v)) = mac" using v(1) by (simp add: min_def)
  qed (use u(2) v(4) n in simp_all)
  then show ?thesis
    using d' n(3) by (intro exI [of _ d'] exI [of _ "take (?n + 14) (uip_buf ?v)"]) (simp add: transmit_def)
qed

text \<open>A frame waits in a session: the stack treats it in a well formed state.\<close>

lemma session_poll:
  fixes s :: "'d net_state" and p
  defines "u \<equiv> with_packet p (stack s)"
  assumes s: "session inv s r c b" and p: "rxq (nic s) = p # ps" "length p \<le> 422" "0 < length p"
    and ty: "buf16 u e_type = HTONS UIP_ETHTYPE_IP"
  obtains d where "inv d" "rxq d = ps" "sent d = sent (nic s)" "room (nic s) \<le> room d"
    and "net_poll earth_of s = res_bind (res_bind (uip_input httpd_appcall u) (\<lambda>u.
        if uip_len u > 0 then transmit earth_of (s\<lparr>nic := d, stack := uip_arp_out (arp_mod s) u\<rparr>)
        else Inr (s\<lparr>nic := d, stack := u\<rparr>))) sync_socket_state"
    and "uip_wf u" "bridge_wf u" "uip_conns u = uip_conns (stack s)" "conn_at u r = c" "net_config u = net_config (stack s)"
      "bridge_conn u = b" "httpd_socket_rx_len u = 0"
proof -
  have inv: "net_inv inv s" using s by (simp add: session_def)
  have wf: "uip_wf u" "bridge_wf u"
    using inv p(2) uip_wf_lengths(1) [of "stack s"] by (simp_all add: u_def with_packet_def net_inv_def uip_wf_def bridge_wf_def)
  have u: "uip_conns u = uip_conns (stack s)" "conn_at u r = c" "net_config u = net_config (stack s)" "bridge_conn u = b"
      "httpd_socket_rx_len u = 0"
    using s by (simp_all add: u_def with_packet_def conn_at_def net_config_def bridge_conn_def session_def)
  show thesis using that poll_next [OF inv p ty [unfolded u_def]] wf u unfolding u_def by blast
qed

section \<open>Accepting a connection\<close>

text \<open>The acknowledgement that completes a handshake waits: \<^verbatim>\<open>sock_accept()\<close> gives the connection to the program and sends nothing.\<close>

lemma accept_completes:
  fixes s :: "'d net_state" and p
  defines "u \<equiv> with_packet p (stack s)"
  assumes s: "session inv s r c b" "b = (opn, pnd, clo, 0, 0)" and p: "rxq (nic s) = p # ps" "length p \<le> 422" "0 < length p"
    and seg: "buf16 u e_type = HTONS UIP_ETHTYPE_IP" "valid_tcp u" "first_index (conn_matches u) (uip_conns (stack s)) = Some r"
      "acks_all u r" "buf8 u o_flags AND (TCP_FIN OR TCP_SYN OR TCP_RST) = 0" "seg_datalen u = 0"
    and st: "tcpstateflags c = UIP_SYN_RCVD"
  shows "\<exists>s'. sock_accept (net_serve earth_of pid) s = Inr (sock_conn_id s, s') \<and> same_net s s' \<and>
    session inv s' r ((acked_conn (buf_quad u o_ackno) c)\<lparr>tcpstateflags := UIP_ESTABLISHED, nrtx := 0\<rparr>) (1, 0, 0, 0, 0) \<and>
    uip_conns (stack s') = (uip_conns (stack s))[r := (acked_conn (buf_quad u o_ackno) c)\<lparr>tcpstateflags := UIP_ESTABLISHED, nrtx := 0\<rparr>] \<and>
    sock_conn_open s' = 1 \<and> rxq (nic s') = ps \<and> sent (nic s') = sent (nic s) \<and> room (nic s) \<le> room (nic s')"
proof -
  let ?c = "(acked_conn (buf_quad u o_ackno) c)\<lparr>tcpstateflags := UIP_ESTABLISHED, nrtx := 0\<rparr>"
  have inv: "net_inv inv s" "kick_conn s = Some r" "conn_at (stack s) r = c" "0 \<le> sock_listen_port s"
    using s by (simp_all add: session_def)
  obtain d where d: "inv d" "rxq d = ps" "sent d = sent (nic s)" "room (nic s) \<le> room d"
      "net_poll earth_of s = res_bind (res_bind (uip_input httpd_appcall u) (\<lambda>u.
        if uip_len u > 0 then transmit earth_of (s\<lparr>nic := d, stack := uip_arp_out (arp_mod s) u\<rparr>)
        else Inr (s\<lparr>nic := d, stack := u\<rparr>))) sync_socket_state"
    and wf: "uip_wf u" "bridge_wf u"
    and u: "uip_conns u = uip_conns (stack s)" "conn_at u r = c" "net_config u = net_config (stack s)" "bridge_conn u = b"
      "httpd_socket_rx_len u = 0"
    by (rule session_poll [OF s(1) p seg(1) [unfolded u_def], folded u_def])
  have "httpd_socket_close_pending u = 0" "httpd_socket_tx_pending u = 0" using u(4) s(2) by (simp_all add: bridge_conn_def)
  with handshake_spec [OF wf(1) seg(2)] seg(3-6) st u obtain v where v: "uip_input httpd_appcall u = Inr v" "uip_len v = 0"
      "net_config v = net_config (stack s)" "bridge_conn v = (1, 1, 0, 0, 0)" "httpd_socket_rx_len v = 0"
      "uip_conns v = (uip_conns (stack s))[r := ?c]"
    by auto
  have vw: "uip_wf v" "bridge_wf v" using res_ok_InrD [OF stack_ok(1) [OF wf] v(1)] by simp_all
  let ?t = "s\<lparr>nic := d, stack := v, sock_conn_open := 1, sock_conn_pending := 1, sock_conn_closed := 0, sock_tx_pending := 0\<rparr>"
  have poll: "net_poll earth_of s = Inr ?t"
    using d(5) v(1,2) sync_idle [of "s\<lparr>nic := d, stack := v\<rparr>" 1 1 0 0 0] v(4,5) by simp
  let ?s' = "?t\<lparr>sock_conn_pending := 0, stack := v\<lparr>httpd_socket_conn_pending := 0\<rparr>\<rparr>"
  let ?req = "new_request NET_SOCK_ACCEPT"
  let ?z = "send_net_reply pid (reply_area ?req) NET_OK (sock_conn_id s) 0 ?s'"
  have "sys_net_step earth_of (pid, ?req) s = Inr ?z"
    using poll by (simp add: sys_net_step_def new_request_def handle_sock_accept_def)
  then have "sock_accept (net_serve earth_of pid) s = Inr (sock_conn_id s, ?z)"
    by (simp add: sock_accept_def net_serve_def send_net_reply_def)
  moreover have "kick_conn ?z = Some r" "conn_at (stack ?z) r = ?c"
    using kick_update [OF inv(2), of ?z ?c] v(6) inv(3) by (simp_all add: send_net_reply_def)
  moreover have "net_inv inv ?z"
    using inv(1) vw d(1) by (simp add: net_inv_def send_net_reply_def uip_wf_def bridge_wf_def)
  ultimately show ?thesis
    using d(2-4) v(3-6) inv(4)
    by (intro exI [of _ ?z])
      (simp add: session_def same_net_def send_net_reply_def bridge_conn_def net_config_def)
qed

section \<open>Receiving a request\<close>

text \<open>In-order data waits: the service takes it from the stack, and the one frame sent is the acknowledgement.\<close>

lemma data_accepted:
  fixes s :: "'d net_state" and p
  defines "u \<equiv> with_packet p (stack s)"
  defines "n \<equiv> unat (ip_total_len u) - 40"
  assumes s: "session inv s r c (1, 0, 0, 0, 0)" and p: "rxq (nic s) = p # ps" "length p \<le> 422" "0 < length p"
    and seg: "buf16 u e_type = HTONS UIP_ETHTYPE_IP" "valid_tcp u" "first_index (conn_matches u) (uip_conns (stack s)) = Some r"
      "buf8 u o_flags AND (TCP_FIN OR TCP_SYN OR TCP_RST OR TCP_URG) = 0" "buf8 u o_tcpoffset = 0x50" "buf_quad u o_seqno = rcv_nxt c"
      "ip_total_len u > 40" "ip_total_len u \<le> 408"
    and c: "tcpstateflags c = UIP_ESTABLISHED" "conn_len c = 0"
  obtains d v where "inv d" "rxq d = ps" "sent d = sent (nic s)" "room (nic s) \<le> room d"
    "net_poll earth_of s = res_bind (transmit earth_of (s\<lparr>nic := d, stack := uip_arp_out (arp_mod s) v\<rparr>)) sync_socket_state"
    "uip_wf v" "bridge_wf v" "net_config v = net_config (stack s)" "bridge_conn v = (1, 0, 0, 0, 0)" "httpd_socket_rx_len v = int n"
    "take n (httpd_socket_rx_buf v) = take n (drop 54 (uip_buf u))" "conn_at v r = (data_conn u (of_nat n) c)\<lparr>nrtx := 0\<rparr>"
    "\<forall>k. k \<noteq> r \<longrightarrow> conn_at v k = conn_at (stack s) k" "uip_len v = 40" "tcp_ok v" "segment_of v = conn_segment v r TCP_ACK []"
    "length (uip_buf u) = 422"
proof -
  obtain d where d: "inv d" "rxq d = ps" "sent d = sent (nic s)" "room (nic s) \<le> room d"
      "net_poll earth_of s = res_bind (res_bind (uip_input httpd_appcall u) (\<lambda>u.
        if uip_len u > 0 then transmit earth_of (s\<lparr>nic := d, stack := uip_arp_out (arp_mod s) u\<rparr>)
        else Inr (s\<lparr>nic := d, stack := u\<rparr>))) sync_socket_state"
    and wf: "uip_wf u" "bridge_wf u"
    and u: "uip_conns u = uip_conns (stack s)" "conn_at u r = c" "net_config u = net_config (stack s)" "bridge_conn u = (1, 0, 0, 0, 0)"
      "httpd_socket_rx_len u = 0"
    by (rule session_poll [OF s(1) p seg(1) [unfolded u_def], folded u_def])
  have idle: "httpd_socket_tx_pending u = 0" "httpd_socket_close_pending u = 0" using u(4) by (simp_all add: bridge_conn_def)
  have n: "(of_nat n :: u16) = ip_total_len u - 40"
    using seg(7,8) by (simp add: n_def word_less_nat_alt word_le_nat_alt flip: unat_sub)
  have "conn_at (tcp_ack_input r (found_rx r u)) r = c" using tcp_ack_input_idle [of "found_rx r u" r] u(2) c(2) by simp
  with in_order_data_spec [OF wf seg(2) _ _ seg(4,5) _ seg(7,8) idle, of r] seg(3,6) u c(1) n
  obtain v where v: "uip_input httpd_appcall u = Inr v" "httpd_socket_rx_len v = int n"
      "take n (httpd_socket_rx_buf v) = take n (drop 54 (uip_buf u))" "uip_wf v" "net_config v = net_config (stack s)"
      "bridge_conn v = (1, 0, 0, 0, 0)" "conn_at v r = (data_conn u (of_nat n) c)\<lparr>nrtx := 0\<rparr>"
      "\<forall>k. k \<noteq> r \<longrightarrow> conn_at v k = conn_at (stack s) k" "uip_len v = 40" "tcp_ok v"
      "segment_of v = (conn_segment v r TCP_ACK [])\<lparr>sg_src := uip_hostaddr u\<rparr>"
    unfolding n_def by (auto simp: conn_at_def)
  have "uip_hostaddr v = uip_hostaddr u" using u(3) v(5) by (simp add: net_config_def)
  with v(11) have "segment_of v = conn_segment v r TCP_ACK []" by (simp add: conn_segment_def Let_def)
  moreover have "bridge_wf v" using res_ok_InrD [OF stack_ok(1) [OF wf] v(1)] by simp
  ultimately show thesis using that [of d v] d v uip_wf_lengths(1) [OF wf(1)] by simp
qed

lemma poll_data:
  fixes s :: "'d net_state" and p
  defines "u \<equiv> with_packet p (stack s)"
  defines "n \<equiv> unat (ip_total_len u) - 40"
  assumes s: "session inv s r c (1, 0, 0, 0, 0)" and p: "rxq (nic s) = p # ps" "length p \<le> 422" "0 < length p"
    and seg: "buf16 u e_type = HTONS UIP_ETHTYPE_IP" "valid_tcp u" "first_index (conn_matches u) (uip_conns (stack s)) = Some r"
      "buf8 u o_flags AND (TCP_FIN OR TCP_SYN OR TCP_RST OR TCP_URG) = 0" "buf8 u o_tcpoffset = 0x50" "buf_quad u o_seqno = rcv_nxt c"
      "ip_total_len u > 40" "ip_total_len u \<le> 408"
    and c: "tcpstateflags c = UIP_ESTABLISHED" "conn_len c = 0" and mac: "resolved s (ripaddr c) mac" and room: "0 < room (nic s)"
  shows "\<exists>t f. net_poll earth_of s = Inr t \<and> same_net s t \<and> outbox t = outbox s \<and>
    session inv t r ((data_conn u (of_nat n) c)\<lparr>nrtx := 0\<rparr>) (1, 0, 0, 0, 0) \<and> sock_conn_open t = 1 \<and> sock_tx_pending t = 0 \<and>
    sock_rx_len t = int n \<and> take n (sock_rx_buf t) = take n (drop 54 (uip_buf u)) \<and>
    rxq (nic t) = ps \<and> sent (nic t) = shift_in (sent (nic s)) f \<and> room (nic s) \<le> Suc (room (nic t)) \<and>
    carries mac (conn_segment (stack t) r TCP_ACK []) f"
proof -
  let ?c = "(data_conn u (of_nat n) c)\<lparr>nrtx := 0\<rparr>" and ?b = "(1, 0, 0, 0, 0) :: int \<times> int \<times> int \<times> int \<times> int"
  have inv: "net_inv inv s" "kick_conn s = Some r" "conn_at (stack s) r = c" "0 \<le> sock_listen_port s"
    using s by (simp_all add: session_def)
  obtain d v where d: "inv d" "rxq d = ps" "sent d = sent (nic s)" "room (nic s) \<le> room d"
      "net_poll earth_of s = res_bind (transmit earth_of (s\<lparr>nic := d, stack := uip_arp_out (arp_mod s) v\<rparr>)) sync_socket_state"
    and v: "uip_wf v" "bridge_wf v" "net_config v = net_config (stack s)" "bridge_conn v = ?b" "httpd_socket_rx_len v = int n"
      "take n (httpd_socket_rx_buf v) = take n (drop 54 (uip_buf u))" "conn_at v r = ?c" "\<forall>k. k \<noteq> r \<longrightarrow> conn_at v k = conn_at (stack s) k"
      "uip_len v = 40" "tcp_ok v" "segment_of v = conn_segment v r TCP_ACK []" "length (uip_buf u) = 422"
    by (rule data_accepted [OF s p seg [unfolded u_def] c, folded u_def, folded n_def])
  have n: "0 < n" "n \<le> 368" using seg(7,8) by (simp_all add: n_def word_less_nat_alt word_le_nat_alt)
  have dest: "sg_dest (segment_of v) = ripaddr c" using v(7) by (simp add: v(11) conn_segment_def Let_def data_conn_def)
  have arp: "arp_inv (arp_mod s)" "sg_dest (segment_of v) \<noteq> broadcast_ipaddr"
      "arp_lookup (arp_mod s) (hop_to v (sg_dest (segment_of v))) = Some mac"
    using inv(1) mac hop_to_config [OF v(3)] by (simp_all add: dest resolved_def net_inv_def)
  have "0 < room d" "uip_len v > 0" "uip_len v \<le> 406" using room d(4) v(9) by simp_all
  from transmit_segment [OF d(1) this(1) v(1,10) this(2,3) arp] obtain d' f where
      d': "transmit earth_of (s\<lparr>nic := d, stack := uip_arp_out (arp_mod s) v\<rparr>) = Inr (s\<lparr>stack := uip_arp_out (arp_mod s) v, nic := d'\<rparr>)"
      "inv d'" "rxq d' = rxq d" "sent d' = shift_in (sent d) f" "room d \<le> Suc (room d')" "carries mac (segment_of v) f" by blast
  let ?v = "uip_arp_out (arp_mod s) v"
  let ?w = "s\<lparr>stack := ?v, nic := d'\<rparr>"
  let ?t = "?w\<lparr>sock_conn_open := 1, sock_conn_pending := 0, sock_conn_closed := 0, sock_tx_pending := 0, sock_rx_len := int n,
      sock_rx_buf := take n (httpd_socket_rx_buf ?v) @ drop n (sock_rx_buf s), stack := ?v\<lparr>httpd_socket_rx_len := 0\<rparr>\<rparr>"
  have bv: "bridge_wf ?v" "bridge_conn ?v = ?b" "httpd_socket_rx_len ?v = int n" "httpd_socket_rx_buf ?v = httpd_socket_rx_buf v"
    using more_fields [of ?v v] bridge_conn_more [of ?v v] v(2,4,5) by simp_all
  have rx: "length (sock_rx_buf s) = 512" using inv(1) by (simp add: net_inv_def)
  have sync: "sync_socket_state ?w = Inr ?t" using sync_data [of ?w n 1 0 0 0 0] bv n rx by simp
  then have "net_poll earth_of s = Inr ?t" using d(5) d'(1) by simp
  moreover have "kick_conn ?t = Some r" "conn_at (stack ?t) r = ?c"
    using kick_update [OF inv(2), of ?t ?c] conns_updated [OF _ v(1,7), of "stack s"] v(8) inv(1,3) c(1)
    by (simp_all add: net_inv_def data_conn_def)
  moreover have "net_inv inv ?w" using inv(1) v(1) bv(1) d'(2) by (simp add: net_inv_def)
  with sync_socket_state_ok [of inv ?w] sync have "net_inv inv ?t" by auto
  moreover have "conn_segment (stack ?t) r TCP_ACK [] = segment_of v"
    using arg_cong [OF uip_arp_out_frame(2) [of "arp_mod s" v], of fst] by (simp add: v(11) conn_segment_def Let_def conn_at_def net_config_def)
  moreover have "sent d' = shift_in (sent (nic s)) f" using d(3) d'(4) by simp
  moreover have "same_net s ?t" using v(3) by (simp add: same_net_def)
  ultimately show ?thesis
    using d(2,4) d'(3,5,6) v(6,12) bv(2,4) n(2) rx inv(4)
    by (intro exI [of _ ?t] exI [of _ f]) (simp add: session_def)
qed

lemma recv_delivers:
  fixes s :: "'d net_state" and p
  defines "u \<equiv> with_packet p (stack s)"
  defines "n \<equiv> unat (ip_total_len u) - 40"
  assumes s: "session inv s r c (1, 0, 0, 0, 0)" and p: "rxq (nic s) = p # ps" "length p \<le> 422" "0 < length p"
    and seg: "buf16 u e_type = HTONS UIP_ETHTYPE_IP" "valid_tcp u" "first_index (conn_matches u) (uip_conns (stack s)) = Some r"
      "buf8 u o_flags AND (TCP_FIN OR TCP_SYN OR TCP_RST OR TCP_URG) = 0" "buf8 u o_tcpoffset = 0x50" "buf_quad u o_seqno = rcv_nxt c"
      "ip_total_len u > 40" "ip_total_len u \<le> 408"
    and c: "tcpstateflags c = UIP_ESTABLISHED" "conn_len c = 0" and mac: "resolved s (ripaddr c) mac" and room: "0 < room (nic s)"
    and len: "int n \<le> len" "len \<le> 512" "len \<le> int (length packet)"
  shows "\<exists>s' f. sock_recv (net_serve earth_of pid) (sock_conn_id s) packet len s =
      Inr (int n, take n (drop 54 (uip_buf u)) @ drop n packet, s') \<and> same_net s s' \<and>
    session inv s' r ((data_conn u (of_nat n) c)\<lparr>nrtx := 0\<rparr>) (1, 0, 0, 0, 0) \<and> sock_conn_open s' = 1 \<and> sock_tx_pending s' = 0 \<and>
    rxq (nic s') = ps \<and> sent (nic s') = shift_in (sent (nic s)) f \<and> room (nic s) \<le> Suc (room (nic s')) \<and>
    carries mac (conn_segment (stack s') r TCP_ACK []) f"
proof -
  let ?c = "(data_conn u (of_nat n) c)\<lparr>nrtx := 0\<rparr>" and ?req = "(new_request NET_SOCK_RECV)\<lparr>rq_conn_id := sock_conn_id s, rq_length := len\<rparr>"
  obtain t f where t: "net_poll earth_of s = Inr t" "same_net s t" "outbox t = outbox s" "session inv t r ?c (1, 0, 0, 0, 0)"
      "sock_conn_open t = 1" "sock_tx_pending t = 0" "sock_rx_len t = int n" "take n (sock_rx_buf t) = take n (drop 54 (uip_buf u))"
    and tx: "rxq (nic t) = ps" "sent (nic t) = shift_in (sent (nic s)) f" "room (nic s) \<le> Suc (room (nic t))"
      "carries mac (conn_segment (stack t) r TCP_ACK []) f"
    using poll_data [OF s p seg [unfolded u_def] c mac room, folded u_def, folded n_def] by (elim exE conjE) (rule that)
  have n: "0 < n" "n \<le> 368" using seg(7,8) by (simp_all add: n_def word_less_nat_alt word_le_nat_alt)
  have tt: "0 \<le> sock_listen_port t" "sock_conn_id t = sock_conn_id s" "length (sock_rx_buf t) = 512" "net_inv inv t"
    using t(2,4) by (simp_all add: same_net_def session_def net_inv_def)
  let ?z = "send_net_reply pid (take n (drop 54 (uip_buf u)) @ drop n (reply_area ?req)) NET_OK (sock_conn_id s) (int n) (t\<lparr>sock_rx_len := 0\<rparr>)"
  have "handle_sock_recv earth_of pid ?req s = Inr ?z"
    using sock_recv_reply [OF t(1) tt(1) _ t(7) n(1) _ tt(3), of ?req pid] t(8) tt(2) n(2) len(1) by (simp add: new_request_def)
  then have step: "sys_net_step earth_of (pid, ?req) s = Inr ?z" by (simp add: sys_net_step_def new_request_def)
  have "length (uip_buf u) = 422"
    using s p(2) uip_wf_lengths(1) [of "stack s"] by (simp add: u_def with_packet_def session_def net_inv_def)
  moreover have reply: "outbox ?z = outbox s @ [(pid, Reply \<lparr>rp_status = NET_OK, rp_conn_id = sock_conn_id s, rp_length = int n,
      rp_buf = take n (drop 54 (uip_buf u)) @ drop n (reply_area ?req)\<rparr>)]"
    using t(3) by (simp add: send_net_reply_def)
  ultimately have "sock_recv (net_serve earth_of pid) (sock_conn_id s) packet len s =
      Inr (int n, take n (drop 54 (uip_buf u)) @ drop n packet, ?z)"
    using net_server.sock_recv_result [OF serve_reply [OF step reply] len(2,3)] n by simp
  moreover have "session inv ?z r ?c (1, 0, 0, 0, 0)" using t(4) by (simp add: session_def send_net_reply_def kick_conn_def net_inv_def)
  moreover have "same_net s ?z" using t(2) by (simp add: same_net_def send_net_reply_def)
  ultimately show ?thesis
    using t(5,6) tx by (intro exI [of _ ?z] exI [of _ f]) (simp add: send_net_reply_def)
qed

section \<open>Sending the answer\<close>

lemma uip_poll_outstanding:
  assumes "tcpstateflags (conn_at u r) = UIP_ESTABLISHED" and "conn_len (conn_at u r) \<noteq> 0"
  shows "uip_poll_conn app r u = Inr (drop_packet (u\<lparr>uip_conn := Some r, uip_sappdata := 54, uip_appdata := 54\<rparr>))"
  using assms by (simp add: uip_poll_conn_def uip_process_def poll_request_def uip_outstanding_def)

text \<open>The poll of the connection sends what is queued.\<close>

lemma kick_transmits:
  fixes t :: "'d net_state"
  assumes t: "session inv t r c (1, 0, 0, 1, 0)" "bridge_ok (stack t)" "httpd_socket_tx_len (stack t) = int n"
    and c: "tcpstateflags c = UIP_ESTABLISHED" "conn_len c = 0" and mac: "resolved t (ripaddr c) mac" and room: "0 < room (nic t)"
    and len: "0 < n" "n \<le> unat (mss c)"
  shows "\<exists>t' f. kick_active_connection earth_of t = Inr t' \<and> same_net t t' \<and> outbox t' = outbox t \<and> sock_tx_len t' = sock_tx_len t \<and>
    session inv t' r (c\<lparr>conn_len := of_nat n, nrtx := 0\<rparr>) (1, 0, 0, 1, 0) \<and> sock_conn_open t' = 1 \<and>
    rxq (nic t') = rxq (nic t) \<and> sent (nic t') = shift_in (sent (nic t)) f \<and> room (nic t) \<le> Suc (room (nic t')) \<and>
    carries mac (conn_segment (stack t) r (TCP_ACK OR TCP_PSH) (take n (httpd_socket_tx_buf (stack t)))) f"
proof -
  let ?c = "c\<lparr>conn_len := of_nat n, nrtx := 0\<rparr>"
  have inv: "net_inv inv t" "kick_conn t = Some r" "conn_at (stack t) r = c" "0 \<le> sock_listen_port t" "httpd_socket_rx_len (stack t) = 0"
      "bridge_conn (stack t) = (1, 0, 0, 1, 0)"
    using t(1) by (simp_all add: session_def)
  have wf: "uip_wf (stack t)" "arp_inv (arp_mod t)" "inv (nic t)" using inv(1) by (simp_all add: net_inv_def)
  have r40: "r < 40" by (rule kick_conn_slot [OF wf(1) inv(2)])
  have n: "n \<le> 366" using len(2) conn_mss_bound [OF wf(1) r40] inv(3) by simp
  have tx: "httpd_socket_tx_pending (stack t) \<noteq> 0" "httpd_socket_close_pending (stack t) = 0" "0 < httpd_socket_tx_len (stack t)"
    using inv(6) t(3) len by (simp_all add: bridge_conn_def)
  have m: "httpd_socket_tx_len (stack t) \<le> int (unat (mss (conn_at (stack t) r)))"
    using len(2) unfolding t(3) inv(3) of_nat_le_iff .
  obtain v where v: "uip_poll_conn httpd_appcall r (stack t) = Inr v" "uip_wf v" "tcp_ok v" "uip.more v = uip.more (stack t)"
      "net_config v = net_config (stack t)" "uip_len v = of_nat n + 40"
      "segment_of v = conn_segment (stack t) r (TCP_ACK OR TCP_PSH) (take n (httpd_socket_tx_buf (stack t)))"
      "uip_conns v = (uip_conns (stack t))[r := ?c]"
    using queued_data_sent_spec [OF wf(1) t(2) r40 _ _ tx m] inv(3) c unfolding t(3) nat_int of_int_of_nat_eq by blast
  have l: "uip_len v > 0" "uip_len v \<le> 406"
    using n by (simp_all add: v(6) word_less_nat_alt word_le_nat_alt unat_add_wrap unat_of_nat)
  have dest: "sg_dest (segment_of v) = ripaddr c" using inv(3) by (simp add: v(7) conn_segment_def Let_def)
  have arp: "sg_dest (segment_of v) \<noteq> broadcast_ipaddr" "arp_lookup (arp_mod t) (hop_to v (sg_dest (segment_of v))) = Some mac"
    using mac hop_to_config [OF v(5)] by (simp_all add: dest resolved_def)
  obtain d f where d: "transmit earth_of (t\<lparr>stack := uip_arp_out (arp_mod t) v\<rparr>) = Inr (t\<lparr>stack := uip_arp_out (arp_mod t) v, nic := d\<rparr>)"
      "inv d" "rxq d = rxq (nic t)" "sent d = shift_in (sent (nic t)) f" "room (nic t) \<le> Suc (room d)" "carries mac (segment_of v) f"
    using transmit_segment [OF wf(3) room v(2,3) l wf(2) arp] by simp blast
  let ?v = "uip_arp_out (arp_mod t) v"
  let ?t = "t\<lparr>stack := ?v, nic := d, sock_conn_open := 1, sock_conn_pending := 0, sock_conn_closed := 0, sock_tx_pending := 1\<rparr>"
  have bv: "bridge_conn ?v = (1, 0, 0, 1, 0)" "httpd_socket_rx_len ?v = 0" "bridge_wf ?v"
    using bridge_conn_more [of ?v "stack t"] more_fields [of ?v "stack t"] v(4) inv by (simp_all add: net_inv_def)
  then have "sync_socket_state (t\<lparr>stack := ?v, nic := d\<rparr>) = Inr ?t" by (subst sync_idle) auto
  then have "kick_active_connection earth_of t = Inr ?t"
    using inv(4) v(1) l(1) d(1) by (simp add: kick_active_connection_def inv(2))
  moreover have "kick_conn ?t = Some r" "conn_at (stack ?t) r = ?c"
    using kick_update [OF inv(2), of ?t ?c] v(8) inv(3) c(1) by simp_all
  moreover have "net_inv inv ?t" using inv(1) v(2) bv(3) d(2) by (simp add: net_inv_def)
  ultimately show ?thesis
    using d(3-6) v(5,7) bv inv(4) by (intro exI [of _ ?t] exI [of _ f]) (simp add: session_def same_net_def)
qed

text \<open>Nothing waits: \<^verbatim>\<open>sock_send()\<close> of one segment hands it to the device as one frame.\<close>

lemma send_transmits:
  fixes s :: "'d net_state"
  assumes s: "session inv s r c (1, 0, 0, 0, 0)" "sock_conn_open s = 1" "sock_tx_pending s = 0" "rxq (nic s) = []"
    and c: "tcpstateflags c = UIP_ESTABLISHED" "conn_len c = 0" and mac: "resolved s (ripaddr c) mac" and room: "0 < room (nic s)"
    and len: "0 < n" "n \<le> unat (mss c)" "n \<le> length packet"
  shows "\<exists>s' f. sock_send (net_serve earth_of pid) (sock_conn_id s) packet (int n) s = Inr (int n, s') \<and> same_net s s' \<and>
    session inv s' r (c\<lparr>conn_len := of_nat n, nrtx := 0\<rparr>) (1, 0, 0, 1, 0) \<and> sock_conn_open s' = 1 \<and>
    rxq (nic s') = [] \<and> sent (nic s') = shift_in (sent (nic s)) f \<and> room (nic s) \<le> Suc (room (nic s')) \<and>
    carries mac (conn_segment (stack s) r (TCP_ACK OR TCP_PSH) (take n packet)) f"
proof -
  let ?c = "c\<lparr>conn_len := of_nat n, nrtx := 0\<rparr>"
  have inv: "net_inv inv s" "kick_conn s = Some r" "conn_at (stack s) r = c" "0 \<le> sock_listen_port s" "httpd_socket_rx_len (stack s) = 0"
      "bridge_conn (stack s) = (1, 0, 0, 0, 0)"
    using s(1) by (simp_all add: session_def)
  have wf: "uip_wf (stack s)" using inv(1) by (simp add: net_inv_def)
  have n: "n \<le> 366" using len(2) conn_mss_bound [OF wf kick_conn_slot [OF wf inv(2)]] inv(3) by simp
  obtain d where d: "net_poll earth_of s = Inr (s\<lparr>stack := (stack s)\<lparr>uip_len := 0\<rparr>, nic := d\<rparr>)" "inv d" "rxq d = []"
      "sent d = sent (nic s)" "room (nic s) \<le> room d"
    using poll_none [OF inv(1) s(4)] by blast
  let ?p = "s\<lparr>stack := (stack s)\<lparr>uip_len := 0\<rparr>, nic := d\<rparr>" and ?b = "take n packet @ replicate (512 - n) 0"
  let ?req = "(new_request NET_SOCK_SEND)\<lparr>rq_conn_id := sock_conn_id s, rq_length := int n, rq_buf := ?b\<rparr>"
  have pinv: "net_inv inv ?p" using inv(1) d(2) by (simp add: net_inv_def uip_wf_def bridge_wf_def)
  have req: "length (rq_buf ?req) = 512" "0 < rq_length ?req" "rq_length ?req \<le> 368" "rq_length ?req = int n"
      "take n (rq_buf ?req) = take n packet"
    using len n by (simp_all add: new_request_def)
  from sock_queue_tx_spec [OF pinv req(1-3)] obtain t where t: "sock_queue_tx ?req ?p = Inr t" "net_inv inv t" "bridge_ok (stack t)"
      "nic t = d" "arp_mod t = arp_mod s" "outbox t = outbox s" "sock_listen_port t = sock_listen_port s" "sock_tx_len t = int n"
      "sock_tx_pending t = 1" "uip_conns (stack t) = uip_conns (stack s)" "net_config (stack t) = net_config (stack s)"
      "httpd_socket_tx_len (stack t) = int n" "take n (httpd_socket_tx_buf (stack t)) = take n packet"
    unfolding req(4) nat_int req(5) by auto
  note q = sock_queue_tx_frame [OF t(1)]
  have bt: "bridge_conn (stack t) = (1, 0, 0, 1, 0)" "httpd_socket_rx_len (stack t) = 0" "sock_conn_id t = sock_conn_id s" "sock_conn_open t = 1"
    using q(4) [of 1 0 0 0 0] q(1-3) inv(5,6) s(2) by simp_all
  have ct: "conn_at (stack t) r = c" "kick_conn t = Some r" using t(7,10) inv(2,3) by (simp_all add: conn_at_def kick_conn_def)
  then have st: "session inv t r c (1, 0, 0, 1, 0)" using t(2,7) bt inv(4) by (simp add: session_def)
  have mt: "resolved t (ripaddr c) mac" "0 < room (nic t)"
    using mac t(4,5) hop_to_config [OF t(11)] room d(5) by (simp_all add: resolved_def)
  obtain t' f where t': "kick_active_connection earth_of t = Inr t'" "same_net t t'" "outbox t' = outbox s" "sock_tx_len t' = int n"
      "session inv t' r ?c (1, 0, 0, 1, 0)" "sock_conn_open t' = 1" "rxq (nic t') = []" "sent (nic t') = shift_in (sent d) f"
      "room d \<le> Suc (room (nic t'))" "carries mac (conn_segment (stack t) r (TCP_ACK OR TCP_PSH) (take n packet)) f"
    using kick_transmits [OF st t(3,12) c mt len(1,2)] unfolding t(4,6,8,13) d(3) by blast
  have seg: "conn_segment (stack t) r fl da = conn_segment (stack s) r fl da" for fl da
    using ct(1) inv(3) t(11) by (simp add: conn_segment_def net_config_def)
  have q: "sent (nic t') = shift_in (sent (nic s)) f" using d(4) t'(8) by simp
  let ?z = "send_net_reply pid (reply_area ?req) NET_OK (sock_conn_id s) (int n) t'"
  have "handle_sock_send earth_of pid ?req s = Inr ?z"
    using d(1) s(2,3) inv(4) t(1,9) t'(1,4) by (simp add: handle_sock_send_def socket_conn_valid_def net_kick_tx_def)
  then have "sys_net_step earth_of (pid, ?req) s = Inr ?z" by (simp add: sys_net_step_def new_request_def)
  then have "sock_send (net_serve earth_of pid) (sock_conn_id s) packet (int n) s = Inr (int n, ?z)"
    using len(3) n by (simp add: sock_send_def memcpy_int_def mem_read_def mem_write_def new_request_def net_serve_def send_net_reply_def)
  moreover have "session inv ?z r ?c (1, 0, 0, 1, 0)" using t'(5) by (simp add: session_def send_net_reply_def kick_conn_def net_inv_def)
  moreover have "same_net s ?z" using t'(2) t(5,7,11) bt(3) by (simp add: same_net_def send_net_reply_def)
  ultimately show ?thesis
    using t'(6,7,9,10) d(5) q seg by (intro exI [of _ ?z] exI [of _ f]) (simp add: send_net_reply_def)
qed

section \<open>Closing\<close>

text \<open>
  While data is in flight \<^verbatim>\<open>sock_close()\<close> sends nothing: the bridge keeps the request and closes when the data is acknowledged.
\<close>

lemma close_deferred:
  fixes s :: "'d net_state"
  assumes s: "session inv s r c (1, 0, 0, 1, 0)" "sock_conn_open s = 1" "rxq (nic s) = []"
    and c: "tcpstateflags c = UIP_ESTABLISHED" "conn_len c \<noteq> 0"
  shows "\<exists>s'. sock_close (net_serve earth_of pid) (sock_conn_id s) s = Inr (0, s') \<and> same_net s s' \<and>
    session inv s' r c (1, 0, 0, 1, 1) \<and> rxq (nic s') = [] \<and> sent (nic s') = sent (nic s) \<and> room (nic s) \<le> room (nic s')"
proof -
  have inv: "net_inv inv s" "kick_conn s = Some r" "conn_at (stack s) r = c" "0 \<le> sock_listen_port s" "httpd_socket_rx_len (stack s) = 0"
      "bridge_conn (stack s) = (1, 0, 0, 1, 0)"
    using s(1) by (simp_all add: session_def)
  have wf: "uip_wf (stack s)" "bridge_wf (stack s)" using inv(1) by (simp_all add: net_inv_def)
  have r40: "r < 40" by (rule kick_conn_slot [OF wf(1) inv(2)])
  obtain d where d: "net_poll earth_of s = Inr (s\<lparr>stack := (stack s)\<lparr>uip_len := 0\<rparr>, nic := d\<rparr>)" "inv d" "rxq d = []"
      "sent d = sent (nic s)" "room (nic s) \<le> room d"
    using poll_none [OF inv(1) s(3)] by blast
  let ?u = "(stack s)\<lparr>uip_len := 0, httpd_socket_close_pending := 1\<rparr>"
  let ?p = "s\<lparr>nic := d, stack := ?u\<rparr>"
  define v where "v = drop_packet (?u\<lparr>uip_conn := Some r, uip_sappdata := 54, uip_appdata := 54\<rparr>)"
  have "conn_at ?u r = c" using inv(3) by (simp add: conn_at_def)
  then have poll: "uip_poll_conn httpd_appcall r ?u = Inr v" using c by (simp add: uip_poll_outstanding v_def)
  have v: "uip_len v = 0" "bridge_conn v = (1, 0, 0, 1, 1)" "httpd_socket_rx_len v = 0" "uip_conns v = uip_conns (stack s)"
      "net_config v = net_config (stack s)" "uip_wf v" "bridge_wf v"
    using inv(5,6) wf r40 by (simp_all add: v_def drop_packet_def bridge_conn_def net_config_def uip_wf_def bridge_wf_def)
  have k: "kick_conn ?p = Some r" using inv(2) by (simp add: kick_conn_def)
  let ?t = "?p\<lparr>stack := v, sock_conn_open := 1, sock_conn_pending := 0, sock_conn_closed := 0, sock_tx_pending := 1\<rparr>"
  have kick: "net_kick_close earth_of ?p = Inr ?t"
    using inv(4) poll v(1-3) sync_idle [of "?p\<lparr>stack := v\<rparr>" 1 0 0 1 1] by (simp add: net_kick_close_def kick_active_connection_def k)
  let ?req = "(new_request NET_SOCK_CLOSE)\<lparr>rq_conn_id := sock_conn_id s\<rparr>"
  let ?z = "send_net_reply pid (reply_area ?req) NET_OK (sock_conn_id s) 0
      (?t\<lparr>sock_conn_open := 0, sock_conn_pending := 0, sock_tx_pending := 0, sock_rx_len := 0\<rparr>)"
  have "handle_sock_close earth_of pid ?req s = Inr ?z"
    using d(1) s(2) inv(4) kick by (simp add: handle_sock_close_def socket_conn_valid_def)
  then have "sock_close (net_serve earth_of pid) (sock_conn_id s) s = Inr (0, ?z)"
    by (simp add: sock_close_def net_serve_def sys_net_step_def new_request_def send_net_reply_def)
  moreover have "session inv ?z r c (1, 0, 0, 1, 1)"
    using inv v d(2) by (simp add: session_def send_net_reply_def kick_conn_def net_inv_def conn_at_def)
  moreover have "same_net s ?z" using v(5) by (simp add: same_net_def send_net_reply_def)
  ultimately show ?thesis
    using d(3-5) by (intro exI [of _ ?z]) (simp add: send_net_reply_def)
qed

end

end
