(* ===== verification/Http_Props.thy ===== *)
theory Http_Props
  imports Http_Session
begin

text \<open>
  One turn of the loop of \<^verbatim>\<open>apps/user/http.c\<close> over the client stubs, the network service, the bridge, the uIP stack, the address resolution
  and the driver: a request that waits in the receive ring is answered by the page in the transmit ring.
\<close>

section \<open>A frame in the packet buffer\<close>

text \<open>What the stack reads of a frame that holds its whole packet does not depend on what was in the buffer before.\<close>

lemma with_packet_buf:
  assumes "i < length p"
  shows "buf8 (with_packet p x) i = p ! i"
  using assms by (simp add: buf8_def with_packet_def nth_append)

lemma with_packet_fields:
  assumes "54 \<le> length p"
  shows "buf8 (with_packet p x) o_vhl = p ! o_vhl" "buf8 (with_packet p x) o_ipoffset = p ! o_ipoffset"
    "buf8 (with_packet p x) (o_ipoffset + 1) = p ! (o_ipoffset + 1)" "buf8 (with_packet p x) o_proto = p ! o_proto"
    "buf8 (with_packet p x) o_flags = p ! o_flags" "buf8 (with_packet p x) o_tcpoffset = p ! o_tcpoffset"
    "buf16 (with_packet p x) e_type = get16 p e_type"
    "ip_total_len (with_packet p x) = push_bit 8 (ucast (p ! o_len)) + ucast (p ! (o_len + 1))"
    "window_of (with_packet p x) c = (let w = push_bit 8 (ucast (p ! o_wnd)) + ucast (p ! (o_wnd + 1))
       in if w > initialmss c \<or> w = 0 then initialmss c else w)"
  using assms by (simp_all add: with_packet_buf ip_total_len_def window_of_def get16_def buf16_def)
    (simp_all add: with_packet_def nth_append get16_def)

lemma with_packet_same:
  fixes x y :: "'a uip_scheme"
  assumes p: "54 \<le> length p" "14 + unat (ip_total_len (with_packet p x)) \<le> length p" "20 \<le> ip_total_len (with_packet p x)"
    and xy: "net_config y = net_config x" "length (uip_buf x) = 422" "length (uip_buf y) = 422" "length p \<le> 422"
  shows "valid_tcp (with_packet p y) = valid_tcp (with_packet p x)" and "conn_matches (with_packet p y) = conn_matches (with_packet p x)"
    and "buf_quad (with_packet p y) o_seqno = buf_quad (with_packet p x) o_seqno"
    and "buf_quad (with_packet p y) o_ackno = buf_quad (with_packet p x) o_ackno"
proof -
  let ?x = "with_packet p x" and ?y = "with_packet p y"
  have b: "buf8 ?y i = buf8 ?x i" if "i < length p" for i using that by (simp add: with_packet_buf)
  have g: "get16 (p @ z) i = get16 p i" if "i + 1 < length p" for z i using that by (simp add: get16_def nth_append)
  have w: "buf16 ?y i = buf16 ?x i" if "i + 1 < length p" for i using that by (simp add: buf16_def with_packet_def g)
  have a: "buf_addr ?y i = buf_addr ?x i" if "i + 3 < length p" for i using that by (simp add: buf_addr_def with_packet_def g)
  have q: "buf_quad ?y i = buf_quad ?x i" if "i + 3 < length p" for i using that by (simp add: buf_quad_def with_packet_def nth_append)
  show "conn_matches ?y = conn_matches ?x" using p(1) by (simp add: conn_matches_def w a fun_eq_iff)
  show "buf_quad ?y o_seqno = buf_quad ?x o_seqno" "buf_quad ?y o_ackno = buf_quad ?x o_ackno" using p(1) by (simp_all add: q)
  have t: "take n (drop m (uip_buf ?y)) = take n (drop m (uip_buf ?x))" if "m + n \<le> length p" for m n
    using that by (simp add: with_packet_def)
  have l: "upper_layer_len ?y = upper_layer_len ?x" "ip_total_len ?y = ip_total_len ?x"
    using p(1) by (simp_all add: upper_layer_len_def ip_total_len_def b)
  have "unat (upper_layer_len ?x) = unat (ip_total_len ?x) - 20"
    using p(3) by (simp add: upper_layer_len_def ip_total_len_def unat_sub)
  then have m: "34 + unat (upper_layer_len ?x) \<le> length p" using p(1,2) by simp
  have "mem_read (uip_buf ?y) 34 (unat (upper_layer_len ?x)) = mem_read (uip_buf ?x) 34 (unat (upper_layer_len ?x))"
    using t [of 34 "unat (upper_layer_len ?x)"] m xy(2-4) by (simp add: mem_read_def) (simp add: with_packet_def)
  then have "uip_tcpchksum ?y = uip_tcpchksum ?x"
    using t [of o_srcipaddr 8] p(1) l(1) by (simp add: uip_tcpchksum_def upper_layer_chksum_def)
  moreover have "uip_ipchksum ?y = uip_ipchksum ?x" using t [of UIP_LLH_LEN 20] p(1) by (simp add: uip_ipchksum_def)
  moreover have "uip_hostaddr ?y = uip_hostaddr ?x" "uip_len ?y = uip_len ?x" using xy(1) by (simp_all add: with_packet_def net_config_def)
  ultimately show "valid_tcp ?y = valid_tcp ?x" using p(1) l by (simp add: valid_tcp_def b a)
qed

section \<open>One turn of the HTTP program\<close>

text \<open>The segment that answers a peer: addresses and ports of the connection, and the window.\<close>

definition answer :: "ip4addr \<Rightarrow> uip_conn_t \<Rightarrow> quad \<Rightarrow> quad \<Rightarrow> u8 \<Rightarrow> bytes \<Rightarrow> segment" where
  "answer host c sq ak flags data = \<lparr>sg_src = host, sg_dest = ripaddr c, sg_srcport = lport c, sg_destport = rport c,
     sg_seq = sq, sg_ack = ak, sg_offset = 0x50, sg_flags = flags, sg_wnd = UIP_RECEIVE_WINDOW, sg_data = data\<rparr>"

text \<open>The page without its terminator.\<close>

definition page :: bytes where
  "page = butlast hello_response"

lemma page_facts: "strlen hello_response = Inr 102" "length page = 102" "take 102 hello_response = page" "length hello_response = 103"
  by code_simp+

text \<open>
  The frames that a turn meets: \<open>a\<close> completes the handshake of connection \<open>r\<close>, \<open>g\<close> is a request in sequence.
\<close>

definition completes_handshake :: "httpd_uip \<Rightarrow> nat \<Rightarrow> bytes \<Rightarrow> bool" where
  "completes_handshake x r a \<longleftrightarrow> (let u = with_packet a x in 0 < length a \<and> length a \<le> 422 \<and>
     buf16 u e_type = HTONS UIP_ETHTYPE_IP \<and> valid_tcp u \<and> first_index (conn_matches u) (uip_conns x) = Some r \<and> acks_all u r \<and>
     buf8 u o_flags AND (TCP_FIN OR TCP_SYN OR TCP_RST) = 0 \<and> seg_datalen u = 0)"

definition brings_request :: "httpd_uip \<Rightarrow> nat \<Rightarrow> bytes \<Rightarrow> bool" where
  "brings_request x r g \<longleftrightarrow> (let u = with_packet g x in 54 \<le> length g \<and> length g \<le> 422 \<and> 14 + unat (ip_total_len u) \<le> length g \<and>
     buf16 u e_type = HTONS UIP_ETHTYPE_IP \<and> valid_tcp u \<and> first_index (conn_matches u) (uip_conns x) = Some r \<and>
     buf8 u o_flags AND (TCP_FIN OR TCP_SYN OR TCP_RST OR TCP_URG) = 0 \<and> buf8 u o_tcpoffset = 0x50 \<and>
     buf_quad u o_seqno = rcv_nxt (conn_at x r) \<and> ip_total_len u > 40)"

definition request_data :: "bytes \<Rightarrow> bytes" where
  "request_data g = take (unat (push_bit 8 (ucast (g ! o_len)) + ucast (g ! (o_len + 1)) :: u16) - 40) (drop 54 g)"

text \<open>A request is one also after the connection has been accepted.\<close>

lemma brings_request_later:
  assumes g: "brings_request x r g" and y: "net_config y = net_config x" "length (uip_buf x) = 422" "length (uip_buf y) = 422"
      "uip_conns y = (uip_conns x)[r := c]"
    and c: "tcpstateflags c \<noteq> UIP_CLOSED" "lport c = lport (conn_at x r)" "rport c = rport (conn_at x r)" "ripaddr c = ripaddr (conn_at x r)"
      "rcv_nxt c = rcv_nxt (conn_at x r)"
  shows "brings_request y r g"
proof -
  let ?u = "with_packet g x"
  have f: "first_index (conn_matches ?u) (uip_conns x) = Some r" "54 \<le> length g" "length g \<le> 422" "14 + unat (ip_total_len ?u) \<le> length g"
      "ip_total_len ?u > 40"
    using g by (simp_all add: brings_request_def Let_def)
  from first_index_Some [OF f(1)] have r: "r < length (uip_conns x)" "conn_matches ?u (conn_at x r)" by (simp_all add: conn_at_def)
  then have "conn_matches ?u c" using c by (simp add: conn_matches_def)
  note m = first_index_update [OF f(1) this]
  have "20 \<le> ip_total_len ?u" using f(5) by (simp add: word_less_nat_alt word_le_nat_alt)
  note s = with_packet_same [OF f(2,4) this y(1-3) f(3)]
  have "conn_at y r = c" using r(1) y(4) by (simp add: conn_at_def)
  then show ?thesis
    using g m c(5) f(2) unfolding brings_request_def Let_def y(4) s by (simp add: with_packet_fields)
qed

text \<open>The connection after the handshake and the request.\<close>

definition served_conn :: "httpd_uip \<Rightarrow> bytes \<Rightarrow> bytes \<Rightarrow> uip_conn_t \<Rightarrow> uip_conn_t" where
  "served_conn x a g c = (data_conn (with_packet g x) (of_nat (length (request_data g)))
     ((acked_conn (buf_quad (with_packet a x) o_ackno) c)\<lparr>tcpstateflags := UIP_ESTABLISHED, nrtx := 0\<rparr>))\<lparr>nrtx := 0\<rparr>"

lemma served_window: "mss (served_conn x a g c) = window_of (with_packet g x) c"
  by (simp add: served_conn_def data_conn_def window_of_def Let_def)

lemma session_segment:
  assumes "session I t r (served_conn x a g c) b" and "net_config (stack t) = net_config x"
  shows "conn_segment (stack t) r fl d = answer (uip_hostaddr x) c (buf_quad (with_packet a x) o_ackno)
    (uip_add32 (rcv_nxt c) (of_nat (length (request_data g)))) fl d"
  using assms by (simp add: session_def conn_segment_def answer_def served_conn_def data_conn_def net_config_def Let_def)

context wire
begin

text \<open>The first half of a turn: the program has the connection and the request, the peer an acknowledgement.\<close>

lemma request_received:
  fixes s :: "'d net_state"
  defines "x \<equiv> stack s"
  assumes s: "session inv s r c (opn, pnd, clo, 0, 0)" and c: "tcpstateflags c = UIP_SYN_RCVD"
    and rx: "rxq (nic s) = [a, g]" and a: "completes_handshake x r a" and g: "brings_request x r g"
    and mac: "resolved s (ripaddr c) mac" and room: "0 < room (nic s)" and buf: "length req_buf = 512"
  obtains s1 s2 f where "sock_accept (net_serve earth_of pid) s = Inr (sock_conn_id s, s1)"
    and "sock_recv (net_serve earth_of pid) (sock_conn_id s) req_buf 512 s1 =
      Inr (int (length (request_data g)), request_data g @ drop (length (request_data g)) req_buf, s2)"
    and "same_net s s2" and "session inv s2 r (served_conn x a g c) (1, 0, 0, 0, 0)" and "sock_conn_open s2 = 1" and "sock_tx_pending s2 = 0"
    and "rxq (nic s2) = []" and "sent (nic s2) = shift_in (sent (nic s)) f" and "room (nic s) \<le> Suc (room (nic s2))"
    and "carries mac (conn_segment (stack s2) r TCP_ACK []) f"
proof -
  let ?q = "buf_quad (with_packet a x) o_ackno" and ?n = "length (request_data g)"
  define c1 where "c1 = (acked_conn ?q c)\<lparr>tcpstateflags := UIP_ESTABLISHED, nrtx := 0\<rparr>"
  have p: "length a \<le> 422" "0 < length a" and hs: "buf16 (with_packet a x) e_type = HTONS UIP_ETHTYPE_IP" "valid_tcp (with_packet a x)"
      "first_index (conn_matches (with_packet a x)) (uip_conns (stack s)) = Some r" "acks_all (with_packet a x) r"
      "buf8 (with_packet a x) o_flags AND (TCP_FIN OR TCP_SYN OR TCP_RST) = 0" "seg_datalen (with_packet a x) = 0"
    using a by (simp_all add: completes_handshake_def Let_def x_def)
  obtain s1 where s1: "sock_accept (net_serve earth_of pid) s = Inr (sock_conn_id s, s1)" "same_net s s1"
      "session inv s1 r c1 (1, 0, 0, 0, 0)" "uip_conns (stack s1) = (uip_conns x)[r := c1]" "rxq (nic s1) = [g]"
      "sent (nic s1) = sent (nic s)" "room (nic s) \<le> room (nic s1)"
    using accept_completes [OF s(1) refl rx p hs [unfolded x_def] c, of pid] unfolding c1_def x_def by blast
  let ?y = "stack s1" and ?u = "with_packet g (stack s1)"
  have wf: "length (uip_buf x) = 422" "length (uip_buf ?y) = 422" "conn_at x r = c" "conn_at ?y r = c1" "net_config ?y = net_config x"
    using s(1) s1(2,3) uip_wf_lengths(1) by (auto simp: session_def net_inv_def x_def same_net_def)
  then have r: "brings_request ?y r g"
    using brings_request_later [OF g _ wf(1,2) s1(4)] by (simp add: c1_def)
  have g: "54 \<le> length g" "length g \<le> 422" "14 + unat (ip_total_len ?u) \<le> length g" and
      gs: "buf16 ?u e_type = HTONS UIP_ETHTYPE_IP" "valid_tcp ?u" "first_index (conn_matches ?u) (uip_conns ?y) = Some r"
      "buf8 ?u o_flags AND (TCP_FIN OR TCP_SYN OR TCP_RST OR TCP_URG) = 0" "buf8 ?u o_tcpoffset = 0x50" "buf_quad ?u o_seqno = rcv_nxt c1"
      "ip_total_len ?u > 40" "ip_total_len ?u \<le> 408"
    using r wf(4) by (simp_all add: brings_request_def Let_def word_le_nat_alt)
  have pos: "0 < length g" using g(1) by linarith
  have n: "unat (ip_total_len ?u) - 40 = ?n" "take ?n (drop 54 (uip_buf ?u)) = request_data g" "?n \<le> 368"
    using g by (simp_all add: request_data_def with_packet_fields) (simp add: with_packet_def)
  have c1: "tcpstateflags c1 = UIP_ESTABLISHED" "conn_len c1 = 0" "resolved s1 (ripaddr c1) mac" "0 < room (nic s1)"
    using mac same_net_resolved [OF s1(2)] room s1(7) by (simp_all add: c1_def)
  have buf': "int (unat (ip_total_len ?u) - 40) \<le> 512" "(512 :: int) \<le> 512" "(512 :: int) \<le> int (length req_buf)"
    using n(1,3) buf by simp_all
  have "(data_conn ?u (of_nat ?n) c1)\<lparr>nrtx := 0\<rparr> = served_conn x a g c"
    using g(1) by (simp add: served_conn_def data_conn_def with_packet_fields c1_def)
  with recv_delivers [OF s1(3,5) g(2) pos gs c1 buf', of pid] n
  obtain s2 f where s2: "sock_recv (net_serve earth_of pid) (sock_conn_id s1) req_buf 512 s1 =
      Inr (int ?n, request_data g @ drop ?n req_buf, s2)" "same_net s1 s2" "session inv s2 r (served_conn x a g c) (1, 0, 0, 0, 0)"
      "sock_conn_open s2 = 1" "sock_tx_pending s2 = 0" "rxq (nic s2) = []" "sent (nic s2) = shift_in (sent (nic s1)) f"
      "room (nic s1) \<le> Suc (room (nic s2))" "carries mac (conn_segment (stack s2) r TCP_ACK []) f" by auto
  have "sock_conn_id s1 = sock_conn_id s" "room (nic s) \<le> Suc (room (nic s2))" using s1(2,7) s2(8) by (simp_all add: same_net_def)
  moreover have "sent (nic s2) = shift_in (sent (nic s)) f" using s1(6) s2(7) by simp
  ultimately show thesis using that s1(1) s2 same_net_trans [OF s1(2) s2(2)] by simp
qed

text \<open>The second half: the page is handed over, and the connection will be closed once it has arrived.\<close>

lemma page_sent:
  fixes s :: "'d net_state"
  assumes s: "session inv s r c (1, 0, 0, 0, 0)" "sock_conn_open s = 1" "sock_tx_pending s = 0" "rxq (nic s) = []"
    and c: "tcpstateflags c = UIP_ESTABLISHED" "conn_len c = 0" and mac: "resolved s (ripaddr c) mac" and room: "0 < room (nic s)"
    and win: "length page \<le> unat (mss c)"
  obtains t s' f where "sock_send (net_serve earth_of pid) (sock_conn_id s) hello_response (int (length page)) s = Inr (int (length page), t)"
    and "sock_close (net_serve earth_of pid) (sock_conn_id s) t = Inr (0, s')" and "same_net s s'"
    and "session inv s' r (c\<lparr>conn_len := of_nat (length page), nrtx := 0\<rparr>) (1, 0, 0, 1, 1)" and "rxq (nic s') = []"
    and "sent (nic s') = shift_in (sent (nic s)) f" and "carries mac (conn_segment (stack s) r (TCP_ACK OR TCP_PSH) page) f"
proof -
  have len: "0 < length page" "length page \<le> length hello_response" and pg: "take (length page) hello_response = page"
    by (simp_all add: page_facts)
  obtain t f where t: "sock_send (net_serve earth_of pid) (sock_conn_id s) hello_response (int (length page)) s = Inr (int (length page), t)"
      "same_net s t" "session inv t r (c\<lparr>conn_len := of_nat (length page), nrtx := 0\<rparr>) (1, 0, 0, 1, 0)" "sock_conn_open t = 1"
      "rxq (nic t) = []" "sent (nic t) = shift_in (sent (nic s)) f" "carries mac (conn_segment (stack s) r (TCP_ACK OR TCP_PSH) page) f"
    using send_transmits [OF s c mac room len(1) win len(2), of pid] unfolding pg by blast
  have "tcpstateflags (c\<lparr>conn_len := of_nat (length page), nrtx := 0\<rparr>) = UIP_ESTABLISHED"
      "conn_len (c\<lparr>conn_len := of_nat (length page), nrtx := 0\<rparr>) \<noteq> 0"
    using c(1) by (simp_all add: page_facts)
  from close_deferred [OF t(3-5) this, of pid] obtain s' where s': "sock_close (net_serve earth_of pid) (sock_conn_id t) t = Inr (0, s')"
      "same_net t s'" "session inv s' r (c\<lparr>conn_len := of_nat (length page), nrtx := 0\<rparr>) (1, 0, 0, 1, 1)" "rxq (nic s') = []"
      "sent (nic s') = sent (nic t)" by blast
  have "sock_conn_id t = sock_conn_id s" using t(2) by (simp add: same_net_def)
  moreover have "sent (nic s') = shift_in (sent (nic s)) f" using s'(5) t(6) by simp
  ultimately show thesis using that t(1,7) s' same_net_trans [OF t(2) s'(2)] by simp
qed

lemma turn_serves:
  fixes s :: "'d net_state"
  defines "x \<equiv> stack s"
  assumes s: "session inv s r c (opn, pnd, clo, 0, 0)" "0 \<le> sock_conn_id s" and c: "tcpstateflags c = UIP_SYN_RCVD"
    and rx: "rxq (nic s) = [a, g]" and a: "completes_handshake x r a" and g: "brings_request x r g"
    and win: "length page \<le> unat (window_of (with_packet g x) c)" and mac: "resolved s (ripaddr c) mac" and room: "2 \<le> room (nic s)"
    and buf: "length req_buf = 512"
  shows "\<exists>s' f1 f2. http_turn (net_serve earth_of pid) (req_buf, s) =
      Inr (request_data g @ drop (length (request_data g)) req_buf, s') \<and>
    sent (nic s') = shift_in (shift_in (sent (nic s)) f1) f2 \<and> rxq (nic s') = [] \<and>
    carries mac (answer (uip_hostaddr x) c (buf_quad (with_packet a x) o_ackno)
      (uip_add32 (rcv_nxt c) (of_nat (length (request_data g)))) TCP_ACK []) f1 \<and>
    carries mac (answer (uip_hostaddr x) c (buf_quad (with_packet a x) o_ackno)
      (uip_add32 (rcv_nxt c) (of_nat (length (request_data g)))) (TCP_ACK OR TCP_PSH) page) f2 \<and>
    httpd_socket_close_pending (stack s') = 1 \<and> conn_len (conn_at (stack s') r) = of_nat (length page)"
proof -
  let ?n = "length (request_data g)" and ?c = "served_conn x a g c"
  have "0 < room (nic s)" using room by simp
  from request_received [OF s(1) c rx a [unfolded x_def] g [unfolded x_def] mac this buf, of pid, folded x_def]
  obtain s1 s2 f1 where s1: "sock_accept (net_serve earth_of pid) s = Inr (sock_conn_id s, s1)"
    and s2: "sock_recv (net_serve earth_of pid) (sock_conn_id s) req_buf 512 s1 = Inr (int ?n, request_data g @ drop ?n req_buf, s2)"
      "same_net s s2" "session inv s2 r ?c (1, 0, 0, 0, 0)" "sock_conn_open s2 = 1" "sock_tx_pending s2 = 0"
      "rxq (nic s2) = []" "sent (nic s2) = shift_in (sent (nic s)) f1" "room (nic s) \<le> Suc (room (nic s2))"
      "carries mac (conn_segment (stack s2) r TCP_ACK []) f1" .
  have gl: "54 \<le> length g" "length g \<le> 422" "14 + unat (ip_total_len (with_packet g x)) \<le> length g" "ip_total_len (with_packet g x) > 40"
    using g by (simp_all add: brings_request_def Let_def)
  then have n: "0 < ?n" by (simp add: request_data_def with_packet_fields word_less_nat_alt)
  have c2: "tcpstateflags ?c = UIP_ESTABLISHED" "conn_len ?c = 0" "resolved s2 (ripaddr ?c) mac" "0 < room (nic s2)" "length page \<le> unat (mss ?c)"
    using mac same_net_resolved [OF s2(2)] room s2(8) win by (simp_all add: served_window) (simp_all add: served_conn_def data_conn_def)
  from page_sent [OF s2(3-6) c2, of pid] obtain t s' f2 where
      t: "sock_send (net_serve earth_of pid) (sock_conn_id s2) hello_response (int (length page)) s2 = Inr (int (length page), t)"
      "sock_close (net_serve earth_of pid) (sock_conn_id s2) t = Inr (0, s')" "same_net s2 s'"
      "session inv s' r (?c\<lparr>conn_len := of_nat (length page), nrtx := 0\<rparr>) (1, 0, 0, 1, 1)" "rxq (nic s') = []"
      "sent (nic s') = shift_in (sent (nic s2)) f2" "carries mac (conn_segment (stack s2) r (TCP_ACK OR TCP_PSH) page) f2" .
  have id: "sock_conn_id s2 = sock_conn_id s" "net_config (stack s2) = net_config x" using s2(2) by (simp_all add: same_net_def x_def)
  have "http_turn (net_serve earth_of pid) (req_buf, s) = Inr (request_data g @ drop ?n req_buf, s')"
    using s1 s2(1) t(1,2) s(2) n by (simp add: http_turn_def id(1) page_facts)
  moreover have "sent (nic s') = shift_in (shift_in (sent (nic s)) f1) f2"
    using s2(7) t(6) by simp
  moreover note s2(9) [unfolded session_segment [OF s2(3) id(2)]] t(7) [unfolded session_segment [OF s2(3) id(2)]]
  ultimately show ?thesis using t(4,5) by (auto simp: session_def bridge_conn_def)
qed

end

section \<open>The HTTP server answers a request\<close>

context quiet_nic
begin

lemmas e1000_turn_serves = turn_serves

end

text \<open>
  C1: the HTTP server answers a request, from the wire to the wire. The service listens, a connection is in state \<^verbatim>\<open>SYN_RCVD\<close>, and the device holds two
  frames: the acknowledgement that completes the handshake, and a request in sequence. The peer's hardware address is cached, its window
  admits the page, and the device sends what it is given and receives nothing more in the meantime. Then one turn of the loop of \<^verbatim>\<open>http.c\<close>
  accepts the connection, reads exactly the bytes of the request, and hands exactly two frames to the device (the transmit buffers hold the last 16, in
  order): first an acknowledgement of the request, then the page, both for the cached hardware address, with valid checksums, the addresses and ports of the connection, the sequence number
  that the peer has acknowledged and the one behind the request. The page is then in flight, and the close is pending until it has arrived.
\<close>

theorem http_request_served:
  fixes s :: "'h e1000 net_state"
  assumes dev: "nic_tx_ok dev" "nic_completes dev" "nic_rx_quiet dev"
    and s: "session (\<lambda>d. tx_inv d \<and> rx_inv d) s r c (opn, pnd, clo, 0, 0)" "0 \<le> sock_conn_id s" and c: "tcpstateflags c = UIP_SYN_RCVD"
    and rx: "rx_pending (nic s) = [a, g]" and tx: "tx_count (nic s) \<le> 13"
    and a: "completes_handshake (stack s) r a" and g: "brings_request (stack s) r g"
    and win: "length page \<le> unat (window_of (with_packet g (stack s)) c)" and mac: "resolved s (ripaddr c) mac"
    and buf: "length req_buf = NET_BUF_SIZE"
  shows "\<exists>s' f1 f2. http_turn (net_serve (e1000_earth dev) pid) (req_buf, s) =
      Inr (request_data g @ drop (length (request_data g)) req_buf, s') \<and>
    tx_sent (nic s') = drop 2 (tx_sent (nic s)) @ [f1, f2] \<and> rx_pending (nic s') = [] \<and>
    carries mac (answer (uip_hostaddr (stack s)) c (buf_quad (with_packet a (stack s)) o_ackno)
      (uip_add32 (rcv_nxt c) (of_nat (length (request_data g)))) TCP_ACK []) f1 \<and>
    carries mac (answer (uip_hostaddr (stack s)) c (buf_quad (with_packet a (stack s)) o_ackno)
      (uip_add32 (rcv_nxt c) (of_nat (length (request_data g)))) (TCP_ACK OR TCP_PSH) page) f2 \<and>
    httpd_socket_close_pending (stack s') = 1 \<and> conn_len (conn_at (stack s') r) = of_nat (length page)"
proof -
  have "2 \<le> 15 - tx_count (nic s)" using tx by simp
  from quiet_nic.e1000_turn_serves [OF quiet_nic.intro [OF dev] s c rx a g win mac this buf]
  show ?thesis unfolding tx_sent_two .
qed

text \<open>A stack that waits for the end of a handshake.\<close>

definition web_syn_rcvd :: httpd_uip where
  "web_syn_rcvd = web_stack\<lparr>uip_conns := (uip_conns web_stack)[0 := web_conn\<lparr>tcpstateflags := UIP_SYN_RCVD, snd_nxt := (0, 0, 0, 0), conn_len := 1\<rparr>]\<rparr>"

theorem http_request_served_witness:
  "\<exists>s' f1 f2. http_turn (net_serve (e1000_earth instant_dev) 7)
      (replicate 512 0, (service_on web_syn_rcvd arp_peer)\<lparr>nic := e1000_holding ack_packet get_packet\<rparr>) =
      Inr ([71, 69, 84] @ replicate 509 0, s') \<and> drop 14 (tx_sent (nic s')) = [f1, f2] \<and>
    carries [0x52, 0x55, 10, 0, 2, 2] (answer (uip_ipaddr 10 0 2 15) web_conn (0, 0, 0, 1) (0, 0, 3, 236) (TCP_ACK OR TCP_PSH) page) f2"
proof -
  let ?s = "(service_on web_syn_rcvd arp_peer)\<lparr>nic := e1000_holding ack_packet get_packet\<rparr>"
  let ?c = "web_conn\<lparr>tcpstateflags := UIP_SYN_RCVD, snd_nxt := (0, 0, 0, 0), conn_len := 1\<rparr>"
  have p: "length ack_packet \<le> 422" "length get_packet \<le> 422" by code_simp+
  note h = e1000_holding_frames [OF p]
  have s: "stack ?s = web_syn_rcvd" "arp_mod ?s = arp_peer" "nic ?s = e1000_holding ack_packet get_packet" "0 \<le> sock_conn_id ?s"
      "sock_listen_port ?s = 80" "length (sock_rx_buf ?s) = 512" "length (sock_tx_buf ?s) = 512" "sock_rx_len ?s = 0"
    by (simp_all add: service_on_def)
  have u: "uip_wf web_syn_rcvd" "bridge_wf web_syn_rcvd" "conn_at web_syn_rcvd 0 = ?c" "bridge_conn web_syn_rcvd = (0, 0, 0, 0, 0)"
      "httpd_socket_rx_len web_syn_rcvd = 0" "completes_handshake web_syn_rcvd 0 ack_packet" "brings_request web_syn_rcvd 0 get_packet"
      "length page \<le> unat (window_of (with_packet get_packet web_syn_rcvd) ?c)"
      "first_index (\<lambda>c. tcpstateflags c \<noteq> UIP_CLOSED \<and> lport c = HTONS (word_of_int 80)) (uip_conns web_syn_rcvd) = Some 0"
    by code_simp+
  have ses: "session (\<lambda>d. tx_inv d \<and> rx_inv d) ?s 0 ?c (0, 0, 0, 0, 0)"
    unfolding session_def net_inv_def kick_conn_def s using u h arp_peer_inv by simp
  have mac: "resolved ?s (ripaddr ?c) [0x52, 0x55, 10, 0, 2, 2]" unfolding resolved_def s by code_simp
  have n: "request_data get_packet = [71, 69, 84]" "buf_quad (with_packet ack_packet web_syn_rcvd) o_ackno = (0, 0, 0, 1)"
      "uip_add32 (rcv_nxt ?c) (of_nat (length ([71, 69, 84] :: bytes))) = (0, 0, 3, 236)" "uip_hostaddr web_syn_rcvd = uip_ipaddr 10 0 2 15"
      "tcpstateflags ?c = UIP_SYN_RCVD"
    by code_simp+
  have e: "answer h ?c q k fl d = answer h web_conn q k fl d" for h q k fl d by (simp add: answer_def)
  have tx: "tx_count (nic ?s) \<le> 13" using h(4) unfolding s by (simp add: tx_pending_def)
  have rx: "rx_pending (nic ?s) = [ack_packet, get_packet]" "length (replicate 512 (0 :: u8)) = NET_BUF_SIZE" using h(3) s(3) by simp_all
  from http_request_served [OF instant_dev_ok instant_dev_quiet ses s(4) n(5) rx(1) tx, unfolded s(1), OF u(6-8) mac rx(2), of 7]
  show ?thesis unfolding n e by (auto simp: length_tx_sent)
qed

end
