(* ===== verification/Tcp_Timer.thy ===== *)
theory Tcp_Timer
  imports Tcp_State
begin

text \<open>
  The retransmission timer of \<^verbatim>\<open>uip_process()\<close>: what a call of \<^verbatim>\<open>uip_periodic()\<close> does to a connection with data or a SYN
  or FIN in flight, that the segment in flight is sent again, and that a connection with a silent peer is given up.
\<close>

section \<open>One tick\<close>

text \<open>A connection that waits for an acknowledgement, and the test that ends its retransmissions.\<close>

definition in_flight :: "uip_conn_t \<Rightarrow> bool" where
  "in_flight c \<longleftrightarrow> uip_outstanding c \<and>
     tcpstateflags c \<in> {UIP_SYN_RCVD, UIP_SYN_SENT, UIP_ESTABLISHED, UIP_FIN_WAIT_1, UIP_CLOSING, UIP_LAST_ACK}"

definition given_up :: "uip_conn_t \<Rightarrow> bool" where
  "given_up c \<longleftrightarrow> nrtx c = UIP_MAXRTX \<or> tcpstateflags c \<in> {UIP_SYN_SENT, UIP_SYN_RCVD} \<and> nrtx c = UIP_MAXSYNRTX"

definition next_tick :: "uip_conn_t \<Rightarrow> uip_conn_t" where
  "next_tick c = (if timer c \<noteq> 0 then c\<lparr>timer := timer c - 1\<rparr>
     else if given_up c then c\<lparr>timer := timer c - 1, tcpstateflags := UIP_CLOSED\<rparr>
     else c\<lparr>timer := backoff (nrtx c), nrtx := nrtx c + 1\<rparr>)"

lemma app_then_conns:
  assumes "res_bind (httpd_appcall s) f = Inr s'" and "\<And>t t'. f t = Inr t' \<Longrightarrow> uip_conns t' = uip_conns t"
  shows "uip_conns s' = uip_conns s"
  using assms by (auto elim!: res_bind_InrE dest!: httpd_appcall_states(1))

lemma tcp_send_conns:
  "tcp_send r s = Inr s' \<Longrightarrow> uip_conns s' = uip_conns s"
  "tcp_send_noopts r s = Inr s' \<Longrightarrow> uip_conns s' = uip_conns s"
  "tcp_send_nodata r s = Inr s' \<Longrightarrow> uip_conns s' = uip_conns s \<and> uip.more s' = uip.more s"
  "tcp_send_finack r s = Inr s' \<Longrightarrow> uip_conns s' = uip_conns s"
  "tcp_send_synack r s = Inr s' \<Longrightarrow> uip_conns s' = uip_conns s"
  "tcp_send_syn r s = Inr s' \<Longrightarrow> uip_conns s' = uip_conns s"
  by (auto simp: tcp_send_noopts_def tcp_send_nodata_def tcp_send_finack_def
      tcp_send_synack_def tcp_send_syn_def Let_def dest: tcp_send_frame(2,3))

lemma rexmit_conns: "rexmit httpd_appcall r s = Inr s' \<Longrightarrow> uip_conns s' = uip_conns s"
  by (auto simp: rexmit_def apprexmit_def drop_packet_def Let_def split: if_splits dest!: tcp_send_conns elim!: res_bind_InrE
      dest!: httpd_appcall_states(1))

lemma httpd_timedout:
  assumes "httpd_appcall s = Inr s'" and "uip_flags s = UIP_TIMEDOUT"
  shows "httpd_socket_conn_closed s' = 1"
  using assms
  by (auto simp: httpd_appcall_def httpd_conn_events_def uip_closed_event_def httpd_newdata_def httpd_tx_def Let_def split: if_splits)

lemma conn_closed_more:
  fixes s s' :: httpd_uip
  assumes "uip.more s' = uip.more s"
  shows "httpd_socket_conn_closed s' = httpd_socket_conn_closed s"
  using assms by (cases s; cases s') (simp add: httpd_uip.defs)

lemma timer_outstanding_conn:
  assumes run: "timer_outstanding httpd_appcall r s = Inr s'" and r: "r < length (uip_conns s)"
  shows "conn_at s' r = next_tick (conn_at s r)"
    and "timer (conn_at s r) = 0 \<Longrightarrow> given_up (conn_at s r) \<Longrightarrow> httpd_socket_conn_closed s' = 1"
proof -
  let ?c = "conn_at s r" and ?s = "upd_conn r (\<lambda>c. c\<lparr>timer := timer c - 1\<rparr>) s"
  let ?x = "upd_conn r (\<lambda>c. c\<lparr>tcpstateflags := UIP_CLOSED\<rparr>) ?s"
  consider "timer ?c \<noteq> 0" | "timer ?c = 0" "given_up ?c" | "timer ?c = 0" "\<not> given_up ?c" by blast
  then have "conn_at s' r = next_tick ?c \<and> (timer ?c = 0 \<longrightarrow> given_up ?c \<longrightarrow> httpd_socket_conn_closed s' = 1)"
  proof cases
    case 1
    then show ?thesis
      using run r by (auto simp: timer_outstanding_def next_tick_def Let_def conn_at_upd_conn drop_packet_def)
  next
    case 2
    then obtain t where t: "httpd_appcall (?x\<lparr>uip_flags := UIP_TIMEDOUT\<rparr>) = Inr t"
        "tcp_send_nodata r (set8 o_flags (TCP_RST OR TCP_ACK) t) = Inr s'"
      using run r by (auto simp: timer_outstanding_def given_up_def Let_def conn_at_upd_conn elim!: res_bind_InrE)
    have "httpd_socket_conn_closed s' = 1"
      using conn_closed_more [of s' "set8 o_flags (TCP_RST OR TCP_ACK) t"] tcp_send_conns(3) [OF t(2)] httpd_timedout [OF t(1)]
      by (simp add: set8_def)
    moreover have "uip_conns s' = uip_conns ?x" using tcp_send_conns(3) [OF t(2)] httpd_appcall_states(1) [OF t(1)] by simp
    then have "conn_at s' r = conn_at ?x r" by (simp add: conn_at_def)
    ultimately show ?thesis using 2 r by (simp add: next_tick_def conn_at_upd_conn)
  next
    case 3
    then have "rexmit httpd_appcall r (count_stat (\<lambda>t. t\<lparr>tcp_rexmit := tcp_rexmit t + 1\<rparr>)
        (upd_conn r (\<lambda>c. c\<lparr>timer := backoff (nrtx c), nrtx := nrtx c + 1\<rparr>) ?s)) = Inr s'" (is "rexmit _ _ ?y = _")
      using run r by (auto simp: timer_outstanding_def given_up_def Let_def conn_at_upd_conn)
    from rexmit_conns [OF this] have "conn_at s' r = conn_at ?y r" by (simp add: conn_at_def)
    then show ?thesis using 3 r by (simp add: next_tick_def conn_at_upd_conn)
  qed
  then show "conn_at s' r = next_tick ?c" "timer ?c = 0 \<Longrightarrow> given_up ?c \<Longrightarrow> httpd_socket_conn_closed s' = 1" by auto
qed

lemma uip_periodic_in_flight:
  assumes wf: "uip_wf s" "bridge_ok s" and r: "r < UIP_CONNS" and c: "in_flight (conn_at s r)"
  obtains s' where "uip_periodic httpd_appcall r s = Inr s'" and "uip_wf s'" and "bridge_ok s'"
    and "conn_at s' r = next_tick (conn_at s r)"
    and "timer (conn_at s r) = 0 \<Longrightarrow> given_up (conn_at s r) \<Longrightarrow> httpd_socket_conn_closed s' = 1"
proof -
  have "res_ok (\<lambda>_. False) (process_post (on_more bridge_ok)) (uip_process httpd_appcall UIP_TIMER (s\<lparr>uip_conn := Some r\<rparr>))"
    using wf r by (intro bridge_total.uip_process_ok) (auto simp: uip_inv_def)
  then obtain s' where s': "uip_periodic httpd_appcall r s = Inr s'" "uip_wf s'" "bridge_ok s'"
    by (auto simp: res_ok_total uip_inv_def uip_periodic_def)
  let ?s = "s\<lparr>uip_conn := Some r, uip_sappdata := 54, uip_appdata := 54, iss := quad_incr (iss s), uip_len := 0, uip_slen := 0\<rparr>"
  note L = uip_wf_lengths(2) [OF wf(1)]
  have run: "timer_outstanding httpd_appcall r ?s = Inr s'"
    using s'(1) c by (auto simp: uip_periodic_def uip_process_def timer_tick_def in_flight_def Let_def)
  show ?thesis
    using timer_outstanding_conn [OF run] r L by (intro that [OF s']) simp_all
qed

section \<open>A silent peer\<close>

fun uip_periodics :: "nat \<Rightarrow> nat \<Rightarrow> httpd_uip \<Rightarrow> httpd_uip res" where
  "uip_periodics 0 r s = Inr s"
| "uip_periodics (Suc n) r s = res_bind (uip_periodic httpd_appcall r s) (uip_periodics n r)"

text \<open>The ticks a connection has left: those of its timer, and at most 48 and one for every retransmission to come.\<close>

definition ticks_left :: "uip_conn_t \<Rightarrow> nat" where
  "ticks_left c = unat (timer c) + 49 * (8 - unat (nrtx c))"

lemma backoff_bound: "unat (backoff n) \<le> 48"
proof -
  define k where "k = (if n > 4 then 4 else unat n)"
  have "k \<le> 4" by (auto simp: k_def word_less_nat_alt)
  then have "k \<in> {0, 1, 2, 3, 4}" by auto
  then have "unat (push_bit k (3 :: u8)) \<le> 48" by (elim insertE emptyE) simp_all
  then show ?thesis by (simp add: backoff_def k_def)
qed

lemma next_tick_left:
  assumes "in_flight c" and "nrtx c \<le> UIP_MAXRTX" and "\<not> (timer c = 0 \<and> given_up c)"
  shows "in_flight (next_tick c)" and "nrtx (next_tick c) \<le> UIP_MAXRTX" and "ticks_left (next_tick c) < ticks_left c"
proof -
  show "in_flight (next_tick c)" using assms(1,3) by (auto simp: next_tick_def in_flight_def uip_outstanding_def)
  have n: "unat (nrtx c + 1) = unat (nrtx c) + 1" "unat (nrtx c) < 8" if "timer c = 0" "nrtx c \<noteq> UIP_MAXRTX"
  proof -
    have "nrtx c < UIP_MAXRTX" using assms(2) that(2) by simp
    then show lt: "unat (nrtx c) < 8" by (simp add: word_less_nat_alt)
    then show "unat (nrtx c + 1) = unat (nrtx c) + 1" by (simp add: unat_add_wrap)
  qed
  show "nrtx (next_tick c) \<le> UIP_MAXRTX"
    using assms(2,3) n by (auto simp: next_tick_def given_up_def word_le_nat_alt)
  show "ticks_left (next_tick c) < ticks_left c"
    using assms(3) n backoff_bound [of "nrtx c"]
    by (auto simp: next_tick_def given_up_def ticks_left_def unat_minus_one unat_gt_0)
qed

lemma silent_peer_spec:
  assumes "uip_wf s" "bridge_ok s" and r: "r < UIP_CONNS" and "in_flight (conn_at s r)" "nrtx (conn_at s r) \<le> UIP_MAXRTX"
  shows "\<exists>n s'. n \<le> ticks_left (conn_at s r) + 1 \<and> uip_periodics n r s = Inr s' \<and>
    tcpstateflags (conn_at s' r) = UIP_CLOSED \<and> httpd_socket_conn_closed s' = 1"
  using assms
proof (induction "ticks_left (conn_at s r)" arbitrary: s rule: less_induct)
  case less
  obtain t where t: "uip_periodic httpd_appcall r s = Inr t" "uip_wf t" "bridge_ok t" "conn_at t r = next_tick (conn_at s r)"
    "timer (conn_at s r) = 0 \<Longrightarrow> given_up (conn_at s r) \<Longrightarrow> httpd_socket_conn_closed t = 1"
    using uip_periodic_in_flight [OF less.prems(1-4)] by blast
  show ?case
  proof (cases "timer (conn_at s r) = 0 \<and> given_up (conn_at s r)")
    case True
    then show ?thesis using t by (intro exI [of _ 1] exI [of _ t]) (simp add: next_tick_def)
  next
    case False
    note left = next_tick_left [OF less.prems(4,5) False, folded t(4)]
    from less.hyps [OF left(3) t(2,3) r left(1,2)] obtain n s' where
      "n \<le> ticks_left (conn_at t r) + 1" "uip_periodics n r t = Inr s'" "tcpstateflags (conn_at s' r) = UIP_CLOSED"
      "httpd_socket_conn_closed s' = 1" by blast
    with t(1) left(3) show ?thesis by (intro exI [of _ "Suc n"] exI [of _ s']) simp
  qed
qed

section \<open>Retransmission\<close>

text \<open>\<^verbatim>\<open>apprexmit\<close> with data of the length that is in flight.\<close>

lemma apprexmit_data:
  assumes wf: "uip_wf u" and r: "r < UIP_CONNS" and w: "uip_slen u > 0" "conn_len (conn_at u r) > 0"
  shows "\<exists>s'. apprexmit r u = Inr s' \<and> uip_wf s' \<and> tcp_ok s' \<and> uip_len s' = conn_len (conn_at u r) + 40 \<and> uip_conns s' = uip_conns u \<and>
    uip.more s' = uip.more u \<and> net_config s' = net_config u \<and>
    segment_of s' = conn_segment u r (TCP_ACK OR TCP_PSH) (take (unat (conn_len (conn_at u r))) (drop 54 (uip_buf u)))"
proof -
  let ?w = "conn_len (conn_at u r)"
  define x where "x = set8 o_flags (TCP_ACK OR TCP_PSH) (u\<lparr>uip_appdata := uip_sappdata u, uip_len := ?w + UIP_IPTCPH_LEN\<rparr>)"
  have send: "apprexmit r u = tcp_send_noopts r x" using w by (simp add: apprexmit_def x_def Let_def)
  have m: "unat ?w \<le> 366" using conn_wf_conn_at [OF wf] r by (simp add: conn_wf_def word_le_nat_alt)
  then have xl: "unat (uip_len x) = unat ?w + 40" "uip_len x = ?w + 40" by (simp_all add: x_def unat_add_wrap)
  have x: "uip_wf x" "40 \<le> uip_len x" "uip_len x \<le> 406" "buf8 x o_flags = TCP_ACK OR TCP_PSH" "uip_conns x = uip_conns u"
      "uip.more x = uip.more u" "net_config x = net_config u" "drop 54 (uip_buf x) = drop 54 (uip_buf u)"
    using wf m xl(1) uip_wf_lengths(1) [OF wf] by (simp_all add: x_def word_le_nat_alt buf_same)
  have "conn_segment x r fl d = conn_segment u r fl d" for fl d by (simp add: conn_segment_def Let_def x_def)
  then show ?thesis using tcp_send_noopts_spec [OF x(1-3), of r] send xl x by auto
qed

lemma lost_data_resent_spec:
  assumes wf: "uip_wf s" "bridge_ok s" and r: "r < UIP_CONNS"
    and c: "tcpstateflags (conn_at s r) = UIP_ESTABLISHED" "timer (conn_at s r) = 0" "nrtx (conn_at s r) \<noteq> UIP_MAXRTX"
    and tx: "httpd_socket_tx_pending s \<noteq> 0" "httpd_socket_close_pending s = 0" "0 < httpd_socket_tx_len s"
    and len: "conn_len (conn_at s r) = word_of_int (httpd_socket_tx_len s)"
  shows "\<exists>s'. uip_periodic httpd_appcall r s = Inr s' \<and> uip_wf s' \<and> tcp_ok s' \<and> uip.more s' = uip.more s \<and>
    net_config s' = net_config s \<and> uip_len s' = word_of_int (httpd_socket_tx_len s) + 40 \<and>
    segment_of s' = conn_segment s r (TCP_ACK OR TCP_PSH) (take (nat (httpd_socket_tx_len s)) (httpd_socket_tx_buf s)) \<and>
    uip_conns s' = (uip_conns s)[r := (conn_at s r)\<lparr>timer := backoff (nrtx (conn_at s r)), nrtx := nrtx (conn_at s r) + 1\<rparr>]"
proof -
  let ?n = "nat (httpd_socket_tx_len s)" and ?w = "word_of_int (httpd_socket_tx_len s) :: u16"
  note L = uip_wf_lengths [OF wf(1)]
  have n: "unat ?w = ?n" "0 < ?n" "?n \<le> 368" "length (httpd_socket_tx_buf s) = 420"
    using wf(2) tx(3) by (auto simp: bridge_ok_def bridge_wf_def unat_eq_nat_uint uint_word_of_int)
  then have w: "0 < ?w" by (simp add: word_less_nat_alt)
  define t where "t = (count_stat (\<lambda>t. t\<lparr>tcp_rexmit := tcp_rexmit t + 1\<rparr>)
    (upd_conn r (\<lambda>c. c\<lparr>timer := backoff (nrtx c), nrtx := nrtx c + 1\<rparr>) (upd_conn r (\<lambda>c. c\<lparr>timer := timer c - 1\<rparr>)
    (s\<lparr>uip_conn := Some r, uip_sappdata := 54, uip_appdata := 54, iss := quad_incr (iss s), uip_len := 0, uip_slen := 0\<rparr>))))\<lparr>uip_flags := UIP_REXMIT\<rparr>"
  have tc: "conn_at t r = (conn_at s r)\<lparr>timer := backoff (nrtx (conn_at s r)), nrtx := nrtx (conn_at s r) + 1\<rparr>"
    and tcs: "uip_conns t = (uip_conns s)[r := (conn_at s r)\<lparr>timer := backoff (nrtx (conn_at s r)), nrtx := nrtx (conn_at s r) + 1\<rparr>]"
    using L r by (simp_all add: t_def conn_at_upd_conn) (simp add: count_stat_def upd_conn_def conn_at_def)
  have t: "uip_wf t" "bridge_ok t" "uip_buf t = uip_buf s" "uip_hostaddr t = uip_hostaddr s" "uip_flags t = UIP_REXMIT" "uip_sappdata t = 54" "uip.more t = uip.more s"
      "net_config t = net_config s"
  proof -
    have "conn_wf (conn_at s r)" by (rule conn_wf_conn_at [OF wf(1) r])
    then show "uip_wf t" using wf(1) r L unfolding t_def
      by (simp add: uip_wf_upd_conn conn_wf_def conn_at_upd_conn)
    show "bridge_ok t" using wf(2) by (simp add: t_def bridge_ok_def bridge_wf_def count_stat_def upd_conn_def)
  qed (simp_all add: t_def)
  have tb: "httpd_socket_tx_pending t = httpd_socket_tx_pending s" "httpd_socket_close_pending t = httpd_socket_close_pending s"
      "httpd_socket_tx_len t = httpd_socket_tx_len s" "httpd_socket_tx_buf t = httpd_socket_tx_buf s"
    by (simp_all add: t_def count_stat_def upd_conn_def)
  define u where "u = t\<lparr>uip_slen := ?w, uip_buf := take 54 (uip_buf s) @ take ?n (httpd_socket_tx_buf s) @ drop (54 + ?n) (uip_buf s)\<rparr>"
  have call: "httpd_appcall t = Inr u"
    using httpd_appcall_tx [of t] t tx L tb by (simp add: u_def)
  have u: "uip_wf u" "conn_at u r = conn_at t r" "uip_slen u = ?w" "uip_hostaddr u = uip_hostaddr s" "uip_conns u = uip_conns t"
      "uip.more u = uip.more s" "net_config u = net_config s"
    using t L n by (simp_all add: u_def uip_wf_def conn_at_def)
  have data: "take (unat ?w) (drop 54 (uip_buf u)) = take ?n (httpd_socket_tx_buf s)"
    using n L by (simp add: u_def min_def)
  from apprexmit_data [OF u(1) r] u w tc len obtain s' where s': "apprexmit r u = Inr s'" "uip_wf s'" "tcp_ok s'" "uip_len s' = ?w + 40"
    "uip_conns s' = uip_conns u" "uip.more s' = uip.more u" "net_config s' = net_config u"
    "segment_of s' = conn_segment u r (TCP_ACK OR TCP_PSH) (take (unat ?w) (drop 54 (uip_buf u)))" by auto
  have "uip_periodic httpd_appcall r s = apprexmit r u"
    using c call r L len word_neq_0_conv [THEN iffD2, OF w]
    by (simp add: Let_def uip_periodic_def uip_process_def timer_tick_def timer_outstanding_def rexmit_def uip_outstanding_def tcp_state_of_def
        conn_at_upd_conn t_def [symmetric])
  moreover have "conn_segment u r fl d = conn_segment s r fl d" for fl d
    using u(2,4) tc by (simp add: conn_segment_def Let_def)
  ultimately show ?thesis using s' u(5-7) data tcs by simp
qed

section \<open>Properties\<close>

text \<open>The example connection, with its five bytes in flight and its timer at zero.\<close>

definition web_unacked :: httpd_uip where
  "web_unacked = web_sending\<lparr>uip_conns := (uip_conns web_sending)[0 := web_conn\<lparr>conn_len := 5, timer := 0\<rparr>]\<rparr>"

text \<open>
  C11: no connection waits for ever. If a connection has a SYN, data or a FIN in flight and nothing more is received, then after finitely many
  calls of \<^verbatim>\<open>uip_periodic()\<close>, at most its timer and 49 for every retransmission that is left, the connection is closed and the
  bridge has been told.
\<close>

theorem silent_peer_times_out:
  assumes "uip_wf s" "bridge_ok s" and "r < UIP_CONNS" and "uip_outstanding (conn_at s r)" "nrtx (conn_at s r) \<le> UIP_MAXRTX"
    and "tcpstateflags (conn_at s r) \<in> {UIP_SYN_RCVD, UIP_SYN_SENT, UIP_ESTABLISHED, UIP_FIN_WAIT_1, UIP_CLOSING, UIP_LAST_ACK}"
  shows "\<exists>n s'. n \<le> unat (timer (conn_at s r)) + 49 * (8 - unat (nrtx (conn_at s r))) + 1 \<and> uip_periodics n r s = Inr s' \<and>
    tcpstateflags (conn_at s' r) = UIP_CLOSED \<and> httpd_socket_conn_closed s' = 1"
  using silent_peer_spec [OF assms(1-3)] assms(4-6) by (simp add: in_flight_def ticks_left_def)

theorem silent_peer_times_out_witness:
  "\<exists>n s'. n \<le> 393 \<and> uip_periodics n 0 web_unacked = Inr s' \<and>
     tcpstateflags (conn_at s' 0) = UIP_CLOSED \<and> httpd_socket_conn_closed s' = 1"
proof -
  have h: "uip_wf web_unacked" "bridge_ok web_unacked" "0 < UIP_CONNS" "uip_outstanding (conn_at web_unacked 0)"
    "nrtx (conn_at web_unacked 0) \<le> UIP_MAXRTX"
    "tcpstateflags (conn_at web_unacked 0) \<in> {UIP_SYN_RCVD, UIP_SYN_SENT, UIP_ESTABLISHED, UIP_FIN_WAIT_1, UIP_CLOSING, UIP_LAST_ACK}"
    by code_simp+
  have "unat (timer (conn_at web_unacked 0)) = 0" "unat (nrtx (conn_at web_unacked 0)) = 0" by code_simp+
  then show ?thesis using silent_peer_times_out [OF h] by simp
qed

end
