(* ===== verification/Tcp_Peers.thy ===== *)
theory Tcp_Peers
  imports Http_Session Tcp_Timer
begin

text \<open>
  Two hosts that both run this stack: the packets of one are the input of the other.
\<close>

section \<open>A packet from one host to the other\<close>

text \<open>
  The packet of \<open>s\<close> is put into the buffer of \<open>t\<close> behind the link header, as the service does with a received frame, whose length counts this header.
\<close>

definition deliver :: "'a uip_scheme \<Rightarrow> 'b uip_scheme \<Rightarrow> 'b uip_scheme" where
  "deliver s t = (let n = unat (uip_len s) in
     t\<lparr>uip_buf := take 14 (uip_buf t) @ take n (drop 14 (uip_buf s)) @ drop (14 + n) (uip_buf t), uip_len := uip_len s + 14\<rparr>)"

lemma deliver_frame [simp]:
  "uip_conns (deliver s t) = uip_conns t" "uip_listenports (deliver s t) = uip_listenports t" "uip_hostaddr (deliver s t) = uip_hostaddr t"
  "uip.more (deliver s t) = uip.more t" "net_config (deliver s t) = net_config t" "conn_at (deliver s t) r = conn_at t r" "iss (deliver s t) = iss t"
  by (simp_all add: deliver_def Let_def conn_at_def)

lemma deliver_packet:
  assumes ok: "tcp_ok s" and wf: "uip_wf s" "uip_wf t"
  shows "uip_wf (deliver s t)" and "14 \<le> i \<Longrightarrow> i < 14 + unat (uip_len s) \<Longrightarrow> buf8 (deliver s t) i = buf8 s i"
    and "take (unat (uip_len s)) (drop 14 (uip_buf (deliver s t))) = take (unat (uip_len s)) (drop 14 (uip_buf s))"
proof -
  note L = uip_wf_lengths(1) [OF wf(1)] uip_wf_lengths(1) [OF wf(2)]
  have n: "unat (uip_len s) \<le> 406" using ok by (simp add: tcp_ok_def word_le_nat_alt)
  show "uip_wf (deliver s t)" using wf(2) L n by (simp add: deliver_def Let_def uip_wf_def)
  show sl: "take (unat (uip_len s)) (drop 14 (uip_buf (deliver s t))) = take (unat (uip_len s)) (drop 14 (uip_buf s))"
    using L n by (simp add: deliver_def Let_def)
  show "14 \<le> i \<Longrightarrow> i < 14 + unat (uip_len s) \<Longrightarrow> buf8 (deliver s t) i = buf8 s i"
    using L n by (intro buf8_slice [OF sl]) (simp_all add: deliver_def Let_def)
qed

lemma deliver_valid:
  assumes ok: "tcp_ok s" and wf: "uip_wf s" "uip_wf t" and dest: "sg_dest (segment_of s) = uip_hostaddr t"
  shows "valid_tcp (deliver s t)" and "ip_total_len (deliver s t) = uip_len s" and "segment_of (tcp_rx (deliver s t)) = segment_of s"
proof -
  let ?t = "deliver s t" and ?n = "unat (uip_len s)"
  note L = uip_wf_lengths(1) [OF wf(1)] uip_wf_lengths(1) [OF deliver_packet(1) [OF ok wf]]
  have n: "40 \<le> ?n" "?n \<le> 406" using ok by (simp_all add: tcp_ok_def word_le_nat_alt)
  note b = deliver_packet(2) [OF ok wf]
  have len: "14 + ?n \<le> length (uip_buf s)" "14 + ?n \<le> length (uip_buf ?t)" using L n by simp_all
  note sl = buf_slice [OF deliver_packet(3) [OF ok wf] len]
  show tl: "ip_total_len ?t = uip_len s" using ok b [of 16] b [of 17] n by (simp add: ip_total_len_def tcp_ok_def)
  have tls: "ip_total_len s = uip_len s" using ok by (simp add: tcp_ok_def)
  have ul: "upper_layer_len x = ip_total_len x - 20" for x :: "'x uip_scheme" by (simp add: upper_layer_len_def ip_total_len_def)
  have un: "unat (upper_layer_len s) = ?n - 20" "unat (upper_layer_len ?t) = ?n - 20"
    using n(1) tl tls by (simp_all add: ul unat_sub word_le_nat_alt)
  have c: "34 + unat (upper_layer_len s) \<le> length (uip_buf s)" "34 + unat (upper_layer_len ?t) \<le> length (uip_buf ?t)" "upper_layer_len ?t = upper_layer_len s"
    using un n len tl tls by (simp_all add: ul)
  have "uip_ipchksum ?t = uip_ipchksum s" using sl [of 14 20] n(1) by (simp add: uip_ipchksum_def)
  moreover have p: "take (?n - 20) (drop 34 (uip_buf ?t)) = take (?n - 20) (drop 34 (uip_buf s))" "take 8 (drop 26 (uip_buf ?t)) = take 8 (drop 26 (uip_buf s))"
    using sl [of 34 "?n - 20"] sl [of 26 8] n(1) by simp_all
  have "uip_tcpchksum ?t = uip_tcpchksum s"
    unfolding uip_tcpchksum_def upper_layer_chksum_eq [OF c(1)] upper_layer_chksum_eq [OF c(2)] c(3) un(1) p ..
  moreover have seg: "segment_of (tcp_rx ?t) = segment_of s"
  proof -
    have "take (?n - 20 - m) (drop (34 + m) (uip_buf ?t)) = take (?n - 20 - m) (drop (34 + m) (uip_buf s))" for m
      using sl [of "34 + m" "?n - 20 - m"] n by (cases "20 + m \<le> ?n") auto
    then show ?thesis using b n tl by (simp add: segment_of_def buf_bytes)
  qed
  then show "segment_of (tcp_rx ?t) = segment_of s" .
  moreover have "buf_addr ?t o_destipaddr = uip_hostaddr ?t"
    using arg_cong [OF seg, of sg_dest] dest by (simp add: segment_of_def)
  moreover have "uip_len s \<le> uip_len s + 14" using n by (simp add: word_le_nat_alt unat_add_wrap)
  ultimately show "valid_tcp ?t"
    using ok b [of 14] b [of 20] b [of 21] b [of 23] n tl by (simp add: valid_tcp_def tcp_ok_def) (simp add: deliver_def Let_def)
qed

text \<open>The fields of the delivered segment.\<close>

lemma deliver_fields:
  assumes "tcp_ok s" and "uip_wf s" "uip_wf t" and "sg_dest (segment_of s) = uip_hostaddr t"
  shows "buf_addr (deliver s t) o_srcipaddr = sg_src (segment_of s)" "buf16 (deliver s t) o_srcport = sg_srcport (segment_of s)"
    "buf16 (deliver s t) o_destport = sg_destport (segment_of s)" "buf_quad (deliver s t) o_seqno = sg_seq (segment_of s)"
    "buf_quad (deliver s t) o_ackno = sg_ack (segment_of s)" "buf8 (deliver s t) o_flags = sg_flags (segment_of s)"
    "buf8 (deliver s t) o_tcpoffset = sg_offset (segment_of s)"
    "be16 (buf8 (deliver s t) o_wnd) (buf8 (deliver s t) (o_wnd + 1)) = sg_wnd (segment_of s)"
    "sg_offset (segment_of s) = 0x50 \<Longrightarrow> take (unat (uip_len s) - 40) (drop 54 (uip_buf (deliver s t))) = sg_data (segment_of s)"
proof -
  note g = deliver_valid(3) [OF assms] and l = deliver_valid(2) [OF assms]
  show "buf_addr (deliver s t) o_srcipaddr = sg_src (segment_of s)" "buf16 (deliver s t) o_srcport = sg_srcport (segment_of s)"
    "buf16 (deliver s t) o_destport = sg_destport (segment_of s)" "buf_quad (deliver s t) o_seqno = sg_seq (segment_of s)"
    "buf_quad (deliver s t) o_ackno = sg_ack (segment_of s)" "buf8 (deliver s t) o_flags = sg_flags (segment_of s)"
    and off: "buf8 (deliver s t) o_tcpoffset = sg_offset (segment_of s)"
    and "be16 (buf8 (deliver s t) o_wnd) (buf8 (deliver s t) (o_wnd + 1)) = sg_wnd (segment_of s)"
    unfolding g [symmetric] by (simp_all add: segment_of_def)
  assume "sg_offset (segment_of s) = 0x50"
  with off have "sg_data (segment_of (tcp_rx (deliver s t))) = take (unat (uip_len s) - 40) (drop 54 (uip_buf (deliver s t)))"
    using l by (simp add: segment_of_def)
  then show "take (unat (uip_len s) - 40) (drop 54 (uip_buf (deliver s t))) = sg_data (segment_of s)" using g by simp
qed

text \<open>The connection that a segment from \<open>A\<close> belongs to.\<close>

definition conn_to :: "ip4addr \<Rightarrow> u16 \<Rightarrow> u16 \<Rightarrow> uip_conn_t \<Rightarrow> bool" where
  "conn_to A lp rp c \<longleftrightarrow> tcpstateflags c \<noteq> UIP_CLOSED \<and> lport c = lp \<and> rport c = rp \<and> ripaddr c = A"

lemma conn_matches_to: "conn_matches s = conn_to (buf_addr s o_srcipaddr) (buf16 s o_destport) (buf16 s o_srcport)"
  by (auto simp: fun_eq_iff conn_matches_def conn_to_def uip_ipaddr_cmp_def prod_eq_iff)

section \<open>Acknowledgements\<close>

text \<open>A segment without data that acknowledges all that is in flight, on an established connection.\<close>

lemma httpd_acked:
  assumes "uip_flags s = UIP_ACKDATA" and "httpd_socket_close_pending s = 0"
  shows "httpd_appcall s = Inr (s\<lparr>httpd_socket_tx_pending := 0, httpd_socket_tx_len := 0\<rparr>)"
  using assms
  by (simp add: httpd_appcall_def httpd_conn_events_def uip_closed_event_def httpd_newdata_def httpd_tx_def Let_def)

lemma ack_spec:
  fixes s :: httpd_uip
  assumes wf: "uip_wf s" and v: "valid_tcp s" and r: "first_index (conn_matches s) (uip_conns s) = Some r"
    and st: "tcpstateflags (conn_at s r) = UIP_ESTABLISHED" and ack: "acks_all s r"
    and seg: "buf8 s o_flags AND (TCP_FIN OR TCP_SYN OR TCP_RST OR TCP_URG) = 0" "seg_datalen s = 0"
    and idle: "httpd_socket_close_pending s = 0"
  shows "\<exists>s'. uip_input httpd_appcall s = Inr s' \<and> uip_len s' = 0 \<and> uip_wf s' \<and> net_config s' = net_config s \<and>
    uip.more s' = uip.more (s\<lparr>httpd_socket_tx_pending := 0, httpd_socket_tx_len := 0\<rparr>) \<and>
    uip_conns s' = (uip_conns s)[r := (acked_conn (buf_quad s o_ackno) (conn_at s r))\<lparr>mss := window_of s (conn_at s r), nrtx := 0\<rparr>]"
proof -
  have L: "r < length (uip_conns s)" and r40: "r < 40"
    using first_index_Some [OF r] uip_wf_lengths [OF wf] by simp_all
  have f: "buf8 s o_flags AND TCP_RST = 0" "buf8 s o_flags AND (TCP_SYN OR TCP_FIN) = 0" "buf8 s o_flags AND TCP_FIN = 0" "buf8 s o_flags AND TCP_URG = 0"
    using seg(1) by (auto intro: and_sub_mask)
  let ?a = "tcp_ack_input r (found_rx r s)" and ?c = "acked_conn (buf_quad s o_ackno) (conn_at s r)"
  have "acks_all (found_rx r s) r" using ack by (simp add: acks_all_def has_flag_def)
  from tcp_ack_input_acked [OF this] L have a: "uip_conns ?a = (uip_conns s)[r := ?c]" "uip_flags ?a = UIP_ACKDATA" by simp_all
  note c = tcp_ack_input_conn [OF found_rx_wf [OF wf r40] r40]
  have in_: "uip_input httpd_appcall s = st_established httpd_appcall r ?a"
    using f seg(2) st c(1)
    by (simp add: uip_input_valid [OF v] r found_seq unexpected_seq_found_rx tcp_state_input_def tcp_state_of_def)
  have ca: "conn_at ?a r = ?c" using a(1) L by (simp add: conn_at_def)
  define u where "u = (window_mss r ?a)\<lparr>uip_slen := 0\<rparr>"
  have u: "uip_flags u = UIP_ACKDATA" "uip_slen u = 0" "uip.more u = uip.more s" "net_config u = net_config s"
    using a(2) c(4,5) by (simp_all add: u_def window_mss_def Let_def)
  have uw: "uip_wf u" using window_mss_inv [of "\<lambda>_. True" ?a r] c(3) r40 by (simp add: u_def uip_inv_def)
  have b: "buf8 ?a i = buf8 s i" for i by simp
  have cu: "uip_conns u = (uip_conns s)[r := ?c\<lparr>mss := window_of s (conn_at s r)\<rparr>]"
    using L ca by (simp add: u_def window_mss_def window_of_def Let_def upd_conn_def a(1) b conn_at_def)
  have "st_established httpd_appcall r ?a = res_bind (httpd_appcall u) (appsend r)"
    using f(3,4) seg(2) a(2) by (simp add: st_established_def urgent_skip_def u_def Let_def)
  moreover let ?w = "u\<lparr>httpd_socket_tx_pending := 0, httpd_socket_tx_len := 0\<rparr>"
  have "httpd_appcall u = Inr ?w" using u(1) more_fields(3) [OF u(3)] idle by (intro httpd_acked) simp_all
  ultimately have "uip_input httpd_appcall s = Inr (drop_packet ((upd_conn r (\<lambda>c. c\<lparr>nrtx := 0\<rparr>) ?w)\<lparr>uip_appdata := uip_sappdata u\<rparr>))"
    using in_ u(1,2) by (simp add: appsend_nothing)
  moreover have "uip_wf (upd_conn r (\<lambda>c. c\<lparr>nrtx := 0\<rparr>) ?w)"
    using uw r40 by (intro uip_wf_upd_conn) (simp_all add: conn_wf_def uip_wf_def)
  moreover have "uip.more ?w = uip.more (s\<lparr>httpd_socket_tx_pending := 0, httpd_socket_tx_len := 0\<rparr>)"
    using u(3) by (cases u; cases s) simp
  ultimately show ?thesis
    using u(4) cu L by (simp add: drop_packet_def upd_conn_def net_config_def uip_wf_def)
qed

section \<open>Two endpoints of a connection\<close>

text \<open>
  Connection \<open>i\<close> of host \<open>a\<close> is the one to connection \<open>j\<close> of host \<open>b\<close>. It is \<open>idle\<close>, or the bytes \<open>d\<close> are \<open>unacked\<close>; their segment
  may be in the packet buffer.
\<close>

definition endpoint :: "httpd_uip \<Rightarrow> nat \<Rightarrow> httpd_uip \<Rightarrow> nat \<Rightarrow> bool" where
  "endpoint a i b j \<longleftrightarrow> uip_wf a \<and> bridge_wf a \<and> httpd_socket_close_pending a = 0 \<and> httpd_socket_rx_len a = 0 \<and>
     tcpstateflags (conn_at a i) = UIP_ESTABLISHED \<and> mss (conn_at a i) = initialmss (conn_at a i) \<and>
     first_index (conn_to (uip_hostaddr b) (rport (conn_at b j)) (lport (conn_at b j))) (uip_conns a) = Some i"

definition idle :: "httpd_uip \<Rightarrow> nat \<Rightarrow> bool" where
  "idle a i \<longleftrightarrow> httpd_socket_tx_pending a = 0 \<and> conn_len (conn_at a i) = 0"

definition unacked :: "httpd_uip \<Rightarrow> nat \<Rightarrow> bytes \<Rightarrow> bool" where
  "unacked a i d \<longleftrightarrow> httpd_socket_tx_pending a \<noteq> 0 \<and> httpd_socket_tx_len a = int (length d) \<and> take (length d) (httpd_socket_tx_buf a) = d \<and>
     0 < length d \<and> length d \<le> 366 \<and> conn_len (conn_at a i) = of_nat (length d)"

definition has_segment :: "httpd_uip \<Rightarrow> nat \<Rightarrow> u8 \<Rightarrow> bytes \<Rightarrow> bool" where
  "has_segment a i fl d \<longleftrightarrow> tcp_ok a \<and> segment_of a = conn_segment a i fl d"

text \<open>
  Both ends are idle and agree on the sequence numbers. While data is in flight, the receiver expects it, or has it already.
\<close>

definition peers :: "httpd_uip \<Rightarrow> nat \<Rightarrow> httpd_uip \<Rightarrow> nat \<Rightarrow> bool" where
  "peers a i b j \<longleftrightarrow> endpoint a i b j \<and> endpoint b j a i \<and> idle a i \<and> idle b j \<and>
     snd_nxt (conn_at a i) = rcv_nxt (conn_at b j) \<and> snd_nxt (conn_at b j) = rcv_nxt (conn_at a i)"

definition flight :: "httpd_uip \<Rightarrow> nat \<Rightarrow> httpd_uip \<Rightarrow> nat \<Rightarrow> bytes \<Rightarrow> bool \<Rightarrow> bool" where
  "flight a i b j d got \<longleftrightarrow> endpoint a i b j \<and> endpoint b j a i \<and> unacked a i d \<and> idle b j \<and>
     snd_nxt (conn_at b j) = rcv_nxt (conn_at a i) \<and>
     rcv_nxt (conn_at b j) = (if got then uip_add32 (snd_nxt (conn_at a i)) (of_nat (length d)) else snd_nxt (conn_at a i))"

lemma peers_sym: "peers a i b j \<longleftrightarrow> peers b j a i"
  by (auto simp: peers_def)

text \<open>An endpoint looks at the address and the ports of the other side only.\<close>

lemma endpoint_other:
  assumes "endpoint a i b j" and "uip_hostaddr b' = uip_hostaddr b" "rport (conn_at b' j) = rport (conn_at b j)" "lport (conn_at b' j) = lport (conn_at b j)"
  shows "endpoint a i b' j"
  using assms by (simp add: endpoint_def)

lemma endpointD:
  assumes "endpoint a i b j"
  shows "i < 40" "i < length (uip_conns a)" "lport (conn_at a i) = rport (conn_at b j)" "rport (conn_at a i) = lport (conn_at b j)"
    "ripaddr (conn_at a i) = uip_hostaddr b" "uip_wf a" "bridge_wf a" "httpd_socket_close_pending a = 0"
    "tcpstateflags (conn_at a i) = UIP_ESTABLISHED"
  using assms first_index_Some [of "conn_to (uip_hostaddr b) (rport (conn_at b j)) (lport (conn_at b j))" "uip_conns a" i]
    uip_wf_lengths(2) [of a] by (auto simp: endpoint_def conn_to_def conn_at_def)

lemma endpoint_update:
  assumes e: "endpoint a i b j" and wf: "uip_wf a'" "bridge_wf a'" and br: "httpd_socket_close_pending a' = 0" "httpd_socket_rx_len a' = 0"
    and c: "uip_conns a' = (uip_conns a)[i := c]" and same: "tcpstateflags c = UIP_ESTABLISHED" "mss c = initialmss c"
      "lport c = lport (conn_at a i)" "rport c = rport (conn_at a i)" "ripaddr c = ripaddr (conn_at a i)"
  shows "endpoint a' i b j" and "conn_at a' i = c"
proof -
  note d = endpointD [OF e]
  have f: "first_index (conn_to (uip_hostaddr b) (rport (conn_at b j)) (lport (conn_at b j))) (uip_conns a) = Some i"
    using e by (simp add: endpoint_def)
  have "conn_to (uip_hostaddr b) (rport (conn_at b j)) (lport (conn_at b j)) c" using same d by (simp add: conn_to_def)
  from first_index_update [OF f this] show "endpoint a' i b j"
    using wf br c same(1,2) d(2) by (simp add: endpoint_def conn_at_def)
  show "conn_at a' i = c" using c d(2) by (simp add: conn_at_def)
qed

section \<open>Delivery to the other end\<close>

lemma segment_length:
  assumes "tcp_ok s" "uip_wf s" and "sg_offset (segment_of s) = 0x50"
  shows "unat (uip_len s) = 40 + length (sg_data (segment_of s))"
proof -
  have n: "40 \<le> unat (uip_len s)" "unat (uip_len s) \<le> 406" using assms(1) by (simp_all add: tcp_ok_def word_le_nat_alt)
  have "sg_data (segment_of s) = take (unat (uip_len s) - 40) (drop 54 (uip_buf s))" using assms(3) by (simp add: segment_of_def)
  then show ?thesis using n uip_wf_lengths(1) [OF assms(2)] by simp
qed

lemma deliver_segment:
  fixes a b :: httpd_uip
  defines "t \<equiv> deliver a b"
  assumes wf: "uip_wf a" "uip_wf b" and dest: "ripaddr (conn_at a i) = uip_hostaddr b" and has: "has_segment a i fl data"
  shows "uip_wf t" "bridge_wf t = bridge_wf b" "valid_tcp t"
    "conn_matches t = conn_to (uip_hostaddr a) (rport (conn_at a i)) (lport (conn_at a i))" "buf8 t o_flags = fl"
    "buf8 t o_tcpoffset = 0x50" "buf_quad t o_seqno = snd_nxt (conn_at a i)" "buf_quad t o_ackno = rcv_nxt (conn_at a i)"
    "unat (ip_total_len t) = 40 + length data" "seg_datalen t = of_nat (length data)" "take (length data) (drop 54 (uip_buf t)) = data"
    "tcpstateflags (conn_at a i) = UIP_ESTABLISHED \<Longrightarrow> be16 (buf8 t o_wnd) (buf8 t (o_wnd + 1)) = UIP_RECEIVE_WINDOW"
proof -
  have ok: "tcp_ok a" and seg: "segment_of a = conn_segment a i fl data" using has by (simp_all add: has_segment_def)
  have d: "sg_dest (segment_of a) = uip_hostaddr b" and off: "sg_offset (segment_of a) = 0x50"
    using seg dest by (simp_all add: conn_segment_def Let_def)
  note v = deliver_valid [OF ok wf d] and f = deliver_fields [OF ok wf d]
  show "uip_wf t" unfolding t_def by (rule deliver_packet(1) [OF ok wf])
  show "bridge_wf t = bridge_wf b" by (rule bridge_more(1)) (simp add: t_def)
  show "valid_tcp t" using v(1) by (simp add: t_def)
  show "conn_matches t = conn_to (uip_hostaddr a) (rport (conn_at a i)) (lport (conn_at a i))"
    using f(1-3) seg by (simp add: conn_matches_to t_def conn_segment_def Let_def)
  show "buf8 t o_flags = fl" "buf8 t o_tcpoffset = 0x50" "buf_quad t o_seqno = snd_nxt (conn_at a i)" "buf_quad t o_ackno = rcv_nxt (conn_at a i)"
    using f(4-7) seg by (simp_all add: t_def conn_segment_def Let_def)
  have n: "unat (uip_len a) = 40 + length data" using segment_length [OF ok wf(1) off] seg by (simp add: conn_segment_def Let_def)
  then show l: "unat (ip_total_len t) = 40 + length data" using v(2) by (simp add: t_def)
  have "ip_total_len t = of_nat (length data) + 40" using arg_cong [OF l, of "of_nat :: nat \<Rightarrow> u16"] by simp
  then show "seg_datalen t = of_nat (length data)" using f(7) off by (simp add: seg_datalen_def t_def)
  show "take (length data) (drop 54 (uip_buf t)) = data" using f(9) [OF off] n seg by (simp add: t_def conn_segment_def Let_def)
  show "tcpstateflags (conn_at a i) = UIP_ESTABLISHED \<Longrightarrow> be16 (buf8 t o_wnd) (buf8 t (o_wnd + 1)) = UIP_RECEIVE_WINDOW"
    using f(8) seg by (simp add: t_def conn_segment_def Let_def)
qed

lemma deliver_end:
  fixes a b :: httpd_uip
  defines "t \<equiv> deliver a b"
  assumes e: "endpoint a i b j" "endpoint b j a i" and has: "has_segment a i fl data"
  shows "uip_wf t" "bridge_wf t" "valid_tcp t" "first_index (conn_matches t) (uip_conns t) = Some j" "buf8 t o_flags = fl"
    "buf8 t o_tcpoffset = 0x50" "buf_quad t o_seqno = snd_nxt (conn_at a i)" "buf_quad t o_ackno = rcv_nxt (conn_at a i)"
    "unat (ip_total_len t) = 40 + length data" "seg_datalen t = of_nat (length data)" "take (length data) (drop 54 (uip_buf t)) = data"
    "window_of t (conn_at b j) = initialmss (conn_at b j)" "uip.more t = uip.more b" "conn_at t j = conn_at b j"
proof -
  note d = endpointD [OF e(1)] and d' = endpointD [OF e(2)]
  note t = deliver_segment [OF d(6) d'(6) d(5) has, folded t_def]
  show "uip_wf t" "bridge_wf t" "valid_tcp t" "buf8 t o_flags = fl" "buf8 t o_tcpoffset = 0x50" "buf_quad t o_seqno = snd_nxt (conn_at a i)"
    "buf_quad t o_ackno = rcv_nxt (conn_at a i)" "unat (ip_total_len t) = 40 + length data" "seg_datalen t = of_nat (length data)"
    "take (length data) (drop 54 (uip_buf t)) = data"
    using t d'(7) by simp_all
  show "first_index (conn_matches t) (uip_conns t) = Some j" using t(4) e(2) by (simp add: endpoint_def t_def)
  have "initialmss (conn_at b j) \<le> 366" using conn_wf_conn_at [OF d'(6,1)] by (simp add: conn_wf_def)
  moreover have "push_bit 8 (ucast (buf8 t o_wnd)) + ucast (buf8 t (o_wnd + 1)) = (366 :: u16)" using t(12) d(9) by (simp add: be16_def)
  ultimately show "window_of t (conn_at b j) = initialmss (conn_at b j)" unfolding window_of_def Let_def by auto
  show "uip.more t = uip.more b" "conn_at t j = conn_at b j" by (simp_all add: t_def)
qed

section \<open>Steps of a transfer\<close>

text \<open>
  The service gives the bytes \<open>d\<close> to the bridge, as \<^verbatim>\<open>handle_sock_send()\<close> does; it takes what the bridge has received, as
  \<^verbatim>\<open>sync_socket_state()\<close> does. A packet that was lost is sent again when the timer of the connection has run down.
\<close>

definition queue :: "bytes \<Rightarrow> httpd_uip \<Rightarrow> httpd_uip" where
  "queue d s = s\<lparr>httpd_socket_tx_buf := d @ drop (length d) (httpd_socket_tx_buf s), httpd_socket_tx_len := int (length d),
     httpd_socket_tx_pending := 1\<rparr>"

definition receive :: "httpd_uip \<Rightarrow> httpd_uip \<Rightarrow> (bytes \<times> httpd_uip) res" where
  "receive s t = res_bind (uip_input httpd_appcall (deliver s t)) (\<lambda>t.
     Inr (take (nat (httpd_socket_rx_len t)) (httpd_socket_rx_buf t), t\<lparr>httpd_socket_rx_len := 0\<rparr>))"

definition resend :: "nat \<Rightarrow> httpd_uip \<Rightarrow> httpd_uip res" where
  "resend i a = uip_periodics (Suc (unat (timer (conn_at a i)))) i a"

lemma receive_empty:
  assumes "uip_input httpd_appcall (deliver s t) = Inr t'" and "httpd_socket_rx_len t' = 0"
  shows "receive s t = Inr ([], t')"
proof -
  have "t'\<lparr>httpd_socket_rx_len := 0\<rparr> = t'" using assms(2) by (cases t') simp
  then show ?thesis using assms by (simp add: receive_def)
qed

text \<open>A host whose service has nothing to send and nothing to take.\<close>

definition ready :: "httpd_uip \<Rightarrow> bool" where
  "ready a \<longleftrightarrow> uip_wf a \<and> bridge_wf a \<and> httpd_socket_tx_pending a = 0 \<and> httpd_socket_close_pending a = 0 \<and> httpd_socket_rx_len a = 0"

lemma ready_more:
  assumes "ready a" and "uip_wf a'" and "uip.more a' = uip.more a"
  shows "ready a'"
  using assms(1,2) more_fields [OF assms(3)] by (simp add: ready_def)

lemma send_step:
  assumes p: "peers a i b j" and d: "0 < length d" "length d \<le> unat (initialmss (conn_at a i))"
  shows "\<exists>a'. uip_poll_conn httpd_appcall i (queue d a) = Inr a' \<and> flight a' i b j d False \<and> has_segment a' i (TCP_ACK OR TCP_PSH) d \<and> nrtx (conn_at a' i) = 0 \<and>
    initialmss (conn_at a' i) = initialmss (conn_at a i)"
proof -
  have e: "endpoint a i b j" "endpoint b j a i" and id: "idle a i" "idle b j"
    and q: "snd_nxt (conn_at a i) = rcv_nxt (conn_at b j)" "snd_nxt (conn_at b j) = rcv_nxt (conn_at a i)"
    using p by (simp_all add: peers_def)
  note D = endpointD [OF e(1)]
  let ?s = "queue d a"
  have m: "mss (conn_at a i) = initialmss (conn_at a i)" "unat (initialmss (conn_at a i)) \<le> 366" "httpd_socket_rx_len a = 0"
    using e(1) conn_wf_conn_at [OF D(6,1)] by (simp_all add: endpoint_def conn_wf_def word_le_nat_alt)
  have s: "uip_wf ?s" "bridge_ok ?s" "conn_at ?s k = conn_at a k" "uip_conns ?s = uip_conns a" "net_config ?s = net_config a" for k
    using D(6,7) d m by (simp_all add: queue_def uip_wf_def bridge_ok_def bridge_wf_def conn_at_def net_config_def)
  have tx: "httpd_socket_tx_pending ?s \<noteq> 0" "httpd_socket_close_pending ?s = 0" "0 < httpd_socket_tx_len ?s" "httpd_socket_tx_len ?s = int (length d)"
      "httpd_socket_rx_len ?s = 0" "take (length d) (httpd_socket_tx_buf ?s) = d"
    using D(8) d m by (simp_all add: queue_def)
  have ml: "httpd_socket_tx_len ?s \<le> int (unat (mss (conn_at ?s i)))" unfolding s(3) tx(4) m(1) of_nat_le_iff by (rule d(2))
  have "\<exists>s'. uip_poll_conn httpd_appcall i ?s = Inr s' \<and> uip_wf s' \<and> tcp_ok s' \<and> uip.more s' = uip.more ?s \<and>
    net_config s' = net_config ?s \<and> uip_len s' = word_of_int (httpd_socket_tx_len ?s) + 40 \<and>
    segment_of s' = conn_segment ?s i (TCP_ACK OR TCP_PSH) (take (nat (httpd_socket_tx_len ?s)) (httpd_socket_tx_buf ?s)) \<and>
    uip_conns s' = (uip_conns ?s)[i := (conn_at ?s i)\<lparr>conn_len := word_of_int (httpd_socket_tx_len ?s), nrtx := 0\<rparr>]"
    using D(1,9) id(1) by (intro queued_data_sent_spec [OF s(1,2) _ _ _ tx(1-3) ml]) (simp_all add: s(3) idle_def)
  then obtain a' where a': "uip_poll_conn httpd_appcall i ?s = Inr a'" "uip_wf a'" "tcp_ok a'" "uip.more a' = uip.more ?s" "net_config a' = net_config a"
    "segment_of a' = conn_segment ?s i (TCP_ACK OR TCP_PSH) d"
    "uip_conns a' = (uip_conns a)[i := (conn_at a i)\<lparr>conn_len := of_nat (length d), nrtx := 0\<rparr>]" (is "_ = _[i := ?c]")
    using tx(4,6) s(3-5) by (elim exE conjE) (simp add: that)
  note br = more_fields [OF a'(4)]
  have e': "endpoint a' i b j" "conn_at a' i = ?c"
    using endpoint_update [OF e(1) a'(2) _ _ _ a'(7)] br s(2) tx D(9) m(1) by (simp_all add: bridge_ok_def)
  have h: "uip_hostaddr a' = uip_hostaddr a" using a'(5) by (simp add: net_config_def)
  have "endpoint b j a' i" using h e'(2) by (intro endpoint_other [OF e(2)]) simp_all
  moreover have "segment_of a' = conn_segment a' i (TCP_ACK OR TCP_PSH) d"
    using a'(6) e'(2) h s(3) s(5) by (simp add: conn_segment_def Let_def net_config_def)
  ultimately show ?thesis
    using a' e' br tx id(2) q d m(2) by (intro exI [of _ a']) (simp add: flight_def unacked_def has_segment_def)
qed

text \<open>The ticks before the timer has run down change nothing but the timer.\<close>

lemma wait_step:
  assumes wf: "uip_wf a" "i < 40" and c: "in_flight (conn_at a i)" "timer (conn_at a i) \<noteq> 0"
  shows "\<exists>a'. uip_periodic httpd_appcall i a = Inr a' \<and> uip_wf a' \<and> uip.more a' = uip.more a \<and> net_config a' = net_config a \<and>
    uip_conns a' = (uip_conns a)[i := (conn_at a i)\<lparr>timer := timer (conn_at a i) - 1\<rparr>]"
proof -
  let ?a = "upd_conn i (\<lambda>c. c\<lparr>timer := timer c - 1\<rparr>)
    (a\<lparr>uip_conn := Some i, uip_sappdata := 54, uip_appdata := 54, iss := quad_incr (iss a), uip_len := 0, uip_slen := 0\<rparr>)"
  have "uip_periodic httpd_appcall i a = Inr (drop_packet ?a)"
    using c by (auto simp: in_flight_def uip_periodic_def uip_process_def timer_tick_def timer_outstanding_def Let_def)
  moreover have "uip_wf ?a" using wf by (intro uip_wf_upd_conn) (simp_all add: conn_wf_def uip_wf_def)
  moreover have "uip.more ?a = uip.more a" "net_config ?a = net_config a"
    "uip_conns ?a = (uip_conns a)[i := (conn_at a i)\<lparr>timer := timer (conn_at a i) - 1\<rparr>]"
    by (simp_all) (simp add: upd_conn_def conn_at_def)
  ultimately show ?thesis by (intro exI [of _ "drop_packet ?a"]) (simp add: drop_packet_def uip_wf_def)
qed

lemma flight_in_flight: "flight a i b j d got \<Longrightarrow> uip_wf a \<and> i < 40 \<and> in_flight (conn_at a i)"
  by (auto simp: flight_def unacked_def in_flight_def uip_outstanding_def word_eq_iff_unsigned unat_of_nat dest: endpointD(1,6,9) simp flip: unat_eq_zero)

lemma flight_tick:
  assumes f: "flight a i b j d got" and a': "uip_wf a'" "uip.more a' = uip.more a" "net_config a' = net_config a"
    and c: "uip_conns a' = (uip_conns a)[i := (conn_at a i)\<lparr>timer := x, nrtx := y\<rparr>]"
  shows "flight a' i b j d got" and "conn_segment a' i = conn_segment a i" and "conn_at a' i = (conn_at a i)\<lparr>timer := x, nrtx := y\<rparr>"
proof -
  have e: "endpoint a i b j" "endpoint b j a i" "bridge_wf a" "httpd_socket_rx_len a = 0" "mss (conn_at a i) = initialmss (conn_at a i)"
    using f by (simp_all add: flight_def endpoint_def)
  note D = endpointD [OF e(1)] and br = more_fields [OF a'(2)]
  have h: "uip_hostaddr a' = uip_hostaddr a" using a'(3) by (simp add: net_config_def)
  have e': "endpoint a' i b j" "conn_at a' i = (conn_at a i)\<lparr>timer := x, nrtx := y\<rparr>"
    using endpoint_update [OF e(1) a'(1) _ _ _ c] br e D(8,9) by simp_all
  then show "conn_at a' i = (conn_at a i)\<lparr>timer := x, nrtx := y\<rparr>" by simp
  show "conn_segment a' i = conn_segment a i" using e'(2) h by (simp add: conn_segment_def fun_eq_iff Let_def)
  show "flight a' i b j d got"
    using f e' br endpoint_other [OF e(2), of a'] h by (simp add: flight_def unacked_def has_segment_def)
qed

lemma resend_step:
  assumes f: "flight a i b j d got" and n: "nrtx (conn_at a i) \<noteq> UIP_MAXRTX"
  shows "\<exists>a'. resend i a = Inr a' \<and> flight a' i b j d got \<and> has_segment a' i (TCP_ACK OR TCP_PSH) d \<and>
    nrtx (conn_at a' i) = nrtx (conn_at a i) + 1 \<and> initialmss (conn_at a' i) = initialmss (conn_at a i)"
  unfolding resend_def using assms
proof (induction "unat (timer (conn_at a i))" arbitrary: a)
  case (Suc k)
  then have t: "timer (conn_at a i) \<noteq> 0" by auto
  obtain a1 where a1: "uip_periodic httpd_appcall i a = Inr a1" "uip_wf a1" "uip.more a1 = uip.more a" "net_config a1 = net_config a"
    "uip_conns a1 = (uip_conns a)[i := (conn_at a i)\<lparr>timer := timer (conn_at a i) - 1, nrtx := nrtx (conn_at a i)\<rparr>]"
    using wait_step [of a i] flight_in_flight [OF Suc.prems(1)] t by auto
  note f1 = flight_tick [OF Suc.prems(1) a1(2-5)]
  have k: "k = unat (timer (conn_at a1 i))" using f1(3) Suc.hyps(2) t by (simp add: unat_minus_one)
  have "nrtx (conn_at a1 i) \<noteq> 8" using f1(3) Suc.prems(2) by simp
  from Suc.hyps(1) [OF k f1(1) this] obtain a' where "uip_periodics (Suc k) i a1 = Inr a'" "flight a' i b j d got"
    "has_segment a' i (TCP_ACK OR TCP_PSH) d" "nrtx (conn_at a' i) = nrtx (conn_at a1 i) + 1" "initialmss (conn_at a' i) = initialmss (conn_at a1 i)"
    unfolding k [symmetric] by blast
  then show ?case using a1(1) f1(3) by (intro exI [of _ a']) (simp flip: Suc.hyps(2))
next
  case 0
  have e: "endpoint a i b j" "unacked a i d" using 0 by (simp_all add: flight_def)
  note D = endpointD [OF e(1)]
  have u: "httpd_socket_tx_pending a \<noteq> 0" "0 < httpd_socket_tx_len a" "httpd_socket_tx_len a = int (length d)"
      "take (length d) (httpd_socket_tx_buf a) = d" "bridge_ok a" "conn_len (conn_at a i) = of_nat (length d)"
    using e(2) D(7) by (simp_all add: unacked_def bridge_ok_def)
  have "timer (conn_at a i) = 0" "conn_len (conn_at a i) = word_of_int (httpd_socket_tx_len a)"
    using 0(1) u by (simp_all add: unat_eq_0)
  from lost_data_resent_spec [OF D(6) u(5) D(1,9) this(1) 0(3) u(1) D(8) u(2) this(2)] obtain a' where a':
    "uip_periodic httpd_appcall i a = Inr a'" "uip_wf a'" "tcp_ok a'" "uip.more a' = uip.more a" "net_config a' = net_config a"
    "segment_of a' = conn_segment a i (TCP_ACK OR TCP_PSH) d"
    "uip_conns a' = (uip_conns a)[i := (conn_at a i)\<lparr>timer := backoff (nrtx (conn_at a i)), nrtx := nrtx (conn_at a i) + 1\<rparr>]"
    using u(3,4) by auto
  note f1 = flight_tick [OF 0(2) a'(2,4,5,7)]
  have "uip_periodics (Suc 0) i a = Inr a'" using a'(1) by simp
  with f1 a'(3,6) show ?case by (intro exI [of _ a']) (simp add: has_segment_def flip: 0(1))
qed

lemma uip_add32_neq:
  assumes "0 < unat n"
  shows "uip_add32 q n \<noteq> q"
proof
  assume "uip_add32 q n = q"
  then have "(quad_val q + unat n) mod 2 ^ 32 = quad_val q" using uip_add32_val [of q n] by simp
  moreover have "quad_val q < 2 ^ 32" "unat n < 2 ^ 16" using quad_val_less unsigned_less [of n] by simp_all
  ultimately show False using assms by (auto simp: mod_if split: if_splits)
qed

lemma taken_frame [simp]:
  fixes s :: httpd_uip
  shows "uip_wf (s\<lparr>httpd_socket_rx_len := x\<rparr>) = uip_wf s" "conn_at (s\<lparr>httpd_socket_rx_len := x\<rparr>) k = conn_at s k"
    "has_segment (s\<lparr>httpd_socket_rx_len := x\<rparr>) k fl d = has_segment s k fl d"
proof -
  let ?t = "s\<lparr>httpd_socket_rx_len := x\<rparr>"
  have b: "uip_buf ?t = uip_buf s" "uip_len ?t = uip_len s" by simp_all
  show "uip_wf ?t = uip_wf s" "conn_at ?t k = conn_at s k" by (simp_all add: uip_wf_def conn_at_def)
  have "tcp_ok ?t = tcp_ok s"
    by (simp add: tcp_ok_def same_buf [OF b(1)])
  moreover have "segment_of ?t = segment_of s" by (simp add: segment_of_def same_buf [OF b(1)])
  moreover have "conn_segment ?t k fl d = conn_segment s k fl d" by (simp add: conn_segment_def conn_at_def)
  ultimately show "has_segment ?t k fl d = has_segment s k fl d" by (simp add: has_segment_def)
qed

text \<open>The receiver has the data and has answered.\<close>

lemma received_flight:
  assumes f: "flight a i b j d got" and run: "uip_input httpd_appcall (deliver a b) = Inr b'"
    and b': "uip_wf b'" "bridge_wf b'" "net_config b' = net_config b" "httpd_socket_close_pending b' = 0" "httpd_socket_tx_pending b' = 0"
    and rx: "take (nat (httpd_socket_rx_len b')) (httpd_socket_rx_buf b') = x"
    and c: "uip_conns b' = (uip_conns b)[j := (conn_at b j)\<lparr>rcv_nxt := uip_add32 (snd_nxt (conn_at a i)) (of_nat (length d)), nrtx := y\<rparr>]"
    and seg: "has_segment b' j TCP_ACK []"
  shows "\<exists>b'. receive a b = Inr (x, b') \<and> flight a i b' j d True \<and> has_segment b' j TCP_ACK [] \<and>
    initialmss (conn_at b' j) = initialmss (conn_at b j)"
proof -
  let ?b = "b'\<lparr>httpd_socket_rx_len := 0\<rparr>"
  have e: "endpoint a i b j" "endpoint b j a i" "mss (conn_at b j) = initialmss (conn_at b j)"
    using f by (simp_all add: flight_def endpoint_def)
  note D = endpointD [OF e(2)]
  have "bridge_wf ?b" using b'(2) by (simp add: bridge_wf_def)
  from endpoint_update [OF e(2) _ this, of "(conn_at b j)\<lparr>rcv_nxt := uip_add32 (snd_nxt (conn_at a i)) (of_nat (length d)), nrtx := y\<rparr>"]
  have e': "endpoint ?b j a i" "conn_at b' j = (conn_at b j)\<lparr>rcv_nxt := uip_add32 (snd_nxt (conn_at a i)) (of_nat (length d)), nrtx := y\<rparr>"
    using b' c D(9) e(3) by simp_all
  have "uip_hostaddr b' = uip_hostaddr b" using b'(3) by (simp add: net_config_def)
  then have "endpoint a i ?b j" using e'(2) by (intro endpoint_other [OF e(1)]) simp_all
  then have "flight a i ?b j d True" using f e' b'(5) by (simp add: flight_def idle_def)
  then show ?thesis using run rx seg e'(2) by (intro exI [of _ ?b]) (simp add: receive_def)
qed

text \<open>The data arrives, for the first time or again; the answer acknowledges it.\<close>

lemma receive_again:
  assumes f: "flight a i b j d True" and h: "has_segment a i (TCP_ACK OR TCP_PSH) d"
  shows "\<exists>b'. receive a b = Inr ([], b') \<and> flight a i b' j d True \<and> has_segment b' j TCP_ACK [] \<and>
    initialmss (conn_at b' j) = initialmss (conn_at b j)"
proof -
  have e: "endpoint a i b j" "endpoint b j a i" and n: "0 < length d" "unat (of_nat (length d) :: u16) = length d"
    and rx: "httpd_socket_rx_len b = 0" "httpd_socket_tx_pending b = 0"
    and r: "rcv_nxt (conn_at b j) = uip_add32 (snd_nxt (conn_at a i)) (of_nat (length d))"
    using f by (simp_all add: flight_def unacked_def unat_of_nat endpoint_def idle_def)
  let ?t = "deliver a b"
  note D = endpointD [OF e(2)] and t = deliver_end [OF e h]
  have "buf_quad ?t o_seqno \<noteq> rcv_nxt (conn_at ?t j)" using t(7,14) r n uip_add32_neq [of "of_nat (length d)"] by metis
  moreover have "seg_datalen ?t > 0" using t(10) n by (simp add: word_less_nat_alt)
  ultimately obtain b' where b': "uip_input httpd_appcall ?t = Inr b'" "uip_wf b'" "net_config b' = net_config b" "uip_conns b' = uip_conns b"
    "uip.more b' = uip.more b" "tcp_ok b'" "segment_of b' = conn_segment ?t j TCP_ACK []"
    using out_of_sequence_spec [OF t(1,3,4), of httpd_appcall] t(5,13,14) D(9) by (auto simp: tcp_state_of_def)
  have "has_segment b' j TCP_ACK []"
    using b'(3,4,6,7) by (simp add: has_segment_def conn_segment_def conn_at_def net_config_def Let_def)
  moreover have "uip_conns b' = (uip_conns b)[j := (conn_at b j)\<lparr>rcv_nxt := uip_add32 (snd_nxt (conn_at a i)) (of_nat (length d)), nrtx := nrtx (conn_at b j)\<rparr>]"
    unfolding r [symmetric] using b'(4) by (simp add: conn_at_def)
  ultimately show ?thesis
    using more_fields [OF b'(5)] D(7,8) rx b'(3) by (intro received_flight [OF f b'(1,2), where y = "nrtx (conn_at b j)"]) simp_all
qed

lemma receive_first:
  assumes f: "flight a i b j d False" and h: "has_segment a i (TCP_ACK OR TCP_PSH) d"
  shows "\<exists>b'. receive a b = Inr (d, b') \<and> flight a i b' j d True \<and> has_segment b' j TCP_ACK [] \<and>
    initialmss (conn_at b' j) = initialmss (conn_at b j)"
proof -
  have e: "endpoint a i b j" "endpoint b j a i" "mss (conn_at b j) = initialmss (conn_at b j)" and n: "0 < length d" "length d \<le> 366"
    and rx: "httpd_socket_tx_pending b = 0" "conn_len (conn_at b j) = 0" and r: "rcv_nxt (conn_at b j) = snd_nxt (conn_at a i)"
    using f by (simp_all add: flight_def unacked_def endpoint_def idle_def)
  let ?t = "deliver a b"
  note D = endpointD [OF e(2)] and t = deliver_end [OF e(1,2) h]
  have l: "ip_total_len ?t > 40" "ip_total_len ?t \<le> 408" "ip_total_len ?t - 40 = of_nat (length d)" "unat (ip_total_len ?t) - 40 = length d"
    using t(9) n t(10) t(6) by (simp_all add: word_less_nat_alt word_le_nat_alt seg_datalen_def)
  have c: "(data_conn ?t (of_nat (length d)) (conn_at (tcp_ack_input j (found_rx j ?t)) j))\<lparr>nrtx := 0\<rparr> =
      (conn_at b j)\<lparr>rcv_nxt := uip_add32 (snd_nxt (conn_at a i)) (of_nat (length d)), nrtx := 0\<rparr>" (is "_ = ?c")
    using rx(2) t(12) e(3) r by (simp add: tcp_ack_input_idle data_conn_def)
  have "tcpstateflags (conn_at ?t j) = UIP_ESTABLISHED" "buf8 ?t o_flags AND (TCP_FIN OR TCP_SYN OR TCP_RST OR TCP_URG) = 0"
    "buf_quad ?t o_seqno = rcv_nxt (conn_at ?t j)" "httpd_socket_tx_pending ?t = 0" "httpd_socket_close_pending ?t = 0"
    using t(5,7,14) more_fields [OF t(13)] D(8,9) rx r by simp_all
  from in_order_data_spec [OF t(1-4) this(1,2) t(6) this(3) l(1,2) this(4,5)] obtain b' where b': "uip_input httpd_appcall ?t = Inr b'"
    "httpd_socket_rx_len b' = int (length d)" "take (length d) (httpd_socket_rx_buf b') = d" "uip_wf b'" "net_config b' = net_config b"
    "bridge_conn b' = bridge_conn ?t" "conn_at b' j = ?c" "\<forall>k. k \<noteq> j \<longrightarrow> conn_at b' k = conn_at b k" "tcp_ok b'"
    "segment_of b' = (conn_segment b' j TCP_ACK [])\<lparr>sg_src := uip_hostaddr b\<rparr>"
    using l c t(11) by auto
  have "bridge_wf b'"
    using bridge.uip_process_ok [of ?t UIP_DATA] t(1) D(7) b'(1) by (auto simp: uip_inv_def uip_input_def)
  moreover have "uip_conns b' = (uip_conns b)[j := ?c]" using b'(8) by (intro conns_updated [OF D(6) b'(4,7)]) blast
  moreover have "has_segment b' j TCP_ACK []"
    using b'(5,9,10) by (simp add: has_segment_def conn_segment_def net_config_def Let_def)
  moreover have "httpd_socket_tx_pending b' = 0" "httpd_socket_close_pending b' = 0"
    using b'(6) more_fields [OF t(13)] rx D(8) by (simp_all add: bridge_conn_def)
  ultimately show ?thesis using b'(2,3,5) by (intro received_flight [OF f b'(1,4)]) simp_all
qed

lemma receive_step:
  assumes "flight a i b j d got" and "has_segment a i (TCP_ACK OR TCP_PSH) d"
  shows "\<exists>b'. receive a b = Inr (if got then [] else d, b') \<and> flight a i b' j d True \<and> has_segment b' j TCP_ACK [] \<and>
    initialmss (conn_at b' j) = initialmss (conn_at b j)"
  using assms receive_first receive_again by (cases got) simp_all

text \<open>The acknowledgement arrives.\<close>

lemma acked_step:
  assumes f: "flight a i b j d True" and h: "has_segment b j TCP_ACK []"
  shows "\<exists>a'. receive b a = Inr ([], a') \<and> peers a' i b j \<and> initialmss (conn_at a' i) = initialmss (conn_at a i)"
proof -
  have e: "endpoint a i b j" "endpoint b j a i" "mss (conn_at a i) = initialmss (conn_at a i)" and id: "idle b j"
    and u: "conn_len (conn_at a i) = of_nat (length d)" "0 < length d" "length d \<le> 366" "httpd_socket_rx_len a = 0"
    and q: "snd_nxt (conn_at b j) = rcv_nxt (conn_at a i)" "rcv_nxt (conn_at b j) = uip_add32 (snd_nxt (conn_at a i)) (of_nat (length d))"
    using f by (simp_all add: flight_def unacked_def endpoint_def)
  let ?t = "deliver b a" and ?q = "rcv_nxt (conn_at b j)"
  note D = endpointD [OF e(1)] and t = deliver_end [OF e(2,1) h]
  let ?c = "(acked_conn ?q (conn_at a i))\<lparr>mss := initialmss (conn_at a i), nrtx := 0\<rparr>"
  have l: "unat (of_nat (length d) :: u16) = length d" using u by (simp add: unat_of_nat)
  then have "(of_nat (length d) :: u16) \<noteq> 0" using u(2) by (metis unat_0 less_irrefl)
  then have "acks_all ?t i" using t(5,8,14) u q by (simp add: acks_all_def has_flag_def uip_outstanding_def)
  moreover have "tcpstateflags (conn_at ?t i) = UIP_ESTABLISHED" "buf8 ?t o_flags AND (TCP_FIN OR TCP_SYN OR TCP_RST OR TCP_URG) = 0"
    "seg_datalen ?t = 0" "httpd_socket_close_pending ?t = 0"
    using t(5,10,14) more_fields [OF t(13)] D(8,9) by simp_all
  ultimately obtain a' where a': "uip_input httpd_appcall ?t = Inr a'" "uip_wf a'" "net_config a' = net_config a"
    "uip.more a' = uip.more (?t\<lparr>httpd_socket_tx_pending := 0, httpd_socket_tx_len := 0\<rparr>)" "uip_conns a' = (uip_conns a)[i := ?c]"
    using ack_spec [OF t(1,3,4)] t(8,12,14) by auto
  note br = more_fields [OF a'(4)] more_fields [OF t(13)]
  let ?a = "a'\<lparr>httpd_socket_rx_len := 0\<rparr>"
  have w: "bridge_wf ?a" "httpd_socket_rx_len a' = 0" "httpd_socket_tx_pending a' = 0"
    using br D(7) u(4) by (simp_all add: bridge_wf_def)
  have "tcpstateflags ?c = UIP_ESTABLISHED" using D(9) by (simp add: acked_conn_def rtt_estimate_def Let_def)
  then have e': "endpoint ?a i b j" "conn_at a' i = ?c"
    using endpoint_update [OF e(1) _ w(1), of ?c] a'(2,5) br D(8) by simp_all
  have "uip_hostaddr a' = uip_hostaddr a" using a'(3) by (simp add: net_config_def)
  then have "endpoint b j ?a i" using e'(2) by (intro endpoint_other [OF e(2)]) simp_all
  with e' have "peers ?a i b j" using id q w by (simp add: peers_def idle_def)
  then show ?thesis using a'(1) w e'(2) by (intro exI [of _ ?a]) (simp add: receive_def)
qed

section \<open>Transfers over a link that loses packets\<close>

text \<open>
  What happens to the packets of one attempt: the data is lost, or it arrives and its acknowledgement is lost. After the attempts that fail the
  packets arrive.
\<close>

datatype fate = Data_lost | Ack_lost

fun transfer :: "fate list \<Rightarrow> nat \<Rightarrow> httpd_uip \<Rightarrow> httpd_uip \<Rightarrow> (bytes \<times> httpd_uip \<times> httpd_uip) res" where
  "transfer [] i a b = res_bind (receive a b) (\<lambda>(x, b). res_bind (receive b a) (\<lambda>(_, a). Inr (x, a, b)))"
| "transfer (Data_lost # fs) i a b = res_bind (resend i a) (\<lambda>a. transfer fs i a b)"
| "transfer (Ack_lost # fs) i a b = res_bind (receive a b) (\<lambda>(x, b). res_bind (resend i a) (\<lambda>a.
     res_bind (transfer fs i a b) (\<lambda>(y, a, b). Inr (x @ y, a, b))))"

lemma transfer_flight:
  assumes "flight a i b j d got" and "has_segment a i (TCP_ACK OR TCP_PSH) d" and "unat (nrtx (conn_at a i)) + length fs \<le> 8"
  shows "\<exists>a' b'. transfer fs i a b = Inr (if got then [] else d, a', b') \<and> peers a' i b' j \<and>
    initialmss (conn_at a' i) = initialmss (conn_at a i) \<and> initialmss (conn_at b' j) = initialmss (conn_at b j)"
  using assms
proof (induction fs arbitrary: a b got)
  case Nil
  obtain b' where b': "receive a b = Inr (if got then [] else d, b')" "flight a i b' j d True" "has_segment b' j TCP_ACK []" "initialmss (conn_at b' j) = initialmss (conn_at b j)"
    using receive_step [OF Nil.prems(1,2)] by blast
  from acked_step [OF b'(2,3)] b'(1,4) show ?case by auto
next
  case (Cons x fs)
  have "unat (nrtx (conn_at a i)) < 8" using Cons.prems(3) by simp
  then have n: "nrtx (conn_at a i) \<noteq> UIP_MAXRTX" "unat (nrtx (conn_at a i) + 1) = unat (nrtx (conn_at a i)) + 1"
    by (auto simp: unat_add_wrap)
  have again: "\<exists>a'. resend i a = Inr a' \<and> flight a' i b j d got \<and> has_segment a' i (TCP_ACK OR TCP_PSH) d \<and>
      unat (nrtx (conn_at a' i)) + length fs \<le> 8 \<and> initialmss (conn_at a' i) = initialmss (conn_at a i)" if "flight a i b j d got" for b got
    using resend_step [OF that n(1)] n(2) Cons.prems(3) by auto
  show ?case
  proof (cases x)
    case Data_lost
    then show ?thesis using again [OF Cons.prems(1)] Cons.IH [of _ b got] by auto metis+
  next
    case Ack_lost
    obtain b1 where b1: "receive a b = Inr (if got then [] else d, b1)" "flight a i b1 j d True" "initialmss (conn_at b1 j) = initialmss (conn_at b j)"
      using receive_step [OF Cons.prems(1,2)] by blast
    obtain a1 where a1: "resend i a = Inr a1" "flight a1 i b1 j d True" "has_segment a1 i (TCP_ACK OR TCP_PSH) d"
        "unat (nrtx (conn_at a1 i)) + length fs \<le> 8" "initialmss (conn_at a1 i) = initialmss (conn_at a i)"
      using again [OF b1(2)] by blast
    from Cons.IH [OF a1(2-4)] show ?thesis using Ack_lost b1(1,3) a1(1,5) by auto
  qed
qed

text \<open>
  A conversation: the services at the two ends send pieces in turn, each with its own losses. The result is what host \<open>b\<close> and what host \<open>a\<close>
  has received.
\<close>

fun talk :: "(bool \<times> bytes \<times> fate list) list \<Rightarrow> nat \<Rightarrow> nat \<Rightarrow> httpd_uip \<Rightarrow> httpd_uip \<Rightarrow> (bytes \<times> bytes \<times> httpd_uip \<times> httpd_uip) res" where
  "talk [] i j a b = Inr ([], [], a, b)"
| "talk ((from_a, d, fs) # ps) i j a b = (if from_a
     then res_bind (uip_poll_conn httpd_appcall i (queue d a)) (\<lambda>a. res_bind (transfer fs i a b) (\<lambda>(x, a, b).
       res_bind (talk ps i j a b) (\<lambda>(y, z, a, b). Inr (x @ y, z, a, b))))
     else res_bind (uip_poll_conn httpd_appcall j (queue d b)) (\<lambda>b. res_bind (transfer fs j b a) (\<lambda>(x, b, a).
       res_bind (talk ps i j a b) (\<lambda>(y, z, a, b). Inr (y, x @ z, a, b)))))"

fun sent_by :: "bool \<Rightarrow> (bool \<times> bytes \<times> fate list) list \<Rightarrow> bytes" where
  "sent_by side [] = []"
| "sent_by side ((from_a, d, fs) # ps) = (if from_a = side then d @ sent_by side ps else sent_by side ps)"

text \<open>A piece is not empty, fits into a segment of its connection, and is not lost more often than it is sent again.\<close>

fun fits :: "u16 \<Rightarrow> u16 \<Rightarrow> bool \<times> bytes \<times> fate list \<Rightarrow> bool" where
  "fits m n (from_a, d, fs) \<longleftrightarrow> 0 < length d \<and> length d \<le> unat (if from_a then m else n) \<and> length fs \<le> 8"

lemma piece_spec:
  assumes "peers a i b j" and "0 < length d" "length d \<le> unat (initialmss (conn_at a i))" "length fs \<le> 8"
  obtains a1 a2 b2 where "uip_poll_conn httpd_appcall i (queue d a) = Inr a1" "transfer fs i a1 b = Inr (d, a2, b2)" "peers a2 i b2 j"
    "initialmss (conn_at a2 i) = initialmss (conn_at a i)" "initialmss (conn_at b2 j) = initialmss (conn_at b j)"
proof -
  obtain a1 where a1: "uip_poll_conn httpd_appcall i (queue d a) = Inr a1" "flight a1 i b j d False" "has_segment a1 i (TCP_ACK OR TCP_PSH) d"
      "nrtx (conn_at a1 i) = 0" "initialmss (conn_at a1 i) = initialmss (conn_at a i)"
    using send_step [OF assms(1-3)] by blast
  show ?thesis using transfer_flight [OF a1(2,3), of fs] a1 assms(4) that by auto
qed

lemma talk_spec:
  assumes "peers a i b j" and "\<forall>p \<in> set ps. fits (initialmss (conn_at a i)) (initialmss (conn_at b j)) p"
  shows "\<exists>a' b'. talk ps i j a b = Inr (sent_by True ps, sent_by False ps, a', b') \<and> peers a' i b' j"
  using assms
proof (induction ps arbitrary: a b)
  case (Cons p ps)
  obtain side d fs where p: "p = (side, d, fs)" by (cases p) auto
  show ?case
  proof (cases side)
    case True
    with p Cons.prems(2) have "0 < length d" "length d \<le> unat (initialmss (conn_at a i))" "length fs \<le> 8" by simp_all
    then obtain a1 a2 b2 where "uip_poll_conn httpd_appcall i (queue d a) = Inr a1" "transfer fs i a1 b = Inr (d, a2, b2)" "peers a2 i b2 j"
        "initialmss (conn_at a2 i) = initialmss (conn_at a i)" "initialmss (conn_at b2 j) = initialmss (conn_at b j)"
      by (rule piece_spec [OF Cons.prems(1)])
    then show ?thesis using Cons.IH [of a2 b2] Cons.prems(2) True p by auto
  next
    case False
    with p Cons.prems(2) have "0 < length d" "length d \<le> unat (initialmss (conn_at b j))" "length fs \<le> 8" by simp_all
    then obtain b1 b2 a2 where "uip_poll_conn httpd_appcall j (queue d b) = Inr b1" "transfer fs j b1 a = Inr (d, b2, a2)" "peers b2 j a2 i"
        "initialmss (conn_at b2 j) = initialmss (conn_at b j)" "initialmss (conn_at a2 i) = initialmss (conn_at a i)"
      by (rule piece_spec [OF Cons.prems(1) [unfolded peers_sym [of a]]])
    then show ?thesis using Cons.IH [of a2 b2] Cons.prems(2) False p peers_sym [of b2] by auto
  qed
qed simp

section \<open>The service at both ends\<close>

text \<open>The state of the bridge after \<^verbatim>\<open>handle_sock_send()\<close> has queued its data is the one that \<open>queue\<close> describes.\<close>

lemma sock_queue_tx_queue:
  assumes "sock_queue_tx req s = Inr t"
  shows "\<exists>n. stack t = queue (take n (rq_buf req)) (stack s)"
proof -
  let ?n = "clamp_net_length (rq_length req)"
  obtain b hb where b: "memcpy_int (sock_tx_buf s) (rq_buf req) ?n = Inr b" "memcpy_int (httpd_socket_tx_buf (stack s)) b ?n = Inr hb"
      "stack t = (stack s)\<lparr>httpd_socket_tx_buf := hb, httpd_socket_tx_len := ?n, httpd_socket_tx_pending := 1\<rparr>"
    using assms by (auto simp: sock_queue_tx_def Let_def elim!: res_bind_InrE)
  then have n: "0 \<le> ?n" "nat ?n \<le> length (rq_buf req)" "hb = take (nat ?n) (rq_buf req) @ drop (nat ?n) (httpd_socket_tx_buf (stack s))"
    by (auto simp: memcpy_int_def mem_read_def mem_write_def split: if_splits)
  then show ?thesis using b(3) by (intro exI [of _ "nat ?n"]) (simp add: queue_def min_def)
qed

section \<open>Properties\<close>

text \<open>The example connection, seen from the other host.\<close>

definition client_established :: httpd_uip where
  "client_established = web_stack\<lparr>uip_hostaddr := uip_ipaddr 10 0 2 2, uip_conns := (uip_conns web_stack)[0 := web_conn\<lparr>ripaddr := uip_ipaddr 10 0 2 15,
     lport := HTONS 1234, rport := HTONS 80, rcv_nxt := (0, 0, 0, 1), snd_nxt := (0, 0, 3, 233)\<rparr>]\<rparr>"

text \<open>
  C2: between two hosts that run this stack an established connection is a reliable byte stream in both directions. The services at the two ends
  send pieces in turn, each at most a segment; the network may lose, for every piece, up to eight times the data or its acknowledgement. Each end then receives exactly
  the bytes that the other has sent, once and in order, no call faults or hangs, and the connection is idle again with the sequence numbers in agreement.
\<close>

theorem conversation_delivered:
  assumes "peers a i b j" and "\<forall>p \<in> set ps. fits (initialmss (conn_at a i)) (initialmss (conn_at b j)) p"
  shows "\<exists>a' b'. talk ps i j a b = Inr (sent_by True ps, sent_by False ps, a', b') \<and> peers a' i b' j"
  by (rule talk_spec [OF assms])

theorem conversation_delivered_witness:
  "\<exists>a' b'. talk [(True, [71, 69, 84], [Data_lost, Ack_lost]), (False, [111, 107], [Ack_lost]), (True, [66], [])] 0 0 client_established web_established =
     Inr ([71, 69, 84, 66], [111, 107], a', b') \<and> peers a' 0 b' 0"
proof -
  let ?ps = "[(True, [71, 69, 84], [Data_lost, Ack_lost]), (False, [111, 107], [Ack_lost]), (True, [66], [])]"
  have p: "peers client_established 0 web_established 0" by code_simp
  have "initialmss (conn_at client_established 0) = 366" "initialmss (conn_at web_established 0) = 366" by code_simp+
  then have f: "\<forall>p \<in> set ?ps. fits (initialmss (conn_at client_established 0)) (initialmss (conn_at web_established 0)) p" by simp
  show ?thesis using conversation_delivered [OF p f] by simp
qed

end
