(* ===== verification/Tcp_Handshake.thy ===== *)
theory Tcp_Handshake
  imports Tcp_Peers
begin

text \<open>
  Opening a connection between two hosts that both run this stack: \<^verbatim>\<open>uip_connect()\<close> at the one, a listening port at the other, and the
  three segments of the handshake.
\<close>

section \<open>Segments with a SYN\<close>

definition has_syn :: "httpd_uip \<Rightarrow> nat \<Rightarrow> u8 \<Rightarrow> bool" where
  "has_syn a i fl \<longleftrightarrow> tcp_ok a \<and> uip_len a = 44 \<and> segment_of a = (conn_segment a i fl [])\<lparr>sg_offset := 0x60\<rparr> \<and>
     map (buf8 a) [54, 55, 56, 57] = [TCP_OPT_MSS, TCP_OPT_MSS_LEN, hi8 UIP_TCP_MSS, lo8 UIP_TCP_MSS]"

lemma deliver_syn:
  fixes a b :: httpd_uip
  defines "t \<equiv> deliver a b"
  assumes wf: "uip_wf a" "uip_wf b" and dest: "ripaddr (conn_at a i) = uip_hostaddr b" and has: "has_syn a i fl"
  shows "uip_wf t" "bridge_wf t = bridge_wf b" "valid_tcp t"
    "conn_matches t = conn_to (uip_hostaddr a) (rport (conn_at a i)) (lport (conn_at a i))" "buf8 t o_flags = fl"
    "buf8 t o_tcpoffset = 0x60" "buf_quad t o_seqno = snd_nxt (conn_at a i)" "buf_quad t o_ackno = rcv_nxt (conn_at a i)"
    "seg_datalen t = 0" "mss_option (uip_buf t) 4 0 = Some (Some UIP_TCP_MSS)" "opts_safe t"
    "buf16 t o_srcport = lport (conn_at a i)" "buf16 t o_destport = rport (conn_at a i)" "buf_addr t o_srcipaddr = uip_hostaddr a"
proof -
  have ok: "tcp_ok a" and seg: "segment_of a = (conn_segment a i fl [])\<lparr>sg_offset := 0x60\<rparr>" and l: "uip_len a = 44"
    and opt: "buf8 a 54 = 2" "buf8 a 55 = 4" "buf8 a 56 = hi8 366" "buf8 a 57 = lo8 366"
    using has by (simp_all add: has_syn_def)
  have d: "sg_dest (segment_of a) = uip_hostaddr b" using seg dest by (simp add: conn_segment_def Let_def)
  note v = deliver_valid [OF ok wf d, folded t_def] and f = deliver_fields [OF ok wf d, folded t_def]
  note p = deliver_packet [OF ok wf, folded t_def]
  show "uip_wf t" "valid_tcp t" by (rule p(1) v(1))+
  show "bridge_wf t = bridge_wf b" by (rule bridge_more(1)) (simp add: t_def)
  show "conn_matches t = conn_to (uip_hostaddr a) (rport (conn_at a i)) (lport (conn_at a i))"
    using f(1-3) seg by (simp add: conn_matches_to conn_segment_def Let_def)
  show fl: "buf8 t o_flags = fl" "buf8 t o_tcpoffset = 0x60" "buf_quad t o_seqno = snd_nxt (conn_at a i)" "buf_quad t o_ackno = rcv_nxt (conn_at a i)"
    "buf16 t o_srcport = lport (conn_at a i)" "buf16 t o_destport = rport (conn_at a i)" "buf_addr t o_srcipaddr = uip_hostaddr a"
    using f(1-7) seg by (simp_all add: conn_segment_def Let_def)
  show "seg_datalen t = 0" using v(2) l fl(2) by (simp add: seg_datalen_def)
  have "buf8 t 54 = 2" "buf8 t 55 = 4" "buf8 t 56 = hi8 366" "buf8 t 57 = lo8 366"
    using opt l p(2) [of 54] p(2) [of 55] p(2) [of 56] p(2) [of 57] by simp_all
  then show m: "mss_option (uip_buf t) 4 0 = Some (Some UIP_TCP_MSS)"
    by (subst mss_option.simps) (simp add: buf8_def hi8_def lo8_def)
  show "opts_safe t" using m fl(2) by (simp add: opts_safe_def)
qed

section \<open>The active side\<close>

text \<open>When its timer has run down, a connection in \<^verbatim>\<open>SYN_SENT\<close> sends its SYN, for the first time or again.\<close>

lemma syn_expired:
  assumes wf: "uip_wf a" "i < 40" and c: "tcpstateflags (conn_at a i) = UIP_SYN_SENT" "conn_len (conn_at a i) = 1" "timer (conn_at a i) = 0"
      "\<not> given_up (conn_at a i)"
  shows "\<exists>a'. uip_periodic httpd_appcall i a = Inr a' \<and> uip_wf a' \<and> uip.more a' = uip.more a \<and> net_config a' = net_config a \<and>
    uip_conns a' = (uip_conns a)[i := (conn_at a i)\<lparr>timer := backoff (nrtx (conn_at a i)), nrtx := nrtx (conn_at a i) + 1\<rparr>] \<and> has_syn a' i TCP_SYN"
proof -
  have L: "i < length (uip_conns a)" using wf uip_wf_lengths(2) [OF wf(1)] by simp
  define x where "x = count_stat (\<lambda>t. t\<lparr>tcp_rexmit := tcp_rexmit t + 1\<rparr>) (upd_conn i (\<lambda>c. c\<lparr>timer := backoff (nrtx c), nrtx := nrtx c + 1\<rparr>)
    (upd_conn i (\<lambda>c. c\<lparr>timer := timer c - 1\<rparr>)
    (a\<lparr>uip_conn := Some i, uip_sappdata := 54, uip_appdata := 54, iss := quad_incr (iss a), uip_len := 0, uip_slen := 0\<rparr>)))"
  have xw: "uip_wf x" using wf unfolding x_def by (simp add: uip_wf_upd_conn conn_wf_def conn_wf_conn_at [unfolded conn_wf_def] conn_at_upd_wf)
  have x: "uip.more x = uip.more a" "net_config x = net_config a"
      "uip_conns x = (uip_conns a)[i := (conn_at a i)\<lparr>timer := backoff (nrtx (conn_at a i)), nrtx := nrtx (conn_at a i) + 1\<rparr>]"
    using L by (simp_all add: x_def) (simp add: count_stat_def upd_conn_def conn_at_def)
  have run: "uip_periodic httpd_appcall i a = tcp_send_syn i (set8 o_flags 0 x)"
    using c L
    by (simp add: Let_def uip_periodic_def uip_process_def timer_tick_def timer_outstanding_def rexmit_def uip_outstanding_def tcp_state_of_def x_def
        conn_at_upd_conn given_up_def)
  obtain a' where a': "tcp_send_syn i (set8 o_flags 0 x) = Inr a'" "uip_wf a'" "tcp_ok a'" "uip_len a' = 44" "uip_conns a' = uip_conns x"
      "uip.more a' = uip.more x" "net_config a' = net_config x" "segment_of a' = (conn_segment x i TCP_SYN [])\<lparr>sg_offset := 0x60\<rparr>"
      "map (buf8 a') [54, 55, 56, 57] = [TCP_OPT_MSS, TCP_OPT_MSS_LEN, hi8 UIP_TCP_MSS, lo8 UIP_TCP_MSS]"
    using tcp_send_syn_spec [OF xw, of i 0] by (elim exE conjE) (simp add: that)
  have "conn_segment x i TCP_SYN [] = conn_segment a' i TCP_SYN []"
    using a'(5,7) by (simp add: conn_segment_def conn_at_def net_config_def)
  then have "has_syn a' i TCP_SYN" using a' by (simp add: has_syn_def)
  then show ?thesis using run a' x by simp
qed

lemma syn_timer:
  assumes "uip_wf a" "i < 40" and "tcpstateflags (conn_at a i) = UIP_SYN_SENT" "conn_len (conn_at a i) = 1" "\<not> given_up (conn_at a i)"
  shows "\<exists>a'. uip_periodics (Suc (unat (timer (conn_at a i)))) i a = Inr a' \<and> uip_wf a' \<and> uip.more a' = uip.more a \<and> net_config a' = net_config a \<and>
    uip_conns a' = (uip_conns a)[i := (conn_at a i)\<lparr>timer := backoff (nrtx (conn_at a i)), nrtx := nrtx (conn_at a i) + 1\<rparr>] \<and> has_syn a' i TCP_SYN"
  using assms
proof (induction "unat (timer (conn_at a i))" arbitrary: a)
  case 0
  then show ?case using syn_expired [of a i] by (auto simp: unat_eq_0)
next
  case (Suc k)
  have L: "i < length (uip_conns a)" using Suc.prems(2) uip_wf_lengths(2) [OF Suc.prems(1)] by simp
  have t: "timer (conn_at a i) \<noteq> 0" using Suc.hyps(2) by auto
  have "in_flight (conn_at a i)" using Suc.prems by (simp add: in_flight_def uip_outstanding_def)
  then obtain a1 where a1: "uip_periodic httpd_appcall i a = Inr a1" "uip_wf a1" "uip.more a1 = uip.more a" "net_config a1 = net_config a"
      "uip_conns a1 = (uip_conns a)[i := (conn_at a i)\<lparr>timer := timer (conn_at a i) - 1\<rparr>]"
    using wait_step [OF Suc.prems(1,2)] t by auto
  have c1: "conn_at a1 i = (conn_at a i)\<lparr>timer := timer (conn_at a i) - 1\<rparr>" using a1(5) L by (simp add: conn_at_def)
  have k: "k = unat (timer (conn_at a1 i))" using c1 Suc.hyps(2) t by (simp add: unat_minus_one)
  have "tcpstateflags (conn_at a1 i) = UIP_SYN_SENT" "conn_len (conn_at a1 i) = 1" "\<not> given_up (conn_at a1 i)"
    using c1 Suc.prems(3-5) by (simp_all add: given_up_def)
  from Suc.hyps(1) [OF k a1(2) Suc.prems(2) this] obtain a' where "uip_periodics (Suc k) i a1 = Inr a'" "uip_wf a'" "uip.more a' = uip.more a1"
      "net_config a' = net_config a1" "has_syn a' i TCP_SYN"
      "uip_conns a' = (uip_conns a1)[i := (conn_at a1 i)\<lparr>timer := backoff (nrtx (conn_at a1 i)), nrtx := nrtx (conn_at a1 i) + 1\<rparr>]"
    unfolding k [symmetric] by blast
  then show ?case using a1 c1 by (intro exI [of _ a']) (simp flip: Suc.hyps(2))
qed

text \<open>The SYN with ACK arrives: the connection is established, the bridge is told, and the answer is an acknowledgement.\<close>

lemma httpd_connected_active:
  assumes fl: "uip_flags s = UIP_CONNECTED OR UIP_NEWDATA" "uip_len s = 0" and b: "length (uip_buf s) = 422" "uip_appdata s = 54"
    "httpd_socket_close_pending s = 0" "httpd_socket_tx_pending s = 0"
  shows "httpd_appcall s = Inr (s\<lparr>httpd_socket_conn_open := 1, httpd_socket_conn_pending := 1, httpd_socket_conn_closed := 0, httpd_socket_rx_len := 0\<rparr>)"
  using assms
  by (simp add: httpd_appcall_def httpd_conn_events_def uip_closed_event_def httpd_newdata_def httpd_tx_def Let_def mem_read_def mem_write_def)

lemma syn_sent_spec:
  fixes s :: httpd_uip
  assumes wf: "uip_wf s" and v: "valid_tcp s" and r: "first_index (conn_matches s) (uip_conns s) = Some r"
    and st: "tcpstateflags (conn_at s r) = UIP_SYN_SENT" and ack: "acks_all s r"
    and seg: "buf8 s o_flags = TCP_SYN OR TCP_ACK" "buf8 s o_tcpoffset = 0x60" "mss_option (uip_buf s) 4 0 = Some (Some m)" "m \<le> UIP_TCP_MSS"
    and idle: "httpd_socket_close_pending s = 0" "httpd_socket_tx_pending s = 0"
  shows "\<exists>s'. uip_input httpd_appcall s = Inr s' \<and> uip_wf s' \<and> tcp_ok s' \<and> net_config s' = net_config s \<and>
    bridge_conn s' = (1, 1, 0, 0, 0) \<and> httpd_socket_rx_len s' = 0 \<and>
    segment_of s' = (conn_segment s' r TCP_ACK [])\<lparr>sg_src := uip_hostaddr s\<rparr> \<and>
    uip_conns s' = (uip_conns s)[r := (acked_conn (buf_quad s o_ackno) (conn_at s r))\<lparr>mss := m, initialmss := m,
      tcpstateflags := UIP_ESTABLISHED, rcv_nxt := uip_add32 (buf_quad s o_seqno) 1, nrtx := 0\<rparr>]"
proof -
  have L: "r < length (uip_conns s)" and r40: "r < 40"
    using first_index_Some [OF r] uip_wf_lengths [OF wf] by simp_all
  let ?a = "tcp_ack_input r (found_rx r s)" and ?c = "acked_conn (buf_quad s o_ackno) (conn_at s r)"
  have "acks_all (found_rx r s) r" using ack by (simp add: acks_all_def has_flag_def)
  from tcp_ack_input_acked [OF this] L have a: "uip_conns ?a = (uip_conns s)[r := ?c]" "uip_flags ?a = UIP_ACKDATA" by simp_all
  note c = tcp_ack_input_conn [OF found_rx_wf [OF wf r40] r40]
  have ub: "uip_buf ?a = uip_buf s" by (simp add: tcp_ack_input_def Let_def)
  note b = ub same_buf [OF ub]
  have in_: "uip_input httpd_appcall s = st_syn_sent httpd_appcall r ?a"
    using seg(1) st c(1)
    by (simp add: uip_input_valid [OF v] r found_seq unexpected_seq_found_rx tcp_state_input_def tcp_state_of_def)
  define u where "u = (upd_conn r (\<lambda>c. c\<lparr>conn_len := 0\<rparr>) ((uip_add_rcv_nxt r 1 (upd_conn r (\<lambda>c. c\<lparr>tcpstateflags := UIP_ESTABLISHED, rcv_nxt := buf_quad s o_seqno\<rparr>)
      (upd_conn r (\<lambda>c. c\<lparr>mss := m, initialmss := m\<rparr>) ?a)))\<lparr>uip_flags := UIP_CONNECTED OR UIP_NEWDATA\<rparr>))\<lparr>uip_len := 0, uip_slen := 0\<rparr>"
  have u: "uip_flags u = UIP_CONNECTED OR UIP_NEWDATA" "uip_slen u = 0" "uip_len u = 0" "net_config u = net_config s" "uip.more u = uip.more s"
      "uip_buf u = uip_buf s" "uip_appdata u = 54"
    using c(4,5) by (simp_all add: u_def uip_add_rcv_nxt_def Let_def)
  have host: "uip_hostaddr u = uip_hostaddr s" using u(4) by (simp add: net_config_def)
  have run: "st_syn_sent httpd_appcall r ?a = res_bind (httpd_appcall u) (appsend r)"
    using a(2) seg b parse_mss_option [of ?a m r] by (simp add: st_syn_sent_def Let_def u_def)
  have conn_len: "x\<lparr>conn_len := 0\<rparr> = x" if "conn_len x = 0" for x :: uip_conn_t using that by (cases x) simp
  have cu: "uip_conns u = (uip_conns s)[r := ?c\<lparr>mss := m, initialmss := m, tcpstateflags := UIP_ESTABLISHED, rcv_nxt := uip_add32 (buf_quad s o_seqno) 1\<rparr>]"
    using L by (simp add: u_def uip_add_rcv_nxt_def Let_def upd_conn_def conn_at_def a(1) conn_len)
  have uw: "uip_wf u"
    using seg(4) r40 c(3) unfolding u_def uip_add_rcv_nxt_def Let_def
    by (simp add: uip_wf_upd_conn conn_wf_def conn_wf_conn_at [unfolded conn_wf_def] conn_at_upd_wf)
  let ?w = "u\<lparr>httpd_socket_conn_open := 1, httpd_socket_conn_pending := 1, httpd_socket_conn_closed := 0, httpd_socket_rx_len := 0\<rparr>"
  have "httpd_appcall u = Inr ?w"
    using u more_fields [OF u(5)] idle uip_wf_lengths(1) [OF wf] by (intro httpd_connected_active) simp_all
  moreover have w: "uip_wf ?w" "net_config ?w = net_config s" "uip_conns ?w = uip_conns u" "conn_at ?w r = conn_at u r"
    using uw u(4) by (simp_all add: uip_wf_def net_config_def conn_at_def)
  obtain s' where s': "appsend r ?w = Inr s'" "uip_wf s'" "tcp_ok s'" "uip.more s' = uip.more ?w" "net_config s' = net_config ?w"
      "uip_conns s' = (uip_conns u)[r := (conn_at u r)\<lparr>nrtx := 0\<rparr>]" "segment_of s' = (conn_segment s' r TCP_ACK [])\<lparr>sg_src := uip_hostaddr s\<rparr>"
    using appsend_plain_ack [OF w(1) r40] u w(3,4) host by auto
  moreover have "bridge_conn s' = (1, 1, 0, 0, 0)" "httpd_socket_rx_len s' = 0"
    using bridge_conn_more [OF s'(4)] more_fields(7) [OF s'(4)] more_fields [OF u(5)] idle by (simp_all add: bridge_conn_def)
  moreover have "uip_conns s' = (uip_conns s)[r := ?c\<lparr>mss := m, initialmss := m, tcpstateflags := UIP_ESTABLISHED,
      rcv_nxt := uip_add32 (buf_quad s o_seqno) 1, nrtx := 0\<rparr>]"
    using s'(6) cu L by (simp add: conn_at_def)
  ultimately show ?thesis using in_ run w(2) by auto
qed

section \<open>The handshake\<close>

text \<open>The two ticks that send the SYN, and the delivery of the SYN, the SYN with ACK and the acknowledgement.\<close>

definition handshake :: "nat \<Rightarrow> httpd_uip \<Rightarrow> httpd_uip \<Rightarrow> (httpd_uip \<times> httpd_uip) res" where
  "handshake i a b = res_bind (uip_periodics 2 i a) (\<lambda>a. res_bind (receive a b) (\<lambda>(_, b). res_bind (receive b a) (\<lambda>(_, a).
     res_bind (receive a b) (\<lambda>(_, b). Inr (a, b)))))"

lemma first_index_new: "first_index P xs = None \<Longrightarrow> j < length xs \<Longrightarrow> P c \<Longrightarrow> first_index P (xs[j := c]) = Some j"
proof (induction xs arbitrary: j)
  case (Cons x xs)
  then show ?case by (cases j) (auto split: if_splits)
qed simp

text \<open>The connection that \<^verbatim>\<open>uip_connect()\<close> makes is the only one on its local port.\<close>

lemma connect_spec:
  assumes wf: "uip_wf a" and run: "uip_connect addr port a = Inr (a1, Some i)"
  shows "uip_wf a1" "uip.more a1 = uip.more a" "net_config a1 = net_config a" "i < 40"
    "tcpstateflags (conn_at a1 i) = UIP_SYN_SENT" "conn_len (conn_at a1 i) = 1" "timer (conn_at a1 i) = 1" "nrtx (conn_at a1 i) = 0"
    "ripaddr (conn_at a1 i) = addr" "rport (conn_at a1 i) = port"
    "first_index (conn_to addr (lport (conn_at a1 i)) port) (uip_conns a1) = Some i"
proof -
  note L = uip_wf_lengths(2) [OF wf]
  obtain lp where lp: "search_port (uip_conns a) (lastport a) = Some lp" "\<not> port_used (uip_conns a) lp"
    using search_port_returns [of "uip_conns a" "lastport a"] L by auto
  let ?f = "\<lambda>c. c\<lparr>tcpstateflags := UIP_SYN_SENT, snd_nxt := iss a, mss := UIP_TCP_MSS, initialmss := UIP_TCP_MSS, conn_len := 1, nrtx := 0,
    timer := 1, rto := UIP_RTO, sa := 0, sv := 16, lport := htons lp, rport := port, ripaddr := addr\<rparr>"
  have f: "find_unused (uip_conns a) 0 None = Some i" "a1 = upd_conn i ?f (a\<lparr>lastport := lp\<rparr>)"
    using run lp(1) by (auto simp: uip_connect_def Let_def split: option.splits)
  show i: "i < 40" using find_unused_free [OF f(1)] L by auto
  have w: "uip_wf (a\<lparr>lastport := lp\<rparr>)" using wf by (simp add: uip_wf_def)
  show "uip_wf a1" unfolding f(2) using w i by (intro uip_wf_upd_conn) (simp_all add: conn_wf_def)
  show "uip.more a1 = uip.more a" "net_config a1 = net_config a" by (simp_all add: f(2) net_config_def upd_conn_def)
  have c: "conn_at a1 i = ?f (conn_at a i)" "uip_conns a1 = (uip_conns a)[i := ?f (conn_at a i)]"
    using L i by (simp_all add: f(2) conn_at_def upd_conn_def)
  show "tcpstateflags (conn_at a1 i) = UIP_SYN_SENT" "conn_len (conn_at a1 i) = 1" "timer (conn_at a1 i) = 1" "nrtx (conn_at a1 i) = 0"
    "ripaddr (conn_at a1 i) = addr" "rport (conn_at a1 i) = port"
    using c(1) by simp_all
  have "first_index (conn_to addr (htons lp) port) (uip_conns a) = None"
    using lp(2) by (auto simp: first_index_None conn_to_def port_used_def list_ex_iff)
  then show "first_index (conn_to addr (lport (conn_at a1 i)) port) (uip_conns a1) = Some i"
    unfolding c using i L by (intro first_index_new) (simp_all add: conn_to_def)
qed

text \<open>The SYN has arrived at host \<open>b\<close>, and the answer is in its packet buffer.\<close>

definition half_open :: "httpd_uip \<Rightarrow> nat \<Rightarrow> httpd_uip \<Rightarrow> nat \<Rightarrow> bool" where
  "half_open a i b j \<longleftrightarrow> (let c = conn_at a i; d = conn_at b j in ready a \<and> ready b \<and> has_syn b j (TCP_SYN OR TCP_ACK) \<and>
     tcpstateflags c = UIP_SYN_SENT \<and> conn_len c = 1 \<and> tcpstateflags d = UIP_SYN_RCVD \<and> conn_len d = 1 \<and>
     mss d = UIP_TCP_MSS \<and> initialmss d = UIP_TCP_MSS \<and> rcv_nxt d = uip_add32 (snd_nxt c) 1 \<and>
     first_index (conn_to (uip_hostaddr b) (rport d) (lport d)) (uip_conns a) = Some i \<and>
     first_index (conn_to (uip_hostaddr a) (rport c) (lport c)) (uip_conns b) = Some j)"

lemma syn_half_open:
  assumes ab: "ready a" "ready b" and run: "uip_connect (uip_hostaddr b) port a = Inr (a1, Some i)"
    and listen: "port \<in> set (uip_listenports b)" and slot: "find_unused (uip_conns b) 0 None = Some j"
    and new: "first_index (conn_to (uip_hostaddr a) port (lport (conn_at a1 i))) (uip_conns b) = None"
  shows "\<exists>a2 b2. uip_periodics 2 i a1 = Inr a2 \<and> receive a2 b = Inr ([], b2) \<and> half_open a2 i b2 j \<and> \<not> given_up (conn_at a2 i)"
proof -
  have wf: "uip_wf a" "uip_wf b" using ab by (simp_all add: ready_def)
  note k = connect_spec [OF wf(1) run]
  let ?lp = "lport (conn_at a1 i)" and ?A = "uip_hostaddr a" and ?B = "uip_hostaddr b"
  have first: "\<not> given_up (conn_at a1 i)" "Suc (unat (timer (conn_at a1 i))) = 2" "backoff (nrtx (conn_at a1 i)) = UIP_RTO"
    using k(7,8) by (simp_all add: given_up_def backoff_def)
  obtain a2 where a2: "uip_periodics 2 i a1 = Inr a2" "uip_wf a2" "uip.more a2 = uip.more a" "net_config a2 = net_config a"
      "uip_conns a2 = (uip_conns a1)[i := (conn_at a1 i)\<lparr>timer := UIP_RTO, nrtx := 1\<rparr>]" "has_syn a2 i TCP_SYN"
    using syn_timer [OF k(1,4-6) first(1)] k(2,3,8) unfolding first(2,3) by auto
  have c2: "conn_at a2 i = (conn_at a1 i)\<lparr>timer := UIP_RTO, nrtx := 1\<rparr>" using a2(5) uip_wf_lengths(2) [OF k(1)] k(4) by (simp add: conn_at_def)
  have f2: "first_index (conn_to ?B ?lp port) (uip_conns a2) = Some i"
    unfolding a2(5) using k(5,9,10) by (intro first_index_update [OF k(11)]) (simp add: conn_to_def)
  have h2: "uip_hostaddr a2 = ?A" using a2(4) by (simp add: net_config_def)
  let ?s = "deliver a2 b"
  note s = deliver_syn [OF a2(2) wf(2) _ a2(6), unfolded c2, simplified, OF k(9)]
  have "first_index (conn_matches ?s) (uip_conns ?s) = None" "buf8 ?s o_flags AND TCP_CTL = TCP_SYN"
      "buf16 ?s o_destport \<in> set (uip_listenports ?s)" "find_unused (uip_conns ?s) 0 None = Some j"
    using s(4,5,13) new listen slot h2 k(10) by simp_all
  from syn_spec [OF s(1,3) this s(11), of httpd_appcall] obtain b2 where b2: "uip_input httpd_appcall ?s = Inr b2" "uip_wf b2" "tcp_ok b2" "uip_len b2 = 44"
      "j < 40" "tcpstateflags (conn_at b2 j) = UIP_SYN_RCVD" "lport (conn_at b2 j) = port" "rport (conn_at b2 j) = ?lp" "ripaddr (conn_at b2 j) = ?A"
      "conn_len (conn_at b2 j) = 1" "\<forall>m. m \<noteq> j \<longrightarrow> conn_at b2 m = conn_at b m"
      "rcv_nxt (conn_at b2 j) = uip_add32 (snd_nxt (conn_at a2 i)) 1" "uip.more b2 = uip.more b" "net_config b2 = net_config b"
      "mss (conn_at b2 j) = UIP_TCP_MSS" "initialmss (conn_at b2 j) = UIP_TCP_MSS"
      "segment_of b2 = (conn_segment b2 j (TCP_SYN OR TCP_ACK) [])\<lparr>sg_offset := 0x60, sg_src := ?B\<rparr>"
      "map (buf8 b2) [54, 55, 56, 57] = [TCP_OPT_MSS, TCP_OPT_MSS_LEN, hi8 366, lo8 366]"
    using s(6,7,10,12-14) c2 k(10) h2 by auto
  have hb: "uip_hostaddr b2 = ?B" using b2(14) by (simp add: net_config_def)
  have "uip_conns b2 = (uip_conns b)[j := conn_at b2 j]" using b2(11) by (intro conns_updated [OF wf(2) b2(2) refl]) blast
  moreover have "conn_to ?A port ?lp (conn_at b2 j)" "j < length (uip_conns b)"
    using b2(5-9) uip_wf_lengths(2) [OF wf(2)] by (simp_all add: conn_to_def)
  ultimately have fb: "first_index (conn_to ?A port ?lp) (uip_conns b2) = Some j" using first_index_new [OF new] by simp
  have "has_syn b2 j (TCP_SYN OR TCP_ACK)" using b2(3,4,17,18) hb by (simp add: has_syn_def conn_segment_def Let_def)
  moreover have rd: "ready a2" "ready b2" using ready_more [OF ab(1) a2(2,3)] ready_more [OF ab(2) b2(2,13)] .
  ultimately have "half_open a2 i b2 j" using b2 c2 k f2 fb hb h2 by (simp add: half_open_def Let_def)
  moreover have "receive a2 b = Inr ([], b2)" using rd(2) by (intro receive_empty [OF b2(1)]) (simp add: ready_def)
  moreover have "\<not> given_up (conn_at a2 i)" using c2 by (simp add: given_up_def)
  ultimately show ?thesis using a2(1) by blast
qed

text \<open>The SYN with ACK arrives at host \<open>a\<close>, which is then connected; its acknowledgement is in its packet buffer.\<close>

lemma half_open_active:
  assumes h: "half_open a i b j"
  shows "\<exists>a'. receive b a = Inr ([], a') \<and> endpoint a' i b j \<and> idle a' i \<and> has_segment a' i TCP_ACK [] \<and>
    initialmss (conn_at a' i) = UIP_TCP_MSS \<and> snd_nxt (conn_at a' i) = rcv_nxt (conn_at b j) \<and>
    rcv_nxt (conn_at a' i) = uip_add32 (snd_nxt (conn_at b j)) 1 \<and> uip_hostaddr a' = uip_hostaddr a \<and>
    rport (conn_at a' i) = rport (conn_at a i) \<and> lport (conn_at a' i) = lport (conn_at a i)"
proof -
  let ?c = "conn_at a i" and ?d = "conn_at b j"
  have rd: "ready a" "ready b" "has_syn b j (TCP_SYN OR TCP_ACK)" and st: "tcpstateflags ?c = UIP_SYN_SENT" "conn_len ?c = 1" "rcv_nxt ?d = uip_add32 (snd_nxt ?c) 1"
    and f: "first_index (conn_to (uip_hostaddr b) (rport ?d) (lport ?d)) (uip_conns a) = Some i"
      "first_index (conn_to (uip_hostaddr a) (rport ?c) (lport ?c)) (uip_conns b) = Some j"
    using h by (simp_all add: half_open_def Let_def)
  have wf: "uip_wf a" "uip_wf b" "bridge_wf a" using rd by (simp_all add: ready_def)
  have i: "i < length (uip_conns a)" "lport ?c = rport ?d" "rport ?c = lport ?d" "ripaddr ?c = uip_hostaddr b" "ripaddr ?d = uip_hostaddr a"
    using first_index_Some [OF f(1)] first_index_Some [OF f(2)] by (auto simp: conn_to_def conn_at_def)
  let ?t = "deliver b a"
  note t = deliver_syn [OF wf(2,1) i(5) rd(3)]
  have more: "uip.more ?t = uip.more a" by simp
  have m: "first_index (conn_matches ?t) (uip_conns ?t) = Some i" "tcpstateflags (conn_at ?t i) = UIP_SYN_SENT" "(UIP_TCP_MSS :: u16) \<le> UIP_TCP_MSS"
      "httpd_socket_close_pending ?t = 0" "httpd_socket_tx_pending ?t = 0" "acks_all ?t i"
    using t(4,5,8) f(1) st more_fields [OF more] rd(1)
    by (simp_all add: ready_def acks_all_def has_flag_def uip_outstanding_def)
  let ?x = "(acked_conn (rcv_nxt ?d) ?c)\<lparr>mss := UIP_TCP_MSS, initialmss := UIP_TCP_MSS, tcpstateflags := UIP_ESTABLISHED,
    rcv_nxt := uip_add32 (snd_nxt ?d) 1, nrtx := 0\<rparr>"
  obtain a' where a': "uip_input httpd_appcall ?t = Inr a'" "uip_wf a'" "tcp_ok a'" "net_config a' = net_config a" "bridge_conn a' = (1, 1, 0, 0, 0)"
      "httpd_socket_rx_len a' = 0" "segment_of a' = (conn_segment a' i TCP_ACK [])\<lparr>sg_src := uip_hostaddr a\<rparr>" "uip_conns a' = (uip_conns a)[i := ?x]"
    using syn_sent_spec [OF t(1,3) m(1,2,6) t(5,6,10) m(3-5)] t(7,8) by auto
  have c: "conn_at a' i = ?x" using a'(8) i(1) by (simp add: conn_at_def)
  have ho: "uip_hostaddr a' = uip_hostaddr a" using a'(4) by (simp add: net_config_def)
  have "bridge_wf a'" using bridge.uip_process_ok [of ?t UIP_DATA] t(1,2) wf(3) a'(1) by (auto simp: uip_inv_def uip_input_def)
  moreover have "first_index (conn_to (uip_hostaddr b) (rport ?d) (lport ?d)) (uip_conns a') = Some i"
    unfolding a'(8) using i by (intro first_index_update [OF f(1)]) (simp add: conn_to_def)
  ultimately have "endpoint a' i b j" "idle a' i" using a'(2,5,6) c by (simp_all add: endpoint_def idle_def bridge_conn_def)
  moreover have "has_segment a' i TCP_ACK []" using a'(3,7) ho by (simp add: has_segment_def conn_segment_def Let_def)
  moreover have "receive b a = Inr ([], a')" by (rule receive_empty [OF a'(1,6)])
  ultimately show ?thesis using c ho by auto
qed

text \<open>The acknowledgement arrives at host \<open>b\<close>.\<close>

lemma half_open_peers:
  assumes h: "half_open a i b j"
  shows "\<exists>a' b'. receive b a = Inr ([], a') \<and> receive a' b = Inr ([], b') \<and> peers a' i b' j \<and> initialmss (conn_at a' i) = UIP_TCP_MSS \<and>
    initialmss (conn_at b' j) = UIP_TCP_MSS \<and> httpd_socket_conn_pending b' = 1"
proof -
  let ?c = "conn_at a i" and ?d = "conn_at b j"
  have rd: "ready b" and st: "tcpstateflags ?d = UIP_SYN_RCVD" "conn_len ?d = 1" "mss ?d = UIP_TCP_MSS" "initialmss ?d = UIP_TCP_MSS"
    and f: "first_index (conn_to (uip_hostaddr a) (rport ?c) (lport ?c)) (uip_conns b) = Some j"
    using h by (simp_all add: half_open_def Let_def)
  obtain a' where a': "receive b a = Inr ([], a')" "endpoint a' i b j" "idle a' i" "has_segment a' i TCP_ACK []"
      "initialmss (conn_at a' i) = UIP_TCP_MSS" "snd_nxt (conn_at a' i) = rcv_nxt ?d" "rcv_nxt (conn_at a' i) = uip_add32 (snd_nxt ?d) 1"
      "uip_hostaddr a' = uip_hostaddr a" "rport (conn_at a' i) = rport ?c" "lport (conn_at a' i) = lport ?c"
    using half_open_active [OF h] by blast
  have wf: "uip_wf b" "bridge_wf b" using rd by (simp_all add: ready_def)
  note D = endpointD [OF a'(2)]
  let ?t = "deliver a' b"
  note t = deliver_segment [OF D(6) wf(1) D(5) a'(4)]
  have more: "uip.more ?t = uip.more b" by simp
  have j: "j < length (uip_conns b)" "lport ?d = rport ?c" "rport ?d = lport ?c" "ripaddr ?d = uip_hostaddr a"
    using first_index_Some [OF f] by (auto simp: conn_to_def conn_at_def)
  have m: "first_index (conn_matches ?t) (uip_conns ?t) = Some j" "tcpstateflags (conn_at ?t j) = UIP_SYN_RCVD" "acks_all ?t j"
      "buf8 ?t o_flags AND (TCP_FIN OR TCP_SYN OR TCP_RST) = 0" "seg_datalen ?t = 0" "httpd_socket_close_pending ?t = 0"
    using t(4,5,8,10) f st a'(7-10) more_fields [OF more] rd by (simp_all add: ready_def acks_all_def has_flag_def uip_outstanding_def)
  let ?x = "(acked_conn (rcv_nxt (conn_at a' i)) ?d)\<lparr>tcpstateflags := UIP_ESTABLISHED, nrtx := 0\<rparr>"
  obtain b' where b': "uip_input httpd_appcall ?t = Inr b'" "net_config b' = net_config b" "bridge_conn b' = (1, 1, 0, 0, 0)"
      "httpd_socket_rx_len b' = 0" "uip_conns b' = (uip_conns b)[j := ?x]"
    using handshake_spec [OF t(1,3) m] t(8) more_fields [OF more] rd by (auto simp: ready_def)
  have c: "conn_at b' j = ?x" using b'(5) j(1) by (simp add: conn_at_def)
  have ho: "uip_hostaddr b' = uip_hostaddr b" using b'(2) by (simp add: net_config_def)
  have "uip_wf b'" "bridge_wf b'" using bridge.uip_process_ok [of ?t UIP_DATA] t(1,2) wf(2) b'(1) by (auto simp: uip_inv_def uip_input_def)
  moreover have "first_index (conn_to (uip_hostaddr a) (rport ?c) (lport ?c)) (uip_conns b') = Some j"
    unfolding b'(5) using j by (intro first_index_update [OF f]) (simp add: conn_to_def)
  ultimately have "endpoint b' j a' i" "idle b' j"
    using b'(3,4) c st(3,4) a'(8-10) by (simp_all add: endpoint_def idle_def bridge_conn_def)
  moreover have "endpoint a' i b' j" using c ho by (intro endpoint_other [OF a'(2)]) simp_all
  ultimately have "peers a' i b' j" using a'(3,6) c by (simp add: peers_def)
  moreover have "receive a' b = Inr ([], b')" by (rule receive_empty [OF b'(1,4)])
  ultimately show ?thesis using a'(1,5) b'(3) c st(4) by (auto simp: bridge_conn_def)
qed

lemma handshake_peers:
  assumes "ready a" "ready b" and "uip_connect (uip_hostaddr b) port a = Inr (a1, Some i)"
    and "port \<in> set (uip_listenports b)" and "find_unused (uip_conns b) 0 None = Some j"
    and "first_index (conn_to (uip_hostaddr a) port (lport (conn_at a1 i))) (uip_conns b) = None"
  shows "\<exists>a' b'. handshake i a1 b = Inr (a', b') \<and> peers a' i b' j \<and> initialmss (conn_at a' i) = UIP_TCP_MSS \<and>
    initialmss (conn_at b' j) = UIP_TCP_MSS \<and> httpd_socket_conn_pending b' = 1"
  using syn_half_open [OF assms] half_open_peers by (fastforce simp: handshake_def)

section \<open>A SYN with ACK that is lost\<close>

text \<open>
  A repeated SYN finds the connection in \<^verbatim>\<open>SYN_RCVD\<close>, where its sequence number is not the one expected. The answer is an acknowledgement, not a SYN with ACK.
\<close>

lemma syn_repeated:
  assumes h: "half_open a i b j" and a1: "uip_wf a1" "net_config a1 = net_config a" "has_syn a1 i TCP_SYN"
    and same: "snd_nxt (conn_at a1 i) = snd_nxt (conn_at a i)" "ripaddr (conn_at a1 i) = ripaddr (conn_at a i)"
      "rport (conn_at a1 i) = rport (conn_at a i)" "lport (conn_at a1 i) = lport (conn_at a i)"
  shows "\<exists>b'. uip_input httpd_appcall (deliver a1 b) = Inr b' \<and> uip_wf b' \<and> net_config b' = net_config b \<and> uip_conns b' = uip_conns b \<and>
    uip.more b' = uip.more b \<and> has_segment b' j TCP_ACK []"
proof -
  let ?c = "conn_at a i" and ?d = "conn_at b j" and ?t = "deliver a1 b"
  have f: "first_index (conn_to (uip_hostaddr b) (rport ?d) (lport ?d)) (uip_conns a) = Some i"
      "first_index (conn_to (uip_hostaddr a) (rport ?c) (lport ?c)) (uip_conns b) = Some j"
    and st: "tcpstateflags ?d = UIP_SYN_RCVD" "rcv_nxt ?d = uip_add32 (snd_nxt ?c) 1" and wf: "uip_wf b"
    using h by (simp_all add: half_open_def ready_def Let_def)
  have "ripaddr (conn_at a1 i) = uip_hostaddr b" using first_index_Some [OF f(1)] same(2) by (simp add: conn_to_def conn_at_def)
  note t = deliver_syn [OF a1(1) wf this a1(3)]
  have ho: "uip_hostaddr a1 = uip_hostaddr a" using a1(2) by (simp add: net_config_def)
  have "uip_add32 (snd_nxt ?c) 1 \<noteq> snd_nxt ?c" by (rule uip_add32_neq) simp
  then have q: "buf_quad ?t o_seqno \<noteq> rcv_nxt (conn_at ?t j)" using t(7) st(2) same(1) by auto
  have m: "first_index (conn_matches ?t) (uip_conns ?t) = Some j" using t(4) f(2) same(3,4) ho by simp
  obtain b' where b': "uip_input httpd_appcall ?t = Inr b'" "uip_wf b'" "net_config b' = net_config b" "uip_conns b' = uip_conns b"
      "uip.more b' = uip.more b" "tcp_ok b'" "segment_of b' = conn_segment ?t j TCP_ACK []"
    using out_of_sequence_spec [OF t(1,3) m, of httpd_appcall] q t(5) st(1) by (auto simp: tcp_state_of_def)
  have "conn_segment ?t j TCP_ACK [] = conn_segment b' j TCP_ACK []"
    using b'(3,4) by (simp add: conn_segment_def conn_at_def net_config_def)
  then show ?thesis using b' by (auto simp: has_segment_def)
qed

text \<open>In \<^verbatim>\<open>SYN_SENT\<close> such an acknowledgement ends the attempt: the connection is closed and the answer is a reset.\<close>

lemma syn_sent_reset:
  fixes s :: httpd_uip
  assumes wf: "uip_wf s" and v: "valid_tcp s" and r: "first_index (conn_matches s) (uip_conns s) = Some r"
    and st: "tcpstateflags (conn_at s r) = UIP_SYN_SENT" and seg: "buf8 s o_flags = TCP_ACK" "seg_datalen s = 0"
    and idle: "httpd_socket_close_pending s = 0"
  shows "\<exists>s'. uip_input httpd_appcall s = Inr s' \<and> uip_wf s' \<and> tcp_ok s' \<and> tcpstateflags (conn_at s' r) = UIP_CLOSED \<and>
    sg_src (segment_of s') = uip_hostaddr s \<and> sg_dest (segment_of s') = buf_addr s o_srcipaddr \<and> sg_srcport (segment_of s') = buf16 s o_destport \<and>
    sg_destport (segment_of s') = buf16 s o_srcport \<and> sg_flags (segment_of s') = TCP_RST OR TCP_ACK"
proof -
  have L: "r < length (uip_conns s)" and r40: "r < 40"
    using first_index_Some [OF r] uip_wf_lengths [OF wf] by simp_all
  let ?a = "tcp_ack_input r (found_rx r s)"
  note c = tcp_ack_input_conn [OF found_rx_wf [OF wf r40] r40]
  let ?u = "?a\<lparr>uip_flags := UIP_ABORT, httpd_socket_conn_open := 0, httpd_socket_conn_pending := 0, httpd_socket_conn_closed := 1\<rparr>"
  let ?v = "upd_conn r (\<lambda>c. c\<lparr>tcpstateflags := UIP_CLOSED\<rparr>) ?u"
  have ub: "uip_buf ?v = uip_buf s" by (simp add: tcp_ack_input_def Let_def)
  note b = same_buf [OF ub]
  have am: "uip.more ?a = uip.more s" using c(4) by simp
  have "buf8 ?a o_flags = TCP_ACK" using seg(1) by simp
  moreover have "httpd_appcall (?a\<lparr>uip_flags := UIP_ABORT\<rparr>) = Inr ?u"
    using idle more_fields [OF am] by (simp add: httpd_appcall_def httpd_conn_events_def uip_closed_event_def httpd_newdata_def httpd_tx_def Let_def)
  ultimately have in_: "uip_input httpd_appcall s = tcp_reset ?v"
    using seg st c(1) by (simp add: uip_input_valid [OF v] r found_seq unexpected_seq_found_rx tcp_state_input_def tcp_state_of_def st_syn_sent_def)
  have uw: "uip_wf ?u" using c(3) by (simp add: uip_wf_def)
  have vw: "uip_wf ?v" using uw r40 by (intro uip_wf_upd_conn) (simp_all add: conn_wf_def)
  have host: "uip_hostaddr ?v = uip_hostaddr s" using c(5) by (simp add: net_config_def)
  have p: "buf8 ?v o_flags AND TCP_RST = 0" "buf8 ?v o_proto = UIP_PROTO_TCP" using b(1) seg(1) v by (simp_all add: valid_tcp_def)
  have cl: "tcpstateflags (conn_at ?v r) = UIP_CLOSED" using conn_at_upd_wf [OF uw r40] by simp
  obtain s' where "tcp_reset ?v = Inr s'" "uip_wf s'" "tcp_ok s'" "uip_conns s' = uip_conns ?v" "sg_src (segment_of s') = uip_hostaddr s"
      "sg_dest (segment_of s') = buf_addr s o_srcipaddr" "sg_srcport (segment_of s') = buf16 s o_destport"
      "sg_destport (segment_of s') = buf16 s o_srcport" "sg_flags (segment_of s') = TCP_RST OR TCP_ACK"
    using tcp_reset_spec [OF vw p] unfolding host b by blast
  then show ?thesis using in_ cl by (intro exI [of _ s']) (simp add: conn_at_def)
qed

lemma reset_delivered:
  fixes a b :: httpd_uip
  assumes ok: "tcp_ok a" and wf: "uip_wf a" "uip_wf b" and dest: "sg_dest (segment_of a) = uip_hostaddr b" and rst: "sg_flags (segment_of a) = TCP_RST OR TCP_ACK"
    and m: "first_index (conn_to (sg_src (segment_of a)) (sg_destport (segment_of a)) (sg_srcport (segment_of a))) (uip_conns b) = Some j"
  shows "\<exists>b'. uip_input httpd_appcall (deliver a b) = Inr b' \<and> tcpstateflags (conn_at b' j) = UIP_CLOSED"
proof -
  let ?t = "deliver a b"
  note f = deliver_fields [OF ok wf dest]
  have "first_index (conn_matches ?t) (uip_conns ?t) = Some j" "buf8 ?t o_flags AND TCP_RST \<noteq> 0"
    using f(1-3,6) m rst by (simp_all add: conn_matches_to)
  from reset_closes_connection [OF deliver_packet(1) [OF ok wf] deliver_valid(1) [OF ok wf dest] this] show ?thesis
    using first_index_Some [OF m] by (auto simp: conn_at_def)
qed

lemma lost_synack_spec:
  assumes h: "half_open a i b j" and n: "\<not> given_up (conn_at a i)"
  shows "\<exists>a1 b1 a2 b2. uip_periodics (Suc (unat (timer (conn_at a i)))) i a = Inr a1 \<and> uip_input httpd_appcall (deliver a1 b) = Inr b1 \<and>
    uip_input httpd_appcall (deliver b1 a1) = Inr a2 \<and> uip_input httpd_appcall (deliver a2 b1) = Inr b2 \<and>
    sg_flags (segment_of a1) = TCP_SYN \<and> sg_flags (segment_of b1) = TCP_ACK \<and> sg_flags (segment_of a2) = TCP_RST OR TCP_ACK \<and>
    tcpstateflags (conn_at a2 i) = UIP_CLOSED \<and> tcpstateflags (conn_at b2 j) = UIP_CLOSED"
proof -
  let ?c = "conn_at a i" and ?d = "conn_at b j"
  have f: "first_index (conn_to (uip_hostaddr b) (rport ?d) (lport ?d)) (uip_conns a) = Some i"
      "first_index (conn_to (uip_hostaddr a) (rport ?c) (lport ?c)) (uip_conns b) = Some j"
    and st: "tcpstateflags ?c = UIP_SYN_SENT" "conn_len ?c = 1" and wf: "uip_wf a" "uip_wf b" "httpd_socket_close_pending a = 0"
    using h by (simp_all add: half_open_def ready_def Let_def)
  have i: "i < 40" "i < length (uip_conns a)" "lport ?c = rport ?d" "rport ?c = lport ?d" "ripaddr ?c = uip_hostaddr b" "ripaddr ?d = uip_hostaddr a"
      "j < length (uip_conns b)"
    using first_index_Some [OF f(1)] first_index_Some [OF f(2)] uip_wf_lengths(2) [OF wf(1)] by (auto simp: conn_to_def conn_at_def)
  let ?x = "?c\<lparr>timer := backoff (nrtx ?c), nrtx := nrtx ?c + 1\<rparr>"
  obtain a1 where a1: "uip_periodics (Suc (unat (timer ?c))) i a = Inr a1" "uip_wf a1" "uip.more a1 = uip.more a" "net_config a1 = net_config a"
      "uip_conns a1 = (uip_conns a)[i := ?x]" "has_syn a1 i TCP_SYN"
    using syn_timer [OF wf(1) i(1) st n] by blast
  have c1: "conn_at a1 i = ?x" using a1(5) i(2) by (simp add: conn_at_def)
  obtain b1 where b1: "uip_input httpd_appcall (deliver a1 b) = Inr b1" "uip_wf b1" "net_config b1 = net_config b" "uip_conns b1 = uip_conns b"
      "has_segment b1 j TCP_ACK []"
    using syn_repeated [OF h a1(2,4,6)] c1 by auto
  have ho: "uip_hostaddr a1 = uip_hostaddr a" "uip_hostaddr b1 = uip_hostaddr b" using a1(4) b1(3) by (simp_all add: net_config_def)
  have d1: "conn_at b1 j = ?d" using b1(4) by (simp add: conn_at_def)
  have "ripaddr (conn_at b1 j) = uip_hostaddr a1" using d1 i(6) ho by simp
  note t = deliver_segment [OF b1(2) a1(2) this b1(5)]
  have "conn_to (uip_hostaddr b) (rport ?d) (lport ?d) ?x" using i st(1) by (simp add: conn_to_def)
  from first_index_update [OF f(1) this] have m: "first_index (conn_matches (deliver b1 a1)) (uip_conns (deliver b1 a1)) = Some i"
    using t(4) d1 ho a1(5) by simp
  have ps: "buf_addr (deliver b1 a1) o_srcipaddr = uip_hostaddr b" "buf16 (deliver b1 a1) o_srcport = lport ?d" "buf16 (deliver b1 a1) o_destport = rport ?d"
    using deliver_fields(1-3) [OF _ b1(2) a1(2)] b1(5) d1 i(6) ho by (simp_all add: has_segment_def conn_segment_def Let_def)
  have "tcpstateflags (conn_at (deliver b1 a1) i) = UIP_SYN_SENT" "httpd_socket_close_pending (deliver b1 a1) = 0"
    using c1 st(1) wf(3) more_fields(3) [of "deliver b1 a1" a] a1(3) by simp_all
  with syn_sent_reset [OF t(1,3) m] t(5,10) obtain a2 where a2: "uip_input httpd_appcall (deliver b1 a1) = Inr a2" "uip_wf a2" "tcp_ok a2"
      "tcpstateflags (conn_at a2 i) = UIP_CLOSED" "sg_src (segment_of a2) = uip_hostaddr a" "sg_dest (segment_of a2) = uip_hostaddr b"
      "sg_srcport (segment_of a2) = rport ?d" "sg_destport (segment_of a2) = lport ?d" "sg_flags (segment_of a2) = TCP_RST OR TCP_ACK"
    unfolding ps using ho(1) by auto
  obtain b2 where "uip_input httpd_appcall (deliver a2 b1) = Inr b2" "tcpstateflags (conn_at b2 j) = UIP_CLOSED"
    using reset_delivered [OF a2(3,2) b1(2) _ a2(9), of j] a2(5-8) f(2) b1(4) i(3,4) ho(2) by auto
  moreover have "sg_flags (segment_of a1) = TCP_SYN" "sg_flags (segment_of b1) = TCP_ACK"
    using a1(6) b1(5) by (simp_all add: has_syn_def has_segment_def conn_segment_def Let_def)
  ultimately show ?thesis using a1(1) b1(1) a2(1,4,9) by blast
qed

section \<open>Properties\<close>

text \<open>The host at 10.0.2.2, which connects to port 80 of the example stack.\<close>

definition client_stack :: httpd_uip where
  "client_stack = web_stack\<lparr>uip_hostaddr := uip_ipaddr 10 0 2 2\<rparr>"

lemma client_connects:
  obtains a1 where "uip_connect (uip_hostaddr web_stack) (HTONS 80) client_stack = Inr (a1, Some 0)"
    and "first_index (conn_to (uip_hostaddr client_stack) (HTONS 80) (lport (conn_at a1 0))) (uip_conns web_stack) = None"
    and "ready client_stack" "ready web_stack" "HTONS 80 \<in> set (uip_listenports web_stack)" "find_unused (uip_conns web_stack) 0 None = Some 0"
    and "uip_hostaddr web_stack = uip_ipaddr 10 0 2 15"
proof -
  let ?r = "uip_connect (uip_hostaddr web_stack) (HTONS 80) client_stack"
  have c: "\<not> isl ?r" "snd (projr ?r) = Some 0"
    "first_index (conn_to (uip_hostaddr client_stack) (HTONS 80) (lport (conn_at (fst (projr ?r)) 0))) (uip_conns web_stack) = None"
    by code_simp+
  then have "?r = Inr (fst (projr ?r), Some 0)" by (cases ?r) auto
  moreover have "ready client_stack" "ready web_stack" "HTONS 80 \<in> set (uip_listenports web_stack)" "find_unused (uip_conns web_stack) 0 None = Some 0"
    "uip_hostaddr web_stack = uip_ipaddr 10 0 2 15"
    by code_simp+
  ultimately show thesis using that c(3) by blast
qed

text \<open>
  C3: an active open of one host and a listening port of another, both running this stack, make a connection. If the listening host has a free slot and
  no open connection from the same address and port, then the second tick after \<^verbatim>\<open>uip_connect()\<close> sends a SYN, and with the delivery of the three segments of the handshake both
  ends are established: they agree on addresses, ports and sequence numbers, each may send segments of 366 bytes, and the listening service has a connection to accept.
\<close>

theorem handshake_connects:
  assumes "ready a" "ready b" and "uip_connect (uip_hostaddr b) port a = Inr (a1, Some i)"
    and "port \<in> set (uip_listenports b)" and "find_unused (uip_conns b) 0 None = Some j"
    and "first_index (conn_to (uip_hostaddr a) port (lport (conn_at a1 i))) (uip_conns b) = None"
  shows "\<exists>a' b'. handshake i a1 b = Inr (a', b') \<and> peers a' i b' j \<and> initialmss (conn_at a' i) = UIP_TCP_MSS \<and>
    initialmss (conn_at b' j) = UIP_TCP_MSS \<and> httpd_socket_conn_pending b' = 1"
  by (rule handshake_peers [OF assms])

theorem handshake_connects_witness:
  "\<exists>a1 a' b'. uip_connect (uip_ipaddr 10 0 2 15) (HTONS 80) client_stack = Inr (a1, Some 0) \<and> handshake 0 a1 web_stack = Inr (a', b') \<and>
     peers a' 0 b' 0"
proof -
  obtain a1 where h: "uip_connect (uip_hostaddr web_stack) (HTONS 80) client_stack = Inr (a1, Some 0)"
      "first_index (conn_to (uip_hostaddr client_stack) (HTONS 80) (lport (conn_at a1 0))) (uip_conns web_stack) = None"
      "ready client_stack" "ready web_stack" "HTONS 80 \<in> set (uip_listenports web_stack)" "find_unused (uip_conns web_stack) 0 None = Some 0"
      "uip_hostaddr web_stack = uip_ipaddr 10 0 2 15"
    by (rule client_connects)
  show ?thesis using handshake_connects [OF h(3,4,1,5,6,2)] h(1) unfolding h(7) by blast
qed

text \<open>
  C39: the loss of a SYN with ACK ends a handshake, although both sides try again. When the active side repeats its SYN, the listening side, which is in \<^verbatim>\<open>SYN_RCVD\<close>,
  finds a sequence number that it does not expect and answers with a bare acknowledgement instead of another SYN with ACK; in \<^verbatim>\<open>SYN_SENT\<close> this acknowledgement is an error:
  the connection is closed and a reset sent, and the reset closes the other end.
\<close>

theorem lost_synack_aborts:
  assumes "half_open a i b j" and "\<not> given_up (conn_at a i)"
  shows "\<exists>a1 b1 a2 b2. uip_periodics (Suc (unat (timer (conn_at a i)))) i a = Inr a1 \<and> uip_input httpd_appcall (deliver a1 b) = Inr b1 \<and>
    uip_input httpd_appcall (deliver b1 a1) = Inr a2 \<and> uip_input httpd_appcall (deliver a2 b1) = Inr b2 \<and>
    sg_flags (segment_of a1) = TCP_SYN \<and> sg_flags (segment_of b1) = TCP_ACK \<and> sg_flags (segment_of a2) = TCP_RST OR TCP_ACK \<and>
    tcpstateflags (conn_at a2 i) = UIP_CLOSED \<and> tcpstateflags (conn_at b2 j) = UIP_CLOSED"
  by (rule lost_synack_spec [OF assms])

theorem lost_synack_aborts_witness:
  "\<exists>a0 a b a1 b1 a2 b2. uip_connect (uip_ipaddr 10 0 2 15) (HTONS 80) client_stack = Inr (a0, Some 0) \<and> uip_periodics 2 0 a0 = Inr a \<and>
     receive a web_stack = Inr ([], b) \<and> uip_periodics (Suc (unat (timer (conn_at a 0)))) 0 a = Inr a1 \<and> uip_input httpd_appcall (deliver a1 b) = Inr b1 \<and>
     uip_input httpd_appcall (deliver b1 a1) = Inr a2 \<and> uip_input httpd_appcall (deliver a2 b1) = Inr b2 \<and>
     tcpstateflags (conn_at a2 0) = UIP_CLOSED \<and> tcpstateflags (conn_at b2 0) = UIP_CLOSED"
proof -
  obtain a0 where h: "uip_connect (uip_hostaddr web_stack) (HTONS 80) client_stack = Inr (a0, Some 0)"
      "first_index (conn_to (uip_hostaddr client_stack) (HTONS 80) (lport (conn_at a0 0))) (uip_conns web_stack) = None"
      "ready client_stack" "ready web_stack" "HTONS 80 \<in> set (uip_listenports web_stack)" "find_unused (uip_conns web_stack) 0 None = Some 0"
      "uip_hostaddr web_stack = uip_ipaddr 10 0 2 15"
    by (rule client_connects)
  obtain a b where ab: "uip_periodics 2 0 a0 = Inr a" "receive a web_stack = Inr ([], b)" "half_open a 0 b 0" "\<not> given_up (conn_at a 0)"
    using syn_half_open [OF h(3,4,1,5,6,2)] by blast
  show ?thesis using lost_synack_aborts [OF ab(3,4)] ab(1,2) h(1) unfolding h(7) by blast
qed

end
