(* ===== verification/Tcp_Close.thy ===== *)
theory Tcp_Close
  imports Tcp_Peers
begin

text \<open>
  Closing a connection between two hosts that both run this stack: the service at one end asks for it, and the two ends exchange their FINs.
\<close>

section \<open>Ends of a connection that closes\<close>

definition linked :: "httpd_uip \<Rightarrow> nat \<Rightarrow> httpd_uip \<Rightarrow> nat \<Rightarrow> bool" where
  "linked a i b j \<longleftrightarrow> ready a \<and> first_index (conn_to (uip_hostaddr b) (rport (conn_at b j)) (lport (conn_at b j))) (uip_conns a) = Some i"

lemma linkedD:
  assumes "linked a i b j"
  shows "uip_wf a" "i < 40" "i < length (uip_conns a)" "ripaddr (conn_at a i) = uip_hostaddr b" "httpd_socket_tx_pending a = 0"
    "httpd_socket_close_pending a = 0" "httpd_socket_rx_len a = 0"
  using assms first_index_Some [of "conn_to (uip_hostaddr b) (rport (conn_at b j)) (lport (conn_at b j))" "uip_conns a" i]
    uip_wf_lengths(2) [of a] by (auto simp: linked_def ready_def conn_to_def conn_at_def)

lemma linked_other:
  assumes "linked a i b j" and "net_config b' = net_config b" and "rport (conn_at b' j) = rport (conn_at b j)" "lport (conn_at b' j) = lport (conn_at b j)"
  shows "linked a i b' j"
  using assms by (simp add: linked_def net_config_def)

lemma linked_update:
  assumes l: "linked a i b j" and r: "ready a'" and c: "uip_conns a' = (uip_conns a)[i := c]"
    and same: "lport c = lport (conn_at a i)" "rport c = rport (conn_at a i)" "ripaddr c = ripaddr (conn_at a i)" "tcpstateflags c \<noteq> UIP_CLOSED"
  shows "linked a' i b j" and "conn_at a' i = c"
proof -
  let ?P = "conn_to (uip_hostaddr b) (rport (conn_at b j)) (lport (conn_at b j))"
  have f: "first_index ?P (uip_conns a) = Some i" using l by (simp add: linked_def)
  then have "?P c" using first_index_Some [OF f] same by (simp add: conn_to_def conn_at_def)
  from first_index_update [OF f this] show "linked a' i b j" using r c by (simp add: linked_def)
  show "conn_at a' i = c" using c linkedD(3) [OF l] by (simp add: conn_at_def)
qed

lemma deliver_linked:
  fixes a b :: httpd_uip
  defines "t \<equiv> deliver a b"
  assumes l: "linked a i b j" "linked b j a i" and h: "has_segment a i fl []"
  shows "uip_wf t" "valid_tcp t" "first_index (conn_matches t) (uip_conns t) = Some j" "buf8 t o_flags = fl" "seg_datalen t = 0"
    "buf_quad t o_seqno = snd_nxt (conn_at a i)" "buf_quad t o_ackno = rcv_nxt (conn_at a i)"
proof -
  note t = deliver_segment [OF linkedD(1) [OF l(1)] linkedD(1) [OF l(2)] linkedD(4) [OF l(1)] h, folded t_def]
  show "uip_wf t" "valid_tcp t" "buf8 t o_flags = fl" "seg_datalen t = 0"
    "buf_quad t o_seqno = snd_nxt (conn_at a i)" "buf_quad t o_ackno = rcv_nxt (conn_at a i)" using t by simp_all
  show "first_index (conn_matches t) (uip_conns t) = Some j" using t(4) l(2) by (simp add: linked_def t_def)
qed

lemma httpd_close_event:
  assumes "uip_flags s = UIP_CLOSE" and "httpd_socket_tx_pending s = 0" "httpd_socket_close_pending s = 0"
  shows "httpd_appcall s = Inr (s\<lparr>httpd_socket_conn_open := 0, httpd_socket_conn_pending := 0, httpd_socket_conn_closed := 1\<rparr>)"
  using assms by (simp add: httpd_appcall_def httpd_conn_events_def uip_closed_event_def httpd_newdata_def httpd_tx_def Let_def)

text \<open>What the stack has sent is in the packet buffer, with the numbers of the connection.\<close>

lemma sent_nodata:
  fixes s :: httpd_uip
  assumes "uip_wf s"
  shows "\<exists>s'. tcp_send_nodata r (set8 o_flags fl s) = Inr s' \<and> uip_wf s' \<and> uip_conns s' = uip_conns s \<and> uip.more s' = uip.more s \<and>
    net_config s' = net_config s \<and> has_segment s' r fl []"
proof -
  obtain s' where s': "tcp_send_nodata r (set8 o_flags fl s) = Inr s'" "uip_wf s'" "tcp_ok s'" "uip_conns s' = uip_conns s"
      "uip.more s' = uip.more s" "net_config s' = net_config s" "segment_of s' = conn_segment s r fl []"
    using tcp_send_nodata_spec [of "set8 o_flags fl s" r] assms uip_wf_lengths(1) [OF assms]
    by (auto simp: buf_same conn_segment_def Let_def)
  have "conn_segment s' r fl [] = conn_segment s r fl []" using s'(4,6) by (simp add: conn_segment_def conn_at_def net_config_def)
  then show ?thesis using s' by (auto simp: has_segment_def)
qed

text \<open>The bridge has been told that the connection is closed.\<close>

definition told :: "httpd_uip \<Rightarrow> httpd_uip" where
  "told s = s\<lparr>httpd_socket_conn_open := 0, httpd_socket_conn_pending := 0, httpd_socket_conn_closed := 1\<rparr>"

lemma told_frame [simp]:
  "uip_wf (told s) = uip_wf s" "uip_conns (told s) = uip_conns s" "net_config (told s) = net_config s" "conn_at (told s) r = conn_at s r"
  by (simp_all add: told_def uip_wf_def net_config_def conn_at_def)

lemma told_ready:
  assumes "ready s" and "uip_wf t" "uip.more u = uip.more s" "uip.more t = uip.more (told u)"
  shows "ready t" and "httpd_socket_conn_closed t = 1"
proof -
  show "ready t" using assms(1,2) more_fields [OF assms(3)] more_fields [OF assms(4)] by (simp add: ready_def told_def bridge_wf_def)
  show "httpd_socket_conn_closed t = 1" using conn_closed_more [OF assms(4)] by (simp add: told_def)
qed

section \<open>The steps\<close>

text \<open>The service asks for the close, and the poll of the idle connection sends a FIN.\<close>

lemma close_sent:
  assumes l: "linked a i b j" and c: "tcpstateflags (conn_at a i) = UIP_ESTABLISHED" "conn_len (conn_at a i) = 0"
  shows "\<exists>a'. uip_poll_conn httpd_appcall i (a\<lparr>httpd_socket_close_pending := 1\<rparr>) = Inr a' \<and> ready a' \<and> net_config a' = net_config a \<and>
    uip_conns a' = (uip_conns a)[i := (conn_at a i)\<lparr>conn_len := 1, tcpstateflags := UIP_FIN_WAIT_1, nrtx := 0\<rparr>] \<and> has_segment a' i (TCP_FIN OR TCP_ACK) []"
proof -
  note D = linkedD [OF l]
  define t where "t = a\<lparr>uip_conn := Some i, uip_sappdata := 54, uip_appdata := 54, uip_flags := UIP_CLOSE\<rparr>"
  define u where "u = upd_conn i (\<lambda>c. c\<lparr>conn_len := 1, tcpstateflags := UIP_FIN_WAIT_1, nrtx := 0\<rparr>) (t\<lparr>uip_slen := 0\<rparr>)"
  have "a\<lparr>httpd_socket_close_pending := 0\<rparr> = a" using D(6) by (cases a) simp
  then have "httpd_appcall (a\<lparr>httpd_socket_close_pending := 1, uip_conn := Some i, uip_sappdata := 54, uip_appdata := 54, uip_flags := UIP_POLL\<rparr>) = Inr t"
    using D(5) by (simp add: httpd_appcall_def httpd_conn_events_def uip_closed_event_def httpd_newdata_def httpd_tx_def Let_def t_def) (cases a, simp)
  then have "uip_poll_conn httpd_appcall i (a\<lparr>httpd_socket_close_pending := 1\<rparr>) = tcp_send_nodata i (set8 o_flags (TCP_FIN OR TCP_ACK) u)"
    using c by (simp add: uip_poll_conn_def uip_process_def poll_request_def uip_outstanding_def tcp_state_of_def appsend_def Let_def u_def conn_at_def)
      (simp add: t_def)
  moreover have "uip_wf u" using D(1,2) unfolding u_def t_def by (intro uip_wf_upd_conn) (simp_all add: conn_wf_def uip_wf_def)
  from sent_nodata [OF this] obtain a' where a': "tcp_send_nodata i (set8 o_flags (TCP_FIN OR TCP_ACK) u) = Inr a'" "uip_wf a'" "uip_conns a' = uip_conns u"
      "uip.more a' = uip.more u" "net_config a' = net_config u" "has_segment a' i (TCP_FIN OR TCP_ACK) []" by blast
  moreover have u: "uip.more u = uip.more a" "net_config u = net_config a"
    "uip_conns u = (uip_conns a)[i := (conn_at a i)\<lparr>conn_len := 1, tcpstateflags := UIP_FIN_WAIT_1, nrtx := 0\<rparr>]"
    by (simp_all add: u_def t_def) (simp add: upd_conn_def conn_at_def)
  moreover have "ready a'" using ready_more [OF _ a'(2), of a] a'(4) u(1) l by (simp add: linked_def)
  ultimately show ?thesis by simp
qed

text \<open>A segment without data that is expected reaches the code of the connection's state.\<close>

lemma linked_input:
  assumes "linked a i b j" "linked b j a i" and "has_segment a i fl []" and "tcp_state_of (conn_at b j) \<noteq> UIP_SYN_SENT"
    and "fl = TCP_ACK \<or> fl = TCP_FIN OR TCP_ACK \<and> snd_nxt (conn_at a i) = rcv_nxt (conn_at b j)"
  shows "uip_input httpd_appcall (deliver a b) = tcp_state_input httpd_appcall j (tcp_ack_input j (found_rx j (deliver a b)))"
proof -
  note t = deliver_linked [OF assms(1-3)]
  show ?thesis using t(3-7) assms(4,5) by (elim disjE; simp add: uip_input_valid [OF t(2)] found_seq unexpected_seq_found_rx)
qed

text \<open>The FIN arrives at the other end, which answers with its own.\<close>

lemma fin_received:
  assumes l: "linked a i b j" "linked b j a i" and h: "has_segment a i (TCP_FIN OR TCP_ACK) []" and q: "snd_nxt (conn_at a i) = rcv_nxt (conn_at b j)"
    and c: "tcpstateflags (conn_at b j) = UIP_ESTABLISHED" "conn_len (conn_at b j) = 0"
  shows "\<exists>b'. receive a b = Inr ([], b') \<and> ready b' \<and> net_config b' = net_config b \<and> httpd_socket_conn_closed b' = 1 \<and>
    uip_conns b' = (uip_conns b)[j := (conn_at b j)\<lparr>rcv_nxt := uip_add32 (rcv_nxt (conn_at b j)) 1, conn_len := 1, tcpstateflags := UIP_LAST_ACK, nrtx := 0\<rparr>] \<and>
    has_segment b' j (TCP_FIN OR TCP_ACK) []"
proof -
  let ?t = "deliver a b"
  note D = linkedD [OF l(2)] and t = deliver_linked [OF l h]
  let ?f = "found_rx j ?t"
  have "tcp_ack_input j ?f = ?f" using c(2) by (intro tcp_ack_input_idle) simp
  then have run: "uip_input httpd_appcall ?t = st_established httpd_appcall j ?f"
    using linked_input [OF l h] c(1) q by (simp add: tcp_state_input_def tcp_state_of_def)
  define u where "u = (uip_add_rcv_nxt j 1 ?f)\<lparr>uip_flags := UIP_CLOSE\<rparr>"
  have u: "uip.more u = uip.more b" "net_config u = net_config b" "uip_flags u = UIP_CLOSE"
      "uip_conns u = (uip_conns b)[j := (conn_at b j)\<lparr>rcv_nxt := uip_add32 (rcv_nxt (conn_at b j)) 1\<rparr>]"
    by (simp_all add: u_def uip_add_rcv_nxt_def Let_def) (simp add: upd_conn_def conn_at_def)
  have uw: "uip_wf u" using uip_add_rcv_nxt_inv [of "\<lambda>_. True" ?f j 1] found_rx_wf [OF t(1) D(2)] D(2) by (simp add: u_def uip_inv_def)
  let ?v = "upd_conn j (\<lambda>c. c\<lparr>conn_len := 1, tcpstateflags := UIP_LAST_ACK, nrtx := 0\<rparr>) (told u)"
  have "httpd_appcall u = Inr (told u)"
    using u(3) more_fields [OF u(1)] D(5,6) by (simp add: httpd_close_event told_def)
  then have "uip_input httpd_appcall ?t = tcp_send_nodata j (set8 o_flags (TCP_FIN OR TCP_ACK) ?v)"
    using run t(4,5) c by (simp add: st_established_def uip_outstanding_def tcp_send_finack_def Let_def u_def)
  moreover have "uip_wf ?v" using uw D(2) by (intro uip_wf_upd_conn) (simp_all add: conn_wf_def)
  from sent_nodata [OF this] obtain b' where b': "tcp_send_nodata j (set8 o_flags (TCP_FIN OR TCP_ACK) ?v) = Inr b'" "uip_wf b'" "uip_conns b' = uip_conns ?v"
      "uip.more b' = uip.more ?v" "net_config b' = net_config ?v" "has_segment b' j (TCP_FIN OR TCP_ACK) []" by blast
  have m: "uip.more b' = uip.more (told u)" using b'(4) by simp
  have "ready b" using l(2) by (simp add: linked_def)
  note r = told_ready [OF this b'(2) u(1) m]
  moreover have "uip_conns ?v = (uip_conns b)[j := (conn_at b j)\<lparr>rcv_nxt := uip_add32 (rcv_nxt (conn_at b j)) 1, conn_len := 1, tcpstateflags := UIP_LAST_ACK, nrtx := 0\<rparr>]"
    using D(3) u(4) by (simp add: upd_conn_def)
  ultimately show ?thesis using b' u(2) by (intro exI [of _ b']) (simp add: receive_empty ready_def)
qed

text \<open>The acknowledgement of a FIN, with the other FIN or alone.\<close>

lemma linked_acked:
  assumes l: "linked a i b j" "linked b j a i" and h: "has_segment a i fl []" "fl AND TCP_ACK \<noteq> 0"
    and q: "rcv_nxt (conn_at a i) = uip_add32 (snd_nxt (conn_at b j)) 1" and c: "conn_len (conn_at b j) = 1"
  defines "u \<equiv> tcp_ack_input j (found_rx j (deliver a b))"
  shows "uip_conns u = (uip_conns b)[j := acked_conn (rcv_nxt (conn_at a i)) (conn_at b j)]" "uip_flags u = UIP_ACKDATA" "uip_wf u"
    "uip.more u = uip.more b" "net_config u = net_config b" "buf8 u o_flags = fl" "uip_len u = 0"
proof -
  note D = linkedD [OF l(2)] and t = deliver_linked [OF l h(1)]
  have "acks_all (found_rx j (deliver a b)) j" using t(4,7) h(2) q c by (simp add: acks_all_def has_flag_def uip_outstanding_def)
  from tcp_ack_input_acked [OF this] D(3) t(7) tcp_ack_input_conn(3-5) [OF found_rx_wf [OF t(1) D(2)] D(2)] t(4,5)
  show "uip_conns u = (uip_conns b)[j := acked_conn (rcv_nxt (conn_at a i)) (conn_at b j)]" "uip_flags u = UIP_ACKDATA" "uip_wf u"
    "uip.more u = uip.more b" "net_config u = net_config b" "buf8 u o_flags = fl" "uip_len u = 0"
    by (simp_all add: u_def)
qed

lemma both_closing:
  assumes l: "linked b j a i" "linked a i b j" and h: "has_segment b j (TCP_FIN OR TCP_ACK) []" and q: "snd_nxt (conn_at b j) = rcv_nxt (conn_at a i)"
    "rcv_nxt (conn_at b j) = uip_add32 (snd_nxt (conn_at a i)) 1"
    and c: "tcpstateflags (conn_at a i) = UIP_FIN_WAIT_1" "conn_len (conn_at a i) = 1"
  shows "\<exists>a' c. receive b a = Inr ([], a') \<and> ready a' \<and> net_config a' = net_config a \<and> httpd_socket_conn_closed a' = 1 \<and>
    uip_conns a' = (uip_conns a)[i := c] \<and> tcpstateflags c = UIP_TIME_WAIT \<and> timer c = 0 \<and> rcv_nxt c = uip_add32 (rcv_nxt (conn_at a i)) 1 \<and>
    lport c = lport (conn_at a i) \<and> rport c = rport (conn_at a i) \<and> ripaddr c = ripaddr (conn_at a i) \<and> has_segment a' i TCP_ACK []"
proof -
  let ?u = "tcp_ack_input i (found_rx i (deliver b a))" and ?k = "acked_conn (rcv_nxt (conn_at b j)) (conn_at a i)"
  note D = linkedD [OF l(2)] and k = linked_acked [OF l h _ q(2) c(2), simplified]
  have cu: "conn_at ?u i = ?k" using k(1) D(3) by (simp add: conn_at_def)
  have st: "tcpstateflags ?k = UIP_FIN_WAIT_1" using c(1) by (simp add: acked_conn_def rtt_estimate_def Let_def)
  have run: "uip_input httpd_appcall (deliver b a) = st_fin_wait_1 httpd_appcall i ?u"
    using linked_input [OF l h] c(1) q(1) cu st by (simp add: tcp_state_input_def tcp_state_of_def)
  define v where "v = (uip_add_rcv_nxt i 1 (upd_conn i (\<lambda>c. c\<lparr>tcpstateflags := UIP_TIME_WAIT, timer := 0, conn_len := 0\<rparr>) ?u))\<lparr>uip_flags := UIP_CLOSE\<rparr>"
  let ?c = "?k\<lparr>tcpstateflags := UIP_TIME_WAIT, timer := 0, conn_len := 0, rcv_nxt := uip_add32 (rcv_nxt (conn_at a i)) 1\<rparr>"
  have v: "uip.more v = uip.more a" "net_config v = net_config a" "uip_flags v = UIP_CLOSE"
    using k(4,5) by (simp_all add: v_def uip_add_rcv_nxt_def Let_def)
  have vc: "uip_conns v = (uip_conns a)[i := ?c]"
    using k(1) D(3) by (simp add: v_def uip_add_rcv_nxt_def Let_def upd_conn_def conn_at_def)
  have "uip_wf (upd_conn i (\<lambda>c. c\<lparr>tcpstateflags := UIP_TIME_WAIT, timer := 0, conn_len := 0\<rparr>) ?u)"
    using k(3) D(2) by (intro uip_wf_upd_conn) (simp_all add: conn_wf_def)
  then have vw: "uip_wf v" using uip_add_rcv_nxt_inv [of "\<lambda>_. True" _ i 1] D(2) by (simp add: v_def uip_inv_def)
  have "httpd_appcall v = Inr (told v)" using v(3) more_fields [OF v(1)] D(5,6) by (simp add: httpd_close_event told_def)
  then have "uip_input httpd_appcall (deliver b a) = tcp_send_nodata i (set8 o_flags TCP_ACK (told v))"
    using run k(2,6,7) by (simp add: st_fin_wait_1_def tcp_send_ack_def Let_def v_def)
  moreover have "uip_wf (told v)" using vw by simp
  from sent_nodata [OF this] obtain a' where a': "tcp_send_nodata i (set8 o_flags TCP_ACK (told v)) = Inr a'" "uip_wf a'" "uip_conns a' = uip_conns v"
      "uip.more a' = uip.more (told v)" "net_config a' = net_config v" "has_segment a' i TCP_ACK []" by fastforce
  have "ready a" using l(2) by (simp add: linked_def)
  note r = told_ready [OF this a'(2) v(1) a'(4)]
  ultimately show ?thesis using a' v(2) vc by (intro exI [of _ a'] exI [of _ ?c]) (simp add: receive_empty ready_def)
qed

lemma last_acked:
  assumes l: "linked a i b j" "linked b j a i" and h: "has_segment a i TCP_ACK []" and q: "rcv_nxt (conn_at a i) = uip_add32 (snd_nxt (conn_at b j)) 1"
    and c: "tcpstateflags (conn_at b j) = UIP_LAST_ACK" "conn_len (conn_at b j) = 1"
  shows "\<exists>b' c. receive a b = Inr ([], b') \<and> httpd_socket_conn_closed b' = 1 \<and> uip_conns b' = (uip_conns b)[j := c] \<and> tcpstateflags c = UIP_CLOSED"
proof -
  let ?u = "tcp_ack_input j (found_rx j (deliver a b))" and ?k = "acked_conn (rcv_nxt (conn_at a i)) (conn_at b j)"
  note D = linkedD [OF l(2)] and k = linked_acked [OF l h _ q c(2), simplified]
  have cu: "conn_at ?u j = ?k" using k(1) D(3) by (simp add: conn_at_def)
  have st: "tcpstateflags ?k = UIP_LAST_ACK" using c(1) by (simp add: acked_conn_def rtt_estimate_def Let_def)
  have run: "uip_input httpd_appcall (deliver a b) = st_last_ack httpd_appcall j ?u"
    using linked_input [OF l h] c(1) cu st by (simp add: tcp_state_input_def tcp_state_of_def)
  define v where "v = (upd_conn j (\<lambda>c. c\<lparr>tcpstateflags := UIP_CLOSED\<rparr>) ?u)\<lparr>uip_flags := UIP_CLOSE\<rparr>"
  have v: "uip.more v = uip.more b" "uip_flags v = UIP_CLOSE" "uip_conns v = (uip_conns b)[j := ?k\<lparr>tcpstateflags := UIP_CLOSED\<rparr>]"
    using k(1,4) D(3) by (simp_all add: v_def) (simp add: upd_conn_def)
  have "httpd_appcall v = Inr (told v)" using v(2) more_fields [OF v(1)] D(5,6) by (simp add: httpd_close_event told_def)
  then have "uip_input httpd_appcall (deliver a b) = Inr (drop_packet (told v))" using run k(2) by (simp add: st_last_ack_def Let_def v_def)
  moreover have "httpd_socket_rx_len (drop_packet (told v)) = 0" "httpd_socket_conn_closed (drop_packet (told v)) = 1"
    using more_fields [OF v(1)] D(7) by (simp_all add: drop_packet_def told_def)
  ultimately show ?thesis using v(3) by (intro exI [of _ "drop_packet (told v)"] exI [of _ "?k\<lparr>tcpstateflags := UIP_CLOSED\<rparr>"]) (simp add: receive_empty drop_packet_def)
qed

text \<open>The wait after the last acknowledgement ends.\<close>

lemma wait_over:
  assumes "uip_wf a" "i < 40" and "tcpstateflags (conn_at a i) = UIP_TIME_WAIT" and "unat (timer (conn_at a i)) + Suc n = 120"
  shows "\<exists>a' c. uip_periodics (Suc n) i a = Inr a' \<and> uip_conns a' = (uip_conns a)[i := c] \<and> tcpstateflags c = UIP_CLOSED \<and> uip.more a' = uip.more a"
  using assms
proof (induction n arbitrary: a)
  case 0
  have L: "i < length (uip_conns a)" using 0 uip_wf_lengths(2) [of a] by simp
  have "timer (conn_at a i) + 1 = UIP_TIME_WAIT_TIMEOUT" using 0(4) by (simp add: word_unat_eq_iff unat_add_wrap)
  with 0(3) L have "uip_periodic httpd_appcall i a = Inr (drop_packet (upd_conn i (\<lambda>c. c\<lparr>tcpstateflags := UIP_CLOSED\<rparr>) (upd_conn i (\<lambda>c. c\<lparr>timer := timer c + 1\<rparr>)
      (a\<lparr>uip_conn := Some i, uip_sappdata := 54, uip_appdata := 54, iss := quad_incr (iss a), uip_len := 0, uip_slen := 0\<rparr>))))"
    by (simp add: uip_periodic_def uip_process_def timer_tick_def Let_def conn_at_upd_conn)
  then show ?case using L
    by (intro exI [of _ "drop_packet _"] exI [of _ "(conn_at a i)\<lparr>timer := timer (conn_at a i) + 1, tcpstateflags := UIP_CLOSED\<rparr>"])
      (auto simp: drop_packet_def upd_conn_def conn_at_def)
next
  case (Suc n)
  have L: "i < length (uip_conns a)" using Suc.prems uip_wf_lengths(2) [of a] by simp
  define a1 where "a1 = drop_packet (upd_conn i (\<lambda>c. c\<lparr>timer := timer c + 1\<rparr>)
      (a\<lparr>uip_conn := Some i, uip_sappdata := 54, uip_appdata := 54, iss := quad_incr (iss a), uip_len := 0, uip_slen := 0\<rparr>))"
  have t: "unat (timer (conn_at a i) + 1) = unat (timer (conn_at a i)) + 1" using Suc.prems(4) by (simp add: unat_add_wrap)
  then have "timer (conn_at a i) + 1 \<noteq> UIP_TIME_WAIT_TIMEOUT" using Suc.prems(4) by auto
  with Suc.prems(3) L have run: "uip_periodic httpd_appcall i a = Inr a1"
    by (simp add: uip_periodic_def uip_process_def timer_tick_def Let_def conn_at_upd_conn a1_def)
  have c: "uip_conns a1 = (uip_conns a)[i := (conn_at a i)\<lparr>timer := timer (conn_at a i) + 1\<rparr>]" "uip.more a1 = uip.more a"
    by (simp_all add: a1_def drop_packet_def upd_conn_def conn_at_def)
  have "uip_wf a1" using Suc.prems(1,2) by (simp add: a1_def drop_packet_def uip_wf_def upd_conn_def conn_wf_def list_all_length nth_list_update)
  with Suc.IH [of a1] Suc.prems c L t obtain a' x where "uip_periodics (Suc n) i a1 = Inr a'" "uip_conns a' = (uip_conns a1)[i := x]" "tcpstateflags x = UIP_CLOSED"
      "uip.more a' = uip.more a1" by (auto simp: conn_at_def)
  then show ?case using run c by (intro exI [of _ a'] exI [of _ x]) simp
qed

section \<open>The close\<close>

definition shutdown :: "nat \<Rightarrow> httpd_uip \<Rightarrow> httpd_uip \<Rightarrow> (httpd_uip \<times> httpd_uip) res" where
  "shutdown i a b = res_bind (uip_poll_conn httpd_appcall i (a\<lparr>httpd_socket_close_pending := 1\<rparr>)) (\<lambda>a. res_bind (receive a b) (\<lambda>(_, b).
     res_bind (receive b a) (\<lambda>(_, a). res_bind (receive a b) (\<lambda>(_, b). res_bind (uip_periodics 120 i a) (\<lambda>a. Inr (a, b))))))"

lemma peers_linked: "peers a i b j \<Longrightarrow> linked a i b j \<and> linked b j a i"
  by (simp add: peers_def endpoint_def idle_def linked_def ready_def)

lemma shutdown_spec:
  assumes p: "peers a i b j"
  shows "\<exists>a' b' c d. shutdown i a b = Inr (a', b') \<and> uip_conns a' = (uip_conns a)[i := c] \<and> tcpstateflags c = UIP_CLOSED \<and>
    uip_conns b' = (uip_conns b)[j := d] \<and> tcpstateflags d = UIP_CLOSED \<and> httpd_socket_conn_closed a' = 1 \<and> httpd_socket_conn_closed b' = 1"
proof -
  have l: "linked a i b j" "linked b j a i" using peers_linked [OF p] by simp_all
  have c: "tcpstateflags (conn_at a i) = UIP_ESTABLISHED" "conn_len (conn_at a i) = 0" "tcpstateflags (conn_at b j) = UIP_ESTABLISHED"
      "conn_len (conn_at b j) = 0" "snd_nxt (conn_at a i) = rcv_nxt (conn_at b j)" "snd_nxt (conn_at b j) = rcv_nxt (conn_at a i)"
    using p by (simp_all add: peers_def endpoint_def idle_def)
  obtain a1 where a1: "uip_poll_conn httpd_appcall i (a\<lparr>httpd_socket_close_pending := 1\<rparr>) = Inr a1" "ready a1" "net_config a1 = net_config a"
      "uip_conns a1 = (uip_conns a)[i := (conn_at a i)\<lparr>conn_len := 1, tcpstateflags := UIP_FIN_WAIT_1, nrtx := 0\<rparr>]" "has_segment a1 i (TCP_FIN OR TCP_ACK) []"
    using close_sent [OF l(1) c(1,2)] by blast
  have l1: "linked a1 i b j" "conn_at a1 i = (conn_at a i)\<lparr>conn_len := 1, tcpstateflags := UIP_FIN_WAIT_1, nrtx := 0\<rparr>" "linked b j a1 i"
    using linked_update [OF l(1) a1(2,4)] linked_other [OF l(2) a1(3)] by simp_all
  obtain b1 where b1: "receive a1 b = Inr ([], b1)" "ready b1" "net_config b1 = net_config b" "has_segment b1 j (TCP_FIN OR TCP_ACK) []"
      "uip_conns b1 = (uip_conns b)[j := (conn_at b j)\<lparr>rcv_nxt := uip_add32 (rcv_nxt (conn_at b j)) 1, conn_len := 1, tcpstateflags := UIP_LAST_ACK, nrtx := 0\<rparr>]"
      (is "_ = _[j := ?d]")
    using fin_received [OF l1(1,3) a1(5) _ c(3,4)] l1(2) c(5) by auto
  have l2: "linked b1 j a1 i" "conn_at b1 j = ?d" "linked a1 i b1 j"
    using linked_update [OF l1(3) b1(2,5)] linked_other [OF l1(1) b1(3)] by simp_all
  obtain a2 x where a2: "receive b1 a1 = Inr ([], a2)" "ready a2" "net_config a2 = net_config a1" "httpd_socket_conn_closed a2 = 1"
      "uip_conns a2 = (uip_conns a1)[i := x]" "tcpstateflags x = UIP_TIME_WAIT" "timer x = 0" "rcv_nxt x = uip_add32 (rcv_nxt (conn_at a i)) 1"
      "lport x = lport (conn_at a1 i)" "rport x = rport (conn_at a1 i)" "ripaddr x = ripaddr (conn_at a1 i)" "has_segment a2 i TCP_ACK []"
    using both_closing [OF l2(1,3) b1(4)] l1(2) l2(2) c(5,6) by auto
  have l3: "linked a2 i b1 j" "conn_at a2 i = x" "linked b1 j a2 i"
    using linked_update [OF l2(3) a2(2,5)] linked_other [OF l2(1) a2(3)] a2(6,9-11) by simp_all
  obtain b2 y where b2: "receive a2 b1 = Inr ([], b2)" "httpd_socket_conn_closed b2 = 1" "uip_conns b2 = (uip_conns b1)[j := y]" "tcpstateflags y = UIP_CLOSED"
    using last_acked [OF l3(1,3) a2(12)] l3(2) a2(8) l2(2) c(6) by auto
  obtain a3 z where a3: "uip_periodics 120 i a2 = Inr a3" "uip_conns a3 = (uip_conns a2)[i := z]" "tcpstateflags z = UIP_CLOSED" "uip.more a3 = uip.more a2"
    using wait_over [of a2 i 119] linkedD(1,2) [OF l3(1)] l3(2) a2(6,7) by auto
  have "shutdown i a b = Inr (a3, b2)" by (simp add: shutdown_def a1(1) b1(1) a2(1) b2(1) a3(1))
  moreover have "uip_conns a3 = (uip_conns a)[i := z]" "uip_conns b2 = (uip_conns b)[j := y]" using a3(2) a2(5) a1(4) b2(3) b1(5) by simp_all
  moreover have "httpd_socket_conn_closed a3 = 1" using conn_closed_more [OF a3(4)] a2(4) by simp
  ultimately show ?thesis using a3(3) b2(2,4) by blast
qed

section \<open>Properties\<close>

text \<open>
  C4: a close that one service asks for ends an idle connection between two hosts that run this stack at both ends. The poll sends a FIN, the other end
  answers with its own, the last acknowledgement closes that end, and after 120 ticks of \<^verbatim>\<open>TIME_WAIT\<close> this end is closed too. Both bridges have been told, and
  no other connection is touched.
\<close>

theorem close_completes:
  assumes "peers a i b j"
  shows "\<exists>a' b' c d. shutdown i a b = Inr (a', b') \<and> uip_conns a' = (uip_conns a)[i := c] \<and> tcpstateflags c = UIP_CLOSED \<and>
    uip_conns b' = (uip_conns b)[j := d] \<and> tcpstateflags d = UIP_CLOSED \<and> httpd_socket_conn_closed a' = 1 \<and> httpd_socket_conn_closed b' = 1"
  by (rule shutdown_spec [OF assms])

theorem close_completes_witness:
  "\<exists>a' b'. shutdown 0 client_established web_established = Inr (a', b') \<and> httpd_socket_conn_closed a' = 1 \<and> httpd_socket_conn_closed b' = 1"
proof -
  have "peers client_established 0 web_established 0" by code_simp
  from close_completes [OF this] show ?thesis by blast
qed

end
