(* ===== verification/Uip_Udp.thy ===== *)
theory Uip_Udp
  imports Ip_Props Uip_Conn
begin

text \<open>
  UDP in \<^verbatim>\<open>library/uip/uip.c\<close> and \<^verbatim>\<open>uip.h\<close>: the code under \<^verbatim>\<open>UIP_UDP\<close>, with the checksums that \<^verbatim>\<open>uip-conf.h\<close> asks for. The configuration of the
  repository switches it off; the model is of a build that switches it on. Its variables extend those of the stack, and the callback
  \<^verbatim>\<open>UIP_UDP_APPCALL\<close>, which such a build has to name, is an argument.
\<close>

section \<open>Data\<close>

abbreviation (input) UIP_UDP_CONNS :: nat where "UIP_UDP_CONNS \<equiv> 10"
abbreviation (input) UIP_UDPH_LEN :: u16 where "UIP_UDPH_LEN \<equiv> 8"
abbreviation (input) UIP_IPUDPH_LEN :: u16 where "UIP_IPUDPH_LEN \<equiv> 28"
abbreviation (input) UIP_PROTO_UDP :: u8 where "UIP_PROTO_UDP \<equiv> 17"
abbreviation (input) UIP_UDP_SEND_CONN :: u8 where "UIP_UDP_SEND_CONN \<equiv> 4"
abbreviation (input) UIP_UDP_TIMER :: u8 where "UIP_UDP_TIMER \<equiv> 5"

text \<open>The fields of \<^verbatim>\<open>struct uip_udpip_hdr\<close> that differ from those of \<^verbatim>\<open>struct uip_tcpip_hdr\<close>, and where the data starts.\<close>

abbreviation (input) o_udplen :: nat where "o_udplen \<equiv> 38"
abbreviation (input) o_udpchksum :: nat where "o_udpchksum \<equiv> 40"
abbreviation (input) o_udpdata :: nat where "o_udpdata \<equiv> 42"

text \<open>\<^verbatim>\<open>struct uip_udp_conn\<close>, without the state of the application.\<close>

record uip_udp_conn_t =
  udp_ripaddr :: ip4addr
  udp_lport :: u16
  udp_rport :: u16
  udp_ttl :: u8

text \<open>
  The variables that \<^verbatim>\<open>UIP_UDP\<close> adds. \<^verbatim>\<open>uip_udp_conn\<close> points to an element of the table, or behind it after a search without result.
  Of the four UDP counts in \<^verbatim>\<open>uip_stat\<close> these are the two that the code changes.
\<close>

record udp_uip = uip +
  uip_udp_conns :: "uip_udp_conn_t list"
  uip_udp_conn :: nat
  udp_drop :: u16
  udp_chkerr :: u16

section \<open>Connections\<close>

text \<open>The part of \<^verbatim>\<open>uip_init()\<close> for UDP.\<close>

definition uip_udp_init :: "'a udp_uip_scheme \<Rightarrow> 'a udp_uip_scheme" where
  "uip_udp_init s = s\<lparr>uip_udp_conns := map (\<lambda>c. c\<lparr>udp_lport := 0\<rparr>) (uip_udp_conns s)\<rparr>"

definition udp_port_used :: "uip_udp_conn_t list \<Rightarrow> u16 \<Rightarrow> bool" where
  "udp_port_used conns lp \<longleftrightarrow> list_ex (\<lambda>c. udp_lport c = htons lp) conns"

partial_function (option) search_udp_port :: "uip_udp_conn_t list \<Rightarrow> u16 \<Rightarrow> u16 option" where
  "search_udp_port conns lp =
     (if udp_port_used conns (next_port lp) then search_udp_port conns (next_port lp) else Some (next_port lp))"

declare search_udp_port.simps [code]

text \<open>The remote address is \<open>None\<close> for the null pointer; the result is the slot, or \<open>None\<close> if the table is full.\<close>

definition uip_udp_new :: "ip4addr option \<Rightarrow> u16 \<Rightarrow> 'a udp_uip_scheme \<Rightarrow> ('a udp_uip_scheme \<times> nat option) res" where
  "uip_udp_new raddr rp s =
     (case search_udp_port (uip_udp_conns s) (lastport s) of
        None \<Rightarrow> Inl Hang
      | Some lp \<Rightarrow>
          let s = s\<lparr>lastport := lp\<rparr> in
          case first_index (\<lambda>c. udp_lport c = 0) (uip_udp_conns s) of
            None \<Rightarrow> Inr (s, None)
          | Some r \<Rightarrow>
              Inr (s\<lparr>uip_udp_conns := (uip_udp_conns s)[r :=
                       \<lparr>udp_ripaddr = (case raddr of None \<Rightarrow> (0, 0) | Some a \<Rightarrow> a), udp_lport = HTONS lp, udp_rport = rp, udp_ttl = UIP_TTL\<rparr>]\<rparr>, Some r))"

definition uip_udp_remove :: "nat \<Rightarrow> 'a udp_uip_scheme \<Rightarrow> 'a udp_uip_scheme" where
  "uip_udp_remove r s = s\<lparr>uip_udp_conns := (uip_udp_conns s)[r := (uip_udp_conns s ! r)\<lparr>udp_lport := 0\<rparr>]\<rparr>"

definition uip_udp_bind :: "nat \<Rightarrow> u16 \<Rightarrow> 'a udp_uip_scheme \<Rightarrow> 'a udp_uip_scheme" where
  "uip_udp_bind r port s = s\<lparr>uip_udp_conns := (uip_udp_conns s)[r := (uip_udp_conns s ! r)\<lparr>udp_lport := port\<rparr>]\<rparr>"

section \<open>Sending and receiving\<close>

definition uip_udpchksum :: "'a uip_scheme \<Rightarrow> u16 res" where
  "uip_udpchksum s = upper_layer_chksum UIP_PROTO_UDP s"

text \<open>The element that \<^verbatim>\<open>uip_udp_conn\<close> points to.\<close>

definition udp_conn_now :: "'a udp_uip_scheme \<Rightarrow> uip_udp_conn_t res" where
  "udp_conn_now s = (if uip_udp_conn s < length (uip_udp_conns s) then Inr (uip_udp_conns s ! uip_udp_conn s) else Inl OutOfBounds)"

text \<open>The label \<^verbatim>\<open>udp_send\<close> up to the checksum.\<close>

definition udp_prep :: "uip_udp_conn_t \<Rightarrow> 'a udp_uip_scheme \<Rightarrow> 'a udp_uip_scheme" where
  "udp_prep c s =
     (let s = s\<lparr>uip_len := uip_slen s + UIP_IPUDPH_LEN\<rparr>;
          s = set8 o_len (hi8 (uip_len s)) s;
          s = set8 (o_len + 1) (lo8 (uip_len s)) s;
          s = set8 o_ttl (udp_ttl c) s;
          s = set8 o_proto UIP_PROTO_UDP s;
          s = set16 o_udplen (HTONS (uip_slen s + UIP_UDPH_LEN)) s;
          s = set16 o_udpchksum 0 s;
          s = set16 o_srcport (udp_lport c) s;
          s = set16 o_destport (udp_rport c) s;
          s = set_addr o_srcipaddr (uip_hostaddr s) s;
          s = set_addr o_destipaddr (udp_ripaddr c) s
      in s\<lparr>uip_appdata := 54\<rparr>)"

definition udp_send :: "'a udp_uip_scheme \<Rightarrow> 'a udp_uip_scheme res" where
  "udp_send s =
     (if uip_slen s = 0 then Inr (drop_packet s)
      else
        res_bind (udp_conn_now s) (\<lambda>c.
        let s = udp_prep c s in
        res_bind (uip_udpchksum s) (\<lambda>cs.
          let s = set16 o_udpchksum (NOT cs) s;
              s = (if buf16 s o_udpchksum = 0 then set16 o_udpchksum 0xffff s else s)
          in Inr (ip_send_nolen s))))"

definition udp_matches :: "'a uip_scheme \<Rightarrow> uip_udp_conn_t \<Rightarrow> bool" where
  "udp_matches s c \<longleftrightarrow>
     udp_lport c \<noteq> 0 \<and> buf16 s o_destport = udp_lport c \<and>
     (udp_rport c = 0 \<or> buf16 s o_srcport = udp_rport c) \<and>
     (uip_ipaddr_cmp (udp_ripaddr c) (0, 0) \<or> uip_ipaddr_cmp (udp_ripaddr c) (0xffff, 0xffff) \<or>
      uip_ipaddr_cmp (buf_addr s o_srcipaddr) (udp_ripaddr c))"

definition udp_found :: "('a udp_uip_scheme \<Rightarrow> 'a udp_uip_scheme res) \<Rightarrow> 'a udp_uip_scheme \<Rightarrow> 'a udp_uip_scheme res" where
  "udp_found app s =
     res_bind (app (s\<lparr>uip_conn := None, uip_flags := UIP_NEWDATA, uip_sappdata := o_udpdata, uip_appdata := o_udpdata, uip_slen := 0\<rparr>)) udp_send"

definition udp_demux :: "('a udp_uip_scheme \<Rightarrow> 'a udp_uip_scheme res) \<Rightarrow> 'a udp_uip_scheme \<Rightarrow> 'a udp_uip_scheme res" where
  "udp_demux app s =
     (case first_index (udp_matches s) (uip_udp_conns s) of
        None \<Rightarrow> Inr (drop_packet (s\<lparr>uip_udp_conn := length (uip_udp_conns s)\<rparr>))
      | Some i \<Rightarrow> udp_found app (s\<lparr>uip_udp_conn := i\<rparr>))"

definition udp_input :: "('a udp_uip_scheme \<Rightarrow> 'a udp_uip_scheme res) \<Rightarrow> 'a udp_uip_scheme \<Rightarrow> 'a udp_uip_scheme res" where
  "udp_input app s =
     (let s = s\<lparr>uip_len := uip_len s - UIP_IPUDPH_LEN, uip_appdata := o_udpdata\<rparr> in
      if buf16 s o_udpchksum = 0 then udp_demux app s
      else res_bind (uip_udpchksum s) (\<lambda>cs.
        if cs \<noteq> 0xffff
        then Inr (drop_packet (s\<lparr>udp_drop := udp_drop s + 1, udp_chkerr := udp_chkerr s + 1\<rparr>))
        else udp_demux app s))"

definition udp_timer :: "('a udp_uip_scheme \<Rightarrow> 'a udp_uip_scheme res) \<Rightarrow> 'a udp_uip_scheme \<Rightarrow> 'a udp_uip_scheme res" where
  "udp_timer app s =
     res_bind (udp_conn_now s) (\<lambda>c.
      if udp_lport c \<noteq> 0
      then res_bind (app (s\<lparr>uip_conn := None, uip_sappdata := o_udpdata, uip_appdata := o_udpdata, uip_slen := 0, uip_len := 0,
             uip_flags := UIP_POLL\<rparr>)) udp_send
      else Inr (drop_packet s))"

text \<open>
  \<^verbatim>\<open>uip_process(flag)\<close> with UDP: two more flags, and after the checks of IP one more protocol. For the rest it is the function without UDP,
  whose callback is \<open>tapp\<close>.
\<close>

definition uip_process_udp ::
  "('a udp_uip_scheme \<Rightarrow> 'a udp_uip_scheme res) \<Rightarrow> ('a udp_uip_scheme \<Rightarrow> 'a udp_uip_scheme res) \<Rightarrow> u8 \<Rightarrow>
   'a udp_uip_scheme \<Rightarrow> 'a udp_uip_scheme res" where
  "uip_process_udp tapp app flag s =
     (if flag = UIP_UDP_SEND_CONN then udp_send s
      else if flag = UIP_UDP_TIMER then udp_timer app (s\<lparr>uip_sappdata := 54, uip_appdata := 54\<rparr>)
      else if flag \<noteq> UIP_POLL_REQUEST \<and> flag \<noteq> UIP_TIMER \<and> ip_accepted s \<and> buf8 s o_proto = UIP_PROTO_UDP
      then udp_input app (ip_rx s)
      else uip_process tapp flag s)"

definition uip_udp_periodic ::
  "('a udp_uip_scheme \<Rightarrow> 'a udp_uip_scheme res) \<Rightarrow> ('a udp_uip_scheme \<Rightarrow> 'a udp_uip_scheme res) \<Rightarrow> nat \<Rightarrow>
   'a udp_uip_scheme \<Rightarrow> 'a udp_uip_scheme res" where
  "uip_udp_periodic tapp app i s = uip_process_udp tapp app UIP_UDP_TIMER (s\<lparr>uip_udp_conn := i\<rparr>)"

section \<open>The search for a local port returns\<close>

lemma udp_port_free:
  assumes "length conns \<le> 40" and "unat v < 32000"
  shows "\<exists>i\<le>40. \<not> udp_port_used conns ((next_port ^^ i) v)"
proof -
  let ?f = "\<lambda>c. zero_conn\<lparr>tcpstateflags := UIP_ESTABLISHED, lport := udp_lport c\<rparr>"
  have "port_used (map ?f conns) = udp_port_used conns"
    by (auto simp: fun_eq_iff port_used_def udp_port_used_def list_ex_iff)
  then show ?thesis using some_port_free [of "map ?f conns" v] assms by simp
qed

lemma search_udp_port_at:
  "\<not> udp_port_used conns ((next_port ^^ i) (next_port lp)) \<Longrightarrow>
   \<exists>p. search_udp_port conns lp = Some p \<and> \<not> udp_port_used conns p \<and> unat p < 32000"
proof (induction i arbitrary: lp)
  case (Suc i)
  then have "\<not> udp_port_used conns ((next_port ^^ i) (next_port (next_port lp)))"
    by (simp add: funpow_swap1)
  then show ?case
    using Suc.IH [of "next_port lp"]
    by (cases "udp_port_used conns (next_port lp)")
      (simp_all add: search_udp_port.simps [of conns lp] next_port_less)
qed (subst search_udp_port.simps, simp add: next_port_less)

lemma uip_udp_new_spec:
  assumes "length (uip_udp_conns s) = UIP_UDP_CONNS"
  shows "\<exists>s' res. uip_udp_new raddr rp s = Inr (s', res) \<and> \<not> udp_port_used (uip_udp_conns s) (lastport s') \<and>
    (case res of
       None \<Rightarrow> uip_udp_conns s' = uip_udp_conns s \<and> (\<forall>c \<in> set (uip_udp_conns s). udp_lport c \<noteq> 0)
     | Some r \<Rightarrow> r < UIP_UDP_CONNS \<and> udp_lport (uip_udp_conns s ! r) = 0 \<and>
         uip_udp_conns s' = (uip_udp_conns s)[r := \<lparr>udp_ripaddr = (case raddr of None \<Rightarrow> (0, 0) | Some a \<Rightarrow> a),
           udp_lport = HTONS (lastport s'), udp_rport = rp, udp_ttl = UIP_TTL\<rparr>])"
proof -
  obtain i where "\<not> udp_port_used (uip_udp_conns s) ((next_port ^^ i) (next_port (lastport s)))"
    using udp_port_free [of "uip_udp_conns s", OF _ next_port_less] assms by auto
  from search_udp_port_at [OF this] obtain p where p: "search_udp_port (uip_udp_conns s) (lastport s) = Some p"
      "\<not> udp_port_used (uip_udp_conns s) p" by blast
  show ?thesis
  proof (cases "first_index (\<lambda>c. udp_lport c = 0) (uip_udp_conns s)")
    case None
    have "\<forall>c \<in> set (uip_udp_conns s). udp_lport c \<noteq> 0" using None by (simp add: first_index_None)
    then show ?thesis using p by (simp add: uip_udp_new_def None)
  next
    case (Some r)
    then show ?thesis using p first_index_Some [OF Some] assms by (simp add: uip_udp_new_def)
  qed
qed

section \<open>Checksums\<close>

text \<open>With all ones in place of zero the sum stays what it is, up to the two representations of zero.\<close>

lemma fold_chksum_ones:
  assumes "even i" and "i + 1 < length bs" and "bs ! i = 0" and "bs ! (i + 1) = 0" and "fold_chksum (chksum acc bs) = 0xffff"
  shows "fold_chksum (chksum acc (put16 bs i 0xffff)) = 0xffff"
proof -
  let ?n = "unat acc + word_sum bs"
  have "oc_norm ?n \<in> {0, 65535}"
    using assms(5) unfolding fold_chksum_ffff_iff by (auto simp flip: chksum_norm)
  then have "?n mod 65535 = 0" by (simp only: oc_norm_zero_iff)
  then have "(?n + 65535) mod 65535 = 0" by simp
  then have "oc_norm (?n + 65535) \<in> {0, 65535}" by (simp only: oc_norm_zero_iff)
  moreover have "unat (chksum acc (put16 bs i 0xffff)) = oc_norm (?n + 65535)"
    using assms(1-4) by (simp add: chksum_norm word_sum_put16 add.assoc)
  ultimately show ?thesis
    unfolding fold_chksum_ffff_iff by (auto simp: word_unat_eq_iff)
qed

text \<open>The checksum field after \<^verbatim>\<open>udp_send\<close>, and the sum that the receiver computes.\<close>

definition udp_seal :: "u16 \<Rightarrow> u16" where
  "udp_seal cs = (if NOT cs = 0 then 0xffff else NOT cs)"

lemma udp_seal_nonzero: "udp_seal cs \<noteq> 0"
  by (simp add: udp_seal_def)

lemma udp_seal_valid:
  assumes n: "8 \<le> unat (upper_layer_len s)" "34 + unat (upper_layer_len s) \<le> length (uip_buf s)" and z: "buf16 s o_udpchksum = 0"
    and cs: "uip_udpchksum s = Inr cs"
  shows "uip_udpchksum (set16 o_udpchksum (udp_seal cs) s) = Inr 0xffff"
proof -
  let ?n = "unat (upper_layer_len s)"
  let ?p = "take ?n (drop 34 (uip_buf s))" and ?a = "chksum (upper_layer_len s + 17) (take 8 (drop 26 (uip_buf s)))"
  have b: "uip_buf s ! 40 = 0" "uip_buf s ! 41 = 0"
    using z by (auto simp: buf16_def get16_def be16_inject [of _ _ 0 0, unfolded be16_zero])
  have p: "even (6 :: nat)" "6 + 1 < length ?p" "?p ! 6 = 0" "?p ! (6 + 1) = 0" using n b by simp_all
  have c: "cs = fold_chksum (chksum ?a ?p)"
    using cs n(2) by (simp add: uip_udpchksum_def upper_layer_chksum_eq)
  have "fold_chksum (chksum ?a (put16 ?p 6 (udp_seal cs))) = 0xffff"
  proof (cases "NOT cs = 0")
    case True
    then have "cs = 0xffff" by (simp add: bit.compl_eq_compl_iff [of cs "0xffff", symmetric] del: bit.compl_eq_compl_iff)
    then show ?thesis using fold_chksum_ones [OF p, of ?a] c True by (simp add: udp_seal_def)
  next
    case False
    then show ?thesis using fold_chksum_seal [OF p, of ?a] c by (simp add: udp_seal_def)
  qed
  then show ?thesis
    using n by (simp add: uip_udpchksum_def upper_layer_store)
qed

section \<open>Datagrams\<close>

record datagram =
  dg_src :: ip4addr
  dg_dest :: ip4addr
  dg_srcport :: u16
  dg_destport :: u16
  dg_data :: bytes

text \<open>The datagram in the packet buffer, \<open>n\<close> bytes of data long.\<close>

definition datagram_of :: "nat \<Rightarrow> 'a uip_scheme \<Rightarrow> datagram" where
  "datagram_of n s = \<lparr>dg_src = buf_addr s o_srcipaddr, dg_dest = buf_addr s o_destipaddr, dg_srcport = buf16 s o_srcport,
     dg_destport = buf16 s o_destport, dg_data = take n (drop o_udpdata (uip_buf s))\<rparr>"

lemma udp_prep_fields:
  assumes "length (uip_buf s) = 422"
  shows "buf_addr (udp_prep c s) o_srcipaddr = uip_hostaddr s" "buf_addr (udp_prep c s) o_destipaddr = udp_ripaddr c"
    "buf16 (udp_prep c s) o_srcport = udp_lport c" "buf16 (udp_prep c s) o_destport = udp_rport c"
    "buf16 (udp_prep c s) o_udpchksum = 0" "buf8 (udp_prep c s) o_proto = UIP_PROTO_UDP"
    "buf8 (udp_prep c s) o_len = hi8 (uip_slen s + 28)" "buf8 (udp_prep c s) (o_len + 1) = lo8 (uip_slen s + 28)"
    "length (uip_buf (udp_prep c s)) = 422" "uip_len (udp_prep c s) = uip_slen s + 28"
    "42 \<le> i \<Longrightarrow> buf8 (udp_prep c s) i = buf8 s i"
  using assms by (simp_all add: udp_prep_def Let_def buf_rw)

text \<open>The fields that \<^verbatim>\<open>ip_send_nolen\<close> leaves.\<close>

lemma ip_send_nolen_datagram: "datagram_of n (ip_send_nolen s) = datagram_of n s"
  by (simp add: datagram_of_def buf_bytes ip_send_nolen_kept kept_def ip_send_nolen_slice)

lemma ip_send_nolen_udp:
  "uip_udpchksum (ip_send_nolen s) = uip_udpchksum s" "buf16 (ip_send_nolen s) o_udpchksum = buf16 s o_udpchksum"
  by (simp_all add: uip_udpchksum_def upper_layer_chksum_def upper_layer_len_be16 mem_read_def
      ip_send_nolen_slice ip_send_nolen_nth buf_bytes ip_send_nolen_kept kept_def)

lemma put16_put16: "put16 (put16 b i v) i w = put16 b i w"
  unfolding put16_def by (metis list_update_overwrite list_update_swap n_not_Suc_n Suc_eq_plus1)

lemma udp_send_spec:
  assumes len: "length (uip_buf s) = 422" and n: "0 < uip_slen s" "uip_slen s \<le> 380" and c: "udp_conn_now s = Inr c"
  shows "\<exists>s'. udp_send s = Inr s' \<and> length (uip_buf s') = 422 \<and> uip_len s' = uip_slen s + 28 \<and>
    buf8 s' o_vhl = 0x45 \<and> ip_total_len s' = uip_slen s + 28 \<and> buf8 s' o_ipoffset = 0 \<and> buf8 s' (o_ipoffset + 1) = 0 \<and>
    uip_ipchksum s' = 0xffff \<and> buf8 s' o_proto = UIP_PROTO_UDP \<and> buf16 s' o_udpchksum \<noteq> 0 \<and> uip_udpchksum s' = Inr 0xffff \<and>
    datagram_of (unat (uip_slen s)) s' = \<lparr>dg_src = uip_hostaddr s, dg_dest = udp_ripaddr c, dg_srcport = udp_lport c,
      dg_destport = udp_rport c, dg_data = take (unat (uip_slen s)) (drop o_udpdata (uip_buf s))\<rparr>"
proof -
  let ?t = "udp_prep c s"
  note p = udp_prep_fields [OF len, where c = c]
  have "ip_total_len ?t = uip_slen s + 28" using p(7,8) by (simp add: ip_total_len_be16 buf8_def)
  moreover have "upper_layer_len ?t = uip_slen s + 8" using p(7,8) by (simp add: upper_layer_len_be16 buf8_def)
  moreover have "unat (uip_slen s + 8) = unat (uip_slen s) + 8" using n by (simp add: unat_add_wrap word_le_nat_alt)
  ultimately have u: "ip_total_len ?t = uip_slen s + 28" "unat (upper_layer_len ?t) = unat (uip_slen s) + 8" by simp_all
  have b: "8 \<le> unat (upper_layer_len ?t)" "34 + unat (upper_layer_len ?t) \<le> length (uip_buf ?t)"
    using u(2) n p(9) by (simp_all add: word_le_nat_alt)
  then obtain cs where cs: "uip_udpchksum ?t = Inr cs" by (simp add: uip_udpchksum_def upper_layer_chksum_eq)
  let ?v = "set16 o_udpchksum (udp_seal cs) ?t"
  have "buf16 (set16 o_udpchksum (NOT cs) ?t) o_udpchksum = NOT cs" using p(9) by (simp add: buf_rw)
  moreover have "set16 o_udpchksum 0xffff (set16 o_udpchksum w ?t) = set16 o_udpchksum 0xffff ?t" for w
    by (simp add: set16_def put16_put16)
  ultimately have send: "udp_send s = Inr (ip_send_nolen ?v)"
    using n(1) c cs by (auto simp: udp_send_def Let_def udp_seal_def)
  have "datagram_of (unat (uip_slen s)) ?v = datagram_of (unat (uip_slen s)) ?t"
    using p(9) by (simp add: datagram_of_def buf_rw take_drop_put16_other)
  moreover have "take (unat (uip_slen s)) (drop 42 (uip_buf ?t)) = take (unat (uip_slen s)) (drop 42 (uip_buf s))"
    using p(9,11) len by (auto simp: buf8_def intro!: nth_equalityI)
  ultimately have d: "datagram_of (unat (uip_slen s)) ?v = \<lparr>dg_src = uip_hostaddr s, dg_dest = udp_ripaddr c, dg_srcport = udp_lport c,
      dg_destport = udp_rport c, dg_data = take (unat (uip_slen s)) (drop o_udpdata (uip_buf s))\<rparr>"
    using p(1-4) by (simp add: datagram_of_def)
  have l: "34 \<le> length (uip_buf ?v)" "ip_total_len ?v = ip_total_len ?t"
    using p(9) by (simp_all add: ip_total_len_be16 nth_put16)
  have ck: "uip_udpchksum ?v = Inr 0xffff" "buf16 ?v o_udpchksum \<noteq> 0"
    using udp_seal_valid [OF b p(5) cs] p(9) by (simp_all add: buf_rw udp_seal_nonzero)
  show ?thesis
    using send d ck ip_send_nolen_header [OF l(1)] ip_send_nolen_chksum [OF l(1)] l(2) u(1) p(6,9,10)
    by (simp add: ip_send_nolen_datagram ip_send_nolen_udp buf_rw)
qed

section \<open>A datagram from one host to another\<close>

text \<open>
  A packet that two buffers have in common: its checksums, its fields and its data.
\<close>

lemma packet_common:
  assumes sl: "take n (drop 14 (uip_buf t)) = take n (drop 14 (uip_buf s))" and len: "14 + n \<le> length (uip_buf s)" "14 + n \<le> length (uip_buf t)"
    and n: "28 \<le> n" "ip_total_len s = of_nat n" "n \<le> 408"
  shows "uip_ipchksum t = uip_ipchksum s" "uip_udpchksum t = uip_udpchksum s" "ip_total_len t = ip_total_len s"
    "datagram_of (n - 28) t = datagram_of (n - 28) s" "buf16 t o_udpchksum = buf16 s o_udpchksum"
proof -
  note sl8 = buf8_slice [OF sl _ _ len] and slb = buf_slice [OF sl len]
  show "uip_ipchksum t = uip_ipchksum s" using slb [of 14 20] n(1) by (simp add: uip_ipchksum_def)
  show tl: "ip_total_len t = ip_total_len s" using sl8 [of 16] sl8 [of 17] n(1) by (simp add: ip_total_len_def)
  have ul: "upper_layer_len x = ip_total_len x - 20" for x :: "'x uip_scheme" by (simp add: upper_layer_len_def ip_total_len_def)
  have "unat (of_nat n - 20 :: u16) = n - 20" using n(1,3) by (simp add: unat_sub word_le_nat_alt unat_of_nat)
  then have un: "unat (upper_layer_len s) = n - 20" "upper_layer_len t = upper_layer_len s" using n(2) tl by (simp_all add: ul)
  have p: "take (n - 20) (drop 34 (uip_buf t)) = take (n - 20) (drop 34 (uip_buf s))" "take 8 (drop 26 (uip_buf t)) = take 8 (drop 26 (uip_buf s))"
    using slb [of 34 "n - 20"] slb [of 26 8] n(1) by simp_all
  have b: "34 + unat (upper_layer_len s) \<le> length (uip_buf s)" "34 + unat (upper_layer_len t) \<le> length (uip_buf t)"
    using un n(1) len by simp_all
  show "uip_udpchksum t = uip_udpchksum s"
    unfolding uip_udpchksum_def upper_layer_chksum_eq [OF b(1)] upper_layer_chksum_eq [OF b(2)] un(2) un(1) p ..
  show "datagram_of (n - 28) t = datagram_of (n - 28) s" "buf16 t o_udpchksum = buf16 s o_udpchksum"
    using sl8 slb [of 42 "n - 28"] n(1) by (simp_all add: datagram_of_def buf_bytes)
qed

lemma udp_input_delivers:
  assumes "ip_accepted t" and "buf8 t o_proto = UIP_PROTO_UDP" and "buf16 t o_udpchksum = 0 \<or> uip_udpchksum t = Inr 0xffff"
    and "first_index (udp_matches t) (uip_udp_conns t) = Some i"
  shows "\<exists>u. uip_process_udp tapp app UIP_DATA t = res_bind (app u) udp_send \<and> uip_flags u = UIP_NEWDATA \<and> uip_conn u = None \<and>
    uip_udp_conn u = i \<and> uip_slen u = 0 \<and> uip_len u = ip_total_len t - 28 \<and> uip_appdata u = o_udpdata \<and> uip_buf u = uip_buf t \<and>
    uip_udp_conns u = uip_udp_conns t"
proof -
  let ?r = "(ip_rx t)\<lparr>uip_len := ip_total_len t - 28, uip_appdata := 42\<rparr>"
  have buf: "uip_buf ?r = uip_buf t" by simp
  have "udp_matches ?r = udp_matches t" by (simp add: fun_eq_iff udp_matches_def same_buf [OF buf])
  moreover have "uip_udp_conns ?r = uip_udp_conns t" by (simp add: ip_rx_def count_stat_def)
  moreover have "uip_udpchksum ?r = uip_udpchksum t"
    by (simp add: uip_udpchksum_def upper_layer_chksum_def upper_layer_len_def same_buf [OF buf])
  ultimately have "uip_process_udp tapp app UIP_DATA t = udp_found app (?r\<lparr>uip_udp_conn := i\<rparr>)"
    using assms by (auto simp: uip_process_udp_def udp_input_def udp_demux_def same_buf [OF buf] Let_def)
  moreover define u where "u = ?r\<lparr>uip_udp_conn := i, uip_conn := None, uip_flags := UIP_NEWDATA,
      uip_sappdata := o_udpdata, uip_appdata := o_udpdata, uip_slen := 0\<rparr>"
  ultimately have "uip_process_udp tapp app UIP_DATA t = res_bind (app u) udp_send" by (simp add: udp_found_def)
  then show ?thesis by (intro exI [of _ u] conjI) (simp_all add: u_def ip_rx_def count_stat_def)
qed

text \<open>A connection takes datagrams from port \<open>p\<close> of the host \<open>a\<close> to port \<open>q\<close>.\<close>

definition udp_takes :: "ip4addr \<Rightarrow> u16 \<Rightarrow> u16 \<Rightarrow> uip_udp_conn_t \<Rightarrow> bool" where
  "udp_takes a p q c \<longleftrightarrow> udp_lport c \<noteq> 0 \<and> udp_lport c = q \<and> (udp_rport c = 0 \<or> udp_rport c = p) \<and>
     (udp_ripaddr c = (0, 0) \<or> udp_ripaddr c = (0xffff, 0xffff) \<or> udp_ripaddr c = a)"

text \<open>
  C17: a UDP datagram sent by one host and received by another arrives. Sending up to 380 bytes on a connection leaves a packet in the buffer. When
  this packet is in the buffer of the host to which the connection is bound, possibly with padding behind it, and that host
  has a connection for it, the callback of the receiver is called once, with the event for new data, for the first such connection, and with exactly the
  sender's bytes.
\<close>

theorem udp_datagram_delivered:
  assumes s: "length (uip_buf s) = 422" "0 < uip_slen s" "uip_slen s \<le> 380" "udp_conn_now s = Inr c"
  shows "\<exists>s'. uip_process_udp tapp app UIP_UDP_SEND_CONN s = Inr s' \<and> uip_len s' = uip_slen s + 28 \<and> length (uip_buf s') = 422 \<and>
    (\<forall>t tapp' app' i. length (uip_buf t) = 422 \<and> uip_len s' \<le> uip_len t \<and>
       take (unat (uip_len s')) (drop UIP_LLH_LEN (uip_buf t)) = take (unat (uip_len s')) (drop UIP_LLH_LEN (uip_buf s')) \<and>
       uip_hostaddr t = udp_ripaddr c \<and> first_index (udp_takes (uip_hostaddr s) (udp_lport c) (udp_rport c)) (uip_udp_conns t) = Some i \<longrightarrow>
       (\<exists>u. uip_process_udp tapp' app' UIP_DATA t = res_bind (app' u) udp_send \<and>
          uip_flags u = UIP_NEWDATA \<and> uip_udp_conn u = i \<and> uip_udp_conns u = uip_udp_conns t \<and> uip_len u = uip_slen s \<and>
          take (unat (uip_len u)) (drop (uip_appdata u) (uip_buf u)) = take (unat (uip_slen s)) (drop o_udpdata (uip_buf s))))"
proof -
  let ?n = "unat (uip_slen s)"
  obtain s' where s': "udp_send s = Inr s'" "length (uip_buf s') = 422" "uip_len s' = uip_slen s + 28" "buf8 s' o_vhl = 0x45"
      "ip_total_len s' = uip_slen s + 28" "buf8 s' o_ipoffset = 0" "buf8 s' (o_ipoffset + 1) = 0" "uip_ipchksum s' = 0xffff"
      "buf8 s' o_proto = UIP_PROTO_UDP" "buf16 s' o_udpchksum \<noteq> 0" "uip_udpchksum s' = Inr 0xffff"
      "datagram_of ?n s' = \<lparr>dg_src = uip_hostaddr s, dg_dest = udp_ripaddr c, dg_srcport = udp_lport c,
      dg_destport = udp_rport c, dg_data = take ?n (drop o_udpdata (uip_buf s))\<rparr>"
    using udp_send_spec [OF s] by auto
  have m: "unat (uip_len s') = ?n + 28"
    using s(3) s'(3) by (simp add: unat_add_wrap word_le_nat_alt)
  {
    fix t :: "'b udp_uip_scheme" and tapp' app' i
    assume t: "length (uip_buf t) = 422" "uip_len s' \<le> uip_len t"
      "take (unat (uip_len s')) (drop 14 (uip_buf t)) = take (unat (uip_len s')) (drop 14 (uip_buf s'))"
      "uip_hostaddr t = udp_ripaddr c" "first_index (udp_takes (uip_hostaddr s) (udp_lport c) (udp_rport c)) (uip_udp_conns t) = Some i"
    have l: "14 + unat (uip_len s') \<le> length (uip_buf s')" "14 + unat (uip_len s') \<le> length (uip_buf t)" "28 \<le> unat (uip_len s')"
        "ip_total_len s' = of_nat (unat (uip_len s'))" "unat (uip_len s') \<le> 408"
      using m s(3) s'(2,3,5) t(1) by (simp_all add: word_le_nat_alt)
    note p = packet_common [OF t(3) l]
    have d: "datagram_of ?n t = datagram_of ?n s'" using p(4) m by simp
    then have f: "buf_addr t o_srcipaddr = uip_hostaddr s" "buf_addr t o_destipaddr = udp_ripaddr c" "buf16 t o_srcport = udp_lport c"
        "buf16 t o_destport = udp_rport c" "take ?n (drop 42 (uip_buf t)) = take ?n (drop 42 (uip_buf s))"
      using s'(12) by (simp_all add: datagram_of_def)
    note b = buf8_slice [OF t(3) _ _ l(1,2)]
    have h: "buf8 t o_vhl = 0x45" "buf8 t o_ipoffset = 0" "buf8 t (o_ipoffset + 1) = 0" "buf8 t o_proto = UIP_PROTO_UDP"
      using b s'(4,6,7,9) m by simp_all
    then have "ip_accepted t" using p(1,3) s'(3,5,8) t(2,4) f(2) by (simp add: ip_accepted_def)
    moreover have "udp_matches t = udp_takes (uip_hostaddr s) (udp_lport c) (udp_rport c)"
      using f by (auto simp: fun_eq_iff udp_matches_def udp_takes_def uip_ipaddr_cmp_def prod_eq_iff)
    ultimately have "\<exists>u. uip_process_udp tapp' app' UIP_DATA t = res_bind (app' u) udp_send \<and>
          uip_flags u = UIP_NEWDATA \<and> uip_udp_conn u = i \<and> uip_udp_conns u = uip_udp_conns t \<and> uip_len u = uip_slen s \<and>
          take (unat (uip_len u)) (drop (uip_appdata u) (uip_buf u)) = take ?n (drop o_udpdata (uip_buf s))"
      using udp_input_delivers [of t i tapp' app'] h(4) p(2,3,5) s'(5,10,11) t(5) f(5) by fastforce
  }
  moreover have "uip_process_udp tapp app UIP_UDP_SEND_CONN s = Inr s'" using s'(1) by (simp add: uip_process_udp_def)
  ultimately show ?thesis using s'(2,3) by blast
qed

text \<open>Two hosts, one with a datagram to send to the port on which the other takes datagrams from anyone.\<close>

definition udp_host :: "ip4addr \<Rightarrow> uip_udp_conn_t list \<Rightarrow> udp_uip" where
  "udp_host a cs = (uip_bss (udp_uip.fields cs 0 0 0))\<lparr>uip_hostaddr := a\<rparr>"

definition udp_sender :: udp_uip where
  "udp_sender = (let s = udp_host (uip_ipaddr 10 0 2 15)
       [\<lparr>udp_ripaddr = uip_ipaddr 10 0 2 3, udp_lport = HTONS 4096, udp_rport = HTONS 7, udp_ttl = 64\<rparr>]
     in s\<lparr>uip_buf := take 42 (uip_buf s) @ [104, 105, 33] @ drop 45 (uip_buf s), uip_slen := 3\<rparr>)"

definition udp_receiver :: udp_uip where
  "udp_receiver = udp_host (uip_ipaddr 10 0 2 3) [\<lparr>udp_ripaddr = (0, 0), udp_lport = HTONS 7, udp_rport = 0, udp_ttl = 64\<rparr>]"

theorem udp_datagram_delivered_witness:
  "\<exists>s' u. uip_process_udp Inr Inr UIP_UDP_SEND_CONN udp_sender = Inr s' \<and>
    uip_process_udp Inr Inr UIP_DATA (udp_receiver\<lparr>uip_buf := uip_buf s', uip_len := uip_len s'\<rparr>) = udp_send u \<and>
    uip_flags u = UIP_NEWDATA \<and> take 3 (drop (uip_appdata u) (uip_buf u)) = [104, 105, 33]"
proof -
  let ?c = "\<lparr>udp_ripaddr = uip_ipaddr 10 0 2 3, udp_lport = HTONS 4096, udp_rport = HTONS 7, udp_ttl = 64\<rparr>"
  have s: "length (uip_buf udp_sender) = 422" "0 < uip_slen udp_sender" "uip_slen udp_sender \<le> 380" "udp_conn_now udp_sender = Inr ?c"
      "take 3 (drop 42 (uip_buf udp_sender)) = [104, 105, 33]" "unat (uip_slen udp_sender) = 3"
    by code_simp+
  have r: "uip_hostaddr udp_receiver = udp_ripaddr ?c"
      "first_index (udp_takes (uip_hostaddr udp_sender) (udp_lport ?c) (udp_rport ?c)) (uip_udp_conns udp_receiver) = Some 0"
    by code_simp+
  obtain s' where s': "uip_process_udp Inr Inr UIP_UDP_SEND_CONN udp_sender = Inr s'" "length (uip_buf s') = 422" and
    d: "\<And>(t :: udp_uip) tapp' app' i. length (uip_buf t) = 422 \<Longrightarrow> uip_len s' \<le> uip_len t \<Longrightarrow>
       take (unat (uip_len s')) (drop UIP_LLH_LEN (uip_buf t)) = take (unat (uip_len s')) (drop UIP_LLH_LEN (uip_buf s')) \<Longrightarrow>
       uip_hostaddr t = udp_ripaddr ?c \<Longrightarrow>
       first_index (udp_takes (uip_hostaddr udp_sender) (udp_lport ?c) (udp_rport ?c)) (uip_udp_conns t) = Some i \<Longrightarrow>
       \<exists>u. uip_process_udp tapp' app' UIP_DATA t = res_bind (app' u) udp_send \<and> uip_flags u = UIP_NEWDATA \<and>
         uip_len u = uip_slen udp_sender \<and> take (unat (uip_len u)) (drop (uip_appdata u) (uip_buf u)) = [104, 105, 33]"
    using udp_datagram_delivered [OF s(1-4), of Inr Inr] unfolding s(5,6) by blast
  from d [of "udp_receiver\<lparr>uip_buf := uip_buf s', uip_len := uip_len s'\<rparr>" 0 Inr Inr] s' r s(6) show ?thesis by auto
qed

text \<open>
  A packet that ends before its UDP header is complete, and whose checksum field is zero in the rest of an earlier packet, passes: the callback is told of
  more than 65507 bytes of data.
\<close>

lemma udp_short_packet:
  assumes "ip_accepted t" and "buf8 t o_proto = UIP_PROTO_UDP" and "buf16 t o_udpchksum = 0" and "ip_total_len t < 28"
    and "first_index (udp_matches t) (uip_udp_conns t) = Some i"
  shows "\<exists>u. uip_process_udp tapp app UIP_DATA t = res_bind (app u) udp_send \<and> 65507 < unat (uip_len u)"
proof -
  have "unat (ip_total_len t - 28) = unat (ip_total_len t) + 65536 - 28"
    using assms(4) by (simp add: unat_sub_if_size word_size word_le_nat_alt word_less_nat_alt)
  then have "65507 < unat (ip_total_len t - 28)" by simp
  moreover have "buf16 t o_udpchksum = 0 \<or> uip_udpchksum t = Inr 0xffff" using assms(3) ..
  ultimately show ?thesis using udp_input_delivers [OF assms(1,2) _ assms(5), of tapp app] by metis
qed

end
