(* ===== verification/Uip_Reass.thy ===== *)
theory Uip_Reass
  imports Ip_Props Uip_Conn
begin

text \<open>
  IP reassembly in \<^verbatim>\<open>library/uip/uip.c\<close>: the function \<^verbatim>\<open>uip_reass()\<close> and its uses, which the configuration switches off and a comment calls not well
  tested. Its static variables extend those of the stack. The arrays have the size that the macros give in this configuration.
\<close>

section \<open>Data\<close>

abbreviation (input) UIP_REASS_BUFSIZE :: nat where "UIP_REASS_BUFSIZE \<equiv> UIP_BUFSIZE - UIP_LLH_LEN"
abbreviation (input) UIP_REASS_MAXAGE :: u8 where "UIP_REASS_MAXAGE \<equiv> 40"
abbreviation (input) UIP_REASS_FLAG_LASTFRAG :: u8 where "UIP_REASS_FLAG_LASTFRAG \<equiv> 1"
abbreviation (input) IP_MF :: u8 where "IP_MF \<equiv> 0x20"

record reass_uip = uip +
  uip_reassbuf :: bytes
  uip_reassbitmap :: bytes
  uip_reasslen :: u16
  uip_reassflags :: u8
  uip_reasstmr :: u8

definition bitmap_bits :: bytes where
  "bitmap_bits = [0xff, 0x7f, 0x3f, 0x1f, 0x0f, 0x07, 0x03, 0x01]"

section \<open>Reassembly\<close>

text \<open>With the timer at zero nothing is being put together: the fragment's header starts a new packet.\<close>

definition reass_start :: "'a reass_uip_scheme \<Rightarrow> 'a reass_uip_scheme" where
  "reass_start s =
     (if uip_reasstmr s = 0
      then s\<lparr>uip_reassbuf := take 20 (drop UIP_LLH_LEN (uip_buf s)) @ drop 20 (uip_reassbuf s), uip_reasstmr := UIP_REASS_MAXAGE,
             uip_reassflags := 0, uip_reassbitmap := map (\<lambda>_. 0) (uip_reassbitmap s)\<rparr>
      else s)"

text \<open>The fragment belongs to the packet in the reassembly buffer.\<close>

definition same_packet :: "'a reass_uip_scheme \<Rightarrow> bool" where
  "same_packet s \<longleftrightarrow>
     buf_addr s o_srcipaddr = (get16 (uip_reassbuf s) 12, get16 (uip_reassbuf s) 14) \<and>
     buf_addr s o_destipaddr = (get16 (uip_reassbuf s) 16, get16 (uip_reassbuf s) 18) \<and>
     buf8 s o_ipid = uip_reassbuf s ! 4 \<and> buf8 s (o_ipid + 1) = uip_reassbuf s ! 5"

definition frag_len :: "'a uip_scheme \<Rightarrow> u16" where
  "frag_len s = push_bit 8 (ucast (buf8 s o_len)) + ucast (buf8 s (o_len + 1)) - ucast (buf8 s o_vhl AND 0x0f) * 4"

definition frag_offset :: "'a uip_scheme \<Rightarrow> u16" where
  "frag_offset s = (push_bit 8 (ucast (buf8 s o_ipoffset AND 0x3f)) + ucast (buf8 s (o_ipoffset + 1))) * 8"

text \<open>The bitmap has a bit for eight bytes. An index outside it is an access out of bounds.\<close>

definition or_byte :: "nat \<Rightarrow> u8 \<Rightarrow> bytes \<Rightarrow> bytes res" where
  "or_byte i v bm = (if i < length bm then Inr (bm[i := bm ! i OR v]) else Inl OutOfBounds)"

fun fill_bytes :: "nat list \<Rightarrow> bytes \<Rightarrow> bytes res" where
  "fill_bytes [] bm = Inr bm"
| "fill_bytes (i # is) bm = (if i < length bm then fill_bytes is (bm[i := 0xff]) else Inl OutOfBounds)"

definition mark_units :: "nat \<Rightarrow> nat \<Rightarrow> bytes \<Rightarrow> bytes res" where
  "mark_units a e bm =
     (if a div 64 = e div 64
      then or_byte (a div 64) (bitmap_bits ! (a div 8 mod 8) AND NOT (bitmap_bits ! (e div 8 mod 8))) bm
      else res_bind (or_byte (a div 64) (bitmap_bits ! (a div 8 mod 8)) bm) (\<lambda>bm.
           res_bind (fill_bytes [1 + a div 64..<e div 64] bm) (\<lambda>bm.
             or_byte (e div 64) (NOT (bitmap_bits ! (e div 8 mod 8))) bm)))"

text \<open>The last two checks: all bytes of the bitmap but the last two are full, and the last has the right number of bits.\<close>

definition all_there :: "'a reass_uip_scheme \<Rightarrow> bool res" where
  "all_there s =
     (let n = unat (uip_reasslen s) in
      if \<not> list_all (\<lambda>i. uip_reassbitmap s ! i = 0xff) [0..<n div 64 - 1] then Inr False
      else if n div 64 < length (uip_reassbitmap s)
      then Inr (uip_reassbitmap s ! (n div 64) = NOT (bitmap_bits ! (n div 8 mod 8)))
      else Inl OutOfBounds)"

text \<open>The packet is moved to the packet buffer, with a header of its own.\<close>

definition reass_done :: "'a reass_uip_scheme \<Rightarrow> 'a reass_uip_scheme res" where
  "reass_done s =
     (let s = s\<lparr>uip_reasstmr := 0\<rparr> in
      res_bind (mem_read (uip_reassbuf s) 0 (unat (uip_reasslen s))) (\<lambda>d.
      res_bind (mem_write (uip_buf s) UIP_LLH_LEN d) (\<lambda>b.
        let s = s\<lparr>uip_buf := b\<rparr>;
            s = set8 o_ipoffset 0 (set8 (o_ipoffset + 1) 0 s);
            s = set8 o_len (hi8 (uip_reasslen s)) s;
            s = set8 (o_len + 1) (lo8 (uip_reasslen s)) s;
            s = set16 o_ipchksum 0 s
        in Inr (set16 o_ipchksum (NOT (uip_ipchksum s)) s))))"

text \<open>A fragment is stored and marked.\<close>

definition reass_store :: "'a reass_uip_scheme \<Rightarrow> 'a reass_uip_scheme res" where
  "reass_store s =
     (let len = frag_len s; offset = frag_offset s in
      res_bind (mem_read (uip_buf s) (UIP_LLH_LEN + unat (buf8 s o_vhl AND 0x0f) * 4) (unat len)) (\<lambda>d.
      res_bind (mem_write (uip_reassbuf s) (20 + unat offset) d) (\<lambda>b.
      res_bind (mark_units (unat offset) (unat offset + unat len) (uip_reassbitmap s)) (\<lambda>bm.
        let s = s\<lparr>uip_reassbuf := b, uip_reassbitmap := bm\<rparr>
        in Inr (if buf8 s o_ipoffset AND IP_MF = 0
                then s\<lparr>uip_reassflags := uip_reassflags s OR UIP_REASS_FLAG_LASTFRAG, uip_reasslen := offset + len\<rparr>
                else s)))))"

text \<open>The function returns an 8-bit integer.\<close>

definition uip_reass :: "'a reass_uip_scheme \<Rightarrow> ('a reass_uip_scheme \<times> u8) res" where
  "uip_reass s =
     (let s = reass_start s in
      if \<not> same_packet s then Inr (s, 0)
      else if unat (frag_offset s) > UIP_REASS_BUFSIZE \<or> unat (frag_offset s) + unat (frag_len s) > UIP_REASS_BUFSIZE
      then Inr (s\<lparr>uip_reasstmr := 0\<rparr>, 0)
      else res_bind (reass_store s) (\<lambda>s.
        if uip_reassflags s AND UIP_REASS_FLAG_LASTFRAG \<noteq> 0
        then res_bind (all_there s) (\<lambda>ok.
          if ok then res_bind (reass_done s) (\<lambda>s. Inr (s, ucast (uip_reasslen s))) else Inr (s, 0))
        else Inr (s, 0)))"

section \<open>The stack with reassembly\<close>

definition reass_timer :: "'a reass_uip_scheme \<Rightarrow> 'a reass_uip_scheme" where
  "reass_timer s = (if uip_reasstmr s \<noteq> 0 then s\<lparr>uip_reasstmr := uip_reasstmr s - 1\<rparr> else s)"

text \<open>IP input behind the check for fragments.\<close>

definition ip_dispatch :: "('a uip_scheme \<Rightarrow> 'a uip_scheme res) \<Rightarrow> 'a uip_scheme \<Rightarrow> 'a uip_scheme res" where
  "ip_dispatch app s =
     (if \<not> uip_ipaddr_cmp (uip_hostaddr s) (0, 0) \<and> \<not> uip_ipaddr_cmp (buf_addr s o_destipaddr) (uip_hostaddr s)
      then Inr (drop_packet (count_stat (\<lambda>t. t\<lparr>ip_drop := ip_drop t + 1\<rparr>) s))
      else if uip_ipchksum s \<noteq> 0xffff
      then Inr (drop_packet (count_stat (\<lambda>t. t\<lparr>ip_drop := ip_drop t + 1, ip_chkerr := ip_chkerr t + 1\<rparr>) s))
      else if buf8 s o_proto = UIP_PROTO_TCP then tcp_input app s
      else if buf8 s o_proto \<noteq> UIP_PROTO_ICMP
      then Inr (drop_packet (count_stat (\<lambda>t. t\<lparr>ip_drop := ip_drop t + 1, ip_protoerr := ip_protoerr t + 1\<rparr>) s))
      else Inr (icmp_input s))"

definition ip_input_reass :: "('a reass_uip_scheme \<Rightarrow> 'a reass_uip_scheme res) \<Rightarrow> 'a reass_uip_scheme \<Rightarrow> 'a reass_uip_scheme res" where
  "ip_input_reass app s =
     (let s = count_stat (\<lambda>t. t\<lparr>ip_recv := ip_recv t + 1\<rparr>) s in
      if buf8 s o_vhl \<noteq> 0x45
      then Inr (drop_packet (count_stat (\<lambda>t. t\<lparr>ip_drop := ip_drop t + 1, ip_vhlerr := ip_vhlerr t + 1\<rparr>) s))
      else if \<not> ip_total_len s \<le> uip_len s then Inr (drop_packet s)
      else
        let s = s\<lparr>uip_len := ip_total_len s\<rparr> in
        if buf8 s o_ipoffset AND 0x3f \<noteq> 0 \<or> buf8 s (o_ipoffset + 1) \<noteq> 0
        then res_bind (uip_reass s) (\<lambda>(s, n). if n = 0 then Inr (drop_packet (s\<lparr>uip_len := 0\<rparr>)) else ip_dispatch app (s\<lparr>uip_len := ucast n\<rparr>))
        else ip_dispatch app s)"

definition uip_process_reass :: "('a reass_uip_scheme \<Rightarrow> 'a reass_uip_scheme res) \<Rightarrow> u8 \<Rightarrow> 'a reass_uip_scheme \<Rightarrow> 'a reass_uip_scheme res" where
  "uip_process_reass app flag s =
     (if flag = UIP_TIMER then uip_process app flag (reass_timer s)
      else if flag = UIP_POLL_REQUEST then uip_process app flag s
      else ip_input_reass app (s\<lparr>uip_sappdata := 54, uip_appdata := 54\<rparr>))"

text \<open>A packet that is not a fragment is treated as without reassembly.\<close>

lemma uip_process_reass_whole:
  assumes "buf8 s o_ipoffset AND 0x3f = 0" and "buf8 s (o_ipoffset + 1) = 0"
  shows "uip_process_reass app UIP_DATA s = uip_process app UIP_DATA s"
  using assms by (simp add: uip_process_reass_def uip_process_def ip_input_reass_def ip_input_def ip_dispatch_def Let_def)

section \<open>The bitmap as a set\<close>

text \<open>The bit of the \<open>k\<close>-th eight bytes of the data; the highest bit of a byte comes first.\<close>

definition unit_set :: "bytes \<Rightarrow> nat \<Rightarrow> bool" where
  "unit_set bm k \<longleftrightarrow> bit (bm ! (k div 8)) (7 - k mod 8)"

lemma bitmap_bits_bit: "j < 8 \<Longrightarrow> m < 8 \<Longrightarrow> bit (bitmap_bits ! j) (7 - m) \<longleftrightarrow> j \<le> m"
proof -
  assume "j < 8" "m < 8"
  moreover have "list_all (\<lambda>j. list_all (\<lambda>m. bit (bitmap_bits ! j) (7 - m) \<longleftrightarrow> j \<le> m) [0..<8]) [0..<8]" by code_simp
  ultimately show ?thesis unfolding list_all_iff by simp
qed

lemma fill_bytes_spec:
  "\<forall>i \<in> set is. i < length bm \<Longrightarrow>
   \<exists>bm'. fill_bytes is bm = Inr bm' \<and> length bm' = length bm \<and> (\<forall>i < length bm. bm' ! i = (if i \<in> set is then 0xff else bm ! i))"
proof (induction "is" arbitrary: bm)
  case (Cons j js)
  then obtain bm' where "fill_bytes js (bm[j := 0xff]) = Inr bm'" "length bm' = length bm"
      "\<forall>i < length bm. bm' ! i = (if i \<in> set js then 0xff else bm[j := 0xff] ! i)"
    using Cons.IH [of "bm[j := 0xff]"] by auto
  then show ?case using Cons.prems by (auto simp: nth_list_update)
qed simp

lemma bit_full: "n < 8 \<Longrightarrow> bit (0xff :: u8) n"
proof -
  assume "n < 8"
  moreover have "list_all (\<lambda>n. bit (0xff :: u8) n) [0..<8]" by code_simp
  ultimately show ?thesis unfolding list_all_iff by simp
qed

lemma le_by_blocks: "(a :: nat) \<le> k \<longleftrightarrow> a div 8 < k div 8 \<or> a div 8 = k div 8 \<and> a mod 8 \<le> k mod 8"
proof (cases "a div 8" "k div 8" rule: linorder_cases)
  case less
  then show ?thesis using div_le_mono [of k a 8] by (meson leD le_cases)
next
  case equal
  then show ?thesis using div_mult_mod_eq [of a 8] div_mult_mod_eq [of k 8] by linarith
next
  case greater
  then show ?thesis using div_le_mono [of a k 8] by auto
qed

lemma less_by_blocks: "(k :: nat) < a \<longleftrightarrow> k div 8 < a div 8 \<or> k div 8 = a div 8 \<and> k mod 8 < a mod 8"
  unfolding not_le [symmetric, of k a] le_by_blocks [of a k] by (cases "a div 8" "k div 8" rule: linorder_cases) auto

lemma unit_set_update: "i < length bm \<Longrightarrow> unit_set (bm[i := v]) k \<longleftrightarrow> (if k div 8 = i then bit v (7 - k mod 8) else unit_set bm k)"
  by (auto simp: unit_set_def)

text \<open>The units \<open>A\<close> to \<open>E\<close> are marked in one byte, or in two and all bytes between.\<close>

lemma mark_in_byte:
  assumes "E div 8 < length bm" and "A div 8 = E div 8"
  shows "unit_set (bm[E div 8 := bm ! (E div 8) OR (bitmap_bits ! (A mod 8) AND NOT (bitmap_bits ! (E mod 8)))]) k \<longleftrightarrow>
    unit_set bm k \<or> A \<le> k \<and> k < E"
proof -
  have "7 - k mod 8 < 8" by simp
  then show ?thesis
    unfolding le_by_blocks [of A k] less_by_blocks [of k E] unit_set_update [OF assms(1)]
    using assms(2) by (auto simp: bit_or_iff bit_and_iff bit_not_iff bitmap_bits_bit unit_set_def)
qed

lemma mark_over_bytes:
  assumes len: "length bm = 6" "length bm' = 6" and lt: "A div 8 < E div 8" "E div 8 < 6" and k: "k < 48"
    and bm': "\<forall>i < 6. bm' ! i = (if i \<in> set [1 + A div 8..<E div 8] then 0xff else bm[A div 8 := bm ! (A div 8) OR bitmap_bits ! (A mod 8)] ! i)"
  shows "unit_set (bm'[E div 8 := bm' ! (E div 8) OR NOT (bitmap_bits ! (E mod 8))]) k \<longleftrightarrow> unit_set bm k \<or> A \<le> k \<and> k < E"
proof -
  have q: "k div 8 < 6" and m: "7 - k mod 8 < 8" using k by simp_all
  consider "A div 8 < k div 8" "k div 8 < E div 8" | "k div 8 = E div 8" | "k div 8 = A div 8" | "k div 8 < A div 8" | "E div 8 < k div 8"
    by linarith
  then show ?thesis
    unfolding le_by_blocks [of A k] less_by_blocks [of k E]
  proof cases
    case 1
    then have "bm'[E div 8 := bm' ! (E div 8) OR NOT (bitmap_bits ! (E mod 8))] ! (k div 8) = 0xff" using bm' q by auto
    then have "unit_set (bm'[E div 8 := bm' ! (E div 8) OR NOT (bitmap_bits ! (E mod 8))]) k" by (simp only: unit_set_def bit_full [OF m])
    then show "unit_set (bm'[E div 8 := bm' ! (E div 8) OR NOT (bitmap_bits ! (E mod 8))]) k \<longleftrightarrow> unit_set bm k \<or>
        (A div 8 < k div 8 \<or> A div 8 = k div 8 \<and> A mod 8 \<le> k mod 8) \<and> (k div 8 < E div 8 \<or> k div 8 = E div 8 \<and> k mod 8 < E mod 8)"
      using 1 by blast
  qed (use lt len bm' q bitmap_bits_bit [of "A mod 8" "k mod 8"] bitmap_bits_bit [of "E mod 8" "k mod 8"] m in
      \<open>auto simp: unit_set_def bit_or_iff bit_not_iff\<close>)
qed

lemma mark_units_spec:
  assumes len: "length bm = 6" and e: "a \<le> e" "e < 384"
  shows "\<exists>bm'. mark_units a e bm = Inr bm' \<and> length bm' = 6 \<and>
    (\<forall>k < 48. unit_set bm' k \<longleftrightarrow> unit_set bm k \<or> a div 8 \<le> k \<and> k < e div 8)"
proof -
  have d: "a div 64 = a div 8 div 8" "e div 64 = e div 8 div 8" by (simp_all add: div_mult2_eq [symmetric])
  define A E where "A = a div 8" and "E = e div 8"
  have AE: "E div 8 < 6" "A div 8 \<le> E div 8" using e by (auto simp: A_def E_def div_le_mono)
  show ?thesis
  proof (cases "A div 8 = E div 8")
    case True
    then show ?thesis using mark_in_byte [of E bm A] AE(1) len by (simp add: mark_units_def d or_byte_def flip: A_def E_def)
  next
    case False
    then have lt: "A div 8 < E div 8" using AE(2) by simp
    let ?b = "bm[A div 8 := bm ! (A div 8) OR bitmap_bits ! (A mod 8)]"
    obtain bm' where f: "fill_bytes [1 + A div 8..<E div 8] ?b = Inr bm'" "length bm' = 6"
        "\<forall>i < 6. bm' ! i = (if i \<in> set [1 + A div 8..<E div 8] then 0xff else ?b ! i)"
      using fill_bytes_spec [of "[1 + A div 8..<E div 8]" ?b] AE(1) len by auto
    from mark_over_bytes [OF len f(2) lt AE(1) _ f(3)] show ?thesis
      using False lt f(1,2) AE(1) len by (simp add: mark_units_def d or_byte_def flip: A_def E_def)
  qed
qed

section \<open>Fragments of a packet\<close>

text \<open>What identifies a packet, in a fragment and in the reassembly buffer.\<close>

definition ident :: "'a uip_scheme \<Rightarrow> ip4addr \<times> ip4addr \<times> u8 \<times> u8" where
  "ident s = (buf_addr s o_srcipaddr, buf_addr s o_destipaddr, buf8 s o_ipid, buf8 s (o_ipid + 1))"

definition held_ident :: "bytes \<Rightarrow> ip4addr \<times> ip4addr \<times> u8 \<times> u8" where
  "held_ident b = ((get16 b 12, get16 b 14), (get16 b 16, get16 b 18), b ! 4, b ! 5)"

lemma same_packet_ident: "same_packet s \<longleftrightarrow> ident s = held_ident (uip_reassbuf s)"
  by (auto simp: same_packet_def ident_def held_ident_def)

text \<open>
  The buffer holds a fragment of a packet with payload \<open>P\<close>: a whole number of units of eight bytes with the flag for more, or the end of \<open>P\<close> without it.
\<close>

definition fragment :: "bytes \<Rightarrow> 'a uip_scheme \<Rightarrow> bool" where
  "fragment P s \<longleftrightarrow>
     (let a = unat (frag_offset s); n = unat (frag_len s) in
      length (uip_buf s) = 422 \<and> buf8 s o_vhl = 0x45 \<and> a + n \<le> length P \<and> 34 + n \<le> 422 \<and>
      take n (drop 34 (uip_buf s)) = take n (drop a P) \<and>
      (buf8 s o_ipoffset AND IP_MF = 0 \<longleftrightarrow> a + n = length P) \<and> (a + n = length P \<or> n mod 8 = 0))"

definition frag_units :: "'a uip_scheme \<Rightarrow> nat set" where
  "frag_units s = {unat (frag_offset s) div 8..<(unat (frag_offset s) + unat (frag_len s)) div 8}"

definition last_frag :: "'a uip_scheme \<Rightarrow> bool" where
  "last_frag s \<longleftrightarrow> buf8 s o_ipoffset AND IP_MF = 0"

text \<open>The units \<open>S\<close> of \<open>P\<close> are in the reassembly buffer, and its end if \<open>final\<close>.\<close>

definition reass_state :: "bytes \<Rightarrow> nat set \<Rightarrow> bool \<Rightarrow> 'a reass_uip_scheme \<Rightarrow> bool" where
  "reass_state P S final s \<longleftrightarrow>
     length (uip_reassbuf s) = UIP_REASS_BUFSIZE \<and> length (uip_reassbitmap s) = 6 \<and> uip_reasstmr s \<noteq> 0 \<and>
     (uip_reassflags s AND UIP_REASS_FLAG_LASTFRAG \<noteq> 0 \<longleftrightarrow> final) \<and>
     (\<forall>k < 48. unit_set (uip_reassbitmap s) k \<longleftrightarrow> k \<in> S) \<and> S \<subseteq> {..<length P div 8} \<and>
     (\<forall>j < length P. j div 8 \<in> S \<or> final \<and> length P div 8 \<le> j div 8 \<longrightarrow> uip_reassbuf s ! (20 + j) = P ! j) \<and>
     (final \<longrightarrow> uip_reasslen s = of_nat (length P))"

lemma frag_offset_units: "unat (frag_offset s) mod 8 = 0"
proof -
  have "frag_offset s = (push_bit 8 (ucast (buf8 s o_ipoffset AND 0x3f)) + ucast (buf8 s (o_ipoffset + 1))) * 8" by (simp add: frag_offset_def)
  then obtain w :: u16 where w: "frag_offset s = w * 8" by blast
  have "unat (w * 8) mod 8 = unat w * 8 mod 65536 mod 8" by (simp add: unat_word_ariths)
  also have "\<dots> = 0" by (simp add: mod_mod_cancel)
  finally show ?thesis using w by simp
qed

lemma flag_or_last: "(f OR 1 :: u8) AND 1 \<noteq> 0"
  by (simp add: bit.conj_disj_distrib2 or_eq_0_iff)

lemma unit_le: "a mod 8 = 0 \<Longrightarrow> a div 8 \<le> j div 8 \<Longrightarrow> (a :: nat) \<le> j"
  unfolding le_by_blocks [of a j] by (cases "a div 8" "j div 8" rule: linorder_cases) simp_all

lemma unit_less: "j div 8 < e div 8 \<Longrightarrow> (j :: nat) < e"
  using div_le_mono [of e j 8] by (meson leD leI)

text \<open>The bytes from \<open>a\<close> on are replaced: those that were right stay so, and those of the units in between and of the end become right.\<close>

lemma stored_byte:
  assumes a: "a mod 8 = 0" and j: "j < length P"
    and new: "j div 8 \<in> S \<union> {a div 8..<(a + n) div 8} \<or> (final \<or> a + n = length P) \<and> length P div 8 \<le> j div 8"
    and old: "j div 8 \<in> S \<or> final \<and> length P div 8 \<le> j div 8 \<Longrightarrow> x = P ! j"
  shows "(if a \<le> j \<and> j < a + n then P ! j else x) = P ! j"
proof (cases "a \<le> j \<and> j < a + n")
  case False
  have "j div 8 \<notin> {a div 8..<(a + n) div 8}"
  proof
    assume "j div 8 \<in> {a div 8..<(a + n) div 8}"
    then have "a div 8 \<le> j div 8" "j div 8 < (a + n) div 8" by simp_all
    then have "a \<le> j" "j < a + n" using unit_le [OF a] unit_less by blast+
    then show False using False by simp
  qed
  moreover have "\<not> (a + n = length P \<and> length P div 8 \<le> j div 8)"
  proof
    assume e: "a + n = length P \<and> length P div 8 \<le> j div 8"
    then have "a div 8 \<le> j div 8" using div_le_mono [of a "length P" 8] by simp
    then have "a \<le> j" using unit_le [OF a] by blast
    then show False using False e j by simp
  qed
  ultimately show ?thesis using new old False by auto
qed simp

lemma reass_store_eq:
  fixes s :: "'a reass_uip_scheme"
  defines "a \<equiv> unat (frag_offset s)" and "n \<equiv> unat (frag_len s)"
  assumes f: "fragment P s" and L: "length P < 384" and b: "length (uip_reassbuf s) = 406"
    and bm: "mark_units a (a + n) (uip_reassbitmap s) = Inr bm"
  shows "\<exists>b. mem_write (uip_reassbuf s) (20 + a) (take n (drop a P)) = Inr b \<and>
    reass_store s = Inr (s\<lparr>uip_reassbuf := b, uip_reassbitmap := bm,
      uip_reassflags := if last_frag s then uip_reassflags s OR 1 else uip_reassflags s,
      uip_reasslen := if last_frag s then of_nat (length P) else uip_reasslen s\<rparr>)"
proof -
  have f: "length (uip_buf s) = 422" "buf8 s o_vhl = 0x45" "a + n \<le> length P" "34 + n \<le> 422"
      "take n (drop 34 (uip_buf s)) = take n (drop a P)" "last_frag s \<longleftrightarrow> a + n = length P"
    using f by (simp_all add: fragment_def Let_def last_frag_def a_def n_def)
  have r: "mem_read (uip_buf s) (14 + unat (buf8 s o_vhl AND 0x0f) * 4) n = Inr (take n (drop a P))"
    using f(1,2,4,5) by (simp add: mem_read_def)
  obtain b where w: "mem_write (uip_reassbuf s) (20 + a) (take n (drop a P)) = Inr b"
    using f(3) b L by (simp add: mem_write_def)
  have "frag_offset s + frag_len s = of_nat (a + n)" by (simp add: a_def n_def)
  then have "frag_offset s + frag_len s = of_nat (length P)" if "last_frag s" using f(6) that by metis
  then show ?thesis
    using w unfolding reass_store_def Let_def a_def [symmetric] n_def [symmetric] r res_bind_simps bm last_frag_def
    by (auto simp: buf8_def)
qed

lemma reass_store_state:
  assumes st: "reass_state P S final s" and f: "fragment P s" and L: "length P < 384"
  shows "\<exists>s'. reass_store s = Inr s' \<and> reass_state P (S \<union> frag_units s) (final \<or> last_frag s) s' \<and>
    take 20 (uip_reassbuf s') = take 20 (uip_reassbuf s) \<and> uip_buf s' = uip_buf s"
proof -
  let ?a = "unat (frag_offset s)" and ?n = "unat (frag_len s)"
  have e: "?a + ?n \<le> length P" "last_frag s \<longleftrightarrow> ?a + ?n = length P" using f by (simp_all add: fragment_def Let_def last_frag_def)
  have st: "length (uip_reassbuf s) = 406" "length (uip_reassbitmap s) = 6" "uip_reasstmr s \<noteq> 0" "uip_reassflags s AND 1 \<noteq> 0 \<longleftrightarrow> final"
      "\<And>k. k < 48 \<Longrightarrow> unit_set (uip_reassbitmap s) k \<longleftrightarrow> k \<in> S" "S \<subseteq> {..<length P div 8}"
      "\<And>j. j < length P \<Longrightarrow> j div 8 \<in> S \<or> final \<and> length P div 8 \<le> j div 8 \<Longrightarrow> uip_reassbuf s ! (20 + j) = P ! j"
      "final \<Longrightarrow> uip_reasslen s = of_nat (length P)"
    using st by (auto simp: reass_state_def)
  obtain bm where bm: "mark_units ?a (?a + ?n) (uip_reassbitmap s) = Inr bm" "length bm = 6"
      "\<forall>k < 48. unit_set bm k \<longleftrightarrow> unit_set (uip_reassbitmap s) k \<or> ?a div 8 \<le> k \<and> k < (?a + ?n) div 8"
    using mark_units_spec [OF st(2), of ?a "?a + ?n"] e(1) L by auto
  from reass_store_eq [OF f L st(1) bm(1)] obtain b where w: "mem_write (uip_reassbuf s) (20 + ?a) (take ?n (drop ?a P)) = Inr b"
    and r: "reass_store s = Inr (s\<lparr>uip_reassbuf := b, uip_reassbitmap := bm,
      uip_reassflags := if last_frag s then uip_reassflags s OR 1 else uip_reassflags s,
      uip_reasslen := if last_frag s then of_nat (length P) else uip_reasslen s\<rparr>)" by blast
  have ld: "length (take ?n (drop ?a P)) = ?n" using e(1) by simp
  have "b ! (20 + j) = P ! j" if j: "j < length P" "j div 8 \<in> S \<union> frag_units s \<or> (final \<or> last_frag s) \<and> length P div 8 \<le> j div 8" for j
  proof -
    have "b ! (20 + j) = (if ?a \<le> j \<and> j < ?a + ?n then P ! j else uip_reassbuf s ! (20 + j))"
      using j(1) mem_write_nth [OF w, of "20 + j"] st(1) L e(1) unfolding ld by auto
    then show ?thesis
      using stored_byte [OF frag_offset_units j(1) j(2) [unfolded frag_units_def e(2)] st(7) [OF j(1)]] by simp
  qed
  moreover have "frag_units s \<subseteq> {..<length P div 8}" using div_le_mono [OF e(1), of 8] by (auto simp: frag_units_def)
  moreover have "take 20 b = take 20 (uip_reassbuf s)" using w ld st(1) L e(1) by (auto simp: mem_write_def split: if_splits)
  ultimately show ?thesis
    using length_mem_write [OF w] st bm(2,3) flag_or_last r by (auto simp: reass_state_def frag_units_def)
qed

section \<open>The end of a reassembly\<close>

text \<open>
  The units that the final check looks at: all but those of the last but one byte of the bitmap.
\<close>

definition checked :: "bytes \<Rightarrow> nat \<Rightarrow> bool" where
  "checked P k \<longleftrightarrow> k div 8 < length P div 64 - 1 \<or> k div 8 = length P div 64"

lemma byte_units:
  assumes "\<And>k. k div 8 = i \<Longrightarrow> unit_set bm k \<longleftrightarrow> Q (k mod 8)" and "\<And>m. m < 8 \<Longrightarrow> bit v (7 - m) \<longleftrightarrow> R m"
  shows "bm ! i = v \<longleftrightarrow> (\<forall>m < 8. Q m \<longleftrightarrow> R m)"
proof
  have b: "unit_set bm (8 * i + m) \<longleftrightarrow> Q m" if "m < 8" for m using assms(1) [of "8 * i + m"] that by simp
  have u: "unit_set bm (8 * i + m) \<longleftrightarrow> bit (bm ! i) (7 - m)" if "m < 8" for m using that by (simp add: unit_set_def)
  show "bm ! i = v \<Longrightarrow> \<forall>m < 8. Q m \<longleftrightarrow> R m" using b u assms(2) by blast
  assume q: "\<forall>m < 8. Q m \<longleftrightarrow> R m"
  show "bm ! i = v"
  proof (rule bit_word_eqI)
    fix n assume "n < LENGTH(8)"
    then have n: "7 - n < 8" "7 - (7 - n) = n" by simp_all
    show "bit (bm ! i) n \<longleftrightarrow> bit v n" using b [OF n(1)] u [OF n(1)] assms(2) [OF n(1)] q n by simp
  qed
qed

lemma byte_of_set:
  assumes "\<And>k. k < 48 \<Longrightarrow> unit_set bm k \<longleftrightarrow> k \<in> S" and "i < 6" and "\<And>m. m < 8 \<Longrightarrow> bit v (7 - m) \<longleftrightarrow> R m"
  shows "bm ! i = v \<longleftrightarrow> (\<forall>m < 8. 8 * i + m \<in> S \<longleftrightarrow> R m)"
proof (rule byte_units [OF _ assms(3)])
  fix k assume "k div 8 = i"
  then have "8 * i + k mod 8 = k" "k < 48" using assms(2) by auto
  then show "unit_set bm k \<longleftrightarrow> 8 * i + k mod 8 \<in> S" using assms(1) by simp
qed

lemma checked_blocks:
  "(\<forall>k < length P div 8. checked P k \<longrightarrow> k \<in> S) \<longleftrightarrow>
    (\<forall>i < length P div 64 - 1. \<forall>m < 8. 8 * i + m \<in> S) \<and> (\<forall>m < length P div 8 mod 8. 8 * (length P div 64) + m \<in> S)"
  (is "?l \<longleftrightarrow> ?r")
proof -
  let ?L = "length P div 8" and ?q = "length P div 64"
  have q: "?q = ?L div 8" by (simp add: div_mult2_eq [symmetric])
  have L: "?L = 8 * ?q + ?L mod 8" unfolding q by (rule mult_div_mod_eq [symmetric])
  show ?thesis
  proof
    assume l: ?l
    have "8 * i + m \<in> S" if "i < ?q - 1" "m < 8" for i m
      using l that unit_less [of "8 * i + m" "?L"] q by (simp add: checked_def)
    moreover have "8 * ?q + m \<in> S" if "m < ?L mod 8" for m
    proof -
      have "m < 8" using that by (meson less_trans mod_less_divisor zero_less_numeral)
      then show ?thesis using l that L by (simp add: checked_def)
    qed
    ultimately show ?r by blast
  next
    assume r: ?r
    have "k \<in> S" if "k < ?L" "checked P k" for k
    proof (cases "k div 8 = ?q")
      case True
      then have "k mod 8 < ?L mod 8" using that(1) q less_by_blocks [of k ?L] by simp
      then show ?thesis using r True mult_div_mod_eq [of 8 k] by metis
    next
      case False
      then show ?thesis using r that(2) mult_div_mod_eq [of 8 k] mod_less_divisor [of 8 k] unfolding checked_def by (metis zero_less_numeral)
    qed
    then show ?l by blast
  qed
qed

lemma all_there_state:
  assumes st: "reass_state P S True s" and L: "length P < 384"
  shows "all_there s = Inr (\<forall>k < length P div 8. checked P k \<longrightarrow> k \<in> S)"
proof -
  let ?L = "length P" and ?bm = "uip_reassbitmap s"
  let ?q = "?L div 64" and ?r = "?L div 8 mod 8"
  have st: "length ?bm = 6" "\<And>k. k < 48 \<Longrightarrow> unit_set ?bm k \<longleftrightarrow> k \<in> S" "S \<subseteq> {..<?L div 8}" "uip_reasslen s = of_nat ?L"
    using st by (auto simp: reass_state_def)
  have n: "unat (uip_reasslen s) = ?L" using st(4) L by (simp add: unat_of_nat)
  have q: "?q < 6" "?L div 8 = 8 * ?q + ?r" using L div_mult2_eq [of ?L 8 8] by simp_all
  have full: "?bm ! i = 0xff \<longleftrightarrow> (\<forall>m < 8. 8 * i + m \<in> S)" if "i < 6" for i
    using byte_of_set [OF st(2) that, of "0xff" "\<lambda>_. True"] bit_full by simp
  have "bit (NOT (bitmap_bits ! ?r)) (7 - m) \<longleftrightarrow> m < ?r" if "m < 8" for m
    using that bitmap_bits_bit [of ?r m] by (auto simp: bit_not_iff)
  then have "?bm ! ?q = NOT (bitmap_bits ! ?r) \<longleftrightarrow> (\<forall>m < 8. 8 * ?q + m \<in> S \<longleftrightarrow> m < ?r)"
    using byte_of_set [OF st(2) q(1), of "NOT (bitmap_bits ! ?r)" "\<lambda>m. m < ?r"] by simp
  also have "\<dots> \<longleftrightarrow> (\<forall>m < ?r. 8 * ?q + m \<in> S)"
    using st(3) q(2) by (auto intro: less_trans [of _ ?r])
  finally show ?thesis
    using full q(1) st(1) unfolding all_there_def n Let_def checked_blocks by (auto simp: list_all_iff)
qed

text \<open>
  With all units there, the buffer becomes a packet of as many bytes as the payload has: the header and the payload without its last 20 bytes.
\<close>

lemma reass_done_spec:
  assumes st: "reass_state P S True s" and S: "{..<length P div 8} \<subseteq> S" and L: "20 \<le> length P" "length P < 384" and len: "length (uip_buf s) = 422"
  shows "\<exists>s'. reass_done s = Inr s' \<and> uip_reasstmr s' = 0 \<and> uip_reasslen s' = of_nat (length P) \<and> ip_total_len s' = of_nat (length P) \<and>
    buf8 s' o_ipoffset = 0 \<and> buf8 s' (o_ipoffset + 1) = 0 \<and> uip_ipchksum s' = 0xffff \<and> ident s' = held_ident (uip_reassbuf s) \<and>
    buf8 s' o_proto = uip_reassbuf s ! 9 \<and> take (length P - 20) (drop 34 (uip_buf s')) = take (length P - 20) P"
proof -
  let ?L = "length P" and ?r = "uip_reassbuf s"
  have pay: "?r ! (20 + j) = P ! j" if "j < ?L" for j
  proof -
    have "j div 8 \<in> S \<or> ?L div 8 \<le> j div 8" using S by (cases "j div 8 < ?L div 8") auto
    then show ?thesis using st that by (auto simp: reass_state_def)
  qed
  have st: "length ?r = 406" "uip_reasslen s = of_nat ?L" using st by (auto simp: reass_state_def)
  have n: "unat (of_nat ?L :: u16) = ?L" using L(2) by (simp add: unat_of_nat)
  define b where "b = take 14 (uip_buf s) @ take ?L ?r @ drop (14 + ?L) (uip_buf s)"
  have w: "mem_write (uip_buf s) 14 (take ?L ?r) = Inr b" using st(1) L(2) len by (simp add: mem_write_def b_def min_def)
  have bl: "length b = 422" and bn: "\<And>i. i < ?L \<Longrightarrow> b ! (14 + i) = ?r ! i"
    using length_mem_write [OF w] len mem_write_nth [OF w] st(1) L(2) by auto
  define t where "t = set16 o_ipchksum 0 (set8 (o_len + 1) (lo8 (of_nat ?L)) (set8 o_len (hi8 (of_nat ?L))
    (set8 o_ipoffset 0 (set8 (o_ipoffset + 1) 0 (s\<lparr>uip_reasstmr := 0, uip_buf := b\<rparr>)))))"
  define s' where "s' = set16 o_ipchksum (NOT (uip_ipchksum t)) t"
  have res: "reass_done s = Inr s'"
    using w st(1) L(2) by (simp add: reass_done_def mem_read_def n st(2) s'_def t_def Let_def set8_def set16_def)
  have tl: "length (uip_buf t) = 422" using bl by (simp add: t_def)
  have tb: "buf8 s' i = (if i \<in> {16, 17, 20, 21, 24, 25} then buf8 s' i else b ! i)" for i
    using bl tl by (simp add: s'_def t_def buf_stores) (simp add: buf8_def)
  have hdr: "buf8 s' (14 + i) = ?r ! i" if "i < ?L" "i \<notin> {2, 3, 6, 7, 10, 11}" for i
    using tb [of "14 + i"] bn [OF that(1)] that(2) by auto
  have "buf8 s' o_len = hi8 (of_nat ?L)" "buf8 s' (o_len + 1) = lo8 (of_nat ?L)" "buf8 s' o_ipoffset = 0" "buf8 s' (o_ipoffset + 1) = 0"
    using bl tl by (simp_all add: s'_def t_def buf_stores)
  moreover have "buf8 t o_ipchksum = 0" "buf8 t (o_ipchksum + 1) = 0" using bl by (simp_all add: t_def buf_stores lo8_def hi8_def)
  then have "uip_ipchksum s' = 0xffff" using ip_seal [of t] tl by (simp add: s'_def)
  moreover have "ident s' = held_ident ?r" "buf8 s' o_proto = ?r ! 9"
    using hdr [of 4] hdr [of 5] hdr [of 9] hdr [of 12] hdr [of 13] hdr [of 14] hdr [of 15] hdr [of 16] hdr [of 17] hdr [of 18] hdr [of 19] L(1)
    by (simp_all add: ident_def held_ident_def buf_bytes get16_def)
  moreover have "take (?L - 20) (drop 34 (uip_buf s')) = take (?L - 20) P"
  proof (rule nth_equalityI)
    fix i assume "i < length (take (?L - 20) (drop 34 (uip_buf s')))"
    then have i: "i < ?L - 20" "34 + i < length (uip_buf s')" by auto
    then show "take (?L - 20) (drop 34 (uip_buf s')) ! i = take (?L - 20) P ! i"
      using hdr [of "20 + i"] pay [of i] by (simp add: buf8_def)
  qed (use tl L in \<open>simp add: s'_def\<close>)
  moreover have "uip_reasstmr s' = 0" "uip_reasslen s' = of_nat ?L" using st(2) by (simp_all add: s'_def t_def set8_def set16_def)
  ultimately show ?thesis using res by (simp add: ip_total_len_be16 buf8_def)
qed

section \<open>A sequence of fragments\<close>

text \<open>The packets of a list arrive one after the other, until one completes a packet.\<close>

fun reass_run :: "bytes list \<Rightarrow> 'a reass_uip_scheme \<Rightarrow> ('a reass_uip_scheme \<times> u8) res" where
  "reass_run [] s = Inr (s, 0)"
| "reass_run (b # bs) s =
     res_bind (uip_reass (s\<lparr>uip_buf := b\<rparr>)) (\<lambda>(s, n). if n = 0 then reass_run bs s else Inr (s, n))"

text \<open>Nothing is held, or the units \<open>S\<close> of the packet \<open>idn\<close>, not its end.\<close>

definition holds :: "bytes \<Rightarrow> nat set \<Rightarrow> ip4addr \<times> ip4addr \<times> u8 \<times> u8 \<Rightarrow> 'a reass_uip_scheme \<Rightarrow> bool" where
  "holds P S idn s \<longleftrightarrow>
     uip_reasstmr s = 0 \<and> S = {} \<and> length (uip_reassbuf s) = UIP_REASS_BUFSIZE \<and> length (uip_reassbitmap s) = 6 \<or>
     reass_state P S False s \<and> held_ident (uip_reassbuf s) = idn"

lemma held_ident_take: "take 20 b = take 20 c \<Longrightarrow> 20 \<le> length b \<Longrightarrow> 20 \<le> length c \<Longrightarrow> held_ident b = held_ident c"
proof -
  assume a: "take 20 b = take 20 c" "20 \<le> length b" "20 \<le> length c"
  have "b ! i = c ! i" if "i < 20" for i using arg_cong [OF a(1), of "\<lambda>x. x ! i"] that by simp
  then show ?thesis by (simp add: held_ident_def get16_def)
qed

lemma reass_start_state:
  assumes h: "holds P S (ident s) s" and len: "length (uip_buf s) = 422"
  shows "reass_state P S False (reass_start s)" and "same_packet (reass_start s)" and "uip_buf (reass_start s) = uip_buf s"
proof -
  show b: "uip_buf (reass_start s) = uip_buf s" by (simp add: reass_start_def)
  show "reass_state P S False (reass_start s)"
    using h len by (auto simp: holds_def reass_state_def reass_start_def unit_set_def)
  have i: "ident (reass_start s) = ident s" by (simp add: ident_def same_buf [OF b])
  have "held_ident (take 20 (drop 14 (uip_buf s)) @ drop 20 (uip_reassbuf s)) = ident s"
    using len by (simp add: held_ident_def ident_def buf_bytes buf8_def get16_def nth_append)
  then show "same_packet (reass_start s)"
    unfolding same_packet_ident i using h by (auto simp: holds_def reass_state_def reass_start_def)
qed

lemma uip_reass_step:
  assumes h: "holds P S (ident s) s" and f: "fragment P s" and L: "length P < 384"
  shows "\<exists>t. reass_state P (S \<union> frag_units s) (last_frag s) t \<and> held_ident (uip_reassbuf t) = ident s \<and> length (uip_buf t) = 422 \<and>
    uip_reass s = (if last_frag s
      then if \<forall>k < length P div 8. checked P k \<longrightarrow> k \<in> S \<union> frag_units s
           then res_bind (reass_done t) (\<lambda>s'. Inr (s', ucast (uip_reasslen s'))) else Inr (t, 0)
      else Inr (t, 0))"
proof -
  have fl: "length (uip_buf s) = 422" "unat (frag_offset s) + unat (frag_len s) \<le> length P" using f by (simp_all add: fragment_def Let_def)
  note st = reass_start_state [OF h fl(1)]
  let ?r = "reass_start s"
  note sb = same_buf [OF st(3)]
  have c: "frag_offset ?r = frag_offset s" "frag_len ?r = frag_len s" by (simp_all add: frag_offset_def frag_len_def sb)
  then have u: "frag_units ?r = frag_units s" "last_frag ?r = last_frag s" "fragment P ?r" "ident ?r = ident s"
    using f st(3) by (simp_all add: frag_units_def last_frag_def fragment_def ident_def sb)
  from reass_store_state [OF st(1) u(3) L] u obtain t where t: "reass_store ?r = Inr t" "reass_state P (S \<union> frag_units s) (last_frag s) t"
      "take 20 (uip_reassbuf t) = take 20 (uip_reassbuf ?r)" "uip_buf t = uip_buf s" using st(3) by auto
  have "held_ident (uip_reassbuf t) = held_ident (uip_reassbuf ?r)"
    using t(2) st(1) by (intro held_ident_take [OF t(3)]) (simp_all add: reass_state_def)
  then have "held_ident (uip_reassbuf t) = ident s" using st(2) u(4) by (simp add: same_packet_ident)
  moreover have "uip_reassflags t AND 1 \<noteq> 0 \<longleftrightarrow> last_frag s" using t(2) by (simp add: reass_state_def)
  moreover have "all_there t = Inr (\<forall>k < length P div 8. checked P k \<longrightarrow> k \<in> S \<union> frag_units s)" if "last_frag s"
    by (rule all_there_state [OF _ L]) (use t(2) that in simp)
  moreover have "uip_reass s = res_bind (reass_store ?r) (\<lambda>s.
        if uip_reassflags s AND UIP_REASS_FLAG_LASTFRAG \<noteq> 0
        then res_bind (all_there s) (\<lambda>ok.
          if ok then res_bind (reass_done s) (\<lambda>s. Inr (s, ucast (uip_reasslen s))) else Inr (s, 0))
        else Inr (s, 0))"
    using st(2) fl(2) L c by (simp add: uip_reass_def Let_def)
  ultimately show ?thesis using t fl(1) by auto
qed

text \<open>Fragments before the last, in any order.\<close>

lemma reass_run_more:
  assumes "holds P S idn s" and "length P < 384"
    and "\<And>b. b \<in> set bs \<Longrightarrow> fragment P (z\<lparr>uip_buf := b\<rparr>) \<and> ident (z\<lparr>uip_buf := b\<rparr>) = idn \<and> \<not> last_frag (z\<lparr>uip_buf := b\<rparr>)"
  shows "\<exists>t. reass_run (bs @ cs) s = reass_run cs t \<and> holds P (S \<union> (\<Union>b \<in> set bs. frag_units (z\<lparr>uip_buf := b\<rparr>))) idn t"
  using assms
proof (induction bs arbitrary: S s)
  case (Cons b bs)
  let ?s = "s\<lparr>uip_buf := b\<rparr>" and ?z = "z\<lparr>uip_buf := b\<rparr>"
  have b: "uip_buf ?s = uip_buf ?z" by simp
  have e: "fragment P ?s = fragment P ?z" "ident ?s = ident ?z" "last_frag ?s = last_frag ?z" "frag_units ?s = frag_units ?z"
    by (simp_all add: fragment_def ident_def last_frag_def frag_units_def frag_offset_def frag_len_def same_buf [OF b])
  have f: "fragment P ?s" "ident ?s = idn" "\<not> last_frag ?s" using Cons.prems(3) [of b] e by simp_all
  have "holds P S idn ?s" using Cons.prems(1) by (simp add: holds_def reass_state_def)
  with uip_reass_step [of P S ?s] f Cons.prems(2)
  obtain t where t: "uip_reass ?s = Inr (t, 0)" "reass_state P (S \<union> frag_units ?s) False t" "held_ident (uip_reassbuf t) = idn" by auto
  then have "holds P (S \<union> frag_units ?s) idn t" by (simp add: holds_def)
  from Cons.IH [OF this Cons.prems(2)] Cons.prems(3) t(1) show ?case unfolding e(4) by (auto simp: Un_assoc)
qed auto

text \<open>
  C18: reassembly puts a packet together. Nothing is being reassembled; the fragments of a packet with a payload of at least 20 and less than 384 bytes, not 256, arrive,
  the last one at the end and the others in any order, possibly overlapping, and every part of the payload is in one of them. Then \<^verbatim>\<open>uip_reass()\<close> accepts
  all of them and returns with the last one the length of the payload in 8 bits. The packet buffer then holds a header that is no fragment's, with a valid checksum
  and the addresses and identification of the fragments, and behind it the payload without its last 20 bytes: the length of the header is not added.
\<close>

theorem fragments_reassembled:
  fixes s :: "'a reass_uip_scheme"
  assumes s: "uip_reasstmr s = 0" "length (uip_reassbuf s) = UIP_REASS_BUFSIZE" "length (uip_reassbitmap s) = 6"
    and P: "20 \<le> length P" "length P < 384" "length P \<noteq> 256"
    and frags: "\<And>b. b \<in> set (bs @ [l]) \<Longrightarrow> fragment P (s\<lparr>uip_buf := b\<rparr>) \<and> ident (s\<lparr>uip_buf := b\<rparr>) = idn"
    and last: "\<And>b. b \<in> set bs \<Longrightarrow> \<not> last_frag (s\<lparr>uip_buf := b\<rparr>)" "last_frag (s\<lparr>uip_buf := l\<rparr>)"
    and cover: "\<And>k. k < length P div 8 \<Longrightarrow> \<exists>b \<in> set (bs @ [l]). k \<in> frag_units (s\<lparr>uip_buf := b\<rparr>)"
  shows "\<exists>s'. reass_run (bs @ [l]) s = Inr (s', of_nat (length P)) \<and> uip_reasstmr s' = 0 \<and> ip_total_len s' = of_nat (length P) \<and>
    buf8 s' o_ipoffset = 0 \<and> buf8 s' (o_ipoffset + 1) = 0 \<and> uip_ipchksum s' = 0xffff \<and> ident s' = idn \<and>
    take (length P - 20) (drop 34 (uip_buf s')) = take (length P - 20) P"
proof -
  let ?u = "\<lambda>b. frag_units (s\<lparr>uip_buf := b\<rparr>)"
  have "holds P {} idn s" using s by (simp add: holds_def)
  from reass_run_more [OF this P(2), of bs s "[l]"] frags last(1)
  obtain t where t: "reass_run (bs @ [l]) s = reass_run [l] t" "holds P (\<Union>b \<in> set bs. ?u b) idn t" by auto
  let ?t = "t\<lparr>uip_buf := l\<rparr>" and ?s = "s\<lparr>uip_buf := l\<rparr>"
  have b: "uip_buf ?t = uip_buf ?s" by simp
  have e: "fragment P ?t = fragment P ?s" "ident ?t = ident ?s" "last_frag ?t = last_frag ?s" "frag_units ?t = ?u l"
    by (simp_all add: fragment_def ident_def last_frag_def frag_units_def frag_offset_def frag_len_def same_buf [OF b])
  have h: "holds P (\<Union>b \<in> set bs. ?u b) (ident ?t) ?t" "fragment P ?t" "last_frag ?t" "ident ?t = idn"
    using t(2) frags [of l] last(2) e by (simp_all add: holds_def reass_state_def)
  let ?S = "(\<Union>b \<in> set bs. ?u b) \<union> ?u l"
  have all: "{..<length P div 8} \<subseteq> ?S" using cover by fastforce
  then have "\<forall>k < length P div 8. checked P k \<longrightarrow> k \<in> ?S" by auto
  with uip_reass_step [OF h(1,2) P(2), unfolded e(4)] h(3,4)
  obtain v where v: "reass_state P ?S True v" "held_ident (uip_reassbuf v) = idn" "length (uip_buf v) = 422"
      "uip_reass ?t = res_bind (reass_done v) (\<lambda>s'. Inr (s', ucast (uip_reasslen s')))" by auto
  from reass_done_spec [OF v(1) all P(1,2) v(3)] v(2)
  obtain s' where s': "reass_done v = Inr s'" "uip_reasstmr s' = 0" "uip_reasslen s' = of_nat (length P)" "ip_total_len s' = of_nat (length P)"
      "buf8 s' o_ipoffset = 0" "buf8 s' (o_ipoffset + 1) = 0" "uip_ipchksum s' = 0xffff" "ident s' = idn"
      "take (length P - 20) (drop 34 (uip_buf s')) = take (length P - 20) P" by auto
  have n: "(ucast (of_nat (length P) :: u16) :: u8) = of_nat (length P)" by (simp add: word_unat_eq_iff unsigned_ucast_eq unat_of_nat take_bit_eq_mod mod_mod_cancel)
  have "length P mod 256 \<noteq> 0" using P by (auto simp: mod_if)
  then have "(of_nat (length P) :: u8) \<noteq> 0" by (simp add: word_unat_eq_iff unat_of_nat)
  then have "reass_run (bs @ [l]) s = Inr (s', of_nat (length P))" using t(1) v(4) s'(1,3) n by simp
  then show ?thesis using s' by blast
qed

text \<open>A fragment of a packet from 10.0.2.2 to 10.0.2.15, and the variables before the first.\<close>

definition ip_fragment :: "nat \<Rightarrow> bool \<Rightarrow> bytes \<Rightarrow> bytes" where
  "ip_fragment a mf d = replicate 14 0 @
     [0x45, 0, of_nat ((20 + length d) div 256), of_nat (20 + length d), 0, 7,
      (if mf then IP_MF else 0) OR of_nat (a div 8 div 256), of_nat (a div 8), 64, 17, 0, 0, 10, 0, 2, 2, 10, 0, 2, 15] @
     d @ replicate (388 - length d) 0"

definition reass_bss :: reass_uip where
  "reass_bss = uip_bss (reass_uip.fields (replicate UIP_REASS_BUFSIZE 0) (replicate 6 0) 0 0 0)"

theorem fragments_reassembled_witness:
  "\<exists>s'. reass_run [ip_fragment 16 True (map of_nat [16..<32]), ip_fragment 0 True (map of_nat [0..<16]), ip_fragment 32 False (map of_nat [32..<44])]
      reass_bss = Inr (s', 44) \<and> take 24 (drop 34 (uip_buf s')) = map of_nat [0..<24]"
proof -
  let ?P = "map of_nat [0..<44] :: bytes"
  let ?bs = "[ip_fragment 16 True (map of_nat [16..<32]), ip_fragment 0 True (map of_nat [0..<16])]" and ?l = "ip_fragment 32 False (map of_nat [32..<44])"
  let ?i = "((0x0a, 0x202), (0x0a, 0xf02), 0, 7) :: ip4addr \<times> ip4addr \<times> u8 \<times> u8"
  have s: "uip_reasstmr reass_bss = 0" "length (uip_reassbuf reass_bss) = UIP_REASS_BUFSIZE" "length (uip_reassbitmap reass_bss) = 6"
    by (simp_all add: reass_bss_def uip_bss_def reass_uip.fields_def)
  have "list_all (\<lambda>b. fragment ?P (reass_bss\<lparr>uip_buf := b\<rparr>) \<and> ident (reass_bss\<lparr>uip_buf := b\<rparr>) = ?i) (?bs @ [?l])" by code_simp
  then have f: "\<And>b. b \<in> set (?bs @ [?l]) \<Longrightarrow> fragment ?P (reass_bss\<lparr>uip_buf := b\<rparr>) \<and> ident (reass_bss\<lparr>uip_buf := b\<rparr>) = ?i"
    unfolding list_all_iff by blast
  have "list_all (\<lambda>b. \<not> last_frag (reass_bss\<lparr>uip_buf := b\<rparr>)) ?bs" by code_simp
  then have m: "\<And>b. b \<in> set ?bs \<Longrightarrow> \<not> last_frag (reass_bss\<lparr>uip_buf := b\<rparr>)" unfolding list_all_iff by blast
  have l: "last_frag (reass_bss\<lparr>uip_buf := ?l\<rparr>)" by code_simp
  have "list_all (\<lambda>k. list_ex (\<lambda>b. k \<in> frag_units (reass_bss\<lparr>uip_buf := b\<rparr>)) (?bs @ [?l])) [0..<5]" by code_simp
  then have "\<And>k. k < length ?P div 8 \<Longrightarrow> \<exists>b \<in> set (?bs @ [?l]). k \<in> frag_units (reass_bss\<lparr>uip_buf := b\<rparr>)"
    unfolding list_all_iff list_ex_iff by simp
  from fragments_reassembled [OF s _ _ _ f m l this] show ?thesis by (auto simp: take_map)
qed

text \<open>
  The check at the end leaves out the last byte but one of the bitmap: of a payload of 136 bytes the middle 64 never arrive, and the packet is complete.
\<close>

lemma reass_hole:
  "\<exists>s'. reass_run [ip_fragment 0 True (replicate 64 1), ip_fragment 128 False (replicate 8 1)] reass_bss = Inr (s', 136) \<and>
    take 64 (drop 98 (uip_buf s')) = replicate 64 0"
proof -
  have "case reass_run [ip_fragment 0 True (replicate 64 1), ip_fragment 128 False (replicate 8 1)] reass_bss of
    Inr (s', n) \<Rightarrow> n = 136 \<and> take 64 (drop 98 (uip_buf s')) = replicate 64 0 | _ \<Rightarrow> False"
    by code_simp
  then show ?thesis by (auto split: sum.splits)
qed

end
