(* ===== verification/Boot.thy ===== *)
theory Boot
  imports Sys_Net_Props
begin

text \<open>
  \<^verbatim>\<open>earth/boot.c\<close>: what a core does when it starts. The initialisers other than \<^verbatim>\<open>net_init()\<close> are outside the repository and are arguments, functions
  on the part of the machine they see that may stop in \<^verbatim>\<open>FATAL\<close>. Messages for the console are left out. From there to the start of the network service.
\<close>

record 'm boot_ops =
  tty_init :: "'m \<Rightarrow> 'm res"
  disk_init :: "'m \<Rightarrow> 'm res"
  mmu_init :: "'m \<Rightarrow> 'm res"
  timer_init :: "u32 \<Rightarrow> 'm \<Rightarrow> 'm res"
  intr_init :: "u32 \<Rightarrow> 'm \<Rightarrow> 'm res"
  grass_entry :: "u32 \<Rightarrow> 'm \<Rightarrow> 'm res"

record ('h, 'm) machine =
  booted_core_cnt :: int
  eth :: "'h e1000"
  rest_of :: 'm

definition on_rest :: "('m \<Rightarrow> 'm res) \<Rightarrow> ('h, 'm) machine \<Rightarrow> ('h, 'm) machine res" where
  "on_rest f s = res_bind (f (rest_of s)) (\<lambda>m. Inr (s\<lparr>rest_of := m\<rparr>))"

definition on_eth :: "('h e1000 \<Rightarrow> 'h e1000 res) \<Rightarrow> ('h, 'm) machine \<Rightarrow> ('h, 'm) machine res" where
  "on_eth f s = res_bind (f (eth s)) (\<lambda>d. Inr (s\<lparr>eth := d\<rparr>))"

definition boot :: "'m boot_ops \<Rightarrow> 'h nic \<Rightarrow> (u32 \<Rightarrow> u32 \<Rightarrow> u32) \<Rightarrow> u32 \<Rightarrow> ('h, 'm) machine \<Rightarrow> ('h, 'm) machine res" where
  "boot ops dev keeps core_id s =
     (let cnt = booted_core_cnt s; s = s\<lparr>booted_core_cnt := cnt + 1\<rparr> in
      if cnt = 0
      then res_bind (on_rest (tty_init ops) s) (\<lambda>s.
           res_bind (on_rest (disk_init ops) s) (\<lambda>s.
           res_bind (on_eth (net_init dev keeps) s) (\<lambda>s.
           res_bind (on_rest (mmu_init ops) s) (\<lambda>s.
           res_bind (on_rest (timer_init ops core_id) s) (\<lambda>s.
           res_bind (on_rest (intr_init ops core_id) s) (\<lambda>s.
             on_rest (grass_entry ops core_id) s))))))
      else Inr s)"

text \<open>The cores, which start one after the other.\<close>

fun boot_cores :: "'m boot_ops \<Rightarrow> 'h nic \<Rightarrow> (u32 \<Rightarrow> u32 \<Rightarrow> u32) \<Rightarrow> u32 list \<Rightarrow> ('h, 'm) machine \<Rightarrow> ('h, 'm) machine res" where
  "boot_cores ops dev keeps [] s = Inr s"
| "boot_cores ops dev keeps (c # cs) s = res_bind (boot ops dev keeps c s) (boot_cores ops dev keeps cs)"

text \<open>The initialisation of everything but the network, by core \<open>c\<close>, without the driver between the devices and the memory.\<close>

definition init_rest :: "'m boot_ops \<Rightarrow> u32 \<Rightarrow> 'm \<Rightarrow> 'm res" where
  "init_rest ops c m = res_bind (res_bind (tty_init ops m) (disk_init ops)) (\<lambda>m.
     res_bind (res_bind (res_bind (mmu_init ops m) (timer_init ops c)) (intr_init ops c)) (grass_entry ops c))"

lemma boot_later: "booted_core_cnt s \<noteq> 0 \<Longrightarrow> boot ops dev keeps c s = Inr (s\<lparr>booted_core_cnt := booted_core_cnt s + 1\<rparr>)"
  by (simp add: boot_def)

lemma boot_cores_later:
  "0 < booted_core_cnt s \<Longrightarrow> boot_cores ops dev keeps cs s = Inr (s\<lparr>booted_core_cnt := booted_core_cnt s + int (length cs)\<rparr>)"
  by (induction cs arbitrary: s) (simp_all add: boot_later add.assoc)

lemma boot_first:
  assumes "booted_core_cnt s = 0" and "init_rest ops c (rest_of s) = Inr m" and "net_init dev keeps (eth s) = Inr d"
  shows "boot ops dev keeps c s = Inr (s\<lparr>booted_core_cnt := 1, eth := d, rest_of := m\<rparr>)"
  using assms by (auto simp: boot_def on_rest_def on_eth_def init_rest_def elim!: res_bind_InrE)

text \<open>
  Whatever the number of cores and their order, the first one initialises everything, once, and the others only count themselves. The network driver is then ready:
  its functions are published and its rings empty, whatever the device does meanwhile.
\<close>

lemma boot_ready:
  assumes s: "booted_core_cnt s = 0" "init_rest ops c (rest_of s) = Inr m" "bufs_wf (eth s)"
    and dev: "ucast (pci_cfg (eth s) 0) = (0x8086 :: u16)" "ucast (drop_bit 16 (pci_cfg (eth s) 0)) = (0x100e :: u16)"
      "keeps 0x10 0x41000000 AND NOT 0xf \<noteq> 0"
  shows "\<exists>d. boot_cores ops dev keeps (c # cs) s = Inr (s\<lparr>booted_core_cnt := 1 + int (length cs), eth := d, rest_of := m\<rparr>) \<and>
    earth_net_set d \<and> tx_inv d \<and> tx_pending d = []"
proof -
  obtain d where d: "net_init dev keeps (eth s) = Inr d" "earth_net_set d" "tx_inv d" "tx_pending d = []"
    by (rule net_init_device [where keeps = keeps, OF s(3) dev])
  then show ?thesis
    using boot_first [OF s(1,2) d(1)] boot_cores_later [of "s\<lparr>booted_core_cnt := 1, eth := d, rest_of := m\<rparr>" ops dev keeps cs]
    by (intro exI [of _ d]) simp
qed

text \<open>
  C27: after the boot, by any number of cores in any order, on a machine with the expected network device, the start of the network service finds an initialised
  driver and leaves a well formed state: no frame waits to be sent, every connection is closed, no port is listened on, the address cache is empty, the addresses are
  configured, and the process server has been told.
\<close>

theorem service_ready_after_boot:
  assumes s: "booted_core_cnt s = 0" "init_rest ops c (rest_of s) = Inr m" "bufs_wf (eth s)"
    and dev: "ucast (pci_cfg (eth s) 0) = (0x8086 :: u16)" "ucast (drop_bit 16 (pci_cfg (eth s) 0)) = (0x100e :: u16)"
      "keeps 0x10 0x41000000 AND NOT 0xf \<noteq> 0"
    and n: "net_inv (\<lambda>_. True) n"
  shows "\<exists>d. boot_cores ops dev keeps (c # cs) s = Inr (s\<lparr>booted_core_cnt := 1 + int (length cs), eth := d, rest_of := m\<rparr>) \<and>
    (let t = sys_net_init (n\<lparr>nic := d\<rparr>) in
       net_inv tx_inv t \<and> tx_pending (nic t) = [] \<and> earth_net_set (nic t) \<and>
       list_all (\<lambda>c. tcpstateflags c = UIP_CLOSED) (uip_conns (stack t)) \<and> list_all (\<lambda>p. p = 0) (uip_listenports (stack t)) \<and>
       (\<forall>ip. ip \<noteq> (0, 0) \<longrightarrow> arp_lookup (arp_mod t) ip = None) \<and>
       net_config (stack t) = (uip_ipaddr 10 0 2 15, uip_ipaddr 10 0 2 2, uip_ipaddr 255 255 255 0, [0x52, 0x54, 0, 0, 0, 1]) \<and>
       outbox t = outbox n @ [(GPID_PROCESS, Announce)])"
proof -
  obtain d where d: "boot_cores ops dev keeps (c # cs) s = Inr (s\<lparr>booted_core_cnt := 1 + int (length cs), eth := d, rest_of := m\<rparr>)"
      "earth_net_set d" "tx_inv d" "tx_pending d = []"
    using boot_ready [where keeps = keeps and cs = cs, OF s dev] by blast
  have "net_inv tx_inv (n\<lparr>nic := d\<rparr>)" using n d(3) by (simp add: net_inv_def)
  from sys_net_init_ready [OF this] show ?thesis
    using d by (intro exI [of _ d]) (simp add: Let_def sys_net_init_def)
qed

definition quiet_ops :: "unit boot_ops" where
  "quiet_ops = \<lparr>tty_init = Inr, disk_init = Inr, mmu_init = Inr, timer_init = (\<lambda>_. Inr), intr_init = (\<lambda>_. Inr), grass_entry = (\<lambda>_. Inr)\<rparr>"

theorem service_ready_after_boot_witness:
  "\<exists>d. boot_cores quiet_ops idle_dev (\<lambda>_ v. v) [0, 2, 1] \<lparr>booted_core_cnt = 0, eth = e1000_bss, rest_of = ()\<rparr> =
      Inr \<lparr>booted_core_cnt = 3, eth = d, rest_of = ()\<rparr> \<and>
    net_inv tx_inv (sys_net_init (service_bss\<lparr>nic := d\<rparr>))"
proof -
  let ?s = "\<lparr>booted_core_cnt = 0, eth = e1000_bss, rest_of = ()\<rparr>"
  have h: "booted_core_cnt ?s = 0" "init_rest quiet_ops 0 (rest_of ?s) = Inr ()" "bufs_wf (eth ?s)"
      "ucast (pci_cfg (eth ?s) 0) = (0x8086 :: u16)" "ucast (drop_bit 16 (pci_cfg (eth ?s) 0)) = (0x100e :: u16)"
      "(0x41000000 :: u32) AND NOT 0xf \<noteq> 0"
    by (simp_all add: init_rest_def quiet_ops_def bufs_wf_def e1000_bss_def list_all_length)
  have n: "net_inv (\<lambda>_. True) service_bss" using service_bss_inv by (simp add: net_inv_def)
  from service_ready_after_boot [where keeps = "\<lambda>_ v. v", OF h n, of idle_dev "[2, 1]"] show ?thesis by (auto simp: Let_def)
qed

end
