(* ===== verification/Mem_Vm.thy ===== *)
theory Mem_Vm
  imports Prelude
begin

text \<open>
  \<^verbatim>\<open>earth/mem_vm.c\<close>: the Sv32 page tables of the processes. Physical memory is a map from byte addresses
  to the 32-bit words that lie there, and pointers into page tables are addresses. The page allocator,
  \<^verbatim>\<open>pmalloc()\<close> and \<^verbatim>\<open>pfree()\<close> of \<^verbatim>\<open>mem_alloc.c\<close>, is not part of the repository: it is an argument of the
  definitions that call it, and \<open>page_allocator\<close> states what the code relies on. The lemmas refine the tables to
  maps from virtual to physical page numbers, and relate them to the translation that the RISC-V
  privileged architecture prescribes for the \<^verbatim>\<open>satp\<close> register.
\<close>

section \<open>Data\<close>

abbreviation (input) MAX_NPROCESS :: int where "MAX_NPROCESS \<equiv> 16"
abbreviation (input) GPID_USER_START :: int where "GPID_USER_START \<equiv> 6"
abbreviation (input) USER_PID_START :: int where "USER_PID_START \<equiv> GPID_USER_START"

abbreviation (input) PAGE_SIZE :: u32 where "PAGE_SIZE \<equiv> 4096"
abbreviation (input) RAM_END :: u32 where "RAM_END \<equiv> 0x80800000"
abbreviation (input) APPS_PAGES_BASE :: u32 where "APPS_PAGES_BASE \<equiv> 0x80400000"
abbreviation (input) SHELL_WORK_DIR :: u32 where "SHELL_WORK_DIR \<equiv> 0x80302000"
abbreviation (input) RAM_START :: u32 where "RAM_START \<equiv> 0x80000000"
abbreviation (input) SDHCI_BASE :: u32 where "SDHCI_BASE \<equiv> 0x40000000"
abbreviation (input) ETH_CTL_BASE :: u32 where "ETH_CTL_BASE \<equiv> 0x41000000"
abbreviation (input) UART_BASE :: u32 where "UART_BASE \<equiv> 0x10000000"
abbreviation (input) CLINT_BASE :: u32 where "CLINT_BASE \<equiv> 0x02000000"
abbreviation (input) FLASH_ROM_BASE :: u32 where "FLASH_ROM_BASE \<equiv> 0x22000000"

abbreviation (input) FLAG_NEXT_LEVEL :: u32 where "FLAG_NEXT_LEVEL \<equiv> 0x1"
abbreviation (input) PTE_V :: u32 where "PTE_V \<equiv> 0x001"
abbreviation (input) PTE_R :: u32 where "PTE_R \<equiv> 0x002"
abbreviation (input) PTE_W :: u32 where "PTE_W \<equiv> 0x004"
abbreviation (input) PTE_X :: u32 where "PTE_X \<equiv> 0x008"
abbreviation (input) PTE_U :: u32 where "PTE_U \<equiv> 0x010"
abbreviation (input) PTE_A :: u32 where "PTE_A \<equiv> 0x040"
abbreviation (input) PTE_D :: u32 where "PTE_D \<equiv> 0x080"

definition LEAF_FLAG :: u32 where
  "LEAF_FLAG = PTE_V OR PTE_R OR PTE_W OR PTE_X OR PTE_U OR PTE_A OR PTE_D"

type_synonym vmem = "u32 \<Rightarrow> u32"

text \<open>The allocator's interface; \<open>'a\<close> is its state.\<close>

record 'a page_ops =
  pmalloc :: "int \<Rightarrow> 'a \<Rightarrow> vmem \<Rightarrow> u32 \<times> 'a \<times> vmem"
  pfree :: "u32 \<Rightarrow> 'a \<Rightarrow> vmem \<Rightarrow> 'a \<times> vmem"
  num_free_pages :: "'a \<Rightarrow> nat"

text \<open>The privileged instructions of the file, in the order in which they are executed.\<close>

datatype csr_insn = Sfence_vma | Csrw_satp u32 | Csrw_pmpaddr0 u32 | Csrw_pmpcfg0 u32

record 'a vm =
  vm_mem :: vmem
  pid_to_pagetable_base :: "u32 list"
  vm_alloc :: 'a
  vm_trace :: "csr_insn list"
  earth_mmu_set :: bool

section \<open>Page tables\<close>

text \<open>The address of element \<open>i\<close> of an array of \<^verbatim>\<open>uint\<close> at \<open>p\<close>.\<close>

definition elt :: "u32 \<Rightarrow> u32 \<Rightarrow> u32" where
  "elt p i = p + 4 * i"

definition load :: "u32 \<Rightarrow> u32 \<Rightarrow> 'a vm \<Rightarrow> u32" where
  "load p i s = vm_mem s (elt p i)"

definition store :: "u32 \<Rightarrow> u32 \<Rightarrow> u32 \<Rightarrow> 'a vm \<Rightarrow> 'a vm" where
  "store p i v s = s\<lparr>vm_mem := (vm_mem s)(elt p i := v)\<rparr>"

definition call_pmalloc :: "'a page_ops \<Rightarrow> int \<Rightarrow> 'a vm \<Rightarrow> u32 \<times> 'a vm" where
  "call_pmalloc ops clear_page s =
     (let (p, a, m) = pmalloc ops clear_page (vm_alloc s) (vm_mem s) in (p, s\<lparr>vm_alloc := a, vm_mem := m\<rparr>))"

definition call_pfree :: "'a page_ops \<Rightarrow> u32 \<Rightarrow> 'a vm \<Rightarrow> 'a vm" where
  "call_pfree ops p s =
     (let (a, m) = pfree ops p (vm_alloc s) (vm_mem s) in s\<lparr>vm_alloc := a, vm_mem := m\<rparr>)"

definition fence :: "'a vm \<Rightarrow> 'a vm" where
  "fence s = s\<lparr>vm_trace := vm_trace s @ [Sfence_vma]\<rparr>"

text \<open>\<^verbatim>\<open>pid_to_pagetable_base[pid]\<close>, after the callers' checks of \<^verbatim>\<open>pid\<close>.\<close>

definition pagetable_base :: "int \<Rightarrow> 'a vm \<Rightarrow> u32" where
  "pagetable_base pid s = pid_to_pagetable_base s ! nat pid"

definition next_table :: "u32 \<Rightarrow> u32" where
  "next_table pte = push_bit 2 pte AND NOT 0xfff"

text \<open>
  The loop of \<^verbatim>\<open>setup_identity_region()\<close>, which writes the entries from index \<^verbatim>\<open>l2_idx + i\<close> on until
  \<^verbatim>\<open>i\<close> reaches \<^verbatim>\<open>npages\<close>; the comparison of the unsigned \<^verbatim>\<open>i\<close> with the signed \<^verbatim>\<open>npages\<close> is one of unsigned numbers.
\<close>

fun identity_ptes :: "u32 \<Rightarrow> u32 \<Rightarrow> u32 \<Rightarrow> u32 \<Rightarrow> nat list \<Rightarrow> 'a vm \<Rightarrow> 'a vm res" where
  "identity_ptes l2_pa l2_idx addr flag [] s = Inr s"
| "identity_ptes l2_pa l2_idx addr flag (i # is) s =
     (if load l2_pa (l2_idx + of_nat i) s \<noteq> 0 then Inl Fatal
      else identity_ptes l2_pa l2_idx addr flag is
             (store l2_pa (l2_idx + of_nat i) (drop_bit 2 (addr + of_nat i * PAGE_SIZE) OR flag) s))"

definition setup_identity_region :: "'a page_ops \<Rightarrow> int \<Rightarrow> u32 \<Rightarrow> int \<Rightarrow> u32 \<Rightarrow> 'a vm \<Rightarrow> 'a vm res" where
  "setup_identity_region ops pid addr npages flag s =
     (if \<not> npages \<le> 1024 then Inl Fatal
      else if addr AND 0xFFF \<noteq> 0 then Inl Fatal
      else let root = pagetable_base pid s
       in if root = 0 then Inl Fatal
          else let l1_idx = drop_bit 22 addr
           in res_bind
                (if load root l1_idx s = 0
                 then let (l2_pa, s) = call_pmalloc ops 1 s;
                          ppn = drop_bit 12 l2_pa
                      in Inr (l2_pa, store root l1_idx (push_bit 10 ppn OR FLAG_NEXT_LEVEL) s)
                 else if load root l1_idx s AND FLAG_NEXT_LEVEL = 0 then Inl Fatal
                 else Inr (next_table (load root l1_idx s), s))
                (\<lambda>(l2_pa, s). identity_ptes l2_pa (drop_bit 12 addr AND 0x3FF) addr flag
                    [0..<unat (word_of_int npages :: u32)] s))"

definition walk :: "'a page_ops \<Rightarrow> u32 \<Rightarrow> u32 \<Rightarrow> int \<Rightarrow> 'a vm \<Rightarrow> (u32 \<times> 'a vm) res" where
  "walk ops root va alloc s =
     (if root = 0 then Inl Fatal
      else let l1_idx = drop_bit 22 va
       in res_bind
            (if load root l1_idx s = 0
             then if alloc \<noteq> 0
                  then let (l2_pa, s) = call_pmalloc ops 1 s;
                           ppn = drop_bit 12 l2_pa
                       in Inr (store root l1_idx (push_bit 10 ppn OR FLAG_NEXT_LEVEL) s)
                  else Inl Fatal
             else Inr s)
            (\<lambda>s. if load root l1_idx s AND FLAG_NEXT_LEVEL = 0 then Inl Fatal
                 else let l2_pa = next_table (load root l1_idx s);
                          l2_idx = drop_bit 12 va AND 0x3FF
                      in Inr (elt l2_pa l2_idx, s)))"

section \<open>Operations\<close>

fun setup_regions :: "'a page_ops \<Rightarrow> int \<Rightarrow> (u32 \<times> int) list \<Rightarrow> 'a vm \<Rightarrow> 'a vm res" where
  "setup_regions ops pid [] s = Inr s"
| "setup_regions ops pid ((addr, npages) # rs) s =
     res_bind (setup_identity_region ops pid addr npages LEAF_FLAG s) (setup_regions ops pid rs)"

definition initial_regions :: "int \<Rightarrow> (u32 \<times> int) list" where
  "initial_regions pid =
     (if pid < USER_PID_START
      then [(RAM_START, 512), (APPS_PAGES_BASE, 1024), (CLINT_BASE, 16), (UART_BASE, 1), (SDHCI_BASE, 1),
            (ETH_CTL_BASE, 32), (FLASH_ROM_BASE, 1024), (SHELL_WORK_DIR, 1)]
      else [(SHELL_WORK_DIR, 1)])"

definition page_table_map :: "'a page_ops \<Rightarrow> int \<Rightarrow> u32 \<Rightarrow> u32 \<Rightarrow> 'a vm \<Rightarrow> 'a vm res" where
  "page_table_map ops pid vpage_no ppage_id s =
     (if \<not> (pid > 0 \<and> pid \<le> MAX_NPROCESS) then Inl Fatal
      else let va = vpage_no * PAGE_SIZE;
               pa = ppage_id * PAGE_SIZE + APPS_PAGES_BASE;
               root = pagetable_base pid s
       in res_bind
            (if root = 0
             then let (root, s) = call_pmalloc ops 1 s;
                      s = s\<lparr>pid_to_pagetable_base := (pid_to_pagetable_base s)[nat pid := root]\<rparr>
                  in res_bind (setup_regions ops pid (initial_regions pid) s) (\<lambda>s. Inr (root, s))
             else Inr (root, s))
            (\<lambda>(root, s). res_bind (walk ops root va 1 s) (\<lambda>(l2_pte, s).
               if vm_mem s l2_pte \<noteq> 0 then Inl Fatal
               else Inr (s\<lparr>vm_mem := (vm_mem s)(l2_pte := drop_bit 2 pa OR LEAF_FLAG)\<rparr>))))"

definition satp_value :: "u32 \<Rightarrow> u32" where
  "satp_value root = push_bit 31 1 OR drop_bit 12 root"

definition page_table_switch :: "int \<Rightarrow> 'a vm \<Rightarrow> 'a vm res" where
  "page_table_switch pid s =
     (if \<not> (pid > 0 \<and> pid \<le> MAX_NPROCESS) then Inl Fatal
      else let s = fence s;
               root = pagetable_base pid s
       in if root = 0 then Inl Fatal
          else let satp = satp_value root;
                   s = s\<lparr>vm_trace := vm_trace s @ [Csrw_satp satp]\<rparr>
               in Inr (fence s))"

definition page_table_translate :: "'a page_ops \<Rightarrow> int \<Rightarrow> u32 \<Rightarrow> 'a vm \<Rightarrow> (u32 \<times> 'a vm) res" where
  "page_table_translate ops pid va s =
     (if \<not> (pid > 0 \<and> pid \<le> MAX_NPROCESS) then Inl Fatal
      else let root = pagetable_base pid s
       in if root = 0 then Inl Fatal
          else res_bind (walk ops root va 0 s) (\<lambda>(l2_pte, s).
            if vm_mem s l2_pte AND PTE_V = 0 then Inl Fatal
            else let pa_base = push_bit 2 (vm_mem s l2_pte) AND NOT 0xFFF
                 in Inr (pa_base OR (va AND 0xFFF), s)))"

definition free_l2_entry :: "'a page_ops \<Rightarrow> u32 \<Rightarrow> u32 \<Rightarrow> nat \<Rightarrow> 'a vm \<Rightarrow> 'a vm" where
  "free_l2_entry ops l1_idx l2_pa i s =
     (let l2_idx = of_nat i; l2_pte = load l2_pa l2_idx s
      in if l2_pte AND PTE_V = 0 then s
         else let pa = push_bit 2 l2_pte AND NOT 0xFFF;
                  va = push_bit 22 l1_idx OR push_bit 12 l2_idx
              in if pa \<noteq> va \<and> pa \<ge> APPS_PAGES_BASE \<and> pa < RAM_END then call_pfree ops pa s else s)"

definition free_l1_entry :: "'a page_ops \<Rightarrow> u32 \<Rightarrow> nat \<Rightarrow> 'a vm \<Rightarrow> 'a vm" where
  "free_l1_entry ops root i s =
     (let l1_idx = of_nat i; l1_pte = load root l1_idx s
      in if l1_pte AND PTE_V = 0 then s
         else let l2_pa = next_table l1_pte
              in call_pfree ops l2_pa (fold (free_l2_entry ops l1_idx l2_pa) [0..<1024] s))"

definition page_table_free :: "'a page_ops \<Rightarrow> int \<Rightarrow> 'a vm \<Rightarrow> 'a vm res" where
  "page_table_free ops pid s =
     (if \<not> (pid > 0 \<and> pid \<le> MAX_NPROCESS) then Inl Fatal
      else let root = pagetable_base pid s
       in if root = 0 then Inr s
          else let s = fold (free_l1_entry ops root) [0..<1024] s;
                   s = call_pfree ops root s
               in Inr (s\<lparr>pid_to_pagetable_base := (pid_to_pagetable_base s)[nat pid := 0]\<rparr>))"

definition vm_init :: "'a vm \<Rightarrow> 'a vm" where
  "vm_init s = s\<lparr>vm_trace := vm_trace s @ [Csrw_pmpaddr0 (NOT 0), Csrw_pmpcfg0 (push_bit 3 1 OR 7)],
     earth_mmu_set := True\<rparr>"

section \<open>Page numbers and entries\<close>

type_synonym pageno = "20 word"

definition page_addr :: "pageno \<Rightarrow> u32" where
  "page_addr q = push_bit 12 (ucast q)"

definition frame_of :: "u32 \<Rightarrow> pageno" where
  "frame_of a = ucast (drop_bit 12 a)"

definition pte_table :: "pageno \<Rightarrow> u32" where
  "pte_table q = push_bit 10 (ucast q) OR FLAG_NEXT_LEVEL"

definition pte_leaf :: "pageno \<Rightarrow> u32" where
  "pte_leaf p = push_bit 10 (ucast p) OR LEAF_FLAG"

lemma mask12: "(0xfff :: u32) = mask 12" by (simp add: mask_eq_exp_minus_1)

lemma bit_leaf_flag: "bit LEAF_FLAG n \<longleftrightarrow> n < 8 \<and> n \<noteq> 5"
proof (cases "n < 8")
  case True
  then have "n = 0 \<or> n = 1 \<or> n = 2 \<or> n = 3 \<or> n = 4 \<or> n = 5 \<or> n = 6 \<or> n = 7" by arith
  then show ?thesis by (auto simp: LEAF_FLAG_def)
next
  case False
  have "LEAF_FLAG = take_bit 8 LEAF_FLAG" by (simp add: LEAF_FLAG_def)
  then show ?thesis using False by (metis bit_take_bit_iff)
qed

lemma bit_pageno: "bit (q :: pageno) k \<Longrightarrow> k < 20"
  using bit_imp_le_length [of q k] by simp

lemma bit_4: "bit (4 :: int) n \<longleftrightarrow> n = 2"
proof -
  have "(4 :: int) = 2 ^ 2" by simp
  then show ?thesis by (simp only: bit_exp_iff) (auto simp: possible_bit_def)
qed

lemma frame_of_page_addr [simp]: "frame_of (page_addr q) = q"
  by (rule bit_word_eqI) (auto simp: frame_of_def page_addr_def bit_simps)

lemma page_addr_inject [simp]: "page_addr p = page_addr q \<longleftrightarrow> p = q"
  by (metis frame_of_page_addr)

lemma page_addr_eq_0 [simp]: "page_addr q = 0 \<longleftrightarrow> q = 0"
  using page_addr_inject [of q 0] by (simp add: page_addr_def)

lemma unat_page_addr: "unat (page_addr q) = 4096 * unat q"
proof -
  have "unat q < 2 ^ 20" using unsigned_less [of q] by simp
  then show ?thesis
    by (simp add: page_addr_def push_bit_eq_mult unat_word_ariths unsigned_ucast_eq take_bit_eq_mod)
qed

lemma pte_table_page: "push_bit 10 (drop_bit 12 (page_addr q)) OR FLAG_NEXT_LEVEL = pte_table q"
  by (rule bit_word_eqI) (auto simp: page_addr_def pte_table_def bit_simps bit_4 dest: bit_pageno)

lemma next_table_pte [simp]: "next_table (pte_table q) = page_addr q"
  unfolding next_table_def mask12
  by (rule bit_word_eqI) (auto simp: page_addr_def pte_table_def bit_simps bit_4 dest: bit_pageno)

lemma pte_table_valid [simp]: "pte_table q AND 1 \<noteq> 0" "pte_table q \<noteq> 0"
proof -
  have "bit (pte_table q) 0" by (simp add: pte_table_def bit_simps)
  then show "pte_table q AND 1 \<noteq> 0" "pte_table q \<noteq> 0"
    by (auto simp: and_one_eq odd_iff_mod_2_eq_one[symmetric] bit_0)
qed

lemma pte_leaf_valid [simp]: "pte_leaf q AND 1 \<noteq> 0" "pte_leaf q \<noteq> 0"
proof -
  have "bit (pte_leaf q) 0" by (simp add: pte_leaf_def bit_simps bit_leaf_flag)
  then show "pte_leaf q AND 1 \<noteq> 0" "pte_leaf q \<noteq> 0"
    by (auto simp: and_one_eq odd_iff_mod_2_eq_one[symmetric] bit_0)
qed

lemma pte_leaf_base: "push_bit 2 (pte_leaf p) AND NOT 0xFFF = page_addr p"
  unfolding mask12
  by (rule bit_word_eqI) (auto simp: page_addr_def pte_leaf_def bit_simps bit_leaf_flag)

lemma pte_leaf_page: "drop_bit 2 (page_addr p) OR LEAF_FLAG = pte_leaf p"
  by (rule bit_word_eqI) (auto simp: page_addr_def pte_leaf_def bit_simps dest: bit_pageno)

lemma pte_table_inject [simp]: "pte_table p = pte_table q \<longleftrightarrow> p = q"
  by (metis next_table_pte page_addr_inject)

lemma pte_leaf_inject [simp]: "pte_leaf p = pte_leaf q \<longleftrightarrow> p = q"
  by (metis pte_leaf_base page_addr_inject)

lemma unat_elt:
  assumes "unat i < 1024"
  shows "unat (elt (page_addr q) i) = 4096 * unat q + 4 * unat i"
proof -
  have q: "unat q < 2 ^ 20" using unsigned_less [of q] by simp
  have "4096 * unat q + 4 * unat i < 2 ^ 32" using q assms by simp
  then show ?thesis
    by (simp add: elt_def unat_word_ariths unat_page_addr)
qed

lemma frame_of_elt [simp]:
  assumes "unat i < 1024"
  shows "frame_of (elt (page_addr q) i) = q"
proof (rule unsigned_word_eqI)
  have q: "unat q < 2 ^ 20" using unsigned_less [of q] by simp
  have "unat (frame_of (elt (page_addr q) i)) = (4096 * unat q + 4 * unat i) div 4096 mod 2 ^ 20"
    using assms by (simp add: frame_of_def unsigned_ucast_eq unat_drop_bit_eq drop_bit_nat_def take_bit_eq_mod unat_elt)
  also have "(4096 * unat q + 4 * unat i) div 4096 = unat q" using assms by simp
  finally show "unat (frame_of (elt (page_addr q) i)) = unat q" using q by simp
qed

lemma elt_inject [simp]:
  assumes "unat i < 1024" and "unat j < 1024"
  shows "elt (page_addr p) i = elt (page_addr q) j \<longleftrightarrow> p = q \<and> i = j"
proof
  assume e: "elt (page_addr p) i = elt (page_addr q) j"
  then have "p = q" using frame_of_elt assms by metis
  moreover have "unat i = unat j" using e assms unat_elt \<open>p = q\<close> by (metis add_left_cancel mult_cancel1 zero_neq_numeral)
  ultimately show "p = q \<and> i = j" by (simp add: word_unat_eq_iff)
qed simp

lemma l1_bound [simp]: "unat (drop_bit 22 (va :: u32)) < 1024"
proof -
  have "unat va < 2 ^ 32" using unsigned_less [of va] by simp
  then show ?thesis by (simp add: unat_drop_bit_eq drop_bit_nat_def)
qed

lemma l2_bound [simp]: "unat (w AND 0x3FF :: u32) < 1024"
proof -
  have "w AND 0x3FF = take_bit 10 w" by (simp add: take_bit_eq_mask mask_eq_exp_minus_1)
  then have "unat (w AND 0x3FF) = unat w mod 1024"
    by (simp only: unsigned_take_bit_eq) (simp add: take_bit_eq_mod)
  then show ?thesis by simp
qed

section \<open>What the code relies on, and what it keeps\<close>

text \<open>
  The page allocator's contract: \<open>ok\<close> holds of its states, \<open>taken\<close> are the numbers of the pages it has handed out.
  While pages are free, \<^verbatim>\<open>pmalloc(1)\<close> hands out a fresh one, filled with zeros, and leaves the contents of the others
  alone; \<^verbatim>\<open>pfree()\<close> of a page that was handed out takes it back, and leaves the contents of the others alone.
\<close>

definition page_allocator :: "'a page_ops \<Rightarrow> ('a \<Rightarrow> bool) \<Rightarrow> ('a \<Rightarrow> pageno set) \<Rightarrow> bool" where
  "page_allocator ops ok taken \<longleftrightarrow>
     (\<forall>a m p a' m'. ok a \<longrightarrow> 0 < num_free_pages ops a \<longrightarrow> pmalloc ops 1 a m = (p, a', m') \<longrightarrow>
        (\<exists>q. p = page_addr q \<and> q \<noteq> 0 \<and> q \<notin> taken a \<and> taken a' = insert q (taken a) \<and>
             (\<forall>x. frame_of x = q \<longrightarrow> m' x = 0)) \<and>
        ok a' \<and> num_free_pages ops a' = num_free_pages ops a - 1 \<and>
        (\<forall>x. frame_of x \<in> taken a \<longrightarrow> m' x = m x)) \<and>
     (\<forall>a m q a' m'. ok a \<longrightarrow> q \<in> taken a \<longrightarrow> pfree ops (page_addr q) a m = (a', m') \<longrightarrow>
        ok a' \<and> taken a' = taken a - {q} \<and> num_free_pages ops a' = num_free_pages ops a + 1 \<and>
        (\<forall>x. frame_of x \<in> taken a - {q} \<longrightarrow> m' x = m x))"

text \<open>
  A process's table: \<open>own\<close> says of every page that holds a page table whose table it is, and for which entry of the
  root if it is a second-level table. So no page is in two places.
\<close>

type_synonym page_owner = "pageno \<Rightarrow> int \<times> u32 option"

definition l2_ok :: "vmem \<Rightarrow> pageno \<Rightarrow> bool" where
  "l2_ok m r \<longleftrightarrow> (\<forall>j. unat j < 1024 \<longrightarrow> m (elt (page_addr r) j) = 0 \<or> (\<exists>p. m (elt (page_addr r) j) = pte_leaf p))"

definition table_ok :: "vmem \<Rightarrow> page_owner \<Rightarrow> pageno set \<Rightarrow> int \<Rightarrow> pageno \<Rightarrow> bool" where
  "table_ok m own T pid q \<longleftrightarrow>
     q \<in> T \<and> q \<noteq> 0 \<and> own q = (pid, None) \<and>
     (\<forall>i. unat i < 1024 \<longrightarrow> m (elt (page_addr q) i) = 0 \<or>
        (\<exists>r. m (elt (page_addr q) i) = pte_table r \<and> r \<in> T \<and> r \<noteq> 0 \<and> own r = (pid, Some i) \<and> l2_ok m r))"

definition vm_inv :: "('a \<Rightarrow> bool) \<Rightarrow> ('a \<Rightarrow> pageno set) \<Rightarrow> 'a vm \<Rightarrow> bool" where
  "vm_inv ok taken s \<longleftrightarrow>
     ok (vm_alloc s) \<and> length (pid_to_pagetable_base s) = 17 \<and>
     (\<exists>own. \<forall>pid. 0 < pid \<and> pid \<le> MAX_NPROCESS \<longrightarrow> pagetable_base pid s = 0 \<or>
        (\<exists>q. pagetable_base pid s = page_addr q \<and> table_ok (vm_mem s) own (taken (vm_alloc s)) pid q))"

text \<open>The map a table stands for, and the address spaces of all processes.\<close>

definition pt_lookup :: "vmem \<Rightarrow> u32 \<Rightarrow> pageno \<Rightarrow> pageno option" where
  "pt_lookup m root v =
     (let va = page_addr v; l1_pte = m (elt root (drop_bit 22 va))
      in if l1_pte = 0 then None
         else let l2_pte = m (elt (next_table l1_pte) (drop_bit 12 va AND 0x3FF))
              in if l2_pte = 0 then None else Some (frame_of (push_bit 2 l2_pte)))"

definition vm_abs :: "'a vm \<Rightarrow> int \<Rightarrow> (pageno \<Rightarrow> pageno option) option" where
  "vm_abs s pid =
     (if 0 < pid \<and> pid \<le> MAX_NPROCESS \<and> pagetable_base pid s \<noteq> 0
      then Some (pt_lookup (vm_mem s) (pagetable_base pid s)) else None)"

lemma pmalloc_law:
  assumes "page_allocator ops ok taken" and "ok (vm_alloc s)" and "0 < num_free_pages ops (vm_alloc s)"
  obtains q s' where "call_pmalloc ops 1 s = (page_addr q, s')" and "q \<noteq> 0" and "q \<notin> taken (vm_alloc s)"
    and "taken (vm_alloc s') = insert q (taken (vm_alloc s))" and "ok (vm_alloc s')"
    and "num_free_pages ops (vm_alloc s') = num_free_pages ops (vm_alloc s) - 1"
    and "\<And>x. frame_of x = q \<Longrightarrow> vm_mem s' x = 0"
    and "\<And>x. frame_of x \<in> taken (vm_alloc s) \<Longrightarrow> vm_mem s' x = vm_mem s x"
    and "pid_to_pagetable_base s' = pid_to_pagetable_base s" and "vm_trace s' = vm_trace s"
proof -
  obtain p a' m' where pm: "pmalloc ops 1 (vm_alloc s) (vm_mem s) = (p, a', m')"
    by (metis prod_cases3)
  note law = assms(1)[unfolded page_allocator_def, THEN conjunct1, rule_format, OF assms(2,3) pm]
  then obtain q where q: "p = page_addr q" "q \<noteq> 0" "q \<notin> taken (vm_alloc s)"
      "taken a' = insert q (taken (vm_alloc s))" "\<And>x. frame_of x = q \<Longrightarrow> m' x = 0"
    by blast
  show ?thesis
    by (rule that [of q "s\<lparr>vm_alloc := a', vm_mem := m'\<rparr>"]) (use law q in \<open>simp_all add: call_pmalloc_def pm\<close>)
qed

lemma pfree_law:
  assumes "page_allocator ops ok taken" and "ok (vm_alloc s)" and "q \<in> taken (vm_alloc s)"
  shows "ok (vm_alloc (call_pfree ops (page_addr q) s))"
    and "taken (vm_alloc (call_pfree ops (page_addr q) s)) = taken (vm_alloc s) - {q}"
    and "num_free_pages ops (vm_alloc (call_pfree ops (page_addr q) s)) = num_free_pages ops (vm_alloc s) + 1"
    and "\<And>x. frame_of x \<in> taken (vm_alloc s) - {q} \<Longrightarrow> vm_mem (call_pfree ops (page_addr q) s) x = vm_mem s x"
    and "pid_to_pagetable_base (call_pfree ops (page_addr q) s) = pid_to_pagetable_base s"
proof -
  obtain a' m' where pf: "pfree ops (page_addr q) (vm_alloc s) (vm_mem s) = (a', m')" by fastforce
  note law = assms(1)[unfolded page_allocator_def, THEN conjunct2, rule_format, OF assms(2,3) pf]
  show "ok (vm_alloc (call_pfree ops (page_addr q) s))"
    and "taken (vm_alloc (call_pfree ops (page_addr q) s)) = taken (vm_alloc s) - {q}"
    and "num_free_pages ops (vm_alloc (call_pfree ops (page_addr q) s)) = num_free_pages ops (vm_alloc s) + 1"
    and "pid_to_pagetable_base (call_pfree ops (page_addr q) s) = pid_to_pagetable_base s"
    using law by (simp_all add: call_pfree_def pf)
  show "\<And>x. frame_of x \<in> taken (vm_alloc s) - {q} \<Longrightarrow> vm_mem (call_pfree ops (page_addr q) s) x = vm_mem s x"
    using law by (simp add: call_pfree_def pf)
qed

section \<open>Framing\<close>

lemma l2_ok_frame:
  assumes "l2_ok m r" and "\<And>x. frame_of x = r \<Longrightarrow> m' x = m x"
  shows "l2_ok m' r"
  using assms by (simp add: l2_ok_def)

lemma table_ok_cases:
  assumes "table_ok m own T pid q" and "unat i < 1024"
  obtains "m (elt (page_addr q) i) = 0"
  | r where "m (elt (page_addr q) i) = pte_table r" and "r \<in> T" and "r \<noteq> 0" and "own r = (pid, Some i)"
      and "l2_ok m r" and "r \<noteq> q"
  using assms unfolding table_ok_def by fastforce

lemma table_ok_entry:
  assumes "table_ok m own T pid q" and "unat i < 1024" and "m (elt (page_addr q) i) = pte_table r"
  shows "r \<in> T \<and> r \<noteq> 0 \<and> own r = (pid, Some i) \<and> l2_ok m r \<and> r \<noteq> q"
  using assms(1,2) by (rule table_ok_cases) (use assms(3) in auto)

text \<open>The pages of a process's page table.\<close>

definition tables_of :: "vmem \<Rightarrow> pageno \<Rightarrow> pageno set" where
  "tables_of m q = insert q {r. \<exists>i. unat i < 1024 \<and> m (elt (page_addr q) i) = pte_table r}"

lemma tables_own:
  assumes "table_ok m own T pid q" and "r \<in> tables_of m q"
  shows "r \<in> T" and "fst (own r) = pid"
proof -
  have "r = q \<or> (\<exists>i. unat i < 1024 \<and> m (elt (page_addr q) i) = pte_table r)"
    using assms(2) by (auto simp: tables_of_def)
  moreover have "q \<in> T" "own q = (pid, None)" using assms(1) by (auto simp: table_ok_def)
  ultimately show "r \<in> T" and "fst (own r) = pid"
    using table_ok_entry [OF assms(1)] by auto
qed

lemma table_ok_frame:
  assumes t: "table_ok m own T pid q"
    and m: "\<And>x. frame_of x \<in> tables_of m q \<Longrightarrow> m' x = m x"
    and o: "\<And>r. r \<in> tables_of m q \<Longrightarrow> own' r = own r \<and> r \<in> T'"
  shows "table_ok m' own' T' pid q" and "pt_lookup m' (page_addr q) = pt_lookup m (page_addr q)"
    and "tables_of m' q = tables_of m q"
proof -
  have q: "q \<in> tables_of m q" "own q = (pid, None)" "q \<noteq> 0" using t by (auto simp: table_ok_def tables_of_def)
  have root: "m' (elt (page_addr q) i) = m (elt (page_addr q) i)" if "unat i < 1024" for i
    using m [of "elt (page_addr q) i"] q that by simp
  have l2: "m' x = m x" if "frame_of x = r" "m (elt (page_addr q) i) = pte_table r" "unat i < 1024" for x r i
    using m [of x] that by (auto simp: tables_of_def)
  show "table_ok m' own' T' pid q"
    unfolding table_ok_def
  proof (intro conjI allI impI)
    fix i :: u32
    assume i: "unat i < 1024"
    show "m' (elt (page_addr q) i) = 0 \<or> (\<exists>r. m' (elt (page_addr q) i) = pte_table r \<and> r \<in> T' \<and> r \<noteq> 0 \<and>
        own' r = (pid, Some i) \<and> l2_ok m' r)"
      using t i
    proof (cases rule: table_ok_cases)
      case (2 r)
      then have "r \<in> tables_of m q" using i by (auto simp: tables_of_def)
      then show ?thesis using 2 root [OF i] o [of r] l2_ok_frame [of m r m'] l2 [of _ r i] i by auto
    qed (simp add: root i)
  qed (use q o [of q] in auto)
  have "pt_lookup m' (page_addr q) v = pt_lookup m (page_addr q) v" for v
    using t l1_bound [of "page_addr v"]
    by (cases rule: table_ok_cases) (auto simp: pt_lookup_def root l2)
  then show "pt_lookup m' (page_addr q) = pt_lookup m (page_addr q)" by (rule ext)
  show "tables_of m' q = tables_of m q" using root by (auto simp: tables_of_def)
qed

section \<open>Elementary changes of a table\<close>

lemma table_ok_new_l2:
  assumes t: "table_ok m own T pid q" and i: "unat i < 1024" and e: "m (elt (page_addr q) i) = 0"
    and r: "r \<notin> T" "r \<noteq> 0" and z: "\<And>x. frame_of x = r \<Longrightarrow> m' x = 0"
    and m: "\<And>x. frame_of x \<in> T \<Longrightarrow> m' x = m x"
  shows "table_ok (m'(elt (page_addr q) i := pte_table r)) (own(r := (pid, Some i))) (insert r T) pid q" (is "table_ok ?m _ _ _ _")
    and "pt_lookup (m'(elt (page_addr q) i := pte_table r)) (page_addr q) = pt_lookup m (page_addr q)"
proof -
  have q: "q \<in> T" "own q = (pid, None)" "q \<noteq> 0" using t by (auto simp: table_ok_def)
  have rq: "r \<noteq> q" using r q by auto
  have root: "?m (elt (page_addr q) k) = (if k = i then pte_table r else m (elt (page_addr q) k))" if "unat k < 1024" for k
    using m [of "elt (page_addr q) k"] q that i by simp
  have new: "?m (elt (page_addr r) k) = 0" if "unat k < 1024" for k
    using z [of "elt (page_addr r) k"] rq that i by simp
  have l2: "?m x = m x" if "frame_of x \<in> T" "frame_of x \<noteq> q" for x
    using m [of x] that i frame_of_elt [of i q] by (metis fun_upd_other)
  show "table_ok ?m (own(r := (pid, Some i))) (insert r T) pid q"
    unfolding table_ok_def
  proof (intro conjI allI impI)
    fix k :: u32
    assume k: "unat k < 1024"
    show "?m (elt (page_addr q) k) = 0 \<or> (\<exists>r'. ?m (elt (page_addr q) k) = pte_table r' \<and> r' \<in> insert r T \<and>
        r' \<noteq> 0 \<and> (own(r := (pid, Some i))) r' = (pid, Some k) \<and> l2_ok ?m r')"
    proof (cases "k = i")
      case True
      then show ?thesis using root [OF k] new r by (auto simp: l2_ok_def)
    next
      case False
      from t k show ?thesis
      proof (cases rule: table_ok_cases)
        case (2 r')
        then have "l2_ok ?m r'" using l2_ok_frame [of m r' ?m] l2 by blast
        moreover have "r' \<noteq> r" using 2 r by auto
        ultimately show ?thesis using 2 root [OF k] False by auto
      qed (use root [OF k] False in simp)
    qed
  qed (use q rq r in auto)
  have "pt_lookup ?m (page_addr q) v = pt_lookup m (page_addr q) v" for v
  proof (cases "drop_bit 22 (page_addr v) = i")
    case True
    then show ?thesis using root [OF i] new e by (simp add: pt_lookup_def)
  next
    case False
    from t l1_bound [of "page_addr v"] show ?thesis
      by (cases rule: table_ok_cases) (simp_all add: pt_lookup_def root False l2 del: fun_upd_apply)
  qed
  then show "pt_lookup ?m (page_addr q) = pt_lookup m (page_addr q)" by (rule ext)
qed

lemma page_index_eq:
  "drop_bit 22 (page_addr v) = drop_bit 22 va \<and>
   drop_bit 12 (page_addr v) AND 0x3FF = drop_bit 12 va AND 0x3FF \<longleftrightarrow> v = frame_of va"
proof
  have m: "(0x3FF :: u32) = mask 10" by (simp add: mask_eq_exp_minus_1)
  show "drop_bit 22 (page_addr v) = drop_bit 22 va \<and>
      drop_bit 12 (page_addr v) AND 0x3FF = drop_bit 12 va AND 0x3FF" if "v = frame_of va"
    unfolding that m
    by (intro conjI; rule bit_word_eqI) (auto simp: page_addr_def frame_of_def bit_simps dest: bit_imp_le_length)
  assume e: "drop_bit 22 (page_addr v) = drop_bit 22 va \<and>
      drop_bit 12 (page_addr v) AND 0x3FF = drop_bit 12 va AND 0x3FF"
  show "v = frame_of va"
  proof (rule bit_word_eqI)
    fix n
    assume "n < LENGTH(20)"
    then have n: "n < 20" by simp
    have b: "bit v n = bit (page_addr v) (n + 12)" "bit (frame_of va) n = bit va (n + 12)"
      using n by (auto simp: page_addr_def frame_of_def bit_simps add.commute)
    show "bit v n = bit (frame_of va) n"
    proof (cases "n < 10")
      case True
      have "bit (drop_bit 12 (page_addr v) AND 0x3FF) n = bit (drop_bit 12 va AND 0x3FF) n" using e by simp
      then show ?thesis using True unfolding b m by (simp add: bit_simps add.commute)
    next
      case False
      have "bit (drop_bit 22 (page_addr v)) (n - 10) = bit (drop_bit 22 va) (n - 10)" using e by simp
      then show ?thesis using False unfolding b by (simp add: bit_simps add.commute)
    qed
  qed
qed

lemma frame_of_leaf [simp]: "frame_of (push_bit 2 (pte_leaf p)) = p"
  by (rule bit_word_eqI) (auto simp: frame_of_def pte_leaf_def bit_simps bit_leaf_flag)

lemma table_ok_set_leaf:
  assumes t: "table_ok m own T pid q" and e: "m (elt (page_addr q) (drop_bit 22 va)) = pte_table r"
  shows "table_ok (m(elt (page_addr r) (drop_bit 12 va AND 0x3FF) := pte_leaf p)) own T pid q" (is "table_ok ?m _ _ _ _")
    and "pt_lookup (m(elt (page_addr r) (drop_bit 12 va AND 0x3FF) := pte_leaf p)) (page_addr q) =
      (pt_lookup m (page_addr q))(frame_of va \<mapsto> p)"
proof -
  let ?i = "drop_bit 22 va" and ?j = "drop_bit 12 va AND 0x3FF"
  have q: "q \<in> T" "own q = (pid, None)" "q \<noteq> 0" using t by (auto simp: table_ok_def)
  have r: "r \<in> T" "r \<noteq> 0" "own r = (pid, Some ?i)" "l2_ok m r" "r \<noteq> q"
    using table_ok_cases [OF t l1_bound [of va]] e by auto
  have root: "?m (elt (page_addr q) k) = m (elt (page_addr q) k)" if "unat k < 1024" for k
    using r(5) that by simp
  have l2: "?m (elt (page_addr r') k) = m (elt (page_addr r') k)" if "unat k < 1024" "r' \<noteq> r" for k r'
    using that by simp
  have "l2_ok ?m r'" if "l2_ok m r'" for r'
    using that unfolding l2_ok_def by auto
  then show "table_ok ?m own T pid q"
    using t root unfolding table_ok_def by metis
  have "pt_lookup ?m (page_addr q) v = ((pt_lookup m (page_addr q))(frame_of va \<mapsto> p)) v" for v
  proof (cases "drop_bit 22 (page_addr v) = ?i")
    case True
    have "v = frame_of va \<longleftrightarrow> drop_bit 12 (page_addr v) AND 0x3FF = ?j" using page_index_eq [of v va] True by simp
    then show ?thesis using True root [OF l1_bound] e by (simp add: pt_lookup_def)
  next
    case False
    then have v: "v \<noteq> frame_of va" using page_index_eq by blast
    from t l1_bound [of "page_addr v"] show ?thesis
    proof (cases rule: table_ok_cases)
      case (2 r')
      then have "r' \<noteq> r" using r False by auto
      then show ?thesis using 2 v root [OF l1_bound] l2 by (simp add: pt_lookup_def)
    qed (use v root [OF l1_bound, of "page_addr v"] in \<open>simp add: pt_lookup_def\<close>)
  qed
  then show "pt_lookup ?m (page_addr q) = (pt_lookup m (page_addr q))(frame_of va \<mapsto> p)" by (rule ext)
qed

end
