(* ===== verification/Mem_Vm_Map.thy ===== *)
theory Mem_Vm_Map
  imports Mem_Vm
begin

text \<open>
  The operations of \<^verbatim>\<open>earth/mem_vm.c\<close> that extend a page table: the second-level tables created on demand, the identity
  regions, and \<^verbatim>\<open>page_table_map()\<close>, each refined to a change of the map a process's table stands for.
\<close>

section \<open>Changes of the whole state\<close>

definition valid_pid :: "int \<Rightarrow> bool" where
  "valid_pid pid \<longleftrightarrow> 0 < pid \<and> pid \<le> MAX_NPROCESS"

lemma vm_inv_table:
  assumes "vm_inv ok taken s" and "valid_pid pid" and "pagetable_base pid s \<noteq> 0"
  obtains own q where "pagetable_base pid s = page_addr q"
    and "table_ok (vm_mem s) own (taken (vm_alloc s)) pid q"
    and "\<And>p. valid_pid p \<Longrightarrow> pagetable_base p s = 0 \<or>
      (\<exists>q. pagetable_base p s = page_addr q \<and> table_ok (vm_mem s) own (taken (vm_alloc s)) p q)"
proof -
  from assms(1) obtain own where own: "\<And>p. valid_pid p \<Longrightarrow> pagetable_base p s = 0 \<or>
      (\<exists>q. pagetable_base p s = page_addr q \<and> table_ok (vm_mem s) own (taken (vm_alloc s)) p q)"
    unfolding vm_inv_def valid_pid_def by blast
  then show ?thesis using that assms(2,3) by blast
qed

text \<open>One process's table changes, and the pages of the others are left alone.\<close>

lemma vm_inv_change:
  assumes base: "\<And>p. p \<noteq> pid \<Longrightarrow> valid_pid p \<Longrightarrow> pagetable_base p s' = pagetable_base p s"
      "length (pid_to_pagetable_base s') = 17"
    and ok: "ok (vm_alloc s')"
    and all: "\<And>p. valid_pid p \<Longrightarrow> pagetable_base p s = 0 \<or>
      (\<exists>q. pagetable_base p s = page_addr q \<and> table_ok (vm_mem s) own (taken (vm_alloc s)) p q)"
    and pid: "valid_pid pid" "pagetable_base pid s' = page_addr q"
    and t: "table_ok (vm_mem s') own' (taken (vm_alloc s')) pid q"
    and m: "\<And>x. frame_of x \<in> taken (vm_alloc s) \<Longrightarrow> fst (own (frame_of x)) \<noteq> pid \<Longrightarrow> vm_mem s' x = vm_mem s x"
    and o: "\<And>r. r \<in> taken (vm_alloc s) \<Longrightarrow> fst (own r) \<noteq> pid \<Longrightarrow> own' r = own r \<and> r \<in> taken (vm_alloc s')"
  shows "vm_inv ok taken s'"
    and "vm_abs s' = (vm_abs s)(pid \<mapsto> pt_lookup (vm_mem s') (page_addr q))"
proof -
  have other: "table_ok (vm_mem s') own' (taken (vm_alloc s')) p q' \<and>
      pt_lookup (vm_mem s') (page_addr q') = pt_lookup (vm_mem s) (page_addr q')"
    if "p \<noteq> pid" "table_ok (vm_mem s) own (taken (vm_alloc s)) p q'" for p q'
  proof -
    have mm: "vm_mem s' x = vm_mem s x" if "frame_of x \<in> tables_of (vm_mem s) q'" for x
      using m [of x] tables_own [OF \<open>table_ok _ _ _ p q'\<close> that] \<open>p \<noteq> pid\<close> by simp
    have oo: "own' r = own r \<and> r \<in> taken (vm_alloc s')" if "r \<in> tables_of (vm_mem s) q'" for r
      using o [of r] tables_own [OF \<open>table_ok _ _ _ p q'\<close> that] \<open>p \<noteq> pid\<close> by simp
    show ?thesis by (intro conjI table_ok_frame(1,2) [OF that(2)]) (simp_all add: mm oo)
  qed
  have "pagetable_base p s' = 0 \<or>
      (\<exists>q. pagetable_base p s' = page_addr q \<and> table_ok (vm_mem s') own' (taken (vm_alloc s')) p q)"
    if "valid_pid p" for p
    using all [OF that] other [of p] pid(2) t base(1) [of p] that by (cases "p = pid") auto
  then show "vm_inv ok taken s'" unfolding vm_inv_def valid_pid_def [symmetric] using ok base by auto
  have q0: "q \<noteq> 0" using t by (simp add: table_ok_def)
  have "vm_abs s' p = ((vm_abs s)(pid \<mapsto> pt_lookup (vm_mem s') (page_addr q))) p" for p
  proof (cases "p = pid \<or> \<not> valid_pid p \<or> pagetable_base p s = 0")
    case True
    then show ?thesis
      using pid q0 base(1) [of p] by (cases "p = pid") (auto simp: vm_abs_def valid_pid_def)
  next
    case False
    then show ?thesis using all [of p] other [of p] base(1) [of p] by (auto simp: vm_abs_def)
  qed
  then show "vm_abs s' = (vm_abs s)(pid \<mapsto> pt_lookup (vm_mem s') (page_addr q))" by (rule ext)
qed

lemma have_l2:
  assumes inv: "vm_inv ok taken s" and pid: "valid_pid pid" and root: "pagetable_base pid s \<noteq> 0"
    and e: "load (pagetable_base pid s) (drop_bit 22 va) s \<noteq> 0"
  obtains r where "load (pagetable_base pid s) (drop_bit 22 va) s = pte_table r"
proof -
  obtain own q where "pagetable_base pid s = page_addr q" "table_ok (vm_mem s) own (taken (vm_alloc s)) pid q"
    using vm_inv_table [OF inv pid root] by metis
  then show ?thesis using table_ok_cases [OF _ l1_bound [of va]] e that by (metis load_def)
qed

lemma new_l2:
  assumes alloc: "page_allocator ops ok taken" and inv: "vm_inv ok taken s" and pid: "valid_pid pid"
    and root: "pagetable_base pid s \<noteq> 0" and free: "0 < num_free_pages ops (vm_alloc s)"
    and e: "load (pagetable_base pid s) (drop_bit 22 va) s = 0"
  obtains r s' where "call_pmalloc ops 1 s = (page_addr r, s')"
    and "vm_inv ok taken (store (pagetable_base pid s) (drop_bit 22 va) (pte_table r) s')"
    and "vm_abs (store (pagetable_base pid s) (drop_bit 22 va) (pte_table r) s') = vm_abs s"
    and "pid_to_pagetable_base s' = pid_to_pagetable_base s"
    and "num_free_pages ops (vm_alloc s') = num_free_pages ops (vm_alloc s) - 1"
proof -
  obtain own q where q: "pagetable_base pid s = page_addr q"
    and t: "table_ok (vm_mem s) own (taken (vm_alloc s)) pid q"
    and all: "\<And>p. valid_pid p \<Longrightarrow> pagetable_base p s = 0 \<or>
      (\<exists>q. pagetable_base p s = page_addr q \<and> table_ok (vm_mem s) own (taken (vm_alloc s)) p q)"
    using inv pid root by (rule vm_inv_table) blast
  have inv': "ok (vm_alloc s)" "length (pid_to_pagetable_base s) = 17" using inv by (auto simp: vm_inv_def)
  obtain r s' where r: "call_pmalloc ops 1 s = (page_addr r, s')" "r \<noteq> 0" "r \<notin> taken (vm_alloc s)"
      "taken (vm_alloc s') = insert r (taken (vm_alloc s))" "ok (vm_alloc s')"
      "num_free_pages ops (vm_alloc s') = num_free_pages ops (vm_alloc s) - 1"
      "\<And>x. frame_of x = r \<Longrightarrow> vm_mem s' x = 0"
      "\<And>x. frame_of x \<in> taken (vm_alloc s) \<Longrightarrow> vm_mem s' x = vm_mem s x"
      "pid_to_pagetable_base s' = pid_to_pagetable_base s" "vm_trace s' = vm_trace s"
    by (rule pmalloc_law [OF alloc inv'(1) free]) (rule that)
  let ?s = "store (pagetable_base pid s) (drop_bit 22 va) (pte_table r) s'"
  have new: "table_ok (vm_mem ?s) (own(r := (pid, Some (drop_bit 22 va)))) (taken (vm_alloc ?s)) pid q"
      "pt_lookup (vm_mem ?s) (page_addr q) = pt_lookup (vm_mem s) (page_addr q)"
    using table_ok_new_l2 [OF t l1_bound _ r(3,2,7,8)] e by (simp_all add: store_def load_def q r(4))
  have own_q: "fst (own q) = pid" using t by (simp add: table_ok_def)
  have "vm_mem ?s x = vm_mem s x" if "frame_of x \<in> taken (vm_alloc s)" "fst (own (frame_of x)) \<noteq> pid" for x
  proof -
    have "x \<noteq> elt (page_addr q) (drop_bit 22 va)" using that own_q by auto
    then show ?thesis using r(8) [OF that(1)] by (simp add: store_def q)
  qed
  moreover have "(own(r := (pid, Some (drop_bit 22 va)))) r' = own r' \<and> r' \<in> taken (vm_alloc ?s)"
    if "r' \<in> taken (vm_alloc s)" for r'
    using that r(3,4) by (auto simp: store_def)
  ultimately have "vm_inv ok taken ?s" and a: "vm_abs ?s = (vm_abs s)(pid \<mapsto> pt_lookup (vm_mem ?s) (page_addr q))"
    using vm_inv_change [of pid ?s s ok own taken q, OF _ _ _ all pid _ new(1)] r(5,9) inv'(2) q
    by (simp_all add: store_def pagetable_base_def)
  moreover have "vm_abs ?s = vm_abs s"
  proof (rule ext)
    fix p
    show "vm_abs ?s p = vm_abs s p"
      unfolding a new(2) using pid root q by (simp add: vm_abs_def valid_pid_def)
  qed
  ultimately show ?thesis using that r(1,9,6) by blast
qed

text \<open>The second-level table for an address, which both \<^verbatim>\<open>setup_identity_region()\<close> and \<^verbatim>\<open>walk()\<close> create on demand.\<close>

lemma ensure_l2:
  assumes alloc: "page_allocator ops ok taken" and inv: "vm_inv ok taken s" and pid: "valid_pid pid"
    and root: "pagetable_base pid s \<noteq> 0" and free: "0 < num_free_pages ops (vm_alloc s)"
  obtains r s1 where "vm_inv ok taken s1" and "vm_abs s1 = vm_abs s"
    and "pid_to_pagetable_base s1 = pid_to_pagetable_base s"
    and "load (pagetable_base pid s) (drop_bit 22 va) s1 = pte_table r"
    and "num_free_pages ops (vm_alloc s) \<le> Suc (num_free_pages ops (vm_alloc s1))"
    and "load (pagetable_base pid s) (drop_bit 22 va) s = 0 \<and>
        (\<exists>s'. call_pmalloc ops 1 s = (page_addr r, s') \<and>
          s1 = store (pagetable_base pid s) (drop_bit 22 va) (pte_table r) s') \<or>
      load (pagetable_base pid s) (drop_bit 22 va) s = pte_table r \<and> s1 = s"
proof (cases "load (pagetable_base pid s) (drop_bit 22 va) s = 0")
  case True
  let ?st = "\<lambda>r. store (pagetable_base pid s) (drop_bit 22 va) (pte_table r)"
  obtain r s' where s': "call_pmalloc ops 1 s = (page_addr r, s')"
      "vm_inv ok taken (?st r s')" "vm_abs (?st r s') = vm_abs s"
      "pid_to_pagetable_base s' = pid_to_pagetable_base s"
      "num_free_pages ops (vm_alloc s') = num_free_pages ops (vm_alloc s) - 1"
    by (rule new_l2 [OF alloc inv pid root free True])
  show ?thesis
  proof (rule that)
    show "load (pagetable_base pid s) (drop_bit 22 va) s = 0 \<and>
        (\<exists>s''. call_pmalloc ops 1 s = (page_addr r, s'') \<and> ?st r s' = ?st r s'') \<or>
      load (pagetable_base pid s) (drop_bit 22 va) s = pte_table r \<and> ?st r s' = s"
      using True s'(1) by blast
  qed (use s' in \<open>simp_all add: store_def load_def\<close>)
next
  case False
  obtain r where r: "load (pagetable_base pid s) (drop_bit 22 va) s = pte_table r"
    by (rule have_l2 [OF inv pid root False])
  show ?thesis by (rule that [OF inv refl refl r]) (simp_all add: r)
qed

lemma vm_set_leaf:
  fixes p :: pageno
  assumes inv: "vm_inv ok taken s" and pid: "valid_pid pid" and abs: "vm_abs s pid = Some t"
    and e: "load (pagetable_base pid s) (drop_bit 22 va) s = pte_table r"
  defines "s' \<equiv> s\<lparr>vm_mem := (vm_mem s)(elt (page_addr r) (drop_bit 12 va AND 0x3FF) := pte_leaf p)\<rparr>"
  shows "vm_inv ok taken s'" and "vm_abs s' = (vm_abs s)(pid \<mapsto> t(frame_of va \<mapsto> p))"
    and "load (pagetable_base pid s') (drop_bit 22 va) s' = pte_table r"
    and "vm_mem s (elt (page_addr r) (drop_bit 12 va AND 0x3FF)) = 0 \<longleftrightarrow> t (frame_of va) = None"
proof -
  have root: "pagetable_base pid s \<noteq> 0" using abs by (auto simp: vm_abs_def split: if_splits)
  obtain own q where q: "pagetable_base pid s = page_addr q"
    and tb: "table_ok (vm_mem s) own (taken (vm_alloc s)) pid q"
    and all: "\<And>p. valid_pid p \<Longrightarrow> pagetable_base p s = 0 \<or>
      (\<exists>q. pagetable_base p s = page_addr q \<and> table_ok (vm_mem s) own (taken (vm_alloc s)) p q)"
    using inv pid root by (rule vm_inv_table) blast
  have inv': "ok (vm_alloc s)" "length (pid_to_pagetable_base s) = 17" using inv by (auto simp: vm_inv_def)
  have t: "t = pt_lookup (vm_mem s) (page_addr q)" using abs q by (auto simp: vm_abs_def split: if_splits)
  have er: "vm_mem s (elt (page_addr q) (drop_bit 22 va)) = pte_table r" using e by (simp add: load_def q)
  have r: "r \<in> taken (vm_alloc s)" "own r = (pid, Some (drop_bit 22 va))" "r \<noteq> q"
    using table_ok_cases [OF tb l1_bound [of va]] er by auto
  have new: "table_ok (vm_mem s') own (taken (vm_alloc s')) pid q"
      "pt_lookup (vm_mem s') (page_addr q) = t(frame_of va \<mapsto> p)"
    using table_ok_set_leaf [OF tb er] by (simp_all add: s'_def t)
  have "vm_mem s' x = vm_mem s x" if "fst (own (frame_of x)) \<noteq> pid" for x
    using that r by (auto simp: s'_def)
  then show "vm_inv ok taken s'" and "vm_abs s' = (vm_abs s)(pid \<mapsto> t(frame_of va \<mapsto> p))"
    using vm_inv_change [of pid s' s ok own taken q, OF _ _ _ all pid _ new(1)] inv' new(2) q
    by (simp_all add: s'_def pagetable_base_def)
  show "load (pagetable_base pid s') (drop_bit 22 va) s' = pte_table r"
    using er q r(3) by (simp add: load_def s'_def pagetable_base_def)
  have "drop_bit 22 (page_addr (frame_of va)) = drop_bit 22 va"
      "drop_bit 12 (page_addr (frame_of va)) AND 0x3FF = drop_bit 12 va AND 0x3FF"
    using page_index_eq [of "frame_of va" va] by auto
  then show "vm_mem s (elt (page_addr r) (drop_bit 12 va AND 0x3FF)) = 0 \<longleftrightarrow> t (frame_of va) = None"
    by (simp add: t pt_lookup_def er Let_def)
qed

section \<open>Identity regions\<close>

definition in_region :: "pageno \<Rightarrow> nat \<Rightarrow> pageno \<Rightarrow> bool" where
  "in_region a n v \<longleftrightarrow> unat a \<le> unat v \<and> unat v < unat a + n"

definition add_region :: "pageno \<times> nat \<Rightarrow> (pageno \<Rightarrow> pageno option) \<Rightarrow> pageno \<Rightarrow> pageno option" where
  "add_region = (\<lambda>(a, n) t v. if in_region a n v then Some v else t v)"

lemma region_step:
  assumes "unat a mod 1024 + i < 1024"
  shows "page_addr a + of_nat i * PAGE_SIZE = page_addr (a + of_nat i)" (is ?A)
    and "unat (a + of_nat i) = unat a + i"
    and "drop_bit 22 (page_addr (a + of_nat i)) = drop_bit 22 (page_addr a)"
    and "drop_bit 12 (page_addr (a + of_nat i)) AND 0x3FF = (drop_bit 12 (page_addr a) AND 0x3FF) + of_nat i"
proof -
  have a: "unat a < 2 ^ 20" using unsigned_less [of a] by simp
  have "unat a = 1024 * (unat a div 1024) + unat a mod 1024" "unat a div 1024 < 1024"
    using a by (simp_all add: less_mult_imp_div_less)
  then have "unat a + i < 1048576" using assms by linarith
  then have small: "unat a + i < 2 ^ 20" by simp
  have i: "i < 2 ^ 20" "i < 1024" using assms by simp_all
  show u: "unat (a + of_nat i) = unat a + i"
    using small i by (simp add: unat_word_ariths unat_of_nat take_bit_eq_mod)
  have m: "w AND 0x3FF = take_bit 10 w" for w :: u32
    by (simp add: take_bit_eq_mask mask_eq_exp_minus_1)
  have l: "unat (drop_bit 12 (page_addr v) AND 0x3FF) = unat v mod 1024" for v
    unfolding m unsigned_take_bit_eq unat_drop_bit_eq unat_page_addr by (simp add: drop_bit_nat_def take_bit_eq_mod)
  have h: "unat (drop_bit 22 (page_addr v)) = unat v div 1024" for v
    unfolding unat_drop_bit_eq unat_page_addr by (simp add: drop_bit_nat_def div_mult2_eq [of _ 4096 1024, simplified])
  show ?A
    using small i by (simp add: word_unat_eq_iff unat_word_ariths unat_page_addr u unat_of_nat take_bit_eq_mod)
  have "(unat a + i) div 1024 = unat a div 1024"
    using assms by (metis div_mult_mod_eq add.assoc div_mult_self3 div_less add_0_right mult.commute zero_neq_numeral)
  then show "drop_bit 22 (page_addr (a + of_nat i)) = drop_bit 22 (page_addr a)"
    by (simp only: word_unat_eq_iff h u)
  have "(unat a + i) mod 1024 = unat a mod 1024 + i"
    using assms by (metis mod_add_left_eq mod_less)
  then show "drop_bit 12 (page_addr (a + of_nat i)) AND 0x3FF = (drop_bit 12 (page_addr a) AND 0x3FF) + of_nat i"
    using assms i small by (simp add: word_unat_eq_iff unat_word_ariths l u unat_of_nat take_bit_eq_mod)
qed

lemma vm_abs_base: "vm_abs s pid = Some t \<Longrightarrow> valid_pid pid \<and> pagetable_base pid s \<noteq> 0"
  by (auto simp: vm_abs_def valid_pid_def split: if_splits)

lemma identity_ptes_spec:
  assumes inv: "vm_inv ok taken s" and abs: "vm_abs s pid = Some t"
    and e: "load (pagetable_base pid s) (drop_bit 22 (page_addr a)) s = pte_table r"
    and fit: "\<And>i. i \<in> set is \<Longrightarrow> unat a mod 1024 + i < 1024" and d: "distinct is"
    and none: "\<And>i. i \<in> set is \<Longrightarrow> t (a + of_nat i) = None"
  shows "\<exists>s'. identity_ptes (page_addr r) (drop_bit 12 (page_addr a) AND 0x3FF) (page_addr a) LEAF_FLAG is s = Inr s' \<and>
    vm_inv ok taken s' \<and> vm_alloc s' = vm_alloc s \<and> pid_to_pagetable_base s' = pid_to_pagetable_base s \<and>
    vm_abs s' = (vm_abs s)(pid \<mapsto> (\<lambda>v. if v \<in> (\<lambda>i. a + of_nat i) ` set is then Some v else t v))"
  using inv abs e fit d none
proof (induction "is" arbitrary: s t)
  case Nil
  then show ?case by (auto simp: fun_upd_idem)
next
  case (Cons i "is" s t)
  let ?va = "page_addr (a + of_nat i)" and ?j = "(drop_bit 12 (page_addr a) AND 0x3FF) + of_nat i"
  have fi: "unat a mod 1024 + i < 1024" using Cons.prems(4) by simp
  note step = region_step [OF fi]
  have pid: "valid_pid pid" using vm_abs_base [OF Cons.prems(2)] by simp
  let ?s = "s\<lparr>vm_mem := (vm_mem s)(elt (page_addr r) ?j := pte_leaf (a + of_nat i))\<rparr>"
  have e: "load (pagetable_base pid s) (drop_bit 22 ?va) s = pte_table r" using Cons.prems(3) by (simp add: step(3))
  note leaf = vm_set_leaf(1-3) [OF Cons.prems(1) pid Cons.prems(2) e, where p = "a + of_nat i", unfolded step(4), simplified]
  have zero: "load (page_addr r) ?j s = 0"
    using vm_set_leaf(4) [OF Cons.prems(1) pid Cons.prems(2) e, unfolded step(4)] Cons.prems(6) by (simp add: load_def)
  have st: "store (page_addr r) ?j (drop_bit 2 (page_addr a + of_nat i * PAGE_SIZE) OR LEAF_FLAG) s = ?s"
    unfolding store_def step(1) pte_leaf_page by simp
  have "\<exists>s'. identity_ptes (page_addr r) (drop_bit 12 (page_addr a) AND 0x3FF) (page_addr a) LEAF_FLAG is ?s = Inr s' \<and>
    vm_inv ok taken s' \<and> vm_alloc s' = vm_alloc ?s \<and> pid_to_pagetable_base s' = pid_to_pagetable_base ?s \<and>
    vm_abs s' = (vm_abs ?s)(pid \<mapsto> (\<lambda>v. if v \<in> (\<lambda>i. a + of_nat i) ` set is then Some v
      else (t(a + of_nat i \<mapsto> a + of_nat i)) v))"
  proof (rule Cons.IH)
    show "vm_abs ?s pid = Some (t(a + of_nat i \<mapsto> a + of_nat i))" using leaf(2) by simp
    show "load (pagetable_base pid ?s) (drop_bit 22 (page_addr a)) ?s = pte_table r" using leaf(3) by (simp add: step(3))
    show "(t(a + of_nat i \<mapsto> a + of_nat i)) (a + of_nat k) = None" if "k \<in> set is" for k
    proof -
      have "unat a mod 1024 + k < 1024" using Cons.prems(4) that by simp
      moreover have "k \<noteq> i" using Cons.prems(5) that by auto
      ultimately have "a + of_nat k \<noteq> a + of_nat i" using region_step(2) fi by (metis add_left_cancel)
      then show ?thesis using Cons.prems(6) that by simp
    qed
  qed (use leaf(1) Cons.prems in simp_all)
  then obtain s' where s': "identity_ptes (page_addr r) (drop_bit 12 (page_addr a) AND 0x3FF) (page_addr a) LEAF_FLAG is ?s = Inr s'"
      "vm_inv ok taken s'" "vm_alloc s' = vm_alloc s" "pid_to_pagetable_base s' = pid_to_pagetable_base s"
      "vm_abs s' = (vm_abs ?s)(pid \<mapsto> (\<lambda>v. if v \<in> (\<lambda>i. a + of_nat i) ` set is then Some v
        else (t(a + of_nat i \<mapsto> a + of_nat i)) v))"
    by auto
  have "(\<lambda>v. if v \<in> (\<lambda>i. a + of_nat i) ` set is then Some v else (t(a + of_nat i \<mapsto> a + of_nat i)) v) =
      (\<lambda>v. if v \<in> (\<lambda>i. a + of_nat i) ` set (i # is) then Some v else t v)"
    by auto
  then have "vm_abs s' = (vm_abs s)(pid \<mapsto> (\<lambda>v. if v \<in> (\<lambda>i. a + of_nat i) ` set (i # is) then Some v else t v))"
    by (simp only: s'(5) leaf(2) fun_upd_upd)
  moreover have "identity_ptes (page_addr r) (drop_bit 12 (page_addr a) AND 0x3FF) (page_addr a) LEAF_FLAG (i # is) s = Inr s'"
    using zero st s'(1) by simp
  ultimately show ?case using s'(2-4) by blast
qed

lemma region_image:
  assumes "unat a mod 1024 + n \<le> 1024"
  shows "v \<in> (\<lambda>i. a + of_nat i) ` set [0..<n] \<longleftrightarrow> in_region a n v"
proof
  assume "v \<in> (\<lambda>i. a + of_nat i) ` set [0..<n]"
  then show "in_region a n v" using assms region_step(2) [of a] by (auto simp: in_region_def)
next
  assume v: "in_region a n v"
  let ?i = "unat v - unat a"
  have i: "?i < n" using v by (auto simp: in_region_def)
  then have "unat (a + of_nat ?i) = unat v" using region_step(2) [of a ?i] assms v by (simp add: in_region_def)
  then have "v = a + of_nat ?i" by (metis unsigned_word_eqI)
  then show "v \<in> (\<lambda>i. a + of_nat i) ` set [0..<n]" using i by (intro image_eqI) auto
qed

lemma setup_identity_region_spec:
  assumes alloc: "page_allocator ops ok taken" and inv: "vm_inv ok taken s" and abs: "vm_abs s pid = Some t"
    and free: "0 < num_free_pages ops (vm_alloc s)" and fit: "unat a mod 1024 + n \<le> 1024"
    and none: "\<And>v. in_region a n v \<Longrightarrow> t v = None"
  shows "\<exists>s'. setup_identity_region ops pid (page_addr a) (int n) LEAF_FLAG s = Inr s' \<and> vm_inv ok taken s' \<and>
    vm_abs s' = (vm_abs s)(pid \<mapsto> add_region (a, n) t) \<and> pid_to_pagetable_base s' = pid_to_pagetable_base s \<and>
    num_free_pages ops (vm_alloc s) \<le> Suc (num_free_pages ops (vm_alloc s'))"
proof -
  let ?root = "pagetable_base pid s" and ?i = "drop_bit 22 (page_addr a)"
  have pid: "valid_pid pid" and root: "?root \<noteq> 0" using vm_abs_base [OF abs] by auto
  obtain r s1 where s1: "vm_inv ok taken s1" "vm_abs s1 = vm_abs s" "pid_to_pagetable_base s1 = pid_to_pagetable_base s"
      "load ?root ?i s1 = pte_table r" "num_free_pages ops (vm_alloc s) \<le> Suc (num_free_pages ops (vm_alloc s1))"
    and l2: "load ?root ?i s = 0 \<and>
        (\<exists>s'. call_pmalloc ops 1 s = (page_addr r, s') \<and> s1 = store ?root ?i (pte_table r) s') \<or>
      load ?root ?i s = pte_table r \<and> s1 = s"
    by (rule ensure_l2 [OF alloc inv pid root free])
  have "\<exists>s'. identity_ptes (page_addr r) (drop_bit 12 (page_addr a) AND 0x3FF) (page_addr a) LEAF_FLAG [0..<n] s1 = Inr s' \<and>
    vm_inv ok taken s' \<and> vm_alloc s' = vm_alloc s1 \<and> pid_to_pagetable_base s' = pid_to_pagetable_base s1 \<and>
    vm_abs s' = (vm_abs s1)(pid \<mapsto> (\<lambda>v. if v \<in> (\<lambda>i. a + of_nat i) ` set [0..<n] then Some v else t v))"
  proof (rule identity_ptes_spec)
    show "load (pagetable_base pid s1) ?i s1 = pte_table r" using s1(3,4) by (simp add: pagetable_base_def)
    show "t (a + of_nat i) = None" if "i \<in> set [0..<n]" for i
      using none [of "a + of_nat i"] region_image [OF fit, of "a + of_nat i"] that by blast
  qed (use s1 abs fit in auto)
  moreover have "(\<lambda>v. if v \<in> (\<lambda>i. a + of_nat i) ` set [0..<n] then Some v else t v) = add_region (a, n) t"
    by (simp add: add_region_def region_image [OF fit] fun_eq_iff del: set_upt)
  moreover have "unat (word_of_int (int n) :: u32) = n"
    using fit by (simp add: unat_of_nat take_bit_eq_mod)
  moreover have "page_addr a AND 0xFFF = 0"
    unfolding mask12 by (rule bit_word_eqI) (auto simp: page_addr_def bit_simps)
  moreover have "n \<le> 1024" using fit by simp
  ultimately show ?thesis
    using l2 s1 root by (auto simp: setup_identity_region_def pte_table_page)
qed

fun regions_fit :: "(pageno \<times> nat) list \<Rightarrow> (pageno \<Rightarrow> pageno option) \<Rightarrow> bool" where
  "regions_fit [] t \<longleftrightarrow> True"
| "regions_fit ((a, n) # rs) t \<longleftrightarrow>
     unat a mod 1024 + n \<le> 1024 \<and> (\<forall>v. in_region a n v \<longrightarrow> t v = None) \<and> regions_fit rs (add_region (a, n) t)"

lemma setup_regions_spec:
  assumes "page_allocator ops ok taken" and "vm_inv ok taken s" and "vm_abs s pid = Some t"
    and "length rs \<le> num_free_pages ops (vm_alloc s)" and "regions_fit rs t"
  shows "\<exists>s'. setup_regions ops pid (map (\<lambda>(a, n). (page_addr a, int n)) rs) s = Inr s' \<and> vm_inv ok taken s' \<and>
    vm_abs s' = (vm_abs s)(pid \<mapsto> fold add_region rs t) \<and> pid_to_pagetable_base s' = pid_to_pagetable_base s \<and>
    num_free_pages ops (vm_alloc s) \<le> length rs + num_free_pages ops (vm_alloc s')"
  using assms(2-)
proof (induction rs arbitrary: s t)
  case Nil
  then show ?case by (auto simp: fun_upd_idem)
next
  case (Cons an rs)
  obtain a n where an: "an = (a, n)" by fastforce
  obtain s1 where s1: "setup_identity_region ops pid (page_addr a) (int n) LEAF_FLAG s = Inr s1" "vm_inv ok taken s1"
      "vm_abs s1 = (vm_abs s)(pid \<mapsto> add_region (a, n) t)" "pid_to_pagetable_base s1 = pid_to_pagetable_base s"
      "num_free_pages ops (vm_alloc s) \<le> Suc (num_free_pages ops (vm_alloc s1))"
    using setup_identity_region_spec [OF assms(1) Cons.prems(1,2), of a n] Cons.prems(3,4) an by auto
  have "\<exists>s'. setup_regions ops pid (map (\<lambda>(a, n). (page_addr a, int n)) rs) s1 = Inr s' \<and> vm_inv ok taken s' \<and>
    vm_abs s' = (vm_abs s1)(pid \<mapsto> fold add_region rs (add_region (a, n) t)) \<and>
    pid_to_pagetable_base s' = pid_to_pagetable_base s1 \<and>
    num_free_pages ops (vm_alloc s1) \<le> length rs + num_free_pages ops (vm_alloc s')"
    using s1 Cons.prems an by (intro Cons.IH) auto
  then show ?case using s1 an by auto
qed

section \<open>Mapping a page\<close>

lemma new_root:
  assumes alloc: "page_allocator ops ok taken" and inv: "vm_inv ok taken s" and pid: "valid_pid pid"
    and root: "pagetable_base pid s = 0" and free: "0 < num_free_pages ops (vm_alloc s)"
  obtains q s' where "call_pmalloc ops 1 s = (page_addr q, s')"
    and "vm_inv ok taken (s'\<lparr>pid_to_pagetable_base := (pid_to_pagetable_base s')[nat pid := page_addr q]\<rparr>)"
    and "vm_abs (s'\<lparr>pid_to_pagetable_base := (pid_to_pagetable_base s')[nat pid := page_addr q]\<rparr>) =
      (vm_abs s)(pid \<mapsto> Map.empty)"
    and "pid_to_pagetable_base s' ! nat pid = 0" and "length (pid_to_pagetable_base s') = 17"
    and "num_free_pages ops (vm_alloc s') = num_free_pages ops (vm_alloc s) - 1"
proof -
  obtain own where all: "\<And>p. valid_pid p \<Longrightarrow> pagetable_base p s = 0 \<or>
      (\<exists>q. pagetable_base p s = page_addr q \<and> table_ok (vm_mem s) own (taken (vm_alloc s)) p q)"
    using inv unfolding vm_inv_def valid_pid_def by blast
  have inv': "ok (vm_alloc s)" "length (pid_to_pagetable_base s) = 17" using inv by (auto simp: vm_inv_def)
  obtain q s' where q: "call_pmalloc ops 1 s = (page_addr q, s')" "q \<noteq> 0" "q \<notin> taken (vm_alloc s)"
      "taken (vm_alloc s') = insert q (taken (vm_alloc s))" "ok (vm_alloc s')"
      "num_free_pages ops (vm_alloc s') = num_free_pages ops (vm_alloc s) - 1"
      "\<And>x. frame_of x = q \<Longrightarrow> vm_mem s' x = 0"
      "\<And>x. frame_of x \<in> taken (vm_alloc s) \<Longrightarrow> vm_mem s' x = vm_mem s x"
      "pid_to_pagetable_base s' = pid_to_pagetable_base s" "vm_trace s' = vm_trace s"
    by (rule pmalloc_law [OF alloc inv'(1) free]) (rule that)
  let ?s = "s'\<lparr>pid_to_pagetable_base := (pid_to_pagetable_base s')[nat pid := page_addr q]\<rparr>"
  have zero: "vm_mem s' (elt (page_addr q) i) = 0" if "unat i < 1024" for i
    using q(7) [of "elt (page_addr q) i"] that by simp
  have t: "table_ok (vm_mem ?s) (own(q := (pid, None))) (taken (vm_alloc ?s)) pid q"
    using q(2,4) zero by (simp add: table_ok_def)
  have "nat pid < 17" using pid by (simp add: valid_pid_def nat_less_iff)
  then have b: "pagetable_base pid ?s = page_addr q" using inv'(2) q(9) by (simp add: pagetable_base_def)
  have other: "pagetable_base p ?s = pagetable_base p s" if "p \<noteq> pid" "valid_pid p" for p
  proof -
    have "nat pid \<noteq> nat p" using that pid by (auto simp: valid_pid_def)
    then show ?thesis by (simp add: pagetable_base_def q(9))
  qed
  have "(own(q := (pid, None))) r = own r \<and> r \<in> taken (vm_alloc ?s)" if "r \<in> taken (vm_alloc s)" for r
    using q(3,4) that by auto
  then have "vm_inv ok taken ?s" and "vm_abs ?s = (vm_abs s)(pid \<mapsto> pt_lookup (vm_mem ?s) (page_addr q))"
    using vm_inv_change [of pid ?s s ok own taken q, OF other _ _ all pid b t] q(5,8,9) inv'(2) by simp_all
  moreover have "pt_lookup (vm_mem ?s) (page_addr q) = Map.empty"
    by (rule ext) (simp add: pt_lookup_def zero)
  ultimately show ?thesis
    by (intro that [of q s']) (use q(1,6,9) inv'(2) root in \<open>simp_all add: pagetable_base_def\<close>)
qed

text \<open>The address space a process starts with, as page numbers.\<close>

definition initial_pages :: "int \<Rightarrow> (pageno \<times> nat) list" where
  "initial_pages pid =
     (if pid < USER_PID_START
      then [(0x80000, 512), (0x80400, 1024), (0x02000, 16), (0x10000, 1), (0x40000, 1), (0x41000, 32),
            (0x22000, 1024), (0x80302, 1)]
      else [(0x80302, 1)])"

definition initial_map :: "int \<Rightarrow> pageno \<Rightarrow> pageno option" where
  "initial_map pid = fold add_region (initial_pages pid) Map.empty"

lemma initial_regions_pages: "initial_regions pid = map (\<lambda>(a, n). (page_addr a, int n)) (initial_pages pid)"
  by (simp add: initial_regions_def initial_pages_def page_addr_def)

lemma initial_pages_fit: "regions_fit (initial_pages pid) Map.empty"
  by (simp add: initial_pages_def add_region_def in_region_def)

lemma walk_alloc_spec:
  assumes alloc: "page_allocator ops ok taken" and inv: "vm_inv ok taken s" and abs: "vm_abs s pid = Some t"
    and free: "0 < num_free_pages ops (vm_alloc s)"
  obtains r s1 where "walk ops (pagetable_base pid s) va 1 s = Inr (elt (page_addr r) (drop_bit 12 va AND 0x3FF), s1)"
    and "vm_inv ok taken s1" and "vm_abs s1 = vm_abs s" and "pid_to_pagetable_base s1 = pid_to_pagetable_base s"
    and "load (pagetable_base pid s1) (drop_bit 22 va) s1 = pte_table r"
    and "num_free_pages ops (vm_alloc s) \<le> Suc (num_free_pages ops (vm_alloc s1))"
proof -
  let ?root = "pagetable_base pid s" and ?i = "drop_bit 22 va"
  have pid: "valid_pid pid" and root: "?root \<noteq> 0" using vm_abs_base [OF abs] by auto
  obtain r s1 where s1: "vm_inv ok taken s1" "vm_abs s1 = vm_abs s" "pid_to_pagetable_base s1 = pid_to_pagetable_base s"
      "load ?root ?i s1 = pte_table r" "num_free_pages ops (vm_alloc s) \<le> Suc (num_free_pages ops (vm_alloc s1))"
    and l2: "load ?root ?i s = 0 \<and>
        (\<exists>s'. call_pmalloc ops 1 s = (page_addr r, s') \<and> s1 = store ?root ?i (pte_table r) s') \<or>
      load ?root ?i s = pte_table r \<and> s1 = s"
    by (rule ensure_l2 [OF alloc inv pid root free])
  then have "walk ops ?root va 1 s = Inr (elt (page_addr r) (drop_bit 12 va AND 0x3FF), s1)"
    using root by (auto simp: walk_def pte_table_page)
  moreover have "pagetable_base pid s1 = ?root" by (simp add: pagetable_base_def s1(3))
  ultimately show ?thesis using that s1 by metis
qed

lemma map_addresses:
  "frame_of (vpage_no * PAGE_SIZE) = ucast vpage_no"
  "ppage_id * PAGE_SIZE + APPS_PAGES_BASE = page_addr (ucast ppage_id + 0x80400)"
proof -
  have p: "w * PAGE_SIZE = page_addr (ucast w)" for w :: u32
  proof -
    have "w * PAGE_SIZE = push_bit 12 w" by (simp add: push_bit_eq_mult)
    also have "\<dots> = page_addr (ucast w)" by (rule bit_word_eqI) (auto simp: page_addr_def bit_simps)
    finally show ?thesis .
  qed
  show "frame_of (vpage_no * PAGE_SIZE) = ucast vpage_no" unfolding p by simp
  have "page_addr (a + b) = page_addr a + page_addr b" for a b
  proof -
    have n: "4294967296 = 4096 * (1048576 :: nat)" by simp
    have "4096 * ((unat a + unat b) mod 1048576) = (4096 * unat a + 4096 * unat b) mod 4294967296"
      unfolding n distrib_left [symmetric] by (rule mult_mod_right)
    then show ?thesis by (simp add: word_unat_eq_iff unat_page_addr unat_word_ariths)
  qed
  then show "ppage_id * PAGE_SIZE + APPS_PAGES_BASE = page_addr (ucast ppage_id + 0x80400)"
    unfolding p by (simp add: page_addr_def)
qed

text \<open>The address space that a process has, or starts with when it gets its first page.\<close>

definition space_of :: "'a vm \<Rightarrow> int \<Rightarrow> pageno \<Rightarrow> pageno option" where
  "space_of s pid = (case vm_abs s pid of None \<Rightarrow> initial_map pid | Some t \<Rightarrow> t)"

lemma page_table_ready:
  assumes alloc: "page_allocator ops ok taken" and inv: "vm_inv ok taken s" and pid: "valid_pid pid"
    and free: "9 < num_free_pages ops (vm_alloc s)"
  obtains s1 where "(if pagetable_base pid s = 0
             then let (root, s) = call_pmalloc ops 1 s;
                      s = s\<lparr>pid_to_pagetable_base := (pid_to_pagetable_base s)[nat pid := root]\<rparr>
                  in res_bind (setup_regions ops pid (initial_regions pid) s) (\<lambda>s. Inr (root, s))
             else Inr (pagetable_base pid s, s)) = Inr (pagetable_base pid s1, s1)"
    and "vm_inv ok taken s1" and "vm_abs s1 = (vm_abs s)(pid \<mapsto> space_of s pid)"
    and "0 < num_free_pages ops (vm_alloc s1)"
proof (cases "pagetable_base pid s = 0")
  case True
  then have none: "vm_abs s pid = None" by (simp add: vm_abs_def)
  let ?new = "\<lambda>q s'. s'\<lparr>pid_to_pagetable_base := (pid_to_pagetable_base s')[nat pid := page_addr q]\<rparr>"
  obtain q s' where s': "call_pmalloc ops 1 s = (page_addr q, s')"
      "vm_inv ok taken (?new q s')" "vm_abs (?new q s') = (vm_abs s)(pid \<mapsto> Map.empty)" "pid_to_pagetable_base s' ! nat pid = 0"
      "length (pid_to_pagetable_base s') = 17"
      "num_free_pages ops (vm_alloc s') = num_free_pages ops (vm_alloc s) - 1"
    by (rule new_root [OF alloc inv pid True]) (use free in simp, rule that)
  let ?s = "?new q s'"
  have "nat pid < 17" using pid by (simp add: valid_pid_def nat_less_iff)
  have "length (initial_pages pid) \<le> 8" by (simp add: initial_pages_def)
  then obtain s1 where s1: "setup_regions ops pid (initial_regions pid) ?s = Inr s1" "vm_inv ok taken s1"
      "vm_abs s1 = (vm_abs ?s)(pid \<mapsto> initial_map pid)" "pid_to_pagetable_base s1 = pid_to_pagetable_base ?s"
      "num_free_pages ops (vm_alloc ?s) \<le> 8 + num_free_pages ops (vm_alloc s1)"
    using setup_regions_spec [OF alloc s'(2), of pid Map.empty "initial_pages pid"] s'(3,6) free initial_pages_fit
    by (fastforce simp: initial_regions_pages initial_map_def)
  show ?thesis
  proof (rule that)
    show "vm_abs s1 = (vm_abs s)(pid \<mapsto> space_of s pid)" using s1(3) s'(3) none by (simp add: space_of_def)
    show "0 < num_free_pages ops (vm_alloc s1)" using s1(5) s'(6) free by simp
    have "pagetable_base pid s1 = page_addr q"
      using s1(4) s'(5) \<open>nat pid < 17\<close> by (simp add: pagetable_base_def)
    then show "(if pagetable_base pid s = 0
             then let (root, s) = call_pmalloc ops 1 s;
                      s = s\<lparr>pid_to_pagetable_base := (pid_to_pagetable_base s)[nat pid := root]\<rparr>
                  in res_bind (setup_regions ops pid (initial_regions pid) s) (\<lambda>s. Inr (root, s))
             else Inr (pagetable_base pid s, s)) = Inr (pagetable_base pid s1, s1)"
      using True s'(1) s1(1) by simp
  qed (rule s1(2))
next
  case False
  then have "vm_abs s = (vm_abs s)(pid \<mapsto> space_of s pid)"
    using pid by (auto simp: space_of_def vm_abs_def valid_pid_def fun_upd_idem_iff)
  then show ?thesis using False inv free by (intro that [of s]) auto
qed

lemma page_table_map_spec:
  assumes alloc: "page_allocator ops ok taken" and inv: "vm_inv ok taken s" and pid: "valid_pid pid"
    and free: "9 < num_free_pages ops (vm_alloc s)"
  shows "if space_of s pid (ucast vpage_no) = None
     then \<exists>s'. page_table_map ops pid vpage_no ppage_id s = Inr s' \<and> vm_inv ok taken s' \<and>
       vm_abs s' = (vm_abs s)(pid \<mapsto> (space_of s pid)(ucast vpage_no \<mapsto> ucast ppage_id + 0x80400))
     else page_table_map ops pid vpage_no ppage_id s = Inl Fatal"
proof -
  let ?va = "vpage_no * PAGE_SIZE" and ?t = "space_of s pid"
  obtain s1 where r1: "(if pagetable_base pid s = 0
             then let (root, s) = call_pmalloc ops 1 s;
                      s = s\<lparr>pid_to_pagetable_base := (pid_to_pagetable_base s)[nat pid := root]\<rparr>
                  in res_bind (setup_regions ops pid (initial_regions pid) s) (\<lambda>s. Inr (root, s))
             else Inr (pagetable_base pid s, s)) = Inr (pagetable_base pid s1, s1)"
    and s1: "vm_inv ok taken s1" "vm_abs s1 = (vm_abs s)(pid \<mapsto> ?t)" "0 < num_free_pages ops (vm_alloc s1)"
    by (rule page_table_ready [OF alloc inv pid free])
  have a1: "vm_abs s1 pid = Some ?t" using s1(2) by simp
  obtain r s2 where w: "walk ops (pagetable_base pid s1) ?va 1 s1 = Inr (elt (page_addr r) (drop_bit 12 ?va AND 0x3FF), s2)"
    and s2: "vm_inv ok taken s2" "vm_abs s2 = vm_abs s1" "load (pagetable_base pid s2) (drop_bit 22 ?va) s2 = pte_table r"
    by (rule walk_alloc_spec [OF alloc s1(1) a1 s1(3), of ?va])
  have a2: "vm_abs s2 pid = Some ?t" using s2(2) a1 by simp
  note leaf = vm_set_leaf(1,2) [OF s2(1) pid a2 s2(3), where p = "ucast ppage_id + 0x80400", unfolded map_addresses(1)]
  have z: "vm_mem s2 (elt (page_addr r) (drop_bit 12 ?va AND 0x3FF)) = 0 \<longleftrightarrow> ?t (ucast vpage_no) = None"
    using vm_set_leaf(4) [OF s2(1) pid a2 s2(3)] by (simp only: map_addresses(1))
  have "page_table_map ops pid vpage_no ppage_id s =
      (if ?t (ucast vpage_no) \<noteq> None then Inl Fatal
       else Inr (s2\<lparr>vm_mem := (vm_mem s2)(elt (page_addr r) (drop_bit 12 ?va AND 0x3FF) := pte_leaf (ucast ppage_id + 0x80400))\<rparr>))"
    unfolding page_table_map_def Let_def r1 [unfolded Let_def] map_addresses(2) pte_leaf_page
    using pid w by (simp add: z valid_pid_def)
  then show ?thesis using leaf s2(2) s1(2) by simp
qed

end
