(* ===== verification/Mem_Vm_Props.thy ===== *)
theory Mem_Vm_Props
  imports Mem_Vm_Map
begin

text \<open>
  The properties of \<^verbatim>\<open>earth/mem_vm.c\<close>: its tables give the processor and \<^verbatim>\<open>page_table_translate()\<close> the same translation,
  \<^verbatim>\<open>page_table_map()\<close> adds a page, and \<^verbatim>\<open>page_table_free()\<close> gives back what a process owns; and an allocator
  and states on which they apply.
\<close>

section \<open>Translation\<close>

text \<open>
  The translation of the RISC-V privileged architecture for accesses in user mode, with the mode and root in
  \<^verbatim>\<open>satp\<close>: both levels, superpages, and the permission, accessed and dirty bits.
\<close>

datatype access = Fetch | Load | Store

definition sv32_allows :: "access \<Rightarrow> u32 \<Rightarrow> bool" where
  "sv32_allows acc pte \<longleftrightarrow> bit pte 4 \<and> bit pte 6 \<and>
     (case acc of Fetch \<Rightarrow> bit pte 3 | Load \<Rightarrow> bit pte 1 | Store \<Rightarrow> bit pte 2 \<and> bit pte 7)"

definition sv32_valid :: "u32 \<Rightarrow> bool" where
  "sv32_valid pte \<longleftrightarrow> bit pte 0 \<and> (bit pte 2 \<longrightarrow> bit pte 1)"

definition sv32_is_leaf :: "u32 \<Rightarrow> bool" where
  "sv32_is_leaf pte \<longleftrightarrow> bit pte 1 \<or> bit pte 3"

definition sv32 :: "u32 \<Rightarrow> vmem \<Rightarrow> access \<Rightarrow> u32 \<Rightarrow> u32 option" where
  "sv32 satp m acc va =
     (if \<not> bit satp 31 then Some va
      else let pte1 = m (push_bit 12 (take_bit 22 satp) + 4 * drop_bit 22 va)
       in if \<not> sv32_valid pte1 then None
          else if sv32_is_leaf pte1
          then if sv32_allows acc pte1 \<and> take_bit 10 (drop_bit 10 pte1) = 0
               then Some (push_bit 22 (drop_bit 20 pte1) + take_bit 22 va) else None
          else let pte2 = m (push_bit 12 (drop_bit 10 pte1) + 4 * take_bit 10 (drop_bit 12 va))
           in if \<not> sv32_valid pte2 \<or> \<not> sv32_is_leaf pte2 then None
              else if sv32_allows acc pte2 then Some (push_bit 12 (drop_bit 10 pte2) + take_bit 12 va)
              else None)"

text \<open>The physical address of \<open>va\<close> in the page frame \<open>p\<close>.\<close>

definition in_page :: "u32 \<Rightarrow> pageno \<Rightarrow> u32" where
  "in_page va p = page_addr p OR (va AND 0xFFF)"

lemma in_page_add: "in_page va p = page_addr p + take_bit 12 va"
proof -
  have "page_addr p AND take_bit 12 va = 0"
    by (rule bit_word_eqI) (auto simp: page_addr_def bit_simps)
  then have "page_addr p + take_bit 12 va = page_addr p OR take_bit 12 va" by (simp add: disjunctive_add_eq_or)
  then show ?thesis by (simp add: in_page_def take_bit_eq_mask mask12)
qed

lemma drop_pte: "push_bit 12 (drop_bit 10 (pte_table r)) = page_addr r"
    "push_bit 12 (drop_bit 10 (pte_leaf r)) = page_addr r"
  by (rule bit_word_eqI, auto simp: page_addr_def pte_table_def pte_leaf_def bit_simps bit_leaf_flag bit_1_iff)+

lemma pte_leaf_bits: "sv32_valid (pte_leaf p)" "sv32_is_leaf (pte_leaf p)" "sv32_allows acc (pte_leaf p)"
  by (cases acc; simp add: sv32_valid_def sv32_is_leaf_def sv32_allows_def pte_leaf_def bit_simps bit_leaf_flag)+

lemma pte_table_bits: "sv32_valid (pte_table r)" "\<not> sv32_is_leaf (pte_table r)"
  by (simp_all add: sv32_valid_def sv32_is_leaf_def pte_table_def bit_simps bit_1_iff)

lemma bit_p31: "bit (2147483648 :: int) n \<longleftrightarrow> n = 31"
proof -
  have "(2147483648 :: int) = 2 ^ 31" by simp
  then show ?thesis by (simp only: bit_exp_iff) (auto simp: possible_bit_def)
qed

lemma pte_leaf_base': "push_bit 2 (pte_leaf p) AND - 4096 = page_addr p"
  using pte_leaf_base [of p] by simp

lemma satp_value_page:
  "push_bit 12 (take_bit 22 (satp_value (page_addr q))) = page_addr q" (is ?A) "bit (satp_value (page_addr q)) 31"
proof -
  show ?A by (rule bit_word_eqI) (auto simp: satp_value_def page_addr_def bit_simps bit_p31 dest: bit_pageno)
qed (simp add: satp_value_def bit_simps)

lemma lookup_va:
  "pt_lookup m (page_addr q) (frame_of va) =
    (if m (elt (page_addr q) (drop_bit 22 va)) = 0 then None
     else let e = m (elt (next_table (m (elt (page_addr q) (drop_bit 22 va)))) (drop_bit 12 va AND 0x3FF))
          in if e = 0 then None else Some (frame_of (push_bit 2 e)))"
  using page_index_eq [of "frame_of va" va] by (simp add: pt_lookup_def Let_def)

lemma sv32_table:
  assumes t: "table_ok m own T pid q"
  shows "sv32 (satp_value (page_addr q)) m acc va =
    map_option (in_page va) (pt_lookup m (page_addr q) (frame_of va))"
proof -
  have m10: "take_bit 10 w = w AND 0x3FF" for w :: u32 by (simp add: take_bit_eq_mask mask_eq_exp_minus_1)
  have z: "\<not> sv32_valid 0" by (simp add: sv32_valid_def)
  from t l1_bound [of va] show ?thesis
  proof (cases rule: table_ok_cases)
    case 1
    then show ?thesis
      by (simp add: lookup_va sv32_def satp_value_page elt_def z)
  next
    case (2 r)
    then have "m (elt (page_addr r) (drop_bit 12 va AND 0x3FF)) = 0 \<or>
        (\<exists>p. m (elt (page_addr r) (drop_bit 12 va AND 0x3FF)) = pte_leaf p)"
      by (simp add: l2_ok_def)
    then show ?thesis using 2(1)
      by (auto simp: lookup_va sv32_def satp_value_page elt_def z pte_leaf_bits pte_table_bits drop_pte m10 in_page_add)
  qed
qed

lemma translate_table:
  assumes inv: "vm_inv ok taken s" and abs: "vm_abs s pid = Some t"
  shows "page_table_translate ops pid va s =
    (case t (frame_of va) of None \<Rightarrow> Inl Fatal | Some p \<Rightarrow> Inr (in_page va p, s))"
proof -
  have pid: "valid_pid pid" and root: "pagetable_base pid s \<noteq> 0" using vm_abs_base [OF abs] by auto
  obtain own q where q: "pagetable_base pid s = page_addr q" "table_ok (vm_mem s) own (taken (vm_alloc s)) pid q"
    using inv pid root by (rule vm_inv_table) blast
  have t: "t = pt_lookup (vm_mem s) (page_addr q)" using abs q by (auto simp: vm_abs_def split: if_splits)
  from q(2) l1_bound [of va] show ?thesis
  proof (cases rule: table_ok_cases)
    case 1
    then show ?thesis using pid root q
      by (simp add: t lookup_va page_table_translate_def walk_def load_def valid_pid_def)
  next
    case (2 r)
    then have "vm_mem s (elt (page_addr r) (drop_bit 12 va AND 0x3FF)) = 0 \<or>
        (\<exists>p. vm_mem s (elt (page_addr r) (drop_bit 12 va AND 0x3FF)) = pte_leaf p)"
      by (simp add: l2_ok_def)
    then show ?thesis using pid root q 2(1)
      by (auto simp: t lookup_va page_table_translate_def walk_def load_def valid_pid_def pte_leaf_base' in_page_def)
  qed
qed

text \<open>
  C31: while a process's page table is active, the processor translates every address, for every kind of access, as
  the process's map says, and faults where the map has no page; \<^verbatim>\<open>page_table_translate()\<close> computes the same
  address, or ends in \<^verbatim>\<open>FATAL\<close> where the processor faults. \<^verbatim>\<open>page_table_switch()\<close> makes the table active, with a fence
  before and after.
\<close>

theorem address_space_active:
  assumes "vm_inv ok taken s" and "vm_abs s pid = Some t"
  shows "page_table_translate ops pid va s =
      (case t (frame_of va) of None \<Rightarrow> Inl Fatal | Some p \<Rightarrow> Inr (in_page va p, s)) \<and>
    (\<exists>satp s'. page_table_switch pid s = Inr s' \<and> s' = s\<lparr>vm_trace := vm_trace s @ [Sfence_vma, Csrw_satp satp, Sfence_vma]\<rparr> \<and>
      sv32 satp (vm_mem s') acc va = map_option (in_page va) (t (frame_of va)))"
proof (rule conjI)
  show "page_table_translate ops pid va s =
      (case t (frame_of va) of None \<Rightarrow> Inl Fatal | Some p \<Rightarrow> Inr (in_page va p, s))"
    using assms by (rule translate_table)
  have pid: "valid_pid pid" and root: "pagetable_base pid s \<noteq> 0" using vm_abs_base [OF assms(2)] by auto
  obtain own q where q: "pagetable_base pid s = page_addr q" "table_ok (vm_mem s) own (taken (vm_alloc s)) pid q"
    using assms(1) pid root by (rule vm_inv_table) blast
  have "t = pt_lookup (vm_mem s) (page_addr q)" using assms(2) q by (auto simp: vm_abs_def split: if_splits)
  then show "\<exists>satp s'. page_table_switch pid s = Inr s' \<and>
      s' = s\<lparr>vm_trace := vm_trace s @ [Sfence_vma, Csrw_satp satp, Sfence_vma]\<rparr> \<and>
      sv32 satp (vm_mem s') acc va = map_option (in_page va) (t (frame_of va))"
    using sv32_table [OF q(2), of acc va] pid root q(1)
    by (auto simp: page_table_switch_def fence_def valid_pid_def pagetable_base_def)
qed

section \<open>Freeing a page table\<close>

text \<open>The pages \<open>F\<close>, all handed out before, have been given back, and nothing else has changed.\<close>

definition freed :: "'a page_ops \<Rightarrow> ('a \<Rightarrow> bool) \<Rightarrow> ('a \<Rightarrow> pageno set) \<Rightarrow> pageno set \<Rightarrow> 'a vm \<Rightarrow> 'a vm \<Rightarrow> bool" where
  "freed ops ok taken F s s' \<longleftrightarrow>
     F \<subseteq> taken (vm_alloc s) \<and> ok (vm_alloc s') \<and> taken (vm_alloc s') = taken (vm_alloc s) - F \<and>
     num_free_pages ops (vm_alloc s') = num_free_pages ops (vm_alloc s) + card F \<and>
     (\<forall>x. frame_of x \<in> taken (vm_alloc s) - F \<longrightarrow> vm_mem s' x = vm_mem s x) \<and>
     pid_to_pagetable_base s' = pid_to_pagetable_base s"

lemma freed_none: "ok (vm_alloc s) \<Longrightarrow> freed ops ok taken {} s s"
  by (simp add: freed_def)

lemma freed_one:
  assumes "page_allocator ops ok taken" and "ok (vm_alloc s)" and "q \<in> taken (vm_alloc s)"
  shows "freed ops ok taken {q} s (call_pfree ops (page_addr q) s)"
  using pfree_law [OF assms] assms(3) by (simp add: freed_def)

lemma freed_trans:
  assumes "freed ops ok taken F s s1" and "freed ops ok taken G s1 s2"
  shows "freed ops ok taken (F \<union> G) s s2"
proof -
  have "F \<inter> G = {}" using assms by (auto simp: freed_def)
  then have "card (F \<union> G) = card F + card G" by (simp add: card_Un_disjoint)
  then show ?thesis using assms by (auto simp: freed_def)
qed

text \<open>
  A loop whose step \<open>i\<close> frees the pages \<open>F i\<close>, looking only at these and at the pages \<open>K\<close>, which no step frees.
\<close>

lemma freed_fold:
  assumes step: "\<And>i s'. i \<in> set is \<Longrightarrow> ok (vm_alloc s') \<Longrightarrow> K \<union> F i \<subseteq> taken (vm_alloc s') \<Longrightarrow>
      (\<And>x. frame_of x \<in> K \<union> F i \<Longrightarrow> vm_mem s' x = m x) \<Longrightarrow> freed ops ok taken (F i) s' (f i s')"
    and d: "distinct is" and disj: "\<And>i j. i \<in> set is \<Longrightarrow> j \<in> set is \<Longrightarrow> i \<noteq> j \<Longrightarrow> F i \<inter> F j = {}"
    and K: "\<And>i. i \<in> set is \<Longrightarrow> F i \<inter> K = {}"
    and ok: "ok (vm_alloc s)" and sub: "K \<union> (\<Union>i \<in> set is. F i) \<subseteq> taken (vm_alloc s)"
    and m: "\<And>x. frame_of x \<in> K \<union> (\<Union>i \<in> set is. F i) \<Longrightarrow> vm_mem s x = m x"
  shows "freed ops ok taken (\<Union>i \<in> set is. F i) s (fold f is s)"
  using assms
proof (induction "is" arbitrary: s)
  case Nil
  then show ?case by (simp add: freed_none)
next
  case (Cons i "is")
  have one: "freed ops ok taken (F i) s (f i s)"
  proof (rule Cons.prems(1))
    show "vm_mem s x = m x" if "frame_of x \<in> K \<union> F i" for x
      using Cons.prems(7) [of x] that by auto
  qed (use Cons.prems(5,6) in auto)
  have dis: "F i \<inter> F k = {}" if "k \<in> set is" for k
    using Cons.prems(2) Cons.prems(3) [of i k] that by auto
  have rest: "freed ops ok taken (\<Union>k \<in> set is. F k) (f i s) (fold f is (f i s))"
  proof (rule Cons.IH)
    show "K \<union> (\<Union>k \<in> set is. F k) \<subseteq> taken (vm_alloc (f i s))"
      using one Cons.prems(6) Cons.prems(4) [of i] dis by (auto simp: freed_def)
    show "vm_mem (f i s) x = m x" if "frame_of x \<in> K \<union> (\<Union>k \<in> set is. F k)" for x
    proof -
      have "frame_of x \<in> taken (vm_alloc s) - F i"
        using that Cons.prems(6) Cons.prems(4) [of i] dis by auto
      then show ?thesis using one Cons.prems(7) [of x] that by (auto simp: freed_def)
    qed
    show "freed ops ok taken (F k) s' (f k s')" if "k \<in> set is" "ok (vm_alloc s')" "K \<union> F k \<subseteq> taken (vm_alloc s')"
        "\<And>x. frame_of x \<in> K \<union> F k \<Longrightarrow> vm_mem s' x = m x" for k s'
      using Cons.prems(1) that by simp
  qed (use Cons.prems one in \<open>auto simp: freed_def\<close>)
  show ?case using freed_trans [OF one rest] by simp
qed

text \<open>
  What a process owns: its page tables, and its private pages, those that are mapped to another address than their own
  and lie in the range of physical pages.
\<close>

definition private_page :: "pageno \<Rightarrow> pageno \<Rightarrow> bool" where
  "private_page v p \<longleftrightarrow> p \<noteq> v \<and> 0x80400 \<le> p \<and> p < 0x80800"

definition private_pages :: "(pageno \<Rightarrow> pageno option) \<Rightarrow> pageno set" where
  "private_pages t = {p. \<exists>v. t v = Some p \<and> private_page v p}"

lemma page_addr_less: "page_addr p < page_addr q \<longleftrightarrow> p < q" "page_addr p \<le> page_addr q \<longleftrightarrow> p \<le> q"
  by (simp_all add: word_less_nat_alt word_le_nat_alt unat_page_addr)

lemma page_addr_consts: "page_addr 0x80400 = APPS_PAGES_BASE" "page_addr 0x80800 = RAM_END"
  by (simp_all add: page_addr_def)

definition vpage :: "u32 \<Rightarrow> u32 \<Rightarrow> pageno" where
  "vpage i j = frame_of (push_bit 22 i OR push_bit 12 j)"

lemma vpage_idx:
  assumes "unat i < 1024" and "unat j < 1024"
  shows "page_addr (vpage i j) = push_bit 22 i OR push_bit 12 j"
    and "drop_bit 22 (page_addr (vpage i j)) = i" and "drop_bit 12 (page_addr (vpage i j)) AND 0x3FF = j"
proof -
  have i: "i = take_bit 10 i" and j: "j = take_bit 10 j"
    using assms by (simp_all only: word_unat_eq_iff unsigned_take_bit_eq) (simp_all add: take_bit_eq_mod)
  have bi: "bit i n \<Longrightarrow> n < 10" and bj: "bit j n \<Longrightarrow> n < 10" for n
    using i j by (metis bit_take_bit_iff)+
  have m: "(0x3FF :: u32) = mask 10" by (simp add: mask_eq_exp_minus_1)
  show a: "page_addr (vpage i j) = push_bit 22 i OR push_bit 12 j"
    by (rule bit_word_eqI) (auto simp: vpage_def page_addr_def frame_of_def bit_simps dest: bi bj)
  show "drop_bit 22 (page_addr (vpage i j)) = i"
    unfolding a by (rule bit_word_eqI) (auto simp: bit_simps dest: bi bj)
  show "drop_bit 12 (page_addr (vpage i j)) AND 0x3FF = j"
    unfolding a m by (rule bit_word_eqI) (auto simp: bit_simps dest: bi bj)
qed

lemma vpage_inject:
  assumes "unat i < 1024" "unat j < 1024" "unat i' < 1024" "unat j' < 1024"
  shows "vpage i j = vpage i' j' \<longleftrightarrow> i = i' \<and> j = j'"
  using vpage_idx(2,3) assms by metis

lemma vpage_surj: "v = vpage (drop_bit 22 (page_addr v)) (drop_bit 12 (page_addr v) AND 0x3FF)"
  using page_index_eq [of v "page_addr (vpage (drop_bit 22 (page_addr v)) (drop_bit 12 (page_addr v) AND 0x3FF))",
    unfolded vpage_idx(2,3) [OF l1_bound l2_bound] frame_of_page_addr] by blast

definition private_at :: "(pageno \<Rightarrow> pageno option) \<Rightarrow> pageno \<Rightarrow> pageno set" where
  "private_at t v = {p. t v = Some p \<and> private_page v p}"

lemma free_l2_entry_frees:
  assumes alloc: "page_allocator ops ok taken" and ok: "ok (vm_alloc s)" and l2: "l2_ok m r"
    and i: "unat i < 1024" and j: "j < 1024"
    and e: "m (elt (page_addr q) i) = pte_table r" and m: "\<And>x. frame_of x = r \<Longrightarrow> vm_mem s x = m x"
    and sub: "private_at (pt_lookup m (page_addr q)) (vpage i (of_nat j)) \<subseteq> taken (vm_alloc s)"
  shows "freed ops ok taken (private_at (pt_lookup m (page_addr q)) (vpage i (of_nat j))) s
    (free_l2_entry ops i (page_addr r) j s)"
proof -
  have uj: "unat (of_nat j :: u32) < 1024" using j by (simp add: unat_of_nat take_bit_eq_mod)
  let ?e = "m (elt (page_addr r) (of_nat j))" and ?v = "vpage i (of_nat j)"
  have ld: "load (page_addr r) (of_nat j) s = ?e" using m uj by (simp add: load_def)
  have lk: "pt_lookup m (page_addr q) ?v = (if ?e = 0 then None else Some (frame_of (push_bit 2 ?e)))"
    by (simp add: pt_lookup_def vpage_idx(2,3) [OF i uj] e Let_def)
  consider "?e = 0" | p where "?e = pte_leaf p" using l2 uj by (auto simp: l2_ok_def)
  then show ?thesis
  proof cases
    case 1
    then show ?thesis by (simp add: free_l2_entry_def ld private_at_def lk freed_none ok)
  next
    case (2 p)
    have "free_l2_entry ops i (page_addr r) j s =
        (if page_addr p \<noteq> page_addr ?v \<and> page_addr 0x80400 \<le> page_addr p \<and> page_addr p < page_addr 0x80800
         then call_pfree ops (page_addr p) s else s)"
      unfolding free_l2_entry_def Let_def ld 2 pte_leaf_base vpage_idx(1) [OF i uj] page_addr_consts by simp
    then have "free_l2_entry ops i (page_addr r) j s = (if private_page ?v p then call_pfree ops (page_addr p) s else s)"
      by (simp only: page_addr_less page_addr_inject private_page_def)
    moreover have "private_at (pt_lookup m (page_addr q)) ?v = (if private_page ?v p then {p} else {})"
      by (auto simp: private_at_def lk 2)
    ultimately show ?thesis using freed_one [OF alloc ok, of p] freed_none [where ok = ok, OF ok] sub by auto
  qed
qed

definition l1_frees :: "vmem \<Rightarrow> pageno \<Rightarrow> nat \<Rightarrow> pageno set" where
  "l1_frees m q i = {r. m (elt (page_addr q) (of_nat i)) = pte_table r} \<union>
     (\<Union>j \<in> set [0..<1024]. private_at (pt_lookup m (page_addr q)) (vpage (of_nat i) (of_nat j)))"

definition unshared :: "(pageno \<Rightarrow> pageno option) \<Rightarrow> bool" where
  "unshared t \<longleftrightarrow> (\<forall>v v' p. t v = Some p \<and> t v' = Some p \<and> private_page v p \<and> private_page v' p \<longrightarrow> v = v')"

lemma unat_idx: "i < 1024 \<Longrightarrow> unat (of_nat i :: u32) = i"
  by (simp add: unat_of_nat take_bit_eq_mod)

lemma private_at_disjoint:
  assumes "unshared t" and "v \<noteq> v'"
  shows "private_at t v \<inter> private_at t v' = {}"
  using assms unfolding unshared_def private_at_def by blast

lemma free_l1_entry_frees:
  assumes alloc: "page_allocator ops ok taken" and t: "table_ok m own T pid q" and u: "unshared (pt_lookup m (page_addr q))"
    and d: "private_pages (pt_lookup m (page_addr q)) \<inter> tables_of m q = {}" and i: "i < 1024"
    and ok: "ok (vm_alloc s)" and sub: "{q} \<union> l1_frees m q i \<subseteq> taken (vm_alloc s)"
    and mem: "\<And>x. frame_of x \<in> {q} \<union> l1_frees m q i \<Longrightarrow> vm_mem s x = m x"
  shows "freed ops ok taken (l1_frees m q i) s (free_l1_entry ops (page_addr q) i s)"
proof -
  let ?i = "of_nat i :: u32" and ?t = "pt_lookup m (page_addr q)"
  let ?P = "\<lambda>j. private_at ?t (vpage ?i (of_nat j))"
  have ui: "unat ?i < 1024" using i by (simp add: unat_idx)
  have ld: "load (page_addr q) ?i s = m (elt (page_addr q) ?i)" using mem ui by (simp add: load_def)
  from t ui show ?thesis
  proof (cases rule: table_ok_cases)
    case 1
    have "?P j = {}" if "j < 1024" for j
      using that 1 by (simp add: private_at_def pt_lookup_def vpage_idx(2,3) [OF ui] unat_idx)
    then have "l1_frees m q i = {}" using 1 pte_table_valid(2) by (auto simp: l1_frees_def)
    moreover have "free_l1_entry ops (page_addr q) i s = s" using 1 ld by (simp add: free_l1_entry_def)
    ultimately show ?thesis using freed_none [where ok = ok, OF ok] by simp
  next
    case (2 r)
    have lf: "l1_frees m q i = insert r (\<Union>j \<in> set [0..<1024]. ?P j)" using 2 by (auto simp: l1_frees_def)
    have rP: "?P j \<inter> {r} = {}" for j
      using d 2 ui by (auto simp: private_pages_def private_at_def tables_of_def)
    have inner: "freed ops ok taken (\<Union>j \<in> set [0..<1024]. ?P j) s (fold (free_l2_entry ops ?i (page_addr r)) [0..<1024] s)"
    proof (rule freed_fold [where K = "{r}" and m = m])
      show "freed ops ok taken (?P j) s' (free_l2_entry ops ?i (page_addr r) j s')"
        if "j \<in> set [0..<1024]" "ok (vm_alloc s')" "{r} \<union> ?P j \<subseteq> taken (vm_alloc s')"
          "\<And>x. frame_of x \<in> {r} \<union> ?P j \<Longrightarrow> vm_mem s' x = m x" for j s'
        using free_l2_entry_frees [OF alloc that(2) 2(5) ui _ 2(1)] that by auto
      show "?P j \<inter> ?P k = {}" if "j \<in> set [0..<1024]" "k \<in> set [0..<1024]" "j \<noteq> k" for j k
      proof (rule private_at_disjoint [OF u])
        show "vpage ?i (of_nat j) \<noteq> vpage ?i (of_nat k)"
          using that vpage_inject [OF ui _ ui] by (metis atLeastLessThan_iff set_upt unat_idx)
      qed
    qed (use ok sub mem lf rP in auto)
    then have "r \<in> taken (vm_alloc (fold (free_l2_entry ops ?i (page_addr r)) [0..<1024] s))"
      using sub lf rP by (fastforce simp: freed_def)
    moreover have "ok (vm_alloc (fold (free_l2_entry ops ?i (page_addr r)) [0..<1024] s))"
      using inner by (simp add: freed_def)
    ultimately have "freed ops ok taken ((\<Union>j \<in> set [0..<1024]. ?P j) \<union> {r}) s
        (call_pfree ops (page_addr r) (fold (free_l2_entry ops ?i (page_addr r)) [0..<1024] s))"
      using freed_trans [OF inner] freed_one [OF alloc] by blast
    moreover have "free_l1_entry ops (page_addr q) i s =
        call_pfree ops (page_addr r) (fold (free_l2_entry ops ?i (page_addr r)) [0..<1024] s)"
      using 2(1) by (simp add: free_l1_entry_def ld Let_def)
    ultimately show ?thesis by (simp add: lf)
  qed
qed

lemma all_frees:
  assumes t: "table_ok m own T pid q"
  shows "insert q (\<Union>i \<in> set [0..<1024]. l1_frees m q i) = tables_of m q \<union> private_pages (pt_lookup m (page_addr q))"
proof -
  let ?t = "pt_lookup m (page_addr q)"
  have ix: "(\<exists>i<1024. P (of_nat i)) \<longleftrightarrow> (\<exists>i. unat i < 1024 \<and> P i)" for P :: "u32 \<Rightarrow> bool"
  proof
    assume "\<exists>i. unat i < 1024 \<and> P i"
    then obtain i where "unat i < 1024" "P i" by blast
    then show "\<exists>i<1024. P (of_nat i)" by (intro exI [of _ "unat i"]) simp
  next
    assume "\<exists>i<1024. P (of_nat i)"
    then obtain i where "i < 1024" "P (of_nat i)" by blast
    then show "\<exists>i. unat i < 1024 \<and> P i" using unat_idx [of i] by (intro exI [of _ "of_nat i"]) simp
  qed
  have "(\<Union>i \<in> set [0..<1024]. l1_frees m q i) =
      {r. \<exists>i<1024. m (elt (page_addr q) (of_nat i)) = pte_table r} \<union>
      {p. \<exists>i<1024. \<exists>j<1024. p \<in> private_at ?t (vpage (of_nat i) (of_nat j))}"
    by (auto simp: l1_frees_def)
  also have "{p. \<exists>i<1024. \<exists>j<1024. p \<in> private_at ?t (vpage (of_nat i) (of_nat j))} =
      {p. \<exists>i. unat i < 1024 \<and> (\<exists>j. unat j < 1024 \<and> p \<in> private_at ?t (vpage i j))}"
    using ix [of "\<lambda>i. \<exists>j<1024. p \<in> private_at ?t (vpage i (of_nat j))" for p]
      ix [of "\<lambda>j. p \<in> private_at ?t (vpage i j)" for p i] by simp
  also have "\<dots> = private_pages ?t"
  proof -
    have "(\<exists>i. unat i < 1024 \<and> (\<exists>j. unat j < 1024 \<and> p \<in> private_at ?t (vpage i j))) \<longleftrightarrow>
        (\<exists>v. p \<in> private_at ?t v)" for p
      using vpage_surj l1_bound l2_bound by metis
    then show ?thesis by (simp add: private_pages_def private_at_def)
  qed
  finally show ?thesis
    using ix [of "\<lambda>i. m (elt (page_addr q) i) = pte_table r" for r] by (simp add: tables_of_def)
qed

lemma l1_frees_no_root:
  assumes t: "table_ok m own T pid q" and d: "private_pages (pt_lookup m (page_addr q)) \<inter> tables_of m q = {}" and i: "i < 1024"
  shows "q \<notin> l1_frees m q i"
proof
  assume "q \<in> l1_frees m q i"
  then consider "m (elt (page_addr q) (of_nat i)) = pte_table q" | "q \<in> private_pages (pt_lookup m (page_addr q))"
    by (auto simp: l1_frees_def private_at_def private_pages_def)
  then show False
  proof cases
    case 1
    show False using table_ok_entry [OF t _ 1] unat_idx [OF i] i by auto
  qed (use d in \<open>auto simp: tables_of_def\<close>)
qed

lemma l1_frees_disjoint:
  assumes t: "table_ok m own T pid q" and u: "unshared (pt_lookup m (page_addr q))"
    and d: "private_pages (pt_lookup m (page_addr q)) \<inter> tables_of m q = {}" and "i < 1024" "k < 1024" "i \<noteq> k"
  shows "l1_frees m q i \<inter> l1_frees m q k = {}"
proof -
  let ?i = "of_nat i :: u32" and ?k = "of_nat k :: u32" and ?t = "pt_lookup m (page_addr q)"
  have ui: "unat ?i < 1024" "unat ?k < 1024" and ne: "?i \<noteq> ?k" using assms(4-6) unat_idx by metis+
  have "private_at ?t (vpage ?i (of_nat j)) \<inter> private_at ?t (vpage ?k (of_nat j')) = {}" if "j < 1024" "j' < 1024" for j j'
    using private_at_disjoint [OF u] vpage_inject [OF ui(1) _ ui(2)] ne that by (metis unat_idx)
  moreover have "\<not> (m (elt (page_addr q) ?i) = pte_table r \<and> m (elt (page_addr q) ?k) = pte_table r)" for r
    using table_ok_entry [OF t ui(1)] table_ok_entry [OF t ui(2)] ne by fastforce
  moreover have "\<not> (m (elt (page_addr q) x) = pte_table r \<and> r \<in> private_at ?t v)" if "unat x < 1024" for r v x
    using d that by (auto simp: tables_of_def private_pages_def private_at_def)
  moreover have "p \<in> l1_frees m q x \<Longrightarrow> m (elt (page_addr q) (of_nat x)) = pte_table p \<or>
      (\<exists>j<1024. p \<in> private_at ?t (vpage (of_nat x) (of_nat j)))" for p x
    by (auto simp: l1_frees_def)
  ultimately show ?thesis using ui by (metis disjoint_iff)
qed

lemma free_all_frees:
  assumes alloc: "page_allocator ops ok taken" and t: "table_ok (vm_mem s) own (taken (vm_alloc s)) pid q"
    and u: "unshared (pt_lookup (vm_mem s) (page_addr q))"
    and d: "private_pages (pt_lookup (vm_mem s) (page_addr q)) \<inter> tables_of (vm_mem s) q = {}"
    and sub: "private_pages (pt_lookup (vm_mem s) (page_addr q)) \<subseteq> taken (vm_alloc s)"
    and ok: "ok (vm_alloc s)"
  shows "freed ops ok taken (tables_of (vm_mem s) q \<union> private_pages (pt_lookup (vm_mem s) (page_addr q))) s
    (call_pfree ops (page_addr q) (fold (free_l1_entry ops (page_addr q)) [0..<1024] s))"
proof -
  let ?m = "vm_mem s" and ?t = "pt_lookup (vm_mem s) (page_addr q)" and ?s = "fold (free_l1_entry ops (page_addr q)) [0..<1024] s"
  have all: "insert q (\<Union>i \<in> set [0..<1024]. l1_frees ?m q i) = tables_of ?m q \<union> private_pages ?t"
    by (rule all_frees [OF t])
  have tk: "tables_of ?m q \<subseteq> taken (vm_alloc s)" using tables_own(1) [OF t] by blast
  have q: "q \<in> taken (vm_alloc s)" "own q = (pid, None)" using t by (auto simp: table_ok_def)
  have l1: "l1_frees ?m q i \<subseteq> tables_of ?m q \<union> private_pages ?t - {q}" if "i < 1024" for i
    using all that l1_frees_no_root [OF t d that] by auto
  note disj = l1_frees_disjoint [OF t u d]
  have loop: "freed ops ok taken (\<Union>i \<in> set [0..<1024]. l1_frees ?m q i) s ?s"
  proof (rule freed_fold [where K = "{q}" and m = ?m])
    show "freed ops ok taken (l1_frees ?m q i) s' (free_l1_entry ops (page_addr q) i s')"
      if "i \<in> set [0..<1024]" "ok (vm_alloc s')" "{q} \<union> l1_frees ?m q i \<subseteq> taken (vm_alloc s')"
        "\<And>x. frame_of x \<in> {q} \<union> l1_frees ?m q i \<Longrightarrow> vm_mem s' x = ?m x" for i s'
      using free_l1_entry_frees [OF alloc t u d _ that(2-4)] that(1) by simp
    show "{q} \<union> (\<Union>i \<in> set [0..<1024]. l1_frees ?m q i) \<subseteq> taken (vm_alloc s)"
      using l1 tk sub q(1) by fastforce
  qed (use ok disj l1 in auto)
  then have "q \<in> taken (vm_alloc ?s)" "ok (vm_alloc ?s)" using l1 q(1) by (fastforce simp: freed_def)+
  then have "freed ops ok taken ((\<Union>i \<in> set [0..<1024]. l1_frees ?m q i) \<union> {q}) s (call_pfree ops (page_addr q) ?s)"
    using freed_trans [OF loop freed_one [OF alloc]] by blast
  then show ?thesis using all by simp
qed

text \<open>All pages that hold page tables.\<close>

definition table_pages :: "'a vm \<Rightarrow> pageno set" where
  "table_pages s = {r. \<exists>pid q. valid_pid pid \<and> pagetable_base pid s = page_addr q \<and> q \<noteq> 0 \<and> r \<in> tables_of (vm_mem s) q}"

lemma freed_keeps_table:
  assumes fr: "freed ops ok taken F s s1" and t: "table_ok (vm_mem s) own (taken (vm_alloc s)) p q"
    and apart: "tables_of (vm_mem s) q \<inter> F = {}"
  shows "table_ok (vm_mem s1) own (taken (vm_alloc s1)) p q" and "pt_lookup (vm_mem s1) (page_addr q) = pt_lookup (vm_mem s) (page_addr q)"
proof -
  have "r \<in> taken (vm_alloc s) - F" if "r \<in> tables_of (vm_mem s) q" for r using tables_own(1) [OF t that] apart that by auto
  then show "table_ok (vm_mem s1) own (taken (vm_alloc s1)) p q" "pt_lookup (vm_mem s1) (page_addr q) = pt_lookup (vm_mem s) (page_addr q)"
    using table_ok_frame [OF t, of "vm_mem s1" own "taken (vm_alloc s1)"] fr by (simp_all add: freed_def)
qed

text \<open>The root of \<open>pid\<close> goes, and pages that no other table has: the address spaces of the others stay.\<close>

lemma root_removed:
  assumes inv: "vm_inv ok taken s" and pid: "valid_pid pid" and fr: "freed ops ok taken F s s1"
    and all: "\<And>p. valid_pid p \<Longrightarrow> pagetable_base p s = 0 \<or>
      (\<exists>q. pagetable_base p s = page_addr q \<and> table_ok (vm_mem s) own (taken (vm_alloc s)) p q)"
    and apart: "\<And>p q. p \<noteq> pid \<Longrightarrow> valid_pid p \<Longrightarrow> pagetable_base p s = page_addr q \<Longrightarrow>
      table_ok (vm_mem s) own (taken (vm_alloc s)) p q \<Longrightarrow> tables_of (vm_mem s) q \<inter> F = {}"
  defines "s' \<equiv> s1\<lparr>pid_to_pagetable_base := (pid_to_pagetable_base s1)[nat pid := 0]\<rparr>"
  shows "vm_inv ok taken s'" and "vm_abs s' = (vm_abs s)(pid := None)"
proof -
  have len: "length (pid_to_pagetable_base s) = 17" using inv by (auto simp: vm_inv_def)
  have n: "nat pid < 17" using pid by (simp add: valid_pid_def nat_less_iff)
  have b0: "pagetable_base pid s' = 0" using n len fr by (simp add: pagetable_base_def freed_def s'_def)
  have b: "pagetable_base p s' = pagetable_base p s" if "p \<noteq> pid" "valid_pid p" for p
  proof -
    have "nat pid \<noteq> nat p" using that pid by (auto simp: valid_pid_def)
    then show ?thesis using fr by (simp add: pagetable_base_def freed_def s'_def)
  qed
  have other: "table_ok (vm_mem s') own (taken (vm_alloc s')) p q" "pt_lookup (vm_mem s') (page_addr q) = pt_lookup (vm_mem s) (page_addr q)"
    if "p \<noteq> pid" "valid_pid p" "pagetable_base p s = page_addr q" "table_ok (vm_mem s) own (taken (vm_alloc s)) p q" for p q
    using freed_keeps_table [OF fr that(4) apart [OF that]] by (simp_all add: s'_def)
  have "pagetable_base p s' = 0 \<or> (\<exists>q. pagetable_base p s' = page_addr q \<and> table_ok (vm_mem s') own (taken (vm_alloc s')) p q)"
    if "valid_pid p" for p
    using all [OF that] other [of p] b [of p] b0 that by (cases "p = pid") auto
  then show "vm_inv ok taken s'"
    unfolding vm_inv_def valid_pid_def [symmetric] using fr len by (auto simp: freed_def s'_def)
  have "vm_abs s' p = ((vm_abs s)(pid := None)) p" for p
  proof (cases "p = pid \<or> \<not> valid_pid p")
    case True
    then show ?thesis using b0 by (auto simp: vm_abs_def valid_pid_def)
  next
    case False
    then show ?thesis using all [of p] other [of p] b [of p] by (auto simp: vm_abs_def)
  qed
  then show "vm_abs s' = (vm_abs s)(pid := None)" ..
qed

lemma page_table_free_spec:
  assumes alloc: "page_allocator ops ok taken" and inv: "vm_inv ok taken s" and abs: "vm_abs s pid = Some t"
    and u: "unshared t" and d: "private_pages t \<inter> table_pages s = {}" and sub: "private_pages t \<subseteq> taken (vm_alloc s)"
  shows "\<exists>s' T. page_table_free ops pid s = Inr s' \<and> vm_inv ok taken s' \<and> vm_abs s' = (vm_abs s)(pid := None) \<and>
    T = tables_of (vm_mem s) (frame_of (pagetable_base pid s)) \<and>
    taken (vm_alloc s') = taken (vm_alloc s) - (T \<union> private_pages t) \<and>
    num_free_pages ops (vm_alloc s') = num_free_pages ops (vm_alloc s) + card T + card (private_pages t)"
proof -
  have pid: "valid_pid pid" and root: "pagetable_base pid s \<noteq> 0" using vm_abs_base [OF abs] by auto
  obtain own q where q: "pagetable_base pid s = page_addr q"
    and tb: "table_ok (vm_mem s) own (taken (vm_alloc s)) pid q"
    and all: "\<And>p. valid_pid p \<Longrightarrow> pagetable_base p s = 0 \<or>
      (\<exists>q. pagetable_base p s = page_addr q \<and> table_ok (vm_mem s) own (taken (vm_alloc s)) p q)"
    using inv pid root by (rule vm_inv_table) blast
  have ok: "ok (vm_alloc s)" using inv by (auto simp: vm_inv_def)
  have t: "t = pt_lookup (vm_mem s) (page_addr q)" using abs q by (auto simp: vm_abs_def split: if_splits)
  let ?T = "tables_of (vm_mem s) q" and ?F = "tables_of (vm_mem s) q \<union> private_pages t"
  have Tp: "?T \<subseteq> table_pages s" using pid q root by (auto simp: table_pages_def)
  let ?s = "call_pfree ops (page_addr q) (fold (free_l1_entry ops (page_addr q)) [0..<1024] s)"
  have fr: "freed ops ok taken ?F s ?s"
    unfolding t using u d sub Tp by (intro free_all_frees [OF alloc tb _ _ _ ok]) (auto simp: t)
  have apart: "tables_of (vm_mem s) q' \<inter> ?F = {}" if "p \<noteq> pid" "valid_pid p" "pagetable_base p s = page_addr q'"
      "table_ok (vm_mem s) own (taken (vm_alloc s)) p q'" for p q'
  proof -
    have "tables_of (vm_mem s) q' \<subseteq> table_pages s" using that by (auto simp: table_pages_def table_ok_def)
    moreover have "tables_of (vm_mem s) q' \<inter> ?T = {}" using tables_own(2) [OF tb] tables_own(2) [OF that(4)] that(1) by fastforce
    ultimately show ?thesis using d by blast
  qed
  have "page_table_free ops pid s = Inr (?s\<lparr>pid_to_pagetable_base := (pid_to_pagetable_base ?s)[nat pid := 0]\<rparr>)"
    using pid root q by (simp add: page_table_free_def valid_pid_def Let_def)
  moreover have "?T \<inter> private_pages t = {}" using Tp d by blast
  then have "card ?F = card ?T + card (private_pages t)" by (simp add: card_Un_disjoint)
  ultimately show ?thesis using root_removed [OF inv pid fr all apart] fr q by (auto simp: freed_def)
qed

section \<open>Properties\<close>

text \<open>
  C29: \<^verbatim>\<open>page_table_map()\<close> adds one page to the address space of one process and changes nothing else: a process without a
  page table first gets the identity regions of its kind (system or user). Mapping a page that is already mapped,
  and process numbers out of range, end in \<^verbatim>\<open>FATAL\<close>. The page tables of all processes stay well-formed and disjoint.
\<close>

theorem page_table_map_refines:
  assumes "page_allocator ops ok taken" and "vm_inv ok taken s" and "9 < num_free_pages ops (vm_alloc s)"
  shows "if \<not> valid_pid pid \<or> space_of s pid (ucast vpage_no) \<noteq> None
     then page_table_map ops pid vpage_no ppage_id s = Inl Fatal
     else \<exists>s'. page_table_map ops pid vpage_no ppage_id s = Inr s' \<and> vm_inv ok taken s' \<and>
       vm_abs s' = (vm_abs s)(pid \<mapsto> (space_of s pid)(ucast vpage_no \<mapsto> ucast ppage_id + 0x80400))"
proof (cases "valid_pid pid")
  case True
  then show ?thesis
    using page_table_map_spec [OF assms(1,2) True assms(3), of vpage_no ppage_id] by (simp split: if_splits)
next
  case False
  then show ?thesis by (auto simp: page_table_map_def valid_pid_def)
qed

text \<open>
  C30: \<^verbatim>\<open>page_table_free()\<close> gives back exactly the pages of the process's page table and its private pages, each once, so
  that the number of free pages grows by their number, and leaves the address spaces of the other processes as they are.
\<close>

theorem page_table_free_exact:
  assumes "page_allocator ops ok taken" and "vm_inv ok taken s" and "vm_abs s pid = Some t"
    and "unshared t" and "private_pages t \<inter> table_pages s = {}" and "private_pages t \<subseteq> taken (vm_alloc s)"
  shows "\<exists>s' T. page_table_free ops pid s = Inr s' \<and> vm_inv ok taken s' \<and> vm_abs s' = (vm_abs s)(pid := None) \<and>
    T = tables_of (vm_mem s) (frame_of (pagetable_base pid s)) \<and>
    taken (vm_alloc s') = taken (vm_alloc s) - (T \<union> private_pages t) \<and>
    num_free_pages ops (vm_alloc s') = num_free_pages ops (vm_alloc s) + card T + card (private_pages t)"
  using assms by (rule page_table_free_spec)

section \<open>An allocator with a list of free pages\<close>

definition free_list_ops :: "pageno list page_ops" where
  "free_list_ops = \<lparr>pmalloc = (\<lambda>clear_page a m. (page_addr (hd a), tl a, \<lambda>x. if frame_of x = hd a then 0 else m x)),
     pfree = (\<lambda>p a m. (frame_of p # a, m)), num_free_pages = length\<rparr>"

definition pool :: "pageno set" where
  "pool = {q. in_region 0x80400 1024 q}"

definition free_list_ok :: "pageno list \<Rightarrow> bool" where
  "free_list_ok a \<longleftrightarrow> distinct a \<and> set a \<subseteq> pool"

definition free_list_taken :: "pageno list \<Rightarrow> pageno set" where
  "free_list_taken a = pool - set a"

lemma free_list_allocator: "page_allocator free_list_ops free_list_ok free_list_taken"
proof -
  have z: "(0 :: pageno) \<notin> pool" by (simp add: pool_def in_region_def)
  show ?thesis
    unfolding page_allocator_def
  proof (intro conjI allI impI)
    fix a :: "pageno list" and m p a' m'
    assume "free_list_ok a" and "0 < num_free_pages free_list_ops a" and "pmalloc free_list_ops 1 a m = (p, a', m')"
    moreover from this obtain q b where "a = q # b" by (cases a) (auto simp: free_list_ops_def)
    ultimately show "(\<exists>q. p = page_addr q \<and> q \<noteq> 0 \<and> q \<notin> free_list_taken a \<and> free_list_taken a' = insert q (free_list_taken a) \<and>
        (\<forall>x. frame_of x = q \<longrightarrow> m' x = 0))" "free_list_ok a'"
        "num_free_pages free_list_ops a' = num_free_pages free_list_ops a - 1"
      using z by (auto simp: free_list_ops_def free_list_ok_def free_list_taken_def)
    fix x
    assume "frame_of x \<in> free_list_taken a"
    then show "m' x = m x"
      using \<open>pmalloc free_list_ops 1 a m = (p, a', m')\<close> \<open>a = q # b\<close> by (auto simp: free_list_ops_def free_list_taken_def)
  next
    fix a :: "pageno list" and m q a' m'
    assume "free_list_ok a" and "q \<in> free_list_taken a" and "pfree free_list_ops (page_addr q) a m = (a', m')"
    then show "free_list_ok a'" "free_list_taken a' = free_list_taken a - {q}"
        "num_free_pages free_list_ops a' = num_free_pages free_list_ops a + 1"
        "\<And>x. frame_of x \<in> free_list_taken a - {q} \<Longrightarrow> m' x = m x"
      by (auto simp: free_list_ops_def free_list_ok_def free_list_taken_def)
  qed
qed

text \<open>The state after booting, with sixteen free pages.\<close>

definition vm_bss :: "pageno list vm" where
  "vm_bss = \<lparr>vm_mem = (\<lambda>_. 0), pid_to_pagetable_base = replicate 17 0, vm_alloc = map (\<lambda>i. 0x80400 + of_nat i) [0..<16],
     vm_trace = [], earth_mmu_set = True\<rparr>"

lemma vm_bss_inv: "vm_inv free_list_ok free_list_taken vm_bss"
proof -
  have "free_list_ok (vm_alloc vm_bss)"
    by (simp add: free_list_ok_def vm_bss_def pool_def in_region_def upt_conv_Cons)
  moreover have "pagetable_base pid vm_bss = 0" if "valid_pid pid" for pid
    using that by (simp add: pagetable_base_def vm_bss_def valid_pid_def nat_less_iff nth_replicate)
  ultimately show ?thesis unfolding vm_inv_def valid_pid_def [symmetric] by (auto simp: vm_bss_def)
qed

lemma space_of_bss: "space_of vm_bss pid = initial_map pid" and vm_abs_bss: "vm_abs vm_bss = Map.empty"
proof -
  have "vm_abs vm_bss pid = None" for pid
    by (simp add: vm_abs_def pagetable_base_def vm_bss_def nat_less_iff nth_replicate)
  then show "space_of vm_bss pid = initial_map pid" and "vm_abs vm_bss = Map.empty" by (auto simp: space_of_def)
qed

lemma initial_map_user: "initial_map 6 v = (if v = 0x80302 then Some v else None)"
proof -
  have "in_region 0x80302 1 v \<longleftrightarrow> v = 0x80302"
    by (auto simp: in_region_def word_unat_eq_iff)
  then show ?thesis by (simp add: initial_map_def initial_pages_def add_region_def)
qed

theorem page_table_map_refines_witness:
  "(\<exists>s'. page_table_map free_list_ops 6 0x80200 20 vm_bss = Inr s' \<and>
     vm_abs s' = [6 \<mapsto> [0x80302 \<mapsto> 0x80302, 0x80200 \<mapsto> 0x80414]]) \<and>
   page_table_map free_list_ops 1 0x80302 20 vm_bss = Inl Fatal \<and>
   page_table_map free_list_ops 17 0 0 vm_bss = Inl Fatal"
proof -
  have f: "9 < num_free_pages free_list_ops (vm_alloc vm_bss)"
    by (simp add: free_list_ops_def vm_bss_def)
  note law = page_table_map_refines [OF free_list_allocator vm_bss_inv f]
  have i6: "initial_map 6 = [0x80302 \<mapsto> 0x80302]" by (auto simp: initial_map_user fun_eq_iff)
  have i1: "initial_map 1 0x80302 = Some 0x80302"
    by (simp add: initial_map_def initial_pages_def add_region_def in_region_def)
  show ?thesis
  proof (intro conjI)
    show "\<exists>s'. page_table_map free_list_ops 6 0x80200 20 vm_bss = Inr s' \<and>
        vm_abs s' = [6 \<mapsto> [0x80302 \<mapsto> 0x80302, 0x80200 \<mapsto> 0x80414]]"
      using law [where pid = "6" and vpage_no = "0x80200" and ppage_id = "20"] by (auto simp: space_of_bss vm_abs_bss i6 valid_pid_def)
    show "page_table_map free_list_ops 1 0x80302 20 vm_bss = Inl Fatal"
      using law [where pid = "1" and vpage_no = "0x80302" and ppage_id = "20"] by (simp add: space_of_bss i1)
    show "page_table_map free_list_ops 17 0 0 vm_bss = Inl Fatal"
      using law [where pid = "17" and vpage_no = "0" and ppage_id = "0"] by (simp add: valid_pid_def)
  qed
qed

text \<open>The state after that call.\<close>

definition vm_user :: "pageno list vm" where
  "vm_user = vm_bss\<lparr>
     vm_mem := (\<lambda>_. 0)(elt (page_addr 0x80400) 512 := pte_table 0x80401,
       elt (page_addr 0x80401) 0x302 := pte_leaf 0x80302, elt (page_addr 0x80401) 0x200 := pte_leaf 0x80414),
     pid_to_pagetable_base := (replicate 17 0)[6 := page_addr 0x80400],
     vm_alloc := map (\<lambda>i. 0x80400 + of_nat i) [2..<16]\<rparr>"

lemma vm_user_run: "page_table_map free_list_ops 6 0x80200 20 vm_bss = Inr vm_user"
proof -
  have a: "map (\<lambda>i. 0x80400 + of_nat i) [0..<16] =
      (0x80400 :: pageno) # 0x80401 # map (\<lambda>i. 0x80400 + of_nat i) [2..<16]"
    by (simp add: upt_conv_Cons)
  have p: "page_addr 0x80400 \<noteq> 0" by simp
  show ?thesis
    by (simp add: page_table_map_def pagetable_base_def vm_bss_def a free_list_ops_def call_pmalloc_def
        initial_regions_def setup_identity_region_def load_def store_def pte_table_page walk_def vm_user_def pte_leaf_def Let_def)
qed

lemma vm_user_abs: "vm_abs vm_user = [6 \<mapsto> [0x80302 \<mapsto> 0x80302, 0x80200 \<mapsto> 0x80414]]"
  and vm_user_inv: "vm_inv free_list_ok free_list_taken vm_user"
proof -
  have f: "9 < num_free_pages free_list_ops (vm_alloc vm_bss)"
    by (simp add: free_list_ops_def vm_bss_def)
  have i6: "initial_map 6 = [0x80302 \<mapsto> 0x80302]" by (auto simp: initial_map_user fun_eq_iff)
  show "vm_abs vm_user = [6 \<mapsto> [0x80302 \<mapsto> 0x80302, 0x80200 \<mapsto> 0x80414]]"
    and "vm_inv free_list_ok free_list_taken vm_user"
    using page_table_map_spec [OF free_list_allocator vm_bss_inv _ f, where pid = "6" and vpage_no = "0x80200" and ppage_id = "20"]
    by (auto simp: space_of_bss vm_abs_bss i6 valid_pid_def vm_user_run)
qed

lemma vm_user_tables: "table_pages vm_user = {0x80400, 0x80401}" "tables_of (vm_mem vm_user) 0x80400 = {0x80400, 0x80401}"
proof -
  have m: "vm_mem vm_user (elt (page_addr 0x80400) i) = (if i = 512 then pte_table 0x80401 else 0)" if "unat i < 1024" for i
    using that by (simp add: vm_user_def)
  have "unat (512 :: u32) < 1024" by simp
  then have "(\<exists>i. unat i < 1024 \<and> vm_mem vm_user (elt (page_addr 0x80400) i) = pte_table r) \<longleftrightarrow> r = 0x80401" for r
    using m by (metis pte_table_inject pte_table_valid(2))
  then show t: "tables_of (vm_mem vm_user) 0x80400 = {0x80400, 0x80401}" by (auto simp: tables_of_def)
  have "pagetable_base pid vm_user = (if pid = 6 then page_addr 0x80400 else 0)" if "valid_pid pid" for pid
    using that by (auto simp: pagetable_base_def vm_user_def valid_pid_def nth_list_update nat_less_iff)
  then have b: "(valid_pid pid \<and> pagetable_base pid vm_user = page_addr q \<and> q \<noteq> 0) \<longleftrightarrow> pid = 6 \<and> q = 0x80400" for pid q
    by (auto simp: valid_pid_def split: if_splits)
  have "r \<in> table_pages vm_user \<longleftrightarrow> (\<exists>pid q. (valid_pid pid \<and> pagetable_base pid vm_user = page_addr q \<and> q \<noteq> 0) \<and>
      r \<in> tables_of (vm_mem vm_user) q)" for r
    by (simp add: table_pages_def)
  then have "r \<in> table_pages vm_user \<longleftrightarrow> r \<in> tables_of (vm_mem vm_user) 0x80400" for r
    unfolding b by simp
  then show "table_pages vm_user = {0x80400, 0x80401}" using t by blast
qed

theorem page_table_free_exact_witness:
  "\<exists>s'. page_table_free free_list_ops 6 vm_user = Inr s' \<and> vm_abs s' = Map.empty \<and> length (vm_alloc s') = 17"
proof -
  let ?t = "[0x80302 \<mapsto> 0x80302, 0x80200 \<mapsto> 0x80414] :: pageno \<Rightarrow> pageno option"
  have t: "?t v = Some q \<longleftrightarrow> v = 0x80200 \<and> q = 0x80414 \<or> v = 0x80302 \<and> q = 0x80302" for v q
    by auto
  have pp: "private_page 0x80200 0x80414" "\<not> private_page 0x80302 0x80302" by (simp_all add: private_page_def)
  have p: "private_pages ?t = {0x80414}"
    unfolding private_pages_def t using pp by auto
  have u: "unshared ?t" unfolding unshared_def t using pp by auto
  have tk: "private_pages ?t \<subseteq> free_list_taken (vm_alloc vm_user)"
    by (simp add: p free_list_taken_def pool_def in_region_def vm_user_def upt_conv_Cons)
  have d: "private_pages ?t \<inter> table_pages vm_user = {}" by (simp add: p vm_user_tables)
  have a: "vm_abs vm_user 6 = Some ?t" by (simp add: vm_user_abs)
  have b: "frame_of (pagetable_base 6 vm_user) = 0x80400" by (simp add: pagetable_base_def vm_user_def)
  obtain s' where s': "page_table_free free_list_ops 6 vm_user = Inr s'" "vm_abs s' = (vm_abs vm_user)(6 := None)"
      "num_free_pages free_list_ops (vm_alloc s') = num_free_pages free_list_ops (vm_alloc vm_user) +
        card (tables_of (vm_mem vm_user) (frame_of (pagetable_base 6 vm_user))) + card (private_pages ?t)"
    using page_table_free_exact [OF free_list_allocator vm_user_inv a u d tk] by blast
  have "length (vm_alloc vm_user) = 14" by (simp add: vm_user_def)
  moreover have "num_free_pages free_list_ops = length" by (simp add: free_list_ops_def)
  ultimately have "length (vm_alloc s') = 17" using s'(3) by (simp add: b vm_user_tables p)
  then show ?thesis using s'(1,2) by (simp add: vm_user_abs)
qed

theorem address_space_active_witness:
  "page_table_translate free_list_ops 6 0x80200123 vm_user = Inr (0x80414123, vm_user) \<and>
   (\<exists>satp s'. page_table_switch 6 vm_user = Inr s' \<and> sv32 satp (vm_mem s') Store 0x80200123 = Some 0x80414123)"
proof -
  have a: "vm_abs vm_user 6 = Some [0x80302 \<mapsto> 0x80302, 0x80200 \<mapsto> 0x80414]" by (simp add: vm_user_abs)
  have f: "frame_of 0x80200123 = 0x80200" "in_page 0x80200123 0x80414 = 0x80414123"
    by (simp_all add: frame_of_def in_page_def page_addr_def)
  show ?thesis
    using address_space_active [OF vm_user_inv a, of free_list_ops "0x80200123" Store] by (auto simp: f)
qed

end
