(* ===== verification/Mlfq.thy ===== *)
theory Mlfq
  imports Prelude
begin

text \<open>
  \<^verbatim>\<open>grass/mlfq.c\<close>: the multi-level feedback queue scheduler. The queues of \<^verbatim>\<open>queue.h\<close> and the function \<^verbatim>\<open>pid2idx()\<close> are
  not part of the repository; they are arguments of the definitions, and \<open>queue_laws\<close> states what the code relies on.
  A pointer to a process is its index in \<^verbatim>\<open>proc_set\<close>.
\<close>

section \<open>Data\<close>

datatype proc_status =
  PROC_UNUSED | PROC_LOADING | PROC_READY | PROC_RUNNING | PROC_RUNNABLE | PROC_PENDING_SYSCALL | PROC_SLEEPING

datatype state_transition =
  PROC_ON_ARRIVE | PROC_ON_SCHED_IN | PROC_ON_SCHED_OUT | PROC_ON_STOP | PROC_ON_SLEEP

abbreviation (input) QUANTUM :: "64 word" where "QUANTUM \<equiv> 6000000"
abbreviation (input) FIRST_USER_PID :: int where "FIRST_USER_PID \<equiv> 6"

text \<open>A process, with the fields the scheduler uses; of \<^verbatim>\<open>schd_attr\<close> its view as eight 64-bit numbers.\<close>

record process =
  proc_pid :: int
  proc_status :: proc_status
  longlongs :: "64 word list"

record 'q queue_ops =
  queue_init :: "'q \<Rightarrow> 'q"
  enqueue :: "'q \<Rightarrow> nat \<Rightarrow> 'q"
  dequeue :: "'q \<Rightarrow> nat option \<times> 'q"
  try_rm_item :: "'q \<Rightarrow> nat \<Rightarrow> 'q"
  node_count :: "'q \<Rightarrow> nat"

text \<open>
  The scheduler's variables, the process table, and the index of the current process,
  \<^verbatim>\<open>core_to_proc_idx[core_in_kernel]\<close>.
\<close>

record 'q mlfq_state =
  q_high :: 'q
  q_mid :: 'q
  q_low :: 'q
  initialized :: bool
  proc_set :: "process list"
  curr_proc_idx :: nat

definition curr_pid :: "'q mlfq_state \<Rightarrow> int" where
  "curr_pid s = proc_pid (proc_set s ! curr_proc_idx s)"

definition curr_status :: "'q mlfq_state \<Rightarrow> proc_status" where
  "curr_status s = proc_status (proc_set s ! curr_proc_idx s)"

section \<open>Operations\<close>

definition mlfq_init :: "'q queue_ops \<Rightarrow> 'q mlfq_state \<Rightarrow> 'q mlfq_state" where
  "mlfq_init ops s = s\<lparr>q_high := queue_init ops (q_high s), q_mid := queue_init ops (q_mid s),
     q_low := queue_init ops (q_low s)\<rparr>"

definition remove_pid :: "'q queue_ops \<Rightarrow> (int \<Rightarrow> nat) \<Rightarrow> int \<Rightarrow> 'q mlfq_state \<Rightarrow> 'q mlfq_state" where
  "remove_pid ops pid2idx pid s =
     s\<lparr>q_high := try_rm_item ops (q_high s) (pid2idx pid), q_mid := try_rm_item ops (q_mid s) (pid2idx pid),
       q_low := try_rm_item ops (q_low s) (pid2idx pid)\<rparr>"

definition can_run :: "process \<Rightarrow> bool" where
  "can_run p \<longleftrightarrow> proc_status p = PROC_READY \<or> proc_status p = PROC_RUNNABLE"

text \<open>The loop of \<^verbatim>\<open>dequeue_runnable()\<close>, for a number of turns.\<close>

fun dequeue_loop :: "'q queue_ops \<Rightarrow> process list \<Rightarrow> nat \<Rightarrow> 'q \<Rightarrow> int \<times> 'q" where
  "dequeue_loop ops ps 0 q = (0, q)"
| "dequeue_loop ops ps (Suc count) q =
     (case dequeue ops q of
        (None, q) \<Rightarrow> (0, q)
      | (Some p, q) \<Rightarrow> if can_run (ps ! p) then (proc_pid (ps ! p), q)
                      else dequeue_loop ops ps count (enqueue ops q p))"

definition dequeue_runnable :: "'q queue_ops \<Rightarrow> process list \<Rightarrow> 'q \<Rightarrow> int \<times> 'q" where
  "dequeue_runnable ops ps q = dequeue_loop ops ps (node_count ops q) q"

definition pick_next_pid :: "'q queue_ops \<Rightarrow> 'q mlfq_state \<Rightarrow> int \<times> 'q mlfq_state" where
  "pick_next_pid ops s =
     (let (pid, q) = dequeue_runnable ops (proc_set s) (q_high s); s = s\<lparr>q_high := q\<rparr>;
          (pid, s) = (if pid = 0 then let (pid, q) = dequeue_runnable ops (proc_set s) (q_mid s) in (pid, s\<lparr>q_mid := q\<rparr>)
                      else (pid, s))
      in if pid = 0 then let (pid, q) = dequeue_runnable ops (proc_set s) (q_low s) in (pid, s\<lparr>q_low := q\<rparr>)
         else (pid, s))"

definition level_for_pid :: "(int \<Rightarrow> nat) \<Rightarrow> int \<Rightarrow> 'q mlfq_state \<Rightarrow> nat" where
  "level_for_pid pid2idx pid s =
     (if pid < FIRST_USER_PID then 0
      else let t = longlongs (proc_set s ! pid2idx pid) ! 3
           in if t \<le> QUANTUM then 0 else if t < 2 * QUANTUM then 1 else 2)"

definition enqueue_pid :: "'q queue_ops \<Rightarrow> (int \<Rightarrow> nat) \<Rightarrow> int \<Rightarrow> 'q mlfq_state \<Rightarrow> 'q mlfq_state" where
  "enqueue_pid ops pid2idx pid s =
     (let s = remove_pid ops pid2idx pid s; p = pid2idx pid
      in if proc_status (proc_set s ! p) = PROC_UNUSED then s
         else let lvl = level_for_pid pid2idx pid s
              in if lvl = 0 then s\<lparr>q_high := enqueue ops (q_high s) p\<rparr>
                 else if lvl = 1 then s\<lparr>q_mid := enqueue ops (q_mid s) p\<rparr>
                 else s\<lparr>q_low := enqueue ops (q_low s) p\<rparr>)"

definition mlfq :: "'q queue_ops \<Rightarrow> (int \<Rightarrow> nat) \<Rightarrow> 'q mlfq_state \<Rightarrow> int \<times> 'q mlfq_state" where
  "mlfq ops pid2idx s =
     (let s = (if curr_status s = PROC_RUNNING \<or> curr_status s = PROC_RUNNABLE \<or> curr_status s = PROC_READY
               then remove_pid ops pid2idx (curr_pid s) s else s);
          (next_pid, s) = pick_next_pid ops s
      in if next_pid = 0
         then (if curr_status s = PROC_RUNNING \<or> curr_status s = PROC_RUNNABLE then curr_pid s else 0, s)
         else (next_pid,
               if curr_status s = PROC_READY \<or> curr_status s = PROC_RUNNABLE
               then enqueue_pid ops pid2idx (curr_pid s) s else s))"

definition mlfq_update ::
    "'q queue_ops \<Rightarrow> (int \<Rightarrow> nat) \<Rightarrow> int \<Rightarrow> state_transition \<Rightarrow> int \<Rightarrow> 'q mlfq_state \<Rightarrow> 'q mlfq_state" where
  "mlfq_update ops pid2idx pid tran time_units s =
     (let s = (if \<not> initialized s then (mlfq_init ops s)\<lparr>initialized := True\<rparr> else s)
      in case tran of
           PROC_ON_ARRIVE \<Rightarrow> enqueue_pid ops pid2idx pid s
         | PROC_ON_SCHED_IN \<Rightarrow> remove_pid ops pid2idx pid s
         | PROC_ON_SCHED_OUT \<Rightarrow> enqueue_pid ops pid2idx pid s
         | PROC_ON_STOP \<Rightarrow> remove_pid ops pid2idx pid s
         | PROC_ON_SLEEP \<Rightarrow> s)"

section \<open>The queues as lists\<close>

text \<open>
  What the code relies on: \<open>ok\<close> holds of an initialised queue, and \<open>items\<close> are its entries from head to tail. Items are
  added at the tail and taken from the head, and \<^verbatim>\<open>try_rm_item()\<close> removes an item wherever it is.
\<close>

definition queue_laws :: "'q queue_ops \<Rightarrow> ('q \<Rightarrow> bool) \<Rightarrow> ('q \<Rightarrow> nat list) \<Rightarrow> bool" where
  "queue_laws ops ok items \<longleftrightarrow>
     (\<forall>q. ok (queue_init ops q) \<and> items (queue_init ops q) = []) \<and>
     (\<forall>q p. ok q \<longrightarrow> ok (enqueue ops q p) \<and> items (enqueue ops q p) = items q @ [p]) \<and>
     (\<forall>q p. ok q \<longrightarrow> distinct (items q) \<longrightarrow> ok (try_rm_item ops q p) \<and> items (try_rm_item ops q p) = filter (\<lambda>x. x \<noteq> p) (items q)) \<and>
     (\<forall>q. ok q \<longrightarrow> node_count ops q = length (items q)) \<and>
     (\<forall>q r q'. ok q \<longrightarrow> dequeue ops q = (r, q') \<longrightarrow> ok q' \<and>
        (case items q of [] \<Rightarrow> r = None \<and> items q' = [] | p # ps \<Rightarrow> r = Some p \<and> items q' = ps))"

text \<open>The three queues, and that no process is in two of them, or twice in one.\<close>

definition queues :: "('q \<Rightarrow> nat list) \<Rightarrow> 'q mlfq_state \<Rightarrow> nat list \<times> nat list \<times> nat list" where
  "queues items s = (items (q_high s), items (q_mid s), items (q_low s))"

definition queued :: "('q \<Rightarrow> nat list) \<Rightarrow> 'q mlfq_state \<Rightarrow> nat list" where
  "queued items s = items (q_high s) @ items (q_mid s) @ items (q_low s)"

definition mlfq_inv :: "('q \<Rightarrow> bool) \<Rightarrow> ('q \<Rightarrow> nat list) \<Rightarrow> 'q mlfq_state \<Rightarrow> bool" where
  "mlfq_inv ok items s \<longleftrightarrow> ok (q_high s) \<and> ok (q_mid s) \<and> ok (q_low s) \<and> distinct (queued items s)"

lemma queue_lawsD:
  assumes "queue_laws ops ok items"
  shows "ok (queue_init ops q)" and "items (queue_init ops q) = []"
    and "ok q \<Longrightarrow> ok (enqueue ops q p)" and "ok q \<Longrightarrow> items (enqueue ops q p) = items q @ [p]"
    and "ok q \<Longrightarrow> distinct (items q) \<Longrightarrow> ok (try_rm_item ops q p)"
    and "ok q \<Longrightarrow> distinct (items q) \<Longrightarrow> items (try_rm_item ops q p) = filter (\<lambda>x. x \<noteq> p) (items q)"
    and "ok q \<Longrightarrow> node_count ops q = length (items q)"
  using assms by (simp_all add: queue_laws_def)

lemma dequeue_law:
  assumes "queue_laws ops ok items" and "ok q"
  shows "items q = [] \<Longrightarrow> \<exists>q'. dequeue ops q = (None, q') \<and> ok q' \<and> items q' = []"
    and "items q = p # ps \<Longrightarrow> \<exists>q'. dequeue ops q = (Some p, q') \<and> ok q' \<and> items q' = ps"
proof -
  obtain r q' where d: "dequeue ops q = (r, q')" by fastforce
  have "ok q' \<and> (case items q of [] \<Rightarrow> r = None \<and> items q' = [] | p # ps \<Rightarrow> r = Some p \<and> items q' = ps)"
    using assms d by (simp add: queue_laws_def)
  then show "items q = [] \<Longrightarrow> \<exists>q'. dequeue ops q = (None, q') \<and> ok q' \<and> items q' = []"
    and "items q = p # ps \<Longrightarrow> \<exists>q'. dequeue ops q = (Some p, q') \<and> ok q' \<and> items q' = ps"
    using d by auto
qed

section \<open>Choosing a process\<close>

text \<open>
  The choice from one queue: the first process that can run leaves it, and those before it move to the back in their order.
\<close>

definition choose_from :: "process list \<Rightarrow> nat list \<Rightarrow> (nat \<times> nat list) option" where
  "choose_from ps xs =
     (case dropWhile (\<lambda>p. \<not> can_run (ps ! p)) xs of
        [] \<Rightarrow> None
      | p # rest \<Rightarrow> Some (p, rest @ takeWhile (\<lambda>p. \<not> can_run (ps ! p)) xs))"

lemma dequeue_loop_spec:
  assumes laws: "queue_laws ops ok items"
  shows "ok q \<Longrightarrow> items q = xs @ ys \<Longrightarrow> length xs = n \<Longrightarrow>
    \<exists>q'. ok q' \<and> (case dropWhile (\<lambda>p. \<not> can_run (ps ! p)) xs of
        [] \<Rightarrow> dequeue_loop ops ps n q = (0, q') \<and> items q' = ys @ xs
      | p # rest \<Rightarrow> dequeue_loop ops ps n q = (proc_pid (ps ! p), q') \<and>
          items q' = rest @ ys @ takeWhile (\<lambda>p. \<not> can_run (ps ! p)) xs)"
proof (induction n arbitrary: q xs ys)
  case 0
  then show ?case by auto
next
  case (Suc n)
  then obtain x xs' where xs: "xs = x # xs'" by (cases xs) auto
  obtain q1 where q1: "dequeue ops q = (Some x, q1)" "ok q1" "items q1 = xs' @ ys"
    using dequeue_law(2) [OF laws Suc.prems(1), of x "xs' @ ys"] Suc.prems(2) xs by auto
  show ?case
  proof (cases "can_run (ps ! x)")
    case True
    then show ?thesis using xs q1 by auto
  next
    case False
    have e: "ok (enqueue ops q1 x)" "items (enqueue ops q1 x) = xs' @ ys @ [x]"
      using queue_lawsD(3,4) [OF laws q1(2)] q1(3) by simp_all
    show ?thesis using Suc.IH [OF e] Suc.prems(3) xs False q1(1) by (simp cong: list.case_cong)
  qed
qed

lemma dequeue_runnable_spec:
  assumes laws: "queue_laws ops ok items" and "ok q"
  shows "\<exists>q'. ok q' \<and>
    (case choose_from ps (items q) of
       None \<Rightarrow> dequeue_runnable ops ps q = (0, q') \<and> items q' = items q
     | Some (p, rest) \<Rightarrow> dequeue_runnable ops ps q = (proc_pid (ps ! p), q') \<and> items q' = rest)"
  using dequeue_loop_spec [OF laws assms(2), of "items q" "[]" "length (items q)" ps] queue_lawsD(7) [OF laws assms(2)]
  by (cases "dropWhile (\<lambda>p. \<not> can_run (ps ! p)) (items q)")
    (auto simp: dequeue_runnable_def choose_from_def simp del: dropWhile_eq_Nil_conv)

lemma choose_from_Some:
  assumes "choose_from ps xs = Some (p, rest)"
  shows "p \<in> set xs" and "can_run (ps ! p)" and "distinct xs \<Longrightarrow> distinct (p # rest)" and "set xs = insert p (set rest)"
proof -
  let ?P = "\<lambda>p. \<not> can_run (ps ! p)"
  have d: "dropWhile ?P xs = p # drop 1 (dropWhile ?P xs)" "rest = drop 1 (dropWhile ?P xs) @ takeWhile ?P xs"
    using assms by (auto simp: choose_from_def split: list.splits)
  have xs: "xs = takeWhile ?P xs @ p # drop 1 (dropWhile ?P xs)" using d(1) takeWhile_dropWhile_id [of ?P xs] by simp
  show "p \<in> set xs" by (subst xs) simp
  show "can_run (ps ! p)" using d(1) hd_dropWhile [of ?P xs] by (cases "dropWhile ?P xs") auto
  show "set xs = insert p (set rest)" unfolding d(2) by (subst xs) auto
  show "distinct xs \<Longrightarrow> distinct (p # rest)"
    unfolding d(2) by (subst (asm) xs) auto
qed

text \<open>A queue that lost an entry to the scheduler: what stood behind it, then what stood before it.\<close>

definition take_out :: "'a \<Rightarrow> 'a list \<Rightarrow> 'a list" where
  "take_out p xs = tl (dropWhile (\<lambda>x. x \<noteq> p) xs) @ takeWhile (\<lambda>x. x \<noteq> p) xs"

lemma take_out_split:
  assumes "p \<notin> set xs"
  shows "take_out p (xs @ p # ys) = ys @ xs"
proof -
  have "dropWhile (\<lambda>x. x \<noteq> p) (xs @ p # ys) = p # ys" "takeWhile (\<lambda>x. x \<noteq> p) (xs @ p # ys) = xs"
    using assms by (induction xs) auto
  then show ?thesis by (simp add: take_out_def)
qed

lemma choose_from_take_out:
  assumes "choose_from ps xs = Some (p, rest)" and "distinct xs"
  shows "rest = take_out p xs"
proof -
  let ?P = "\<lambda>p. \<not> can_run (ps ! p)"
  obtain ys where ys: "dropWhile ?P xs = p # ys" "rest = ys @ takeWhile ?P xs"
    using assms(1) by (auto simp: choose_from_def split: list.splits)
  then have xs: "xs = takeWhile ?P xs @ p # ys" using takeWhile_dropWhile_id [of ?P xs] by simp
  then have "p \<notin> set (takeWhile ?P xs)" using assms(2) by (metis disjoint_insert(1) distinct_append list.set(2))
  then show ?thesis using take_out_split [of p "takeWhile ?P xs" ys] xs ys(2) by simp
qed

lemma choose_from_None: "choose_from ps xs = None \<longleftrightarrow> (\<forall>p \<in> set xs. \<not> can_run (ps ! p))"
proof -
  have "choose_from ps xs = None \<longleftrightarrow> dropWhile (\<lambda>p. \<not> can_run (ps ! p)) xs = []"
    by (simp add: choose_from_def del: dropWhile_eq_Nil_conv split: list.split)
  then show ?thesis by simp
qed

lemma choose_from_find: "map_option fst (choose_from ps xs) = find (\<lambda>p. can_run (ps ! p)) xs"
proof -
  have "(case dropWhile (\<lambda>p. \<not> can_run (ps ! p)) xs of [] \<Rightarrow> None | p # rest \<Rightarrow> Some p) = find (\<lambda>p. can_run (ps ! p)) xs"
    by (induction xs) auto
  then show ?thesis
    by (cases "dropWhile (\<lambda>p. \<not> can_run (ps ! p)) xs") (auto simp: choose_from_def simp del: dropWhile_eq_Nil_conv)
qed

lemma find_append: "find P (xs @ ys) = (case find P xs of None \<Rightarrow> find P ys | Some x \<Rightarrow> Some x)"
  by (induction xs) auto

lemma dequeue_runnable_keeps:
  assumes "queue_laws ops ok items" and "ok q" and "dequeue_runnable ops ps q = (pid, q')"
  shows "ok q'" and "distinct (items q) \<Longrightarrow> distinct (items q')" and "set (items q') \<subseteq> set (items q)"
  using dequeue_runnable_spec [OF assms(1,2), of ps] assms(3)
    choose_from_Some(3,4) [of ps "items q"]
  by (auto split: option.splits)

lemma pick_next_pid_keeps:
  assumes laws: "queue_laws ops ok items" and inv: "mlfq_inv ok items s" and p: "pick_next_pid ops s = (pid, s')"
  shows "mlfq_inv ok items s'" and "set (queued items s') \<subseteq> set (queued items s)"
    and "proc_set s' = proc_set s" and "curr_proc_idx s' = curr_proc_idx s" and "initialized s' = initialized s"
proof -
  let ?d = "dequeue_runnable ops (proc_set s)"
  obtain p1 h where h: "?d (q_high s) = (p1, h)" by fastforce
  obtain p2 m where m: "?d (q_mid s) = (p2, m)" by fastforce
  obtain p3 l where l: "?d (q_low s) = (p3, l)" by fastforce
  have s': "s' = s\<lparr>q_high := h, q_mid := if p1 = 0 then m else q_mid s, q_low := if p1 = 0 \<and> p2 = 0 then l else q_low s\<rparr>"
    using p by (auto simp: pick_next_pid_def h m l split: if_splits)
  have ok: "ok (q_high s)" "ok (q_mid s)" "ok (q_low s)" using inv by (auto simp: mlfq_inv_def)
  note keeps = dequeue_runnable_keeps [OF laws ok(1) h] dequeue_runnable_keeps [OF laws ok(2) m]
    dequeue_runnable_keeps [OF laws ok(3) l]
  show "mlfq_inv ok items s'" using inv keeps unfolding s' mlfq_inv_def queued_def by auto
  show "set (queued items s') \<subseteq> set (queued items s)" using keeps unfolding s' queued_def by auto
  show "proc_set s' = proc_set s" "curr_proc_idx s' = curr_proc_idx s" "initialized s' = initialized s"
    by (simp_all add: s')
qed

lemma dequeue_runnable_None:
  assumes "queue_laws ops ok items" and "ok q" and "find (\<lambda>p. can_run (ps ! p)) (items q) = None"
  obtains q' where "dequeue_runnable ops ps q = (0, q')" and "items q' = items q"
  using dequeue_runnable_spec [OF assms(1,2), of ps] assms(3) by (auto simp flip: choose_from_find)

lemma dequeue_runnable_Some:
  assumes "queue_laws ops ok items" and "ok q" and "distinct (items q)" and "find (\<lambda>p. can_run (ps ! p)) (items q) = Some p"
  obtains q' where "dequeue_runnable ops ps q = (proc_pid (ps ! p), q')" and "items q' = take_out p (items q)"
    and "p \<in> set (items q)"
proof -
  obtain r where r: "choose_from ps (items q) = Some (p, r)" using assms(4) by (auto simp flip: choose_from_find)
  then obtain q' where q': "dequeue_runnable ops ps q = (proc_pid (ps ! p), q')" "items q' = r"
    using dequeue_runnable_spec [OF assms(1,2), of ps] by auto
  then have "items q' = take_out p (items q)" using choose_from_take_out [OF r assms(3)] by simp
  then show ?thesis using that q' choose_from_Some(1) [OF r] by blast
qed

lemma dequeue_runnable_find:
  assumes "queue_laws ops ok items" and "ok q" and "distinct (items q)" and "dequeue_runnable ops ps q = (pid, q')"
  shows "case find (\<lambda>p. can_run (ps ! p)) (items q) of
      None \<Rightarrow> pid = 0 \<and> items q' = items q
    | Some x \<Rightarrow> pid = proc_pid (ps ! x) \<and> items q' = take_out x (items q) \<and> x \<in> set (items q)"
proof (cases "find (\<lambda>p. can_run (ps ! p)) (items q)")
  case None
  from dequeue_runnable_None [OF assms(1,2) this] assms(4) None show ?thesis by auto
next
  case (Some x)
  from dequeue_runnable_Some [OF assms(1-3) this] assms(4) Some show ?thesis by auto
qed

text \<open>The items of a level.\<close>

definition level_items :: "('q \<Rightarrow> nat list) \<Rightarrow> nat \<Rightarrow> 'q mlfq_state \<Rightarrow> nat list" where
  "level_items items lvl s = (if lvl = 0 then items (q_high s) else if lvl = 1 then items (q_mid s) else items (q_low s))"

lemma pick_next_pid_choice:
  assumes laws: "queue_laws ops ok items" and inv: "mlfq_inv ok items s" and p: "pick_next_pid ops s = (pid, s')"
    and nz: "\<And>p. p \<in> set (queued items s) \<Longrightarrow> proc_pid (proc_set s ! p) \<noteq> 0"
  shows "case find (\<lambda>p. can_run (proc_set s ! p)) (queued items s) of
      None \<Rightarrow> pid = 0 \<and> level_items items lvl s' = level_items items lvl s
    | Some p \<Rightarrow> pid = proc_pid (proc_set s ! p) \<and>
        level_items items lvl s' = (if p \<in> set (level_items items lvl s) then take_out p (level_items items lvl s) else level_items items lvl s)"
proof -
  let ?R = "\<lambda>p. can_run (proc_set s ! p)"
  let ?H = "items (q_high s)" and ?M = "items (q_mid s)" and ?L = "items (q_low s)"
  have ok: "ok (q_high s)" "ok (q_mid s)" "ok (q_low s)" using inv by (auto simp: mlfq_inv_def)
  have d: "distinct ?H" "distinct ?M" "distinct ?L" "set ?H \<inter> set ?M = {}" "set ?H \<inter> set ?L = {}" "set ?M \<inter> set ?L = {}"
    using inv by (auto simp: mlfq_inv_def queued_def)
  have q: "queued items s = ?H @ ?M @ ?L" by (simp add: queued_def)
  obtain ph h pm m pl l where r: "dequeue_runnable ops (proc_set s) (q_high s) = (ph, h)"
      "dequeue_runnable ops (proc_set s) (q_mid s) = (pm, m)" "dequeue_runnable ops (proc_set s) (q_low s) = (pl, l)"
    by fastforce
  note H = dequeue_runnable_find [OF laws ok(1) d(1) r(1)] and M = dequeue_runnable_find [OF laws ok(2) d(2) r(2)]
    and L = dequeue_runnable_find [OF laws ok(3) d(3) r(3)]
  consider x where "find ?R ?H = Some x" | x where "find ?R ?H = None" "find ?R ?M = Some x"
    | x where "find ?R ?H = None" "find ?R ?M = None" "find ?R ?L = Some x"
    | "find ?R ?H = None" "find ?R ?M = None" "find ?R ?L = None" by (cases "find ?R ?H"; cases "find ?R ?M"; cases "find ?R ?L") blast+
  then show ?thesis
  proof cases
    case 1
    with H nz [of x] q p r d show ?thesis by (auto simp: pick_next_pid_def find_append level_items_def)
  next
    case 2
    with H M nz [of x] q p r d show ?thesis by (auto simp: pick_next_pid_def find_append level_items_def)
  next
    case 3
    with H M L nz [of x] q p r d show ?thesis by (auto simp: pick_next_pid_def find_append level_items_def)
  next
    case 4
    with H M L p r show ?thesis by (auto simp: pick_next_pid_def q find_append level_items_def)
  qed
qed

section \<open>Adding and removing processes\<close>

lemma remove_pid_spec:
  assumes "queue_laws ops ok items" and "mlfq_inv ok items s"
  shows "mlfq_inv ok items (remove_pid ops pid2idx pid s)"
    and "queues items (remove_pid ops pid2idx pid s) =
      (filter (\<lambda>x. x \<noteq> pid2idx pid) (items (q_high s)), filter (\<lambda>x. x \<noteq> pid2idx pid) (items (q_mid s)),
       filter (\<lambda>x. x \<noteq> pid2idx pid) (items (q_low s)))"
    and "queued items (remove_pid ops pid2idx pid s) = filter (\<lambda>x. x \<noteq> pid2idx pid) (queued items s)"
  using assms(2) queue_lawsD(5,6) [OF assms(1)] by (auto simp: mlfq_inv_def queued_def queues_def remove_pid_def)

lemma remove_pid_frame [simp]:
  "proc_set (remove_pid ops pid2idx pid s) = proc_set s"
  "curr_proc_idx (remove_pid ops pid2idx pid s) = curr_proc_idx s"
  "initialized (remove_pid ops pid2idx pid s) = initialized s"
  "level_for_pid pid2idx' pid' (remove_pid ops pid2idx pid s) = level_for_pid pid2idx' pid' s"
  by (simp_all add: remove_pid_def level_for_pid_def)

lemma level_less: "level_for_pid pid2idx pid s < 3"
  by (simp add: level_for_pid_def Let_def)

lemma enqueue_pid_spec:
  assumes laws: "queue_laws ops ok items" and inv: "mlfq_inv ok items s"
  shows "mlfq_inv ok items (enqueue_pid ops pid2idx pid s)"
    and "proc_status (proc_set s ! pid2idx pid) = PROC_UNUSED \<Longrightarrow>
      queued items (enqueue_pid ops pid2idx pid s) = filter (\<lambda>x. x \<noteq> pid2idx pid) (queued items s)"
    and "proc_status (proc_set s ! pid2idx pid) \<noteq> PROC_UNUSED \<Longrightarrow> lvl < 3 \<Longrightarrow>
      level_items items lvl (enqueue_pid ops pid2idx pid s) =
      filter (\<lambda>x. x \<noteq> pid2idx pid) (level_items items lvl s) @ (if lvl = level_for_pid pid2idx pid s then [pid2idx pid] else [])"
proof -
  note r = remove_pid_spec [OF laws inv, of pid2idx pid]
  let ?s = "remove_pid ops pid2idx pid s" and ?p = "pid2idx pid"
  have ok: "ok (q_high ?s)" "ok (q_mid ?s)" "ok (q_low ?s)" and d: "distinct (queued items ?s)" and n: "?p \<notin> set (queued items ?s)"
    using r by (auto simp: mlfq_inv_def)
  note e = queue_lawsD(3,4) [OF laws ok(1)] queue_lawsD(3,4) [OF laws ok(2)] queue_lawsD(3,4) [OF laws ok(3)]
  show "mlfq_inv ok items (enqueue_pid ops pid2idx pid s)"
    using ok e d n by (auto simp: enqueue_pid_def Let_def mlfq_inv_def queued_def)
  show "queued items (enqueue_pid ops pid2idx pid s) = filter (\<lambda>x. x \<noteq> pid2idx pid) (queued items s)"
    if "proc_status (proc_set s ! ?p) = PROC_UNUSED"
    using that r(3) by (simp add: enqueue_pid_def)
  have q: "items (q_high ?s) = filter (\<lambda>x. x \<noteq> ?p) (items (q_high s))" "items (q_mid ?s) = filter (\<lambda>x. x \<noteq> ?p) (items (q_mid s))"
      "items (q_low ?s) = filter (\<lambda>x. x \<noteq> ?p) (items (q_low s))"
    using r(2) by (simp_all add: queues_def)
  show "level_items items lvl (enqueue_pid ops pid2idx pid s) =
      filter (\<lambda>x. x \<noteq> ?p) (level_items items lvl s) @ (if lvl = level_for_pid pid2idx pid s then [?p] else [])"
    if "proc_status (proc_set s ! ?p) \<noteq> PROC_UNUSED" "lvl < 3"
    using that e q level_less [of pid2idx pid s] by (auto simp: enqueue_pid_def Let_def level_items_def)
qed

lemma enqueue_pid_frame [simp]:
  "proc_set (enqueue_pid ops pid2idx pid s) = proc_set s"
  "curr_proc_idx (enqueue_pid ops pid2idx pid s) = curr_proc_idx s"
  "initialized (enqueue_pid ops pid2idx pid s) = initialized s"
  by (simp_all add: enqueue_pid_def Let_def)

section \<open>The scheduler as a state machine\<close>

text \<open>
  The states after the first event: further events, calls of the scheduler, and changes that other parts of the kernel make
  to the processes and to which one is running.
\<close>

inductive sched_reach :: "'q queue_ops \<Rightarrow> (int \<Rightarrow> nat) \<Rightarrow> 'q mlfq_state \<Rightarrow> bool" for ops pid2idx where
  first: "\<not> initialized s \<Longrightarrow> sched_reach ops pid2idx (mlfq_update ops pid2idx pid tran t s)"
| event: "sched_reach ops pid2idx s \<Longrightarrow> sched_reach ops pid2idx (mlfq_update ops pid2idx pid tran t s)"
| schedule: "sched_reach ops pid2idx s \<Longrightarrow> sched_reach ops pid2idx (snd (mlfq ops pid2idx s))"
| kernel: "sched_reach ops pid2idx s \<Longrightarrow> sched_reach ops pid2idx (s\<lparr>proc_set := ps, curr_proc_idx := i\<rparr>)"

lemma mlfq_init_inv: "queue_laws ops ok items \<Longrightarrow> mlfq_inv ok items (mlfq_init ops s)"
  by (simp add: mlfq_inv_def mlfq_init_def queued_def queue_lawsD)

lemma mlfq_update_inv:
  assumes "queue_laws ops ok items" and "initialized s \<Longrightarrow> mlfq_inv ok items s"
  shows "mlfq_inv ok items (mlfq_update ops pid2idx pid tran t s)" and "initialized (mlfq_update ops pid2idx pid tran t s)"
proof -
  let ?s = "if \<not> initialized s then (mlfq_init ops s)\<lparr>initialized := True\<rparr> else s"
  have "mlfq_inv ok items ?s"
    using assms mlfq_init_inv [OF assms(1), of s] by (auto simp: mlfq_inv_def queued_def)
  then show "mlfq_inv ok items (mlfq_update ops pid2idx pid tran t s)" "initialized (mlfq_update ops pid2idx pid tran t s)"
    using remove_pid_spec(1) [OF assms(1), of ?s pid2idx pid] enqueue_pid_spec(1) [OF assms(1), of ?s pid2idx pid]
    by (cases tran; simp add: mlfq_update_def Let_def)+
qed

lemma mlfq_keeps:
  assumes laws: "queue_laws ops ok items" and inv: "mlfq_inv ok items s"
  shows "mlfq_inv ok items (snd (mlfq ops pid2idx s))" and "initialized (snd (mlfq ops pid2idx s)) = initialized s"
proof -
  let ?s = "if curr_status s = PROC_RUNNING \<or> curr_status s = PROC_RUNNABLE \<or> curr_status s = PROC_READY
    then remove_pid ops pid2idx (curr_pid s) s else s"
  obtain pid s1 where p: "pick_next_pid ops ?s = (pid, s1)" by fastforce
  have i: "mlfq_inv ok items ?s" using inv remove_pid_spec(1) [OF laws inv] by simp
  note k = pick_next_pid_keeps [OF laws i p]
  have e: "mlfq_inv ok items (enqueue_pid ops pid2idx p' s1)" for p' by (rule enqueue_pid_spec(1) [OF laws k(1)])
  show "mlfq_inv ok items (snd (mlfq ops pid2idx s))" "initialized (snd (mlfq ops pid2idx s)) = initialized s"
    unfolding mlfq_def Let_def p using k e by simp_all
qed

lemma sched_reach_inv:
  assumes "queue_laws ops ok items" and "sched_reach ops pid2idx s"
  shows "mlfq_inv ok items s \<and> initialized s"
  using assms(2)
proof (induction rule: sched_reach.induct)
  case (first s pid tran t)
  then show ?case using mlfq_update_inv [OF assms(1), of s] by blast
next
  case (kernel s ps i)
  then show ?case by (simp add: mlfq_inv_def queued_def)
qed (simp_all add: mlfq_update_inv [OF assms(1)] mlfq_keeps [OF assms(1)])

lemma find_filter_out: "\<not> P c \<Longrightarrow> find P (filter (\<lambda>p. p \<noteq> c) xs) = find P xs"
  by (induction xs) auto

lemma find_Some_in: "find P xs = Some x \<Longrightarrow> x \<in> set xs \<and> P x"
  by (auto simp: find_Some_iff)

section \<open>Properties\<close>

text \<open>The current process takes part in scheduling.\<close>

definition curr_active :: "'q mlfq_state \<Rightarrow> bool" where
  "curr_active s \<longleftrightarrow> curr_status s \<in> {PROC_RUNNING, PROC_RUNNABLE, PROC_READY}"

text \<open>A process that is in no queue goes to the tail of its level.\<close>

lemma enqueue_pid_tail:
  assumes laws: "queue_laws ops ok items" and inv: "mlfq_inv ok items s1" and p: "pid2idx pid = p" and out: "p \<notin> set (queued items s1)"
    and ps: "proc_set s1 = ps" and used: "proc_status (ps ! p) \<noteq> PROC_UNUSED" and lvl: "lvl < 3"
  defines "t \<equiv> longlongs (ps ! p) ! 3"
  shows "level_items items lvl (enqueue_pid ops pid2idx pid s1) = level_items items lvl s1 @
    (if lvl = (if pid < 6 \<or> t \<le> 6000000 then 0 else if t < 12000000 then 1 else 2) then [p] else [])"
proof -
  have "filter (\<lambda>x. x \<noteq> p) (level_items items lvl s1) = level_items items lvl s1"
    using out by (intro filter_True) (auto simp: level_items_def queued_def)
  moreover have "level_for_pid pid2idx pid s1 = (if pid < 6 \<or> t \<le> 6000000 then 0 else if t < 12000000 then 1 else 2)"
    by (simp add: level_for_pid_def Let_def p ps t_def)
  ultimately show ?thesis
    using enqueue_pid_spec(3) [OF laws inv, of pid2idx pid lvl] used lvl by (simp add: p ps)
qed

text \<open>A level without the current process, if that takes part.\<close>

definition waiting :: "('q \<Rightarrow> nat list) \<Rightarrow> nat \<Rightarrow> 'q mlfq_state \<Rightarrow> nat list" where
  "waiting items lvl s = (if curr_active s then filter (\<lambda>p. p \<noteq> curr_proc_idx s) (level_items items lvl s) else level_items items lvl s)"

text \<open>
  C32: the scheduler gives the pid of the first process, in the order of the high, the middle and the low queue, that is ready or
  runnable and not the current one; if there is none, the current process when it is running or runnable, and otherwise
  0. The queues are then exactly these, in order: the current process, if it is running, runnable or ready, has left its place. The chosen
  process has left its level, where those behind it now come first and those before it, none of which could run, have moved to the back;
  the other levels are as they were. If another process was chosen and the current one is ready or runnable, it stands at the tail of its
  level: the high one for a system process or at most one quantum of time used, the middle one below two quanta, else the low one. So a
  current process that is ready is in no queue and lost when there is no other process to run, and the answer is 0.
\<close>

theorem mlfq_choice:
  assumes laws: "queue_laws ops ok items" and inv: "mlfq_inv ok items s"
    and idx: "pid2idx (curr_pid s) = curr_proc_idx s"
    and nz: "\<forall>p \<in> set (queued items s). proc_pid (proc_set s ! p) \<noteq> 0" and lvl: "lvl < 3"
  shows "case find (\<lambda>p. can_run (proc_set s ! p)) (filter (\<lambda>p. p \<noteq> curr_proc_idx s) (queued items s)) of
      None \<Rightarrow> fst (mlfq ops pid2idx s) = (if curr_status s \<in> {PROC_RUNNING, PROC_RUNNABLE} then curr_pid s else 0) \<and>
        level_items items lvl (snd (mlfq ops pid2idx s)) = waiting items lvl s
    | Some p \<Rightarrow> fst (mlfq ops pid2idx s) = proc_pid (proc_set s ! p) \<and>
        level_items items lvl (snd (mlfq ops pid2idx s)) =
          (let left = (if p \<in> set (waiting items lvl s) then take_out p (waiting items lvl s) else waiting items lvl s);
               t = longlongs (proc_set s ! curr_proc_idx s) ! 3
           in if curr_status s \<in> {PROC_READY, PROC_RUNNABLE} \<and>
                 lvl = (if curr_pid s < 6 \<or> t \<le> 6000000 then 0 else if t < 12000000 then 1 else 2)
              then left @ [curr_proc_idx s] else left)"
proof -
  let ?c = "curr_proc_idx s" and ?t = "longlongs (proc_set s ! curr_proc_idx s) ! 3"
  let ?P = "\<lambda>p. can_run (proc_set s ! p)"
  let ?s = "if curr_status s = PROC_RUNNING \<or> curr_status s = PROC_RUNNABLE \<or> curr_status s = PROC_READY
    then remove_pid ops pid2idx (curr_pid s) s else s"
  obtain pid s1 where p: "pick_next_pid ops ?s = (pid, s1)" by fastforce
  have i: "mlfq_inv ok items ?s" using inv remove_pid_spec(1) [OF laws inv] by simp
  note k = pick_next_pid_keeps [OF laws i p]
  have q: "queued items ?s = (if curr_active s then filter (\<lambda>p. p \<noteq> ?c) (queued items s) else queued items s)"
    using remove_pid_spec(3) [OF laws inv, of pid2idx "curr_pid s"] idx by (auto simp: curr_active_def)
  have w: "level_items items lvl ?s = waiting items lvl s"
    using remove_pid_spec(2) [OF laws inv, of pid2idx "curr_pid s"] idx by (auto simp: curr_active_def waiting_def level_items_def queues_def)
  have ps: "proc_set ?s = proc_set s" by simp
  have nz': "proc_pid (proc_set ?s ! p) \<noteq> 0" if "p \<in> set (queued items ?s)" for p
    using nz that unfolding q ps by (auto split: if_splits)
  have same: "find ?P (queued items ?s) = find ?P (filter (\<lambda>p. p \<noteq> ?c) (queued items s))"
  proof (cases "curr_active s")
    case False
    then have "\<not> ?P ?c" by (auto simp: curr_active_def can_run_def curr_status_def)
    then show ?thesis using False by (simp add: q find_filter_out)
  qed (simp add: q)
  note pick = pick_next_pid_choice [OF laws i p nz', of lvl, unfolded ps same w]
  have st: "curr_status s1 = curr_status s" "curr_pid s1 = curr_pid s"
    using k(3,4) by (simp_all add: curr_status_def curr_pid_def)
  have run: "mlfq ops pid2idx s = (if pid = 0
         then (if curr_status s = PROC_RUNNING \<or> curr_status s = PROC_RUNNABLE then curr_pid s else 0, s1)
         else (pid, if curr_status s = PROC_READY \<or> curr_status s = PROC_RUNNABLE
               then enqueue_pid ops pid2idx (curr_pid s) s1 else s1))"
    unfolding mlfq_def Let_def p by (simp add: st)
  have enq: "level_items items lvl (enqueue_pid ops pid2idx (curr_pid s) s1) = level_items items lvl s1 @
      (if lvl = (if curr_pid s < 6 \<or> ?t \<le> 6000000 then 0 else if ?t < 12000000 then 1 else 2) then [?c] else [])"
    if ready: "curr_status s = PROC_READY \<or> curr_status s = PROC_RUNNABLE"
  proof (rule enqueue_pid_tail [where pid2idx = pid2idx and p = ?c and ps = "proc_set s", OF laws k(1) idx _ _ _ lvl])
    show "proc_set s1 = proc_set s" using k(3) ps by simp
    show "?c \<notin> set (queued items s1)" using k(2) ready by (auto simp: q curr_active_def)
    show "proc_status (proc_set s ! ?c) \<noteq> PROC_UNUSED" using ready by (auto simp: curr_status_def)
  qed
  show ?thesis
  proof (cases "find ?P (filter (\<lambda>p. p \<noteq> ?c) (queued items s))")
    case None
    then show ?thesis using pick run by auto
  next
    case (Some x)
    then have "pid \<noteq> 0" using pick nz find_Some_in [OF Some] by auto
    then show ?thesis using Some pick run enq by (auto simp: Let_def)
  qed
qed

text \<open>
  C33: whatever the order of events and of calls of the scheduler after the first event, and whatever the kernel does to the processes in
  between, no process is ever in two queues or twice in one.
\<close>

theorem no_process_queued_twice:
  assumes "queue_laws ops ok items" and "sched_reach ops pid2idx s"
  shows "distinct (items (q_high s) @ items (q_mid s) @ items (q_low s))"
  using sched_reach_inv [OF assms] by (simp add: mlfq_inv_def queued_def)

text \<open>
  An event of a process moves only that process. When it arrives or is scheduled out it goes, unless it is unused, to
  the tail of the queue of its level: the high queue for system processes and for those whose time is at most one
  quantum, the middle one below two quanta, and the low one otherwise. When it is scheduled in or stops it is in no queue.
\<close>

lemma mlfq_update_queues:
  assumes "queue_laws ops ok items" and "mlfq_inv ok items s" and "initialized s" and "lvl < 3"
  shows "level_items items lvl (mlfq_update ops pid2idx pid tran time_units s) =
    (if tran = PROC_ON_SLEEP then level_items items lvl s
     else filter (\<lambda>x. x \<noteq> pid2idx pid) (level_items items lvl s) @
       (if tran \<in> {PROC_ON_ARRIVE, PROC_ON_SCHED_OUT} \<and> proc_status (proc_set s ! pid2idx pid) \<noteq> PROC_UNUSED \<and>
           (let t = longlongs (proc_set s ! pid2idx pid) ! 3
            in lvl = (if pid < 6 \<or> t \<le> 6000000 then 0 else if t < 12000000 then 1 else 2))
        then [pid2idx pid] else []))"
proof -
  note laws = assms(1) and inv = assms(2)
  let ?p = "pid2idx pid" and ?t = "longlongs (proc_set s ! pid2idx pid) ! 3"
  have l: "level_for_pid pid2idx pid s = (if pid < 6 \<or> ?t \<le> 6000000 then 0 else if ?t < 12000000 then 1 else 2)"
    by (simp add: level_for_pid_def Let_def)
  have r: "level_items items lvl (remove_pid ops pid2idx pid s) = filter (\<lambda>x. x \<noteq> ?p) (level_items items lvl s)"
    using remove_pid_spec(2) [OF laws inv, of pid2idx pid] by (simp add: queues_def level_items_def)
  have e: "level_items items lvl (enqueue_pid ops pid2idx pid s) =
      filter (\<lambda>x. x \<noteq> ?p) (level_items items lvl s) @
      (if proc_status (proc_set s ! ?p) \<noteq> PROC_UNUSED \<and> lvl = level_for_pid pid2idx pid s then [?p] else [])"
  proof (cases "proc_status (proc_set s ! ?p) = PROC_UNUSED")
    case True
    then show ?thesis using r by (simp add: enqueue_pid_def)
  next
    case False
    then show ?thesis using enqueue_pid_spec(3) [OF laws inv, of pid2idx pid lvl] assms(4) by simp
  qed
  show ?thesis
    unfolding Let_def by (cases tran) (simp_all add: mlfq_update_def assms(3) r e l)
qed

text \<open>
  A current process that is ready, and so could run, is lost by the scheduler when no other process can run: the
  scheduler takes it out of all queues and answers 0.
\<close>

lemma mlfq_loses_ready:
  assumes laws: "queue_laws ops ok items" and inv: "mlfq_inv ok items s"
    and idx: "pid2idx (curr_pid s) = curr_proc_idx s" and ready: "curr_status s = PROC_READY"
    and none: "\<forall>p \<in> set (queued items s). p \<noteq> curr_proc_idx s \<longrightarrow> \<not> can_run (proc_set s ! p)"
  shows "fst (mlfq ops pid2idx s) = 0 \<and> curr_proc_idx s \<notin> set (queued items (snd (mlfq ops pid2idx s)))"
proof -
  let ?s = "remove_pid ops pid2idx (curr_pid s) s"
  obtain pid s1 where p: "pick_next_pid ops ?s = (pid, s1)" by fastforce
  have i: "mlfq_inv ok items ?s" by (rule remove_pid_spec(1) [OF laws inv])
  have q: "queued items ?s = filter (\<lambda>p. p \<noteq> curr_proc_idx s) (queued items s)"
    using remove_pid_spec(3) [OF laws inv, of pid2idx "curr_pid s"] idx by simp
  have "find (\<lambda>p. can_run (proc_set ?s ! p)) (queued items ?s) = None"
    using none by (auto simp: q find_None_iff)
  then have n: "find (\<lambda>p. can_run (proc_set ?s ! p)) (items q) = None" if "q \<in> {q_high ?s, q_mid ?s, q_low ?s}" for q
    using that by (auto simp: find_None_iff queued_def)
  have ok: "ok (q_high ?s)" "ok (q_mid ?s)" "ok (q_low ?s)" using i by (auto simp: mlfq_inv_def)
  have "pid = 0"
    using p dequeue_runnable_None [OF laws ok(1) n] dequeue_runnable_None [OF laws ok(2) n]
      dequeue_runnable_None [OF laws ok(3) n]
    by (fastforce simp: pick_next_pid_def Let_def split: prod.splits if_splits)
  moreover have "curr_proc_idx s \<notin> set (queued items s1)"
    using pick_next_pid_keeps(2) [OF laws i p] q by auto
  moreover have "curr_status s1 = PROC_READY"
    using pick_next_pid_keeps(3,4) [OF laws i p] ready by (simp add: curr_status_def)
  ultimately show ?thesis
    using p ready by (simp add: mlfq_def)
qed

section \<open>Witnesses\<close>

text \<open>Queues that are lists, and a table with two system and three user processes, indexed by pid.\<close>

definition list_queue :: "nat list queue_ops" where
  "list_queue = \<lparr>queue_init = (\<lambda>_. []), enqueue = (\<lambda>q p. q @ [p]),
     dequeue = (\<lambda>q. case q of [] \<Rightarrow> (None, []) | p # ps \<Rightarrow> (Some p, ps)), try_rm_item = (\<lambda>q p. filter (\<lambda>x. x \<noteq> p) q),
     node_count = length\<rparr>"

lemma list_queue_laws: "queue_laws list_queue (\<lambda>_. True) (\<lambda>q. q)"
  by (auto simp: queue_laws_def list_queue_def split: list.splits)

definition proc_entry :: "int \<Rightarrow> proc_status \<Rightarrow> 64 word \<Rightarrow> process" where
  "proc_entry pid st t = \<lparr>proc_pid = pid, proc_status = st, longlongs = (replicate 8 0)[3 := t]\<rparr>"

definition sched_example :: "nat list mlfq_state" where
  "sched_example = \<lparr>q_high = [1, 2], q_mid = [7], q_low = [8], initialized = True,
     proc_set = [proc_entry 0 PROC_UNUSED 0, proc_entry 1 PROC_PENDING_SYSCALL 0, proc_entry 2 PROC_PENDING_SYSCALL 0,
       proc_entry 3 PROC_UNUSED 0, proc_entry 4 PROC_UNUSED 0, proc_entry 5 PROC_UNUSED 0,
       proc_entry 6 PROC_RUNNING 0, proc_entry 7 PROC_RUNNABLE 7000000, proc_entry 8 PROC_RUNNABLE 13000000],
     curr_proc_idx = 6\<rparr>"

lemma sched_example_inv: "mlfq_inv (\<lambda>_. True) (\<lambda>q. q) sched_example"
  by (simp add: mlfq_inv_def queued_def sched_example_def)

text \<open>The current process has used its second quantum and is runnable; in its new level one process waits and another can run.\<close>

definition sched_preempt :: "nat list mlfq_state" where
  "sched_preempt = sched_example\<lparr>q_mid := [6, 5, 7, 4],
     proc_set := (proc_set sched_example)[4 := proc_entry 4 PROC_RUNNABLE 0, 5 := proc_entry 5 PROC_SLEEPING 0, 6 := proc_entry 6 PROC_RUNNABLE 7000000]\<rparr>"

theorem mlfq_choice_witness:
  "fst (mlfq list_queue nat sched_preempt) = 7 \<and> q_high (snd (mlfq list_queue nat sched_preempt)) = [1, 2] \<and>
   q_mid (snd (mlfq list_queue nat sched_preempt)) = [4, 5, 6] \<and> q_low (snd (mlfq list_queue nat sched_preempt)) = [8]"
proof -
  note defs = sched_preempt_def sched_example_def proc_entry_def
  let ?s = sched_preempt
  have inv: "mlfq_inv (\<lambda>_. True) (\<lambda>q. q) ?s" by (simp add: mlfq_inv_def queued_def defs)
  have c: "curr_pid ?s = 6" "curr_proc_idx ?s = 6" "curr_status ?s = PROC_RUNNABLE" by (simp_all add: curr_pid_def curr_status_def defs)
  then have idx: "nat (curr_pid ?s) = curr_proc_idx ?s" by simp
  have nz: "\<forall>p \<in> set (queued (\<lambda>q. q) ?s). proc_pid (proc_set ?s ! p) \<noteq> 0" by (simp add: queued_def defs)
  note choice = mlfq_choice [where items = "\<lambda>q. q" and s = ?s and pid2idx = nat, OF list_queue_laws inv idx nz]
  have f: "find (\<lambda>p. can_run (proc_set ?s ! p)) (filter (\<lambda>p. p \<noteq> 6) (queued (\<lambda>q. q) ?s)) = Some 7" "proc_pid (proc_set ?s ! 7) = 7"
      "longlongs (proc_set ?s ! 6) ! 3 = 7000000"
    by (simp_all add: queued_def can_run_def defs)
  have w: "waiting (\<lambda>q. q) 0 ?s = [1, 2]" "waiting (\<lambda>q. q) 1 ?s = [5, 7, 4]" "waiting (\<lambda>q. q) 2 ?s = [8]"
    by (simp_all add: waiting_def curr_active_def c level_items_def) (simp_all add: defs)
  from choice [of 0] choice [of 1] choice [of 2] show ?thesis
    unfolding c f w by (simp add: f take_out_def level_items_def)
qed

definition sched_started :: "nat list mlfq_state" where
  "sched_started = mlfq_update list_queue nat 7 PROC_ON_ARRIVE 0 (sched_example\<lparr>initialized := False\<rparr>)"

theorem no_process_queued_twice_witness:
  "let s = snd (mlfq list_queue nat (mlfq_update list_queue nat 7 PROC_ON_SCHED_OUT 0 sched_started))
   in distinct (q_high s @ q_mid s @ q_low s)"
proof -
  have "sched_reach list_queue nat sched_started"
    unfolding sched_started_def by (rule sched_reach.first) simp
  then have "sched_reach list_queue nat (snd (mlfq list_queue nat (mlfq_update list_queue nat 7 PROC_ON_SCHED_OUT 0 sched_started)))"
    by (intro sched_reach.schedule sched_reach.event)
  from no_process_queued_twice [OF list_queue_laws this] show ?thesis by (simp add: Let_def)
qed

lemma mlfq_update_queues_example:
  "level_items (\<lambda>q. q) 2 (mlfq_update list_queue nat 8 PROC_ON_SCHED_OUT 0 sched_example) = [8] \<and>
   level_items (\<lambda>q. q) 1 (mlfq_update list_queue nat 7 PROC_ON_SCHED_IN 0 sched_example) = []"
  using mlfq_update_queues [OF list_queue_laws sched_example_inv, where lvl = 2 and pid2idx = nat and pid = 8
      and tran = PROC_ON_SCHED_OUT and time_units = 0]
    mlfq_update_queues [OF list_queue_laws sched_example_inv, where lvl = 1 and pid2idx = nat and pid = 7
      and tran = PROC_ON_SCHED_IN and time_units = 0]
  by (simp add: sched_example_def proc_entry_def level_items_def)

end
