(* ===== verification/Mkfs.thy ===== *)
theory Mkfs
  imports Servers
begin

text \<open>
  The directories of the read-only file system: \<^verbatim>\<open>tools/mkfs.c\<close> writes a directory as text, and \<^verbatim>\<open>dir_lookup()\<close> of
  \<^verbatim>\<open>library/syscall/servers.c\<close> finds inode numbers in it. The file systems themselves, and the binary layout
  of the writable one, are defined outside the repository.
\<close>

section \<open>Directories as text\<close>

definition ascii :: "string \<Rightarrow> bytes" where
  "ascii s = map (\<lambda>c. of_nat (of_char c)) s"

definition contents :: "bytes list" where
  "contents = map ascii [
     ''./   0 ../   0 home/   1 bin/   6 '',
     ''./   1 ../   0 cs6640/ 2 ta/    3 fs/       4 '',
     ''./   2 ../   1 README  5 rwfs/  128 '',
     ''./   3 ../   1 '',
     ''./   4 ../   1 '',
     ''Welcome to CS6640 labs. '' @ [CHR 0x0A] @
       ''This OS is tailored from egos-2000 (https://github.com/yhzhang0128/egos-2000).'' @ [CHR 0x0A]]"

text \<open>\<^verbatim>\<open>"%4d"\<close> for a number that is not negative.\<close>

fun decimal :: "nat \<Rightarrow> bytes" where
  "decimal n = (if n < 10 then [of_nat (48 + n)] else decimal (n div 10) @ [of_nat (48 + n mod 10)])"

definition format4 :: "nat \<Rightarrow> bytes" where
  "format4 n = replicate (4 - length (decimal n)) 32 @ decimal n"

definition bin_entry :: "bytes \<Rightarrow> nat \<Rightarrow> bytes" where
  "bin_entry name ino = name @ format4 ino @ [32]"

text \<open>
  The loop over the applications, whose names are those of the files without their suffix: it appends their entries to
  \<^verbatim>\<open>bin_dir\<close>, an array of 256 characters with a null at the end.
\<close>

abbreviation (input) BIN_DIR_INODE :: nat where "BIN_DIR_INODE \<equiv> 6"

fun add_apps :: "bytes list \<Rightarrow> nat \<Rightarrow> bytes \<Rightarrow> bytes res" where
  "add_apps [] app_ino bin_dir = Inr bin_dir"
| "add_apps (name # names) app_ino bin_dir =
     (let bin_dir = bin_dir @ bin_entry name app_ino
      in if 256 \<le> length bin_dir then Inl OutOfBounds else add_apps names (app_ino + 1) bin_dir)"

definition make_bin_dir :: "bytes list \<Rightarrow> bytes res" where
  "make_bin_dir names = add_apps names (BIN_DIR_INODE + 1) (ascii ''./   6 ../   0 '')"

section \<open>The loop of the lookup\<close>

lemma strn_equal_take:
  assumes "n \<le> length a" and "n \<le> length b" and "0 \<notin> set (take n a)"
  shows "strn_equal a b n = Inr (take n a = take n b)"
  using assms
proof (induction n arbitrary: a b)
  case (Suc n)
  then show ?case by (cases a; cases b) auto
qed simp

text \<open>The name at position \<open>i\<close>, with spaces, or the start of the text, around it.\<close>

definition hit :: "bytes \<Rightarrow> bytes \<Rightarrow> nat \<Rightarrow> bool" where
  "hit name text i \<longleftrightarrow>
     take (length name) (drop i text) = name \<and> text ! (i + length name) = 32 \<and> (i = 0 \<or> text ! (i - 1) = 32)"

lemma scan_step:
  assumes "i + length name < length text" and "length text < 2 ^ 32" and "0 \<notin> set name" and "length text \<le> length buf"
    and "take (length text) buf = text"
  shows "scan_dir (name @ junk) buf (length text) (length name) i =
    (if hit name text i then atoi (drop (i + length name) buf)
     else scan_dir (name @ junk) buf (length text) (length name) (i + 1))"
proof -
  have b: "of_nat (length text) - of_nat (length name) = (of_nat (length text - length name) :: u32)"
    using assms(1) by (simp add: of_nat_diff)
  have "length text - length name < 2 ^ 32" using assms(2) by linarith
  then have u: "unat (of_nat (length text) - of_nat (length name) :: u32) = length text - length name"
    unfolding b by (simp add: unat_of_nat take_bit_eq_mod)
  have nth: "buf ! k = text ! k" if "k < length text" for k
    using assms(5) nth_take [OF that, of buf] by simp
  have eq: "strn_equal (name @ junk) (drop i buf) (length name) = Inr (take (length name) (drop i text) = name)"
  proof -
    have "take (length name) (drop i buf) = take (length name) (drop i text)"
    proof -
      have "buf = text @ drop (length text) buf" using append_take_drop_id [of "length text" buf] assms(5) by simp
      then have "drop i buf = drop i text @ drop (length text) buf" using assms(1) by (metis drop_append drop_eq_Nil drop_0 diff_is_0_eq' add_leD1 less_imp_le)
      then show ?thesis using assms(1) by simp
    qed
    then show ?thesis
      using strn_equal_take [of "length name" "name @ junk" "drop i buf"] assms(1,3,4) by (auto simp: eq_commute)
  qed
  have c: "char_at buf k = Inr (text ! k)" if "k < length text" for k
    using that assms(4) nth by (simp add: char_at_def)
  have "i < length text - length name" using assms(1) by simp
  then show ?thesis
    using assms(1) by (subst scan_dir.simps) (auto simp: u eq c hit_def)
qed

lemma scan_skip:
  assumes "i \<le> j" and "\<And>k. i \<le> k \<Longrightarrow> k < j \<Longrightarrow> \<not> hit name text k" and "j + length name < length text" and "length text < 2 ^ 32"
    and "0 \<notin> set name" and "length text \<le> length buf" and "take (length text) buf = text"
  shows "scan_dir (name @ junk) buf (length text) (length name) i = scan_dir (name @ junk) buf (length text) (length name) j"
  using assms(1,2)
proof (induction "j - i" arbitrary: i)
  case (Suc d)
  then have "scan_dir (name @ junk) buf (length text) (length name) i = scan_dir (name @ junk) buf (length text) (length name) (i + 1)"
    using assms(3-) by (subst scan_step) auto
  also have "\<dots> = scan_dir (name @ junk) buf (length text) (length name) j"
    using Suc by (intro Suc.hyps(1)) auto
  finally show ?case .
qed simp

section \<open>Tokens\<close>

text \<open>A position where the name is found is the start of a token equal to the name.\<close>

lemma hit_token:
  assumes "hit name text i" and "i + length name < length text" and "32 \<notin> set name"
  shows "takeWhile (\<lambda>c. c \<noteq> 32) (drop i text) = name"
proof -
  have "drop i text = name @ 32 # drop (i + length name + 1) text"
    using assms(1,2) id_take_nth_drop [of "length name" "drop i text"] by (simp add: hit_def add.commute)
  moreover have "takeWhile (\<lambda>c. c \<noteq> 32) (name @ 32 # xs) = name" for xs
    using assms(3) by (simp add: takeWhile_append)
  ultimately show ?thesis by simp
qed

lemma entry_no_hit:
  assumes tx: "text = A @ e @ replicate (Suc n) 32 @ dg @ [32] @ R" and A: "A = [] \<or> last A = 32"
    and e: "e \<noteq> []" "32 \<notin> set e" and dg: "dg \<noteq> []" "\<forall>c \<in> set dg. isdigit c"
    and name: "name \<noteq> []" "32 \<notin> set name" "name \<noteq> e" "\<exists>c \<in> set name. \<not> isdigit c"
    and i: "length A \<le> i" "i < length A + length e + Suc n + length dg + 1" "i + length name < length text"
  shows "\<not> hit name text i"
proof
  assume h: "hit name text i"
  have tok: "takeWhile (\<lambda>c. c \<noteq> 32) (drop i text) = name" by (rule hit_token [OF h i(3) name(2)])
  define k where "k = i - length A"
  have dr: "drop i text = drop k (e @ replicate (Suc n) 32 @ dg @ [32] @ R)" using i(1) by (simp add: tx k_def)
  have prev: "(e @ replicate (Suc n) 32 @ dg @ [32] @ R) ! (k - 1) = 32" if "0 < k"
  proof -
    have "i - 1 = length A + (k - 1)" "i \<noteq> 0" using that by (simp_all add: k_def)
    then show ?thesis using h nth_append_length_plus by (metis hit_def tx)
  qed
  have d32: "32 \<notin> set dg" using dg(2) by (auto simp: isdigit_def)
  consider "k = 0" | "0 < k" "k < length e" | "length e \<le> k" "k < length e + Suc n" | "k = length e + Suc n"
    | "length e + Suc n < k" "k < length e + Suc n + length dg" | "k = length e + Suc n + length dg"
    using i(2) k_def by linarith
  then show False
  proof cases
    case 1
    then have "takeWhile (\<lambda>c. c \<noteq> 32) (drop i text) = e"
      using e(2) unfolding dr by (simp add: takeWhile_append)
    then show False using tok name(3) by simp
  next
    case 2
    then have "e ! (k - 1) = 32" using prev by (simp add: nth_append split: if_splits)
    moreover have "e ! (k - 1) \<in> set e" using 2 by (intro nth_mem) simp
    ultimately show False using e(2) by simp
  next
    case 3
    then have "drop k (e @ replicate (Suc n) 32 @ dg @ [32] @ R) = 32 # drop (k + 1) (e @ replicate (Suc n) 32 @ dg @ [32] @ R)"
      by (subst Cons_nth_drop_Suc [symmetric]) (auto simp: nth_append simp del: replicate_Suc)
    then show False using tok name(1) unfolding dr by simp
  next
    case 4
    then have "takeWhile (\<lambda>c. c \<noteq> 32) (drop i text) = dg"
      using d32 unfolding dr by (simp add: takeWhile_append)
    then show False using tok name(4) dg(2) by auto
  next
    case 5
    define j where "j = k - 1 - length e - Suc n"
    have j: "k - 1 = length e + (Suc n + j)" "j < length dg" using 5 by (simp_all add: j_def)
    have "(e @ replicate (Suc n) 32 @ dg @ [32] @ R) ! (k - 1) = dg ! j"
      unfolding j(1) nth_append_length_plus using j(2) by (simp add: nth_append del: replicate.simps)
    then show False using prev 5 d32 nth_mem [OF j(2)] by auto
  next
    case 6
    then have "drop k (e @ replicate (Suc n) 32 @ dg @ [32] @ R) = 32 # R" by simp
    then show False using tok name(1) unfolding dr by simp
  qed
qed

section \<open>Numbers\<close>

lemma unat_digit: "m < 10 \<Longrightarrow> unat (of_nat (48 + m) :: u8) = 48 + m"
  by (simp only: unat_of_nat take_bit_eq_mod) simp

lemma decimal_digits: "decimal n \<noteq> []" "\<forall>c \<in> set (decimal n). isdigit c"
proof -
  have d: "isdigit (of_nat (48 + m))" if "m < 10" for m
    using unat_digit [OF that] that by (simp only: isdigit_def word_le_nat_alt) simp
  show "decimal n \<noteq> []" by (subst decimal.simps) simp
  show "\<forall>c \<in> set (decimal n). isdigit c"
  proof (induction n rule: decimal.induct)
    case (1 n)
    then show ?case using d [of n] d [of "n mod 10"] by (subst decimal.simps) (auto simp del: decimal.simps)
  qed
qed

lemma atoi_decimal: "atoi_digits acc (decimal n @ rest) = atoi_digits (acc * 10 ^ length (decimal n) + int n) rest"
proof (induction n arbitrary: acc rest rule: decimal.induct)
  case (1 n)
  have d: "atoi_digits a (of_nat (48 + m) # r) = atoi_digits (10 * a + int m) r" if "m < 10" for a m r
  proof -
    have "isdigit (of_nat (48 + m))"
      using unat_digit [OF that] that by (simp only: isdigit_def word_le_nat_alt) simp
    then show ?thesis by (simp only: atoi_digits.simps if_True unat_digit [OF that]) simp
  qed
  show ?case
  proof (cases "n < 10")
    case True
    then have "decimal n = [of_nat (48 + n)]" by simp
    then show ?thesis using d [OF True] by (simp del: decimal.simps of_nat_add add: mult.commute)
  next
    case False
    then have n: "decimal n = decimal (n div 10) @ [of_nat (48 + n mod 10)]" by simp
    let ?L = "length (decimal (n div 10))"
    have "atoi_digits acc (decimal n @ rest) = atoi_digits acc (decimal (n div 10) @ of_nat (48 + n mod 10) # rest)"
      by (simp only: n append_assoc append.simps)
    also have "\<dots> = atoi_digits (acc * 10 ^ ?L + int (n div 10)) (of_nat (48 + n mod 10) # rest)" by (rule 1 [OF False])
    also have "\<dots> = atoi_digits (10 * (acc * 10 ^ ?L + int (n div 10)) + int (n mod 10)) rest" by (rule d) simp
    also have "10 * (acc * 10 ^ ?L + int (n div 10)) + int (n mod 10) = acc * 10 ^ length (decimal n) + int n"
    proof -
      have "acc * 10 ^ length (decimal n) = 10 * (acc * 10 ^ ?L)" by (simp add: n del: decimal.simps)
      moreover have "int n = 10 * int (n div 10) + int (n mod 10)"
        by (metis mult_div_mod_eq of_nat_add of_nat_mult of_nat_numeral)
      ultimately show ?thesis by (simp only: distrib_left add.assoc)
    qed
    finally show ?thesis .
  qed
qed

lemma atoi_spaces:
  assumes "\<not> isdigit c"
  shows "atoi (replicate k 32 @ decimal n @ c # rest) = Inr (int n)"
proof -
  obtain d ds where d: "decimal n = d # ds" using decimal_digits(1) [of n] by (cases "decimal n") auto
  then have dd: "isdigit d" using decimal_digits(2) [of n] by simp
  then have "\<not> isspace d" "d \<noteq> 45" "d \<noteq> 43" by (auto simp: isdigit_def isspace_def word_le_nat_alt)
  moreover have "dropWhile isspace (replicate k 32 @ xs) = dropWhile isspace xs" for xs
    by (induction k) (auto simp: isspace_def)
  ultimately have "atoi (replicate k 32 @ decimal n @ c # rest) = atoi_digits 0 (decimal n @ c # rest)"
    by (simp add: atoi_def d del: decimal.simps)
  also have "\<dots> = Inr (int n)" using assms by (simp add: atoi_decimal del: decimal.simps)
  finally show ?thesis .
qed

section \<open>Directories\<close>

text \<open>A directory: names with their inode numbers; between the two at least one space.\<close>

definition entry_text :: "bytes \<times> nat \<times> nat \<Rightarrow> bytes" where
  "entry_text = (\<lambda>(name, pad, ino). name @ replicate (Suc pad) 32 @ decimal ino @ [32])"

definition good_name :: "bytes \<Rightarrow> bool" where
  "good_name name \<longleftrightarrow> name \<noteq> [] \<and> 0 \<notin> set name \<and> 32 \<notin> set name \<and> (\<exists>c \<in> set name. \<not> isdigit c)"

lemma entry_length:
  "map_of (map (\<lambda>(n, p, i). (n, i)) es) name = Some ino \<Longrightarrow> length name < length (concat (map entry_text es))"
  by (induction es) (auto simp: entry_text_def simp del: decimal.simps split: if_splits)

lemma scan_entries:
  assumes "text = A @ concat (map entry_text es)" and "A = [] \<or> last A = 32" and "\<forall>e \<in> set es. good_name (fst e)"
    and "good_name name" and "map_of (map (\<lambda>(n, p, i). (n, i)) es) name = Some ino"
    and "length text < 2 ^ 32" and "length text \<le> length buf" and "take (length text) buf = text"
  shows "scan_dir (name @ junk) buf (length text) (length name) (length A) = Inr (int ino)"
  using assms
proof (induction es arbitrary: A)
  case (Cons e es)
  obtain n p i where e: "e = (n, p, i)" using prod_cases3 by blast
  let ?R = "concat (map entry_text es)"
  have tx: "text = A @ n @ replicate (Suc p) 32 @ decimal i @ [32] @ ?R"
    using Cons.prems(1) by (simp add: e entry_text_def del: decimal.simps)
  have buf: "buf = text @ drop (length text) buf"
    using append_take_drop_id [of "length text" buf] Cons.prems(8) by simp
  have g: "0 \<notin> set name" "name \<noteq> []" "32 \<notin> set name" "\<exists>c \<in> set name. \<not> isdigit c" using Cons.prems(4) by (auto simp: good_name_def)
  show ?case
  proof (cases "name = n")
    case True
    have l: "length A + length name < length text" by (simp add: tx True del: decimal.simps)
    have "text ! (length A + length name) = 32"
      by (simp add: tx True nth_append del: decimal.simps)
    moreover have "A \<noteq> [] \<Longrightarrow> text ! (length A - 1) = 32"
      using Cons.prems(2) by (simp add: tx nth_append last_conv_nth)
    ultimately have "hit name text (length A)" by (auto simp: hit_def tx True simp del: decimal.simps)
    then have "scan_dir (name @ junk) buf (length text) (length name) (length A) = atoi (drop (length A + length name) buf)"
      using scan_step [OF l Cons.prems(6) g(1) Cons.prems(7,8)] by simp
    moreover have "drop (length A + length name) buf = replicate (Suc p) 32 @ decimal i @ 32 # ?R @ drop (length text) buf"
      by (subst buf) (simp add: tx True del: decimal.simps replicate_Suc)
    moreover have "i = ino" using Cons.prems(5) True by (simp add: e)
    moreover have "\<not> isdigit 32" by (simp add: isdigit_def)
    ultimately show ?thesis using atoi_spaces [of 32 "Suc p" i] by (simp del: decimal.simps replicate_Suc)
  next
    case False
    let ?A = "A @ entry_text e"
    have m: "map_of (map (\<lambda>(n, p, i). (n, i)) es) name = Some ino" using Cons.prems(5) False by (simp add: e)
    have la: "length ?A = length A + length n + Suc p + length (decimal i) + 1"
      by (simp add: e entry_text_def del: decimal.simps)
    have "length name < length ?R" by (rule entry_length [OF m])
    then have l: "length ?A + length name < length text" using Cons.prems(1) by simp
    have n: "n \<noteq> []" "32 \<notin> set n" using Cons.prems(3) by (auto simp: e good_name_def)
    have "\<not> hit name text k" if "length A \<le> k" "k < length ?A" for k
      using that l unfolding la
      by (intro entry_no_hit [OF tx Cons.prems(2) n decimal_digits g(2,3) False g(4)]) simp_all
    then have "scan_dir (name @ junk) buf (length text) (length name) (length A) = scan_dir (name @ junk) buf (length text) (length name) (length ?A)"
      using l Cons.prems(6-8) g(1) by (intro scan_skip) simp_all
    also have "\<dots> = Inr (int ino)"
      using Cons.prems m by (intro Cons.IH) (auto simp: e entry_text_def simp del: decimal.simps)
    finally show ?thesis .
  qed
qed simp

lemma entry_text_no_nul:
  assumes "\<forall>e \<in> set es. good_name (fst e)"
  shows "0 \<notin> set (concat (map entry_text es))"
proof -
  have d: "0 \<notin> set (decimal n)" for n
  proof
    assume "0 \<in> set (decimal n)"
    then have "isdigit 0" using decimal_digits(2) by blast
    then show False by (simp add: isdigit_def)
  qed
  show ?thesis using assms d by (auto simp: entry_text_def good_name_def simp del: decimal.simps)
qed

text \<open>A block of the disk that starts with the text, and a null after it.\<close>

definition dir_block :: "bytes \<Rightarrow> bytes \<Rightarrow> bool" where
  "dir_block block text \<longleftrightarrow>
     length block = BLOCK_SIZE \<and> length text < BLOCK_SIZE \<and> take (length text) block = text \<and> block ! length text = 0"

lemma dir_lookup_text:
  assumes block: "dir_block block (concat (map entry_text es))" and es: "\<forall>e \<in> set es. good_name (fst e)"
    and name: "good_name name" "map_of (map (\<lambda>(n, p, i). (n, i)) es) name = Some ino"
    and serve: "serve (req\<lparr>fr_type := FILE_READ, fr_ino := word_of_int dir_ino, fr_offset := 0, fr_len := 512\<rparr>) w =
      Inr (\<lparr>fp_status = FILE_OK, fp_block = block\<rparr>, w')"
    and ro: "dir_ino < NINODES" "length buf = BLOCK_SIZE"
  shows "dir_lookup serve NINODES RWFSON req buf dir_ino (name @ 0 # junk) w = Inr (int ino, w')"
proof -
  let ?text = "concat (map entry_text es)"
  have b: "length block = 512" "length ?text < 512" "take (length ?text) block = ?text" "block ! length ?text = 0"
    using block by (simp_all add: dir_block_def)
  have dec: "block = ?text @ 0 # drop (Suc (length ?text)) block"
    using id_take_nth_drop [of "length ?text" block] b by simp
  have tw: "takeWhile (\<lambda>c. c \<noteq> 0) (?text @ 0 # xs) = ?text" for xs
    using entry_text_no_nul [OF es] by (simp only: takeWhile_append) auto
  have sb: "strlen block = Inr (length ?text)"
    by (subst dec) (simp only: strlen_def tw set_append list.set, simp)
  have "0 \<notin> set name" using name(1) by (simp add: good_name_def)
  then have sn: "strlen (name @ 0 # junk) = Inr (length name)" by (simp add: strlen_def takeWhile_append)
  have fr: "file_read serve req dir_ino 0 512 buf w = Inr (0, block, w')"
    using serve ro(2) b(1) by (simp add: file_read_def mem_read_def mem_write_def)
  have "scan_dir (name @ 0 # junk) block (length ?text) (length name) (length ([] :: bytes)) = Inr (int ino)"
    using es name b by (intro scan_entries [of ?text "[]" es]) auto
  then show ?thesis
    using ro(1) by (simp add: dir_lookup_def fr sn sb)
qed

section \<open>The directories of the image\<close>

text \<open>Where the entry of an application stands.\<close>

definition app_entries :: "bytes list \<Rightarrow> nat \<Rightarrow> (bytes \<times> nat \<times> nat) list" where
  "app_entries names n = map (\<lambda>(name, ino). (name, 3 - length (decimal ino), ino)) (zip names [n..<n + length names])"

lemma app_entries_Cons: "app_entries (name # names) n = (name, 3 - length (decimal n), n) # app_entries names (Suc n)"
proof -
  have "[n..<n + length (name # names)] = n # [Suc n..<Suc n + length names]"
    by (subst upt_conv_Cons) simp_all
  then show ?thesis by (simp add: app_entries_def del: upt_Suc decimal.simps)
qed

lemma decimal_length: "n < 1000 \<Longrightarrow> length (decimal n) \<le> 3"
proof -
  assume "n < 1000"
  have one: "length (decimal n) = 1" if "n < 10" for n using that by simp
  have two: "length (decimal n) \<le> 2" if "n < 100" for n
    using that one [of "n div 10"] by (subst decimal.simps) (auto simp del: decimal.simps simp: less_mult_imp_div_less one)
  show ?thesis
    using two [of "n div 10"] \<open>n < 1000\<close> by (subst decimal.simps) (auto simp del: decimal.simps simp: less_mult_imp_div_less)
qed

lemma bin_entry_text:
  assumes "ino < 1000"
  shows "bin_entry name ino = entry_text (name, 3 - length (decimal ino), ino)"
proof -
  have "4 - length (decimal ino) = Suc (3 - length (decimal ino))" using decimal_length [OF assms] by simp
  then show ?thesis by (simp add: bin_entry_def format4_def entry_text_def del: decimal.simps)
qed

lemma add_apps_text:
  assumes "add_apps names n d = Inr bd" and "n \<le> length d" and "length d < 256"
  shows "bd = d @ concat (map entry_text (app_entries names n)) \<and> length bd < 256"
  using assms
proof (induction names arbitrary: n d)
  case (Cons name names)
  let ?d = "d @ bin_entry name n"
  have s: "length ?d < 256" "add_apps names (n + 1) ?d = Inr bd" using Cons.prems(1) by (auto simp: Let_def split: if_splits)
  have e: "bin_entry name n = entry_text (name, 3 - length (decimal n), n)" using Cons.prems(2,3) by (intro bin_entry_text) simp
  have "n + 1 \<le> length ?d" using Cons.prems(2) by (simp add: bin_entry_def)
  note ih = Cons.IH [OF s(2) this s(1)]
  have "bd = d @ concat (map entry_text (app_entries (name # names) n))"
    using conjunct1 [OF ih] unfolding e app_entries_Cons by (simp only: list.map concat.simps append_assoc Suc_eq_plus1)
  then show ?case using conjunct2 [OF ih] by (rule conjI)
qed (simp add: app_entries_def)

lemma app_entries_lookup:
  assumes "distinct names" and "i < length names"
  shows "map_of (map (\<lambda>(n, p, i). (n, i)) (app_entries names n)) (names ! i) = Some (n + i)"
  using assms
proof (induction names arbitrary: n i)
  case (Cons name names)
  then show ?case by (cases i) (auto simp: app_entries_Cons simp del: decimal.simps)
qed simp

definition root_entries :: "(bytes \<times> nat \<times> nat) list" where
  "root_entries = [(ascii ''./'', 2, 0), (ascii ''../'', 2, 0), (ascii ''home/'', 2, 1), (ascii ''bin/'', 2, 6)]"

lemma root_text: "contents ! 0 = concat (map entry_text root_entries)"
  by code_simp

lemma bin_dir_text:
  assumes "make_bin_dir names = Inr bd"
  shows "bd = concat (map entry_text ([(ascii ''./'', 2, 6), (ascii ''../'', 2, 0)] @ app_entries names 7)) \<and> length bd < 256"
proof -
  have l: "length (ascii ''./   6 ../   0 '') = 15" by (simp add: ascii_def)
  have t: "ascii ''./   6 ../   0 '' = concat (map entry_text [(ascii ''./'', 2, 6), (ascii ''../'', 2, 0)])"
    by code_simp
  have a: "bd = ascii ''./   6 ../   0 '' @ concat (map entry_text (app_entries names (6 + 1))) \<and> length bd < 256"
    using assms unfolding make_bin_dir_def by (rule add_apps_text) (simp_all add: l)
  have n: "(6 :: nat) + 1 = 7" by simp
  show ?thesis
    using conjunct1 [OF a] unfolding t n by (intro conjI conjunct2 [OF a]) (simp only: map_append concat_append)
qed

lemma dots_good: "good_name (ascii ''./'')" "good_name (ascii ''../'')" "good_name (ascii ''home/'')" "good_name (ascii ''bin/'')"
  by code_simp+

lemma dir_lookup_image_spec:
  assumes names: "make_bin_dir names = Inr bd" "distinct names" "i < length names"
      "\<forall>n \<in> set names. good_name n \<and> n \<noteq> ascii ''./'' \<and> n \<noteq> ascii ''../''"
    and blocks: "dir_block root_block (contents ! 0)" "dir_block bin_block bd"
    and serve: "\<forall>req w. fr_type req = FILE_READ \<and> fr_ino req \<in> {0, 6} \<and> fr_offset req = 0 \<and> fr_len req = 512 \<longrightarrow>
      serve req w = Inr (\<lparr>fp_status = FILE_OK, fp_block = if fr_ino req = 0 then root_block else bin_block\<rparr>, w)"
    and ro: "6 < NINODES" "length buf = 512"
  shows "dir_lookup serve NINODES RWFSON req buf 0 (ascii ''bin/'' @ [0]) w = Inr (6, w) \<and>
    dir_lookup serve NINODES RWFSON req buf 6 (names ! i @ 0 # junk) w = Inr (int (7 + i), w)"
proof
  have "dir_block root_block (concat (map entry_text root_entries))" using blocks(1) by (simp only: root_text)
  moreover have "\<forall>e \<in> set root_entries. good_name (fst e)" by (simp add: root_entries_def dots_good)
  moreover have "map_of (map (\<lambda>(n, p, i). (n, i)) root_entries) (ascii ''bin/'') = Some 6"
    by (simp add: root_entries_def ascii_def)
  ultimately show "dir_lookup serve NINODES RWFSON req buf 0 (ascii ''bin/'' @ [0]) w = Inr (6, w)"
    using dir_lookup_text [where block = root_block and es = root_entries and name = "ascii ''bin/''" and ino = 6 and serve = serve
        and req = req and dir_ino = 0 and w = w and w' = w and NINODES = NINODES and buf = buf and RWFSON = RWFSON] serve ro dots_good(4)
    by simp
  let ?es = "[(ascii ''./'', 2, 6), (ascii ''../'', 2, 0)] @ app_entries names 7"
  have "dir_block bin_block (concat (map entry_text ?es))" using blocks(2) bin_dir_text [OF names(1)] by simp
  moreover have "\<forall>e \<in> set ?es. good_name (fst e)"
    using names(4) by (auto simp: dots_good app_entries_def dest!: set_zip_leftD)
  moreover have g: "good_name (names ! i)" "names ! i \<noteq> ascii ''./''" "names ! i \<noteq> ascii ''../''" using names(3,4) by auto
  moreover have "map_of (map (\<lambda>(n, p, i). (n, i)) ?es) (names ! i) = Some (7 + i)"
    using app_entries_lookup [OF names(2,3), of 7] g(2,3) by simp
  ultimately show "dir_lookup serve NINODES RWFSON req buf 6 (names ! i @ 0 # junk) w = Inr (int (7 + i), w)"
    using dir_lookup_text [where block = bin_block and es = ?es and name = "names ! i" and ino = "7 + i" and serve = serve
        and req = req and dir_ino = 6 and w = w and w' = w and NINODES = NINODES and buf = buf and RWFSON = RWFSON] serve ro by simp
qed

text \<open>
  C34: the directories that the image builder writes are found again: \<^verbatim>\<open>dir_lookup()\<close> of \<^verbatim>\<open>bin/\<close> in the root directory
  gives the inode of the directory of applications, and there every application's name gives the inode that its program was
  written to. Names are not empty, have no spaces or nulls, and are not all digits.
\<close>

theorem dir_lookup_image:
  assumes "make_bin_dir names = Inr bd" "distinct names" "i < length names"
      "\<forall>n \<in> set names. good_name n \<and> n \<noteq> ascii ''./'' \<and> n \<noteq> ascii ''../''"
    and "dir_block root_block (contents ! 0)" "dir_block bin_block bd"
    and "\<forall>req w. fr_type req = FILE_READ \<and> fr_ino req \<in> {0, 6} \<and> fr_offset req = 0 \<and> fr_len req = 512 \<longrightarrow>
      serve req w = Inr (\<lparr>fp_status = FILE_OK, fp_block = if fr_ino req = 0 then root_block else bin_block\<rparr>, w)"
    and "6 < NINODES" "length buf = 512"
  shows "dir_lookup serve NINODES RWFSON req buf 0 (ascii ''bin/'' @ [0]) w = Inr (6, w) \<and>
    dir_lookup serve NINODES RWFSON req buf 6 (names ! i @ [0]) w = Inr (int (7 + i), w)"
  using assms by (rule dir_lookup_image_spec)

text \<open>A file server that holds the two directories, and nothing else.\<close>

definition image_server :: "bytes \<Rightarrow> bytes \<Rightarrow> (file_request, file_reply, unit) server" where
  "image_server root_block bin_block req w =
     Inr (\<lparr>fp_status = FILE_OK, fp_block = if fr_ino req = 0 then root_block else bin_block\<rparr>, w)"

definition pad_block :: "bytes \<Rightarrow> bytes" where
  "pad_block d = d @ replicate (BLOCK_SIZE - length d) 0"

lemma dir_block_pad: "length d < 512 \<Longrightarrow> dir_block (pad_block d) d"
  by (simp add: dir_block_def pad_block_def nth_append)

definition empty_file_request :: file_request where
  "empty_file_request = \<lparr>fr_type = FILE_UNUSED, fr_ino = 0, fr_offset = 0, fr_len = 0, fr_block = replicate BLOCK_SIZE 0\<rparr>"

theorem dir_lookup_image_witness:
  "case make_bin_dir [ascii ''cat'', ascii ''http'', ascii ''ls''] of
     Inl _ \<Rightarrow> False
   | Inr bd \<Rightarrow> dir_lookup (image_server (pad_block (contents ! 0)) (pad_block bd)) 128 False empty_file_request (replicate 512 0) 6
       (ascii ''http'' @ [0]) () = Inr (8, ())"
proof -
  let ?names = "[ascii ''cat'', ascii ''http'', ascii ''ls'']"
  let ?bd = "ascii ''./   6 ../   0 cat   7 http   8 ls   9 ''"
  have bd: "make_bin_dir ?names = Inr ?bd" by code_simp
  have n: "distinct ?names" "\<forall>n \<in> set ?names. good_name n \<and> n \<noteq> ascii ''./'' \<and> n \<noteq> ascii ''../''" by code_simp+
  have l: "length (contents ! 0) < 512" "length ?bd < 512" by code_simp+
  have i: "1 < length ?names" "(6 :: int) < 128" "length (replicate 512 (0 :: u8)) = 512" by simp_all
  have s: "\<forall>req w. fr_type req = FILE_READ \<and> fr_ino req \<in> {0, 6} \<and> fr_offset req = 0 \<and> fr_len req = 512 \<longrightarrow>
      image_server (pad_block (contents ! 0)) (pad_block ?bd) req w =
      Inr (\<lparr>fp_status = FILE_OK, fp_block = if fr_ino req = 0 then pad_block (contents ! 0) else pad_block ?bd\<rparr>, w)"
    by (simp add: image_server_def)
  note r = dir_lookup_image [OF bd n(1) i(1) n(2) dir_block_pad [OF l(1)] dir_block_pad [OF l(2)] s i(2,3), of False empty_file_request "()"]
  have "?names ! 1 = ascii ''http''" "int (7 + 1) = 8" by simp_all
  then show ?thesis using conjunct2 [OF r] unfolding bd by (simp only: sum.case)
qed

end
