(* ===== verification/Sys_Proc.thy ===== *)
theory Sys_Proc
  imports Mkfs
begin

text \<open>
  \<^verbatim>\<open>apps/system/sys_proc.c\<close>: the process server. It starts the other servers, and then starts and ends processes on request.
  The kernel (\<^verbatim>\<open>struct grass\<close>), the disk and the loader \<^verbatim>\<open>elf_load()\<close> are not part of the repository; they are arguments
  of the definitions. The file service is reached through the functions of \<^verbatim>\<open>library/syscall/servers.c\<close>.
\<close>

section \<open>Data\<close>

abbreviation (input) GPID_PROCESS :: int where "GPID_PROCESS \<equiv> 1"
abbreviation (input) GPID_TERMINAL :: int where "GPID_TERMINAL \<equiv> 2"
abbreviation (input) GPID_FILE :: int where "GPID_FILE \<equiv> 3"
abbreviation (input) GPID_NET :: int where "GPID_NET \<equiv> 4"
abbreviation (input) GPID_SHELL :: int where "GPID_SHELL \<equiv> 5"
abbreviation (input) GPID_ALL :: int where "GPID_ALL \<equiv> -1"

abbreviation (input) CMD_NARGS :: nat where "CMD_NARGS \<equiv> 16"
abbreviation (input) PROC_SPAWN :: int where "PROC_SPAWN \<equiv> 0"
abbreviation (input) PROC_EXIT :: int where "PROC_EXIT \<equiv> 1"
abbreviation (input) PROC_KILLALL :: int where "PROC_KILLALL \<equiv> 2"
abbreviation (input) CMD_OK :: int where "CMD_OK \<equiv> 0"
abbreviation (input) CMD_ERROR :: int where "CMD_ERROR \<equiv> 1"

abbreviation (input) SYS_EXEC_BLOCKS :: u32 where "SYS_EXEC_BLOCKS \<equiv> 256"
abbreviation (input) SYS_TERM_EXEC_START :: u32 where "SYS_TERM_EXEC_START \<equiv> SYS_EXEC_BLOCKS * 2"
abbreviation (input) SYS_FILE_EXEC_START :: u32 where "SYS_FILE_EXEC_START \<equiv> SYS_EXEC_BLOCKS * 3"
abbreviation (input) SYS_NET_EXEC_START :: u32 where "SYS_NET_EXEC_START \<equiv> SYS_EXEC_BLOCKS * 4"
abbreviation (input) SYS_SHELL_EXEC_START :: u32 where "SYS_SHELL_EXEC_START \<equiv> SYS_EXEC_BLOCKS * 5"

text \<open>
  The message buffer as a request. The reply is built in the same buffer: its only field, the type, is that of the request.
\<close>

record proc_request =
  pq_type :: int
  argc :: int
  argv :: "bytes list"

text \<open>A function that loads a block of a program: block number and destination.\<close>

type_synonym 'w reader = "u32 \<Rightarrow> bytes \<Rightarrow> 'w \<Rightarrow> (bytes \<times> 'w) res"

text \<open>
  The kernel, the disk, the loader, and the file service with what its calls need (the number of inodes, the build's switch, and
  what the local variables of \<^verbatim>\<open>dir_lookup()\<close> and \<^verbatim>\<open>file_read()\<close> hold before). \<open>sys_recv\<close> is the wait for a message from one process.
\<close>

record 'w grass =
  proc_alloc :: "'w \<Rightarrow> int \<times> 'w"
  proc_free :: "int \<Rightarrow> 'w \<Rightarrow> 'w"
  proc_set_ready :: "int \<Rightarrow> 'w \<Rightarrow> 'w"
  sys_recv :: "int \<Rightarrow> 'w \<Rightarrow> 'w res"
  disk_read :: "u32 \<Rightarrow> u32 \<Rightarrow> bytes \<Rightarrow> 'w \<Rightarrow> (bytes \<times> 'w) res"
  elf_load :: "int \<Rightarrow> 'w reader \<Rightarrow> int \<Rightarrow> bytes list \<Rightarrow> 'w \<Rightarrow> 'w res"
  file_serve :: "(file_request, file_reply, 'w) server"
  ninodes :: int
  rwfson :: bool
  local_req :: file_request
  local_buf :: bytes

text \<open>The server's variables, the state of the rest of the system, and the messages it has sent.\<close>

record 'w proc_state =
  app_ino :: int
  app_pid :: int
  shell_waiting :: bool
  sys_apps_base :: u32
  world :: 'w
  sent :: "(int \<times> int) list"

section \<open>Operations\<close>

definition app_read :: "'w grass \<Rightarrow> int \<Rightarrow> 'w reader" where
  "app_read G ino off dst w =
     res_bind (file_read (file_serve G) (local_req G) ino off (of_nat BLOCK_SIZE) dst w) (\<lambda>(_, dst, w). Inr (dst, w))"

text \<open>\<^verbatim>\<open>req->argv[k][0]\<close>.\<close>

definition arg_char :: "proc_request \<Rightarrow> int \<Rightarrow> u8 res" where
  "arg_char req k = (if 0 \<le> k \<and> k < int CMD_NARGS then char_at (argv req ! nat k) 0 else Inl OutOfBounds)"

text \<open>The argument array is contiguous: a string that starts in \<^verbatim>\<open>argv[0]\<close> may run on.\<close>

definition app_spawn :: "'w grass \<Rightarrow> proc_request \<Rightarrow> 'w proc_state \<Rightarrow> (int \<times> 'w proc_state) res" where
  "app_spawn G req s =
     res_bind (dir_lookup (file_serve G) (ninodes G) (rwfson G) (local_req G) (local_buf G) 0 (ascii ''bin/'' @ [0]) (world s))
       (\<lambda>(bin_ino, w).
     res_bind (dir_lookup (file_serve G) (ninodes G) (rwfson G) (local_req G) (local_buf G) bin_ino (concat (argv req)) w)
       (\<lambda>(ino, w).
       let s = s\<lparr>app_ino := ino, world := w\<rparr> in
       if app_ino s < 0 then Inr (CMD_ERROR, s)
       else res_bind (arg_char req (argc req - 1)) (\<lambda>c.
            let n = (if c = 38 then argc req - 1 else argc req);
                (pid, w) = proc_alloc G (world s);
                s = s\<lparr>app_pid := pid, world := w\<rparr>
            in res_bind (elf_load G pid (app_read G (app_ino s)) n (argv req) (world s)) (\<lambda>w.
                 Inr (CMD_OK, s\<lparr>world := proc_set_ready G pid w\<rparr>)))))"

definition sys_proc_read :: "'w grass \<Rightarrow> u32 \<Rightarrow> 'w reader" where
  "sys_proc_read G base block_no dst w = disk_read G (base + block_no) 1 dst w"

definition sys_spawn :: "'w grass \<Rightarrow> u32 \<Rightarrow> 'w proc_state \<Rightarrow> 'w proc_state res" where
  "sys_spawn G base s =
     (let (pid, w) = proc_alloc G (world s)
      in if \<not> (1 \<le> pid \<and> pid \<le> 5) then Inl OutOfBounds
         else let s = s\<lparr>world := w, sys_apps_base := base\<rparr>
              in res_bind (elf_load G pid (sys_proc_read G (sys_apps_base s)) 0 [] (world s)) (\<lambda>w.
                   Inr (s\<lparr>world := proc_set_ready G pid w\<rparr>)))"

definition wait_for :: "'w grass \<Rightarrow> int \<Rightarrow> 'w proc_state \<Rightarrow> 'w proc_state res" where
  "wait_for G pid s = res_bind (sys_recv G pid (world s)) (\<lambda>w. Inr (s\<lparr>world := w\<rparr>))"

definition sys_proc_init :: "'w grass \<Rightarrow> 'w proc_state \<Rightarrow> 'w proc_state res" where
  "sys_proc_init G s =
     res_bind (sys_spawn G SYS_TERM_EXEC_START s) (\<lambda>s.
     res_bind (wait_for G GPID_TERMINAL s) (\<lambda>s.
     res_bind (sys_spawn G SYS_FILE_EXEC_START s) (\<lambda>s.
     res_bind (wait_for G GPID_FILE s) (\<lambda>s.
     res_bind (sys_spawn G SYS_NET_EXEC_START s) (\<lambda>s.
     res_bind (wait_for G GPID_NET s) (\<lambda>s.
     sys_spawn G SYS_SHELL_EXEC_START s))))))"

definition send_reply :: "int \<Rightarrow> 'w proc_state \<Rightarrow> 'w proc_state" where
  "send_reply type s = s\<lparr>sent := sent s @ [(GPID_SHELL, type)]\<rparr>"

text \<open>
  One turn of the request loop, for a message \<open>req\<close> of \<open>sender\<close>. In the branch for \<^verbatim>\<open>PROC_EXIT\<close> the reply's type is still that of the
  request in the shared buffer.
\<close>

definition sys_proc_step :: "'w grass \<Rightarrow> int \<times> proc_request \<Rightarrow> 'w proc_state \<Rightarrow> 'w proc_state res" where
  "sys_proc_step G = (\<lambda>(sender, req) s.
     if pq_type req = PROC_SPAWN
     then res_bind (app_spawn G req s) (\<lambda>(type, s).
          res_bind (arg_char req (argc req - 1)) (\<lambda>c.
            Inr (send_reply type (s\<lparr>shell_waiting := c \<noteq> 38 \<and> type = CMD_OK\<rparr>))))
     else if pq_type req = PROC_EXIT
     then let s = s\<lparr>world := proc_free G sender (world s)\<rparr>
          in Inr (if shell_waiting s \<and> app_pid s = sender then send_reply (pq_type req) s else s)
     else if pq_type req = PROC_KILLALL then Inr (s\<lparr>world := proc_free G GPID_ALL (world s)\<rparr>)
     else Inl Fatal)"

fun sys_proc_run :: "'w grass \<Rightarrow> (int \<times> proc_request) list \<Rightarrow> 'w proc_state \<Rightarrow> 'w proc_state res" where
  "sys_proc_run G [] s = Inr s"
| "sys_proc_run G (m # ms) s = res_bind (sys_proc_step G m s) (sys_proc_run G ms)"

text \<open>
  \<^verbatim>\<open>exit()\<close> of \<^verbatim>\<open>library/syscall/servers.c\<close>: the message it sends, and the state after that, in which the process loops until it is freed. Of
  the local variable \<open>req\<close> only the type is set.
\<close>

definition exit :: "(int \<Rightarrow> proc_request \<Rightarrow> 'w \<Rightarrow> 'w) \<Rightarrow> proc_request \<Rightarrow> int \<Rightarrow> 'w \<Rightarrow> 'w" where
  "exit send req status w = send GPID_PROCESS (req\<lparr>pq_type := PROC_EXIT\<rparr>) w"

section \<open>The life of an application\<close>

lemma sys_proc_run_append: "sys_proc_run G (ms @ ns) s = res_bind (sys_proc_run G ms s) (sys_proc_run G ns)"
  by (induction ms arbitrary: s) (auto simp: res_bind_assoc intro!: res_bind_cong)

text \<open>The exits of other processes free them, and nothing else.\<close>

lemma other_exits:
  assumes "\<forall>m \<in> set ms. pq_type (snd m) = PROC_EXIT \<and> fst m \<noteq> app_pid s"
  shows "sys_proc_run G ms s = Inr (s\<lparr>world := fold (\<lambda>m. proc_free G (fst m)) ms (world s)\<rparr>)"
  using assms
proof (induction ms arbitrary: s)
  case (Cons m ms)
  then show ?case by (cases m) (simp add: sys_proc_step_def Let_def)
qed simp

lemma own_exit:
  assumes "pq_type e = PROC_EXIT"
  shows "sys_proc_run G [(app_pid s, e)] s = Inr (s\<lparr>world := proc_free G (app_pid s) (world s),
    sent := sent s @ (if shell_waiting s then [(GPID_SHELL, PROC_EXIT)] else [])\<rparr>)"
  using assms by (simp add: sys_proc_step_def send_reply_def Let_def)

lemma spawn_step:
  assumes spawn: "pq_type req = PROC_SPAWN" and args: "0 < argc req" "argc req \<le> 16" "argv req ! nat (argc req - 1) = c # cs"
    and find: "dir_lookup (file_serve G) (ninodes G) (rwfson G) (local_req G) (local_buf G) 0 (ascii ''bin/'' @ [0]) (world s) = Inr (bin, w)"
      "dir_lookup (file_serve G) (ninodes G) (rwfson G) (local_req G) (local_buf G) bin (concat (argv req)) w = Inr (ino, w')" "0 \<le> ino"
    and alloc: "proc_alloc G w' = (pid, w1)"
    and load: "elf_load G pid (app_read G ino) (if c = 38 then argc req - 1 else argc req) (argv req) w1 = Inr w2"
  shows "sys_proc_step G (sender, req) s = Inr (s\<lparr>app_ino := ino, app_pid := pid, shell_waiting := c \<noteq> 38,
    world := proc_set_ready G pid w2, sent := sent s @ [(GPID_SHELL, CMD_OK)]\<rparr>)"
proof -
  have "arg_char req (argc req - 1) = Inr c" using args by (simp add: arg_char_def char_at_def)
  then show ?thesis
    using spawn find alloc load by (simp add: sys_proc_step_def app_spawn_def send_reply_def Let_def)
qed

text \<open>
  C35: the process server runs an application. A spawn request with the name of an application in the image allocates a process, loads
  it from the application's inode with its arguments, without a trailing \<^verbatim>\<open>&\<close>, makes it ready, and tells the shell; when it
  exits after other processes have, it is freed, and the shell is sent a second message exactly if it was not in the background.
\<close>

theorem app_runs_until_exit:
  assumes "make_bin_dir names = Inr bd" "distinct names" "i < length names"
      "\<forall>n \<in> set names. good_name n \<and> n \<noteq> ascii ''./'' \<and> n \<noteq> ascii ''../''"
    and "dir_block root_block (contents ! 0)" "dir_block bin_block bd"
    and "\<forall>req w. fr_type req = FILE_READ \<and> fr_ino req \<in> {0, 6} \<and> fr_offset req = 0 \<and> fr_len req = 512 \<longrightarrow>
      file_serve G req w = Inr (\<lparr>fp_status = FILE_OK, fp_block = if fr_ino req = 0 then root_block else bin_block\<rparr>, w)"
    and "6 < ninodes G" "length (local_buf G) = 512"
    and req: "pq_type req = PROC_SPAWN" "argv req = (names ! i @ 0 # rest) # args"
      "0 < argc req" "argc req \<le> 16" "argv req ! nat (argc req - 1) = c # cs"
    and alloc: "proc_alloc G (world s) = (pid, w1)"
    and load: "elf_load G pid (app_read G (int (7 + i))) (if c = 38 then argc req - 1 else argc req) (argv req) w1 = Inr w2"
    and exits: "\<forall>m \<in> set others. pq_type (snd m) = PROC_EXIT \<and> fst m \<noteq> pid" "pq_type e = PROC_EXIT"
  shows "sys_proc_run G ((sender, req) # others @ [(pid, e)]) s = Inr (s\<lparr>app_ino := int (7 + i), app_pid := pid, shell_waiting := c \<noteq> 38,
    world := proc_free G pid (fold (\<lambda>m. proc_free G (fst m)) others (proc_set_ready G pid w2)),
    sent := sent s @ (GPID_SHELL, CMD_OK) # (if c = 38 then [] else [(GPID_SHELL, PROC_EXIT)])\<rparr>)"
proof -
  note d = dir_lookup_image_spec [OF assms(1-9)]
  have "concat (argv req) = names ! i @ 0 # (rest @ concat args)" using req(2) by simp
  with d have start: "sys_proc_step G (sender, req) s = Inr (s\<lparr>app_ino := int (7 + i), app_pid := pid, shell_waiting := c \<noteq> 38,
      world := proc_set_ready G pid w2, sent := sent s @ [(GPID_SHELL, CMD_OK)]\<rparr>)" (is "_ = Inr ?t")
    using alloc load by (intro spawn_step [OF req(1,3-5)]) auto
  have rest: "sys_proc_run G others ?t = Inr (?t\<lparr>world := fold (\<lambda>m. proc_free G (fst m)) others (world ?t)\<rparr>)" (is "_ = Inr ?u")
    using exits(1) by (intro other_exits) simp
  have own: "sys_proc_run G [(pid, e)] ?u = Inr (?u\<lparr>world := proc_free G pid (world ?u),
      sent := sent ?u @ (if shell_waiting ?u then [(GPID_SHELL, PROC_EXIT)] else [])\<rparr>)"
    using own_exit [OF exits(2), of G ?u] by simp
  have "sys_proc_run G ((sender, req) # others @ [(pid, e)]) s = sys_proc_run G [(pid, e)] ?u"
    by (simp only: sys_proc_run.simps(2) start rest res_bind_simps sys_proc_run_append)
  with own show ?thesis by (simp del: sys_proc_run.simps)
qed

text \<open>A system with the image of one application, whose loader and process table do nothing.\<close>

definition one_app :: "unit grass" where
  "one_app = \<lparr>proc_alloc = (\<lambda>w. (6, w)), proc_free = (\<lambda>_ w. w), proc_set_ready = (\<lambda>_ w. w), sys_recv = (\<lambda>_ w. Inr w),
     disk_read = (\<lambda>_ _ d w. Inr (d, w)), elf_load = (\<lambda>_ _ _ _ w. Inr w),
     file_serve = image_server (pad_block (contents ! 0)) (pad_block (ascii ''./   6 ../   0 http   7 '')),
     ninodes = 128, rwfson = False, local_req = empty_file_request, local_buf = replicate BLOCK_SIZE 0\<rparr>"

definition spawn_http :: proc_request where
  "spawn_http = \<lparr>pq_type = PROC_SPAWN, argc = 1, argv = (ascii ''http'' @ replicate 28 0) # replicate 15 (replicate 32 0)\<rparr>"

definition exit_request :: proc_request where
  "exit_request = \<lparr>pq_type = PROC_EXIT, argc = 0, argv = replicate CMD_NARGS (replicate 32 0)\<rparr>"

definition idle_server :: "unit proc_state" where
  "idle_server = \<lparr>app_ino = 0, app_pid = 0, shell_waiting = False, sys_apps_base = 0, world = (), sent = []\<rparr>"

theorem app_runs_until_exit_witness:
  "\<exists>s'. sys_proc_run one_app [(5, spawn_http), (7, exit_request), (6, exit_request)] idle_server = Inr s' \<and>
     app_ino s' = 7 \<and> sent s' = [(5, CMD_OK), (5, PROC_EXIT)]"
proof -
  let ?names = "[ascii ''http'']" and ?bd = "ascii ''./   6 ../   0 http   7 ''"
  have n: "make_bin_dir ?names = Inr ?bd" "distinct ?names" "0 < length ?names"
      "\<forall>n \<in> set ?names. good_name n \<and> n \<noteq> ascii ''./'' \<and> n \<noteq> ascii ''../''" by code_simp+
  have "length (contents ! 0) < 512" "length ?bd < 512" by code_simp+
  note b = this [THEN dir_block_pad]
  have s: "\<forall>req w. fr_type req = FILE_READ \<and> fr_ino req \<in> {0, 6} \<and> fr_offset req = 0 \<and> fr_len req = 512 \<longrightarrow>
      file_serve one_app req w = Inr (\<lparr>fp_status = FILE_OK, fp_block = if fr_ino req = 0 then pad_block (contents ! 0) else pad_block ?bd\<rparr>, w)"
    by (simp add: one_app_def image_server_def)
  have g: "6 < ninodes one_app" "length (local_buf one_app) = 512" "proc_alloc one_app (world idle_server) = (6, ())"
    by (simp_all add: one_app_def)
  have r: "pq_type spawn_http = PROC_SPAWN" "argv spawn_http = (?names ! 0 @ 0 # replicate 27 0) # replicate 15 (replicate 32 0)"
      "0 < argc spawn_http" "argc spawn_http \<le> 16" "argv spawn_http ! nat (argc spawn_http - 1) = 104 # tl (ascii ''http'') @ replicate 28 0"
    by code_simp+
  have l: "elf_load one_app 6 (app_read one_app (int (7 + 0))) (if (104 :: u8) = 38 then argc spawn_http - 1 else argc spawn_http) (argv spawn_http) () = Inr ()"
    by (simp add: one_app_def)
  have e: "\<forall>m \<in> set [(7 :: int, exit_request)]. pq_type (snd m) = PROC_EXIT \<and> fst m \<noteq> 6" "pq_type exit_request = PROC_EXIT"
    by (simp_all add: exit_request_def)
  show ?thesis
    using app_runs_until_exit [OF n b s g(1,2) r g(3) l e, of 5] by (simp del: sys_proc_run.simps add: idle_server_def)
qed

end
