(* ===== verification/Mkfs_Image.thy ===== *)
theory Mkfs_Image
  imports Sys_Proc
begin

text \<open>
  The rest of \<^verbatim>\<open>tools/mkfs.c\<close>: the binaries of the kernel and the servers, the files of the read-only file system, and the two images that are
  written. The file system library, which writes into the array \<^verbatim>\<open>fs\<close> through the functions of a ram disk, is outside the repository: it is
  an argument. So are the bytes of the writable file system's array, whose contents \<^verbatim>\<open>mkrwfs()\<close> assigns by structures that are defined outside.
\<close>

section \<open>The ram disk\<close>

abbreviation (input) SIZE_2MB :: nat where "SIZE_2MB \<equiv> 2097152"
abbreviation (input) EGOS_BIN_MAX_NBYTE :: nat where "EGOS_BIN_MAX_NBYTE \<equiv> 131072"

definition ramread :: "nat \<Rightarrow> bytes \<Rightarrow> bytes res" where
  "ramread offset fs = mem_read fs (offset * BLOCK_SIZE) BLOCK_SIZE"

definition ramwrite :: "nat \<Rightarrow> bytes \<Rightarrow> bytes \<Rightarrow> bytes res" where
  "ramwrite offset block fs = res_bind (mem_read block 0 BLOCK_SIZE) (mem_write fs (offset * BLOCK_SIZE))"

definition getsize :: nat where
  "getsize = SIZE_2MB div BLOCK_SIZE"

record inode_store =
  is_read :: "nat \<Rightarrow> bytes \<Rightarrow> bytes res"
  is_write :: "nat \<Rightarrow> bytes \<Rightarrow> bytes \<Rightarrow> bytes res"
  is_getsize :: nat
  is_setsize :: "unit res"

definition ramdisk :: inode_store where
  "ramdisk = \<lparr>is_read = ramread, is_write = ramwrite, is_getsize = getsize, is_setsize = Inl Fatal\<rparr>"

text \<open>The file system on such a store: creation, and writing a block of a file.\<close>

record file_system =
  disk_create :: "inode_store \<Rightarrow> bytes \<Rightarrow> bytes res"
  disk_write :: "inode_store \<Rightarrow> nat \<Rightarrow> nat \<Rightarrow> bytes \<Rightarrow> bytes \<Rightarrow> bytes res"

section \<open>The image builder\<close>

text \<open>A file is its contents: \<^verbatim>\<open>load_file()\<close> copies all of them and returns their number.\<close>

definition load_file :: "bytes \<Rightarrow> nat \<Rightarrow> bytes \<Rightarrow> (nat \<times> bytes) res" where
  "load_file file off dst = res_bind (mem_write dst off file) (\<lambda>dst. Inr (length file, dst))"

fun load_binaries :: "bytes list \<Rightarrow> nat \<Rightarrow> bytes \<Rightarrow> bytes res" where
  "load_binaries [] i exec = Inr exec"
| "load_binaries (file # files) i exec =
     res_bind (load_file file (i * EGOS_BIN_MAX_NBYTE) exec) (\<lambda>(_, exec). load_binaries files (i + 1) exec)"

text \<open>\<^verbatim>\<open>strncpy()\<close> of a string into the start of an array fills up with nulls.\<close>

definition strncpy :: "bytes \<Rightarrow> bytes \<Rightarrow> nat \<Rightarrow> bytes res" where
  "strncpy dst str n = mem_write dst 0 (take n (str @ replicate n 0))"

fun write_contents :: "file_system \<Rightarrow> bytes list \<Rightarrow> nat \<Rightarrow> bytes \<Rightarrow> bytes \<Rightarrow> (bytes \<times> bytes) res" where
  "write_contents F [] ino inode fs = Inr (inode, fs)"
| "write_contents F (c # cs) ino inode fs =
     res_bind (strncpy inode c BLOCK_SIZE) (\<lambda>inode.
     res_bind (disk_write F ramdisk ino 0 (take BLOCK_SIZE inode) fs) (\<lambda>fs. write_contents F cs (ino + 1) inode fs))"

fun write_blocks :: "file_system \<Rightarrow> nat \<Rightarrow> nat list \<Rightarrow> bytes \<Rightarrow> bytes \<Rightarrow> bytes res" where
  "write_blocks F ino [] inode fs = Inr fs"
| "write_blocks F ino (b # bs) inode fs =
     res_bind (mem_read inode (b * BLOCK_SIZE) BLOCK_SIZE) (\<lambda>block.
     res_bind (disk_write F ramdisk ino b block fs) (\<lambda>fs. write_blocks F ino bs inode fs))"

text \<open>The loop over the directory of the applications: names and contents of its files.\<close>

definition has_elf :: "bytes \<Rightarrow> bool" where
  "has_elf d_name \<longleftrightarrow> list_ex (\<lambda>i. take 4 (drop i d_name) = ascii ''.elf'') [0..<length d_name]"

fun write_apps :: "file_system \<Rightarrow> (bytes \<times> bytes) list \<Rightarrow> nat \<Rightarrow> bytes \<Rightarrow> bytes \<Rightarrow> bytes \<Rightarrow> (bytes \<times> bytes) res" where
  "write_apps F [] ino inode fs bin_dir = Inr (fs, bin_dir)"
| "write_apps F ((d_name, file) # ds) ino inode fs bin_dir =
     (if has_elf d_name
      then res_bind (load_file file 0 inode) (\<lambda>(file_size, inode).
           res_bind (write_blocks F ino [0..<(file_size + (BLOCK_SIZE - 1)) div BLOCK_SIZE] inode fs) (\<lambda>fs.
             let bin_dir = bin_dir @ bin_entry (take (length d_name - 4) d_name) ino
             in if 256 \<le> length bin_dir then Inl OutOfBounds
                else write_apps F ds (ino + 1) inode fs bin_dir))
      else write_apps F ds ino inode fs bin_dir)"

text \<open>
  \<^verbatim>\<open>main()\<close>, with the two images as its result. Of the directory of applications a whole block is written, which is more than the array
  holds: \<open>beyond\<close> is what follows it in memory.
\<close>

definition mkfs :: "file_system \<Rightarrow> bytes list \<Rightarrow> (bytes \<times> bytes) list \<Rightarrow> bytes \<Rightarrow> bytes \<Rightarrow> (bytes \<times> bytes) res" where
  "mkfs F egos_binaries dir beyond rwfs =
     res_bind (load_binaries egos_binaries 0 (replicate SIZE_2MB 0)) (\<lambda>exec.
     res_bind (disk_create F ramdisk (replicate SIZE_2MB 0)) (\<lambda>fs.
     res_bind (write_contents F contents 0 (replicate SIZE_2MB 0) fs) (\<lambda>(inode, fs).
     res_bind (write_apps F dir (BIN_DIR_INODE + 1) inode fs (ascii ''./   6 ../   0 '')) (\<lambda>(fs, bin_dir).
     res_bind (disk_write F ramdisk BIN_DIR_INODE 0
                (take BLOCK_SIZE (bin_dir @ replicate (256 - length bin_dir) 0 @ beyond)) fs) (\<lambda>fs.
       let disk = exec @ fs @ rwfs @ concat (replicate 13 fs);
           rom = exec @ concat (replicate 15 fs)
       in if length disk = SIZE_2MB * 16 \<and> length rom = SIZE_2MB * 16 then Inr (disk, rom) else Inl Fatal)))))"

section \<open>The directory of the applications\<close>

text \<open>The loop builds the directory of the stripped names, and the block written for it starts with that text and a null.\<close>

definition app_names :: "(bytes \<times> bytes) list \<Rightarrow> bytes list" where
  "app_names dir = map (\<lambda>(d_name, _). take (length d_name - 4) d_name) (filter (\<lambda>(d_name, _). has_elf d_name) dir)"

lemma write_apps_bin_dir:
  assumes "write_apps F dir ino inode fs bin_dir = Inr (fs', bd)"
  shows "add_apps (app_names dir) ino bin_dir = Inr bd"
  using assms
proof (induction F dir ino inode fs bin_dir rule: write_apps.induct)
  case (2 F d_name f ds ino inode fs bin_dir)
  then show ?case
    by (cases "has_elf d_name") (auto simp: app_names_def Let_def load_file_def res_bind_Inr_iff split: if_splits)
qed (simp add: app_names_def)

lemma write_apps_make_bin_dir:
  "write_apps F dir (BIN_DIR_INODE + 1) inode fs (ascii ''./   6 ../   0 '') = Inr (fs', bd) \<Longrightarrow> make_bin_dir (app_names dir) = Inr bd"
  by (simp add: make_bin_dir_def write_apps_bin_dir)

lemma bin_dir_block:
  assumes "make_bin_dir names = Inr bd" and "256 \<le> length beyond"
  shows "dir_block (take BLOCK_SIZE (bd @ replicate (256 - length bd) 0 @ beyond)) bd"
proof -
  have "length bd < 256" by (rule conjunct2 [OF bin_dir_text [OF assms(1)]])
  then show ?thesis using assms(2) by (simp add: dir_block_def nth_append)
qed

section \<open>The binaries in the image\<close>

definition slot :: "bytes \<Rightarrow> bytes" where
  "slot f = f @ replicate (EGOS_BIN_MAX_NBYTE - length f) 0"

lemma load_binaries_spec:
  assumes "\<forall>f \<in> set files. length f \<le> EGOS_BIN_MAX_NBYTE" and "length pre = i * EGOS_BIN_MAX_NBYTE"
    and "length files * EGOS_BIN_MAX_NBYTE \<le> m"
  shows "load_binaries files i (pre @ replicate m 0) =
    Inr (pre @ concat (map slot files) @ replicate (m - length files * EGOS_BIN_MAX_NBYTE) 0)"
  using assms
proof (induction files arbitrary: i pre m)
  case (Cons f files)
  then have f: "length f \<le> EGOS_BIN_MAX_NBYTE" "EGOS_BIN_MAX_NBYTE \<le> m" by simp_all
  have "replicate (m - length f) 0 = replicate (EGOS_BIN_MAX_NBYTE - length f) (0 :: u8) @ replicate (m - EGOS_BIN_MAX_NBYTE) 0"
    using f by (simp flip: replicate_add)
  then have "load_file f (i * EGOS_BIN_MAX_NBYTE) (pre @ replicate m 0) = Inr (length f, (pre @ slot f) @ replicate (m - EGOS_BIN_MAX_NBYTE) 0)"
    using Cons.prems(2) f by (simp add: load_file_def mem_write_def slot_def)
  then have "load_binaries (f # files) i (pre @ replicate m 0) = load_binaries files (i + 1) ((pre @ slot f) @ replicate (m - EGOS_BIN_MAX_NBYTE) 0)"
    by simp
  also have "\<dots> = Inr ((pre @ slot f) @ concat (map slot files) @ replicate (m - EGOS_BIN_MAX_NBYTE - length files * EGOS_BIN_MAX_NBYTE) 0)"
    using Cons.prems f by (intro Cons.IH) (simp_all add: slot_def)
  finally show ?case by simp
qed simp

lemma drop_concat: "\<forall>x \<in> set xs. length x = n \<Longrightarrow> drop (k * n) (concat xs) = concat (drop k xs)"
proof (induction xs arbitrary: k)
  case (Cons x xs)
  then show ?case by (cases k) simp_all
qed simp

lemma mkfs_disk:
  assumes "mkfs F egos_binaries dir beyond rwfs = Inr (disk, rom)" and "\<forall>f \<in> set egos_binaries. length f \<le> EGOS_BIN_MAX_NBYTE"
    and "length egos_binaries \<le> 16"
  shows "\<exists>rest. disk = concat (map slot egos_binaries) @ rest"
proof -
  have "load_binaries egos_binaries 0 (replicate SIZE_2MB 0) =
      Inr (concat (map slot egos_binaries) @ replicate (SIZE_2MB - length egos_binaries * EGOS_BIN_MAX_NBYTE) 0)"
    using load_binaries_spec [of egos_binaries "[]" 0 SIZE_2MB] assms(2,3) by simp
  with assms(1) show ?thesis by (auto simp: mkfs_def Let_def res_bind_Inr_iff split: if_splits prod.splits)
qed

text \<open>
  C36: the servers are started from what the image holds. If every binary fits its slot of 128 KB, then the blocks that the process server reads for the program at
  \<^verbatim>\<open>k\<close> times 256 blocks are those of binary \<^verbatim>\<open>k\<close>, filled up with nulls, from a disk with the image that the image builder has written.
\<close>

theorem servers_loaded_from_image:
  assumes "mkfs F egos_binaries dir beyond rwfs = Inr (disk, rom)" and "\<forall>f \<in> set egos_binaries. length f \<le> EGOS_BIN_MAX_NBYTE"
    and "k < length egos_binaries" "length egos_binaries \<le> 16" "b < 256"
    and "\<forall>n dst w. disk_read G n 1 dst w = res_bind (mem_read disk (unat n * BLOCK_SIZE) BLOCK_SIZE) (\<lambda>d. Inr (d, w))"
  shows "sys_proc_read G (SYS_EXEC_BLOCKS * of_nat k) (of_nat b) dst w =
    Inr (take BLOCK_SIZE (drop (b * BLOCK_SIZE) (egos_binaries ! k @ replicate (EGOS_BIN_MAX_NBYTE - length (egos_binaries ! k)) 0)), w)"
proof -
  obtain rest where disk: "disk = concat (map slot egos_binaries) @ rest" using mkfs_disk [OF assms(1,2,4)] by blast
  let ?t = "concat (map slot (drop (k + 1) egos_binaries)) @ rest"
  have len: "length (slot f) = EGOS_BIN_MAX_NBYTE" if "f \<in> set egos_binaries" for f
    using assms(2) that by (simp add: slot_def)
  have k: "egos_binaries ! k \<in> set egos_binaries" using assms(3) by simp
  have "unat (of_nat (256 * k + b) :: u32) = 256 * k + b"
    using assms(3-5) by (simp add: unat_of_nat take_bit_eq_mod del: of_nat_add of_nat_mult)
  then have n: "unat (256 * of_nat k + of_nat b :: u32) = 256 * k + b" by simp
  have c: "length (concat (map slot egos_binaries)) = length egos_binaries * EGOS_BIN_MAX_NBYTE"
    using len by (simp add: length_concat o_def sum_list_triv cong: map_cong)
  have "drop (k * EGOS_BIN_MAX_NBYTE) disk = concat (drop k (map slot egos_binaries)) @ rest"
    using drop_concat [of "map slot egos_binaries" EGOS_BIN_MAX_NBYTE k] len c assms(3) by (simp add: disk)
  also have "drop k (map slot egos_binaries) = slot (egos_binaries ! k) # map slot (drop (k + 1) egos_binaries)"
    using assms(3) by (simp add: drop_map flip: Cons_nth_drop_Suc)
  finally have d: "drop (k * EGOS_BIN_MAX_NBYTE) disk = slot (egos_binaries ! k) @ ?t" by simp
  have "(256 * k + b) * BLOCK_SIZE = b * BLOCK_SIZE + k * EGOS_BIN_MAX_NBYTE" by simp
  then have "drop ((256 * k + b) * BLOCK_SIZE) disk = drop (b * BLOCK_SIZE) (slot (egos_binaries ! k) @ ?t)"
    by (metis d drop_drop)
  then have "take BLOCK_SIZE (drop ((256 * k + b) * BLOCK_SIZE) disk) = take BLOCK_SIZE (drop (b * BLOCK_SIZE) (slot (egos_binaries ! k)))"
    using len [OF k] assms(5) by simp
  moreover have "(256 * k + b) * BLOCK_SIZE + BLOCK_SIZE \<le> length disk"
    using c assms(3,5) by (simp add: disk)
  ultimately show ?thesis
    using assms(6) n by (simp add: sys_proc_read_def mem_read_def slot_def)
qed

text \<open>A file system that stores nothing, and a disk with the image built over it.\<close>

definition empty_fs :: file_system where
  "empty_fs = \<lparr>disk_create = (\<lambda>_ fs. Inr fs), disk_write = (\<lambda>_ _ _ _ fs. Inr fs)\<rparr>"

definition image_disk :: "bytes \<Rightarrow> unit grass" where
  "image_disk disk = one_app\<lparr>disk_read := (\<lambda>n _ _ w. res_bind (mem_read disk (unat n * BLOCK_SIZE) BLOCK_SIZE) (\<lambda>d. Inr (d, w)))\<rparr>"

lemma write_contents_empty:
  "BLOCK_SIZE \<le> length inode \<Longrightarrow> \<exists>inode'. write_contents empty_fs cs ino inode fs = Inr (inode', fs)"
proof (induction cs arbitrary: ino inode)
  case (Cons c cs)
  then obtain i' where i: "strncpy inode c BLOCK_SIZE = Inr i'"
    using mem_write_Inr_iff [of inode 0 "take BLOCK_SIZE (c @ replicate BLOCK_SIZE 0)"] by (auto simp: strncpy_def)
  then have "length i' = length inode" by (auto simp: strncpy_def dest: length_mem_write)
  then show ?case using Cons i by (simp add: empty_fs_def)
qed simp

lemma mkfs_empty: "\<exists>disk rom. mkfs empty_fs [[0x13]] [] [] (replicate SIZE_2MB 0) = Inr (disk, rom)"
proof -
  let ?fs = "replicate SIZE_2MB (0 :: u8)"
  obtain inode where "write_contents empty_fs contents 0 ?fs ?fs = Inr (inode, ?fs)"
    using write_contents_empty [of ?fs contents 0 ?fs] by auto
  moreover have "load_binaries [[0x13]] 0 ?fs = Inr (concat (map slot [[0x13]]) @ replicate (SIZE_2MB - EGOS_BIN_MAX_NBYTE) 0)"
    using load_binaries_spec [of "[[0x13]]" "[]" 0 SIZE_2MB] by simp
  ultimately show ?thesis
    by (simp add: mkfs_def empty_fs_def slot_def length_concat sum_list_replicate)
qed

theorem servers_loaded_from_image_witness:
  "\<exists>disk rom. mkfs empty_fs [[0x13]] [] [] (replicate SIZE_2MB 0) = Inr (disk, rom) \<and>
     sys_proc_read (image_disk disk) (SYS_EXEC_BLOCKS * of_nat 0) (of_nat 0) [] () = Inr (0x13 # replicate 511 0, ())"
proof -
  obtain disk rom where m: "mkfs empty_fs [[0x13]] [] [] (replicate SIZE_2MB 0) = Inr (disk, rom)" using mkfs_empty by blast
  have h: "\<forall>f \<in> set [[0x13 :: u8]]. length f \<le> EGOS_BIN_MAX_NBYTE" "0 < length [[0x13 :: u8]]" "length [[0x13 :: u8]] \<le> 16" "(0 :: nat) < 256"
    "\<forall>n dst w. disk_read (image_disk disk) n 1 dst w = res_bind (mem_read disk (unat n * BLOCK_SIZE) BLOCK_SIZE) (\<lambda>d. Inr (d, w))"
    by (simp_all add: image_disk_def)
  show ?thesis
    using m servers_loaded_from_image [OF m h, of "[]" "()"] by (auto simp: take_Cons')
qed

end
