(* ===== verification/Mkfs_Rwfs.thy ===== *)
theory Mkfs_Rwfs
  imports Mkfs_Image
begin

text \<open>
  \<^verbatim>\<open>mkrwfs()\<close> of \<^verbatim>\<open>tools/mkfs.c\<close>: the writable file system in the array \<^verbatim>\<open>rwfs\<close>. The structures it is laid out by (\<^verbatim>\<open>super_t\<close>, \<^verbatim>\<open>inode_t\<close>,
  \<^verbatim>\<open>dirent_t\<close>) and their places and sizes are defined outside the repository. The array is therefore a store of typed locations, one for every member that the
  function assigns to and every byte of the bitmap and the data; constants from outside are an argument. That locations do not overlap is what the comment
  in the function says of its blocks.
\<close>

record rwfs_layout =
  DATA_BLOCK_START :: nat
  NUM_PTRS :: nat
  MODE_D :: nat
  MODE_F :: nat
  MODE_ALL :: nat
  sizeof_dirent :: nat

text \<open>Inodes are named by their number, directory entries and pointers by block and index, data by its place in the array.\<close>

datatype rwfs_loc =
    Super_magic | Super_total_blks | Map_byte nat
  | Inode_mode nat | Inode_pad0 nat | Inode_size nat | Inode_ptr nat nat | Inode_indirect nat
  | Dirent_valid nat nat | Dirent_inum nat nat | Dirent_name nat nat nat
  | Indirect_ptr nat nat | Data nat

type_synonym rwfs = "rwfs_loc \<Rightarrow> nat"

section \<open>The function\<close>

definition mark_block :: "nat \<Rightarrow> rwfs \<Rightarrow> rwfs" where
  "mark_block i m = m(Map_byte (i div 8) := or (m (Map_byte (i div 8))) (push_bit (i mod 8) 1))"

text \<open>\<^verbatim>\<open>strcpy()\<close> to the locations \<open>f 0\<close>, \<open>f 1\<close> and so on, with the null at the end.\<close>

definition strcpy_to :: "(nat \<Rightarrow> rwfs_loc) \<Rightarrow> string \<Rightarrow> rwfs \<Rightarrow> rwfs" where
  "strcpy_to f t m = (fold (\<lambda>i m. m(f i := of_char (t ! i))) [0..<length t] m)(f (length t) := 0)"

definition mk_entry :: "nat \<Rightarrow> nat \<Rightarrow> nat \<Rightarrow> string \<Rightarrow> rwfs \<Rightarrow> rwfs" where
  "mk_entry blk i inum name m =
     strcpy_to (Dirent_name blk i) name (m(Dirent_valid blk i := 1, Dirent_inum blk i := inum))"

definition mk_root :: "rwfs_layout \<Rightarrow> rwfs \<Rightarrow> rwfs" where
  "mk_root L m =
     (let root_ino = 0; file1_ino = 1; dir1_ino = 2; root_data_blk = DATA_BLOCK_START L;
          m = m(Inode_mode root_ino := or (MODE_D L) (MODE_ALL L), Inode_pad0 root_ino := 0xdeadbeef, Inode_ptr root_ino 0 := root_data_blk);
          m = mk_entry root_data_blk 0 root_ino ''.'' m;
          m = mk_entry root_data_blk 1 2 ''..'' m;
          m = mk_entry root_data_blk 2 file1_ino ''file1.txt'' m;
          m = mk_entry root_data_blk 3 dir1_ino ''dir1'' m
      in m(Inode_size root_ino := 4 * sizeof_dirent L))"

definition mk_dir1 :: "rwfs_layout \<Rightarrow> rwfs \<Rightarrow> rwfs" where
  "mk_dir1 L m =
     (let root_ino = 0; dir1_ino = 2; file2_ino = 3; dir1_data_blk = DATA_BLOCK_START L + 2;
          m = m(Inode_mode dir1_ino := or (MODE_D L) (MODE_ALL L), Inode_pad0 dir1_ino := 0xdeadbeef, Inode_ptr dir1_ino 0 := dir1_data_blk);
          m = mk_entry dir1_data_blk 0 dir1_ino ''.'' m;
          m = mk_entry dir1_data_blk 1 root_ino ''..'' m;
          m = mk_entry dir1_data_blk 2 file2_ino ''file2.txt'' m
      in m(Inode_size dir1_ino := 3 * sizeof_dirent L))"

definition mk_file1 :: "rwfs_layout \<Rightarrow> rwfs \<Rightarrow> rwfs" where
  "mk_file1 L m =
     (let file1_ino = 1; file1_data_blk = DATA_BLOCK_START L + 1;
          m = m(Inode_mode file1_ino := or (MODE_F L) (MODE_ALL L), Inode_pad0 file1_ino := 0xdeadbeef, Inode_ptr file1_ino 0 := file1_data_blk);
          m = strcpy_to (\<lambda>i. Data (BLOCK_SIZE * file1_data_blk + i)) ''hello world'' m
      in m(Inode_size file1_ino := 11))"

definition file2_data_blks :: "rwfs_layout \<Rightarrow> nat list" where
  "file2_data_blks L = map (\<lambda>i. DATA_BLOCK_START L + i) [4..<15]"

definition hex :: string where
  "hex = ''0123456789abcdef,''"

text \<open>One turn of the loop over the contents: 17 bytes at \<open>start\<close>.\<close>

definition put_hex :: "nat \<Rightarrow> rwfs \<Rightarrow> rwfs" where
  "put_hex start m = fold (\<lambda>i m. m(Data (start + i) := of_char (hex ! i))) [0..<17] m"

definition mk_file2 :: "rwfs_layout \<Rightarrow> rwfs \<Rightarrow> rwfs" where
  "mk_file2 L m =
     (let file2_ino = 3; file2_indirect_blk = DATA_BLOCK_START L + 3; fsz = BLOCK_SIZE * 11;
          m = m(Inode_mode file2_ino := or (MODE_F L) (MODE_ALL L), Inode_pad0 file2_ino := 0xdeadbeef, Inode_indirect file2_ino := file2_indirect_blk);
          m = fold (\<lambda>i m. m(Inode_ptr file2_ino i := file2_data_blks L ! i)) [0..<NUM_PTRS L] m;
          m = m(Indirect_ptr file2_indirect_blk 0 := file2_data_blks L ! 10);
          m = fold (\<lambda>i. put_hex (BLOCK_SIZE * file2_data_blks L ! 0 + 17 * i)) [0..<fsz div 17] m
      in m(Inode_size file2_ino := fsz))"

definition mkrwfs :: "rwfs_layout \<Rightarrow> rwfs" where
  "mkrwfs L =
     (let m = (\<lambda>_. 0)(Super_magic := 0x6640, Super_total_blks := SIZE_2MB div BLOCK_SIZE);
          m = fold mark_block [0..<27] m;
          m = mk_root L m;
          m = mk_dir1 L m;
          m = mk_file1 L m
      in mk_file2 L m)"

section \<open>What a reader finds\<close>

definition marked :: "rwfs \<Rightarrow> nat \<Rightarrow> bool" where
  "marked m b \<longleftrightarrow> bit (m (Map_byte (b div 8))) (b mod 8)"

definition entry_named :: "rwfs \<Rightarrow> nat \<Rightarrow> string \<Rightarrow> nat \<Rightarrow> bool" where
  "entry_named m blk name i \<longleftrightarrow> m (Dirent_valid blk i) = 1 \<and>
     list_all (\<lambda>j. m (Dirent_name blk i j) = of_char (name ! j)) [0..<length name] \<and> m (Dirent_name blk i (length name)) = 0"

text \<open>The inode of a name in a directory, which fits one block.\<close>

definition rwfs_lookup :: "rwfs_layout \<Rightarrow> rwfs \<Rightarrow> nat \<Rightarrow> string \<Rightarrow> nat option" where
  "rwfs_lookup L m ino name =
     (let blk = m (Inode_ptr ino 0)
      in map_option (\<lambda>i. m (Dirent_inum blk i)) (first_index (entry_named m blk name) [0..<m (Inode_size ino) div sizeof_dirent L]))"

text \<open>The \<open>k\<close>-th block of a file, and its bytes.\<close>

definition file_block :: "rwfs_layout \<Rightarrow> rwfs \<Rightarrow> nat \<Rightarrow> nat \<Rightarrow> nat" where
  "file_block L m ino k = (if k < NUM_PTRS L then m (Inode_ptr ino k) else m (Indirect_ptr (m (Inode_indirect ino)) (k - NUM_PTRS L)))"

definition rwfs_contents :: "rwfs_layout \<Rightarrow> rwfs \<Rightarrow> nat \<Rightarrow> nat list" where
  "rwfs_contents L m ino = map (\<lambda>k. m (Data (BLOCK_SIZE * file_block L m ino (k div BLOCK_SIZE) + k mod BLOCK_SIZE))) [0..<m (Inode_size ino)]"

lemma upd_fold_other: "(\<And>i. x \<noteq> f i) \<Longrightarrow> fold (\<lambda>i m. m(f i := g i)) is m x = m x"
  by (induction "is" arbitrary: m) simp_all

lemma put_hex_at: "put_hex a m x = (case x of Data d \<Rightarrow> if a \<le> d \<and> d < a + 17 then of_char (hex ! (d - a)) else m x | _ \<Rightarrow> m x)"
proof (cases x)
  case (Data d)
  have "fold (\<lambda>i m. m(Data (a + i) := of_char (hex ! i))) [0..<n] m (Data d) = (if a \<le> d \<and> d < a + n then of_char (hex ! (d - a)) else m (Data d))" for n
    by (induction n) (auto simp: less_Suc_eq)
  then show ?thesis using Data by (simp only: put_hex_def rwfs_loc.case)
qed (simp_all add: put_hex_def upd_fold_other del: upt_Suc)

lemma put_hex_loop:
  "fold (\<lambda>i. put_hex (a + 17 * i)) [0..<n] m x =
     (case x of Data d \<Rightarrow> if a \<le> d \<and> d < a + 17 * n then of_char (hex ! ((d - a) mod 17)) else m x | _ \<Rightarrow> m x)"
proof (induction n)
  case 0
  then show ?case by (simp split: rwfs_loc.splits)
next
  case (Suc n)
  have "(d - a) mod 17 = d - (a + 17 * n)" if "a + 17 * n \<le> d" "d < a + 17 * n + 17" for d
  proof -
    have "d - a = (d - (a + 17 * n)) + 17 * n" "d - (a + 17 * n) < 17" using that by linarith+
    then show ?thesis by (metis mod_less mod_mult_self2)
  qed
  then show ?case using Suc by (auto simp: put_hex_at split: rwfs_loc.splits)
qed

lemma mark_block_bit: "bit (mark_block n m (Map_byte q)) r \<longleftrightarrow> bit (m (Map_byte q)) r \<or> q = n div 8 \<and> r = n mod 8"
  by (auto simp: mark_block_def bit_or_iff bit_exp_iff)

lemma mark_blocks: "bit (fold mark_block [0..<n] m (Map_byte q)) r \<longleftrightarrow> bit (m (Map_byte q)) r \<or> r < 8 \<and> 8 * q + r < n"
proof (induction n)
  case (Suc n)
  have "q = n div 8 \<and> r = n mod 8 \<longleftrightarrow> r < 8 \<and> 8 * q + r = n" by auto
  then show ?case using Suc by (auto simp: mark_block_bit less_Suc_eq)
qed simp

lemma mark_blocks_other: "(\<And>q. x \<noteq> Map_byte q) \<Longrightarrow> fold mark_block is m x = m x"
  by (induction "is" arbitrary: m) (simp_all add: mark_block_def)

text \<open>The assignments of the last part.\<close>

lemma mk_file2_at:
  assumes "NUM_PTRS L = 10"
  shows "mk_file2 L m x = (case x of
      Inode_mode i \<Rightarrow> if i = 3 then or (MODE_F L) (MODE_ALL L) else m x
    | Inode_pad0 i \<Rightarrow> if i = 3 then 0xdeadbeef else m x
    | Inode_size i \<Rightarrow> if i = 3 then 5632 else m x
    | Inode_indirect i \<Rightarrow> if i = 3 then DATA_BLOCK_START L + 3 else m x
    | Inode_ptr i k \<Rightarrow> if i = 3 \<and> k < 10 then DATA_BLOCK_START L + 4 + k else m x
    | Indirect_ptr b k \<Rightarrow> if b = DATA_BLOCK_START L + 3 \<and> k = 0 then DATA_BLOCK_START L + 14 else m x
    | Data d \<Rightarrow> if 512 * (DATA_BLOCK_START L + 4) \<le> d \<and> d < 512 * (DATA_BLOCK_START L + 4) + 5627
        then of_char (hex ! ((d - 512 * (DATA_BLOCK_START L + 4)) mod 17)) else m x
    | _ \<Rightarrow> m x)"
proof -
  have b: "file2_data_blks L ! i = DATA_BLOCK_START L + 4 + i" if "i < 11" for i 
  proof -
    have l: "i < length [4..<15]" "4 + i < 15" using that by simp_all
    show ?thesis unfolding file2_data_blks_def nth_map [OF l(1)] nth_upt [OF l(2)] by simp
  qed
  have p: "fold (\<lambda>i m. m(Inode_ptr 3 i := file2_data_blks L ! i)) [0..<n] m x =
      (case x of Inode_ptr i k \<Rightarrow> if i = 3 \<and> k < n then DATA_BLOCK_START L + 4 + k else m x | _ \<Rightarrow> m x)" if "n \<le> 11" for n m x
    using that by (induction n) (auto simp: b less_Suc_eq split: rwfs_loc.splits)
  show ?thesis
    using assms b [of 0] b [of 10] by (simp add: mk_file2_def Let_def put_hex_loop p [of 10] split: rwfs_loc.splits del: upt_Suc)
qed

lemma strcpy_to_other: "(\<And>i. x \<noteq> f i) \<Longrightarrow> strcpy_to f t m x = m x"
  by (simp add: strcpy_to_def upd_fold_other)

lemma strcpy_to_at:
  assumes "inj f"
  shows "strcpy_to f t m (f i) = (if i < length t then of_char (t ! i) else if i = length t then 0 else m (f i))"
proof -
  have "fold (\<lambda>i m. m(f i := of_char (t ! i))) [0..<n] m (f i) = (if i < n then of_char (t ! i) else m (f i))" for n
    using assms by (induction n) (auto simp: inj_eq less_Suc_eq)
  then show ?thesis using assms by (simp add: strcpy_to_def inj_eq)
qed

lemma strcpy_data:
  "strcpy_to (\<lambda>i. Data (a + i)) t m x = (case x of
     Data d \<Rightarrow> if a \<le> d \<and> d < a + length t then of_char (t ! (d - a)) else if d = a + length t then 0 else m x
   | _ \<Rightarrow> m x)"
proof (cases "\<exists>i. x = Data (a + i)")
  case True
  have "inj (\<lambda>i. Data (a + i))" by (rule injI) simp
  from True strcpy_to_at [OF this, of t m] show ?thesis by auto
next
  case False
  then have "strcpy_to (\<lambda>i. Data (a + i)) t m x = m x" by (intro strcpy_to_other) auto
  moreover have "d < a" if "x = Data d" for d using False that by (metis le_add_diff_inverse leI)
  ultimately show ?thesis by (auto split: rwfs_loc.splits)
qed

lemma mk_entry_at:
  "mk_entry b i n t m x = (case x of
     Dirent_valid c j \<Rightarrow> if c = b \<and> j = i then 1 else m x
   | Dirent_inum c j \<Rightarrow> if c = b \<and> j = i then n else m x
   | Dirent_name c j k \<Rightarrow> if c = b \<and> j = i then if k < length t then of_char (t ! k) else if k = length t then 0 else m x else m x
   | _ \<Rightarrow> m x)"
proof -
  have "inj (Dirent_name b i)" by (rule injI) simp
  then show ?thesis
    by (auto simp: mk_entry_def strcpy_to_other strcpy_to_at split: rwfs_loc.splits)
qed

text \<open>
  With the layout that the comments describe, the file system holds the files: a path is resolved by the directories, through their inodes and blocks, the contents of
  \<^verbatim>\<open>file1.txt\<close> are its text, those of \<^verbatim>\<open>file2.txt\<close> run over ten direct and one indirect block, with nulls in the last five bytes, and exactly the blocks in use are
  marked.
\<close>

lemmas rwfs_at = mkrwfs_def mk_file2_at mk_file1_def mk_dir1_def mk_root_def mk_entry_at strcpy_data Let_def

lemma mkrwfs_directories:
  assumes L: "NUM_PTRS L = 10" "0 < sizeof_dirent L"
  shows "rwfs_lookup L (mkrwfs L) 0 ''file1.txt'' = Some 1" "rwfs_lookup L (mkrwfs L) 0 ''dir1'' = Some 2"
    "rwfs_lookup L (mkrwfs L) 2 ''file2.txt'' = Some 3" "rwfs_lookup L (mkrwfs L) 2 ''..'' = Some 0"
proof -
  let ?m = "mkrwfs L" and ?D = "DATA_BLOCK_START L"
  have i: "?m (Inode_size 0) div sizeof_dirent L = 4" "?m (Inode_size 2) div sizeof_dirent L = 3" "?m (Inode_ptr 0 0) = ?D" "?m (Inode_ptr 2 0) = ?D + 2"
    using L by (simp_all add: rwfs_at)
  have u: "[0..<4 :: nat] = [0, 1, 2, 3]" "[0..<3 :: nat] = [0, 1, 2]" by (simp_all add: upt_rec)
  have r: "entry_named ?m ?D t 0 \<longleftrightarrow> t = ''.''" "entry_named ?m ?D t 1 \<longleftrightarrow> t = ''..''" if "t \<in> {''file1.txt'', ''dir1''}" for t
    using that L(1) by (auto simp: entry_named_def rwfs_at)
  have e: "entry_named ?m ?D ''file1.txt'' 2" "\<not> entry_named ?m ?D ''dir1'' 2" "entry_named ?m ?D ''dir1'' 3"
      "\<not> entry_named ?m (?D + 2) ''..'' 0" "entry_named ?m (?D + 2) ''..'' 1"
      "\<not> entry_named ?m (?D + 2) ''file2.txt'' 0" "\<not> entry_named ?m (?D + 2) ''file2.txt'' 1" "entry_named ?m (?D + 2) ''file2.txt'' 2"
    using L(1) by (simp_all add: entry_named_def rwfs_at)
  have n: "?m (Dirent_inum ?D 2) = 1" "?m (Dirent_inum ?D 3) = 2" "?m (Dirent_inum (?D + 2) 1) = 0" "?m (Dirent_inum (?D + 2) 2) = 3"
    using L(1) by (simp_all add: rwfs_at)
  show "rwfs_lookup L ?m 0 ''file1.txt'' = Some 1" "rwfs_lookup L ?m 0 ''dir1'' = Some 2"
    unfolding rwfs_lookup_def Let_def i u using r e n by (simp_all add: numeral_2_eq_2 numeral_3_eq_3)
  show "rwfs_lookup L ?m 2 ''file2.txt'' = Some 3" "rwfs_lookup L ?m 2 ''..'' = Some 0"
    unfolding rwfs_lookup_def Let_def i u using e n by (simp_all add: numeral_2_eq_2)
qed

lemma mkrwfs_file1:
  assumes "NUM_PTRS L = 10"
  shows "rwfs_contents L (mkrwfs L) 1 = map of_char ''hello world''"
proof -
  define t where "t = ''hello world''"
  then have t: "''hello world'' = t" "length t = 11" by simp_all
  have "mkrwfs L (Data (512 * (DATA_BLOCK_START L + 1) + i)) = of_char (t ! i)" if "i < 11" for i
    using that assms t(2) unfolding mkrwfs_def mk_file1_def Let_def t(1) by (simp add: mk_file2_at strcpy_data)
  moreover have "mkrwfs L (Inode_size 1) = 11" "mkrwfs L (Inode_ptr 1 0) = DATA_BLOCK_START L + 1"
    using assms by (simp_all add: rwfs_at)
  ultimately have "rwfs_contents L (mkrwfs L) 1 = map (\<lambda>i. of_char (t ! i)) [0..<11]"
    using assms by (simp add: rwfs_contents_def file_block_def del: upt_Suc)
  also have "\<dots> = map of_char (map ((!) t) [0..<length t])" using t(2) by simp
  finally show ?thesis unfolding map_nth t(1) [symmetric] .
qed

lemma mkrwfs_file2:
  assumes "NUM_PTRS L = 10"
  shows "rwfs_contents L (mkrwfs L) 3 = map (\<lambda>k. if k < 5627 then of_char (hex ! (k mod 17)) else 0) [0..<5632]"
proof -
  have blk: "file_block L (mkrwfs L) 3 q = DATA_BLOCK_START L + 4 + q" if "q < 11" for q
    using that assms by (auto simp: file_block_def mkrwfs_def Let_def mk_file2_at)
  have "mkrwfs L (Data (512 * (DATA_BLOCK_START L + 4 + k div 512) + k mod 512)) = (if k < 5627 then of_char (hex ! (k mod 17)) else 0)" if "k < 5632" for k
  proof -
    have "512 * (DATA_BLOCK_START L + 4 + k div 512) + k mod 512 = 512 * (DATA_BLOCK_START L + 4) + k" by (simp add: algebra_simps)
    then show ?thesis
      using assms by (simp add: rwfs_at mark_blocks_other del: upt_Suc)
  qed
  moreover have "mkrwfs L (Inode_size 3) = 5632" using assms by (simp add: mkrwfs_def Let_def mk_file2_at)
  ultimately show ?thesis using blk by (simp add: rwfs_contents_def del: upt_Suc)
qed

lemma mkrwfs_bitmap: "NUM_PTRS L = 10 \<Longrightarrow> marked (mkrwfs L) b \<longleftrightarrow> b < 27"
  by (simp add: marked_def rwfs_at mark_blocks del: upt_Suc)

end
