(* ===== verification/Spec2Isabelle.thy ===== *)
theory Spec2Isabelle
  imports Http_Props Tcp_Handshake Tcp_Close Uip_Udp Uip_Reass Boot Mem_Vm_Props Mlfq Mkfs_Rwfs
begin

text \<open>
  The socket networking stack of egos-2000, and the parts of the system around it that the repository holds.

  \<^bold>\<open>The program.\<close> A program calls the functions of \<^verbatim>\<open>library/syscall/servers.c\<close>, which send a request to a server process and wait for its
  reply. The network service \<^verbatim>\<open>apps/system/sys_net.c\<close> answers the requests for sockets and raw frames. It polls the network device through
  \<^verbatim>\<open>struct earth\<close>, gives frames to uIP (\<^verbatim>\<open>library/uip/uip.c\<close>) and its address resolution (\<^verbatim>\<open>library/uip/uip_arp.c\<close>), and exchanges data with
  uIP through the callback \<^verbatim>\<open>httpd_appcall()\<close> in \<^verbatim>\<open>library/uip/httpd.c\<close>. The device is an Intel e1000, driven by \<^verbatim>\<open>earth/dev_net.c\<close> through descriptor rings
  in shared memory. Beside it are the page tables (\<^verbatim>\<open>earth/mem_vm.c\<close>), the scheduler (\<^verbatim>\<open>grass/mlfq.c\<close>), the process server
  (\<^verbatim>\<open>apps/system/sys_proc.c\<close>), the programs \<^verbatim>\<open>apps/user/http.c\<close> and \<^verbatim>\<open>apps/user/net_raw_test.c\<close>, the image builder (\<^verbatim>\<open>tools/mkfs.c\<close>), and the boot
  function (\<^verbatim>\<open>earth/boot.c\<close>). Paths are relative to \<^verbatim>\<open>src/snapshot/\<close>.

  \<^bold>\<open>The model.\<close> Definitions follow the source function by function, and a label or case of the long function \<^verbatim>\<open>uip_process()\<close> is a definition of its own. The
  variables of a C file are a record, its integers are words of their width where they can wrap, an array is the list of its bytes, and
  a function that can fail gives a value of \<^typ>\<open>'a res\<close>: a result, or the \<^typ>\<open>fault\<close> that C code commits when it leaves an array, follows
  a null pointer, stops in \<^verbatim>\<open>FATAL\<close>, or does not return.

  \<^item> \<open>Prelude\<close>: results, byte arrays, byte order, and lemmas on words and lists.
  \<^item> \<open>Uip_Arith\<close>: \<^verbatim>\<open>htons()\<close>, the address macros, 32-bit addition on bytes, the Internet checksum (\<^verbatim>\<open>uip.c\<close>, \<^verbatim>\<open>uip.h\<close>).
  \<^item> \<open>Uip_State\<close>: the connection, the statistics, the variables of \<^verbatim>\<open>uip.c\<close>, the header fields in \<^verbatim>\<open>uip_buf\<close>; constants of \<^verbatim>\<open>uipopt.h\<close> and \<^verbatim>\<open>uip-conf.h\<close>.
  \<^item> \<open>Uip_Out\<close>: the labels of \<^verbatim>\<open>uip_process()\<close> that send. \<open>Uip_Process\<close>: its input, timer and poll half. \<open>Uip_Conn\<close>: \<^verbatim>\<open>uip_init()\<close>, \<^verbatim>\<open>uip_connect()\<close>,
    \<^verbatim>\<open>uip_listen()\<close>, \<^verbatim>\<open>uip_unlisten()\<close>.
  \<^item> \<open>Httpd\<close>: the callback, and \<^verbatim>\<open>uip_send()\<close>. Its variables extend the record of the stack.
  \<^item> \<open>Uip_Inv\<close>: the invariant of the stack; the locale \<open>uip_app\<close> states the contract of a callback, and inside it every label keeps the invariant.
    \<open>Httpd\<close> interprets it twice, with and without tolerated faults.
  \<^item> \<open>Uip_Segment\<close>: packets as segments, and the segments the output labels leave. \<open>Uip_Examples\<close>: concrete states and frames.
  \<^item> \<open>Tcp_Props\<close>, \<open>Ip_Props\<close>, \<open>Uip_Safety\<close>: what happens to a packet. \<open>Tcp_State\<close>: the inductive relation of the TCP transitions, and that the code makes only
    these. \<open>Tcp_Timer\<close>: retransmission and giving up.
  \<^item> \<open>Tcp_Peers\<close>, \<open>Tcp_Handshake\<close>, \<open>Tcp_Close\<close>: two hosts that both run the stack, the packets of one being the input of the other: data over a link that loses packets, the
    opening of a connection, and its close.
  \<^item> \<open>Uip_Udp\<close>, \<open>Uip_Reass\<close>: UDP and IP reassembly, which \<^verbatim>\<open>uip.c\<close> has and the configuration leaves out, in a build that switches them on. Their variables extend the record of
    the stack, and the rest of \<^verbatim>\<open>uip_process()\<close> is the same.
  \<^item> \<open>Uip_Arp\<close>: the table, its timer, ARP input and output; the locale \<open>neighbour_cache\<close> and its extension \<open>bounded_cache\<close>, interpreted on the table, state what a
    cache promises and what it keeps while there is room.
  \<^item> \<open>Dev_Net\<close>: the driver; the locale \<open>frame_device\<close>, interpreted on it, is what the service relies on. \<open>Boot\<close>: the cores start, the first initialises the driver, and
    the service starts on it.
  \<^item> \<open>Sys_Net\<close>, \<open>Sys_Net_Props\<close>: the service, over any \<open>frame_device\<close>, and over the driver.
  \<^item> \<open>Servers\<close>: the client functions, the terminal functions and the two programs; the locale \<open>sock_server\<close> is what a client relies on, interpreted on the
    service. \<open>Client_Props\<close>: from a program's call down to the transmit ring, and from a received frame up to a program's buffer.
  \<^item> \<open>Wire\<close>: the two rings as queues of frames; the locale \<open>wire\<close> extends \<open>frame_device\<close> by what is read and handed over, and the driver provides it with a
    device that completes its descriptors. For a device that goes on filling the receive ring, \<open>queue_looks\<close> is the queue that repeated calls of
    \<^verbatim>\<open>net_recv()\<close> refine. \<open>Http_Session\<close>: the calls of a session over any \<open>wire\<close>: accept, receive, send, close. \<open>Http_Props\<close>: a turn of the HTTP program.
  \<^item> \<open>Mem_Vm\<close>, \<open>Mem_Vm_Map\<close>, \<open>Mem_Vm_Props\<close>: page tables in a memory of words, refined to maps of page numbers, and the translation of the processor.
  \<^item> \<open>Mlfq\<close>: the scheduler, and the states it can reach. \<open>Mkfs\<close>, \<open>Mkfs_Image\<close>: the image builder. \<open>Mkfs_Rwfs\<close>: the writable file system it
    lays out. \<open>Sys_Proc\<close>: the process server.

  \<^bold>\<open>What is shown.\<close> Data sent by a program leaves as a segment with right numbers and checksums at the end of the transmit ring, and data of an accepted
  segment reaches the program that waits for it and is acknowledged. One turn of the HTTP program takes a handshake and a request from the wire and puts an
  acknowledgement and the page on it. Every packet, timer tick and poll keeps the stack well formed, and conditions
  are given under which it stays within its arrays and returns. Requests are answered once each and in order. Connections follow the TCP state
  machine; unacknowledged data is sent again and a silent peer is given up in bounded time. Two hosts with this stack connect, exchange
  streams of bytes that arrive once and in order although packets are lost, and close at both ends. Bad, stray and out-of-sequence packets have only the effects TCP
  and IP prescribe. A UDP datagram arrives with the bytes that were sent, and fragments are put together in any order. The transmit and the receive ring are queues of
  frames, the ARP table a cache of eight addresses, the page table a map; the scheduler's choice and its three queues are given exactly, and a line read from the terminal with its echo. Some theorems state where the code does not do what it means
  to: a SYN on which it does not return, a handshake that does not survive the loss of a SYN with ACK, a send that leaves a buffer, a transmit ring that loses its frames, an ARP entry that does not expire, a process that the scheduler loses,
  a reassembled packet that loses its last 20 bytes.

  \<^bold>\<open>Loops and bounds.\<close> The option loop of a SYN and the port searches of \<^verbatim>\<open>uip_connect()\<close> and \<^verbatim>\<open>uip_udp_new()\<close> are partial functions, whose value \<^term>\<open>None\<close> is that the loop does not end; termination is
  proved where it holds. The driver's wait loops have the bounds of the source, 2 to the 24 turns for a descriptor and 10 to the 6 for a reset. The search in a directory ends
  with the buffer. The endless loops of the service, the process server and \<^verbatim>\<open>http.c\<close> are runs over a list of requests or a number of turns; the theorems hold for each.

  \<^bold>\<open>Parameters.\<close> Code outside the repository is an argument with its documented behaviour as hypothesis: the device, the page allocator (\<open>page_allocator\<close>), the queues of the scheduler
  (\<open>queue_laws\<close>), the kernel and the ELF loader, the file server and the file systems with the constants of their layout, the other initialisers of the boot function, the UDP callback. Witnesses give each a concrete value.

  \<^bold>\<open>Not modelled.\<close> Other code that the configuration leaves out: IPv6, ping address configuration, urgent data as a separate stream, logging.
  Output for the console, but for the echo of \<^verbatim>\<open>term_read()\<close>. Numbers that \<^verbatim>\<open>atoi()\<close> reads are unbounded, and \<^verbatim>\<open>net_recv()\<close> sees the device's writes once, at its entry. Interleavings of several cores: a server runs its handler to the end, as the kernel schedules it, and the cores boot one after the other under their lock.
\<close>

section \<open>Arithmetic\<close>


end
